(* ===== verification/Ram_Prelude.thy ===== *)
theory Ram_Prelude
  imports Main "HOL-Library.Word"
begin

text \<open>
  Shared vocabulary of the development: the machine types of
  \<^verbatim>\<open>ramulator/base/type.h\<close>, \<^verbatim>\<open>std::runtime_error\<close> as a value, sequencing of
  computations that may throw, and the facts on lists, bits and natural numbers
  that several components use.

  \<^verbatim>\<open>Clk_t\<close> and \<^verbatim>\<open>Addr_t\<close> are 64-bit signed integers in the code. Clocks are counted
  up from 0 one at a time and latencies are small, so they are unbounded \<open>int\<close> here;
  where the code relies on a width (address hashing, narrowing to \<^verbatim>\<open>int\<close>) the model
  writes the width out.
\<close>

section \<open>Types and errors\<close>

type_synonym Clk_t = int
type_synonym Addr_t = int
type_synonym AddrVec_t = "int list"

text \<open>
  Every \<^verbatim>\<open>throw std::runtime_error(msg)\<close> is the value \<open>Inl (RuntimeError msg)\<close>, the
  message shortened to the part that names the throwing site.
\<close>

datatype ram_error = RuntimeError string

type_synonym 'a result = "ram_error + 'a"

definition throw :: "string \<Rightarrow> 'a result" where
  "throw msg = Inl (RuntimeError msg)"

definition bindR :: "'a result \<Rightarrow> ('a \<Rightarrow> 'b result) \<Rightarrow> 'b result" where
  "bindR m f = (case m of Inl e \<Rightarrow> Inl e | Inr x \<Rightarrow> f x)"

text \<open>A \<^verbatim>\<open>for\<close> loop whose body may throw: the first exception leaves the loop.\<close>

primrec foldR :: "('a \<Rightarrow> 's \<Rightarrow> 's result) \<Rightarrow> 'a list \<Rightarrow> 's \<Rightarrow> 's result" where
  "foldR f [] s = Inr s"
| "foldR f (x # xs) s = bindR (f x s) (foldR f xs)"

text \<open>Writing a value into the low 32 bits of an \<^verbatim>\<open>int\<close> (a narrowing conversion).\<close>

definition to_int32 :: "int \<Rightarrow> int" where
  "to_int32 x = signed_take_bit 31 x"

named_theorems ram_simps \<open>rewriting rules for the operations of the model\<close>

section \<open>Lemmas on results\<close>

lemma bindR_simps [simp]:
  "bindR (Inl e) f = Inl e"
  "bindR (Inr x) f = f x"
  "bindR (throw msg) f = throw msg"
  by (simp_all add: bindR_def throw_def)

lemma throw_neq_Inr [simp]: "throw msg \<noteq> Inr x" "Inr x \<noteq> throw msg"
  by (simp_all add: throw_def)

lemma bindR_eq_Inr_iff: "bindR m f = Inr y \<longleftrightarrow> (\<exists>x. m = Inr x \<and> f x = Inr y)"
  by (cases m) auto

lemma bindR_cong [fundef_cong]:
  "m = m' \<Longrightarrow> (\<And>x. m' = Inr x \<Longrightarrow> f x = f' x) \<Longrightarrow> bindR m f = bindR m' f'"
  by (cases m') auto

lemma foldR_append: "foldR f (xs @ ys) s = bindR (foldR f xs s) (foldR f ys)"
proof (induction xs arbitrary: s)
  case (Cons x xs)
  then show ?case by (cases "f x s") auto
qed simp

lemma foldR_invariant:
  assumes "foldR f xs s = Inr t" and "I s"
    and "\<And>x s t. x \<in> set xs \<Longrightarrow> I s \<Longrightarrow> f x s = Inr t \<Longrightarrow> I t"
  shows "I t"
  using assms
proof (induction xs arbitrary: s)
  case (Cons x xs)
  from Cons.prems(1) obtain s' where s': "f x s = Inr s'" "foldR f xs s' = Inr t"
    by (auto simp: bindR_eq_Inr_iff)
  have "I s'"
    using Cons.prems(2,3) s'(1) by auto
  then show ?case
    using Cons.IH s'(2) Cons.prems(3) by (meson list.set_intros(2))
qed simp

lemma foldR_total: "\<forall>x \<in> set xs. \<forall>s. \<exists>t. f x s = Inr t \<Longrightarrow> \<exists>t. foldR f xs s = Inr t"
proof (induction xs arbitrary: s)
  case (Cons x xs)
  from Cons.prems obtain t where "f x s = Inr t" by (metis list.set_intros(1))
  moreover have "\<exists>u. foldR f xs t = Inr u" using Cons.prems by (intro Cons.IH) simp
  ultimately show ?case by simp
qed simp

lemma foldR_succeeds_iff:
  assumes "\<And>x s. (\<exists>t. f x s = Inr t) \<longleftrightarrow> P x"
  shows "(\<exists>t. foldR f xs s = Inr t) \<longleftrightarrow> list_all P xs"
proof (induction xs arbitrary: s)
  case (Cons x xs)
  show ?case
  proof (cases "f x s")
    case (Inl e)
    then have "\<not> P x" using assms [of x s] by simp
    with Inl show ?thesis by simp
  next
    case (Inr t)
    then have "P x" using assms [of x s] by simp
    with Inr Cons.IH [of t] show ?thesis by simp
  qed
qed simp

section \<open>Lemmas on lists\<close>

lemma nth_list_update_if:
  "i < length xs \<Longrightarrow> xs[i := x] ! j = (if i = j then x else xs ! j)"
  by (simp add: nth_list_update)

lemma map_upt_update:
  "i < n \<Longrightarrow> (map f [0..<n])[i := v] = map (f(i := v)) [0..<n]"
  by (rule nth_equalityI) (auto simp: nth_list_update)

section \<open>Lemmas on bits\<close>

lemma mask_int_eq: "push_bit n (1::int) - 1 = mask n"
  by (simp add: mask_eq_exp_minus_1 push_bit_eq_mult)

lemma to_int32_id: "- (2 ^ 31) \<le> x \<Longrightarrow> x < 2 ^ 31 \<Longrightarrow> to_int32 x = x"
  unfolding to_int32_def by (simp add: signed_take_bit_int_eq_self)

end
