(* ===== verification/Ram_Utils.thy ===== *)
theory Ram_Utils
  imports Ram_Prelude
begin

text \<open>
  The helpers of \<^verbatim>\<open>ramulator/base/utils.h\<close> and \<^verbatim>\<open>utils.cpp\<close>: the integer logarithm
  and the bit slicing that the address and channel mappers are built from, and the
  tokenizer of the trace readers.
\<close>

unbundle bit_operations_syntax

section \<open>Definitions\<close>

text \<open>
  \<^verbatim>\<open>n = 0; while ((val >>= 1)) n++;\<close> for a non-negative \<^verbatim>\<open>val\<close> (every caller checks
  the sign or passes a container size first).
\<close>

fun calc_log2 :: "nat \<Rightarrow> nat" where
  "calc_log2 v = (if v div 2 = 0 then 0 else Suc (calc_log2 (v div 2)))"

declare calc_log2.simps [simp del]

text \<open>
  The source returns the low bits and shifts its reference argument: the pair is
  (returned bits, new \<^verbatim>\<open>addr\<close>). The mask \<^verbatim>\<open>(1 << num_bits) - 1\<close> is an \<^verbatim>\<open>int\<close>
  expression, so the code is defined for widths up to 30.
\<close>

definition slice_lower_bits :: "Addr_t \<Rightarrow> nat \<Rightarrow> Addr_t \<times> Addr_t" where
  "slice_lower_bits addr num_bits =
     (addr AND (push_bit num_bits 1 - 1), drop_bit num_bits addr)"

text \<open>The guard \<^verbatim>\<open>count <= 0 || (count & (count - 1)) != 0\<close> of the mappers, negated.\<close>

definition is_pow2 :: "int \<Rightarrow> bool" where
  "is_pow2 n \<longleftrightarrow> \<not> (n \<le> 0 \<or> n AND (n - 1) \<noteq> 0)"

text \<open>\<^verbatim>\<open>std::string::find(delim, from)\<close>: the first position at or after \<open>from\<close>.\<close>

definition find_from :: "string \<Rightarrow> string \<Rightarrow> nat \<Rightarrow> nat option" where
  "find_from line delim from =
     find (\<lambda>p. from \<le> p \<and> p + length delim \<le> length line
               \<and> take (length delim) (drop p line) = delim) [0..<Suc (length line)]"

text \<open>
  The loop of \<^verbatim>\<open>tokenize\<close>: cut at each occurrence of the delimiter and continue one
  character behind its start.
\<close>

function tokenize_from :: "string \<Rightarrow> string \<Rightarrow> nat \<Rightarrow> string list" where
  "tokenize_from line delim last_pos =
     (case find_from line delim last_pos of
        None \<Rightarrow> [drop last_pos line]
      | Some pos \<Rightarrow>
          take (pos - last_pos) (drop last_pos line) # tokenize_from line delim (pos + 1))"
  by pat_completeness auto
termination
  by (relation "measure (\<lambda>(line, delim, p). Suc (length line) - p)")
    (auto simp: find_from_def find_Some_iff)

declare tokenize_from.simps [simp del]

definition tokenize :: "string list \<Rightarrow> string \<Rightarrow> string \<Rightarrow> string list" where
  "tokenize tokens line delim = tokens @ tokenize_from line delim 0"

section \<open>Logarithm and slicing\<close>

lemma calc_log2_pow2 [simp]: "calc_log2 (2 ^ k) = k"
proof (induction k)
  case 0
  show ?case by (simp add: calc_log2.simps)
next
  case (Suc k)
  then show ?case by (subst calc_log2.simps) simp
qed

lemma calc_log2_bounds: "0 < v \<Longrightarrow> 2 ^ calc_log2 v \<le> v \<and> v < 2 ^ Suc (calc_log2 v)"
proof (induction v rule: calc_log2.induct)
  case (1 v)
  show ?case
  proof (cases "v div 2 = 0")
    case True
    with 1 show ?thesis by (subst (1 2) calc_log2.simps) auto
  next
    case False
    then have IH: "2 ^ calc_log2 (v div 2) \<le> v div 2 \<and> v div 2 < 2 ^ Suc (calc_log2 (v div 2))"
      using 1 by simp
    have e: "calc_log2 v = Suc (calc_log2 (v div 2))"
      using False by (subst calc_log2.simps) simp
    from IH have "2 * 2 ^ calc_log2 (v div 2) \<le> v" by linarith
    moreover from IH have "v < 2 * 2 ^ Suc (calc_log2 (v div 2))" by linarith
    ultimately show ?thesis unfolding e by (simp only: power_Suc)
  qed
qed

lemma slice_lower_bits_eq:
  "slice_lower_bits addr n = (take_bit n addr, drop_bit n addr)"
  unfolding slice_lower_bits_def mask_int_eq by (simp add: take_bit_eq_mask)

lemma slice_lower_bits_mod_div [ram_simps]:
  "slice_lower_bits addr n = (addr mod 2 ^ n, addr div 2 ^ n)"
  by (simp add: slice_lower_bits_eq take_bit_eq_mod drop_bit_eq_div)

lemma is_pow2_power: "is_pow2 (2 ^ k)"
proof -
  have "(2 ^ k :: int) AND (2 ^ k - 1) = take_bit k (2 ^ k)"
    by (simp add: take_bit_eq_mask mask_eq_exp_minus_1)
  then show ?thesis by (simp add: is_pow2_def)
qed

lemma is_pow2_cases:
  assumes "is_pow2 n"
  shows "n = 2 ^ calc_log2 (nat n)"
proof -
  let ?k = "calc_log2 (nat n)"
  from assms have pos: "0 < n" and z: "n AND (n - 1) = 0"
    by (auto simp: is_pow2_def)
  have b: "2 ^ ?k \<le> n" "n < 2 * 2 ^ ?k"
  proof -
    have "0 < nat n" using pos by simp
    from calc_log2_bounds [OF this] have "int (2 ^ ?k) \<le> int (nat n) \<and> int (nat n) < int (2 ^ Suc ?k)"
      by (simp only: of_nat_le_iff of_nat_less_iff)
    then show "2 ^ ?k \<le> n" "n < 2 * 2 ^ ?k" using pos by simp_all
  qed
  show ?thesis
  proof (rule ccontr)
    assume "n \<noteq> 2 ^ ?k"
    with b have gt: "2 ^ ?k \<le> n - 1" "n - 1 < 2 * 2 ^ ?k" by auto
    have top: "bit m ?k" if "2 ^ ?k \<le> m" "m < 2 * 2 ^ ?k" for m :: int
    proof -
      from that have "m div 2 ^ ?k = 1" by (simp add: div_pos_geq div_pos_pos_trivial)
      then show ?thesis by (simp add: bit_iff_odd)
    qed
    have "bit (n AND (n - 1)) ?k"
      using top [OF b] top [OF gt] by (simp add: bit_and_iff)
    with z show False by simp
  qed
qed

section \<open>Tokenizer\<close>

text \<open>The inverse of cutting: the tokens with the delimiter between them.\<close>

fun join_tokens :: "string \<Rightarrow> string list \<Rightarrow> string" where
  "join_tokens d [] = []"
| "join_tokens d [t] = t"
| "join_tokens d (t # u # ts) = t @ d @ join_tokens d (u # ts)"

lemma find_from_Some:
  assumes "find_from line delim from = Some p"
  shows "from \<le> p" "p + length delim \<le> length line" "take (length delim) (drop p line) = delim"
    and "\<And>q. from \<le> q \<Longrightarrow> q < p \<Longrightarrow> take (length delim) (drop q line) \<noteq> delim"
proof -
  from assms obtain i where i: "i < Suc (length line)" "[0..<Suc (length line)] ! i = p"
    and P: "from \<le> p" "p + length delim \<le> length line" "take (length delim) (drop p line) = delim"
    and min: "\<forall>j<i. \<not> (from \<le> [0..<Suc (length line)] ! j \<and>
        [0..<Suc (length line)] ! j + length delim \<le> length line \<and>
        take (length delim) (drop ([0..<Suc (length line)] ! j) line) = delim)"
    unfolding find_from_def find_Some_iff by (auto simp del: upt_Suc)
  show "from \<le> p" "p + length delim \<le> length line" "take (length delim) (drop p line) = delim"
    by (fact P)+
  fix q assume q: "from \<le> q" "q < p"
  have "i = p" using i by (simp del: upt_Suc)
  with min q have "\<not> (from \<le> q \<and> q + length delim \<le> length line \<and> take (length delim) (drop q line) = delim)"
    using i(1) by (auto simp del: upt_Suc)
  with q P show "take (length delim) (drop q line) \<noteq> delim" by auto
qed

lemma find_from_None:
  assumes "find_from line delim from = None" "from \<le> q" "q + length delim \<le> length line"
  shows "take (length delim) (drop q line) \<noteq> delim"
  using assms unfolding find_from_def find_None_iff by (auto simp del: upt_Suc)

lemma tokenize_from_nonempty: "tokenize_from line delim p \<noteq> []"
  by (subst tokenize_from.simps) (auto split: option.splits)

lemma join_tokens_Cons:
  "ts \<noteq> [] \<Longrightarrow> join_tokens d (t # ts) = t @ d @ join_tokens d ts"
  by (cases ts) auto

lemma join_tokenize_from: "p \<le> length line \<Longrightarrow> join_tokens [c] (tokenize_from line [c] p) = drop p line"
proof (induction line "[c]" p rule: tokenize_from.induct)
  case (1 line p)
  show ?case
  proof (cases "find_from line [c] p")
    case None
    then show ?thesis by (simp add: tokenize_from.simps [of line "[c]" p])
  next
    case (Some q)
    note f = find_from_Some [OF Some]
    have q: "p \<le> q" "q < length line" "line ! q = c"
      using f(1-3) by (auto simp: take_Suc_conv_app_nth hd_drop_conv_nth take_Suc)
    have IH: "join_tokens [c] (tokenize_from line [c] (q + 1)) = drop (q + 1) line"
      using 1 Some q by simp
    have "drop p line = take (q - p) (drop p line) @ drop q line"
      using q(1) by (metis append_take_drop_id drop_drop le_add_diff_inverse add.commute)
    also have "drop q line = c # drop (q + 1) line"
      using q by (simp add: Cons_nth_drop_Suc [symmetric])
    finally show ?thesis
      using Some IH by (simp add: tokenize_from.simps [of line "[c]" p] join_tokens_Cons tokenize_from_nonempty)
  qed
qed

lemma tokens_free_of_delim: "t \<in> set (tokenize_from line [c] p) \<Longrightarrow> c \<notin> set t"
proof (induction line "[c]" p rule: tokenize_from.induct)
  case (1 line p)
  have free: "c \<notin> set (take n (drop p line))"
    if "\<And>i. p \<le> i \<Longrightarrow> i < p + n \<Longrightarrow> i < length line \<Longrightarrow> take (length [c]) (drop i line) \<noteq> [c]" for n
  proof
    assume "c \<in> set (take n (drop p line))"
    then obtain i where i: "i < n" "p + i < length line" "line ! (p + i) = c"
      by (auto simp: in_set_conv_nth)
    then have "take (length [c]) (drop (p + i) line) = [c]"
      by (simp add: take_Suc hd_drop_conv_nth)
    with that [of "p + i"] i show False by simp
  qed
  show ?case
  proof (cases "find_from line [c] p")
    case None
    then have "t = drop p line" using "1.prems" by (simp add: tokenize_from.simps [of line "[c]" p])
    moreover have "c \<notin> set (take (length line) (drop p line))"
      using find_from_None [OF None] by (intro free) auto
    ultimately show ?thesis by simp
  next
    case (Some q)
    then consider "t = take (q - p) (drop p line)" | "t \<in> set (tokenize_from line [c] (q + 1))"
      using "1.prems" by (auto simp: tokenize_from.simps [of line "[c]" p])
    then show ?thesis
    proof cases
      case 1
      then show ?thesis using find_from_Some [OF Some] by (auto intro!: free)
    next
      case 2
      then show ?thesis using "1.hyps" [OF Some] by simp
    qed
  qed
qed

end
