(* ===== verification/Ram_Request.thy ===== *)
theory Ram_Request
  imports Ram_Prelude
begin

text \<open>
  The request of \<^verbatim>\<open>ramulator/base/request.h\<close> and the bounded request buffer of
  \<^verbatim>\<open>ramulator/controller/i_controller.h\<close>.

  A callback (\<^verbatim>\<open>std::function<void(Request&)>\<close>) is code of the frontend: the model keeps
  its identity (\<open>Some k\<close>; \<open>None\<close> is an empty function object) and records calls of it
  in the component that makes them. An iterator into a \<^verbatim>\<open>std::list<Request>\<close> is the
  position it points to.
\<close>

section \<open>Requests\<close>

record Request =
  req_addr :: Addr_t
  req_intra_channel_addr :: Addr_t
  req_addr_vec :: AddrVec_t
  req_type_id :: int
  req_source_id :: int
  req_ingress_id :: int
  req_frontend_id :: int
  req_frontend_sub_id :: int
  req_admission_ordinal :: int
  req_size_bytes :: int
  req_command :: int
  req_final_command :: int
  req_is_stat_updated :: bool
  req_arrive :: Clk_t
  req_depart :: Clk_t
  req_callback :: "nat option"

text \<open>\<^verbatim>\<open>Request::Type::Read\<close>, \<^verbatim>\<open>Request::Type::Write\<close>.\<close>

definition Type_Read :: int where "Type_Read = 0"
definition Type_Write :: int where "Type_Write = 1"

text \<open>The member initialisers: every constructor starts from these.\<close>

definition default_Request :: Request where
  "default_Request =
     \<lparr>req_addr = -1, req_intra_channel_addr = -1, req_addr_vec = [], req_type_id = -1,
      req_source_id = -1, req_ingress_id = -1, req_frontend_id = -1, req_frontend_sub_id = 0,
      req_admission_ordinal = -1, req_size_bytes = -1, req_command = -1, req_final_command = -1,
      req_is_stat_updated = False, req_arrive = -1, req_depart = -1, req_callback = None\<rparr>"

definition Request_addr :: "Addr_t \<Rightarrow> int \<Rightarrow> Request" where
  "Request_addr addr type = default_Request\<lparr>req_addr := addr, req_type_id := type\<rparr>"

definition Request_vec :: "AddrVec_t \<Rightarrow> int \<Rightarrow> Request" where
  "Request_vec addr_vec type = default_Request\<lparr>req_addr_vec := addr_vec, req_type_id := type\<rparr>"

definition Request_callback :: "Addr_t \<Rightarrow> int \<Rightarrow> int \<Rightarrow> nat option \<Rightarrow> Request" where
  "Request_callback addr type source_id callback =
     default_Request\<lparr>req_addr := addr, req_type_id := type, req_source_id := source_id,
                     req_callback := callback\<rparr>"

text \<open>The constructor tagged \<^verbatim>\<open>Cmd_t\<close>: refresh, row close and other maintenance commands.\<close>

definition Request_Cmd :: "AddrVec_t \<Rightarrow> int \<Rightarrow> Request" where
  "Request_Cmd addr_vec final_cmd =
     default_Request\<lparr>req_addr_vec := addr_vec, req_final_command := final_cmd\<rparr>"

section \<open>Request buffers\<close>

record ReqBuffer =
  buffer :: "Request list"
  max_size :: nat

definition ReqBuffer_new :: "nat \<Rightarrow> ReqBuffer" where
  "ReqBuffer_new n = \<lparr>buffer = [], max_size = n\<rparr>"

definition buf_size :: "ReqBuffer \<Rightarrow> nat" where
  "buf_size b = length (buffer b)"

definition enqueue :: "ReqBuffer \<Rightarrow> Request \<Rightarrow> bool \<times> ReqBuffer" where
  "enqueue b request =
     (if length (buffer b) < max_size b
      then (True, b\<lparr>buffer := buffer b @ [request]\<rparr>)
      else (False, b))"

definition remove_at :: "ReqBuffer \<Rightarrow> nat \<Rightarrow> ReqBuffer" where
  "remove_at b it = b\<lparr>buffer := take it (buffer b) @ drop (Suc it) (buffer b)\<rparr>"

section \<open>Lemmas\<close>

lemmas request_ctor_defs =
  default_Request_def Request_addr_def Request_vec_def Request_callback_def Request_Cmd_def

text \<open>A buffer never holds more than \<^verbatim>\<open>max_size\<close> requests.\<close>

definition within_capacity :: "ReqBuffer \<Rightarrow> bool" where
  "within_capacity b \<longleftrightarrow> length (buffer b) \<le> max_size b"

lemma within_capacity_enqueue: "within_capacity b \<Longrightarrow> within_capacity (snd (enqueue b r))"
  by (simp add: within_capacity_def enqueue_def)

lemma within_capacity_remove: "within_capacity b \<Longrightarrow> within_capacity (remove_at b i)"
  by (simp add: within_capacity_def remove_at_def)

lemma max_size_frame [simp]:
  "max_size (snd (enqueue b r)) = max_size b" "max_size (remove_at b i) = max_size b"
  by (simp_all add: enqueue_def remove_at_def)

lemma enqueue_cases:
  obtains (full) "length (buffer b) \<ge> max_size b" "enqueue b r = (False, b)"
  | (room) "length (buffer b) < max_size b" "enqueue b r = (True, b\<lparr>buffer := buffer b @ [r]\<rparr>)"
  by (cases "length (buffer b) < max_size b") (auto simp: enqueue_def)

lemma remove_at_decomp:
  assumes "i < length (buffer b)"
  obtains xs ys where "buffer b = xs @ buffer b ! i # ys" "buffer (remove_at b i) = xs @ ys" "length xs = i"
proof
  show "buffer b = take i (buffer b) @ buffer b ! i # drop (Suc i) (buffer b)"
    using assms by (simp add: id_take_nth_drop [symmetric])
  show "buffer (remove_at b i) = take i (buffer b) @ drop (Suc i) (buffer b)"
    by (simp add: remove_at_def)
  show "length (take i (buffer b)) = i" using assms by simp
qed

lemma remove_at_append [simp]:
  "remove_at \<lparr>buffer = xs @ x # ys, max_size = n\<rparr> (length xs) = \<lparr>buffer = xs @ ys, max_size = n\<rparr>"
  by (simp add: remove_at_def)

end
