(* ===== verification/Dram_Spec.thy ===== *)
theory Dram_Spec
  imports Ram_Prelude
begin

text \<open>
  \<^verbatim>\<open>ramulator/dram/dram_spec.h\<close>, \<^verbatim>\<open>dram_spec.cpp\<close>, \<^verbatim>\<open>func_types.h\<close> and the data members of
  \<^verbatim>\<open>DRAMNode\<close> (\<^verbatim>\<open>node.h\<close>): the runtime description of a DRAM standard, the named
  lookups that throw, and \<^verbatim>\<open>load_config\<close>, which fills organisation, timing values and
  the timing constraint table from the configuration.

  Level, command and state ids are enumerators counted from 0, so they are \<open>nat\<close> and
  index the tables directly. A configuration node is the record of the fields
  \<^verbatim>\<open>load_config\<close> reads from it, already converted to the types the code asks for; an
  optional node is an \<open>option\<close>. Reading a \<^verbatim>\<open>std::vector\<close> out of range is undefined
  behaviour in C++; the model uses \<open>!\<close>, whose value there is unspecified.
\<close>

section \<open>Data\<close>

datatype BankTarget = BT_Single | BT_All | BT_SameBank

record Organization =
  dq :: int
  level_sizes :: "int list"

record DRAMCommandMeta =
  is_opening :: bool
  is_closing :: bool
  is_accessing :: bool
  is_refreshing :: bool
  is_row_command :: bool
  is_column_command :: bool

record TimingConsEntry =
  tc_cmd :: nat
  tc_val :: int
  tc_window :: nat
  tc_sibling :: bool
  tc_history_group :: int

text \<open>The per-node members of \<^verbatim>\<open>struct DRAMNode\<close>; the tree links are in \<^verbatim>\<open>Dram_Node\<close>.\<close>

record NodeData =
  m_level :: nat
  m_node_id :: int
  m_state :: nat
  m_cmd_ready_clk :: "Clk_t list"
  m_cmd_history :: "Clk_t list list"
  m_shared_window_history :: "Clk_t list list"
  m_row_state :: "int \<rightharpoonup> nat"

type_synonym ActionFunc_t = "NodeData \<Rightarrow> nat \<Rightarrow> AddrVec_t \<Rightarrow> Clk_t \<Rightarrow> NodeData"
type_synonym PreqFunc_t = "NodeData \<Rightarrow> nat \<Rightarrow> AddrVec_t \<Rightarrow> Clk_t \<Rightarrow> nat result"
type_synonym RowhitFunc_t = "NodeData \<Rightarrow> nat \<Rightarrow> AddrVec_t \<Rightarrow> Clk_t \<Rightarrow> bool"
type_synonym RowopenFunc_t = "NodeData \<Rightarrow> nat \<Rightarrow> AddrVec_t \<Rightarrow> Clk_t \<Rightarrow> bool"

text \<open>The handler vectors, indexed by command; a null function pointer is \<open>None\<close>.\<close>

record FuncArrays =
  actions :: "ActionFunc_t option list"
  preqs :: "PreqFunc_t option list"
  rowhits :: "RowhitFunc_t option list"
  rowopens :: "RowopenFunc_t option list"

definition FuncArrays_resize :: "nat \<Rightarrow> FuncArrays" where
  "FuncArrays_resize num_cmds =
     \<lparr>actions = replicate num_cmds None, preqs = replicate num_cmds None,
      rowhits = replicate num_cmds None, rowopens = replicate num_cmds None\<rparr>"

record DRAMSpec =
  levels :: "string \<rightharpoonup> nat"
  commands :: "string \<rightharpoonup> nat"
  states :: "string \<rightharpoonup> nat"
  timings :: "string \<rightharpoonup> nat"
  level_names :: "string list"
  command_names :: "string list"
  state_names :: "string list"
  timing_names :: "string list"
  level_count :: nat
  command_count :: nat
  state_count :: nat
  timing_count :: nat
  standard_name :: string
  internal_prefetch_size :: int
  channel_width :: int
  data_payload_bytes :: int
  read_latency :: Clk_t
  organization :: Organization
  init_states :: "nat list"
  supported_requests :: "nat list"
  timing_vals :: "int list"
  command_cycles :: "int list"
  timing_cons :: "TimingConsEntry list list list"
  has_sibling_cons :: "bool list list"
  command_meta :: "DRAMCommandMeta list"
  bank_targets :: "BankTarget list"
  funcs :: FuncArrays

section \<open>Lookups\<close>

definition has_level :: "DRAMSpec \<Rightarrow> string \<Rightarrow> bool" where
  "has_level sp name \<longleftrightarrow> levels sp name \<noteq> None"

definition has_command :: "DRAMSpec \<Rightarrow> string \<Rightarrow> bool" where
  "has_command sp name \<longleftrightarrow> commands sp name \<noteq> None"

definition has_timing :: "DRAMSpec \<Rightarrow> string \<Rightarrow> bool" where
  "has_timing sp name \<longleftrightarrow> timings sp name \<noteq> None"

definition get_level_id :: "DRAMSpec \<Rightarrow> string \<Rightarrow> nat result" where
  "get_level_id sp name =
     (case levels sp name of None \<Rightarrow> throw ''DRAMSpec: unknown level'' | Some i \<Rightarrow> Inr i)"

definition get_command_id :: "DRAMSpec \<Rightarrow> string \<Rightarrow> nat result" where
  "get_command_id sp name =
     (case commands sp name of None \<Rightarrow> throw ''DRAMSpec: unknown command'' | Some i \<Rightarrow> Inr i)"

definition get_state_id :: "DRAMSpec \<Rightarrow> string \<Rightarrow> nat result" where
  "get_state_id sp name =
     (case states sp name of None \<Rightarrow> throw ''DRAMSpec: unknown state'' | Some i \<Rightarrow> Inr i)"

definition get_timing_value :: "DRAMSpec \<Rightarrow> string \<Rightarrow> int result" where
  "get_timing_value sp name =
     (case timings sp name of
        None \<Rightarrow> throw ''DRAMSpec: unknown timing'' | Some i \<Rightarrow> Inr (timing_vals sp ! i))"

definition get_level_size :: "DRAMSpec \<Rightarrow> string \<Rightarrow> int result" where
  "get_level_size sp name =
     bindR (get_level_id sp name) (\<lambda>i. Inr (level_sizes (organization sp) ! i))"

text \<open>\<^verbatim>\<open>/\<close> truncates towards zero in C++.\<close>

definition get_tx_bytes :: "DRAMSpec \<Rightarrow> int" where
  "get_tx_bytes sp =
     (if data_payload_bytes sp > 0 then data_payload_bytes sp
      else let bits = internal_prefetch_size sp * channel_width sp in sgn bits * (\<bar>bits\<bar> div 8))"

text \<open>
  \<^verbatim>\<open>set_names\<close>: \<^verbatim>\<open>map[n] = i++\<close> for each name, and the reverse vector. It returns the
  map and the vector.
\<close>

fun number_names :: "nat \<Rightarrow> (string \<rightharpoonup> nat) \<Rightarrow> string list \<Rightarrow> (string \<rightharpoonup> nat)" where
  "number_names i m [] = m"
| "number_names i m (n # ns) = number_names (Suc i) (m(n \<mapsto> i)) ns"

definition set_names :: "(string \<rightharpoonup> nat) \<Rightarrow> string list \<Rightarrow> (string \<rightharpoonup> nat) \<times> string list" where
  "set_names m names = (number_names 0 m names, names)"

section \<open>Loading the configuration\<close>

record TimingConsConfig =
  tcc_level :: nat
  tcc_preceding :: "nat list"
  tcc_following :: "nat list"
  tcc_latency :: int
  tcc_window :: "int option"
  tcc_sibling :: "bool option"
  tcc_history_group :: "int option"

record DramConfig =
  cfg_channel_width :: int
  cfg_data_payload_bytes :: "int option"
  cfg_dq :: int
  cfg_count :: "int list"
  cfg_timing :: "int list"
  cfg_command_cycles :: "int list option"
  cfg_read_latency :: int
  cfg_timing_constraints :: "TimingConsConfig list"

text \<open>The constructor of \<^verbatim>\<open>TimingConsEntry\<close> refuses a negative window.\<close>

definition mk_TimingConsEntry :: "nat \<Rightarrow> int \<Rightarrow> int \<Rightarrow> bool \<Rightarrow> int \<Rightarrow> TimingConsEntry result" where
  "mk_TimingConsEntry cmd val window sibling history_group =
     (if window < 0 then throw ''TimingConsEntry: window value < 0''
      else Inr \<lparr>tc_cmd = cmd, tc_val = val, tc_window = nat window, tc_sibling = sibling,
                tc_history_group = history_group\<rparr>)"

definition tcons_push ::
  "nat \<Rightarrow> nat \<Rightarrow> TimingConsEntry \<Rightarrow> TimingConsEntry list list list \<Rightarrow> TimingConsEntry list list list"
  where
  "tcons_push level p e tcs = tcs[level := (tcs ! level)[p := tcs ! level ! p @ [e]]]"

definition load_timing_constraint ::
  "TimingConsConfig \<Rightarrow> TimingConsEntry list list list \<Rightarrow> TimingConsEntry list list list result" where
  "load_timing_constraint f tcs =
     (let level = tcc_level f; latency = tcc_latency f;
          window = (case tcc_window f of Some w \<Rightarrow> w | None \<Rightarrow> 1);
          sibling = (case tcc_sibling f of Some s \<Rightarrow> s | None \<Rightarrow> False);
          history_group = (case tcc_history_group f of Some g \<Rightarrow> g | None \<Rightarrow> -1)
      in foldR (\<lambda>p. foldR (\<lambda>fc tcs.
            bindR (mk_TimingConsEntry fc latency window sibling history_group)
              (\<lambda>e. Inr (tcons_push level p e tcs))) (tcc_following f)) (tcc_preceding f) tcs)"

definition sibling_flags :: "TimingConsEntry list list list \<Rightarrow> nat \<Rightarrow> nat \<Rightarrow> bool list list" where
  "sibling_flags tcs nl nc = map (\<lambda>l. map (\<lambda>c. \<exists>t \<in> set (tcs ! l ! c). tc_sibling t) [0..<nc]) [0..<nl]"

definition load_command_cycles :: "nat \<Rightarrow> int list option \<Rightarrow> int list" where
  "load_command_cycles n cycles =
     (case cycles of
        None \<Rightarrow> replicate n 1
      | Some cs \<Rightarrow> map (\<lambda>i. if i < length cs then cs ! i else 1) [0..<n])"

definition load_config :: "DRAMSpec \<Rightarrow> DramConfig \<Rightarrow> DRAMSpec result" where
  "load_config sp cfg =
     (if cfg_count cfg ! 0 \<noteq> 1 then throw ''DRAMSpec: level_sizes[0] (Channel) must be 1''
      else bindR
        (foldR load_timing_constraint (cfg_timing_constraints cfg)
           (replicate (level_count sp) (replicate (command_count sp) [])))
        (\<lambda>tcs. Inr (sp\<lparr>
            channel_width := cfg_channel_width cfg,
            data_payload_bytes := (case cfg_data_payload_bytes cfg of Some b \<Rightarrow> b | None \<Rightarrow> -1),
            organization := \<lparr>dq = cfg_dq cfg, level_sizes = cfg_count cfg\<rparr>,
            timing_vals := cfg_timing cfg,
            command_cycles := load_command_cycles (command_count sp) (cfg_command_cycles cfg),
            read_latency := cfg_read_latency cfg,
            timing_cons := tcs,
            has_sibling_cons := sibling_flags tcs (level_count sp) (command_count sp)\<rparr>)))"

section \<open>Lemmas\<close>

lemma number_names_other: "n \<notin> set ns \<Longrightarrow> number_names i m ns n = m n"
  by (induction ns arbitrary: i m) auto

lemma number_names_nth:
  "distinct ns \<Longrightarrow> k < length ns \<Longrightarrow> number_names i m ns (ns ! k) = Some (i + k)"
proof (induction ns arbitrary: i m k)
  case (Cons n ns)
  show ?case
  proof (cases k)
    case 0
    with Cons.prems show ?thesis by (simp add: number_names_other)
  next
    case (Suc j)
    with Cons show ?thesis by simp
  qed
qed simp

text \<open>The shape of the constraint table: one row per level, one cell per command.\<close>

definition tcons_shape :: "nat \<Rightarrow> nat \<Rightarrow> TimingConsEntry list list list \<Rightarrow> bool" where
  "tcons_shape nl nc tcs \<longleftrightarrow> length tcs = nl \<and> (\<forall>l < nl. length (tcs ! l) = nc)"

lemma tcons_shape_nth: "tcons_shape nl nc tcs \<Longrightarrow> l < nl \<Longrightarrow> length (tcs ! l) = nc"
  by (auto simp: tcons_shape_def)

lemma tcons_shape_push: "tcons_shape nl nc tcs \<Longrightarrow> tcons_shape nl nc (tcons_push l p e tcs)"
  by (cases "l < length tcs") (auto simp: tcons_shape_def tcons_push_def nth_list_update)

text \<open>What one configuration line contributes to the table.\<close>

definition entry_of :: "TimingConsConfig \<Rightarrow> nat \<Rightarrow> TimingConsEntry" where
  "entry_of f fc =
     \<lparr>tc_cmd = fc, tc_val = tcc_latency f, tc_window = nat (case tcc_window f of Some w \<Rightarrow> w | None \<Rightarrow> 1),
      tc_sibling = (case tcc_sibling f of Some s \<Rightarrow> s | None \<Rightarrow> False),
      tc_history_group = (case tcc_history_group f of Some g \<Rightarrow> g | None \<Rightarrow> -1)\<rparr>"

definition window_of :: "TimingConsConfig \<Rightarrow> int" where
  "window_of f = (case tcc_window f of Some w \<Rightarrow> w | None \<Rightarrow> 1)"

lemma load_row_eq:
  "0 \<le> window_of f \<Longrightarrow>
   foldR (\<lambda>fc tcs. bindR (mk_TimingConsEntry fc (tcc_latency f)
        (case tcc_window f of Some w \<Rightarrow> w | None \<Rightarrow> 1)
        (case tcc_sibling f of Some s \<Rightarrow> s | None \<Rightarrow> False)
        (case tcc_history_group f of Some g \<Rightarrow> g | None \<Rightarrow> -1))
      (\<lambda>e. Inr (tcons_push l p e tcs))) fcs tcs
   = Inr (fold (\<lambda>fc. tcons_push l p (entry_of f fc)) fcs tcs)"
  by (induction fcs arbitrary: tcs) (auto simp: mk_TimingConsEntry_def entry_of_def window_of_def)

lemma load_timing_constraint_eq:
  assumes "0 \<le> window_of f"
  shows "load_timing_constraint f tcs =
    Inr (fold (\<lambda>p. fold (\<lambda>fc. tcons_push (tcc_level f) p (entry_of f fc)) (tcc_following f)) (tcc_preceding f) tcs)"
proof -
  have "foldR (\<lambda>p tcs. Inr (fold (\<lambda>fc. tcons_push (tcc_level f) p (entry_of f fc)) (tcc_following f) tcs)) ps tcs
    = Inr (fold (\<lambda>p. fold (\<lambda>fc. tcons_push (tcc_level f) p (entry_of f fc)) (tcc_following f)) ps tcs)" for ps
    by (induction ps arbitrary: tcs) auto
  then show ?thesis
    unfolding load_timing_constraint_def Let_def load_row_eq [OF assms] .
qed

lemma load_timing_constraint_negative:
  assumes "window_of f < 0" "tcc_preceding f \<noteq> []" "tcc_following f \<noteq> []"
  shows "load_timing_constraint f tcs = throw ''TimingConsEntry: window value < 0''"
  using assms by (cases "tcc_preceding f"; cases "tcc_following f")
    (auto simp: load_timing_constraint_def Let_def mk_TimingConsEntry_def window_of_def)

lemma tcons_shape_fold_push:
  "tcons_shape nl nc tcs \<Longrightarrow> tcons_shape nl nc (fold (\<lambda>fc. tcons_push l p (e fc)) fcs tcs)"
  by (induction fcs arbitrary: tcs) (auto simp: tcons_shape_push)

lemma tcons_push_nth:
  assumes "tcons_shape nl nc tcs" "l < nl" "p < nc" "l' < nl" "p' < nc"
  shows "tcons_push l p e tcs ! l' ! p' = (if l' = l \<and> p' = p then tcs ! l ! p @ [e] else tcs ! l' ! p')"
  using assms tcons_shape_nth [OF assms(1)]
  by (auto simp: tcons_push_def tcons_shape_def nth_list_update)

lemma fold_push_row:
  assumes "tcons_shape nl nc tcs" "l < nl" "p < nc" "l' < nl" "p' < nc"
  shows "fold (\<lambda>fc. tcons_push l p (e fc)) fcs tcs ! l' ! p' =
    (if l' = l \<and> p' = p then tcs ! l ! p @ map e fcs else tcs ! l' ! p')"
  using assms
proof (induction fcs arbitrary: tcs)
  case (Cons a fcs)
  show ?case
    using Cons.IH [OF tcons_shape_push [OF Cons.prems(1)] Cons.prems(2-5)] Cons.prems
    by (simp add: tcons_push_nth)
qed simp

lemma load_timing_constraint_shape:
  assumes "load_timing_constraint f tcs = Inr tcs'" and "tcons_shape nl nc tcs"
  shows "tcons_shape nl nc tcs'"
  using assms unfolding load_timing_constraint_def Let_def
proof (rule foldR_invariant [where I = "tcons_shape nl nc"], goal_cases)
  case (1 p s t)
  then show ?case
    by (elim foldR_invariant [where I = "tcons_shape nl nc"]) (auto simp: bindR_eq_Inr_iff tcons_shape_push)
qed

lemma load_config_Inr:
  assumes "load_config sp cfg = Inr sp'"
  shows "cfg_count cfg ! 0 = 1" "organization sp' = \<lparr>dq = cfg_dq cfg, level_sizes = cfg_count cfg\<rparr>"
    and "tcons_shape (level_count sp) (command_count sp) (timing_cons sp')"
    and "has_sibling_cons sp' = sibling_flags (timing_cons sp') (level_count sp) (command_count sp)"
    and "level_count sp' = level_count sp" "command_count sp' = command_count sp"
proof -
  let ?t0 = "replicate (level_count sp) (replicate (command_count sp) [])"
  from assms obtain tcs where
    ok: "cfg_count cfg ! 0 = 1" and f: "foldR load_timing_constraint (cfg_timing_constraints cfg) ?t0 = Inr tcs"
    and sp': "timing_cons sp' = tcs" "organization sp' = \<lparr>dq = cfg_dq cfg, level_sizes = cfg_count cfg\<rparr>"
      "has_sibling_cons sp' = sibling_flags tcs (level_count sp) (command_count sp)"
      "level_count sp' = level_count sp" "command_count sp' = command_count sp"
    unfolding load_config_def by (auto simp: bindR_eq_Inr_iff split: if_splits)
  have "tcons_shape (level_count sp) (command_count sp) ?t0"
    by (auto simp: tcons_shape_def)
  with f have "tcons_shape (level_count sp) (command_count sp) tcs"
    by (rule foldR_invariant) (erule load_timing_constraint_shape, assumption)
  with ok sp' show "cfg_count cfg ! 0 = 1" "organization sp' = \<lparr>dq = cfg_dq cfg, level_sizes = cfg_count cfg\<rparr>"
    "tcons_shape (level_count sp) (command_count sp) (timing_cons sp')"
    "has_sibling_cons sp' = sibling_flags (timing_cons sp') (level_count sp) (command_count sp)"
    "level_count sp' = level_count sp" "command_count sp' = command_count sp"
    by simp_all
qed

text \<open>A configuration is loaded when the channel count is 1 and no window is negative.\<close>

lemma load_config_total:
  assumes "cfg_count cfg ! 0 = 1" "\<forall>f \<in> set (cfg_timing_constraints cfg). 0 \<le> window_of f"
  shows "\<exists>sp'. load_config sp cfg = Inr sp'"
proof -
  have "\<exists>tcs. foldR load_timing_constraint (cfg_timing_constraints cfg) tcs0 = Inr tcs" for tcs0
    using assms(2) by (intro foldR_total) (auto simp: load_timing_constraint_eq)
  then obtain tcs where "foldR load_timing_constraint (cfg_timing_constraints cfg)
      (replicate (level_count sp) (replicate (command_count sp) [])) = Inr tcs" by blast
  with assms(1) show ?thesis by (simp add: load_config_def)
qed

definition line_ok :: "TimingConsConfig \<Rightarrow> bool" where
  "line_ok f \<longleftrightarrow> 0 \<le> window_of f \<or> tcc_preceding f = [] \<or> tcc_following f = []"

lemma load_timing_constraint_empty:
  assumes "tcc_preceding f = [] \<or> tcc_following f = []"
  shows "load_timing_constraint f tcs = Inr tcs"
proof -
  have n: "foldR g [] = Inr" for g :: "nat \<Rightarrow> TimingConsEntry list list list \<Rightarrow> TimingConsEntry list list list result"
    by (rule ext) simp
  have "foldR (\<lambda>p. Inr) ps tcs = Inr tcs" for ps :: "nat list" by (induction ps) auto
  with assms n show ?thesis by (auto simp: load_timing_constraint_def Let_def)
qed

lemma load_timing_constraint_succeeds: "(\<exists>t. load_timing_constraint f tcs = Inr t) \<longleftrightarrow> line_ok f"
proof (cases "0 \<le> window_of f")
  case True
  then show ?thesis by (simp add: load_timing_constraint_eq line_ok_def)
next
  case False
  show ?thesis
  proof (cases "tcc_preceding f = [] \<or> tcc_following f = []")
    case True
    with load_timing_constraint_empty [of f tcs] show ?thesis by (simp add: line_ok_def)
  next
    case nonempty: False
    with False load_timing_constraint_negative [of f tcs] show ?thesis by (simp add: line_ok_def)
  qed
qed

lemma load_config_succeeds:
  "(\<exists>sp'. load_config sp cfg = Inr sp') \<longleftrightarrow> cfg_count cfg ! 0 = 1 \<and> list_all line_ok (cfg_timing_constraints cfg)"
proof -
  have "(\<exists>t. foldR load_timing_constraint (cfg_timing_constraints cfg)
      (replicate (level_count sp) (replicate (command_count sp) [])) = Inr t) \<longleftrightarrow> list_all line_ok (cfg_timing_constraints cfg)"
    by (rule foldR_succeeds_iff) (rule load_timing_constraint_succeeds)
  then show ?thesis by (auto simp: load_config_def bindR_eq_Inr_iff)
qed

text \<open>
  What the table holds in the end: for each level and preceding command, the entries of
  the configuration lines that name them, in the order of the file.
\<close>

definition line_entries :: "nat \<Rightarrow> nat \<Rightarrow> TimingConsConfig \<Rightarrow> TimingConsEntry list" where
  "line_entries l p f =
     (if tcc_level f = l
      then concat (map (\<lambda>q. if q = p then map (entry_of f) (tcc_following f) else []) (tcc_preceding f)) else [])"

lemma tcons_push_out:
  "tcons_shape nl nc tcs \<Longrightarrow> \<not> (l < nl \<and> p < nc) \<Longrightarrow> tcons_push l p e tcs = tcs"
  by (cases "l < nl") (simp_all add: tcons_push_def tcons_shape_def list_update_beyond)

lemma fold_push_out:
  "tcons_shape nl nc tcs \<Longrightarrow> \<not> (l < nl \<and> p < nc) \<Longrightarrow> fold (\<lambda>fc. tcons_push l p (e fc)) fcs tcs = tcs"
  by (induction fcs) (auto simp: tcons_push_out)

lemma load_line_entries:
  assumes sh: "tcons_shape nl nc tcs" and lp: "l < nl" "p < nc" and w: "load_timing_constraint f tcs = Inr tcs'"
  shows "tcs' ! l ! p = tcs ! l ! p @ line_entries l p f"
proof (cases "0 \<le> window_of f")
  case True
  let ?row = "\<lambda>q. fold (\<lambda>fc. tcons_push (tcc_level f) q (entry_of f fc)) (tcc_following f)"
  let ?new = "\<lambda>q. if tcc_level f = l \<and> q = p then map (entry_of f) (tcc_following f) else []"
  have row: "?row q t ! l ! p = t ! l ! p @ ?new q" if "tcons_shape nl nc t" for q t
  proof (cases "tcc_level f < nl \<and> q < nc")
    case True
    with fold_push_row [OF that _ _ lp, of "tcc_level f" q "entry_of f" "tcc_following f"] show ?thesis by auto
  next
    case False
    with fold_push_out [OF that False, of "entry_of f" "tcc_following f"] lp show ?thesis by auto
  qed
  have "fold ?row ps t ! l ! p = t ! l ! p @ concat (map ?new ps)" if "tcons_shape nl nc t" for ps t
    using that by (induction ps arbitrary: t) (simp_all add: row tcons_shape_fold_push)
  moreover have "concat (map ?new (tcc_preceding f)) = line_entries l p f"
    by (cases "tcc_level f = l") (simp_all add: line_entries_def)
  ultimately show ?thesis using w sh load_timing_constraint_eq [OF True, of tcs] by auto
next
  case False
  with load_timing_constraint_negative [of f tcs] w have e: "tcc_preceding f = [] \<or> tcc_following f = []" by auto
  with w have "tcs' = tcs" by (simp add: load_timing_constraint_empty)
  moreover have "line_entries l p f = []" using e by (auto simp: line_entries_def concat_eq_Nil_conv)
  ultimately show ?thesis by simp
qed

lemma load_lines_entries:
  "foldR load_timing_constraint fs tcs = Inr tcs' \<Longrightarrow> tcons_shape nl nc tcs \<Longrightarrow> l < nl \<Longrightarrow> p < nc \<Longrightarrow>
   tcs' ! l ! p = tcs ! l ! p @ concat (map (line_entries l p) fs)"
proof (induction fs arbitrary: tcs)
  case (Cons f fs)
  from Cons.prems(1) obtain t where t: "load_timing_constraint f tcs = Inr t" "foldR load_timing_constraint fs t = Inr tcs'"
    by (auto simp: bindR_eq_Inr_iff)
  from Cons.IH [OF t(2) load_timing_constraint_shape [OF t(1) Cons.prems(2)] Cons.prems(3,4)]
    load_line_entries [OF Cons.prems(2-4) t(1)] show ?case by simp
qed simp

lemma load_config_entries:
  assumes "load_config sp cfg = Inr sp'" "l < level_count sp" "p < command_count sp"
  shows "timing_cons sp' ! l ! p = concat (map (line_entries l p) (cfg_timing_constraints cfg))"
proof -
  let ?e = "replicate (level_count sp) (replicate (command_count sp) [])"
  from assms(1) have "foldR load_timing_constraint (cfg_timing_constraints cfg) ?e = Inr (timing_cons sp')"
    unfolding load_config_def by (auto simp: bindR_eq_Inr_iff split: if_splits)
  from load_lines_entries [OF this _ assms(2,3)] assms(2,3) show ?thesis by (simp add: tcons_shape_def)
qed

end
