(* ===== verification/Dram_Commands.thy ===== *)
theory Dram_Commands
  imports Dram_Spec
begin

text \<open>
  The command implementations of \<^verbatim>\<open>ramulator/dram/commands\<close>. Each header is a class
  template \<^verbatim>\<open>template <class T> struct X\<close> whose static members are the metadata, the bank
  target and up to four handlers; here it is a function from the template argument (the
  enumerators of \<^verbatim>\<open>T\<close> the headers name, record \<open>cmd_env\<close>) to a record of these members,
  \<open>None\<close> for a member the struct does not have. \<open>register_command\<close> and
  \<open>populate_commands\<close> (\<^verbatim>\<open>populate.h\<close>) copy the members into the specification.
\<close>

section \<open>The template argument and the members of a command\<close>

record cmd_env =
  T_Opened :: nat
  T_Closed :: nat
  T_Activating :: nat
  T_Row :: nat
  T_ACT :: nat
  T_ACT1 :: nat
  T_ACT2 :: nat
  T_PREpb :: nat
  T_PREab :: nat
  T_PREsb :: nat
  T_has_ACT2 :: bool

record CmdImpl =
  impl_meta :: DRAMCommandMeta
  impl_bank_target :: BankTarget
  impl_action :: "ActionFunc_t option"
  impl_preq :: "PreqFunc_t option"
  impl_rowhit :: "RowhitFunc_t option"
  impl_rowopen :: "RowopenFunc_t option"

definition meta_none :: DRAMCommandMeta where
  "meta_none = \<lparr>is_opening = False, is_closing = False, is_accessing = False,
     is_refreshing = False, is_row_command = False, is_column_command = False\<rparr>"

text \<open>\<^verbatim>\<open>bank->m_row_state.find(addr_vec[T::Level::Row]) != bank->m_row_state.end()\<close>\<close>

definition row_found :: "cmd_env \<Rightarrow> NodeData \<Rightarrow> AddrVec_t \<Rightarrow> bool" where
  "row_found T bank addr_vec \<longleftrightarrow> m_row_state bank (addr_vec ! T_Row T) \<noteq> None"

section \<open>Handlers\<close>

definition ACT_action :: "cmd_env \<Rightarrow> ActionFunc_t" where
  "ACT_action T bank cmd addr_vec clk =
     bank\<lparr>m_state := T_Opened T, m_row_state := (m_row_state bank)(addr_vec ! T_Row T \<mapsto> T_Opened T)\<rparr>"

definition ACT_preq :: "cmd_env \<Rightarrow> PreqFunc_t" where
  "ACT_preq T bank cmd addr_vec clk =
     (if m_state bank = T_Closed T then Inr (T_ACT T)
      else if m_state bank = T_Opened T then
        (if row_found T bank addr_vec then Inr cmd else Inr (T_PREpb T))
      else throw ''[ACT] Invalid bank state!'')"

definition ACT1_action :: "cmd_env \<Rightarrow> ActionFunc_t" where
  "ACT1_action T bank cmd addr_vec clk = bank\<lparr>m_state := T_Activating T\<rparr>"

definition ACT1_preq :: "cmd_env \<Rightarrow> PreqFunc_t" where
  "ACT1_preq T bank cmd addr_vec clk =
     (if m_state bank = T_Closed T then Inr (T_ACT1 T)
      else if m_state bank = T_Activating T then Inr cmd
      else if m_state bank = T_Opened T then
        (if row_found T bank addr_vec then Inr cmd else Inr (T_PREpb T))
      else throw ''[ACT1] Invalid bank state!'')"

definition ACT2_action :: "cmd_env \<Rightarrow> ActionFunc_t" where
  "ACT2_action T bank cmd addr_vec clk =
     bank\<lparr>m_state := T_Opened T, m_row_state := (m_row_state bank)(addr_vec ! T_Row T \<mapsto> T_Opened T)\<rparr>"

definition ACT2_preq :: "cmd_env \<Rightarrow> PreqFunc_t" where
  "ACT2_preq T bank cmd addr_vec clk =
     (if m_state bank = T_Closed T then Inr (T_ACT1 T)
      else if m_state bank = T_Activating T then Inr (T_ACT2 T)
      else if m_state bank = T_Opened T then
        (if row_found T bank addr_vec then Inr cmd else Inr (T_PREpb T))
      else throw ''[ACT2] Invalid bank state!'')"

definition PREpb_action :: "cmd_env \<Rightarrow> ActionFunc_t" where
  "PREpb_action T bank cmd addr_vec clk = bank\<lparr>m_state := T_Closed T, m_row_state := Map.empty\<rparr>"

definition PREpb_preq :: "cmd_env \<Rightarrow> PreqFunc_t" where
  "PREpb_preq T bank cmd addr_vec clk =
     (if m_state bank = T_Closed T then Inr cmd
      else if m_state bank = T_Opened T then Inr (T_PREpb T)
      else Inr (T_PREpb T))"

text \<open>\<^verbatim>\<open>if constexpr (requires { T::Command::ACT2; })\<close> is a choice by the template argument.\<close>

definition RD_preq :: "cmd_env \<Rightarrow> PreqFunc_t" where
  "RD_preq T bank cmd addr_vec clk =
     (if T_has_ACT2 T then ACT2_preq T bank cmd addr_vec clk else ACT_preq T bank cmd addr_vec clk)"

definition RD_rowhit :: "cmd_env \<Rightarrow> RowhitFunc_t" where
  "RD_rowhit T bank cmd addr_vec clk \<longleftrightarrow> m_state bank = T_Opened T \<and> row_found T bank addr_vec"

definition RD_rowopen :: "cmd_env \<Rightarrow> RowopenFunc_t" where
  "RD_rowopen T bank cmd addr_vec clk \<longleftrightarrow> m_state bank = T_Opened T"

definition REFab_preq :: "cmd_env \<Rightarrow> PreqFunc_t" where
  "REFab_preq T bank cmd addr_vec clk =
     (if m_state bank \<noteq> T_Closed T then Inr (T_PREab T) else Inr cmd)"

definition REFpb_preq :: "cmd_env \<Rightarrow> PreqFunc_t" where
  "REFpb_preq T bank cmd addr_vec clk =
     (if m_state bank \<noteq> T_Closed T then Inr (T_PREpb T) else Inr cmd)"

definition REFsb_preq :: "cmd_env \<Rightarrow> PreqFunc_t" where
  "REFsb_preq T bank cmd addr_vec clk =
     (if m_state bank \<noteq> T_Closed T then Inr (T_PREsb T) else Inr cmd)"

definition RFMab_preq :: "cmd_env \<Rightarrow> PreqFunc_t" where
  "RFMab_preq T bank cmd addr_vec clk =
     (if m_state bank \<noteq> T_Closed T then Inr (T_PREab T) else Inr cmd)"

definition RFMpb_preq :: "cmd_env \<Rightarrow> PreqFunc_t" where
  "RFMpb_preq T bank cmd addr_vec clk =
     (if m_state bank \<noteq> T_Closed T then Inr (T_PREpb T) else Inr cmd)"

definition RFMsb_preq :: "cmd_env \<Rightarrow> PreqFunc_t" where
  "RFMsb_preq T bank cmd addr_vec clk =
     (if m_state bank \<noteq> T_Closed T then Inr (T_PREsb T) else Inr cmd)"

definition VRR_preq :: "cmd_env \<Rightarrow> PreqFunc_t" where
  "VRR_preq T bank cmd addr_vec clk =
     (if m_state bank \<noteq> T_Closed T then Inr (T_PREpb T) else Inr cmd)"

section \<open>Commands\<close>

definition Cmd_ACT :: "cmd_env \<Rightarrow> CmdImpl" where
  "Cmd_ACT T = \<lparr>impl_meta = meta_none\<lparr>is_opening := True\<rparr>, impl_bank_target = BT_Single,
     impl_action = Some (ACT_action T), impl_preq = Some (ACT_preq T), impl_rowhit = None, impl_rowopen = None\<rparr>"

definition Cmd_ACT1 :: "cmd_env \<Rightarrow> CmdImpl" where
  "Cmd_ACT1 T = \<lparr>impl_meta = meta_none\<lparr>is_opening := True\<rparr>, impl_bank_target = BT_Single,
     impl_action = Some (ACT1_action T), impl_preq = Some (ACT1_preq T), impl_rowhit = None, impl_rowopen = None\<rparr>"

definition Cmd_ACT2 :: "cmd_env \<Rightarrow> CmdImpl" where
  "Cmd_ACT2 T = \<lparr>impl_meta = meta_none, impl_bank_target = BT_Single,
     impl_action = Some (ACT2_action T), impl_preq = Some (ACT2_preq T), impl_rowhit = None, impl_rowopen = None\<rparr>"

definition Cmd_CAS :: "cmd_env \<Rightarrow> CmdImpl" where
  "Cmd_CAS T = \<lparr>impl_meta = meta_none, impl_bank_target = BT_Single,
     impl_action = None, impl_preq = None, impl_rowhit = None, impl_rowopen = None\<rparr>"

definition Cmd_CAS_RD :: "cmd_env \<Rightarrow> CmdImpl" where
  "Cmd_CAS_RD T = \<lparr>impl_meta = meta_none, impl_bank_target = BT_Single,
     impl_action = None, impl_preq = None, impl_rowhit = None, impl_rowopen = None\<rparr>"

definition Cmd_CAS_WR :: "cmd_env \<Rightarrow> CmdImpl" where
  "Cmd_CAS_WR T = \<lparr>impl_meta = meta_none, impl_bank_target = BT_Single,
     impl_action = None, impl_preq = None, impl_rowhit = None, impl_rowopen = None\<rparr>"

definition Cmd_PREpb :: "cmd_env \<Rightarrow> CmdImpl" where
  "Cmd_PREpb T = \<lparr>impl_meta = meta_none\<lparr>is_closing := True\<rparr>, impl_bank_target = BT_Single,
     impl_action = Some (PREpb_action T), impl_preq = Some (PREpb_preq T), impl_rowhit = None, impl_rowopen = None\<rparr>"

definition Cmd_PREab :: "cmd_env \<Rightarrow> CmdImpl" where
  "Cmd_PREab T = \<lparr>impl_meta = meta_none\<lparr>is_closing := True\<rparr>, impl_bank_target = BT_All,
     impl_action = Some (PREpb_action T), impl_preq = None, impl_rowhit = None, impl_rowopen = None\<rparr>"

definition Cmd_PREsb :: "cmd_env \<Rightarrow> CmdImpl" where
  "Cmd_PREsb T = \<lparr>impl_meta = meta_none\<lparr>is_closing := True\<rparr>, impl_bank_target = BT_SameBank,
     impl_action = Some (PREpb_action T), impl_preq = None, impl_rowhit = None, impl_rowopen = None\<rparr>"

definition Cmd_RCKSTOP :: "cmd_env \<Rightarrow> CmdImpl" where
  "Cmd_RCKSTOP T = \<lparr>impl_meta = meta_none\<lparr>is_column_command := True\<rparr>, impl_bank_target = BT_All,
     impl_action = None, impl_preq = None, impl_rowhit = None, impl_rowopen = None\<rparr>"

definition Cmd_RCKSTRT :: "cmd_env \<Rightarrow> CmdImpl" where
  "Cmd_RCKSTRT T = \<lparr>impl_meta = meta_none\<lparr>is_column_command := True\<rparr>, impl_bank_target = BT_All,
     impl_action = None, impl_preq = None, impl_rowhit = None, impl_rowopen = None\<rparr>"

definition Cmd_RD :: "cmd_env \<Rightarrow> CmdImpl" where
  "Cmd_RD T = \<lparr>impl_meta = meta_none\<lparr>is_accessing := True\<rparr>, impl_bank_target = BT_Single,
     impl_action = None, impl_preq = Some (RD_preq T), impl_rowhit = Some (RD_rowhit T), impl_rowopen = Some (RD_rowopen T)\<rparr>"

definition Cmd_WR :: "cmd_env \<Rightarrow> CmdImpl" where
  "Cmd_WR T = \<lparr>impl_meta = meta_none\<lparr>is_accessing := True\<rparr>, impl_bank_target = BT_Single,
     impl_action = None, impl_preq = Some (RD_preq T), impl_rowhit = Some (RD_rowhit T), impl_rowopen = Some (RD_rowopen T)\<rparr>"

definition Cmd_RDA :: "cmd_env \<Rightarrow> CmdImpl" where
  "Cmd_RDA T = \<lparr>impl_meta = meta_none\<lparr>is_closing := True, is_accessing := True\<rparr>, impl_bank_target = BT_Single,
     impl_action = Some (PREpb_action T), impl_preq = Some (RD_preq T), impl_rowhit = Some (RD_rowhit T), impl_rowopen = Some (RD_rowopen T)\<rparr>"

definition Cmd_WRA :: "cmd_env \<Rightarrow> CmdImpl" where
  "Cmd_WRA T = \<lparr>impl_meta = meta_none\<lparr>is_closing := True, is_accessing := True\<rparr>, impl_bank_target = BT_Single,
     impl_action = Some (PREpb_action T), impl_preq = Some (RD_preq T), impl_rowhit = Some (RD_rowhit T), impl_rowopen = Some (RD_rowopen T)\<rparr>"

definition Cmd_RD_L :: "cmd_env \<Rightarrow> CmdImpl" where
  "Cmd_RD_L T = Cmd_RD T"

definition Cmd_RD_S :: "cmd_env \<Rightarrow> CmdImpl" where
  "Cmd_RD_S T = Cmd_RD T"

definition Cmd_WR_L :: "cmd_env \<Rightarrow> CmdImpl" where
  "Cmd_WR_L T = Cmd_WR T"

definition Cmd_WR_S :: "cmd_env \<Rightarrow> CmdImpl" where
  "Cmd_WR_S T = Cmd_WR T"

definition Cmd_RDA_L :: "cmd_env \<Rightarrow> CmdImpl" where
  "Cmd_RDA_L T = Cmd_RDA T"

definition Cmd_RDA_S :: "cmd_env \<Rightarrow> CmdImpl" where
  "Cmd_RDA_S T = Cmd_RDA T"

definition Cmd_WRA_L :: "cmd_env \<Rightarrow> CmdImpl" where
  "Cmd_WRA_L T = Cmd_WRA T"

definition Cmd_WRA_S :: "cmd_env \<Rightarrow> CmdImpl" where
  "Cmd_WRA_S T = Cmd_WRA T"

definition Cmd_REFab :: "cmd_env \<Rightarrow> CmdImpl" where
  "Cmd_REFab T = \<lparr>impl_meta = meta_none\<lparr>is_refreshing := True\<rparr>, impl_bank_target = BT_All,
     impl_action = None, impl_preq = Some (REFab_preq T), impl_rowhit = None, impl_rowopen = None\<rparr>"

definition Cmd_REFpb :: "cmd_env \<Rightarrow> CmdImpl" where
  "Cmd_REFpb T = \<lparr>impl_meta = meta_none\<lparr>is_refreshing := True\<rparr>, impl_bank_target = BT_Single,
     impl_action = None, impl_preq = Some (REFpb_preq T), impl_rowhit = None, impl_rowopen = None\<rparr>"

definition Cmd_REFsb :: "cmd_env \<Rightarrow> CmdImpl" where
  "Cmd_REFsb T = \<lparr>impl_meta = meta_none\<lparr>is_refreshing := True\<rparr>, impl_bank_target = BT_SameBank,
     impl_action = None, impl_preq = Some (REFsb_preq T), impl_rowhit = None, impl_rowopen = None\<rparr>"

definition Cmd_RFMab :: "cmd_env \<Rightarrow> CmdImpl" where
  "Cmd_RFMab T = \<lparr>impl_meta = meta_none\<lparr>is_refreshing := True\<rparr>, impl_bank_target = BT_All,
     impl_action = None, impl_preq = Some (RFMab_preq T), impl_rowhit = None, impl_rowopen = None\<rparr>"

definition Cmd_RFMpb :: "cmd_env \<Rightarrow> CmdImpl" where
  "Cmd_RFMpb T = \<lparr>impl_meta = meta_none\<lparr>is_refreshing := True\<rparr>, impl_bank_target = BT_Single,
     impl_action = None, impl_preq = Some (RFMpb_preq T), impl_rowhit = None, impl_rowopen = None\<rparr>"

definition Cmd_RFMsb :: "cmd_env \<Rightarrow> CmdImpl" where
  "Cmd_RFMsb T = \<lparr>impl_meta = meta_none\<lparr>is_refreshing := True\<rparr>, impl_bank_target = BT_SameBank,
     impl_action = None, impl_preq = Some (RFMsb_preq T), impl_rowhit = None, impl_rowopen = None\<rparr>"

definition Cmd_VRR :: "cmd_env \<Rightarrow> CmdImpl" where
  "Cmd_VRR T = \<lparr>impl_meta = meta_none\<lparr>is_refreshing := True\<rparr>, impl_bank_target = BT_Single,
     impl_action = None, impl_preq = Some (VRR_preq T), impl_rowhit = None, impl_rowopen = None\<rparr>"

text \<open>The command structs by name, so that a standard can list them as data.\<close>

datatype cmd_kind =
    K_ACT | K_ACT1 | K_ACT2 | K_CAS | K_CAS_RD | K_CAS_WR
  | K_PREab | K_PREpb | K_PREsb | K_RCKSTOP | K_RCKSTRT | K_RD
  | K_RDA | K_RDA_L | K_RDA_S | K_RD_L | K_RD_S | K_REFab
  | K_REFpb | K_REFsb | K_RFMab | K_RFMpb | K_RFMsb | K_VRR
  | K_WR | K_WRA | K_WRA_L | K_WRA_S | K_WR_L | K_WR_S

primrec impl_of :: "cmd_kind \<Rightarrow> cmd_env \<Rightarrow> CmdImpl" where
  "impl_of K_ACT = Cmd_ACT"
| "impl_of K_ACT1 = Cmd_ACT1"
| "impl_of K_ACT2 = Cmd_ACT2"
| "impl_of K_CAS = Cmd_CAS"
| "impl_of K_CAS_RD = Cmd_CAS_RD"
| "impl_of K_CAS_WR = Cmd_CAS_WR"
| "impl_of K_PREab = Cmd_PREab"
| "impl_of K_PREpb = Cmd_PREpb"
| "impl_of K_PREsb = Cmd_PREsb"
| "impl_of K_RCKSTOP = Cmd_RCKSTOP"
| "impl_of K_RCKSTRT = Cmd_RCKSTRT"
| "impl_of K_RD = Cmd_RD"
| "impl_of K_RDA = Cmd_RDA"
| "impl_of K_RDA_L = Cmd_RDA_L"
| "impl_of K_RDA_S = Cmd_RDA_S"
| "impl_of K_RD_L = Cmd_RD_L"
| "impl_of K_RD_S = Cmd_RD_S"
| "impl_of K_REFab = Cmd_REFab"
| "impl_of K_REFpb = Cmd_REFpb"
| "impl_of K_REFsb = Cmd_REFsb"
| "impl_of K_RFMab = Cmd_RFMab"
| "impl_of K_RFMpb = Cmd_RFMpb"
| "impl_of K_RFMsb = Cmd_RFMsb"
| "impl_of K_VRR = Cmd_VRR"
| "impl_of K_WR = Cmd_WR"
| "impl_of K_WRA = Cmd_WRA"
| "impl_of K_WRA_L = Cmd_WRA_L"
| "impl_of K_WRA_S = Cmd_WRA_S"
| "impl_of K_WR_L = Cmd_WR_L"
| "impl_of K_WR_S = Cmd_WR_S"

primrec kind_name :: "cmd_kind \<Rightarrow> string" where
  "kind_name K_ACT = ''ACT''"
| "kind_name K_ACT1 = ''ACT1''"
| "kind_name K_ACT2 = ''ACT2''"
| "kind_name K_CAS = ''CAS''"
| "kind_name K_CAS_RD = ''CAS_RD''"
| "kind_name K_CAS_WR = ''CAS_WR''"
| "kind_name K_PREab = ''PREab''"
| "kind_name K_PREpb = ''PREpb''"
| "kind_name K_PREsb = ''PREsb''"
| "kind_name K_RCKSTOP = ''RCKSTOP''"
| "kind_name K_RCKSTRT = ''RCKSTRT''"
| "kind_name K_RD = ''RD''"
| "kind_name K_RDA = ''RDA''"
| "kind_name K_RDA_L = ''RDA_L''"
| "kind_name K_RDA_S = ''RDA_S''"
| "kind_name K_RD_L = ''RD_L''"
| "kind_name K_RD_S = ''RD_S''"
| "kind_name K_REFab = ''REFab''"
| "kind_name K_REFpb = ''REFpb''"
| "kind_name K_REFsb = ''REFsb''"
| "kind_name K_RFMab = ''RFMab''"
| "kind_name K_RFMpb = ''RFMpb''"
| "kind_name K_RFMsb = ''RFMsb''"
| "kind_name K_VRR = ''VRR''"
| "kind_name K_WR = ''WR''"
| "kind_name K_WRA = ''WRA''"
| "kind_name K_WRA_L = ''WRA_L''"
| "kind_name K_WRA_S = ''WRA_S''"
| "kind_name K_WR_L = ''WR_L''"
| "kind_name K_WR_S = ''WR_S''"

section \<open>Registration\<close>

definition register_command :: "CmdImpl \<Rightarrow> nat \<Rightarrow> DRAMSpec \<Rightarrow> DRAMSpec" where
  "register_command impl cmd_id sp =
     sp\<lparr>command_meta := (command_meta sp)[cmd_id := impl_meta impl],
        bank_targets := (bank_targets sp)[cmd_id := impl_bank_target impl],
        funcs :=
          (let f = funcs sp in
           f\<lparr>actions := (case impl_action impl of Some h \<Rightarrow> (actions f)[cmd_id := Some h] | None \<Rightarrow> actions f),
             preqs := (case impl_preq impl of Some h \<Rightarrow> (preqs f)[cmd_id := Some h] | None \<Rightarrow> preqs f),
             rowhits := (case impl_rowhit impl of Some h \<Rightarrow> (rowhits f)[cmd_id := Some h] | None \<Rightarrow> rowhits f),
             rowopens := (case impl_rowopen impl of Some h \<Rightarrow> (rowopens f)[cmd_id := Some h] | None \<Rightarrow> rowopens f)\<rparr>)\<rparr>"

fun register_all :: "CmdImpl list \<Rightarrow> nat \<Rightarrow> DRAMSpec \<Rightarrow> DRAMSpec" where
  "register_all [] i sp = sp"
| "register_all (c # cs) i sp = register_all cs (Suc i) (register_command c i sp)"

text \<open>\<^verbatim>\<open>resize\<close> value-initialises the new elements of the two vectors.\<close>

definition populate_commands :: "CmdImpl list \<Rightarrow> DRAMSpec \<Rightarrow> DRAMSpec" where
  "populate_commands cmds sp =
     register_all cmds 0
       (sp\<lparr>command_meta := replicate (command_count sp) meta_none,
           bank_targets := replicate (command_count sp) BT_Single,
           funcs := FuncArrays_resize (command_count sp)\<rparr>)"

end
