(* ===== verification/Dram_Standards.thy ===== *)
theory Dram_Standards
  imports Dram_Commands
begin

text \<open>
  The thirteen DRAM standards of \<^verbatim>\<open>ramulator/dram/impl\<close>. A standard is a class with four
  enumerations, a tuple of command structs, and a constructor that fills the
  specification; the classes differ only in data, so each is a record of that data and
  \<open>construct_spec\<close> is their common constructor body. The enumerations and the name lists
  passed to \<^verbatim>\<open>set_names\<close> are separate texts in the source and separate fields here;
  \<open>standard_ok\<close> says that they agree and that every prerequisite a command can ask for
  exists in the standard, and all thirteen satisfy it.
\<close>

section \<open>Standards as data\<close>

record dram_standard =
  std_name :: string
  enum_Level :: "string list"
  enum_Command :: "string list"
  enum_State :: "string list"
  enum_Timing :: "string list"
  CommandImpls :: "cmd_kind list"
  std_level_names :: "string list"
  std_command_names :: "string list"
  std_state_names :: "string list"
  std_timing_names :: "string list"
  std_prefetch_size :: int
  std_init_states :: "string list"
  std_supported_requests :: "string list"
  std_row_commands :: "string list"
  std_column_commands :: "string list"

definition DDR3 :: dram_standard where
  "DDR3 = \<lparr>
     std_name = ''DDR3'',
     enum_Level = [''Channel'', ''Rank'', ''Bank'', ''Row'', ''Column''],
     enum_Command = [''ACT'', ''PREpb'', ''PREab'', ''RD'', ''WR'', ''RDA'', ''WRA'', ''REFab''],
     enum_State = [''Opened'', ''Closed'', ''N_A''],
     enum_Timing = [''rate'', ''nBL'', ''nCL'', ''nRCD'', ''nRP'', ''nRAS'', ''nRC'', ''nWR'', ''nRTP'', ''nCWL'', ''nCCD'',
      ''nRRD'', ''nWTR'', ''nFAW'', ''nRFC'', ''nREFI'', ''nCS'', ''tCK_ps''],
     CommandImpls = [K_ACT, K_PREpb, K_PREab, K_RD, K_WR, K_RDA, K_WRA, K_REFab],
     std_level_names = [''Channel'', ''Rank'', ''Bank'', ''Row'', ''Column''],
     std_command_names = [''ACT'', ''PREpb'', ''PREab'', ''RD'', ''WR'', ''RDA'', ''WRA'', ''REFab''],
     std_state_names = [''Opened'', ''Closed'', ''N_A''],
     std_timing_names = [''rate'', ''nBL'', ''nCL'', ''nRCD'', ''nRP'', ''nRAS'', ''nRC'', ''nWR'', ''nRTP'', ''nCWL'', ''nCCD'',
      ''nRRD'', ''nWTR'', ''nFAW'', ''nRFC'', ''nREFI'', ''nCS'', ''tCK_ps''],
     std_prefetch_size = 8,
     std_init_states = [''N_A'', ''N_A'', ''Closed'', ''Closed'', ''N_A''],
     std_supported_requests = [''RD'', ''WR''],
     std_row_commands = [],
     std_column_commands = []\<rparr>"

definition DDR4 :: dram_standard where
  "DDR4 = \<lparr>
     std_name = ''DDR4'',
     enum_Level = [''Channel'', ''Rank'', ''BankGroup'', ''Bank'', ''Row'', ''Column''],
     enum_Command = [''ACT'', ''PREpb'', ''PREab'', ''RD'', ''WR'', ''RDA'', ''WRA'', ''REFab''],
     enum_State = [''Opened'', ''Closed'', ''N_A''],
     enum_Timing = [''rate'', ''nBL'', ''nCL'', ''nRCD'', ''nRP'', ''nRAS'', ''nRC'', ''nWR'', ''nRTP'', ''nCWL'',
      ''nCCDS'', ''nCCDL'', ''nRRDS'', ''nRRDL'', ''nWTRS'', ''nWTRL'', ''nFAW'', ''nRFC'', ''nREFI'', ''nCS'',
      ''tCK_ps''],
     CommandImpls = [K_ACT, K_PREpb, K_PREab, K_RD, K_WR, K_RDA, K_WRA, K_REFab],
     std_level_names = [''Channel'', ''Rank'', ''BankGroup'', ''Bank'', ''Row'', ''Column''],
     std_command_names = [''ACT'', ''PREpb'', ''PREab'', ''RD'', ''WR'', ''RDA'', ''WRA'', ''REFab''],
     std_state_names = [''Opened'', ''Closed'', ''N_A''],
     std_timing_names = [''rate'', ''nBL'', ''nCL'', ''nRCD'', ''nRP'', ''nRAS'', ''nRC'', ''nWR'', ''nRTP'', ''nCWL'',
      ''nCCDS'', ''nCCDL'', ''nRRDS'', ''nRRDL'', ''nWTRS'', ''nWTRL'', ''nFAW'', ''nRFC'', ''nREFI'', ''nCS'',
      ''tCK_ps''],
     std_prefetch_size = 8,
     std_init_states = [''N_A'', ''N_A'', ''N_A'', ''Closed'', ''Closed'', ''N_A''],
     std_supported_requests = [''RD'', ''WR''],
     std_row_commands = [],
     std_column_commands = []\<rparr>"

definition DDR4_VRR :: dram_standard where
  "DDR4_VRR = \<lparr>
     std_name = ''DDR4_VRR'',
     enum_Level = [''Channel'', ''Rank'', ''BankGroup'', ''Bank'', ''Row'', ''Column''],
     enum_Command = [''ACT'', ''PREpb'', ''PREab'', ''RD'', ''WR'', ''RDA'', ''WRA'', ''REFab'', ''VRR''],
     enum_State = [''Opened'', ''Closed'', ''N_A''],
     enum_Timing = [''rate'', ''nBL'', ''nCL'', ''nRCD'', ''nRP'', ''nRAS'', ''nRC'', ''nWR'', ''nRTP'', ''nCWL'',
      ''nCCDS'', ''nCCDL'', ''nRRDS'', ''nRRDL'', ''nWTRS'', ''nWTRL'', ''nFAW'', ''nRFC'', ''nREFI'', ''nCS'',
      ''tCK_ps'', ''nVRR''],
     CommandImpls = [K_ACT, K_PREpb, K_PREab, K_RD, K_WR, K_RDA, K_WRA, K_REFab, K_VRR],
     std_level_names = [''Channel'', ''Rank'', ''BankGroup'', ''Bank'', ''Row'', ''Column''],
     std_command_names = [''ACT'', ''PREpb'', ''PREab'', ''RD'', ''WR'', ''RDA'', ''WRA'', ''REFab'', ''VRR''],
     std_state_names = [''Opened'', ''Closed'', ''N_A''],
     std_timing_names = [''rate'', ''nBL'', ''nCL'', ''nRCD'', ''nRP'', ''nRAS'', ''nRC'', ''nWR'', ''nRTP'', ''nCWL'',
      ''nCCDS'', ''nCCDL'', ''nRRDS'', ''nRRDL'', ''nWTRS'', ''nWTRL'', ''nFAW'', ''nRFC'', ''nREFI'', ''nCS'',
      ''tCK_ps'', ''nVRR''],
     std_prefetch_size = 8,
     std_init_states = [''N_A'', ''N_A'', ''N_A'', ''Closed'', ''Closed'', ''N_A''],
     std_supported_requests = [''RD'', ''WR''],
     std_row_commands = [],
     std_column_commands = []\<rparr>"

definition DDR5 :: dram_standard where
  "DDR5 = \<lparr>
     std_name = ''DDR5'',
     enum_Level = [''Channel'', ''Rank'', ''BankGroup'', ''Bank'', ''Row'', ''Column''],
     enum_Command = [''ACT'', ''PREpb'', ''PREab'', ''RD'', ''WR'', ''RDA'', ''WRA'', ''REFab'', ''PREsb'', ''REFsb'',
      ''RFMab'', ''RFMsb''],
     enum_State = [''Opened'', ''Closed'', ''N_A''],
     enum_Timing = [''rate'', ''nBL'', ''nCL'', ''nRCD'', ''nRP'', ''nRAS'', ''nRC'', ''nWR'', ''nRTP'', ''nCWL'', ''nPPD'',
      ''nCCDS'', ''nCCDL'', ''nCCDS_WR'', ''nCCDL_WR'', ''nCCDM'', ''nCCDM_WR'', ''nWTRM'', ''nRTW'',
      ''nRRDS'', ''nRRDL'', ''nWTRS'', ''nWTRL'', ''nFAW'', ''nRFC'', ''nREFI'', ''nRFCsb'', ''nCS'',
      ''tCK_ps'', ''nRFM'', ''nRFMsb'', ''nREFSBRD''],
     CommandImpls = [K_ACT, K_PREpb, K_PREab, K_RD, K_WR, K_RDA, K_WRA, K_REFab, K_PREsb, K_REFsb, K_RFMab, K_RFMsb],
     std_level_names = [''Channel'', ''Rank'', ''BankGroup'', ''Bank'', ''Row'', ''Column''],
     std_command_names = [''ACT'', ''PREpb'', ''PREab'', ''RD'', ''WR'', ''RDA'', ''WRA'', ''REFab'', ''PREsb'', ''REFsb'',
      ''RFMab'', ''RFMsb''],
     std_state_names = [''Opened'', ''Closed'', ''N_A''],
     std_timing_names = [''rate'', ''nBL'', ''nCL'', ''nRCD'', ''nRP'', ''nRAS'', ''nRC'', ''nWR'', ''nRTP'', ''nCWL'', ''nPPD'',
      ''nCCDS'', ''nCCDL'', ''nCCDS_WR'', ''nCCDL_WR'', ''nCCDM'', ''nCCDM_WR'', ''nWTRM'', ''nRTW'',
      ''nRRDS'', ''nRRDL'', ''nWTRS'', ''nWTRL'', ''nFAW'', ''nRFC'', ''nREFI'', ''nRFCsb'', ''nCS'',
      ''tCK_ps'', ''nRFM'', ''nRFMsb'', ''nREFSBRD''],
     std_prefetch_size = 16,
     std_init_states = [''N_A'', ''N_A'', ''N_A'', ''Closed'', ''Closed'', ''N_A''],
     std_supported_requests = [''RD'', ''WR''],
     std_row_commands = [],
     std_column_commands = []\<rparr>"

definition DDR5_VRR :: dram_standard where
  "DDR5_VRR = \<lparr>
     std_name = ''DDR5_VRR'',
     enum_Level = [''Channel'', ''Rank'', ''BankGroup'', ''Bank'', ''Row'', ''Column''],
     enum_Command = [''ACT'', ''PREpb'', ''PREab'', ''RD'', ''WR'', ''RDA'', ''WRA'', ''REFab'', ''PREsb'', ''REFsb'',
      ''RFMab'', ''RFMsb'', ''VRR''],
     enum_State = [''Opened'', ''Closed'', ''N_A''],
     enum_Timing = [''rate'', ''nBL'', ''nCL'', ''nRCD'', ''nRP'', ''nRAS'', ''nRC'', ''nWR'', ''nRTP'', ''nCWL'', ''nPPD'',
      ''nCCDS'', ''nCCDL'', ''nCCDS_WR'', ''nCCDL_WR'', ''nCCDM'', ''nCCDM_WR'', ''nWTRM'', ''nRTW'',
      ''nRRDS'', ''nRRDL'', ''nWTRS'', ''nWTRL'', ''nFAW'', ''nRFC'', ''nREFI'', ''nRFCsb'', ''nCS'',
      ''tCK_ps'', ''nRFM'', ''nRFMsb'', ''nREFSBRD'', ''nVRR''],
     CommandImpls = [K_ACT, K_PREpb, K_PREab, K_RD, K_WR, K_RDA, K_WRA, K_REFab, K_PREsb, K_REFsb, K_RFMab, K_RFMsb, K_VRR],
     std_level_names = [''Channel'', ''Rank'', ''BankGroup'', ''Bank'', ''Row'', ''Column''],
     std_command_names = [''ACT'', ''PREpb'', ''PREab'', ''RD'', ''WR'', ''RDA'', ''WRA'', ''REFab'', ''PREsb'', ''REFsb'',
      ''RFMab'', ''RFMsb'', ''VRR''],
     std_state_names = [''Opened'', ''Closed'', ''N_A''],
     std_timing_names = [''rate'', ''nBL'', ''nCL'', ''nRCD'', ''nRP'', ''nRAS'', ''nRC'', ''nWR'', ''nRTP'', ''nCWL'', ''nPPD'',
      ''nCCDS'', ''nCCDL'', ''nCCDS_WR'', ''nCCDL_WR'', ''nCCDM'', ''nCCDM_WR'', ''nWTRM'', ''nRTW'',
      ''nRRDS'', ''nRRDL'', ''nWTRS'', ''nWTRL'', ''nFAW'', ''nRFC'', ''nREFI'', ''nRFCsb'', ''nCS'',
      ''tCK_ps'', ''nRFM'', ''nRFMsb'', ''nREFSBRD'', ''nVRR''],
     std_prefetch_size = 16,
     std_init_states = [''N_A'', ''N_A'', ''N_A'', ''Closed'', ''Closed'', ''N_A''],
     std_supported_requests = [''RD'', ''WR''],
     std_row_commands = [],
     std_column_commands = []\<rparr>"

definition GDDR6 :: dram_standard where
  "GDDR6 = \<lparr>
     std_name = ''GDDR6'',
     enum_Level = [''Channel'', ''BankGroup'', ''Bank'', ''Row'', ''Column''],
     enum_Command = [''ACT'', ''PREab'', ''PREpb'', ''RD'', ''WR'', ''RDA'', ''WRA'', ''REFab'', ''REFpb''],
     enum_State = [''Opened'', ''Closed'', ''N_A''],
     enum_Timing = [''rate'', ''nBL'', ''nCL'', ''nRCDRD'', ''nRCDWR'', ''nRP'', ''nRAS'', ''nRC'', ''nWR'', ''nRTP'',
      ''nCWL'', ''nCCDS'', ''nCCDL'', ''nRRDS'', ''nRRDL'', ''nWTRS'', ''nWTRL'', ''nRTW'', ''nFAW'',
      ''nRFCpb'', ''nRREFD'', ''nREFI'', ''nREFIpb'', ''tCK_ps'', ''nRFCab'', ''nPPD''],
     CommandImpls = [K_ACT, K_PREab, K_PREpb, K_RD, K_WR, K_RDA, K_WRA, K_REFab, K_REFpb],
     std_level_names = [''Channel'', ''BankGroup'', ''Bank'', ''Row'', ''Column''],
     std_command_names = [''ACT'', ''PREab'', ''PREpb'', ''RD'', ''WR'', ''RDA'', ''WRA'', ''REFab'', ''REFpb''],
     std_state_names = [''Opened'', ''Closed'', ''N_A''],
     std_timing_names = [''rate'', ''nBL'', ''nCL'', ''nRCDRD'', ''nRCDWR'', ''nRP'', ''nRAS'', ''nRC'', ''nWR'', ''nRTP'',
      ''nCWL'', ''nCCDS'', ''nCCDL'', ''nRRDS'', ''nRRDL'', ''nWTRS'', ''nWTRL'', ''nRTW'', ''nFAW'',
      ''nRFCpb'', ''nRREFD'', ''nREFI'', ''nREFIpb'', ''tCK_ps'', ''nRFCab'', ''nPPD''],
     std_prefetch_size = 16,
     std_init_states = [''N_A'', ''N_A'', ''Closed'', ''Closed'', ''N_A''],
     std_supported_requests = [''RD'', ''WR''],
     std_row_commands = [],
     std_column_commands = []\<rparr>"

definition GDDR7 :: dram_standard where
  "GDDR7 = \<lparr>
     std_name = ''GDDR7'',
     enum_Level = [''Channel'', ''Bank'', ''Row'', ''Column''],
     enum_Command = [''ACT'', ''PREpb'', ''PREab'', ''RD'', ''WR'', ''RDA'', ''WRA'', ''REFab'', ''REFpb'', ''RFMab'',
      ''RFMpb'', ''RCKSTRT'', ''RCKSTOP''],
     enum_State = [''Opened'', ''Closed'', ''N_A''],
     enum_Timing = [''rate'', ''nBL'', ''nRL'', ''nWL'', ''nDQERL'', ''nRCDRD'', ''nRCDWR'', ''nRP'', ''nRAS'', ''nRC'',
      ''nRRD'', ''nRREFD'', ''nRPD'', ''nRTPSB'', ''nPPD'', ''nWR'', ''nCCD'', ''nCCDSB'', ''nWTR'',
      ''nWTRSB'', ''nRTW'', ''nREFI'', ''nREFIpb'', ''nRFCab'', ''nRFCpb'', ''nRDREFab'', ''nRFMab'',
      ''nRFMpb'', ''nRCKSTRT2RD'', ''nRD2RCKSTOP'', ''nRCKSP2ST'', ''nRCKST2SP'', ''nRCKSTOP_LAT'', ''nRCKEN'',
      ''nRCK_LS'', ''nRCKPST'', ''tCK_ps''],
     CommandImpls = [K_ACT, K_PREpb, K_PREab, K_RD, K_WR, K_RDA, K_WRA, K_REFab, K_REFpb, K_RFMab, K_RFMpb, K_RCKSTRT,
      K_RCKSTOP],
     std_level_names = [''Channel'', ''Bank'', ''Row'', ''Column''],
     std_command_names = [''ACT'', ''PREpb'', ''PREab'', ''RD'', ''WR'', ''RDA'', ''WRA'', ''REFab'', ''REFpb'', ''RFMab'',
      ''RFMpb'', ''RCKSTRT'', ''RCKSTOP''],
     std_state_names = [''Opened'', ''Closed'', ''N_A''],
     std_timing_names = [''rate'', ''nBL'', ''nRL'', ''nWL'', ''nDQERL'', ''nRCDRD'', ''nRCDWR'', ''nRP'', ''nRAS'', ''nRC'',
      ''nRRD'', ''nRREFD'', ''nRPD'', ''nRTPSB'', ''nPPD'', ''nWR'', ''nCCD'', ''nCCDSB'', ''nWTR'',
      ''nWTRSB'', ''nRTW'', ''nREFI'', ''nREFIpb'', ''nRFCab'', ''nRFCpb'', ''nRDREFab'', ''nRFMab'',
      ''nRFMpb'', ''nRCKSTRT2RD'', ''nRD2RCKSTOP'', ''nRCKSP2ST'', ''nRCKST2SP'', ''nRCKSTOP_LAT'', ''nRCKEN'',
      ''nRCK_LS'', ''nRCKPST'', ''tCK_ps''],
     std_prefetch_size = 32,
     std_init_states = [''N_A'', ''Closed'', ''Closed'', ''N_A''],
     std_supported_requests = [''RD'', ''WR''],
     std_row_commands = [''ACT'', ''PREpb'', ''PREab'', ''REFab'', ''REFpb'', ''RFMab'', ''RFMpb''],
     std_column_commands = [''RD'', ''WR'', ''RDA'', ''WRA'', ''RCKSTRT'', ''RCKSTOP'']\<rparr>"

definition HBM1 :: dram_standard where
  "HBM1 = \<lparr>
     std_name = ''HBM1'',
     enum_Level = [''Channel'', ''BankGroup'', ''Bank'', ''Row'', ''Column''],
     enum_Command = [''ACT'', ''PREpb'', ''PREab'', ''RD'', ''WR'', ''RDA'', ''WRA'', ''REFab'', ''REFpb''],
     enum_State = [''Opened'', ''Closed'', ''N_A''],
     enum_Timing = [''rate'', ''nBL'', ''nCL'', ''nRCDRD'', ''nRCDWR'', ''nRP'', ''nRAS'', ''nRC'', ''nWR'', ''nRTPL'',
      ''nCWL'', ''nCCDS'', ''nCCDL'', ''nRRDS'', ''nRRDL'', ''nWTRS'', ''nWTRL'', ''nRTW'', ''nFAW'', ''nRFC'',
      ''nRFCpb'', ''nRREFD'', ''nREFI'', ''nREFIpb'', ''tCK_ps''],
     CommandImpls = [K_ACT, K_PREpb, K_PREab, K_RD, K_WR, K_RDA, K_WRA, K_REFab, K_REFpb],
     std_level_names = [''Channel'', ''BankGroup'', ''Bank'', ''Row'', ''Column''],
     std_command_names = [''ACT'', ''PREpb'', ''PREab'', ''RD'', ''WR'', ''RDA'', ''WRA'', ''REFab'', ''REFpb''],
     std_state_names = [''Opened'', ''Closed'', ''N_A''],
     std_timing_names = [''rate'', ''nBL'', ''nCL'', ''nRCDRD'', ''nRCDWR'', ''nRP'', ''nRAS'', ''nRC'', ''nWR'', ''nRTPL'',
      ''nCWL'', ''nCCDS'', ''nCCDL'', ''nRRDS'', ''nRRDL'', ''nWTRS'', ''nWTRL'', ''nRTW'', ''nFAW'', ''nRFC'',
      ''nRFCpb'', ''nRREFD'', ''nREFI'', ''nREFIpb'', ''tCK_ps''],
     std_prefetch_size = 2,
     std_init_states = [''N_A'', ''N_A'', ''Closed'', ''Closed'', ''N_A''],
     std_supported_requests = [''RD'', ''WR''],
     std_row_commands = [''ACT'', ''PREpb'', ''PREab'', ''REFab'', ''REFpb''],
     std_column_commands = [''RD'', ''WR'', ''RDA'', ''WRA'']\<rparr>"

definition HBM2 :: dram_standard where
  "HBM2 = \<lparr>
     std_name = ''HBM2'',
     enum_Level = [''Channel'', ''PseudoChannel'', ''Sid'', ''BankGroup'', ''Bank'', ''Row'', ''Column''],
     enum_Command = [''ACT'', ''PREpb'', ''PREab'', ''RD'', ''WR'', ''RDA'', ''WRA'', ''REFab'', ''REFpb''],
     enum_State = [''Opened'', ''Closed'', ''N_A''],
     enum_Timing = [''rate'', ''nBL'', ''nCL'', ''nRCDRD'', ''nRCDWR'', ''nRP'', ''nRAS'', ''nRC'', ''nWR'', ''nRTPL'',
      ''nCWL'', ''nCCDS'', ''nCCDL'', ''nCCDR'', ''nRRDS'', ''nRRDL'', ''nWTRS'', ''nWTRL'', ''nRTW'',
      ''nFAW'', ''nRFC'', ''nRFCpb'', ''nRREFD'', ''nREFI'', ''nREFIpb'', ''tCK_ps''],
     CommandImpls = [K_ACT, K_PREpb, K_PREab, K_RD, K_WR, K_RDA, K_WRA, K_REFab, K_REFpb],
     std_level_names = [''Channel'', ''PseudoChannel'', ''Sid'', ''BankGroup'', ''Bank'', ''Row'', ''Column''],
     std_command_names = [''ACT'', ''PREpb'', ''PREab'', ''RD'', ''WR'', ''RDA'', ''WRA'', ''REFab'', ''REFpb''],
     std_state_names = [''Opened'', ''Closed'', ''N_A''],
     std_timing_names = [''rate'', ''nBL'', ''nCL'', ''nRCDRD'', ''nRCDWR'', ''nRP'', ''nRAS'', ''nRC'', ''nWR'', ''nRTPL'',
      ''nCWL'', ''nCCDS'', ''nCCDL'', ''nCCDR'', ''nRRDS'', ''nRRDL'', ''nWTRS'', ''nWTRL'', ''nRTW'',
      ''nFAW'', ''nRFC'', ''nRFCpb'', ''nRREFD'', ''nREFI'', ''nREFIpb'', ''tCK_ps''],
     std_prefetch_size = 4,
     std_init_states = [''N_A'', ''N_A'', ''N_A'', ''N_A'', ''Closed'', ''Closed'', ''N_A''],
     std_supported_requests = [''RD'', ''WR''],
     std_row_commands = [''ACT'', ''PREpb'', ''PREab'', ''REFab'', ''REFpb''],
     std_column_commands = [''RD'', ''WR'', ''RDA'', ''WRA'']\<rparr>"

definition HBM3 :: dram_standard where
  "HBM3 = \<lparr>
     std_name = ''HBM3'',
     enum_Level = [''Channel'', ''PseudoChannel'', ''Sid'', ''BankGroup'', ''Bank'', ''Row'', ''Column''],
     enum_Command = [''ACT'', ''PREpb'', ''PREab'', ''RD'', ''WR'', ''RDA'', ''WRA'', ''REFab'', ''REFpb'', ''RFMab'',
      ''RFMpb''],
     enum_State = [''Opened'', ''Closed'', ''N_A''],
     enum_Timing = [''rate'', ''nBL'', ''nCL'', ''nRCDRD'', ''nRCDWR'', ''nRP'', ''nRAS'', ''nRC'', ''nWR'', ''nRTP'',
      ''nCWL'', ''nCCDS'', ''nCCDL'', ''nCCDR'', ''nRRDS'', ''nRRDL'', ''nWTRS'', ''nWTRL'', ''nRTW'',
      ''nFAW'', ''nPPD'', ''nRFC'', ''nRFCpb'', ''nRFMab'', ''nRFMpb'', ''nRREFD'', ''nREFI'', ''nREFIpb'',
      ''tCK_ps''],
     CommandImpls = [K_ACT, K_PREpb, K_PREab, K_RD, K_WR, K_RDA, K_WRA, K_REFab, K_REFpb, K_RFMab, K_RFMpb],
     std_level_names = [''Channel'', ''PseudoChannel'', ''Sid'', ''BankGroup'', ''Bank'', ''Row'', ''Column''],
     std_command_names = [''ACT'', ''PREpb'', ''PREab'', ''RD'', ''WR'', ''RDA'', ''WRA'', ''REFab'', ''REFpb'', ''RFMab'',
      ''RFMpb''],
     std_state_names = [''Opened'', ''Closed'', ''N_A''],
     std_timing_names = [''rate'', ''nBL'', ''nCL'', ''nRCDRD'', ''nRCDWR'', ''nRP'', ''nRAS'', ''nRC'', ''nWR'', ''nRTP'',
      ''nCWL'', ''nCCDS'', ''nCCDL'', ''nCCDR'', ''nRRDS'', ''nRRDL'', ''nWTRS'', ''nWTRL'', ''nRTW'',
      ''nFAW'', ''nPPD'', ''nRFC'', ''nRFCpb'', ''nRFMab'', ''nRFMpb'', ''nRREFD'', ''nREFI'', ''nREFIpb'',
      ''tCK_ps''],
     std_prefetch_size = 8,
     std_init_states = [''N_A'', ''N_A'', ''N_A'', ''N_A'', ''Closed'', ''Closed'', ''N_A''],
     std_supported_requests = [''RD'', ''WR''],
     std_row_commands = [''ACT'', ''PREpb'', ''PREab'', ''REFab'', ''REFpb'', ''RFMab'', ''RFMpb''],
     std_column_commands = [''RD'', ''WR'', ''RDA'', ''WRA'']\<rparr>"

definition HBM4 :: dram_standard where
  "HBM4 = \<lparr>
     std_name = ''HBM4'',
     enum_Level = [''Channel'', ''PseudoChannel'', ''Sid'', ''BankGroup'', ''Bank'', ''Row'', ''Column''],
     enum_Command = [''ACT'', ''PREpb'', ''PREab'', ''RD'', ''WR'', ''RDA'', ''WRA'', ''REFab'', ''REFpb'', ''RFMab'',
      ''RFMpb''],
     enum_State = [''Opened'', ''Closed'', ''N_A''],
     enum_Timing = [''rate'', ''nBL'', ''nCL'', ''nRCDRD'', ''nRCDWR'', ''nRP'', ''nRAS'', ''nRC'', ''nWR'', ''nRTP'',
      ''nCWL'', ''nCCDS'', ''nCCDL'', ''nCCDR'', ''nRRDS'', ''nRRDL'', ''nWTRS'', ''nWTRL'', ''nRTW'',
      ''nFAW'', ''nPPD'', ''nRFC'', ''nRFCpb'', ''nRFMab'', ''nRFMpb'', ''nRREFD'', ''nREFI'', ''nREFIpb'',
      ''tCK_ps''],
     CommandImpls = [K_ACT, K_PREpb, K_PREab, K_RD, K_WR, K_RDA, K_WRA, K_REFab, K_REFpb, K_RFMab, K_RFMpb],
     std_level_names = [''Channel'', ''PseudoChannel'', ''Sid'', ''BankGroup'', ''Bank'', ''Row'', ''Column''],
     std_command_names = [''ACT'', ''PREpb'', ''PREab'', ''RD'', ''WR'', ''RDA'', ''WRA'', ''REFab'', ''REFpb'', ''RFMab'',
      ''RFMpb''],
     std_state_names = [''Opened'', ''Closed'', ''N_A''],
     std_timing_names = [''rate'', ''nBL'', ''nCL'', ''nRCDRD'', ''nRCDWR'', ''nRP'', ''nRAS'', ''nRC'', ''nWR'', ''nRTP'',
      ''nCWL'', ''nCCDS'', ''nCCDL'', ''nCCDR'', ''nRRDS'', ''nRRDL'', ''nWTRS'', ''nWTRL'', ''nRTW'',
      ''nFAW'', ''nPPD'', ''nRFC'', ''nRFCpb'', ''nRFMab'', ''nRFMpb'', ''nRREFD'', ''nREFI'', ''nREFIpb'',
      ''tCK_ps''],
     std_prefetch_size = 8,
     std_init_states = [''N_A'', ''N_A'', ''N_A'', ''N_A'', ''Closed'', ''Closed'', ''N_A''],
     std_supported_requests = [''RD'', ''WR''],
     std_row_commands = [''ACT'', ''PREpb'', ''PREab'', ''REFab'', ''REFpb'', ''RFMab'', ''RFMpb''],
     std_column_commands = [''RD'', ''WR'', ''RDA'', ''WRA'']\<rparr>"

definition LPDDR5 :: dram_standard where
  "LPDDR5 = \<lparr>
     std_name = ''LPDDR5'',
     enum_Level = [''Channel'', ''Rank'', ''BankGroup'', ''Bank'', ''Row'', ''Column''],
     enum_Command = [''ACT1'', ''ACT2'', ''PREpb'', ''PREab'', ''CAS_RD'', ''CAS_WR'', ''RD'', ''WR'', ''RDA'', ''WRA'',
      ''REFab'', ''REFpb''],
     enum_State = [''Opened'', ''Closed'', ''Activating'', ''N_A''],
     enum_Timing = [''rate'', ''nBL_min'', ''nBL_max'', ''nCL'', ''nRCD'', ''nRP'', ''nRPab'', ''nRAS'', ''nRC'', ''nWR'',
      ''nRTP'', ''nCWL'', ''nPPD'', ''nCCDS'', ''nCCDL'', ''nCCDS_WR'', ''nCCDL_WR'', ''nRRDS'', ''nRRDL'',
      ''nWTRS'', ''nWTRL'', ''nFAW'', ''nRFC'', ''nRFCpb'', ''nREFI'', ''nREFIpb'', ''nWCKPST'', ''nCAS'',
      ''nAAD'', ''nCS'', ''tCK_ps'', ''nPBR2PBR'', ''nPBR2ACT''],
     CommandImpls = [K_ACT1, K_ACT2, K_PREpb, K_PREab, K_CAS_RD, K_CAS_WR, K_RD, K_WR, K_RDA, K_WRA, K_REFab, K_REFpb],
     std_level_names = [''Channel'', ''Rank'', ''BankGroup'', ''Bank'', ''Row'', ''Column''],
     std_command_names = [''ACT1'', ''ACT2'', ''PREpb'', ''PREab'', ''CAS_RD'', ''CAS_WR'', ''RD'', ''WR'', ''RDA'', ''WRA'',
      ''REFab'', ''REFpb''],
     std_state_names = [''Opened'', ''Closed'', ''Activating'', ''N_A''],
     std_timing_names = [''rate'', ''nBL_min'', ''nBL_max'', ''nCL'', ''nRCD'', ''nRP'', ''nRPab'', ''nRAS'', ''nRC'', ''nWR'',
      ''nRTP'', ''nCWL'', ''nPPD'', ''nCCDS'', ''nCCDL'', ''nCCDS_WR'', ''nCCDL_WR'', ''nRRDS'', ''nRRDL'',
      ''nWTRS'', ''nWTRL'', ''nFAW'', ''nRFC'', ''nRFCpb'', ''nREFI'', ''nREFIpb'', ''nWCKPST'', ''nCAS'',
      ''nAAD'', ''nCS'', ''tCK_ps'', ''nPBR2PBR'', ''nPBR2ACT''],
     std_prefetch_size = 16,
     std_init_states = [''N_A'', ''N_A'', ''N_A'', ''Closed'', ''Closed'', ''N_A''],
     std_supported_requests = [''RD'', ''WR''],
     std_row_commands = [],
     std_column_commands = []\<rparr>"

definition LPDDR6 :: dram_standard where
  "LPDDR6 = \<lparr>
     std_name = ''LPDDR6'',
     enum_Level = [''Channel'', ''Rank'', ''BankGroup'', ''Bank'', ''Row'', ''Column''],
     enum_Command = [''ACT1'', ''ACT2'', ''PREpb'', ''PREab'', ''CAS'', ''RD_S'', ''WR_S'', ''RDA_S'', ''WRA_S'', ''RD_L'',
      ''WR_L'', ''RDA_L'', ''WRA_L'', ''REFab''],
     enum_State = [''Opened'', ''Closed'', ''Activating'', ''N_A''],
     enum_Timing = [''rate'', ''nBL_min'', ''nBL_max'', ''nBL_min_L'', ''nBL_max_L'', ''nRL'', ''nWL'', ''nACU'', ''nRCDr'',
      ''nRCDw'', ''nRP'', ''nRPab'', ''nRAS'', ''nRC'', ''nWTP'', ''nRTP'', ''nRTP_L'', ''nPPD'', ''nCCDS'',
      ''nCCDL'', ''nCCDL_L'', ''nCCDS_WR'', ''nCCDL_WR'', ''nCCDL_WR_L'', ''nRRD'', ''nWTRS'', ''nWTRL'',
      ''nRTW_S'', ''nRTW_L'', ''nRTW_S_L'', ''nRTW_L_L'', ''nWCK2DQO'', ''nRPST'', ''nODTLon'', ''nODTon_min'',
      ''nFAW'', ''nRFC'', ''nREFI'', ''nWCKPST'', ''nCAS'', ''nAAD'', ''nCS'', ''tCK_ps''],
     CommandImpls = [K_ACT1, K_ACT2, K_PREpb, K_PREab, K_CAS, K_RD_S, K_WR_S, K_RDA_S, K_WRA_S, K_RD_L, K_WR_L, K_RDA_L,
      K_WRA_L, K_REFab],
     std_level_names = [''Channel'', ''Rank'', ''BankGroup'', ''Bank'', ''Row'', ''Column''],
     std_command_names = [''ACT1'', ''ACT2'', ''PREpb'', ''PREab'', ''CAS'', ''RD_S'', ''WR_S'', ''RDA_S'', ''WRA_S'', ''RD_L'',
      ''WR_L'', ''RDA_L'', ''WRA_L'', ''REFab''],
     std_state_names = [''Opened'', ''Closed'', ''Activating'', ''N_A''],
     std_timing_names = [''rate'', ''nBL_min'', ''nBL_max'', ''nBL_min_L'', ''nBL_max_L'', ''nRL'', ''nWL'', ''nACU'', ''nRCDr'',
      ''nRCDw'', ''nRP'', ''nRPab'', ''nRAS'', ''nRC'', ''nWTP'', ''nRTP'', ''nRTP_L'', ''nPPD'', ''nCCDS'',
      ''nCCDL'', ''nCCDL_L'', ''nCCDS_WR'', ''nCCDL_WR'', ''nCCDL_WR_L'', ''nRRD'', ''nWTRS'', ''nWTRL'',
      ''nRTW_S'', ''nRTW_L'', ''nRTW_S_L'', ''nRTW_L_L'', ''nWCK2DQO'', ''nRPST'', ''nODTLon'', ''nODTon_min'',
      ''nFAW'', ''nRFC'', ''nREFI'', ''nWCKPST'', ''nCAS'', ''nAAD'', ''nCS'', ''tCK_ps''],
     std_prefetch_size = 16,
     std_init_states = [''N_A'', ''N_A'', ''N_A'', ''Closed'', ''Closed'', ''N_A''],
     std_supported_requests = [''RD_S'', ''WR_S''],
     std_row_commands = [],
     std_column_commands = []\<rparr>"

section \<open>The constructor\<close>

text \<open>The value of an enumerator: its position.\<close>

primrec enum_index :: "string list \<Rightarrow> string \<Rightarrow> nat" where
  "enum_index [] x = 0"
| "enum_index (y # ys) x = (if x = y then 0 else Suc (enum_index ys x))"

text \<open>The enumerators of the class that its command templates refer to.\<close>

definition env_of :: "dram_standard \<Rightarrow> cmd_env" where
  "env_of s =
     (let st = enum_index (enum_State s); cm = enum_index (enum_Command s) in
      \<lparr>T_Opened = st ''Opened'', T_Closed = st ''Closed'', T_Activating = st ''Activating'',
       T_Row = enum_index (enum_Level s) ''Row'',
       T_ACT = cm ''ACT'', T_ACT1 = cm ''ACT1'', T_ACT2 = cm ''ACT2'',
       T_PREpb = cm ''PREpb'', T_PREab = cm ''PREab'', T_PREsb = cm ''PREsb'',
       T_has_ACT2 = (''ACT2'' \<in> set (enum_Command s))\<rparr>)"

text \<open>The members before the constructor body runs: the initialisers of the class.\<close>

definition blank_spec :: DRAMSpec where
  "blank_spec =
     \<lparr>levels = Map.empty, commands = Map.empty, states = Map.empty, timings = Map.empty,
      level_names = [], command_names = [], state_names = [], timing_names = [],
      level_count = 0, command_count = 0, state_count = 0, timing_count = 0,
      standard_name = [], internal_prefetch_size = -1, channel_width = -1, data_payload_bytes = -1,
      read_latency = -1, organization = \<lparr>dq = -1, level_sizes = []\<rparr>,
      init_states = [], supported_requests = [], timing_vals = [], command_cycles = [],
      timing_cons = [], has_sibling_cons = [], command_meta = [], bank_targets = [],
      funcs = FuncArrays_resize 0\<rparr>"

definition classify_bus :: "dram_standard \<Rightarrow> DRAMSpec \<Rightarrow> DRAMSpec" where
  "classify_bus s sp =
     (let row = map (enum_index (enum_Command s)) (std_row_commands s);
          col = map (enum_index (enum_Command s)) (std_column_commands s)
      in sp\<lparr>command_meta :=
           map (\<lambda>i. let m = command_meta sp ! i in
                 m\<lparr>is_row_command := is_row_command m \<or> i \<in> set row,
                   is_column_command := is_column_command m \<or> i \<in> set col\<rparr>)
             [0..<length (command_meta sp)]\<rparr>)"

definition static_spec :: "dram_standard \<Rightarrow> DRAMSpec" where
  "static_spec s =
     blank_spec\<lparr>
       level_count := length (enum_Level s), command_count := length (enum_Command s),
       state_count := length (enum_State s), timing_count := length (enum_Timing s),
       levels := fst (set_names Map.empty (std_level_names s)),
       level_names := snd (set_names Map.empty (std_level_names s)),
       commands := fst (set_names Map.empty (std_command_names s)),
       command_names := snd (set_names Map.empty (std_command_names s)),
       states := fst (set_names Map.empty (std_state_names s)),
       state_names := snd (set_names Map.empty (std_state_names s)),
       timings := fst (set_names Map.empty (std_timing_names s)),
       timing_names := snd (set_names Map.empty (std_timing_names s)),
       internal_prefetch_size := std_prefetch_size s,
       init_states := map (enum_index (enum_State s)) (std_init_states s),
       supported_requests := map (enum_index (enum_Command s)) (std_supported_requests s)\<rparr>"

definition construct_spec :: "dram_standard \<Rightarrow> DramConfig \<Rightarrow> DRAMSpec result" where
  "construct_spec s cfg =
     bindR (load_config (static_spec s) cfg)
       (\<lambda>sp. Inr (classify_bus s (populate_commands (map (\<lambda>k. impl_of k (env_of s)) (CommandImpls s)) sp)))"

text \<open>
  \<^verbatim>\<open>DRAMSpec::registry()\<close>: every class registers itself under its name before
  \<^verbatim>\<open>main\<close>; \<^verbatim>\<open>create\<close> looks the name up and records it.
\<close>

definition all_standards :: "dram_standard list" where
  "all_standards = [DDR3, DDR4, DDR4_VRR, DDR5, DDR5_VRR, GDDR6, GDDR7, HBM1, HBM2, HBM3, HBM4,
     LPDDR5, LPDDR6]"

definition registry :: "string \<rightharpoonup> dram_standard" where
  "registry = map_of (map (\<lambda>s. (std_name s, s)) all_standards)"

definition create :: "string \<Rightarrow> DramConfig \<Rightarrow> DRAMSpec result" where
  "create name cfg =
     (case registry name of
        None \<Rightarrow> throw ''Unknown DRAM standard''
      | Some s \<Rightarrow> bindR (construct_spec s cfg) (\<lambda>sp. Inr (sp\<lparr>standard_name := name\<rparr>)))"

section \<open>Consistency of a standard\<close>

definition access_kinds :: "cmd_kind list" where
  "access_kinds = [K_RD, K_WR, K_RDA, K_WRA, K_RD_L, K_WR_L, K_RDA_L, K_WRA_L, K_RD_S, K_WR_S, K_RDA_S, K_WRA_S]"

text \<open>The commands whose enumerators the handlers of a command mention.\<close>

definition needs :: "dram_standard \<Rightarrow> cmd_kind \<Rightarrow> string list" where
  "needs s k =
     (if k \<in> set access_kinds then
        (if ''ACT2'' \<in> set (enum_Command s) then [''ACT1'', ''ACT2'', ''PREpb''] else [''ACT'', ''PREpb''])
      else if k = K_ACT then [''ACT'', ''PREpb'']
      else if k = K_ACT1 then [''ACT1'', ''PREpb'']
      else if k = K_ACT2 then [''ACT1'', ''ACT2'', ''PREpb'']
      else if k \<in> {K_PREpb, K_REFpb, K_RFMpb, K_VRR} then [''PREpb'']
      else if k \<in> {K_REFab, K_RFMab} then [''PREab'']
      else if k \<in> {K_REFsb, K_RFMsb} then [''PREsb'']
      else [])"

text \<open>The enumerations are duplicate-free and the name tables list exactly their members.\<close>

definition names_ok :: "dram_standard \<Rightarrow> bool" where
  "names_ok s \<longleftrightarrow>
     enum_Level s = std_level_names s \<and> enum_Command s = std_command_names s \<and>
     enum_State s = std_state_names s \<and> enum_Timing s = std_timing_names s \<and>
     distinct (enum_Level s) \<and> distinct (enum_Command s) \<and> distinct (enum_State s) \<and>
     distinct (enum_Timing s) \<and> ''tCK_ps'' \<in> set (enum_Timing s)"

text \<open>The tuple of structs follows the enumeration, and every prerequisite exists.\<close>

definition commands_ok :: "dram_standard \<Rightarrow> bool" where
  "commands_ok s \<longleftrightarrow>
     map kind_name (CommandImpls s) = enum_Command s \<and>
     list_all (\<lambda>k. list_all (\<lambda>c. c \<in> set (enum_Command s)) (needs s k)) (CommandImpls s) \<and>
     \<not> (''ACT'' \<in> set (enum_Command s) \<and> ''ACT2'' \<in> set (enum_Command s)) \<and>
     ''Opened'' \<in> set (enum_State s) \<and> ''Closed'' \<in> set (enum_State s) \<and>
     (''ACT2'' \<in> set (enum_Command s) \<longrightarrow> ''Activating'' \<in> set (enum_State s)) \<and>
     length (std_supported_requests s) = 2 \<and>
     list_all (\<lambda>c. c \<in> set (map kind_name access_kinds) \<and> c \<in> set (enum_Command s)) (std_supported_requests s) \<and>
     list_all (\<lambda>c. c \<in> set (enum_Command s)) (std_row_commands s @ std_column_commands s)"

text \<open>The hierarchy starts at the channel and ends in bank, row, column; banks start closed.\<close>

definition levels_ok :: "dram_standard \<Rightarrow> bool" where
  "levels_ok s \<longleftrightarrow>
     enum_Level s ! 0 = ''Channel'' \<and> 0 < enum_index (enum_Level s) ''Bank'' \<and>
     enum_Level s = take (enum_index (enum_Level s) ''Bank'') (enum_Level s) @ [''Bank'', ''Row'', ''Column''] \<and>
     length (std_init_states s) = length (enum_Level s) \<and>
     list_all (\<lambda>x. x \<in> set (enum_State s)) (std_init_states s) \<and>
     std_init_states s ! enum_index (enum_Level s) ''Bank'' = ''Closed''"

definition standard_ok :: "dram_standard \<Rightarrow> bool" where
  "standard_ok s \<longleftrightarrow> names_ok s \<and> commands_ok s \<and> levels_ok s"

lemmas standard_defs = DDR3_def DDR4_def DDR4_VRR_def DDR5_def DDR5_VRR_def GDDR6_def GDDR7_def
  HBM1_def HBM2_def HBM3_def HBM4_def LPDDR5_def LPDDR6_def

lemma standards_ok: "list_all standard_ok all_standards"
  by code_simp

end
