(* ===== verification/Bank_Protocol.thy ===== *)
theory Bank_Protocol
  imports Dram_Standards
begin

text \<open>
  The prerequisite protocol of one bank, over the handlers of the command structs. A
  request names a final command; the handler \<open>preq\<close> of that command says which command
  the bank needs next, and the controller issues exactly that one. \<open>resolve\<close> and
  \<open>apply_cmd\<close> are \<^verbatim>\<open>preq_fn\<close> and \<^verbatim>\<open>action_fn\<close> as \<^verbatim>\<open>DRAMDevice\<close> calls them on one bank,
  \<open>bank_step\<close> is one such issue, and \<open>service\<close> repeats it until the final command itself
  is due.
\<close>

section \<open>Steps of one bank\<close>

definition kind_at :: "dram_standard \<Rightarrow> nat \<Rightarrow> CmdImpl" where
  "kind_at s c = impl_of (CommandImpls s ! c) (env_of s)"

definition resolve :: "dram_standard \<Rightarrow> nat \<Rightarrow> NodeData \<Rightarrow> AddrVec_t \<Rightarrow> Clk_t \<Rightarrow> nat result" where
  "resolve s fin bank av clk =
     (case impl_preq (kind_at s fin) of None \<Rightarrow> Inr fin | Some h \<Rightarrow> h bank fin av clk)"

definition apply_cmd :: "dram_standard \<Rightarrow> nat \<Rightarrow> NodeData \<Rightarrow> AddrVec_t \<Rightarrow> Clk_t \<Rightarrow> NodeData" where
  "apply_cmd s c bank av clk =
     (case impl_action (kind_at s c) of None \<Rightarrow> bank | Some h \<Rightarrow> h bank c av clk)"

text \<open>
  Final commands: everything a controller, refresh manager or row policy names in
  \<^verbatim>\<open>final_command\<close>. An activation is never one: it is always a prerequisite.
\<close>

definition final_ok :: "dram_standard \<Rightarrow> nat \<Rightarrow> bool" where
  "final_ok s fin \<longleftrightarrow> fin < length (CommandImpls s) \<and> CommandImpls s ! fin \<notin> {K_ACT, K_ACT1, K_ACT2}"

definition is_access :: "dram_standard \<Rightarrow> nat \<Rightarrow> bool" where
  "is_access s fin \<longleftrightarrow> fin < length (CommandImpls s) \<and> CommandImpls s ! fin \<in> set access_kinds"

inductive bank_step :: "dram_standard \<Rightarrow> NodeData \<Rightarrow> NodeData \<Rightarrow> bool" for s where
  issue: "final_ok s fin \<Longrightarrow> resolve s fin b av clk = Inr c \<Longrightarrow> bank_step s b (apply_cmd s c b av clk)"

inductive bank_reachable :: "dram_standard \<Rightarrow> NodeData \<Rightarrow> bool" for s where
  start: "m_state b = T_Closed (env_of s) \<Longrightarrow> m_row_state b = Map.empty \<Longrightarrow> bank_reachable s b"
| step: "bank_reachable s b \<Longrightarrow> bank_step s b b' \<Longrightarrow> bank_reachable s b'"

inductive_cases bank_stepE: "bank_step s b b'"

text \<open>The three states of a bank and what is open in each.\<close>

definition bank_legal :: "dram_standard \<Rightarrow> NodeData \<Rightarrow> bool" where
  "bank_legal s b \<longleftrightarrow>
     (m_state b = T_Closed (env_of s) \<and> m_row_state b = Map.empty) \<or>
     (T_has_ACT2 (env_of s) \<and> m_state b = T_Activating (env_of s) \<and> m_row_state b = Map.empty) \<or>
     (m_state b = T_Opened (env_of s) \<and> (\<exists>r. m_row_state b = [r \<mapsto> T_Opened (env_of s)]))"

fun service :: "dram_standard \<Rightarrow> nat \<Rightarrow> nat \<Rightarrow> NodeData \<Rightarrow> AddrVec_t \<Rightarrow> Clk_t \<Rightarrow> (nat list \<times> NodeData) option"
  where
  "service s 0 fin b av clk = None"
| "service s (Suc fuel) fin b av clk =
     (case resolve s fin b av clk of
        Inl e \<Rightarrow> None
      | Inr c \<Rightarrow>
          if c = fin then Some ([], b)
          else map_option (\<lambda>(cs, b'). (c # cs, b')) (service s fuel fin (apply_cmd s c b av clk) av clk))"

section \<open>Enumerators\<close>

lemma enum_index_less: "x \<in> set xs \<Longrightarrow> enum_index xs x < length xs"
  by (induction xs) auto

lemma nth_enum_index: "x \<in> set xs \<Longrightarrow> xs ! enum_index xs x = x"
  by (induction xs) auto

lemma enum_index_inj: "x \<in> set xs \<Longrightarrow> y \<in> set xs \<Longrightarrow> enum_index xs x = enum_index xs y \<longleftrightarrow> x = y"
  by (metis nth_enum_index)

lemma enum_index_nth: "distinct xs \<Longrightarrow> i < length xs \<Longrightarrow> enum_index xs (xs ! i) = i"
proof (induction xs arbitrary: i)
  case (Cons x xs)
  then show ?case by (cases i) auto
qed simp

lemma kind_name_inj: "kind_name k = kind_name k' \<longleftrightarrow> k = k'"
  by (cases k; cases k'; simp)

lemma standard_okD:
  assumes "standard_ok s"
  shows "distinct (enum_Command s)" "map kind_name (CommandImpls s) = enum_Command s"
    and "''Opened'' \<in> set (enum_State s)" "''Closed'' \<in> set (enum_State s)"
    and "''ACT2'' \<in> set (enum_Command s) \<Longrightarrow> ''Activating'' \<in> set (enum_State s)"
    and "''ACT'' \<in> set (enum_Command s) \<Longrightarrow> ''ACT2'' \<notin> set (enum_Command s)"
proof -
  from assms have n: "names_ok s" and c: "commands_ok s" by (simp_all add: standard_ok_def)
  show "distinct (enum_Command s)" using n unfolding names_ok_def by (elim conjE)
  show "map kind_name (CommandImpls s) = enum_Command s" using c unfolding commands_ok_def by (elim conjE)
  show "''Opened'' \<in> set (enum_State s)" using c unfolding commands_ok_def by (elim conjE)
  show "''Closed'' \<in> set (enum_State s)" using c unfolding commands_ok_def by (elim conjE)
  show "''ACT2'' \<in> set (enum_Command s) \<Longrightarrow> ''Activating'' \<in> set (enum_State s)"
    using c unfolding commands_ok_def by (elim conjE) (rule mp)
  show "''ACT'' \<in> set (enum_Command s) \<Longrightarrow> ''ACT2'' \<notin> set (enum_Command s)"
    using c unfolding commands_ok_def by (elim conjE) blast
qed

lemma standard_length:
  assumes "standard_ok s" shows "length (CommandImpls s) = length (enum_Command s)"
  using standard_okD(2) [OF assms] by (metis length_map)

lemma kind_of_name:
  assumes "standard_ok s" "kind_name k \<in> set (enum_Command s)"
  shows "CommandImpls s ! enum_index (enum_Command s) (kind_name k) = k"
    and "enum_index (enum_Command s) (kind_name k) < length (CommandImpls s)"
proof -
  note m = standard_okD(2) [OF assms(1)]
  let ?i = "enum_index (enum_Command s) (kind_name k)"
  have i: "?i < length (CommandImpls s)"
    using enum_index_less [OF assms(2)] standard_length [OF assms(1)] by simp
  have "kind_name (CommandImpls s ! ?i) = kind_name k"
    using i nth_enum_index [OF assms(2)] m by (metis nth_map)
  with i show "CommandImpls s ! ?i = k" "?i < length (CommandImpls s)"
    by (simp_all add: kind_name_inj)
qed

lemma name_of_index:
  assumes "standard_ok s" "i < length (CommandImpls s)"
  shows "i = enum_index (enum_Command s) (kind_name (CommandImpls s ! i))"
    "kind_name (CommandImpls s ! i) \<in> set (enum_Command s)"
proof -
  note m = standard_okD [OF assms(1)]
  have e: "enum_Command s ! i = kind_name (CommandImpls s ! i)"
    using assms(2) m(2) by (metis nth_map)
  then show "i = enum_index (enum_Command s) (kind_name (CommandImpls s ! i))"
    using enum_index_nth [OF m(1)] assms standard_length by metis
  show "kind_name (CommandImpls s ! i) \<in> set (enum_Command s)"
    using e assms standard_length by (metis nth_mem)
qed

lemma env_states:
  assumes "standard_ok s"
  shows "T_Opened (env_of s) \<noteq> T_Closed (env_of s)"
    and "T_has_ACT2 (env_of s) \<Longrightarrow> T_Activating (env_of s) \<noteq> T_Opened (env_of s)"
    and "T_has_ACT2 (env_of s) \<Longrightarrow> T_Activating (env_of s) \<noteq> T_Closed (env_of s)"
proof -
  note st = standard_okD(3,4,5) [OF assms]
  show "T_Opened (env_of s) \<noteq> T_Closed (env_of s)"
    using enum_index_inj [OF st(1,2)] by (simp add: env_of_def Let_def)
  assume "T_has_ACT2 (env_of s)"
  then have a: "''Activating'' \<in> set (enum_State s)"
    using st(3) by (simp add: env_of_def Let_def)
  show "T_Activating (env_of s) \<noteq> T_Opened (env_of s)" "T_Activating (env_of s) \<noteq> T_Closed (env_of s)"
    using enum_index_inj [OF a st(1)] enum_index_inj [OF a st(2)] by (simp_all add: env_of_def Let_def)
qed

text \<open>The struct behind each enumerator that a handler can return.\<close>

lemma kind_at_env:
  assumes "standard_ok s"
  shows "''ACT'' \<in> set (enum_Command s) \<Longrightarrow> kind_at s (T_ACT (env_of s)) = Cmd_ACT (env_of s)"
    and "''ACT1'' \<in> set (enum_Command s) \<Longrightarrow> kind_at s (T_ACT1 (env_of s)) = Cmd_ACT1 (env_of s)"
    and "''ACT2'' \<in> set (enum_Command s) \<Longrightarrow> kind_at s (T_ACT2 (env_of s)) = Cmd_ACT2 (env_of s)"
    and "''PREpb'' \<in> set (enum_Command s) \<Longrightarrow> kind_at s (T_PREpb (env_of s)) = Cmd_PREpb (env_of s)"
    and "''PREab'' \<in> set (enum_Command s) \<Longrightarrow> kind_at s (T_PREab (env_of s)) = Cmd_PREab (env_of s)"
    and "''PREsb'' \<in> set (enum_Command s) \<Longrightarrow> kind_at s (T_PREsb (env_of s)) = Cmd_PREsb (env_of s)"
  using kind_of_name(1) [OF assms, of K_ACT] kind_of_name(1) [OF assms, of K_ACT1]
    kind_of_name(1) [OF assms, of K_ACT2] kind_of_name(1) [OF assms, of K_PREpb]
    kind_of_name(1) [OF assms, of K_PREab] kind_of_name(1) [OF assms, of K_PREsb]
  by (simp_all add: kind_at_def env_of_def Let_def)

lemma needs_present:
  assumes "standard_ok s" "fin < length (CommandImpls s)"
  shows "list_all (\<lambda>c. c \<in> set (enum_Command s)) (needs s (CommandImpls s ! fin))"
proof -
  have "list_all (\<lambda>k. list_all (\<lambda>c. c \<in> set (enum_Command s)) (needs s k)) (CommandImpls s)"
    using assms(1) unfolding standard_ok_def commands_ok_def by (elim conjE)
  with assms(2) show ?thesis by (simp add: list_all_length)
qed

section \<open>Legal banks\<close>

lemmas handler_defs =
  ACT_action_def ACT_preq_def ACT1_action_def ACT1_preq_def ACT2_action_def ACT2_preq_def
  PREpb_action_def PREpb_preq_def RD_preq_def REFab_preq_def REFpb_preq_def REFsb_preq_def
  RFMab_preq_def RFMpb_preq_def RFMsb_preq_def VRR_preq_def row_found_def

lemmas cmd_defs =
  Cmd_ACT_def Cmd_ACT1_def Cmd_ACT2_def Cmd_CAS_def Cmd_CAS_RD_def Cmd_CAS_WR_def Cmd_PREpb_def
  Cmd_PREab_def Cmd_PREsb_def Cmd_RCKSTOP_def Cmd_RCKSTRT_def Cmd_RD_def Cmd_WR_def Cmd_RDA_def
  Cmd_WRA_def Cmd_RD_L_def Cmd_RD_S_def Cmd_WR_L_def Cmd_WR_S_def Cmd_RDA_L_def Cmd_RDA_S_def
  Cmd_WRA_L_def Cmd_WRA_S_def Cmd_REFab_def Cmd_REFpb_def Cmd_REFsb_def Cmd_RFMab_def
  Cmd_RFMpb_def Cmd_RFMsb_def Cmd_VRR_def

text \<open>The four things an issued command can do to a bank.\<close>

lemma apply_cmd_prerequisites:
  assumes "standard_ok s"
  shows "''ACT'' \<in> set (enum_Command s) \<Longrightarrow>
      apply_cmd s (T_ACT (env_of s)) b av clk = ACT_action (env_of s) b (T_ACT (env_of s)) av clk"
    and "''ACT1'' \<in> set (enum_Command s) \<Longrightarrow>
      apply_cmd s (T_ACT1 (env_of s)) b av clk = ACT1_action (env_of s) b (T_ACT1 (env_of s)) av clk"
    and "''ACT2'' \<in> set (enum_Command s) \<Longrightarrow>
      apply_cmd s (T_ACT2 (env_of s)) b av clk = ACT2_action (env_of s) b (T_ACT2 (env_of s)) av clk"
    and "''PREpb'' \<in> set (enum_Command s) \<Longrightarrow>
      apply_cmd s (T_PREpb (env_of s)) b av clk = PREpb_action (env_of s) b (T_PREpb (env_of s)) av clk"
    and "''PREab'' \<in> set (enum_Command s) \<Longrightarrow>
      apply_cmd s (T_PREab (env_of s)) b av clk = PREpb_action (env_of s) b (T_PREab (env_of s)) av clk"
    and "''PREsb'' \<in> set (enum_Command s) \<Longrightarrow>
      apply_cmd s (T_PREsb (env_of s)) b av clk = PREpb_action (env_of s) b (T_PREsb (env_of s)) av clk"
  by (simp_all add: apply_cmd_def kind_at_env [OF assms] cmd_defs)

lemma legal_closed: "bank_legal s (PREpb_action (env_of s) b c av clk)"
  by (simp add: bank_legal_def PREpb_action_def)

lemma legal_act:
  assumes "m_row_state b = Map.empty"
  shows "bank_legal s (ACT_action (env_of s) b c av clk)" "bank_legal s (ACT2_action (env_of s) b c av clk)"
  using assms by (auto simp: bank_legal_def ACT_action_def ACT2_action_def)

lemma legal_act1:
  assumes "m_row_state b = Map.empty" "''ACT2'' \<in> set (enum_Command s)"
  shows "bank_legal s (ACT1_action (env_of s) b c av clk)"
  using assms by (auto simp: bank_legal_def ACT1_action_def env_of_def Let_def)

text \<open>A read or write command resolves to one of four commands, by the state of the bank.\<close>

lemma resolve_access:
  assumes "is_access s fin"
  shows "resolve s fin b av clk = RD_preq (env_of s) b fin av clk"
  using assms by (auto simp: is_access_def resolve_def kind_at_def access_kinds_def cmd_defs)

lemma access_needs:
  assumes "standard_ok s" "is_access s fin"
  shows "''PREpb'' \<in> set (enum_Command s)"
    and "''ACT2'' \<notin> set (enum_Command s) \<Longrightarrow> ''ACT'' \<in> set (enum_Command s)"
    and "''ACT2'' \<in> set (enum_Command s) \<Longrightarrow> ''ACT1'' \<in> set (enum_Command s)"
  using needs_present [OF assms(1), of fin] assms(2)
  by (simp_all add: is_access_def needs_def split: if_splits)

lemma has_ACT2_iff: "T_has_ACT2 (env_of s) \<longleftrightarrow> ''ACT2'' \<in> set (enum_Command s)"
  by (simp add: env_of_def Let_def)

text \<open>The commands other than itself that a final command can resolve to.\<close>

lemma resolve_prerequisite:
  assumes ok: "standard_ok s" and fin: "final_ok s fin"
    and res: "resolve s fin b av clk = Inr c" and ne: "c \<noteq> fin"
  shows "(c = T_ACT (env_of s) \<and> m_state b = T_Closed (env_of s) \<and> ''ACT'' \<in> set (enum_Command s) \<and> is_access s fin) \<or>
    (c = T_ACT1 (env_of s) \<and> m_state b = T_Closed (env_of s) \<and> ''ACT1'' \<in> set (enum_Command s) \<and>
       ''ACT2'' \<in> set (enum_Command s) \<and> is_access s fin) \<or>
    (c = T_ACT2 (env_of s) \<and> m_state b = T_Activating (env_of s) \<and> ''ACT2'' \<in> set (enum_Command s) \<and> is_access s fin) \<or>
    (c = T_PREpb (env_of s) \<and> ''PREpb'' \<in> set (enum_Command s)) \<or>
    (c = T_PREab (env_of s) \<and> ''PREab'' \<in> set (enum_Command s)) \<or>
    (c = T_PREsb (env_of s) \<and> ''PREsb'' \<in> set (enum_Command s))"
proof -
  from fin have len: "fin < length (CommandImpls s)" by (simp add: final_ok_def)
  show ?thesis
    using res fin ne needs_present [OF ok len]
    by (cases "CommandImpls s ! fin")
      (auto simp: resolve_def kind_at_def cmd_defs handler_defs final_ok_def needs_def access_kinds_def
        is_access_def has_ACT2_iff split: if_splits)
qed

lemma final_action:
  assumes "final_ok s fin"
  shows "impl_action (kind_at s fin) = None \<or> impl_action (kind_at s fin) = Some (PREpb_action (env_of s))"
  using assms by (cases "CommandImpls s ! fin") (simp_all add: kind_at_def cmd_defs final_ok_def)

text \<open>A resolved command leaves a legal bank legal.\<close>

lemma resolve_then_legal:
  assumes ok: "standard_ok s" and fin: "final_ok s fin" and leg: "bank_legal s b"
    and res: "resolve s fin b av clk = Inr c"
  shows "bank_legal s (apply_cmd s c b av clk)"
proof -
  let ?T = "env_of s"
  note st = env_states [OF ok] and ap = apply_cmd_prerequisites [OF ok]
  show ?thesis
  proof (cases "c = fin")
    case False
    consider "c = T_ACT ?T" "m_state b = T_Closed ?T" "''ACT'' \<in> set (enum_Command s)"
      | "c = T_ACT1 ?T" "m_state b = T_Closed ?T" "''ACT1'' \<in> set (enum_Command s)" "''ACT2'' \<in> set (enum_Command s)"
      | "c = T_ACT2 ?T" "m_state b = T_Activating ?T" "''ACT2'' \<in> set (enum_Command s)"
      | "c = T_PREpb ?T" "''PREpb'' \<in> set (enum_Command s)"
      | "c = T_PREab ?T" "''PREab'' \<in> set (enum_Command s)"
      | "c = T_PREsb ?T" "''PREsb'' \<in> set (enum_Command s)"
      using resolve_prerequisite [OF ok fin res False] by blast
    then show ?thesis
    proof cases
      case 1
      with leg st(1,3) have "m_row_state b = Map.empty" by (auto simp: bank_legal_def)
      with 1 ap(1) legal_act(1) show ?thesis by simp
    next
      case 2
      with leg st(1,3) have "m_row_state b = Map.empty" by (auto simp: bank_legal_def)
      with 2 ap(2) legal_act1 show ?thesis by simp
    next
      case 3
      with leg st(2,3) have "m_row_state b = Map.empty" by (auto simp: bank_legal_def has_ACT2_iff)
      with 3 ap(3) legal_act(2) show ?thesis by simp
    qed (simp_all add: ap legal_closed)
  next
    case True
    with final_action [OF fin] leg show ?thesis by (auto simp: apply_cmd_def legal_closed)
  qed
qed

lemma resolve_never_throws:
  assumes "standard_ok s" "final_ok s fin" "bank_legal s b"
  shows "\<exists>c. resolve s fin b av clk = Inr c"
  using assms env_states [OF assms(1)]
  by (cases "CommandImpls s ! fin")
    (auto simp: resolve_def kind_at_def cmd_defs handler_defs final_ok_def bank_legal_def)

lemma bank_step_legal: "standard_ok s \<Longrightarrow> bank_step s b b' \<Longrightarrow> bank_legal s b \<Longrightarrow> bank_legal s b'"
  by (erule bank_stepE) (simp add: resolve_then_legal)

lemma bank_reachable_legal: "bank_reachable s b \<Longrightarrow> standard_ok s \<Longrightarrow> bank_legal s b"
proof (induction rule: bank_reachable.induct)
  case (start b)
  then show ?case by (simp add: bank_legal_def)
next
  case (step b b')
  then show ?case by (blast intro: bank_step_legal)
qed

section \<open>Progress of an access\<close>

lemma access_final_ok: "is_access s fin \<Longrightarrow> final_ok s fin"
  by (auto simp: is_access_def final_ok_def access_kinds_def)

lemma access_neq_prerequisite:
  assumes "standard_ok s" "is_access s fin"
  shows "''ACT'' \<in> set (enum_Command s) \<Longrightarrow> T_ACT (env_of s) \<noteq> fin"
    and "''ACT1'' \<in> set (enum_Command s) \<Longrightarrow> T_ACT1 (env_of s) \<noteq> fin"
    and "''ACT2'' \<in> set (enum_Command s) \<Longrightarrow> T_ACT2 (env_of s) \<noteq> fin"
    and "''PREpb'' \<in> set (enum_Command s) \<Longrightarrow> T_PREpb (env_of s) \<noteq> fin"
  using kind_of_name(1) [OF assms(1), of K_ACT] kind_of_name(1) [OF assms(1), of K_ACT1]
    kind_of_name(1) [OF assms(1), of K_ACT2] kind_of_name(1) [OF assms(1), of K_PREpb] assms(2)
  by (auto simp: is_access_def access_kinds_def env_of_def Let_def)

text \<open>The address row is open, so the next command is the access itself.\<close>

definition row_open :: "dram_standard \<Rightarrow> NodeData \<Rightarrow> AddrVec_t \<Rightarrow> bool" where
  "row_open s b av \<longleftrightarrow> RD_rowhit (env_of s) b 0 av 0"

lemma service_hit:
  assumes "standard_ok s" "is_access s fin" "row_open s b av"
  shows "service s (Suc n) fin b av clk = Some ([], b)"
  using assms env_states(1) [OF assms(1)] env_states(2) [OF assms(1)]
  by (auto simp: resolve_access RD_preq_def ACT_preq_def ACT2_preq_def row_open_def RD_rowhit_def)

lemma service_closed:
  assumes ok: "standard_ok s" and acc: "is_access s fin" and cl: "m_state b = T_Closed (env_of s)"
  shows "\<exists>pre b'. service s (3 + n) fin b av clk = Some (pre, b') \<and> row_open s b' av \<and>
     pre = (if T_has_ACT2 (env_of s) then [T_ACT1 (env_of s), T_ACT2 (env_of s)] else [T_ACT (env_of s)])"
proof (cases "''ACT2'' \<in> set (enum_Command s)")
  case True
  let ?T = "env_of s"
  let ?b1 = "ACT1_action ?T b (T_ACT1 ?T) av clk"
  let ?b2 = "ACT2_action ?T ?b1 (T_ACT2 ?T) av clk"
  have r1: "resolve s fin b av clk = Inr (T_ACT1 ?T)"
    using cl True by (simp add: resolve_access [OF acc] RD_preq_def ACT2_preq_def has_ACT2_iff)
  have r2: "resolve s fin ?b1 av clk = Inr (T_ACT2 ?T)"
    using True env_states(3) [OF ok]
    by (simp add: resolve_access [OF acc] RD_preq_def ACT2_preq_def has_ACT2_iff ACT1_action_def)
  have o: "row_open s ?b2 av" by (simp add: row_open_def RD_rowhit_def row_found_def ACT2_action_def)
  have "service s (Suc (Suc (Suc n))) fin b av clk = Some ([T_ACT1 ?T, T_ACT2 ?T], ?b2)"
    using r1 r2 True access_neq_prerequisite(2,3) [OF ok acc] access_needs(3) [OF ok acc]
      apply_cmd_prerequisites(2,3) [OF ok] service_hit [OF ok acc o, of n clk]
    by (simp del: service.simps add: service.simps(2))
  with o True show ?thesis by (auto simp: has_ACT2_iff eval_nat_numeral)
next
  case False
  let ?T = "env_of s"
  let ?b1 = "ACT_action ?T b (T_ACT ?T) av clk"
  have r1: "resolve s fin b av clk = Inr (T_ACT ?T)"
    using cl False by (simp add: resolve_access [OF acc] RD_preq_def ACT_preq_def has_ACT2_iff)
  have o: "row_open s ?b1 av" by (simp add: row_open_def RD_rowhit_def row_found_def ACT_action_def)
  have "service s (Suc (Suc (Suc n))) fin b av clk = Some ([T_ACT ?T], ?b1)"
    using r1 False access_neq_prerequisite(1) [OF ok acc] access_needs(2) [OF ok acc]
      apply_cmd_prerequisites(1) [OF ok] service_hit [OF ok acc o, of "Suc n" clk]
    by (simp del: service.simps add: service.simps(2))
  with o False show ?thesis by (auto simp: has_ACT2_iff eval_nat_numeral)
qed

lemma service_access:
  assumes ok: "standard_ok s" and acc: "is_access s fin" and leg: "bank_legal s b"
  shows "\<exists>pre b'. service s 4 fin b av clk = Some (pre, b') \<and> row_open s b' av \<and> length pre \<le> 3"
proof -
  let ?T = "env_of s"
  note st = env_states [OF ok] and nd = access_needs [OF ok acc]
    and ne = access_neq_prerequisite [OF ok acc] and ap = apply_cmd_prerequisites [OF ok]
  from leg consider "m_state b = T_Closed ?T" | "T_has_ACT2 ?T" "m_state b = T_Activating ?T"
    | "row_open s b av" | "m_state b = T_Opened ?T" "\<not> row_found ?T b av"
    by (auto simp: bank_legal_def row_open_def RD_rowhit_def)
  then show ?thesis
  proof cases
    case 1
    from service_closed [OF ok acc 1, of 1 av clk] show ?thesis by (auto split: if_splits)
  next
    case 2
    let ?b2 = "ACT2_action ?T b (T_ACT2 ?T) av clk"
    have o: "row_open s ?b2 av" by (simp add: row_open_def RD_rowhit_def row_found_def ACT2_action_def)
    have "resolve s fin b av clk = Inr (T_ACT2 ?T)"
      using 2 st(3) by (simp add: resolve_access [OF acc] RD_preq_def ACT2_preq_def)
    then have "service s (Suc 3) fin b av clk = Some ([T_ACT2 ?T], ?b2)"
      unfolding service.simps(2)
      using 2 ne(3) ap(3) service_hit [OF ok acc o, of 2 clk]
      by (simp del: service.simps add: has_ACT2_iff)
    with o show ?thesis by auto
  next
    case 3
    from service_hit [OF ok acc this, of 3 clk] 3 show ?thesis by (auto simp: eval_nat_numeral)
  next
    case 4
    let ?b1 = "PREpb_action ?T b (T_PREpb ?T) av clk"
    have "resolve s fin b av clk = Inr (T_PREpb ?T)"
      using 4 st(1,2) by (auto simp: resolve_access [OF acc] RD_preq_def ACT2_preq_def ACT_preq_def)
    moreover have "m_state ?b1 = T_Closed ?T" by (simp add: PREpb_action_def)
    then obtain pre b' where "service s 3 fin ?b1 av clk = Some (pre, b')" "row_open s b' av" "length pre \<le> 2"
      using service_closed [OF ok acc, of ?b1 0 av clk] by (auto split: if_splits)
    ultimately have "service s (Suc 3) fin b av clk = Some (T_PREpb ?T # pre, b')"
      unfolding service.simps(2) using ne(4) nd(1) ap(4) by (simp del: service.simps)
    with \<open>row_open s b' av\<close> \<open>length pre \<le> 2\<close> show ?thesis by auto
  qed
qed

end
