(* ===== verification/Dram_Node.thy ===== *)
theory Dram_Node
  imports Bank_Protocol
begin

text \<open>
  \<^verbatim>\<open>ramulator/dram/node.h\<close> and \<^verbatim>\<open>node.cpp\<close>: the tree of timing nodes. A node owns its
  children; the parent pointer is the position in the tree. \<open>update_timing\<close> records an
  issued command, \<open>check_timing\<close> and \<open>earliest_ready\<close> ask when a command may be issued.

  Child ids and history positions that C++ would read out of bounds (undefined behaviour)
  leave the node unchanged here; the lemmas are about addresses within the organisation.
\<close>

section \<open>The tree\<close>

datatype DRAMNode = Node (node_data: NodeData) (m_child_nodes: "DRAMNode list")

lemma node_size_nth [termination_simp]:
  "i < length cs \<Longrightarrow> size (cs ! i) < Suc (size_list size (cs :: DRAMNode list))"
  by (simp add: less_Suc_eq_le size_list_estimation' [OF nth_mem])

subsection \<open>Construction\<close>

definition cmd_window :: "TimingConsEntry list \<Rightarrow> nat" where
  "cmd_window tcs = fold (\<lambda>t window. max window (tc_window t)) tcs 0"

definition shared_group_count :: "TimingConsEntry list list \<Rightarrow> nat" where
  "shared_group_count rows =
     fold (\<lambda>tcs n. fold (\<lambda>t n. if tc_history_group t \<ge> 0 then max n (nat (tc_history_group t + 1)) else n) tcs n)
       rows 0"

definition grow_shared :: "TimingConsEntry \<Rightarrow> Clk_t list list \<Rightarrow> Clk_t list list" where
  "grow_shared t h =
     (if tc_history_group t \<ge> 0 \<and> length (h ! nat (tc_history_group t)) < tc_window t
      then let g = nat (tc_history_group t) in
           h[g := h ! g @ replicate (tc_window t - length (h ! g)) (-1)]
      else h)"

definition init_node_data :: "DRAMSpec \<Rightarrow> nat \<Rightarrow> int \<Rightarrow> NodeData" where
  "init_node_data sp level nid =
     (let rows = map (\<lambda>cmd. timing_cons sp ! level ! cmd) [0..<command_count sp] in
      \<lparr>m_level = level, m_node_id = nid, m_state = init_states sp ! level,
       m_cmd_ready_clk = replicate (command_count sp) (-1),
       m_cmd_history = map (\<lambda>tcs. replicate (cmd_window tcs) (-1)) rows,
       m_shared_window_history = fold (fold grow_shared) rows (replicate (shared_group_count rows) []),
       m_row_state = Map.empty\<rparr>)"

text \<open>
  The recursion of the constructor: children of the next level until that level is
  \<^verbatim>\<open>Row\<close>. The code tests \<^verbatim>\<open>next_level == last_level\<close>; it starts at level 0 below it.
\<close>

function build_node :: "DRAMSpec \<Rightarrow> nat \<Rightarrow> nat \<Rightarrow> int \<Rightarrow> DRAMNode" where
  "build_node sp last_level level nid =
     (let next_level = level + 1 in
      if next_level \<ge> last_level then Node (init_node_data sp level nid) []
      else Node (init_node_data sp level nid)
             (map (\<lambda>i. build_node sp last_level next_level (int i))
                [0..<nat (level_sizes (organization sp) ! next_level)]))"
  by pat_completeness auto
termination
  by (relation "measure (\<lambda>(sp, last, level, nid). last - level)") auto

declare build_node.simps [simp del]

subsection \<open>Recording a command\<close>

definition bump_ready :: "nat \<Rightarrow> Clk_t \<Rightarrow> NodeData \<Rightarrow> NodeData" where
  "bump_ready c future d =
     d\<lparr>m_cmd_ready_clk := (m_cmd_ready_clk d)[c := max (m_cmd_ready_clk d ! c) future]\<rparr>"

definition sibling_cons :: "Clk_t \<Rightarrow> TimingConsEntry \<Rightarrow> NodeData \<Rightarrow> NodeData" where
  "sibling_cons clk t d = (if \<not> tc_sibling t then d else bump_ready (tc_cmd t) (clk + tc_val t) d)"

definition update_sibling :: "DRAMSpec \<Rightarrow> nat \<Rightarrow> Clk_t \<Rightarrow> NodeData \<Rightarrow> NodeData" where
  "update_sibling sp command clk d = fold (sibling_cons clk) (timing_cons sp ! m_level d ! command) d"

definition push_cmd_history :: "nat \<Rightarrow> Clk_t \<Rightarrow> NodeData \<Rightarrow> NodeData" where
  "push_cmd_history command clk d =
     (if m_cmd_history d ! command \<noteq> []
      then d\<lparr>m_cmd_history := (m_cmd_history d)[command := clk # butlast (m_cmd_history d ! command)]\<rparr>
      else d)"

definition push_shared_step :: "Clk_t \<Rightarrow> TimingConsEntry \<Rightarrow> bool list \<times> Clk_t list list \<Rightarrow> bool list \<times> Clk_t list list"
  where
  "push_shared_step v t u =
     (if tc_history_group t < 0 \<or> fst u ! nat (tc_history_group t) then u
      else let g = nat (tc_history_group t) in
           ((fst u)[g := True], (snd u)[g := v # butlast (snd u ! g)]))"

definition push_shared :: "DRAMSpec \<Rightarrow> nat \<Rightarrow> Clk_t \<Rightarrow> NodeData \<Rightarrow> NodeData" where
  "push_shared sp command clk d =
     d\<lparr>m_shared_window_history :=
         snd (fold (push_shared_step (clk + command_cycles sp ! command - 1))
                (timing_cons sp ! m_level d ! command)
                (replicate (length (m_shared_window_history d)) False, m_shared_window_history d))\<rparr>"

definition past_of :: "nat \<Rightarrow> TimingConsEntry \<Rightarrow> NodeData \<Rightarrow> Clk_t" where
  "past_of command t d =
     (if tc_history_group t \<ge> 0
      then m_shared_window_history d ! nat (tc_history_group t) ! (tc_window t - 1)
      else m_cmd_history d ! command ! (tc_window t - 1))"

definition target_cons :: "nat \<Rightarrow> TimingConsEntry \<Rightarrow> NodeData \<Rightarrow> NodeData" where
  "target_cons command t d =
     (if tc_sibling t then d
      else let past = past_of command t d in
           if past < 0 then d else bump_ready (tc_cmd t) (past + tc_val t) d)"

definition update_target :: "DRAMSpec \<Rightarrow> nat \<Rightarrow> Clk_t \<Rightarrow> NodeData \<Rightarrow> NodeData" where
  "update_target sp command clk d =
     (let d1 = push_shared sp command clk (push_cmd_history command clk d)
      in fold (target_cons command) (timing_cons sp ! m_level d ! command) d1)"

fun update_timing :: "DRAMSpec \<Rightarrow> nat \<Rightarrow> AddrVec_t \<Rightarrow> Clk_t \<Rightarrow> DRAMNode \<Rightarrow> DRAMNode" where
  "update_timing sp command addr_vec clk (Node d cs) =
     (if m_node_id d \<noteq> addr_vec ! m_level d \<and> addr_vec ! m_level d \<noteq> -1
      then Node (update_sibling sp command clk d) cs
      else if cs = [] then Node (update_target sp command clk d) []
      else let child_level = m_level d + 1; target_child_id = addr_vec ! child_level in
        if has_sibling_cons sp ! child_level ! command \<or> target_child_id = -1
        then Node (update_target sp command clk d) (map (update_timing sp command addr_vec clk) cs)
        else if 0 \<le> target_child_id \<and> nat target_child_id < length cs
        then Node (update_target sp command clk d)
               (cs[nat target_child_id := update_timing sp command addr_vec clk (cs ! nat target_child_id)])
        else Node (update_target sp command clk d) cs)"

subsection \<open>Asking\<close>

fun earliest_ready :: "nat \<Rightarrow> AddrVec_t \<Rightarrow> DRAMNode \<Rightarrow> Clk_t" where
  "earliest_ready command addr_vec (Node d cs) =
     (let ready = m_cmd_ready_clk d ! command in
      if cs = [] then ready
      else let child_id = addr_vec ! (m_level d + 1) in
        if child_id = -1 then fold (\<lambda>child r. max r (earliest_ready command addr_vec child)) cs ready
        else if 0 \<le> child_id \<and> nat child_id < length cs
        then max ready (earliest_ready command addr_vec (cs ! nat child_id))
        else ready)"

fun check_timing :: "nat \<Rightarrow> AddrVec_t \<Rightarrow> Clk_t \<Rightarrow> DRAMNode \<Rightarrow> bool" where
  "check_timing command addr_vec clk (Node d cs) =
     (if m_cmd_ready_clk d ! command \<noteq> -1 \<and> clk < m_cmd_ready_clk d ! command then False
      else if cs = [] then True
      else let child_id = addr_vec ! (m_level d + 1) in
        if child_id = -1 then list_all (check_timing command addr_vec clk) cs
        else if 0 \<le> child_id \<and> nat child_id < length cs
        then check_timing command addr_vec clk (cs ! nat child_id)
        else True)"

subsection \<open>Visiting a level\<close>

text \<open>
  \<^verbatim>\<open>for_each_at_level(target_level, fn)\<close> calls \<^verbatim>\<open>fn\<close> on the nodes of one level from left to
  right. A node pointer is the path of child positions from the root; the model returns
  the paths in the order of the calls.
\<close>

fun paths_at_level :: "nat \<Rightarrow> DRAMNode \<Rightarrow> nat list list" where
  "paths_at_level target_level (Node d cs) =
     (if m_level d = target_level then [[]]
      else concat (map (\<lambda>(i, ps). map (Cons i) ps)
             (enumerate 0 (map (paths_at_level target_level) cs))))"

text \<open>Following a pointer, reading and writing what it points to.\<close>

fun node_at :: "DRAMNode \<Rightarrow> nat list \<Rightarrow> NodeData option" where
  "node_at (Node d cs) [] = Some d"
| "node_at (Node d cs) (i # p) = (if i < length cs then node_at (cs ! i) p else None)"

fun modify_at :: "nat list \<Rightarrow> (NodeData \<Rightarrow> NodeData) \<Rightarrow> DRAMNode \<Rightarrow> DRAMNode" where
  "modify_at [] f (Node d cs) = Node (f d) cs"
| "modify_at (i # p) f (Node d cs) =
     (if i < length cs then Node d (cs[i := modify_at p f (cs ! i)]) else Node d cs)"

text \<open>The parent chain \<^verbatim>\<open>for (n = bank; n != nullptr; n = n->m_parent_node)\<close>, root first.\<close>

fun chain_to :: "DRAMNode \<Rightarrow> nat list \<Rightarrow> NodeData list" where
  "chain_to (Node d cs) [] = [d]"
| "chain_to (Node d cs) (i # p) = (if i < length cs then d # chain_to (cs ! i) p else [d])"

end
