(* ===== verification/Node_Timing.thy ===== *)
theory Node_Timing
  imports Dram_Node
begin

text \<open>
  What the timing tree computes. The traversal that skips children without sibling
  constraints is the full traversal; every node then only sees the commands that reach
  it (as their target, or as a sibling of their target), and its ready clocks are the
  constraints of the table applied to the history of those commands. The final lemma
  \<open>check_timing_run\<close> says that \<open>check_timing\<close> after any sequence of commands is the
  declarative reading of the constraint table over that sequence.
\<close>

section \<open>Well-formed trees and specifications\<close>

fun wf_tree :: "DRAMSpec \<Rightarrow> nat \<Rightarrow> DRAMNode \<Rightarrow> bool" where
  "wf_tree sp l (Node d cs) \<longleftrightarrow>
     m_level d = l \<and> l < level_count sp \<and> (cs \<noteq> [] \<longrightarrow> Suc l < level_count sp) \<and>
     length (m_cmd_ready_clk d) = command_count sp \<and>
     (\<forall>i < length cs. m_node_id (node_data (cs ! i)) = int i) \<and> list_all (wf_tree sp (Suc l)) cs"

definition flags_ok :: "DRAMSpec \<Rightarrow> bool" where
  "flags_ok sp \<longleftrightarrow> has_sibling_cons sp = sibling_flags (timing_cons sp) (level_count sp) (command_count sp)"

definition cons_ok :: "DRAMSpec \<Rightarrow> bool" where
  "cons_ok sp \<longleftrightarrow>
     (\<forall>l < level_count sp. \<forall>p < command_count sp. \<forall>t \<in> set (timing_cons sp ! l ! p).
        tc_cmd t < command_count sp \<and> 0 < tc_window t)"

lemma flags_nth:
  "flags_ok sp \<Longrightarrow> l < level_count sp \<Longrightarrow> c < command_count sp \<Longrightarrow>
   has_sibling_cons sp ! l ! c \<longleftrightarrow> (\<exists>t \<in> set (timing_cons sp ! l ! c). tc_sibling t)"
  by (simp add: flags_ok_def sibling_flags_def)

section \<open>What the local updates keep\<close>

lemma bump_ready_frame [simp]:
  "m_level (bump_ready c v d) = m_level d" "m_node_id (bump_ready c v d) = m_node_id d"
  "m_state (bump_ready c v d) = m_state d" "m_row_state (bump_ready c v d) = m_row_state d"
  "m_cmd_history (bump_ready c v d) = m_cmd_history d"
  "m_shared_window_history (bump_ready c v d) = m_shared_window_history d"
  "length (m_cmd_ready_clk (bump_ready c v d)) = length (m_cmd_ready_clk d)"
  by (simp_all add: bump_ready_def)

text \<open>A fold of steps that keep an observation keeps it.\<close>

lemma fold_frame: "(\<And>x d. f (g x d) = f d) \<Longrightarrow> f (fold g xs d) = f d"
  by (induction xs arbitrary: d) auto

lemma sibling_cons_frame [simp]:
  "m_level (sibling_cons v t d) = m_level d" "m_node_id (sibling_cons v t d) = m_node_id d"
  "m_state (sibling_cons v t d) = m_state d" "m_row_state (sibling_cons v t d) = m_row_state d"
  "m_cmd_history (sibling_cons v t d) = m_cmd_history d"
  "m_shared_window_history (sibling_cons v t d) = m_shared_window_history d"
  "length (m_cmd_ready_clk (sibling_cons v t d)) = length (m_cmd_ready_clk d)"
  by (simp_all add: sibling_cons_def)

lemma target_cons_frame [simp]:
  "m_level (target_cons v t d) = m_level d" "m_node_id (target_cons v t d) = m_node_id d"
  "m_state (target_cons v t d) = m_state d" "m_row_state (target_cons v t d) = m_row_state d"
  "m_cmd_history (target_cons v t d) = m_cmd_history d"
  "m_shared_window_history (target_cons v t d) = m_shared_window_history d"
  "length (m_cmd_ready_clk (target_cons v t d)) = length (m_cmd_ready_clk d)"
  by (simp_all add: target_cons_def Let_def)

lemma push_frame [simp]:
  "m_level (push_cmd_history c v d) = m_level d" "m_node_id (push_cmd_history c v d) = m_node_id d"
  "m_state (push_cmd_history c v d) = m_state d" "m_row_state (push_cmd_history c v d) = m_row_state d"
  "m_cmd_ready_clk (push_cmd_history c v d) = m_cmd_ready_clk d"
  "m_shared_window_history (push_cmd_history c v d) = m_shared_window_history d"
  "m_level (push_shared sp c v d) = m_level d" "m_node_id (push_shared sp c v d) = m_node_id d"
  "m_state (push_shared sp c v d) = m_state d" "m_row_state (push_shared sp c v d) = m_row_state d"
  "m_cmd_ready_clk (push_shared sp c v d) = m_cmd_ready_clk d"
  "m_cmd_history (push_shared sp c v d) = m_cmd_history d"
  by (simp_all add: push_cmd_history_def push_shared_def)

lemma update_sibling_frame [simp]:
  "m_level (update_sibling sp c v d) = m_level d" "m_node_id (update_sibling sp c v d) = m_node_id d"
  "m_state (update_sibling sp c v d) = m_state d" "m_row_state (update_sibling sp c v d) = m_row_state d"
  "m_cmd_history (update_sibling sp c v d) = m_cmd_history d"
  "m_shared_window_history (update_sibling sp c v d) = m_shared_window_history d"
  "length (m_cmd_ready_clk (update_sibling sp c v d)) = length (m_cmd_ready_clk d)"
  unfolding update_sibling_def by (rule fold_frame, simp)+

lemma update_target_frame [simp]:
  "m_level (update_target sp c v d) = m_level d" "m_node_id (update_target sp c v d) = m_node_id d"
  "m_state (update_target sp c v d) = m_state d" "m_row_state (update_target sp c v d) = m_row_state d"
  "length (m_cmd_ready_clk (update_target sp c v d)) = length (m_cmd_ready_clk d)"
  unfolding update_target_def Let_def
  by (subst fold_frame [where f = m_level], simp, simp)
    (subst fold_frame [where f = m_node_id], simp, simp,
     subst fold_frame [where f = m_state], simp, simp,
     subst fold_frame [where f = m_row_state], simp, simp,
     subst fold_frame [where f = "\<lambda>d. length (m_cmd_ready_clk d)"], simp, simp)

section \<open>Skipping children is sound\<close>

fun update_timing_full :: "DRAMSpec \<Rightarrow> nat \<Rightarrow> AddrVec_t \<Rightarrow> Clk_t \<Rightarrow> DRAMNode \<Rightarrow> DRAMNode" where
  "update_timing_full sp command addr_vec clk (Node d cs) =
     (if m_node_id d \<noteq> addr_vec ! m_level d \<and> addr_vec ! m_level d \<noteq> -1
      then Node (update_sibling sp command clk d) cs
      else Node (update_target sp command clk d) (map (update_timing_full sp command addr_vec clk) cs))"

lemma sibling_cons_idle: "\<forall>t \<in> set ts. \<not> tc_sibling t \<Longrightarrow> fold (sibling_cons clk) ts d = d"
  by (induction ts arbitrary: d) (auto simp: sibling_cons_def)

lemma full_untouched:
  assumes "m_node_id d \<noteq> av ! m_level d" "av ! m_level d \<noteq> -1"
    and "\<forall>t \<in> set (timing_cons sp ! m_level d ! c). \<not> tc_sibling t"
  shows "update_timing_full sp c av clk (Node d cs) = Node d cs"
  using assms by (simp add: update_sibling_def sibling_cons_idle)

lemma update_timing_full_eq:
  assumes "flags_ok sp" "c < command_count sp"
  shows "wf_tree sp l n \<Longrightarrow> update_timing sp c av clk n = update_timing_full sp c av clk n"
proof (induction n arbitrary: l)
  case (Node d cs)
  let ?cl = "m_level d + 1"
  let ?f = "update_timing_full sp c av clk"
  from Node.prems have wf: "\<And>i. i < length cs \<Longrightarrow> wf_tree sp (Suc l) (cs ! i)"
    and id: "\<And>i. i < length cs \<Longrightarrow> m_node_id (node_data (cs ! i)) = int i" and lv: "m_level d = l"
    and lc: "cs \<noteq> [] \<Longrightarrow> Suc l < level_count sp"
    by (auto simp: list_all_length)
  have IH: "update_timing sp c av clk (cs ! i) = ?f (cs ! i)" if "i < length cs" for i
    using Node.IH that wf by (meson nth_mem)
  then have IHmap: "map (update_timing sp c av clk) cs = map ?f cs"
    by (intro nth_equalityI) auto
  show ?case
  proof (cases "cs = [] \<or> has_sibling_cons sp ! ?cl ! c \<or> av ! ?cl = -1")
    case True
    with IHmap show ?thesis by (auto simp: Let_def)
  next
    case False
    then have ns: "\<forall>t \<in> set (timing_cons sp ! Suc l ! c). \<not> tc_sibling t"
      using flags_nth [OF assms(1) lc assms(2)] lv by auto
    have untouched: "?f (cs ! i) = cs ! i" if "i < length cs" "int i \<noteq> av ! ?cl" for i
    proof (cases "cs ! i")
      case (Node d' cs')
      then show ?thesis
        using that wf [OF that(1)] id [OF that(1)] False ns lv
        by (simp del: update_timing_full.simps add: full_untouched)
    qed
    have "map ?f cs = (if 0 \<le> av ! ?cl \<and> nat (av ! ?cl) < length cs
        then cs[nat (av ! ?cl) := ?f (cs ! nat (av ! ?cl))] else cs)"
      by (rule nth_equalityI) (auto simp: nth_list_update untouched)
    then show ?thesis
      using False IH by (auto simp: Let_def)
  qed
qed

section \<open>What one node sees\<close>

datatype touch = Target | Sibling | Untouched

fun touch_at :: "int \<Rightarrow> nat \<Rightarrow> AddrVec_t \<Rightarrow> nat list \<Rightarrow> touch" where
  "touch_at nid l av [] = (if nid \<noteq> av ! l \<and> av ! l \<noteq> -1 then Sibling else Target)"
| "touch_at nid l av (i # p) =
     (if nid \<noteq> av ! l \<and> av ! l \<noteq> -1 then Untouched else touch_at (int i) (Suc l) av p)"

fun node_step :: "DRAMSpec \<Rightarrow> touch \<times> nat \<times> Clk_t \<Rightarrow> NodeData \<Rightarrow> NodeData" where
  "node_step sp (Target, c, clk) d = update_target sp c clk d"
| "node_step sp (Sibling, c, clk) d = update_sibling sp c clk d"
| "node_step sp (Untouched, c, clk) d = d"

lemma node_step_frame [simp]:
  "m_level (node_step sp v d) = m_level d" "m_node_id (node_step sp v d) = m_node_id d"
  "m_state (node_step sp v d) = m_state d" "m_row_state (node_step sp v d) = m_row_state d"
  "length (m_cmd_ready_clk (node_step sp v d)) = length (m_cmd_ready_clk d)"
  by (cases v rule: prod_cases3, rename_tac t c k, case_tac t, simp_all)+

lemma node_at_full:
  "wf_tree sp l n \<Longrightarrow>
   node_at (update_timing_full sp c av clk n) p =
     map_option (node_step sp (touch_at (m_node_id (node_data n)) l av p, c, clk)) (node_at n p)"
proof (induction p arbitrary: n l)
  case Nil
  then show ?case by (cases n) auto
next
  case (Cons i p)
  obtain d cs where n: "n = Node d cs" by (cases n)
  show ?case
  proof (cases "i < length cs")
    case True
    with Cons.prems n have "wf_tree sp (Suc l) (cs ! i)" "m_node_id (node_data (cs ! i)) = int i" "m_level d = l"
      by (auto simp: list_all_length)
    with Cons.IH [of "Suc l" "cs ! i"] n True show ?thesis
      by (auto simp: option.map_ident)
  qed (auto simp: n)
qed

lemma wf_tree_full: "wf_tree sp l n \<Longrightarrow> wf_tree sp l (update_timing_full sp c av clk n)"
proof (induction n arbitrary: l)
  case (Node d cs)
  have id: "m_node_id (node_data (update_timing_full sp c av clk x)) = m_node_id (node_data x)" for x
    by (cases x) simp
  from Node show ?case by (auto simp: list_all_iff id)
qed

lemma full_root_id: "m_node_id (node_data (update_timing_full sp c av clk n)) = m_node_id (node_data n)"
  by (cases n) simp

section \<open>Sequences of commands\<close>

type_synonym cmd_event = "nat \<times> AddrVec_t \<times> Clk_t"

primrec run_cmds :: "DRAMSpec \<Rightarrow> cmd_event list \<Rightarrow> DRAMNode \<Rightarrow> DRAMNode" where
  "run_cmds sp [] n = n"
| "run_cmds sp (e # es) n = run_cmds sp es (update_timing sp (fst e) (fst (snd e)) (snd (snd e)) n)"

definition view :: "int \<Rightarrow> nat list \<Rightarrow> cmd_event list \<Rightarrow> (touch \<times> nat \<times> Clk_t) list" where
  "view nid p es = map (\<lambda>(c, av, clk). (touch_at nid 0 av p, c, clk)) es"

lemma run_cmds_full_step:
  assumes "flags_ok sp" "wf_tree sp 0 n" "c < command_count sp"
  shows "run_cmds sp ((c, av, clk) # es) n = run_cmds sp es (update_timing_full sp c av clk n)"
  using update_timing_full_eq [OF assms(1,3,2)] by simp

lemma wf_tree_run:
  assumes "flags_ok sp"
  shows "wf_tree sp 0 n \<Longrightarrow> \<forall>e \<in> set es. fst e < command_count sp \<Longrightarrow> wf_tree sp 0 (run_cmds sp es n)"
proof (induction es arbitrary: n)
  case (Cons e es)
  obtain c av clk where e: "e = (c, av, clk)" by (cases e)
  with Cons.prems have c: "c < command_count sp" by simp
  from Cons.prems(2) have es: "\<forall>e \<in> set es. fst e < command_count sp" by simp
  show ?case
    unfolding e run_cmds_full_step [OF assms Cons.prems(1) c]
    by (rule Cons.IH [OF wf_tree_full [OF Cons.prems(1)] es])
qed simp

lemma node_at_run:
  assumes "flags_ok sp"
  shows "wf_tree sp 0 n \<Longrightarrow> \<forall>e \<in> set es. fst e < command_count sp \<Longrightarrow>
    node_at (run_cmds sp es n) p =
      map_option (fold (node_step sp) (view (m_node_id (node_data n)) p es)) (node_at n p)"
proof (induction es arbitrary: n)
  case Nil
  show ?case by (simp add: view_def option.map_ident)
next
  case (Cons e es)
  obtain c av clk where e: "e = (c, av, clk)" by (cases e)
  with Cons.prems have c: "c < command_count sp" by simp
  from Cons.prems(2) have es: "\<forall>e \<in> set es. fst e < command_count sp" by simp
  show ?case
    unfolding e run_cmds_full_step [OF assms Cons.prems(1) c]
      Cons.IH [OF wf_tree_full [OF Cons.prems(1)] es] node_at_full [OF Cons.prems(1)] full_root_id
    by (simp add: view_def option.map_comp comp_def)
qed

section \<open>The constraint table over a history\<close>

text \<open>
  Issue clocks of the commands that targeted the node, latest first; for a shared
  window, the last cycle of each command that belongs to the group.
\<close>

definition cmd_hist :: "(touch \<times> nat \<times> Clk_t) list \<Rightarrow> nat \<Rightarrow> Clk_t list" where
  "cmd_hist vs p = rev (map (snd \<circ> snd) (filter (\<lambda>v. fst v = Target \<and> fst (snd v) = p) vs))"

definition in_group :: "DRAMSpec \<Rightarrow> nat \<Rightarrow> int \<Rightarrow> nat \<Rightarrow> bool" where
  "in_group sp l g p \<longleftrightarrow> (\<exists>t \<in> set (timing_cons sp ! l ! p). tc_history_group t = g)"

definition group_hist :: "DRAMSpec \<Rightarrow> nat \<Rightarrow> (touch \<times> nat \<times> Clk_t) list \<Rightarrow> int \<Rightarrow> Clk_t list" where
  "group_hist sp l vs g =
     rev (map (\<lambda>v. snd (snd v) + command_cycles sp ! fst (snd v) - 1)
       (filter (\<lambda>v. fst v = Target \<and> in_group sp l g (fst (snd v))) vs))"

definition hist_for :: "DRAMSpec \<Rightarrow> nat \<Rightarrow> TimingConsEntry \<Rightarrow> nat \<Rightarrow> (touch \<times> nat \<times> Clk_t) list \<Rightarrow> Clk_t list" where
  "hist_for sp l t p vs = (if tc_history_group t \<ge> 0 then group_hist sp l vs (tc_history_group t) else cmd_hist vs p)"

text \<open>
  The clocks the last command of \<open>ws\<close> makes command \<open>c\<close> wait for, at a node of level \<open>l\<close>
  that saw \<open>ws\<close>: a constraint from the issued command to \<open>c\<close> counts its latency from the
  \<open>window\<close>-th latest entry of its history (itself, for a window of 1); a sibling
  constraint counts from the command itself, at the nodes next to the target.
\<close>

fun raised :: "DRAMSpec \<Rightarrow> nat \<Rightarrow> (touch \<times> nat \<times> Clk_t) list \<Rightarrow> touch \<times> nat \<times> Clk_t \<Rightarrow> nat \<Rightarrow> Clk_t set" where
  "raised sp l ws (Target, p, clk) c =
     {hist_for sp l t p ws ! (tc_window t - 1) + tc_val t | t.
        t \<in> set (timing_cons sp ! l ! p) \<and> \<not> tc_sibling t \<and> tc_cmd t = c \<and>
        tc_window t \<le> length (hist_for sp l t p ws) \<and> 0 \<le> hist_for sp l t p ws ! (tc_window t - 1)}"
| "raised sp l ws (Sibling, p, clk) c =
     {clk + tc_val t | t. t \<in> set (timing_cons sp ! l ! p) \<and> tc_sibling t \<and> tc_cmd t = c}"
| "raised sp l ws (Untouched, p, clk) c = {}"

definition obligations :: "DRAMSpec \<Rightarrow> nat \<Rightarrow> (touch \<times> nat \<times> Clk_t) list \<Rightarrow> nat \<Rightarrow> Clk_t set" where
  "obligations sp l vs c = (\<Union>i < length vs. raised sp l (take (Suc i) vs) (vs ! i) c)"

lemma obligations_Nil [simp]: "obligations sp l [] c = {}"
  by (simp add: obligations_def)

lemma obligations_snoc:
  "obligations sp l (vs @ [v]) c = obligations sp l vs c \<union> raised sp l (vs @ [v]) v c"
  by (auto simp: obligations_def lessThan_Suc nth_append)

subsection \<open>Histories of a node\<close>

lemma cons_butlast_take:
  assumes "0 < W"
  shows "v # butlast (take W (h @ replicate W (-1))) = take W ((v # h) @ replicate W (-1::int))"
proof -
  obtain k where W: "W = Suc k" using assms by (cases W) auto
  have "butlast (take W (h @ replicate W (-1::int))) = take k (h @ replicate W (-1))"
    using W by (simp only: butlast_take length_append length_replicate) simp
  then show ?thesis using W by (simp only: take_Suc_Cons append_Cons)
qed

lemma cmd_hist_snoc [simp]:
  "cmd_hist (vs @ [v]) p = (if fst v = Target \<and> fst (snd v) = p then snd (snd v) # cmd_hist vs p else cmd_hist vs p)"
  by (simp add: cmd_hist_def)

lemma group_hist_snoc [simp]:
  "group_hist sp l (vs @ [v]) g =
     (if fst v = Target \<and> in_group sp l g (fst (snd v))
      then (snd (snd v) + command_cycles sp ! fst (snd v) - 1) # group_hist sp l vs g else group_hist sp l vs g)"
  by (simp add: group_hist_def)

text \<open>Folds that only grow their accumulator.\<close>

lemma fold_inflate:
  assumes "\<And>x w. (w::nat) \<le> f x w"
  shows "w \<le> fold f xs w"
proof (induction xs arbitrary: w)
  case (Cons a xs)
  have "w \<le> f a w" by (rule assms)
  also have "\<dots> \<le> fold f xs (f a w)" by (rule Cons.IH)
  finally show ?case by simp
qed simp

lemma fold_inflate_mem:
  assumes "\<And>x w. (w::nat) \<le> f x w" "\<And>w. k \<le> f x w"
  shows "x \<in> set xs \<Longrightarrow> k \<le> fold f xs w"
proof (induction xs arbitrary: w)
  case (Cons a xs)
  show ?case
  proof (cases "x = a")
    case True
    with assms(2) have "k \<le> f a w" by simp
    also have "\<dots> \<le> fold f xs (f a w)" by (rule fold_inflate [OF assms(1)])
    finally show ?thesis by simp
  next
    case False
    with Cons show ?thesis by simp
  qed
qed simp

lemma cmd_window_ge: "t \<in> set ts \<Longrightarrow> tc_window t \<le> cmd_window ts"
  unfolding cmd_window_def by (rule fold_inflate_mem) auto

text \<open>The last element of each fold is written once per group: the flags prevent repeats.\<close>

lemma fold_push_shared:
  assumes "\<forall>t \<in> set ts. tc_history_group t < int (length h)" "length u = length h" "g < length h"
  shows "snd (fold (push_shared_step v) ts (u, h)) ! g =
      (if \<not> u ! g \<and> (\<exists>t \<in> set ts. tc_history_group t = int g) then v # butlast (h ! g) else h ! g)
    \<and> length (snd (fold (push_shared_step v) ts (u, h))) = length h"
  using assms
proof (induction ts arbitrary: u h)
  case (Cons t ts)
  let ?k = "nat (tc_history_group t)"
  show ?case
  proof (cases "tc_history_group t < 0 \<or> u ! ?k")
    case True
    with Cons.IH [of h u] Cons.prems show ?thesis by (auto simp: push_shared_step_def)
  next
    case False
    with Cons.prems have k: "?k < length h" by auto
    let ?u = "u[?k := True]" and ?h = "h[?k := v # butlast (h ! ?k)]"
    have "fold (push_shared_step v) (t # ts) (u, h) = fold (push_shared_step v) ts (?u, ?h)"
      using False by (simp add: push_shared_step_def Let_def)
    with Cons.IH [of ?h ?u] Cons.prems False k show ?thesis
      by (auto simp: nth_list_update)
  qed
qed simp

subsection \<open>The initial shared windows\<close>

definition group_window :: "TimingConsEntry list \<Rightarrow> int \<Rightarrow> nat" where
  "group_window ts g = fold (\<lambda>t w. if tc_history_group t = g then max w (tc_window t) else w) ts 0"

lemma fold_grow_shared:
  assumes "g < length h" "h ! g = replicate k (-1)" "\<forall>t \<in> set ts. tc_history_group t < int (length h)"
  shows "fold grow_shared ts h ! g =
      replicate (fold (\<lambda>t w. if tc_history_group t = int g then max w (tc_window t) else w) ts k) (-1)
    \<and> length (fold grow_shared ts h) = length h"
  using assms
proof (induction ts arbitrary: h k)
  case (Cons t ts)
  let ?k = "if tc_history_group t = int g then max k (tc_window t) else k"
  have len: "length (grow_shared t h) = length h" by (simp add: grow_shared_def Let_def)
  have "grow_shared t h ! g = replicate ?k (-1)"
    using Cons.prems
    by (auto simp: grow_shared_def Let_def nth_list_update replicate_add [symmetric] max_def)
  with Cons.IH [of "grow_shared t h" ?k] Cons.prems len show ?case by simp
qed simp

lemma group_count_bound:
  assumes "t \<in> set ts" "ts \<in> set rows"
  shows "tc_history_group t < int (shared_group_count rows)"
proof -
  let ?f = "\<lambda>t n. if tc_history_group t \<ge> 0 then max n (nat (tc_history_group t + 1)) else n"
  have infl: "n \<le> ?f t n" for t n by simp
  have "nat (tc_history_group t + 1) \<le> fold ?f ts n" if "tc_history_group t \<ge> 0" for n
    using assms(1) by (rule fold_inflate_mem [rotated 2]) (use that in auto)
  then have "nat (tc_history_group t + 1) \<le> fold (fold ?f) rows 0" if "tc_history_group t \<ge> 0"
    using assms(2) that by (intro fold_inflate_mem [where x = ts]) (auto intro: fold_inflate [OF infl])
  then show ?thesis
    unfolding shared_group_count_def by (cases "tc_history_group t \<ge> 0") linarith+
qed

lemma group_window_ge: "t \<in> set ts \<Longrightarrow> tc_window t \<le> group_window ts (tc_history_group t)"
  unfolding group_window_def by (rule fold_inflate_mem) auto

lemma fold_fold_concat: "fold (fold f) xss a = fold f (concat xss) a"
  by (induction xss arbitrary: a) auto

section \<open>The invariant of one node\<close>

abbreviation level_rows :: "DRAMSpec \<Rightarrow> nat \<Rightarrow> TimingConsEntry list list" where
  "level_rows sp l \<equiv> map (\<lambda>cmd. timing_cons sp ! l ! cmd) [0..<command_count sp]"

text \<open>A history of capacity \<open>W\<close> after the entries \<open>h\<close>: the latest \<open>W\<close>, padded with -1.\<close>

definition window_hist :: "nat \<Rightarrow> Clk_t list \<Rightarrow> Clk_t list" where
  "window_hist W h = take W (h @ replicate W (-1))"

lemma window_hist_Nil [simp]: "window_hist W [] = replicate W (-1)"
  by (simp add: window_hist_def)

lemma window_hist_push: "0 < W \<Longrightarrow> v # butlast (window_hist W h) = window_hist W (v # h)"
  unfolding window_hist_def by (rule cons_butlast_take)

lemma window_hist_0 [simp]: "window_hist 0 h = []"
  by (simp add: window_hist_def)

lemma window_hist_empty [simp]: "window_hist W h = [] \<longleftrightarrow> W = 0"
  by (auto simp: window_hist_def)

lemma window_hist_nth:
  "0 < w \<Longrightarrow> w \<le> W \<Longrightarrow> window_hist W h ! (w - Suc 0) = (if w \<le> length h then h ! (w - Suc 0) else -1)"
  by (auto simp: window_hist_def nth_append)

definition node_inv :: "DRAMSpec \<Rightarrow> nat \<Rightarrow> (touch \<times> nat \<times> Clk_t) list \<Rightarrow> NodeData \<Rightarrow> bool" where
  "node_inv sp l vs d \<longleftrightarrow>
     m_level d = l \<and> length (m_cmd_ready_clk d) = command_count sp \<and>
     m_cmd_history d = map (\<lambda>p. window_hist (cmd_window (timing_cons sp ! l ! p)) (cmd_hist vs p)) [0..<command_count sp] \<and>
     m_shared_window_history d =
       map (\<lambda>g. window_hist (group_window (concat (level_rows sp l)) (int g)) (group_hist sp l vs (int g)))
         [0..<shared_group_count (level_rows sp l)] \<and>
     (\<forall>c < command_count sp. \<forall>x. m_cmd_ready_clk d ! c \<le> x \<longleftrightarrow> -1 \<le> x \<and> (\<forall>ob \<in> obligations sp l vs c. ob \<le> x))"

lemma node_inv_init: "node_inv sp l [] (init_node_data sp l nid)"
proof -
  let ?rows = "level_rows sp l"
  let ?h = "replicate (shared_group_count ?rows) ([] :: Clk_t list)"
  have gb: "\<forall>t \<in> set (concat ?rows). tc_history_group t < int (length ?h)"
    using group_count_bound [of _ _ ?rows] by fastforce
  have "fold (fold grow_shared) ?rows ?h =
      map (\<lambda>g. replicate (group_window (concat ?rows) (int g)) (-1)) [0..<shared_group_count ?rows]"
    unfolding fold_fold_concat
  proof (rule nth_equalityI)
    show "length (fold grow_shared (concat ?rows) ?h) = length (map (\<lambda>g. replicate (group_window (concat ?rows) (int g)) (-1::int)) [0..<shared_group_count ?rows])"
      by (simp add: fold_frame [where f = length] grow_shared_def Let_def)
  next
    fix g assume "g < length (fold grow_shared (concat ?rows) ?h)"
    then have g: "g < length ?h" by (simp add: fold_frame [where f = length] grow_shared_def Let_def)
    then have "fold grow_shared (concat ?rows) ?h ! g = replicate (group_window (concat ?rows) (int g)) (-1)"
      using fold_grow_shared [OF g _ gb, of 0] unfolding group_window_def by simp
    with g show "fold grow_shared (concat ?rows) ?h ! g =
        map (\<lambda>g. replicate (group_window (concat ?rows) (int g)) (-1)) [0..<shared_group_count ?rows] ! g"
      by simp
  qed
  then show ?thesis
    by (simp add: node_inv_def init_node_data_def cmd_hist_def group_hist_def comp_def)
qed

lemma past_of_frame [simp]: "past_of p t (target_cons q u d) = past_of p t d"
  by (simp add: past_of_def)

lemma bump_ready_le:
  "c < length (m_cmd_ready_clk d) \<Longrightarrow> k < length (m_cmd_ready_clk d) \<Longrightarrow>
   m_cmd_ready_clk (bump_ready k v d) ! c \<le> x \<longleftrightarrow> m_cmd_ready_clk d ! c \<le> x \<and> (k = c \<longrightarrow> v \<le> x)"
  by (auto simp: bump_ready_def nth_list_update)

lemma fold_target_ready:
  assumes "c < length (m_cmd_ready_clk d)" "\<forall>t \<in> set ts. tc_cmd t < length (m_cmd_ready_clk d)"
  shows "m_cmd_ready_clk (fold (target_cons p) ts d) ! c \<le> x \<longleftrightarrow>
    m_cmd_ready_clk d ! c \<le> x \<and>
    (\<forall>t \<in> set ts. \<not> tc_sibling t \<and> tc_cmd t = c \<and> 0 \<le> past_of p t d \<longrightarrow> past_of p t d + tc_val t \<le> x)"
  using assms
proof (induction ts arbitrary: d)
  case (Cons t ts)
  have "m_cmd_ready_clk (target_cons p t d) ! c \<le> x \<longleftrightarrow> m_cmd_ready_clk d ! c \<le> x \<and>
      (\<not> tc_sibling t \<and> tc_cmd t = c \<and> 0 \<le> past_of p t d \<longrightarrow> past_of p t d + tc_val t \<le> x)"
    using Cons.prems by (auto simp: target_cons_def Let_def bump_ready_le)
  with Cons.IH [of "target_cons p t d"] Cons.prems show ?case by auto
qed simp

lemma fold_sibling_ready:
  assumes "c < length (m_cmd_ready_clk d)" "\<forall>t \<in> set ts. tc_cmd t < length (m_cmd_ready_clk d)"
  shows "m_cmd_ready_clk (fold (sibling_cons clk) ts d) ! c \<le> x \<longleftrightarrow>
    m_cmd_ready_clk d ! c \<le> x \<and> (\<forall>t \<in> set ts. tc_sibling t \<and> tc_cmd t = c \<longrightarrow> clk + tc_val t \<le> x)"
  using assms
proof (induction ts arbitrary: d)
  case (Cons t ts)
  have "m_cmd_ready_clk (sibling_cons clk t d) ! c \<le> x \<longleftrightarrow> m_cmd_ready_clk d ! c \<le> x \<and>
      (tc_sibling t \<and> tc_cmd t = c \<longrightarrow> clk + tc_val t \<le> x)"
    using Cons.prems by (auto simp: sibling_cons_def bump_ready_le)
  with Cons.IH [of "sibling_cons clk t d"] Cons.prems show ?case by auto
qed simp

subsection \<open>Preservation\<close>

lemma hist_snoc_other [simp]:
  "t \<noteq> Target \<Longrightarrow> cmd_hist (vs @ [(t, p, clk)]) q = cmd_hist vs q"
  "t \<noteq> Target \<Longrightarrow> group_hist sp l (vs @ [(t, p, clk)]) g = group_hist sp l vs g"
  by simp_all

lemma node_inv_sibling:
  assumes "node_inv sp l vs d" "cons_ok sp" "l < level_count sp" "p < command_count sp"
  shows "node_inv sp l (vs @ [(Sibling, p, clk)]) (update_sibling sp p clk d)"
proof -
  have tc: "\<forall>t \<in> set (timing_cons sp ! l ! p). tc_cmd t < length (m_cmd_ready_clk d)"
    using assms by (auto simp: cons_ok_def node_inv_def)
  have "m_cmd_ready_clk (update_sibling sp p clk d) ! c \<le> x \<longleftrightarrow>
      -1 \<le> x \<and> (\<forall>ob \<in> obligations sp l (vs @ [(Sibling, p, clk)]) c. ob \<le> x)"
    if "c < command_count sp" for c x
    using that assms(1) fold_sibling_ready [OF _ tc, of c clk x]
    by (auto simp: update_sibling_def obligations_snoc node_inv_def)
  with assms(1) show ?thesis by (simp add: node_inv_def)
qed

lemma push_cmd_history_inv:
  assumes "node_inv sp l vs d" "p < command_count sp"
  shows "m_cmd_history (push_cmd_history p clk d) =
    map (\<lambda>q. window_hist (cmd_window (timing_cons sp ! l ! q)) (cmd_hist (vs @ [(Target, p, clk)]) q)) [0..<command_count sp]"
  (is "_ = map ?w _")
proof (rule nth_equalityI)
  show "length (m_cmd_history (push_cmd_history p clk d)) = length (map ?w [0..<command_count sp])"
    using assms(1) by (simp add: push_cmd_history_def node_inv_def)
next
  fix q assume "q < length (m_cmd_history (push_cmd_history p clk d))"
  then have "q < command_count sp" using assms(1) by (simp add: push_cmd_history_def node_inv_def split: if_splits)
  then show "m_cmd_history (push_cmd_history p clk d) ! q = map ?w [0..<command_count sp] ! q"
    using assms by (auto simp: push_cmd_history_def node_inv_def nth_list_update window_hist_push)
qed

lemma in_group_bound: "in_group sp l g p \<Longrightarrow> p < command_count sp \<Longrightarrow> g < int (shared_group_count (level_rows sp l))"
  using group_count_bound [of _ "timing_cons sp ! l ! p" "level_rows sp l"] by (auto simp: in_group_def)

lemma in_group_window:
  assumes "in_group sp l g p" "p < command_count sp" "l < level_count sp" "cons_ok sp"
  shows "0 < group_window (concat (level_rows sp l)) g"
proof -
  from assms(1) obtain t where t: "t \<in> set (timing_cons sp ! l ! p)" "tc_history_group t = g"
    by (auto simp: in_group_def)
  with assms have "0 < tc_window t" by (auto simp: cons_ok_def)
  moreover from t assms(2) have "t \<in> set (concat (level_rows sp l))" by auto
  ultimately show ?thesis using group_window_ge [of t "concat (level_rows sp l)"] t(2) by simp
qed

lemma push_shared_inv:
  assumes "node_inv sp l vs d" "cons_ok sp" "l < level_count sp" "p < command_count sp"
  shows "m_shared_window_history (push_shared sp p clk d) =
    map (\<lambda>g. window_hist (group_window (concat (level_rows sp l)) (int g)) (group_hist sp l (vs @ [(Target, p, clk)]) (int g)))
      [0..<shared_group_count (level_rows sp l)]"
  (is "_ = map ?w [0..<?G]")
proof -
  let ?h = "m_shared_window_history d" and ?ts = "timing_cons sp ! l ! p"
  let ?r = "m_shared_window_history (push_shared sp p clk d)"
  have len: "length ?h = ?G" and lv: "m_level d = l" using assms(1) by (simp_all add: node_inv_def)
  have gb: "\<forall>t \<in> set ?ts. tc_history_group t < int (length ?h)"
    using in_group_bound [of sp l _ p] assms(4) len by (auto simp: in_group_def)
  have r: "?r ! g = (if in_group sp l (int g) p then (clk + command_cycles sp ! p - 1) # butlast (?h ! g) else ?h ! g)
      \<and> length ?r = ?G" if "g < ?G" for g
    using fold_push_shared [OF gb, of "replicate ?G False" g] that len lv
    by (simp add: push_shared_def in_group_def)
  have lr: "length ?r = ?G"
  proof (cases "?G = 0")
    case True
    have "length (snd (fold (push_shared_step v) ts u)) = length (snd u)" for v ts u
      by (rule fold_frame) (simp add: push_shared_step_def Let_def)
    with len show ?thesis by (simp add: push_shared_def)
  qed (use r in blast)
  show ?thesis
  proof (rule nth_equalityI)
    show "length ?r = length (map ?w [0..<?G])" using lr by simp
  next
    fix g assume "g < length ?r"
    with lr have g: "g < ?G" by simp
    have hg: "?h ! g = window_hist (group_window (concat (level_rows sp l)) (int g)) (group_hist sp l vs (int g))"
      using assms(1) g by (simp add: node_inv_def)
    show "?r ! g = map ?w [0..<?G] ! g"
      using r [OF g] g hg in_group_window [OF _ assms(4,3,2), of "int g"]
      by (simp add: window_hist_push)
  qed
qed

lemma node_inv_target:
  assumes "node_inv sp l vs d" "cons_ok sp" "l < level_count sp" "p < command_count sp"
  shows "node_inv sp l (vs @ [(Target, p, clk)]) (update_target sp p clk d)"
proof -
  let ?ws = "vs @ [(Target, p, clk)]" and ?ts = "timing_cons sp ! l ! p"
  let ?d1 = "push_shared sp p clk (push_cmd_history p clk d)"
  have lv: "m_level d = l" and rc: "length (m_cmd_ready_clk ?d1) = command_count sp"
    using assms(1) by (simp_all add: node_inv_def)
  have ch: "m_cmd_history ?d1 =
      map (\<lambda>q. window_hist (cmd_window (timing_cons sp ! l ! q)) (cmd_hist ?ws q)) [0..<command_count sp]"
    using push_cmd_history_inv [OF assms(1,4)] by simp
  have sh: "m_shared_window_history ?d1 =
      map (\<lambda>g. window_hist (group_window (concat (level_rows sp l)) (int g)) (group_hist sp l ?ws (int g)))
        [0..<shared_group_count (level_rows sp l)]"
    using push_shared_inv [OF assms] by (simp add: push_shared_def)
  have tc: "\<forall>t \<in> set ?ts. tc_cmd t < length (m_cmd_ready_clk ?d1)"
    using assms rc by (auto simp: cons_ok_def)
  have past: "past_of p t ?d1 = (if tc_window t \<le> length (hist_for sp l t p ?ws)
      then hist_for sp l t p ?ws ! (tc_window t - 1) else -1)" if t: "t \<in> set ?ts" for t
  proof (cases "tc_history_group t \<ge> 0")
    case True
    let ?g = "nat (tc_history_group t)"
    have "in_group sp l (tc_history_group t) p" using t by (auto simp: in_group_def)
    from in_group_bound [OF this assms(4)] True have "?g < shared_group_count (level_rows sp l)" by linarith
    moreover have "tc_window t \<le> group_window (concat (level_rows sp l)) (tc_history_group t)"
      using t assms(4) by (intro group_window_ge) auto
    moreover have "0 < tc_window t" using assms t by (auto simp: cons_ok_def)
    ultimately show ?thesis
      using True by (simp add: past_of_def hist_for_def sh window_hist_nth del: group_hist_snoc)
  next
    case False
    have "tc_window t \<le> cmd_window ?ts" using t by (rule cmd_window_ge)
    moreover have "0 < tc_window t" using assms t by (auto simp: cons_ok_def)
    ultimately show ?thesis
      using False assms(4) by (simp add: past_of_def hist_for_def ch window_hist_nth del: cmd_hist_snoc push_frame)
  qed
  have "m_cmd_ready_clk (update_target sp p clk d) ! c \<le> x \<longleftrightarrow>
      -1 \<le> x \<and> (\<forall>ob \<in> obligations sp l ?ws c. ob \<le> x)" if c: "c < command_count sp" for c x
  proof -
    have "m_cmd_ready_clk (update_target sp p clk d) ! c \<le> x \<longleftrightarrow> m_cmd_ready_clk d ! c \<le> x \<and>
        (\<forall>t \<in> set ?ts. \<not> tc_sibling t \<and> tc_cmd t = c \<and> 0 \<le> past_of p t ?d1 \<longrightarrow> past_of p t ?d1 + tc_val t \<le> x)"
      unfolding update_target_def Let_def lv using fold_target_ready [OF _ tc, of c p x] c rc by simp
    also have "\<dots> \<longleftrightarrow> m_cmd_ready_clk d ! c \<le> x \<and> (\<forall>ob \<in> raised sp l ?ws (Target, p, clk) c. ob \<le> x)"
      using past by (fastforce split: if_splits)
    finally show ?thesis
      using assms(1) c by (auto simp: obligations_snoc node_inv_def simp del: raised.simps)
  qed
  moreover have "m_cmd_history (update_target sp p clk d) = m_cmd_history ?d1"
    "m_shared_window_history (update_target sp p clk d) = m_shared_window_history ?d1"
    unfolding update_target_def Let_def by (rule fold_frame, simp only: target_cons_frame)+
  ultimately show ?thesis
    using assms(1) ch sh by (simp add: node_inv_def del: cmd_hist_snoc group_hist_snoc push_frame)
qed

lemma node_inv_step:
  assumes "node_inv sp l vs d" "cons_ok sp" "l < level_count sp" "fst (snd v) < command_count sp"
  shows "node_inv sp l (vs @ [v]) (node_step sp v d)"
proof (cases v rule: prod_cases3)
  case (fields t p clk)
  show ?thesis
  proof (cases t)
    case Target
    with fields assms node_inv_target show ?thesis by simp
  next
    case Sibling
    with fields assms node_inv_sibling show ?thesis by simp
  next
    case Untouched
    with fields assms(1) show ?thesis
      by (simp add: node_inv_def obligations_snoc)
  qed
qed

lemma node_inv_run:
  assumes "cons_ok sp" "l < level_count sp" "\<forall>v \<in> set vs. fst (snd v) < command_count sp"
  shows "node_inv sp l vs (fold (node_step sp) vs (init_node_data sp l nid))"
  using assms(3)
proof (induction vs rule: rev_induct)
  case Nil
  show ?case by (simp add: node_inv_init)
next
  case (snoc v vs)
  then show ?case using node_inv_step [OF _ assms(1,2)] by simp
qed

section \<open>The built tree\<close>

text \<open>The child positions that exist below a node of level \<open>l\<close>.\<close>

fun valid_path :: "DRAMSpec \<Rightarrow> nat \<Rightarrow> nat \<Rightarrow> nat list \<Rightarrow> bool" where
  "valid_path sp last_level l [] \<longleftrightarrow> True"
| "valid_path sp last_level l (i # p) \<longleftrightarrow>
     Suc l < last_level \<and> i < nat (level_sizes (organization sp) ! Suc l) \<and> valid_path sp last_level (Suc l) p"

fun last_id :: "int \<Rightarrow> nat list \<Rightarrow> int" where
  "last_id nid [] = nid"
| "last_id nid (i # p) = last_id (int i) p"

lemma build_node_root [simp]: "node_data (build_node sp last_level l nid) = init_node_data sp l nid"
  by (subst build_node.simps) (simp add: Let_def)

lemma build_node_children:
  "m_child_nodes (build_node sp last_level l nid) =
     (if Suc l < last_level
      then map (\<lambda>i. build_node sp last_level (Suc l) (int i)) [0..<nat (level_sizes (organization sp) ! Suc l)]
      else [])"
  by (subst build_node.simps) (simp add: Let_def)

lemma node_at_Cons:
  "node_at n (i # p) = (if i < length (m_child_nodes n) then node_at (m_child_nodes n ! i) p else None)"
  by (cases n) simp

lemma node_at_Nil [simp]: "node_at n [] = Some (node_data n)"
  by (cases n) simp

lemma node_at_build:
  "node_at (build_node sp last_level l nid) p =
     (if valid_path sp last_level l p then Some (init_node_data sp (l + length p) (last_id nid p)) else None)"
proof (induction p arbitrary: l nid)
  case (Cons i p)
  then show ?case by (simp add: node_at_Cons build_node_children)
qed simp

lemma wf_tree_build:
  "l < last_level \<Longrightarrow> last_level \<le> level_count sp \<Longrightarrow> wf_tree sp l (build_node sp last_level l nid)"
proof (induction "last_level - l" arbitrary: l nid)
  case (Suc k)
  have init: "m_level (init_node_data sp l nid) = l" "m_node_id (init_node_data sp l nid) = nid"
    "length (m_cmd_ready_clk (init_node_data sp l nid)) = command_count sp" for l nid
    by (simp_all add: init_node_data_def Let_def)
  let ?n = "build_node sp last_level l nid"
  have eq: "?n = Node (init_node_data sp l nid) (m_child_nodes ?n)"
    using build_node_root [of sp last_level l nid] DRAMNode.collapse [of ?n] by simp
  have "list_all (wf_tree sp (Suc l)) (m_child_nodes ?n)"
    using Suc by (auto simp: build_node_children list_all_iff)
  then show ?case
    using Suc.prems by (subst eq) (auto simp: init build_node_children split: if_splits)
qed simp

lemma valid_path_level: "valid_path sp last_level l p \<Longrightarrow> l < last_level \<Longrightarrow> l + length p < last_level"
  by (induction p arbitrary: l) fastforce+

section \<open>What \<open>check_timing\<close> and \<open>earliest_ready\<close> visit\<close>

fun on_path :: "nat \<Rightarrow> AddrVec_t \<Rightarrow> nat list \<Rightarrow> bool" where
  "on_path l av [] \<longleftrightarrow> True"
| "on_path l av (i # p) \<longleftrightarrow> (av ! Suc l = -1 \<or> av ! Suc l = int i) \<and> on_path (Suc l) av p"

lemma all_paths_node:
  "(\<forall>p d'. node_at (Node d cs) p = Some d' \<and> on_path l av p \<longrightarrow> Q d') \<longleftrightarrow>
   Q d \<and> (\<forall>i < length cs. av ! Suc l = -1 \<or> av ! Suc l = int i \<longrightarrow>
     (\<forall>p d'. node_at (cs ! i) p = Some d' \<and> on_path (Suc l) av p \<longrightarrow> Q d'))"
  (is "?all \<longleftrightarrow> ?split")
proof
  assume a: ?all
  have "Q d'" if "i < length cs" "av ! Suc l = -1 \<or> av ! Suc l = int i"
    "node_at (cs ! i) p = Some d'" "on_path (Suc l) av p" for i p d'
    using a [rule_format, of "i # p" d'] that by simp
  with a [rule_format, of "[]" d] show ?split by auto
next
  assume s: ?split
  have "Q d'" if "node_at (Node d cs) p = Some d'" "on_path l av p" for p d'
    using that s by (cases p) (auto split: if_splits)
  then show ?all by blast
qed

lemma check_timing_paths:
  "wf_tree sp l n \<Longrightarrow> check_timing c av clk n \<longleftrightarrow>
     (\<forall>p d. node_at n p = Some d \<and> on_path l av p \<longrightarrow> m_cmd_ready_clk d ! c = -1 \<or> m_cmd_ready_clk d ! c \<le> clk)"
proof (induction n arbitrary: l)
  case (Node d cs)
  let ?P = "\<lambda>l n. \<forall>p d. node_at n p = Some d \<and> on_path l av p \<longrightarrow> m_cmd_ready_clk d ! c = -1 \<or> m_cmd_ready_clk d ! c \<le> clk"
  have IH: "check_timing c av clk (cs ! i) \<longleftrightarrow> ?P (Suc l) (cs ! i)" if "i < length cs" for i
    using Node.IH [OF nth_mem [OF that], of "Suc l"] Node.prems that by (simp add: list_all_length)
  have sel: "(\<forall>i < length cs. av ! Suc l = -1 \<or> av ! Suc l = int i \<longrightarrow> ?P (Suc l) (cs ! i)) \<longleftrightarrow>
      (\<forall>i < length cs. av ! Suc l = -1 \<or> av ! Suc l = int i \<longrightarrow> check_timing c av clk (cs ! i))"
    using IH by blast
  from Node.prems have "m_level d = l" by simp
  then show ?case
    unfolding all_paths_node sel by (auto simp: Let_def list_all_length)
qed

lemma fold_max_le_iff: "fold (\<lambda>y r. max r (f y)) ys (r::int) \<le> x \<longleftrightarrow> r \<le> x \<and> (\<forall>y \<in> set ys. f y \<le> x)"
  by (induction ys arbitrary: r) auto

lemma earliest_ready_paths:
  "wf_tree sp l n \<Longrightarrow> earliest_ready c av n \<le> x \<longleftrightarrow>
     (\<forall>p d. node_at n p = Some d \<and> on_path l av p \<longrightarrow> m_cmd_ready_clk d ! c \<le> x)"
proof (induction n arbitrary: l)
  case (Node d cs)
  let ?P = "\<lambda>l n. \<forall>p d. node_at n p = Some d \<and> on_path l av p \<longrightarrow> m_cmd_ready_clk d ! c \<le> x"
  have IH: "earliest_ready c av (cs ! i) \<le> x \<longleftrightarrow> ?P (Suc l) (cs ! i)" if "i < length cs" for i
    using Node.IH [OF nth_mem [OF that], of "Suc l"] Node.prems that by (simp add: list_all_length)
  have sel: "(\<forall>i < length cs. av ! Suc l = -1 \<or> av ! Suc l = int i \<longrightarrow> ?P (Suc l) (cs ! i)) \<longleftrightarrow>
      (\<forall>i < length cs. av ! Suc l = -1 \<or> av ! Suc l = int i \<longrightarrow> earliest_ready c av (cs ! i) \<le> x)"
    using IH by blast
  from Node.prems have "m_level d = l" by simp
  then show ?case
    unfolding all_paths_node sel by (auto simp: Let_def fold_max_le_iff all_set_conv_all_nth)
qed

section \<open>Timing after a run\<close>

definition spec_ok :: "DRAMSpec \<Rightarrow> nat \<Rightarrow> bool" where
  "spec_ok sp last_level \<longleftrightarrow> flags_ok sp \<and> cons_ok sp \<and> 0 < last_level \<and> last_level \<le> level_count sp"

lemma node_at_built_run:
  assumes "spec_ok sp last_level" "\<forall>e \<in> set es. fst e < command_count sp"
  shows "node_at (run_cmds sp es (build_node sp last_level 0 nid)) p =
    (if valid_path sp last_level 0 p
     then Some (fold (node_step sp) (view nid p es) (init_node_data sp (length p) (last_id nid p))) else None)"
proof -
  have "wf_tree sp 0 (build_node sp last_level 0 nid)"
    using assms(1) by (auto simp: spec_ok_def intro: wf_tree_build)
  moreover have "m_node_id (init_node_data sp 0 nid) = nid" by (simp add: init_node_data_def Let_def)
  ultimately show ?thesis
    using node_at_run [of sp "build_node sp last_level 0 nid" es p] assms
    by (simp add: spec_ok_def node_at_build)
qed

lemma run_ready_iff:
  assumes ok: "spec_ok sp last_level" and es: "\<forall>e \<in> set es. fst e < command_count sp"
    and c: "c < command_count sp" and v: "node_at (run_cmds sp es (build_node sp last_level 0 nid)) p = Some d"
  shows "valid_path sp last_level 0 p" and
    "m_cmd_ready_clk d ! c \<le> x \<longleftrightarrow> -1 \<le> x \<and> (\<forall>ob \<in> obligations sp (length p) (view nid p es) c. ob \<le> x)"
proof -
  show p: "valid_path sp last_level 0 p" using v node_at_built_run [OF ok es] by (auto split: if_splits)
  have "length p < level_count sp" using valid_path_level [OF p] ok by (auto simp: spec_ok_def)
  moreover have "\<forall>w \<in> set (view nid p es). fst (snd w) < command_count sp" using es by (auto simp: view_def)
  ultimately have "node_inv sp (length p) (view nid p es) d"
    using node_inv_run [of sp "length p" "view nid p es" "last_id nid p"] ok v node_at_built_run [OF ok es] p
    by (simp add: spec_ok_def)
  with c show "m_cmd_ready_clk d ! c \<le> x \<longleftrightarrow> -1 \<le> x \<and> (\<forall>ob \<in> obligations sp (length p) (view nid p es) c. ob \<le> x)"
    by (simp add: node_inv_def)
qed

lemma wf_tree_built_run:
  assumes "spec_ok sp last_level" "\<forall>e \<in> set es. fst e < command_count sp"
  shows "wf_tree sp 0 (run_cmds sp es (build_node sp last_level 0 nid))"
  using assms wf_tree_run [of sp "build_node sp last_level 0 nid" es] wf_tree_build
  by (auto simp: spec_ok_def)

lemma check_timing_run:
  assumes ok: "spec_ok sp last_level" and es: "\<forall>e \<in> set es. fst e < command_count sp"
    and c: "c < command_count sp" and clk: "0 \<le> clk"
  shows "check_timing c av clk (run_cmds sp es (build_node sp last_level 0 nid)) \<longleftrightarrow>
    (\<forall>p. valid_path sp last_level 0 p \<and> on_path 0 av p \<longrightarrow>
       (\<forall>ob \<in> obligations sp (length p) (view nid p es) c. ob \<le> clk))"
proof -
  let ?n = "run_cmds sp es (build_node sp last_level 0 nid)"
  have low: "-1 \<le> m_cmd_ready_clk d ! c" if "node_at ?n p = Some d" for p d
    using run_ready_iff(2) [OF ok es c that, of "m_cmd_ready_clk d ! c"] by simp
  have ready: "(m_cmd_ready_clk d ! c = -1 \<or> m_cmd_ready_clk d ! c \<le> clk) \<longleftrightarrow>
      (\<forall>ob \<in> obligations sp (length p) (view nid p es) c. ob \<le> clk)" if "node_at ?n p = Some d" for p d
    using run_ready_iff(2) [OF ok es c that, of clk] low [OF that] clk by auto
  have ex: "(\<exists>d. node_at ?n p = Some d) \<longleftrightarrow> valid_path sp last_level 0 p" for p
    by (simp add: node_at_built_run [OF ok es])
  show ?thesis
    unfolding check_timing_paths [OF wf_tree_built_run [OF ok es]] using ready ex by blast
qed

lemma check_timing_earliest_run:
  assumes ok: "spec_ok sp last_level" and es: "\<forall>e \<in> set es. fst e < command_count sp"
    and c: "c < command_count sp" and clk: "0 \<le> clk"
  shows "check_timing c av clk (run_cmds sp es (build_node sp last_level 0 nid)) \<longleftrightarrow>
    earliest_ready c av (run_cmds sp es (build_node sp last_level 0 nid)) \<le> clk"
proof -
  let ?n = "run_cmds sp es (build_node sp last_level 0 nid)"
  have low: "-1 \<le> m_cmd_ready_clk d ! c" if "node_at ?n p = Some d" for p d
    using run_ready_iff(2) [OF ok es c that, of "m_cmd_ready_clk d ! c"] by simp
  have wf: "wf_tree sp 0 ?n" by (rule wf_tree_built_run [OF ok es])
  show ?thesis
    unfolding check_timing_paths [OF wf] earliest_ready_paths [OF wf] using low clk by force
qed

end
