(* ===== verification/Dram_Device.thy ===== *)
theory Dram_Device
  imports Node_Timing
begin

text \<open>
  \<^verbatim>\<open>ramulator/dram/device.h\<close> and \<^verbatim>\<open>device.cpp\<close>: the device owns the specification, the
  timing tree and the flat array of banks. A bank pointer is the path of the bank in the
  tree. Timing questions walk the tree, state questions go to the target banks of the
  command.

  The lemmas show that the flat bank id is the position of the addressed bank in the
  array, that issuing commands resolved by \<open>get_preq_command\<close> keeps every bank in a legal
  state, and what it means that a command is its own prerequisite.
\<close>

section \<open>The device\<close>

record DRAMDevice =
  m_spec :: DRAMSpec
  m_root :: DRAMNode
  m_bank_nodes :: "nat list list"
  m_bank_level :: nat

definition device_init :: "DRAMSpec \<Rightarrow> DRAMDevice result" where
  "device_init spec =
     bindR (get_level_id spec ''Bank'') (\<lambda>bank_level.
     bindR (get_level_id spec ''Row'') (\<lambda>last_level.
       let root = build_node spec last_level 0 0 in
       Inr \<lparr>m_spec = spec, m_root = root, m_bank_nodes = paths_at_level bank_level root,
            m_bank_level = bank_level\<rparr>))"

definition device_set_channel_id :: "int \<Rightarrow> DRAMDevice \<Rightarrow> DRAMDevice" where
  "device_set_channel_id channel_id dev =
     dev\<lparr>m_root := modify_at [] (\<lambda>d. d\<lparr>m_node_id := channel_id\<rparr>) (m_root dev)\<rparr>"

text \<open>The machine \<^verbatim>\<open>int\<close> of the code does not overflow for a number of banks below \<open>2 ^ 31\<close>.\<close>

definition get_flat_bank_id :: "DRAMDevice \<Rightarrow> AddrVec_t \<Rightarrow> int" where
  "get_flat_bank_id dev addr_vec =
     fold (\<lambda>lvl id. id * level_sizes (organization (m_spec dev)) ! lvl + addr_vec ! lvl)
       [1..<Suc (m_bank_level dev)] 0"

definition bank_matches :: "DRAMDevice \<Rightarrow> nat list \<Rightarrow> AddrVec_t \<Rightarrow> bool" where
  "bank_matches dev bank addr_vec \<longleftrightarrow>
     list_all (\<lambda>n. \<not> (addr_vec ! m_level n \<noteq> -1 \<and> addr_vec ! m_level n \<noteq> m_node_id n))
       (chain_to (m_root dev) bank)"

text \<open>
  \<^verbatim>\<open>m_bank_nodes[flat_bank_id]\<close> and what it points to; \<open>None\<close> where the index is out of
  range, which is undefined behaviour in C++.
\<close>

definition bank_at :: "DRAMDevice \<Rightarrow> int \<Rightarrow> NodeData option" where
  "bank_at dev i =
     (if 0 \<le> i \<and> nat i < length (m_bank_nodes dev) then node_at (m_root dev) (m_bank_nodes dev ! nat i) else None)"

text \<open>
  The bank ids that \<^verbatim>\<open>for_each_target_bank_while\<close> hands to its visitor, in order.
\<close>

definition get_target_banks :: "DRAMDevice \<Rightarrow> nat \<Rightarrow> AddrVec_t \<Rightarrow> int list" where
  "get_target_banks dev command addr_vec =
     (case bank_targets (m_spec dev) ! command of
        BT_Single \<Rightarrow> [get_flat_bank_id dev addr_vec]
      | BT_All \<Rightarrow>
          map int (filter (\<lambda>i. bank_matches dev (m_bank_nodes dev ! i) addr_vec) [0..<length (m_bank_nodes dev)])
      | BT_SameBank \<Rightarrow>
          let target_bank_id = addr_vec ! m_bank_level dev in
          map int (filter (\<lambda>i. (case node_at (m_root dev) (m_bank_nodes dev ! i) of
                                   None \<Rightarrow> False | Some b \<Rightarrow> m_node_id b = target_bank_id) \<and>
                               bank_matches dev (m_bank_nodes dev ! i) addr_vec)
                    [0..<length (m_bank_nodes dev)]))"

text \<open>The visitor of \<^verbatim>\<open>get_preq_command\<close>: stop at the first bank that needs another command.\<close>

fun first_preq :: "(int \<Rightarrow> nat result) \<Rightarrow> nat \<Rightarrow> int list \<Rightarrow> nat result" where
  "first_preq f command [] = Inr command"
| "first_preq f command (i # is) =
     bindR (f i) (\<lambda>preq. if preq \<noteq> command then Inr preq else first_preq f command is)"

definition get_preq_command :: "DRAMDevice \<Rightarrow> nat \<Rightarrow> AddrVec_t \<Rightarrow> Clk_t \<Rightarrow> nat result" where
  "get_preq_command dev command addr_vec clk =
     (case preqs (funcs (m_spec dev)) ! command of
        None \<Rightarrow> Inr command
      | Some preq_fn \<Rightarrow>
          first_preq (\<lambda>i. case bank_at dev i of None \<Rightarrow> Inr command | Some b \<Rightarrow> preq_fn b command addr_vec clk)
            command (get_target_banks dev command addr_vec))"

definition check_rowbuffer_hit :: "DRAMDevice \<Rightarrow> nat \<Rightarrow> AddrVec_t \<Rightarrow> Clk_t \<Rightarrow> bool" where
  "check_rowbuffer_hit dev command addr_vec clk =
     (case rowhits (funcs (m_spec dev)) ! command of
        None \<Rightarrow> False
      | Some rowhit_fn \<Rightarrow>
          (case bank_at dev (get_flat_bank_id dev addr_vec) of
             None \<Rightarrow> False | Some b \<Rightarrow> rowhit_fn b command addr_vec clk))"

definition check_node_open :: "DRAMDevice \<Rightarrow> nat \<Rightarrow> AddrVec_t \<Rightarrow> Clk_t \<Rightarrow> bool" where
  "check_node_open dev command addr_vec clk =
     (case rowopens (funcs (m_spec dev)) ! command of
        None \<Rightarrow> False
      | Some rowopen_fn \<Rightarrow>
          (case bank_at dev (get_flat_bank_id dev addr_vec) of
             None \<Rightarrow> False | Some b \<Rightarrow> rowopen_fn b command addr_vec clk))"

definition device_check_timing :: "DRAMDevice \<Rightarrow> nat \<Rightarrow> AddrVec_t \<Rightarrow> Clk_t \<Rightarrow> bool" where
  "device_check_timing dev command addr_vec clk = check_timing command addr_vec clk (m_root dev)"

definition device_earliest_ready :: "DRAMDevice \<Rightarrow> nat \<Rightarrow> AddrVec_t \<Rightarrow> Clk_t" where
  "device_earliest_ready dev command addr_vec = earliest_ready command addr_vec (m_root dev)"

definition act_on_bank :: "(NodeData \<Rightarrow> NodeData) \<Rightarrow> int \<Rightarrow> DRAMDevice \<Rightarrow> DRAMDevice" where
  "act_on_bank h i dev =
     (if 0 \<le> i \<and> nat i < length (m_bank_nodes dev)
      then dev\<lparr>m_root := modify_at (m_bank_nodes dev ! nat i) h (m_root dev)\<rparr> else dev)"

definition apply_action :: "nat \<Rightarrow> AddrVec_t \<Rightarrow> Clk_t \<Rightarrow> DRAMDevice \<Rightarrow> DRAMDevice" where
  "apply_action command addr_vec clk dev =
     (case actions (funcs (m_spec dev)) ! command of
        None \<Rightarrow> dev
      | Some action_fn \<Rightarrow>
          fold (act_on_bank (\<lambda>b. action_fn b command addr_vec clk)) (get_target_banks dev command addr_vec) dev)"

definition issue_command :: "nat \<Rightarrow> AddrVec_t \<Rightarrow> Clk_t \<Rightarrow> DRAMDevice \<Rightarrow> DRAMDevice" where
  "issue_command command addr_vec clk dev =
     apply_action command addr_vec clk
       (dev\<lparr>m_root := update_timing (m_spec dev) command addr_vec clk (m_root dev)\<rparr>)"

section \<open>Trees of the same shape\<close>

abbreviation node_key :: "NodeData \<Rightarrow> nat \<times> int" where
  "node_key d \<equiv> (m_level d, m_node_id d)"

abbreviation node_bank :: "NodeData \<Rightarrow> nat \<times> (int \<rightharpoonup> nat)" where
  "node_bank d \<equiv> (m_state d, m_row_state d)"

definition same_shape :: "DRAMNode \<Rightarrow> DRAMNode \<Rightarrow> bool" where
  "same_shape n n' \<longleftrightarrow> (\<forall>q. map_option node_key (node_at n q) = map_option node_key (node_at n' q))"

lemma same_shape_refl [simp]: "same_shape n n"
  by (simp add: same_shape_def)

lemma same_shape_trans [trans]: "same_shape n n' \<Longrightarrow> same_shape n' n'' \<Longrightarrow> same_shape n n''"
  by (simp add: same_shape_def)

lemma node_at_modify:
  "node_at (modify_at p f n) q = (if q = p then map_option f (node_at n p) else node_at n q)"
proof (induction p arbitrary: n q)
  case Nil
  then show ?case by (cases n; cases q) auto
next
  case (Cons i p)
  obtain d cs where n: "n = Node d cs" by (cases n)
  show ?case using Cons n by (cases q) (auto simp: nth_list_update)
qed

lemma same_shape_modify:
  "(\<And>d. node_key (f d) = node_key d) \<Longrightarrow> same_shape n (modify_at p f n)"
  by (simp add: same_shape_def node_at_modify option.map_comp comp_def)

lemma node_at_update_timing:
  "map_option (\<lambda>d. (node_key d, node_bank d)) (node_at (update_timing sp c av clk n) p) =
   map_option (\<lambda>d. (node_key d, node_bank d)) (node_at n p)"
proof (induction p arbitrary: n)
  case Nil
  then show ?case by (cases n) (auto simp: Let_def)
next
  case (Cons i p)
  obtain d cs where n: "n = Node d cs" by (cases n)
  show ?case using Cons n by (auto simp: Let_def nth_list_update)
qed

lemma same_shape_update_timing: "same_shape n (update_timing sp c av clk n)"
  unfolding same_shape_def
proof
  fix q
  show "map_option node_key (node_at n q) = map_option node_key (node_at (update_timing sp c av clk n) q)"
    using node_at_update_timing [of sp c av clk n q]
    by (cases "node_at n q"; cases "node_at (update_timing sp c av clk n) q") auto
qed

lemma same_shape_chain:
  "same_shape n n' \<Longrightarrow> map node_key (chain_to n p) = map node_key (chain_to n' p)"
proof (induction p arbitrary: n n')
  case Nil
  then show ?case unfolding same_shape_def
    by (cases n; cases n') (auto dest: spec [where x = "[]"])
next
  case (Cons i p)
  obtain d cs d' cs' where n: "n = Node d cs" "n' = Node d' cs'" by (cases n; cases n')
  have root: "node_key d = node_key d'" using Cons.prems n by (auto simp: same_shape_def dest: spec [where x = "[]"])
  have sub: "map_option node_key (if i < length cs then node_at (cs ! i) q else None) =
      map_option node_key (if i < length cs' then node_at (cs' ! i) q else None)" for q
    using Cons.prems n unfolding same_shape_def by (auto dest: spec [where x = "i # q"])
  have ii: "i < length cs \<longleftrightarrow> i < length cs'" using sub [of "[]"] by (auto split: if_splits)
  then have "i < length cs \<Longrightarrow> same_shape (cs ! i) (cs' ! i)"
    using sub by (simp add: same_shape_def)
  with Cons.IH ii root n show ?case by auto
qed

lemma bank_matches_chain:
  "bank_matches dev p av \<longleftrightarrow> list_all (\<lambda>(l, i). av ! l = -1 \<or> av ! l = i) (map node_key (chain_to (m_root dev) p))"
  by (auto simp: bank_matches_def list_all_iff)

lemma same_shape_matches:
  "same_shape (m_root dev) n \<Longrightarrow> bank_matches (dev\<lparr>m_root := n\<rparr>) p av \<longleftrightarrow> bank_matches dev p av"
  by (simp add: bank_matches_chain same_shape_chain [of "m_root dev" n])

lemma same_shape_targets:
  assumes "same_shape (m_root dev) n"
  shows "get_target_banks (dev\<lparr>m_root := n\<rparr>) c av = get_target_banks dev c av"
proof -
  have "(case node_at n p of None \<Rightarrow> False | Some b \<Rightarrow> m_node_id b = k) =
      (case node_at (m_root dev) p of None \<Rightarrow> False | Some b \<Rightarrow> m_node_id b = k)" for p k
    using assms unfolding same_shape_def by (auto split: option.splits dest: spec [where x = p])
  then show ?thesis
    by (simp add: get_target_banks_def same_shape_matches [OF assms] get_flat_bank_id_def cong: BankTarget.case_cong)
qed

section \<open>The tables of a constructed specification\<close>

definition tables_of :: "DRAMSpec \<Rightarrow> nat \<Rightarrow> CmdImpl" where
  "tables_of sp c =
     \<lparr>impl_meta = command_meta sp ! c, impl_bank_target = bank_targets sp ! c,
      impl_action = actions (funcs sp) ! c, impl_preq = preqs (funcs sp) ! c,
      impl_rowhit = rowhits (funcs sp) ! c, impl_rowopen = rowopens (funcs sp) ! c\<rparr>"

definition tables_sized :: "DRAMSpec \<Rightarrow> nat \<Rightarrow> bool" where
  "tables_sized sp n \<longleftrightarrow>
     length (command_meta sp) = n \<and> length (bank_targets sp) = n \<and> length (actions (funcs sp)) = n \<and>
     length (preqs (funcs sp)) = n \<and> length (rowhits (funcs sp)) = n \<and> length (rowopens (funcs sp)) = n"

definition no_handlers :: "DRAMSpec \<Rightarrow> nat \<Rightarrow> bool" where
  "no_handlers sp c \<longleftrightarrow>
     actions (funcs sp) ! c = None \<and> preqs (funcs sp) ! c = None \<and>
     rowhits (funcs sp) ! c = None \<and> rowopens (funcs sp) ! c = None"

lemma register_command_sized [simp]: "tables_sized (register_command k i sp) n \<longleftrightarrow> tables_sized sp n"
  by (auto simp: tables_sized_def register_command_def Let_def split: option.splits)

lemma register_command_same:
  "tables_sized sp n \<Longrightarrow> i < n \<Longrightarrow> no_handlers sp i \<Longrightarrow> tables_of (register_command k i sp) i = k"
  by (auto simp: tables_of_def tables_sized_def register_command_def no_handlers_def Let_def split: option.splits)

lemma register_command_other:
  "c \<noteq> i \<Longrightarrow> tables_of (register_command k i sp) c = tables_of sp c"
  "c \<noteq> i \<Longrightarrow> no_handlers (register_command k i sp) c \<longleftrightarrow> no_handlers sp c"
  by (auto simp: tables_of_def register_command_def no_handlers_def Let_def split: option.splits)

lemma register_all_other: "c < i \<Longrightarrow> tables_of (register_all ks i sp) c = tables_of sp c"
  by (induction ks arbitrary: i sp) (auto simp: register_command_other)

lemma register_all_sized [simp]: "tables_sized (register_all ks i sp) n \<longleftrightarrow> tables_sized sp n"
  by (induction ks arbitrary: i sp) auto

lemma register_all_nth:
  "tables_sized sp n \<Longrightarrow> i + length ks = n \<Longrightarrow> \<forall>c. i \<le> c \<and> c < n \<longrightarrow> no_handlers sp c \<Longrightarrow> j < length ks \<Longrightarrow>
   tables_of (register_all ks i sp) (i + j) = ks ! j"
proof (induction ks arbitrary: i sp j)
  case (Cons k ks)
  show ?case
  proof (cases j)
    case 0
    with Cons.prems show ?thesis by (simp add: register_all_other register_command_same)
  next
    case (Suc m)
    have "\<forall>c. Suc i \<le> c \<and> c < n \<longrightarrow> no_handlers (register_command k i sp) c"
      using Cons.prems(3) by (auto simp: register_command_other)
    with Cons.IH [of "register_command k i sp" "Suc i" m] Cons.prems Suc show ?thesis by simp
  qed
qed simp

lemma register_frame [simp]:
  "organization (register_all ks i sp) = organization sp" "timing_cons (register_all ks i sp) = timing_cons sp"
  "level_count (register_all ks i sp) = level_count sp" "command_count (register_all ks i sp) = command_count sp"
  "has_sibling_cons (register_all ks i sp) = has_sibling_cons sp" "levels (register_all ks i sp) = levels sp"
  "init_states (register_all ks i sp) = init_states sp" "commands (register_all ks i sp) = commands sp"
  "supported_requests (register_all ks i sp) = supported_requests sp"
  "command_cycles (register_all ks i sp) = command_cycles sp" "timings (register_all ks i sp) = timings sp"
  "timing_vals (register_all ks i sp) = timing_vals sp" "read_latency (register_all ks i sp) = read_latency sp"
  by (induction ks arbitrary: i sp) (simp_all add: register_command_def)

text \<open>
  \<open>of_standard s sp\<close>: what the rest of the library uses of a specification that the
  constructor of \<open>s\<close> returned.
\<close>

definition of_standard :: "dram_standard \<Rightarrow> DRAMSpec \<Rightarrow> bool" where
  "of_standard s sp \<longleftrightarrow>
     command_count sp = length (CommandImpls s) \<and> level_count sp = length (enum_Level s) \<and>
     levels sp = number_names 0 Map.empty (enum_Level s) \<and> commands sp = number_names 0 Map.empty (enum_Command s) \<and>
     init_states sp = map (enum_index (enum_State s)) (std_init_states s) \<and>
     supported_requests sp = map (enum_index (enum_Command s)) (std_supported_requests s) \<and>
     level_sizes (organization sp) ! 0 = 1 \<and> flags_ok sp \<and>
     (\<forall>c < length (CommandImpls s).
        impl_bank_target (kind_at s c) = bank_targets sp ! c \<and> impl_action (kind_at s c) = actions (funcs sp) ! c \<and>
        impl_preq (kind_at s c) = preqs (funcs sp) ! c \<and> impl_rowhit (kind_at s c) = rowhits (funcs sp) ! c \<and>
        impl_rowopen (kind_at s c) = rowopens (funcs sp) ! c \<and>
        is_opening (command_meta sp ! c) = is_opening (impl_meta (kind_at s c)) \<and>
        is_closing (command_meta sp ! c) = is_closing (impl_meta (kind_at s c)) \<and>
        is_accessing (command_meta sp ! c) = is_accessing (impl_meta (kind_at s c)) \<and>
        is_refreshing (command_meta sp ! c) = is_refreshing (impl_meta (kind_at s c)))"

lemma construct_spec_tables:
  assumes ok: "standard_ok s" and l: "load_config (static_spec s) cfg = Inr sp1"
  defines "pop \<equiv> populate_commands (map (\<lambda>k. impl_of k (env_of s)) (CommandImpls s)) sp1"
  shows "length (command_meta pop) = length (CommandImpls s)" "command_count sp1 = length (CommandImpls s)"
    "c < length (CommandImpls s) \<Longrightarrow> kind_at s c = tables_of pop c"
proof -
  let ?ks = "map (\<lambda>k. impl_of k (env_of s)) (CommandImpls s)"
  show n: "command_count sp1 = length (CommandImpls s)"
    using load_config_Inr(6) [OF l] standard_length [OF ok] by (simp add: static_spec_def)
  let ?sp0 = "sp1\<lparr>command_meta := replicate (command_count sp1) meta_none,
     bank_targets := replicate (command_count sp1) BT_Single, funcs := FuncArrays_resize (command_count sp1)\<rparr>"
  have sz: "tables_sized ?sp0 (length ?ks)" by (simp add: tables_sized_def FuncArrays_resize_def n)
  have "\<forall>c. 0 \<le> c \<and> c < length ?ks \<longrightarrow> no_handlers ?sp0 c" by (simp add: no_handlers_def FuncArrays_resize_def n)
  then show "c < length (CommandImpls s) \<Longrightarrow> kind_at s c = tables_of pop c"
    using register_all_nth [OF sz, of 0 "?ks" c] by (simp add: populate_commands_def kind_at_def pop_def)
  show "length (command_meta pop) = length (CommandImpls s)"
    using sz unfolding populate_commands_def pop_def by (metis register_all_sized tables_sized_def length_map)
qed

lemma construct_spec_of_standard:
  assumes ok: "standard_ok s" and con: "construct_spec s cfg = Inr sp"
  shows "of_standard s sp"
proof -
  let ?ks = "map (\<lambda>k. impl_of k (env_of s)) (CommandImpls s)"
  from con obtain sp1 where l: "load_config (static_spec s) cfg = Inr sp1"
    and sp: "sp = classify_bus s (populate_commands ?ks sp1)"
    by (auto simp: construct_spec_def bindR_eq_Inr_iff)
  note lc = load_config_Inr [OF l]
  from l have fr: "levels sp1 = levels (static_spec s)" "commands sp1 = commands (static_spec s)" "init_states sp1 = init_states (static_spec s)"
    "supported_requests sp1 = supported_requests (static_spec s)"
    unfolding load_config_def by (auto simp: bindR_eq_Inr_iff split: if_splits)
  note len = construct_spec_tables(1) [OF ok l] and n = construct_spec_tables(2) [OF ok l] and tab = construct_spec_tables(3) [OF ok l]
  have "impl_bank_target (kind_at s c) = bank_targets sp ! c \<and> impl_action (kind_at s c) = actions (funcs sp) ! c \<and>
      impl_preq (kind_at s c) = preqs (funcs sp) ! c \<and> impl_rowhit (kind_at s c) = rowhits (funcs sp) ! c \<and>
      impl_rowopen (kind_at s c) = rowopens (funcs sp) ! c \<and>
      is_opening (command_meta sp ! c) = is_opening (impl_meta (kind_at s c)) \<and>
      is_closing (command_meta sp ! c) = is_closing (impl_meta (kind_at s c)) \<and>
      is_accessing (command_meta sp ! c) = is_accessing (impl_meta (kind_at s c)) \<and>
      is_refreshing (command_meta sp ! c) = is_refreshing (impl_meta (kind_at s c))" if "c < length (CommandImpls s)" for c
    using that len by (simp add: tab sp classify_bus_def Let_def tables_of_def)
  moreover have "flags_ok sp"
    using lc(4-6) by (simp add: flags_ok_def sp classify_bus_def Let_def populate_commands_def)
  moreover have "names_ok s" using ok by (simp add: standard_ok_def)
  then have "std_level_names s = enum_Level s" "std_command_names s = enum_Command s" by (simp_all add: names_ok_def)
  ultimately show ?thesis
    unfolding of_standard_def using n lc(1,2,5) fr
    by (simp add: sp classify_bus_def Let_def populate_commands_def static_spec_def set_names_def)
qed

text \<open>Which bus a command travels on: its struct says so, or the constructor of the standard.\<close>

definition on_row_bus :: "dram_standard \<Rightarrow> nat \<Rightarrow> bool" where
  "on_row_bus s c \<longleftrightarrow>
     is_row_command (impl_meta (kind_at s c)) \<or> c \<in> set (map (enum_index (enum_Command s)) (std_row_commands s))"

definition on_column_bus :: "dram_standard \<Rightarrow> nat \<Rightarrow> bool" where
  "on_column_bus s c \<longleftrightarrow>
     is_column_command (impl_meta (kind_at s c)) \<or> c \<in> set (map (enum_index (enum_Command s)) (std_column_commands s))"

definition bus_classes :: "dram_standard \<Rightarrow> DRAMSpec \<Rightarrow> bool" where
  "bus_classes s sp \<longleftrightarrow>
     (\<forall>c < length (CommandImpls s). is_row_command (command_meta sp ! c) = on_row_bus s c \<and>
        is_column_command (command_meta sp ! c) = on_column_bus s c)"

lemma construct_spec_bus_classes:
  assumes ok: "standard_ok s" and con: "construct_spec s cfg = Inr sp"
  shows "bus_classes s sp"
proof -
  from con obtain sp1 where l: "load_config (static_spec s) cfg = Inr sp1"
    and sp: "sp = classify_bus s (populate_commands (map (\<lambda>k. impl_of k (env_of s)) (CommandImpls s)) sp1)"
    by (auto simp: construct_spec_def bindR_eq_Inr_iff)
  note len = construct_spec_tables(1) [OF ok l] and tab = construct_spec_tables(3) [OF ok l]
  show ?thesis
    using len by (simp add: bus_classes_def sp classify_bus_def Let_def tab tables_of_def on_row_bus_def on_column_bus_def)
qed

section \<open>Legal devices\<close>

text \<open>Every bank pointer leads to a bank in one of the legal states.\<close>

definition device_legal :: "dram_standard \<Rightarrow> DRAMDevice \<Rightarrow> bool" where
  "device_legal s dev \<longleftrightarrow> (\<forall>p \<in> set (m_bank_nodes dev). \<exists>b. node_at (m_root dev) p = Some b \<and> bank_legal s b)"

lemma bank_legal_cong: "m_state b = m_state b' \<Longrightarrow> m_row_state b = m_row_state b' \<Longrightarrow> bank_legal s b \<longleftrightarrow> bank_legal s b'"
  by (simp add: bank_legal_def)

lemma resolve_cong:
  assumes "m_state b = m_state b'" "m_row_state b = m_row_state b'"
  shows "resolve s fin b av clk = resolve s fin b' av clk"
proof (cases "fin < length (CommandImpls s)")
  case True
  show ?thesis using assms
    by (cases "CommandImpls s ! fin") (simp_all add: resolve_def kind_at_def cmd_defs handler_defs PREpb_preq_def)
next
  case False
  show ?thesis using assms
    by (cases "CommandImpls s ! fin") (simp_all add: resolve_def kind_at_def cmd_defs handler_defs PREpb_preq_def)
qed

lemma update_timing_bank:
  assumes "node_at n p = Some b"
  obtains b' where "node_at (update_timing sp c av clk n) p = Some b'"
    "node_key b' = node_key b" "node_bank b' = node_bank b"
  using node_at_update_timing [of sp c av clk n p] assms
  by (cases "node_at (update_timing sp c av clk n) p") auto

lemma handler_frame:
  "impl_action (kind_at s c) = Some h \<Longrightarrow> node_key (h b c' av clk) = node_key b"
  by (cases "CommandImpls s ! c") (auto simp: kind_at_def cmd_defs ACT_action_def ACT1_action_def ACT2_action_def PREpb_action_def)

text \<open>A fold of bank actions acts on each bank the list names, the others stay.\<close>

lemma act_on_bank_frame [simp]:
  "m_spec (act_on_bank h i dev) = m_spec dev" "m_bank_nodes (act_on_bank h i dev) = m_bank_nodes dev"
  "m_bank_level (act_on_bank h i dev) = m_bank_level dev"
  by (simp_all add: act_on_bank_def)

lemma fold_act_frame [simp]:
  "m_spec (fold (act_on_bank h) is dev) = m_spec dev" "m_bank_nodes (fold (act_on_bank h) is dev) = m_bank_nodes dev"
  "m_bank_level (fold (act_on_bank h) is dev) = m_bank_level dev"
  by (rule fold_frame, simp)+

lemma issue_command_frame [simp]:
  "m_spec (issue_command c av clk dev) = m_spec dev" "m_bank_nodes (issue_command c av clk dev) = m_bank_nodes dev"
  "m_bank_level (issue_command c av clk dev) = m_bank_level dev"
  by (simp_all add: issue_command_def apply_action_def split: option.splits)

lemma fold_act_shape:
  assumes "\<And>d. node_key (h d) = node_key d"
  shows "same_shape (m_root dev) (m_root (fold (act_on_bank h) is dev))"
proof (induction "is" arbitrary: dev)
  case (Cons i "is")
  have "same_shape (m_root dev) (m_root (act_on_bank h i dev))"
    using same_shape_modify [OF assms] by (simp add: act_on_bank_def)
  also have "same_shape (m_root (act_on_bank h i dev)) (m_root (fold (act_on_bank h) is (act_on_bank h i dev)))"
    by (rule Cons.IH)
  finally show ?case by simp
qed simp

lemma issue_command_shape:
  assumes "of_standard s (m_spec dev)" "c < length (CommandImpls s)"
  shows "same_shape (m_root dev) (m_root (issue_command c av clk dev))"
proof -
  let ?d1 = "dev\<lparr>m_root := update_timing (m_spec dev) c av clk (m_root dev)\<rparr>"
  have "same_shape (m_root dev) (m_root ?d1)" by (simp add: same_shape_update_timing)
  also have "same_shape (m_root ?d1) (m_root (apply_action c av clk ?d1))"
  proof (cases "actions (funcs (m_spec dev)) ! c")
    case (Some h)
    with assms have "impl_action (kind_at s c) = Some h" by (simp add: of_standard_def)
    with Some show ?thesis
      using fold_act_shape [of "\<lambda>b. h b c av clk" ?d1] handler_frame by (simp add: apply_action_def)
  qed (simp add: apply_action_def)
  finally show ?thesis by (simp add: issue_command_def)
qed

lemma act_on_bank_legal:
  assumes "device_legal s dev" "\<And>b. bank_at dev i = Some b \<Longrightarrow> bank_legal s b \<Longrightarrow> bank_legal s (h b)"
  shows "device_legal s (act_on_bank h i dev)"
proof (cases "0 \<le> i \<and> nat i < length (m_bank_nodes dev)")
  case True
  let ?p = "m_bank_nodes dev ! nat i"
  have "\<exists>b. node_at (modify_at ?p h (m_root dev)) p = Some b \<and> bank_legal s b" if p: "p \<in> set (m_bank_nodes dev)" for p
  proof -
    from assms(1) p obtain b where b: "node_at (m_root dev) p = Some b" "bank_legal s b"
      by (auto simp: device_legal_def)
    with assms(2) [of b] True show ?thesis by (cases "p = ?p") (auto simp: node_at_modify bank_at_def)
  qed
  with True show ?thesis by (simp add: device_legal_def act_on_bank_def)
next
  case False
  with assms(1) show ?thesis by (auto simp: act_on_bank_def)
qed

lemma fold_act_legal:
  assumes "\<And>b. bank_legal s b \<Longrightarrow> bank_legal s (h b)"
  shows "device_legal s dev \<Longrightarrow> device_legal s (fold (act_on_bank h) is dev)"
  by (induction "is" arbitrary: dev) (simp_all add: act_on_bank_legal assms)

text \<open>A resolved command acts on many banks only by closing them.\<close>

lemma resolve_targets:
  assumes ok: "standard_ok s" and fin: "final_ok s fin" and res: "resolve s fin b av clk = Inr c"
  shows "c < length (CommandImpls s)"
    "impl_action (kind_at s c) = None \<or> impl_action (kind_at s c) = Some (PREpb_action (env_of s)) \<or>
     (impl_bank_target (kind_at s fin) = BT_Single \<and> impl_bank_target (kind_at s c) = BT_Single)"
proof -
  have acc: "impl_bank_target (kind_at s fin) = BT_Single" if "is_access s fin"
    using that by (auto simp: is_access_def kind_at_def access_kinds_def cmd_defs)
  have idx: "kind_name k \<in> set (enum_Command s) \<Longrightarrow> enum_index (enum_Command s) (kind_name k) < length (CommandImpls s)" for k
    by (rule kind_of_name(2) [OF ok])
  note ids = idx [of K_ACT] idx [of K_ACT1] idx [of K_ACT2] idx [of K_PREpb] idx [of K_PREab] idx [of K_PREsb]
  have env: "T_ACT (env_of s) = enum_index (enum_Command s) ''ACT''" "T_ACT1 (env_of s) = enum_index (enum_Command s) ''ACT1''"
    "T_ACT2 (env_of s) = enum_index (enum_Command s) ''ACT2''" "T_PREpb (env_of s) = enum_index (enum_Command s) ''PREpb''"
    "T_PREab (env_of s) = enum_index (enum_Command s) ''PREab''" "T_PREsb (env_of s) = enum_index (enum_Command s) ''PREsb''"
    by (simp_all add: env_of_def Let_def)
  show "c < length (CommandImpls s)"
    using resolve_prerequisite [OF ok fin res] ids env fin by (auto simp: final_ok_def)
  show "impl_action (kind_at s c) = None \<or> impl_action (kind_at s c) = Some (PREpb_action (env_of s)) \<or>
     (impl_bank_target (kind_at s fin) = BT_Single \<and> impl_bank_target (kind_at s c) = BT_Single)"
  proof (cases "c = fin")
    case True
    then show ?thesis using final_action [OF fin] by auto
  next
    case False
    from resolve_prerequisite [OF ok fin res False] show ?thesis
      by (elim disjE conjE) (simp_all add: acc kind_at_env [OF ok], simp_all add: cmd_defs)
  qed
qed

lemma first_preq_cases:
  assumes "first_preq f c is = Inr r"
  shows "(r = c \<and> (\<forall>i \<in> set is. f i = Inr c)) \<or> (r \<noteq> c \<and> (\<exists>i \<in> set is. f i = Inr r))"
  using assms by (induction "is") (auto simp: bindR_eq_Inr_iff split: if_splits)

lemma first_preq_total: "\<forall>i \<in> set is. \<exists>r. f i = Inr r \<Longrightarrow> \<exists>r. first_preq f c is = Inr r"
  by (induction "is") auto

text \<open>The bank answers of a device of standard \<open>s\<close> are those of the bank protocol.\<close>

lemma get_preq_command_resolve:
  assumes "of_standard s (m_spec dev)" "fin < length (CommandImpls s)"
  shows "get_preq_command dev fin av clk =
    (if impl_preq (kind_at s fin) = None then Inr fin
     else first_preq (\<lambda>i. case bank_at dev i of None \<Rightarrow> Inr fin | Some b \<Rightarrow> resolve s fin b av clk) fin
       (get_target_banks dev fin av))"
proof -
  have "preqs (funcs (m_spec dev)) ! fin = impl_preq (kind_at s fin)"
    using assms by (simp add: of_standard_def)
  then show ?thesis by (cases "impl_preq (kind_at s fin)") (simp_all add: get_preq_command_def resolve_def cong: option.case_cong)
qed

lemma bank_at_legal: "device_legal s dev \<Longrightarrow> bank_at dev i = Some b \<Longrightarrow> bank_legal s b"
  by (auto simp: device_legal_def bank_at_def split: if_splits) (metis nth_mem option.inject)

lemma get_preq_command_total:
  assumes "standard_ok s" "of_standard s (m_spec dev)" "device_legal s dev" "final_ok s fin"
  shows "\<exists>c. get_preq_command dev fin av clk = Inr c"
proof -
  have len: "fin < length (CommandImpls s)" using assms(4) by (simp add: final_ok_def)
  have "\<exists>r. (case bank_at dev i of None \<Rightarrow> Inr fin | Some b \<Rightarrow> resolve s fin b av clk) = Inr r" for i
    using resolve_never_throws [OF assms(1,4)] bank_at_legal [OF assms(3)] by (cases "bank_at dev i") auto
  then show ?thesis
    unfolding get_preq_command_resolve [OF assms(2) len] using first_preq_total by auto
qed

text \<open>Where the answer of the device comes from: a bank of the targets asked for it.\<close>

lemma get_preq_command_source:
  assumes ok: "standard_ok s" and of: "of_standard s (m_spec dev)" and fin: "final_ok s fin"
    and res: "get_preq_command dev fin av clk = Inr c"
  shows "c = fin \<or> (\<exists>i \<in> set (get_target_banks dev fin av). \<exists>b. bank_at dev i = Some b \<and> resolve s fin b av clk = Inr c)"
proof -
  have len: "fin < length (CommandImpls s)" using fin by (simp add: final_ok_def)
  let ?f = "\<lambda>i. case bank_at dev i of None \<Rightarrow> Inr fin | Some b \<Rightarrow> resolve s fin b av clk"
  from res have "c = fin \<or> first_preq ?f fin (get_target_banks dev fin av) = Inr c"
    unfolding get_preq_command_resolve [OF of len]
    by (cases "impl_preq (kind_at s fin) = None") (simp_all only: if_True if_False simp_thms sum.inject)
  then consider "c = fin" | "first_preq ?f fin (get_target_banks dev fin av) = Inr c" by blast
  then show ?thesis
  proof cases
    case 2
    have src: "?f i = Inr c \<Longrightarrow> c \<noteq> fin \<Longrightarrow> \<exists>b. bank_at dev i = Some b \<and> resolve s fin b av clk = Inr c" for i
      by (cases "bank_at dev i") auto
    from first_preq_cases [OF 2] show ?thesis using src by blast
  qed simp
qed

lemma get_preq_command_less:
  assumes "standard_ok s" "of_standard s (m_spec dev)" "final_ok s fin" "get_preq_command dev fin av clk = Inr c"
  shows "c < length (CommandImpls s)"
  using get_preq_command_source [OF assms] resolve_targets(1) [OF assms(1,3)] assms(3)
  by (auto simp: final_ok_def)

text \<open>Issuing what \<open>get_preq_command\<close> returned keeps every bank legal.\<close>

lemma issue_resolved_legal:
  assumes ok: "standard_ok s" and of: "of_standard s (m_spec dev)" and leg: "device_legal s dev"
    and fin: "final_ok s fin" and res: "get_preq_command dev fin av clk = Inr c"
  shows "device_legal s (issue_command c av clk dev)"
proof -
  let ?d1 = "dev\<lparr>m_root := update_timing (m_spec dev) c av clk (m_root dev)\<rparr>"
  let ?act = "impl_action (kind_at s c)"
  note c = get_preq_command_less [OF ok of fin res]
  have tab: "actions (funcs (m_spec dev)) ! c = ?act" "bank_targets (m_spec dev) ! c = impl_bank_target (kind_at s c)"
    "bank_targets (m_spec dev) ! fin = impl_bank_target (kind_at s fin)"
    using of c fin by (simp_all add: of_standard_def final_ok_def)
  have leg1: "device_legal s ?d1"
    unfolding device_legal_def
  proof
    fix p assume "p \<in> set (m_bank_nodes ?d1)"
    with leg obtain b where b: "node_at (m_root dev) p = Some b" "bank_legal s b" by (auto simp: device_legal_def)
    from b(1) obtain b' where "node_at (m_root ?d1) p = Some b'" "node_bank b' = node_bank b"
      using update_timing_bank [of "m_root dev" p b "m_spec dev" c av clk] by auto
    with b(2) show "\<exists>b. node_at (m_root ?d1) p = Some b \<and> bank_legal s b"
      using bank_legal_cong [of b' b s] by simp
  qed
  have bank1: "\<exists>b0. bank_at dev i = Some b0 \<and> node_bank b = node_bank b0" if "bank_at ?d1 i = Some b" for i b
  proof -
    let ?p = "m_bank_nodes dev ! nat i"
    from that have "node_at (update_timing (m_spec dev) c av clk (m_root dev)) ?p = Some b"
      "0 \<le> i" "nat i < length (m_bank_nodes dev)"
      by (simp_all add: bank_at_def split: if_splits)
    with node_at_update_timing [of "m_spec dev" c av clk "m_root dev" ?p] show ?thesis
      by (cases "node_at (m_root dev) ?p") (simp_all add: bank_at_def)
  qed
  have issue: "issue_command c av clk dev = (case ?act of None \<Rightarrow> ?d1
      | Some h \<Rightarrow> fold (act_on_bank (\<lambda>b. h b c av clk)) (get_target_banks dev c av) ?d1)"
    using same_shape_targets [OF same_shape_update_timing [of "m_root dev" "m_spec dev" c av clk], of c av] tab(1)
    by (simp add: issue_command_def apply_action_def split: option.splits)
  consider "?act = None" | "?act = Some (PREpb_action (env_of s))"
    | h where "?act = Some h" "c \<noteq> fin" "impl_bank_target (kind_at s fin) = BT_Single" "impl_bank_target (kind_at s c) = BT_Single"
  proof (cases "c = fin")
    case True
    with final_action [OF fin] that(1,2) show ?thesis by auto
  next
    case False
    with get_preq_command_source [OF ok of fin res] obtain b where "resolve s fin b av clk = Inr c" by blast
    from resolve_targets(2) [OF ok fin this] False that show ?thesis by (cases ?act) auto
  qed
  then show ?thesis
  proof cases
    case 1
    with leg1 issue show ?thesis by simp
  next
    case 2
    with leg1 issue show ?thesis by (simp add: fold_act_legal legal_closed)
  next
    case 3
    let ?i = "get_flat_bank_id dev av"
    have t: "get_target_banks dev fin av = [?i]" "get_target_banks dev c av = [?i]"
      using 3 tab by (simp_all add: get_target_banks_def)
    from get_preq_command_source [OF ok of fin res] 3 t obtain b
      where b: "bank_at dev ?i = Some b" "resolve s fin b av clk = Inr c" by auto
    have "bank_legal s (h b1 c av clk)" if "bank_at ?d1 ?i = Some b1" "bank_legal s b1" for b1
    proof -
      from bank1 [OF that(1)] b(1) have "node_bank b1 = node_bank b" by simp
      with b(2) have "resolve s fin b1 av clk = Inr c" using resolve_cong [of b1 b] by simp
      from resolve_then_legal [OF ok fin that(2) this] 3 show ?thesis by (simp add: apply_cmd_def)
    qed
    with act_on_bank_legal [OF leg1] issue t 3 show ?thesis by simp
  qed
qed

section \<open>A command that is its own prerequisite\<close>

text \<open>
  A refresh is only issued to closed banks, a read or a write only to an open row that
  matches the request.
\<close>

lemma own_prerequisite:
  assumes ok: "standard_ok s" and of: "of_standard s (m_spec dev)" and fin: "fin < length (CommandImpls s)"
    and res: "get_preq_command dev fin av clk = Inr fin"
    and i: "i \<in> set (get_target_banks dev fin av)" and b: "bank_at dev i = Some b"
  shows "resolve s fin b av clk = Inr fin"
proof (cases "impl_preq (kind_at s fin)")
  case None
  then show ?thesis by (simp add: resolve_def)
next
  case (Some h)
  let ?f = "\<lambda>i. case bank_at dev i of None \<Rightarrow> Inr fin | Some b \<Rightarrow> resolve s fin b av clk"
  from res Some have "first_preq ?f fin (get_target_banks dev fin av) = Inr fin"
    unfolding get_preq_command_resolve [OF of fin] by simp
  from first_preq_cases [OF this] i have "?f i = Inr fin" by blast
  with b show ?thesis by simp
qed

lemma refresh_resolved_closed:
  assumes "standard_ok s" "fin < length (CommandImpls s)" "is_refreshing (impl_meta (kind_at s fin))"
    and "resolve s fin b av clk = Inr fin"
  shows "m_state b = T_Closed (env_of s)"
proof -
  have ne: "kind_name k \<in> set (enum_Command s) \<Longrightarrow> CommandImpls s ! fin \<noteq> k \<Longrightarrow> enum_index (enum_Command s) (kind_name k) \<noteq> fin" for k
    using kind_of_name(1) [OF assms(1)] by blast
  have "T_PREab (env_of s) = enum_index (enum_Command s) ''PREab''" "T_PREpb (env_of s) = enum_index (enum_Command s) ''PREpb''"
    "T_PREsb (env_of s) = enum_index (enum_Command s) ''PREsb''" by (simp_all add: env_of_def Let_def)
  with assms needs_present [OF assms(1,2)] ne [of K_PREab] ne [of K_PREpb] ne [of K_PREsb] show ?thesis
    by (cases "CommandImpls s ! fin")
      (simp_all add: resolve_def kind_at_def cmd_defs handler_defs meta_none_def needs_def access_kinds_def split: if_splits)
qed

lemma access_resolved_open:
  assumes "standard_ok s" "is_access s fin" "bank_legal s b" "resolve s fin b av clk = Inr fin"
  shows "row_open s b av"
  using assms(4) access_neq_prerequisite [OF assms(1,2)] access_needs [OF assms(1,2)]
  by (auto simp: resolve_access [OF assms(2)] RD_preq_def ACT_preq_def ACT2_preq_def row_open_def RD_rowhit_def
      has_ACT2_iff throw_def split: if_splits)

section \<open>Timing ignores bank states\<close>

text \<open>
  The timing tree and the bank states share the nodes but not the members: erasing the
  states commutes with recording and asking, so the timing of a device is the timing
  of the sequence of commands it was given.
\<close>

definition erase_state :: "NodeData \<Rightarrow> NodeData" where
  "erase_state d = d\<lparr>m_state := 0, m_row_state := Map.empty\<rparr>"

fun erase :: "DRAMNode \<Rightarrow> DRAMNode" where
  "erase (Node d cs) = Node (erase_state d) (map erase cs)"

lemma erase_state_frame [simp]:
  "m_level (erase_state d) = m_level d" "m_node_id (erase_state d) = m_node_id d"
  "m_cmd_ready_clk (erase_state d) = m_cmd_ready_clk d" "m_cmd_history (erase_state d) = m_cmd_history d"
  "m_shared_window_history (erase_state d) = m_shared_window_history d"
  by (simp_all add: erase_state_def)

lemma fold_commute_fun: "(\<And>x d. f (g x d) = g x (f d)) \<Longrightarrow> f (fold g xs d) = fold g xs (f d)"
  by (induction xs arbitrary: d) auto

lemma erase_update_sibling: "erase_state (update_sibling sp c clk d) = update_sibling sp c clk (erase_state d)"
  unfolding update_sibling_def erase_state_frame
  by (rule fold_commute_fun) (simp add: sibling_cons_def bump_ready_def erase_state_def)

lemma erase_update_target: "erase_state (update_target sp c clk d) = update_target sp c clk (erase_state d)"
proof -
  have t: "erase_state (target_cons c t d) = target_cons c t (erase_state d)" for t d
    by (simp add: target_cons_def past_of_def bump_ready_def erase_state_def Let_def)
  have p: "erase_state (push_shared sp c clk (push_cmd_history c clk d)) = push_shared sp c clk (push_cmd_history c clk (erase_state d))"
    by (simp add: push_shared_def push_cmd_history_def erase_state_def)
  show ?thesis
    unfolding update_target_def Let_def erase_state_frame fold_commute_fun [where f = erase_state and g = "target_cons c", OF t] p ..
qed

lemma erase_update_timing: "erase (update_timing sp c av clk n) = update_timing sp c av clk (erase n)"
proof (induction n)
  case (Node d cs)
  have IH: "map (erase \<circ> update_timing sp c av clk) cs = map (update_timing sp c av clk \<circ> erase) cs"
    using Node.IH by simp
  have IHi: "i < length cs \<Longrightarrow> erase (update_timing sp c av clk (cs ! i)) = update_timing sp c av clk (erase (cs ! i))" for i
    using Node.IH by simp
  show ?case
    using IH IHi by (simp add: Let_def erase_update_sibling erase_update_target map_update)
qed

lemma check_timing_erase: "check_timing c av clk (erase n) \<longleftrightarrow> check_timing c av clk n"
proof (induction n)
  case (Node d cs)
  then have "list_all (check_timing c av clk) (map erase cs) \<longleftrightarrow> list_all (check_timing c av clk) cs"
    by (simp add: list_all_iff)
  with Node show ?case by (simp add: Let_def)
qed

lemma erase_modify: "(\<And>d. erase_state (h d) = erase_state d) \<Longrightarrow> erase (modify_at p h n) = erase n"
proof (induction p arbitrary: n)
  case Nil
  then show ?case by (cases n) simp
next
  case (Cons i p)
  obtain d cs where n: "n = Node d cs" by (cases n)
  with Cons have "i < length cs \<Longrightarrow> (map erase cs)[i := erase (modify_at p h (cs ! i))] = map erase cs"
    by (simp add: list_update_same_conv)
  with n show ?case by (simp add: map_update)
qed

lemma handler_erase:
  "impl_action (kind_at s c) = Some h \<Longrightarrow> erase_state (h b c' av clk) = erase_state b"
  by (cases "CommandImpls s ! c")
    (auto simp: kind_at_def cmd_defs ACT_action_def ACT1_action_def ACT2_action_def PREpb_action_def erase_state_def)

lemma erase_issue:
  assumes "of_standard s (m_spec dev)" "c < length (CommandImpls s)"
  shows "erase (m_root (issue_command c av clk dev)) = update_timing (m_spec dev) c av clk (erase (m_root dev))"
proof -
  let ?d1 = "dev\<lparr>m_root := update_timing (m_spec dev) c av clk (m_root dev)\<rparr>"
  have "erase (m_root (fold (act_on_bank h) is d)) = erase (m_root d)" if "\<And>b. erase_state (h b) = erase_state b" for h "is" d
    by (rule fold_frame) (simp add: act_on_bank_def erase_modify that)
  then have "erase (m_root (apply_action c av clk ?d1)) = erase (m_root ?d1)"
    using assms handler_erase [of s c] by (auto simp: apply_action_def of_standard_def split: option.splits)
  then show ?thesis by (simp add: issue_command_def erase_update_timing)
qed

lemma erase_run: "erase (run_cmds sp es n) = run_cmds sp es (erase n)"
  by (induction es arbitrary: n) (simp_all add: erase_update_timing)

end
