(* ===== verification/Device_Banks.thy ===== *)
theory Device_Banks
  imports Dram_Device
begin

text \<open>
  The flat bank array of a freshly built device: how many banks it has, in which order
  \<^verbatim>\<open>for_each_at_level\<close> collects them, and that \<^verbatim>\<open>get_flat_bank_id\<close> is the position of the
  addressed bank in it. The device that \<open>device_init\<close> returns for a constructed
  specification is legal; sequences of issued commands keep it so.
\<close>

section \<open>Paths of a regular tree\<close>

fun level_paths :: "(nat \<Rightarrow> nat) \<Rightarrow> nat \<Rightarrow> nat \<Rightarrow> nat list list" where
  "level_paths S l 0 = [[]]"
| "level_paths S l (Suc k) = concat (map (\<lambda>i. map (Cons i) (level_paths S (Suc l) k)) [0..<S (Suc l)])"

fun level_count_from :: "(nat \<Rightarrow> nat) \<Rightarrow> nat \<Rightarrow> nat \<Rightarrow> nat" where
  "level_count_from S l 0 = 1"
| "level_count_from S l (Suc k) = S (Suc l) * level_count_from S (Suc l) k"

fun radix :: "(nat \<Rightarrow> nat) \<Rightarrow> (nat \<Rightarrow> nat) \<Rightarrow> nat \<Rightarrow> nat \<Rightarrow> nat" where
  "radix S a l 0 = 0"
| "radix S a l (Suc k) = a (Suc l) * level_count_from S (Suc l) k + radix S a (Suc l) k"

lemma length_level_paths: "length (level_paths S l k) = level_count_from S l k"
  by (induction k arbitrary: l) (simp_all add: length_concat comp_def sum_list_triv)

lemma nth_concat_uniform:
  assumes "\<And>i. length (f i) = m"
  shows "i < n \<Longrightarrow> j < m \<Longrightarrow> concat (map f [0..<n]) ! (i * m + j) = f i ! j"
proof (induction n)
  case (Suc n)
  have len: "length (concat (map f [0..<n])) = n * m" using assms by (simp add: length_concat comp_def sum_list_triv)
  show ?case
  proof (cases "i = n")
    case True
    with len show ?thesis by (simp add: nth_append)
  next
    case False
    with Suc.prems have "i < n" by simp
    then have "Suc i * m \<le> n * m" by (intro mult_le_mono1) simp
    with Suc.prems have "i * m + j < n * m" by simp
    with Suc False len show ?thesis by (simp add: nth_append)
  qed
qed simp

lemma radix_less: "\<forall>l' > l. l' \<le> l + k \<longrightarrow> a l' < S l' \<Longrightarrow> radix S a l k < level_count_from S l k"
proof (induction k arbitrary: l)
  case (Suc k)
  have r: "radix S a (Suc l) k < level_count_from S (Suc l) k" using Suc.prems by (intro Suc.IH) auto
  have "Suc (a (Suc l)) * level_count_from S (Suc l) k \<le> S (Suc l) * level_count_from S (Suc l) k"
    using Suc.prems by (intro mult_le_mono1) auto
  with r show ?case by simp
qed simp

lemma level_paths_radix:
  "\<forall>l' > l. l' \<le> l + k \<longrightarrow> a l' < S l' \<Longrightarrow> level_paths S l k ! radix S a l k = map a [Suc l..<Suc (l + k)]"
proof (induction k arbitrary: l)
  case (Suc k)
  let ?f = "\<lambda>i. map (Cons i) (level_paths S (Suc l) k)"
  have len: "\<And>i. length (?f i) = level_count_from S (Suc l) k" by (simp add: length_level_paths)
  have r: "radix S a (Suc l) k < level_count_from S (Suc l) k" using Suc.prems by (intro radix_less) auto
  have "level_paths S l (Suc k) ! radix S a l (Suc k) = ?f (a (Suc l)) ! radix S a (Suc l) k"
    using nth_concat_uniform [OF len, of "a (Suc l)" "S (Suc l)"] Suc.prems r by simp
  also have "\<dots> = a (Suc l) # map a [Suc (Suc l)..<Suc (Suc l + k)]"
    using Suc.IH [of "Suc l"] Suc.prems r by (simp add: length_level_paths)
  finally show ?case by (simp add: upt_conv_Cons del: upt_Suc)
qed simp

lemma level_paths_mem:
  "p \<in> set (level_paths S l k) \<longleftrightarrow> length p = k \<and> (\<forall>j < k. p ! j < S (l + j + 1))"
proof (induction k arbitrary: l p)
  case (Suc k)
  show ?case
  proof (cases p)
    case (Cons i q)
    have "(\<forall>j < Suc k. p ! j < S (l + j + 1)) \<longleftrightarrow> i < S (Suc l) \<and> (\<forall>j < k. q ! j < S (Suc l + j + 1))"
      by (simp add: Cons All_less_Suc2)
    with Suc.IH [of q "Suc l"] Cons show ?thesis by auto
  qed auto
qed auto

lemma distinct_level_paths: "distinct (level_paths S l k)"
proof (induction k arbitrary: l)
  case (Suc k)
  have "distinct xs \<Longrightarrow> distinct (concat (map (\<lambda>i. map (Cons i) xs) [0..<n]))" for xs :: "nat list list" and n
    by (induction n) (auto simp: distinct_map)
  with Suc show ?case by simp
qed simp

section \<open>The bank array\<close>

abbreviation sizes_of :: "DRAMSpec \<Rightarrow> nat \<Rightarrow> nat" where
  "sizes_of sp \<equiv> \<lambda>l. nat (level_sizes (organization sp) ! l)"

lemma build_node_eq:
  "build_node sp last_level l nid = Node (init_node_data sp l nid) (m_child_nodes (build_node sp last_level l nid))"
  using build_node_root [of sp last_level l nid] DRAMNode.collapse by metis

lemma init_level [simp]: "m_level (init_node_data sp l nid) = l" "m_node_id (init_node_data sp l nid) = nid"
  "m_state (init_node_data sp l nid) = init_states sp ! l" "m_row_state (init_node_data sp l nid) = Map.empty"
  by (simp_all add: init_node_data_def Let_def)

lemma paths_at_level_build:
  "l + k < last_level \<Longrightarrow> paths_at_level (l + k) (build_node sp last_level l nid) = level_paths (sizes_of sp) l k"
proof (induction k arbitrary: l nid)
  case 0
  then show ?case by (subst build_node_eq) simp
next
  case (Suc k)
  have "map (paths_at_level (l + Suc k)) (m_child_nodes (build_node sp last_level l nid)) =
      map (\<lambda>i. level_paths (sizes_of sp) (Suc l) k) [0..<sizes_of sp (Suc l)]"
    using Suc.IH [of "Suc l"] Suc.prems by (simp add: build_node_children)
  then show ?case
    by (subst build_node_eq) (simp add: enumerate_eq_zip zip_map2 zip_same_conv_map comp_def)
qed

lemma flat_fold:
  "\<forall>l' > l. l' \<le> l + k \<longrightarrow> 0 \<le> s l' \<and> 0 \<le> a l' \<Longrightarrow>
   fold (\<lambda>lvl id. id * s lvl + a lvl) [Suc l..<Suc (l + k)] (x::int) =
     x * int (level_count_from (\<lambda>l. nat (s l)) l k) + int (radix (\<lambda>l. nat (s l)) (\<lambda>l. nat (a l)) l k)"
proof (induction k arbitrary: l x)
  case (Suc k)
  have "fold (\<lambda>lvl id. id * s lvl + a lvl) [Suc l..<Suc (l + Suc k)] x =
      fold (\<lambda>lvl id. id * s lvl + a lvl) [Suc (Suc l)..<Suc (Suc l + k)] (x * s (Suc l) + a (Suc l))"
    by (simp add: upt_conv_Cons del: upt_Suc)
  also have "\<dots> = (x * s (Suc l) + a (Suc l)) * int (level_count_from (\<lambda>l. nat (s l)) (Suc l) k) +
      int (radix (\<lambda>l. nat (s l)) (\<lambda>l. nat (a l)) (Suc l) k)" using Suc.prems by (intro Suc.IH) auto
  finally show ?case using Suc.prems by (simp add: algebra_simps)
qed simp

text \<open>Addresses within the organisation, down to the bank.\<close>

definition bank_in_range :: "DRAMDevice \<Rightarrow> AddrVec_t \<Rightarrow> bool" where
  "bank_in_range dev av \<longleftrightarrow>
     (\<forall>l \<in> {1..m_bank_level dev}. 0 \<le> av ! l \<and> av ! l < level_sizes (organization (m_spec dev)) ! l)"

definition bank_path :: "DRAMDevice \<Rightarrow> AddrVec_t \<Rightarrow> nat list" where
  "bank_path dev av = map (\<lambda>l. nat (av ! l)) [1..<Suc (m_bank_level dev)]"

definition banks_ok :: "DRAMDevice \<Rightarrow> bool" where
  "banks_ok dev \<longleftrightarrow> m_bank_nodes dev = level_paths (sizes_of (m_spec dev)) 0 (m_bank_level dev)"

lemma bank_in_rangeD:
  assumes "bank_in_range dev av" "0 < l" "l \<le> m_bank_level dev"
  shows "0 \<le> av ! l" "av ! l < level_sizes (organization (m_spec dev)) ! l"
    and "0 < level_sizes (organization (m_spec dev)) ! l" "nat (av ! l) < sizes_of (m_spec dev) l"
proof -
  from assms have "l \<in> {1..m_bank_level dev}" by simp
  with assms(1) have "0 \<le> av ! l \<and> av ! l < level_sizes (organization (m_spec dev)) ! l"
    unfolding bank_in_range_def by blast
  then show "0 \<le> av ! l" "av ! l < level_sizes (organization (m_spec dev)) ! l"
    "0 < level_sizes (organization (m_spec dev)) ! l" "nat (av ! l) < sizes_of (m_spec dev) l" by auto
qed

lemma flat_bank_radix:
  assumes "bank_in_range dev av"
  shows "get_flat_bank_id dev av = int (radix (sizes_of (m_spec dev)) (\<lambda>l. nat (av ! l)) 0 (m_bank_level dev))"
proof -
  let ?s = "\<lambda>l. level_sizes (organization (m_spec dev)) ! l" and ?a = "\<lambda>l. av ! l"
  have "\<forall>l' > 0. l' \<le> 0 + m_bank_level dev \<longrightarrow> 0 \<le> ?s l' \<and> 0 \<le> ?a l'"
    using bank_in_rangeD [OF assms] by (simp add: less_imp_le)
  from flat_fold [OF this, of 0] show ?thesis by (simp add: get_flat_bank_id_def)
qed

lemma flat_bank_position:
  assumes "banks_ok dev" "bank_in_range dev av"
  shows "0 \<le> get_flat_bank_id dev av" "nat (get_flat_bank_id dev av) < length (m_bank_nodes dev)"
    and "m_bank_nodes dev ! nat (get_flat_bank_id dev av) = bank_path dev av"
proof -
  let ?S = "sizes_of (m_spec dev)" and ?a = "\<lambda>l. nat (av ! l)" and ?k = "m_bank_level dev"
  have lt: "\<forall>l' > 0. l' \<le> 0 + ?k \<longrightarrow> ?a l' < ?S l'"
    using bank_in_rangeD [OF assms(2)] by simp
  note r = flat_bank_radix [OF assms(2)]
  show "0 \<le> get_flat_bank_id dev av" by (simp add: r)
  show "nat (get_flat_bank_id dev av) < length (m_bank_nodes dev)"
    using radix_less [where S = ?S and a = ?a, OF lt] assms(1) by (simp add: r banks_ok_def length_level_paths)
  show "m_bank_nodes dev ! nat (get_flat_bank_id dev av) = bank_path dev av"
    using level_paths_radix [where S = ?S and a = ?a, OF lt] assms(1) by (simp add: r banks_ok_def bank_path_def)
qed

lemma flat_bank_inj:
  assumes "banks_ok dev" "bank_in_range dev av" "bank_in_range dev av'"
    and "get_flat_bank_id dev av = get_flat_bank_id dev av'" "l \<in> {1..m_bank_level dev}"
  shows "av ! l = av' ! l"
proof -
  have "bank_path dev av = bank_path dev av'"
    using flat_bank_position(3) [OF assms(1,2)] flat_bank_position(3) [OF assms(1,3)] assms(4) by simp
  then have "nat (av ! l) = nat (av' ! l)" using assms(5) by (auto simp: bank_path_def simp del: upt_Suc)
  with bank_in_rangeD(1) [OF assms(2), of l] bank_in_rangeD(1) [OF assms(3), of l] assms(5) show ?thesis by simp
qed

section \<open>The initial device\<close>

lemma level_ids:
  assumes "standard_ok s" "of_standard s sp"
  shows "get_level_id sp ''Bank'' = Inr (enum_index (enum_Level s) ''Bank'')"
    and "get_level_id sp ''Row'' = Inr (Suc (enum_index (enum_Level s) ''Bank''))"
    and "enum_index (enum_Level s) ''Bank'' + 3 = length (enum_Level s)"
    and "0 < enum_index (enum_Level s) ''Bank''"
proof -
  let ?L = "enum_Level s" and ?b = "enum_index (enum_Level s) ''Bank''"
  have n: "names_ok s" and lv: "levels_ok s" using assms(1) by (simp_all add: standard_ok_def)
  have dist: "distinct ?L" using n unfolding names_ok_def by (elim conjE)
  have L: "?L = take ?b ?L @ [''Bank'', ''Row'', ''Column'']" and b0: "0 < ?b"
    using lv unfolding levels_ok_def by blast+
  have "''Bank'' \<in> set ?L" by (subst L) simp
  from enum_index_less [OF this] have bl: "length (take ?b ?L) = ?b" by simp
  have len: "length ?L = ?b + 3" using arg_cong [OF L, of length] bl by simp
  have nb: "?L ! ?b = ''Bank''" by (subst L) (simp only: nth_append bl, simp)
  have nr: "?L ! Suc ?b = ''Row''" by (subst L) (simp only: nth_append bl, simp)
  show "?b + 3 = length ?L" "0 < ?b" using len b0 by simp_all
  show "get_level_id sp ''Bank'' = Inr ?b"
    using number_names_nth [OF dist, of ?b 0 Map.empty] len nb assms(2) by (simp add: get_level_id_def of_standard_def)
  show "get_level_id sp ''Row'' = Inr (Suc ?b)"
    using number_names_nth [OF dist, of "Suc ?b" 0 Map.empty] len nr assms(2) by (simp add: get_level_id_def of_standard_def)
qed

lemma device_init_ok:
  assumes "standard_ok s" "of_standard s sp"
  shows "\<exists>dev. device_init sp = Inr dev \<and> m_spec dev = sp \<and> banks_ok dev \<and> device_legal s dev \<and>
    m_bank_level dev = enum_index (enum_Level s) ''Bank'' \<and>
    m_root dev = build_node sp (Suc (m_bank_level dev)) 0 0"
proof -
  let ?b = "enum_index (enum_Level s) ''Bank''"
  let ?root = "build_node sp (Suc ?b) 0 0"
  let ?dev = "\<lparr>m_spec = sp, m_root = ?root, m_bank_nodes = paths_at_level ?b ?root, m_bank_level = ?b\<rparr>"
  note lv = level_ids [OF assms]
  have p: "paths_at_level ?b ?root = level_paths (sizes_of sp) 0 ?b"
    using paths_at_level_build [of 0 ?b "Suc ?b" sp 0] by simp
  have st: "init_states sp ! ?b = T_Closed (env_of s)"
  proof -
    have "levels_ok s" using assms(1) by (simp add: standard_ok_def)
    then have "std_init_states s ! ?b = ''Closed''" "length (std_init_states s) = length (enum_Level s)"
      unfolding levels_ok_def by blast+
    with lv(3) assms(2) show ?thesis by (simp add: of_standard_def env_of_def Let_def)
  qed
  have valid: "valid_path sp (Suc ?b) 0 q" if "q \<in> set (level_paths (sizes_of sp) 0 ?b)" for q
  proof -
    have "l + length q < Suc ?b \<Longrightarrow> \<forall>j < length q. q ! j < sizes_of sp (l + j + 1) \<Longrightarrow> valid_path sp (Suc ?b) l q" for l
      by (induction q arbitrary: l) (auto simp: All_less_Suc2)
    with that show ?thesis unfolding level_paths_mem by simp
  qed
  have "device_legal s ?dev"
    using valid by (auto simp: device_legal_def p node_at_build bank_legal_def level_paths_mem st)
  with lv p show ?thesis by (simp add: device_init_def Let_def banks_ok_def)
qed

section \<open>Reachable devices\<close>

text \<open>
  A controller creates its device, numbers the channel, and from then on only issues what
  \<open>get_preq_command\<close> returned for some final command.
\<close>

inductive device_reachable :: "dram_standard \<Rightarrow> DRAMSpec \<Rightarrow> DRAMDevice \<Rightarrow> bool" for s sp where
  init: "device_init sp = Inr dev \<Longrightarrow> device_reachable s sp dev"
| numbered: "device_init sp = Inr dev \<Longrightarrow> device_reachable s sp (device_set_channel_id ch dev)"
| issue: "device_reachable s sp dev \<Longrightarrow> final_ok s fin \<Longrightarrow> get_preq_command dev fin av clk = Inr c \<Longrightarrow>
    device_reachable s sp (issue_command c av clk dev)"

lemma device_set_channel_id_frame [simp]:
  "m_spec (device_set_channel_id ch dev) = m_spec dev" "m_bank_nodes (device_set_channel_id ch dev) = m_bank_nodes dev"
  "m_bank_level (device_set_channel_id ch dev) = m_bank_level dev"
  by (simp_all add: device_set_channel_id_def)

lemma device_set_channel_id_legal: "device_legal s dev \<Longrightarrow> device_legal s (device_set_channel_id ch dev)"
  by (fastforce simp: device_legal_def device_set_channel_id_def node_at_modify bank_legal_def)

lemma device_reachable_inv:
  assumes ok: "standard_ok s" and of: "of_standard s sp"
  shows "device_reachable s sp dev \<Longrightarrow> m_spec dev = sp \<and> banks_ok dev \<and> device_legal s dev"
proof (induction rule: device_reachable.induct)
  case (init dev)
  with device_init_ok [OF ok of] show ?case by auto
next
  case (numbered dev ch)
  with device_init_ok [OF ok of] show ?case by (auto simp: device_set_channel_id_legal banks_ok_def)
next
  case (issue dev fin av clk c)
  with issue_resolved_legal [OF ok _ _ issue.hyps(2,3)] of show ?case by (simp add: banks_ok_def)
qed

lemma device_reachable_level:
  assumes "standard_ok s" "of_standard s sp"
  shows "device_reachable s sp dev \<Longrightarrow> m_bank_level dev = enum_index (enum_Level s) ''Bank''"
  by (induction rule: device_reachable.induct) (use device_init_ok [OF assms] in auto)

end
