(* ===== verification/Addr_Mappers.thy ===== *)
theory Addr_Mappers
  imports Ram_Utils Ram_Request Device_Banks
begin

text \<open>
  \<^verbatim>\<open>ramulator/controller/addr_mapper\<close>: the mappers that decompose the address within a
  channel into one index per level. \<open>AddrMapperBase_init\<close> computes the field widths from
  the organisation and rejects organisations the mappers do not support; the three
  slicing mappers differ in the order of the fields.

  The lemmas show that the slicing mappers decompose an address without loss and keep
  every index within its level; the interface both facts share is the locale
  \<open>addr_codec\<close>.
\<close>

section \<open>The base class\<close>

record AddrMapperBase =
  m_num_mapped_levels :: nat
  m_addr_bits :: "nat list"
  m_tx_offset :: nat
  m_row_idx :: nat
  m_col_idx :: nat

text \<open>The loop over the mapped levels: one width per level, or the exception.\<close>

definition mapped_level_bits :: "DRAMSpec \<Rightarrow> nat \<Rightarrow> nat list result" where
  "mapped_level_bits sp n =
     foldR (\<lambda>i bits.
       let count = level_sizes (organization sp) ! (i + 1) in
       if \<not> is_pow2 count then throw ''AddrMapper: level count is currently unsupported''
       else Inr (bits[i := calc_log2 (nat count)])) [0..<n] (replicate n 0)"

definition AddrMapperBase_init :: "DRAMSpec \<Rightarrow> AddrMapperBase result" where
  "AddrMapperBase_init sp =
     (let n = level_count sp - 1 in
      bindR (mapped_level_bits sp n) (\<lambda>bits.
      let prefetch = internal_prefetch_size sp in
      if \<not> is_pow2 prefetch then throw ''AddrMapper: internal prefetch size is currently unsupported''
      else bindR (get_level_id sp ''Column'') (\<lambda>column.
        let column_count = level_sizes (organization sp) ! column in
        if column_count < prefetch \<or> column_count mod prefetch \<noteq> 0
        then throw ''AddrMapper: Column count is currently unsupported''
        else bindR (get_level_id sp ''Row'') (\<lambda>row.
          Inr \<lparr>m_num_mapped_levels = n,
               m_addr_bits = bits[n - 1 := bits ! (n - 1) - calc_log2 (nat prefetch)],
               m_tx_offset = calc_log2 (nat (get_tx_bytes sp)),
               m_row_idx = row - 1, m_col_idx = level_count sp - 2\<rparr>))))"

definition MOP4CLXOR_init :: "DRAMSpec \<Rightarrow> AddrMapperBase result" where
  "MOP4CLXOR_init sp =
     bindR (AddrMapperBase_init sp) (\<lambda>mp.
       if m_addr_bits mp ! m_col_idx mp < 2
       then throw ''MOP4CLXOR requires at least two post-prefetch column address bits'' else Inr mp)"

section \<open>Decomposition\<close>

text \<open>\<^verbatim>\<open>addr_vec.resize(n, -1)\<close>\<close>

definition resize_vec :: "nat \<Rightarrow> AddrVec_t \<Rightarrow> AddrVec_t" where
  "resize_vec n av = take n av @ replicate (n - length av) (-1)"

text \<open>\<^verbatim>\<open>addr_vec[pos] = slice_lower_bits(addr, bits)\<close>, with the narrowing to \<^verbatim>\<open>int\<close>.\<close>

definition slice_into :: "nat \<times> nat \<Rightarrow> AddrVec_t \<times> Addr_t \<Rightarrow> AddrVec_t \<times> Addr_t" where
  "slice_into f s =
     (let (x, addr) = slice_lower_bits (snd s) (snd f) in ((fst s)[fst f := to_int32 x], addr))"

definition tx_addr :: "AddrMapperBase \<Rightarrow> Request \<Rightarrow> Addr_t" where
  "tx_addr mp req = drop_bit (m_tx_offset mp) (req_intra_channel_addr req)"

definition ChRaBaRoCo_apply :: "AddrMapperBase \<Rightarrow> Request \<Rightarrow> Request" where
  "ChRaBaRoCo_apply mp req =
     (let av = resize_vec (m_num_mapped_levels mp + 1) (req_addr_vec req);
          s = fold (\<lambda>i. slice_into (i + 1, m_addr_bits mp ! i)) (rev [0..<m_num_mapped_levels mp]) (av, tx_addr mp req)
      in req\<lparr>req_addr_vec := fst s\<rparr>)"

definition RoBaRaCoCh_apply :: "AddrMapperBase \<Rightarrow> Request \<Rightarrow> Request" where
  "RoBaRaCoCh_apply mp req =
     (let av = resize_vec (m_num_mapped_levels mp + 1) (req_addr_vec req);
          s = slice_into (m_col_idx mp + 1, m_addr_bits mp ! m_col_idx mp) (av, tx_addr mp req);
          s = fold (\<lambda>i. slice_into (i + 1, m_addr_bits mp ! i)) [0..<Suc (m_row_idx mp)] s
      in req\<lparr>req_addr_vec := fst s\<rparr>)"

text \<open>The loop that XORs the levels above the column with slices of the column.\<close>

definition mop_xor_step :: "AddrMapperBase \<Rightarrow> nat \<Rightarrow> AddrVec_t \<times> nat \<Rightarrow> AddrVec_t \<times> nat" where
  "mop_xor_step mp i s =
     (let av = fst s; row_xor_index = snd s; bits = m_addr_bits mp ! i in
      if bits > 0
      then let m = drop_bit row_xor_index (av ! (m_col_idx mp + 1)) AND (push_bit bits 1 - 1)
           in (av[i + 1 := (av ! (i + 1)) XOR m], row_xor_index + bits)
      else s)"

definition MOP4CLXOR_slice :: "AddrMapperBase \<Rightarrow> AddrVec_t \<Rightarrow> Addr_t \<Rightarrow> AddrVec_t" where
  "MOP4CLXOR_slice mp av addr =
     (let col = m_col_idx mp + 1;
          s = slice_into (col, 2) (av, addr);
          s = fold (\<lambda>i. slice_into (i + 1, m_addr_bits mp ! i)) [0..<m_row_idx mp] s;
          (x, addr) = slice_lower_bits (snd s) (m_addr_bits mp ! m_col_idx mp - 2);
          av = (fst s)[col := to_int32 (fst s ! col + push_bit 2 x)]
      in av[m_row_idx mp + 1 := to_int32 addr])"

definition MOP4CLXOR_apply :: "AddrMapperBase \<Rightarrow> Request \<Rightarrow> Request" where
  "MOP4CLXOR_apply mp req =
     (let av = resize_vec (m_num_mapped_levels mp + 1) (req_addr_vec req);
          av = MOP4CLXOR_slice mp av (tx_addr mp req);
          s = fold (mop_xor_step mp) [0..<m_col_idx mp] (av, 0)
      in req\<lparr>req_addr_vec := fst s\<rparr>)"

definition PassThroughAddrMapper_apply :: "Request \<Rightarrow> Request" where
  "PassThroughAddrMapper_apply req = req"

section \<open>Fields of an address\<close>

text \<open>
  The pure decomposition: fields of given widths from the least significant end, the
  rest on top.
\<close>

fun split_fields :: "nat list \<Rightarrow> Addr_t \<Rightarrow> int list \<times> Addr_t" where
  "split_fields [] a = ([], a)"
| "split_fields (b # bs) a = (let (xs, r) = split_fields bs (a div 2 ^ b) in ((a mod 2 ^ b) # xs, r))"

fun join_fields :: "nat list \<Rightarrow> int list \<Rightarrow> Addr_t \<Rightarrow> Addr_t" where
  "join_fields (b # bs) (x # xs) r = x + 2 ^ b * join_fields bs xs r"
| "join_fields bs xs r = r"

lemma join_split: "join_fields bs (fst (split_fields bs a)) (snd (split_fields bs a)) = a"
  by (induction bs arbitrary: a) (auto simp: Let_def split_beta)

lemma split_rest: "snd (split_fields bs a) = a div 2 ^ sum_list bs"
  by (induction bs arbitrary: a) (auto simp: Let_def split_beta power_add zdiv_zmult2_eq)

lemma split_length [simp]: "length (fst (split_fields bs a)) = length bs"
  by (induction bs arbitrary: a) (auto simp: Let_def split_beta)

lemma split_range: "i < length bs \<Longrightarrow> 0 \<le> fst (split_fields bs a) ! i \<and> fst (split_fields bs a) ! i < 2 ^ (bs ! i)"
proof (induction bs arbitrary: a i)
  case (Cons b bs)
  then show ?case by (cases i) (auto simp: Let_def split_beta)
qed simp

lemma split_fields_append:
  "split_fields (bs @ cs) a =
     (let (xs, r) = split_fields bs a; (ys, r') = split_fields cs r in (xs @ ys, r'))"
  by (induction bs arbitrary: a) (auto simp: Let_def split_beta)

lemma split_fields_join:
  "length xs = length bs \<Longrightarrow> \<forall>i < length bs. 0 \<le> xs ! i \<and> xs ! i < 2 ^ (bs ! i) \<Longrightarrow>
   split_fields bs (join_fields bs xs r) = (xs, r)"
proof (induction bs arbitrary: xs)
  case (Cons b bs)
  then obtain x ys where xs: "xs = x # ys" by (cases xs) auto
  from Cons.prems(2) xs have x: "0 \<le> x" "x < 2 ^ b"
    and ys: "\<forall>i < length bs. 0 \<le> ys ! i \<and> ys ! i < 2 ^ (bs ! i)"
    by (auto simp: All_less_Suc2)
  have "(x + 2 ^ b * q) mod 2 ^ b = x" "(x + 2 ^ b * q) div 2 ^ b = q" for q
    using x by simp_all
  with Cons.IH [OF _ ys] Cons.prems(1) xs show ?case by simp
qed simp

text \<open>What a sequence of \<open>slice_into\<close> leaves in the vector.\<close>

lemma slice_into_eq:
  "b \<le> 31 \<Longrightarrow> slice_into (p, b) (av, a) = (av[p := a mod 2 ^ b], a div 2 ^ b)"
proof -
  assume b: "b \<le> 31"
  have "a mod 2 ^ b < 2 ^ b" by simp
  also have "(2::int) ^ b \<le> 2 ^ 31" by (rule power_increasing [OF b]) simp
  finally have "to_int32 (a mod 2 ^ b) = a mod 2 ^ b"
    by (intro to_int32_id) (auto intro: order_trans [of _ 0])
  then show ?thesis by (simp add: slice_into_def slice_lower_bits_mod_div)
qed

lemma fold_slice_into:
  "distinct (map fst fs) \<Longrightarrow> \<forall>f \<in> set fs. fst f < length av \<and> snd f \<le> 31 \<Longrightarrow>
   fold slice_into fs (av, a) = (av', r) \<Longrightarrow>
   r = snd (split_fields (map snd fs) a) \<and> length av' = length av \<and>
   map (\<lambda>f. av' ! fst f) fs = fst (split_fields (map snd fs) a) \<and>
   (\<forall>p. p \<notin> fst ` set fs \<longrightarrow> av' ! p = av ! p)"
proof (induction fs arbitrary: av a)
  case (Cons f fs)
  obtain p b where f: "f = (p, b)" by (cases f)
  from Cons.prems(2) f have pb: "p < length av" "b \<le> 31" by auto
  have st: "slice_into f (av, a) = (av[p := a mod 2 ^ b], a div 2 ^ b)"
    using pb(2) by (simp add: f slice_into_eq)
  have IH: "r = snd (split_fields (map snd fs) (a div 2 ^ b)) \<and> length av' = length av \<and>
     map (\<lambda>f. av' ! fst f) fs = fst (split_fields (map snd fs) (a div 2 ^ b)) \<and>
     (\<forall>q. q \<notin> fst ` set fs \<longrightarrow> av' ! q = av[p := a mod 2 ^ b] ! q)"
    using Cons.IH [of "av[p := a mod 2 ^ b]" "a div 2 ^ b"] Cons.prems st by simp
  moreover have "p \<notin> fst ` set fs" using Cons.prems(1) f by auto
  ultimately show ?case
    using pb(1) f by (auto simp: Let_def split_beta nth_list_update)
qed simp

section \<open>The contract of a mapper\<close>

text \<open>
  A mapper turns the transaction number within the channel into an address vector.
  Below its capacity the transaction number can be recovered from the vector, and every
  index stays below the size of its level.
\<close>

locale addr_codec =
  fixes decompose :: "AddrVec_t \<Rightarrow> Addr_t \<Rightarrow> AddrVec_t"
    and recompose :: "AddrVec_t \<Rightarrow> Addr_t"
    and levels_n :: nat
    and width :: "nat \<Rightarrow> nat"
    and capacity :: int
  assumes recompose_decompose:
      "length av = Suc levels_n \<Longrightarrow> 0 \<le> a \<Longrightarrow> a < capacity \<Longrightarrow> recompose (decompose av a) = a"
    and decompose_range:
      "length av = Suc levels_n \<Longrightarrow> 0 \<le> a \<Longrightarrow> a < capacity \<Longrightarrow> 1 \<le> l \<Longrightarrow> l \<le> levels_n \<Longrightarrow>
       0 \<le> decompose av a ! l \<and> decompose av a ! l < 2 ^ width l"
    and recompose_levels:
      "(\<And>l. 1 \<le> l \<Longrightarrow> l \<le> levels_n \<Longrightarrow> v ! l = w ! l) \<Longrightarrow> recompose v = recompose w"
begin

lemma decompose_inj:
  assumes "length av = Suc levels_n" "length av' = Suc levels_n" "0 \<le> a" "a < capacity" "0 \<le> b" "b < capacity"
    and "\<And>l. 1 \<le> l \<Longrightarrow> l \<le> levels_n \<Longrightarrow> decompose av a ! l = decompose av' b ! l"
  shows "a = b"
proof -
  have "recompose (decompose av a) = recompose (decompose av' b)" using assms(7) by (rule recompose_levels)
  with assms show ?thesis by (simp add: recompose_decompose)
qed

lemma decompose_differs:
  assumes "length av = Suc levels_n" "0 \<le> a" "a < capacity" "0 \<le> b" "b < capacity" "a \<noteq> b"
  shows "\<exists>l. 1 \<le> l \<and> l \<le> levels_n \<and> decompose av a ! l \<noteq> decompose av b ! l"
  using decompose_inj [OF assms(1,1-5)] assms(6) by blast

end

section \<open>Mappers that slice every level once\<close>

definition mapper_ok :: "AddrMapperBase \<Rightarrow> bool" where
  "mapper_ok mp \<longleftrightarrow>
     2 \<le> m_num_mapped_levels mp \<and> length (m_addr_bits mp) = m_num_mapped_levels mp \<and>
     m_col_idx mp = m_num_mapped_levels mp - 1 \<and> m_row_idx mp = m_num_mapped_levels mp - 2 \<and>
     (\<forall>b \<in> set (m_addr_bits mp). b \<le> 31)"

text \<open>The number of transactions of a channel.\<close>

definition mapper_capacity :: "AddrMapperBase \<Rightarrow> int" where
  "mapper_capacity mp = (if mapper_ok mp then 2 ^ sum_list (m_addr_bits mp) else 0)"

definition fields_at :: "AddrMapperBase \<Rightarrow> nat list \<Rightarrow> (nat \<times> nat) list" where
  "fields_at mp is = map (\<lambda>i. (i + 1, m_addr_bits mp ! i)) is"

definition slice_vec :: "(nat \<times> nat) list \<Rightarrow> AddrVec_t \<Rightarrow> Addr_t \<Rightarrow> AddrVec_t" where
  "slice_vec fs av a = fst (fold slice_into fs (av, a))"

definition gather :: "(nat \<times> nat) list \<Rightarrow> AddrVec_t \<Rightarrow> Addr_t" where
  "gather fs v = join_fields (map snd fs) (map (\<lambda>f. v ! fst f) fs) 0"

lemma fold_fields_at: "fold (\<lambda>i. slice_into (i + 1, m_addr_bits mp ! i)) is s = fold slice_into (fields_at mp is) s"
  by (induction "is" arbitrary: s) (simp_all add: fields_at_def)

lemma slice_vec_fields:
  assumes "distinct (map fst fs)" "\<forall>f \<in> set fs. fst f < length av \<and> snd f \<le> 31"
  shows "map (\<lambda>f. slice_vec fs av a ! fst f) fs = fst (split_fields (map snd fs) a)"
    and "length (slice_vec fs av a) = length av"
    and "snd (fold slice_into fs (av, a)) = snd (split_fields (map snd fs) a)"
  using fold_slice_into [OF assms, of a] unfolding slice_vec_def
  by (metis prod.collapse)+

lemma gather_slice:
  assumes "distinct (map fst fs)" "\<forall>f \<in> set fs. fst f < length av \<and> snd f \<le> 31"
    and "0 \<le> a" "a < 2 ^ sum_list (map snd fs)"
  shows "gather fs (slice_vec fs av a) = a"
proof -
  have "snd (split_fields (map snd fs) a) = 0" using assms(3,4) by (simp add: split_rest)
  then show ?thesis
    unfolding gather_def slice_vec_fields(1) [OF assms(1,2)] using join_split [of "map snd fs" a] by simp
qed

lemma slice_vec_range:
  assumes "distinct (map fst fs)" "\<forall>f \<in> set fs. fst f < length av \<and> snd f \<le> 31" "(p, b) \<in> set fs"
  shows "0 \<le> slice_vec fs av a ! p \<and> slice_vec fs av a ! p < 2 ^ b"
proof -
  from assms(3) obtain k where k: "k < length fs" "fs ! k = (p, b)" by (auto simp: in_set_conv_nth)
  have "slice_vec fs av a ! p = fst (split_fields (map snd fs) a) ! k"
    using arg_cong [OF slice_vec_fields(1) [OF assms(1,2), of a], of "\<lambda>xs. xs ! k"] k by simp
  with split_range [of k "map snd fs" a] k show ?thesis by simp
qed

text \<open>The fields of a well-formed mapper in any order of the levels.\<close>

lemma fields_at_perm:
  assumes "mapper_ok mp" "distinct is" "set is = {0..<m_num_mapped_levels mp}" "length av = Suc (m_num_mapped_levels mp)"
  shows "distinct (map fst (fields_at mp is))" "\<forall>f \<in> set (fields_at mp is). fst f < length av \<and> snd f \<le> 31"
    and "sum_list (map snd (fields_at mp is)) = sum_list (m_addr_bits mp)"
    and "1 \<le> l \<Longrightarrow> l \<le> m_num_mapped_levels mp \<Longrightarrow> (l, m_addr_bits mp ! (l - 1)) \<in> set (fields_at mp is)"
proof -
  let ?n = "m_num_mapped_levels mp"
  have len: "length (m_addr_bits mp) = ?n" using assms(1) by (simp add: mapper_ok_def)
  show "distinct (map fst (fields_at mp is))" using assms(2) by (simp add: fields_at_def distinct_map comp_def inj_on_def)
  show "\<forall>f \<in> set (fields_at mp is). fst f < length av \<and> snd f \<le> 31"
    using assms by (auto simp: fields_at_def mapper_ok_def)
  have "sum_list (map snd (fields_at mp is)) = sum ((!) (m_addr_bits mp)) {0..<?n}"
    using assms(2,3) sum_list_distinct_conv_sum_set [of "is" "(!) (m_addr_bits mp)"] by (simp add: fields_at_def comp_def)
  also have "\<dots> = sum_list (m_addr_bits mp)" using len by (simp add: sum_list_sum_nth)
  finally show "sum_list (map snd (fields_at mp is)) = sum_list (m_addr_bits mp)" .
  show "1 \<le> l \<Longrightarrow> l \<le> ?n \<Longrightarrow> (l, m_addr_bits mp ! (l - 1)) \<in> set (fields_at mp is)"
    using assms(3) by (force simp: fields_at_def image_iff)
qed

definition ch_order :: "AddrMapperBase \<Rightarrow> nat list" where
  "ch_order mp = rev [0..<m_num_mapped_levels mp]"

definition ro_order :: "AddrMapperBase \<Rightarrow> nat list" where
  "ro_order mp = m_col_idx mp # [0..<Suc (m_row_idx mp)]"

lemma ChRaBaRoCo_apply_eq:
  "req_addr_vec (ChRaBaRoCo_apply mp req) =
     slice_vec (fields_at mp (ch_order mp)) (resize_vec (m_num_mapped_levels mp + 1) (req_addr_vec req)) (tx_addr mp req)"
  unfolding ChRaBaRoCo_apply_def Let_def fold_fields_at by (simp add: slice_vec_def ch_order_def)

lemma RoBaRaCoCh_apply_eq:
  "req_addr_vec (RoBaRaCoCh_apply mp req) =
     slice_vec (fields_at mp (ro_order mp)) (resize_vec (m_num_mapped_levels mp + 1) (req_addr_vec req)) (tx_addr mp req)"
  unfolding RoBaRaCoCh_apply_def Let_def fold_fields_at
  by (simp add: slice_vec_def ro_order_def fields_at_def)

lemma order_perm:
  assumes "mapper_ok mp"
  shows "distinct (ch_order mp)" "set (ch_order mp) = {0..<m_num_mapped_levels mp}"
    and "distinct (ro_order mp)" "set (ro_order mp) = {0..<m_num_mapped_levels mp}"
  using assms by (auto simp: ch_order_def ro_order_def mapper_ok_def)

lemma gather_levels:
  assumes "\<forall>f \<in> set fs. 1 \<le> fst f \<and> fst f \<le> n" "\<And>l. 1 \<le> l \<Longrightarrow> l \<le> n \<Longrightarrow> v ! l = w ! l"
  shows "gather fs v = gather fs w"
proof -
  have "map (\<lambda>f. v ! fst f) fs = map (\<lambda>f. w ! fst f) fs" using assms by simp
  then show ?thesis unfolding gather_def by (rule arg_cong)
qed

lemma slice_codec:
  assumes "mapper_ok mp \<Longrightarrow> distinct is" "mapper_ok mp \<Longrightarrow> set is = {0..<m_num_mapped_levels mp}"
  shows "addr_codec (slice_vec (fields_at mp is)) (if mapper_ok mp then gather (fields_at mp is) else (\<lambda>_. 0))
    (m_num_mapped_levels mp) (\<lambda>l. m_addr_bits mp ! (l - 1)) (mapper_capacity mp)"
proof (unfold_locales, goal_cases)
  case (1 av a)
  then have ok: "mapper_ok mp" by (auto simp: mapper_capacity_def split: if_splits)
  note f = fields_at_perm [OF ok assms [OF ok] 1(1)]
  from 1 ok f(1-3) show ?case by (simp add: gather_slice mapper_capacity_def)
next
  case (2 av a l)
  then have ok: "mapper_ok mp" by (auto simp: mapper_capacity_def split: if_splits)
  note f = fields_at_perm [OF ok assms [OF ok] 2(1)]
  from slice_vec_range [OF f(1,2) f(4) [OF 2(4,5)]] show ?case .
next
  case (3 v w)
  show ?case
  proof (cases "mapper_ok mp")
    case True
    have "\<forall>f \<in> set (fields_at mp is). 1 \<le> fst f \<and> fst f \<le> m_num_mapped_levels mp"
      using assms(2) [OF True] by (auto simp: fields_at_def)
    from gather_levels [OF this 3] True show ?thesis by simp
  qed simp
qed

interpretation ch: addr_codec "slice_vec (fields_at mp (ch_order mp))"
  "if mapper_ok mp then gather (fields_at mp (ch_order mp)) else (\<lambda>_. 0)"
  "m_num_mapped_levels mp" "\<lambda>l. m_addr_bits mp ! (l - 1)" "mapper_capacity mp" for mp
  by (rule slice_codec) (simp_all add: order_perm)

interpretation ro: addr_codec "slice_vec (fields_at mp (ro_order mp))"
  "if mapper_ok mp then gather (fields_at mp (ro_order mp)) else (\<lambda>_. 0)"
  "m_num_mapped_levels mp" "\<lambda>l. m_addr_bits mp ! (l - 1)" "mapper_capacity mp" for mp
  by (rule slice_codec) (simp_all add: order_perm)

section \<open>The XOR mapper\<close>

text \<open>The loop as one vector: each level above the column is masked with its slice of the column.\<close>

definition mop_mask :: "AddrMapperBase \<Rightarrow> int \<Rightarrow> nat \<Rightarrow> int" where
  "mop_mask mp col i = take_bit (m_addr_bits mp ! i) (drop_bit (sum_list (take i (m_addr_bits mp))) col)"

definition mop_xor :: "AddrMapperBase \<Rightarrow> nat \<Rightarrow> AddrVec_t \<Rightarrow> AddrVec_t" where
  "mop_xor mp k av =
     map (\<lambda>p. if 1 \<le> p \<and> p \<le> k then av ! p XOR mop_mask mp (av ! (m_col_idx mp + 1)) (p - 1) else av ! p)
       [0..<length av]"

lemma mop_xor_nth:
  "p < length av \<Longrightarrow> mop_xor mp k av ! p =
     (if 1 \<le> p \<and> p \<le> k then av ! p XOR mop_mask mp (av ! (m_col_idx mp + 1)) (p - 1) else av ! p)"
  by (simp add: mop_xor_def)

lemma length_mop_xor [simp]: "length (mop_xor mp k av) = length av"
  by (simp add: mop_xor_def)

lemma mop_xor_loop:
  assumes "m_col_idx mp + 1 < length av" "length (m_addr_bits mp) = Suc (m_col_idx mp)"
  shows "k \<le> m_col_idx mp \<Longrightarrow>
    fold (mop_xor_step mp) [0..<k] (av, 0) = (mop_xor mp k av, sum_list (take k (m_addr_bits mp)))"
proof (induction k)
  case 0
  show ?case by (auto simp: mop_xor_def intro: nth_equalityI)
next
  case (Suc k)
  let ?b = "m_addr_bits mp ! k"
  let ?c = "mop_xor mp k av ! (m_col_idx mp + 1)"
  have c: "?c = av ! (m_col_idx mp + 1)" using assms(1) Suc.prems by (simp add: mop_xor_nth)
  have tk: "sum_list (take (Suc k) (m_addr_bits mp)) = sum_list (take k (m_addr_bits mp)) + ?b"
    using assms(2) Suc.prems by (simp add: take_Suc_conv_app_nth)
  have "mop_xor mp (Suc k) av = (mop_xor mp k av)[k + 1 := mop_xor mp k av ! (k + 1) XOR mop_mask mp ?c k]"
    using assms(1) Suc.prems by (intro nth_equalityI) (auto simp: mop_xor_nth c nth_list_update le_Suc_eq)
  moreover have "mop_mask mp x k = drop_bit (sum_list (take k (m_addr_bits mp))) x AND (push_bit ?b 1 - 1)" for x
    unfolding mop_mask_def mask_int_eq by (simp add: take_bit_eq_mask)
  ultimately have "mop_xor_step mp k (mop_xor mp k av, sum_list (take k (m_addr_bits mp))) =
      (mop_xor mp (Suc k) av, sum_list (take (Suc k) (m_addr_bits mp)))"
    unfolding mop_xor_step_def Let_def tk by (auto simp: mop_mask_def)
  with Suc show ?case by simp
qed

lemma mop_xor_involution:
  assumes "m_col_idx mp + 1 < length av" "k \<le> m_col_idx mp"
  shows "mop_xor mp k (mop_xor mp k av) = av"
proof (rule nth_equalityI)
  have c: "mop_xor mp k av ! Suc (m_col_idx mp) = av ! Suc (m_col_idx mp)" using assms by (simp add: mop_xor_nth)
  fix p assume p: "p < length (mop_xor mp k (mop_xor mp k av))"
  then show "mop_xor mp k (mop_xor mp k av) ! p = av ! p"
    by (simp add: mop_xor_nth c) (simp add: mop_xor_nth xor.assoc)
qed simp

lemma xor_mask_range:
  assumes "0 \<le> y" "y < 2 ^ b"
  shows "0 \<le> y XOR take_bit b z" "y XOR take_bit b z < (2::int) ^ b"
proof -
  have "take_bit b y = y" using assms by (simp add: take_bit_int_eq_self)
  then have "y XOR take_bit b z = take_bit b (y XOR z)" by (simp add: take_bit_xor)
  then show "0 \<le> y XOR take_bit b z" "y XOR take_bit b z < 2 ^ b"
    using take_bit_int_less_exp [of b "y XOR z"] by (simp_all only: take_bit_nonnegative)
qed

text \<open>Slicing: two column bits, the levels down to the bank, the other column bits, the row.\<close>

definition mop_widths :: "AddrMapperBase \<Rightarrow> nat list" where
  "mop_widths mp = 2 # take (m_row_idx mp) (m_addr_bits mp) @ [m_addr_bits mp ! m_col_idx mp - 2]"

definition mop_gather :: "AddrMapperBase \<Rightarrow> AddrVec_t \<Rightarrow> Addr_t" where
  "mop_gather mp v =
     (let col = v ! (m_col_idx mp + 1) in
      join_fields (mop_widths mp)
        ((col mod 4) # map (\<lambda>i. v ! (i + 1)) [0..<m_row_idx mp] @ [col div 4]) (v ! (m_row_idx mp + 1)))"

lemma mop_slice_fields:
  fixes a :: Addr_t
  assumes ok: "mapper_ok mp" and cb: "2 \<le> m_addr_bits mp ! m_col_idx mp" and len: "length av = Suc (m_num_mapped_levels mp)"
  defines "v \<equiv> MOP4CLXOR_slice mp av a"
  shows "(v ! (m_col_idx mp + 1) mod 4) # map (\<lambda>i. v ! (i + 1)) [0..<m_row_idx mp] @ [v ! (m_col_idx mp + 1) div 4] =
      fst (split_fields (mop_widths mp) a)"
    and "v ! (m_row_idx mp + 1) = to_int32 (snd (split_fields (mop_widths mp) a))" and "length v = length av"
proof -
  let ?row = "m_row_idx mp" and ?col = "m_col_idx mp" and ?bits = "m_addr_bits mp"
  let ?cb = "?bits ! ?col - 2"
  have n: "?col = Suc ?row" "length ?bits = Suc ?col" "length av = Suc (Suc ?col)" "Suc ?col = m_num_mapped_levels mp"
    using ok len by (auto simp: mapper_ok_def)
  have b31: "?bits ! ?col \<le> 31" "\<And>i. i < ?col \<Longrightarrow> ?bits ! i \<le> 31" using ok n(2) by (auto simp: mapper_ok_def)
  let ?fs = "(?col + 1, 2) # fields_at mp [0..<?row]"
  have f: "distinct (map fst ?fs)" "\<forall>f \<in> set ?fs. fst f < length av \<and> snd f \<le> 31"
    using n b31 by (auto simp: fields_at_def distinct_map inj_on_def)
  have ws: "map snd ?fs = 2 # take ?row ?bits" 
    using n by (auto simp: fields_at_def comp_def take_map intro!: nth_equalityI)
  obtain av1 r where s1: "fold slice_into ?fs (av, a) = (av1, r)" by (cases "fold slice_into ?fs (av, a)")
  note fs = fold_slice_into [OF f s1]
  obtain ys where sp: "split_fields (map snd ?fs) a = (ys, r)" "map (\<lambda>f. av1 ! fst f) ?fs = ys" "length av1 = length av"
    using fs by (metis prod.collapse)
  have s1': "fold slice_into (fields_at mp [0..<?row]) (slice_into (?col + 1, 2) (av, a)) = (av1, r)" using s1 by simp
  let ?x = "r mod 2 ^ ?cb"
  let ?c = "av1 ! (?col + 1)"
  have c4: "0 \<le> ?c" "?c < 4" using sp split_range [of 0 "map snd ?fs" a] by (auto simp: Let_def split_beta)
  have xb: "0 \<le> ?x" "?x < 2 ^ ?cb" by simp_all
  have "(2::int) ^ ?cb * 4 \<le> 2 ^ 31" using cb b31(1) power_increasing [of "?bits ! ?col" 31 "2::int"]
    by (simp add: power_diff)
  with c4 xb have i32: "to_int32 (?c + 4 * ?x) = ?c + 4 * ?x" by (intro to_int32_id) linarith+
  have v: "v = av1[?col + 1 := ?c + 4 * ?x, ?row + 1 := to_int32 (r div 2 ^ ?cb)]"
    unfolding v_def MOP4CLXOR_slice_def Let_def fold_fields_at s1'
    using i32 by (simp add: slice_lower_bits_mod_div push_bit_eq_mult mult.commute)
  have vcol: "v ! (?col + 1) = ?c + 4 * ?x" using v n sp(3) by simp
  have vlow: "map (\<lambda>i. v ! (i + 1)) [0..<?row] = map (\<lambda>i. av1 ! (i + 1)) [0..<?row]" using v n by simp
  have tot: "split_fields (mop_widths mp) a = (ys @ [?x], r div 2 ^ ?cb)"
    using sp(1) split_fields_append [of "map snd ?fs" "[?cb]" a] ws by (simp add: mop_widths_def Let_def)
  have "ys = ?c # map (\<lambda>i. av1 ! (i + 1)) [0..<?row]" using sp(2) by (simp add: fields_at_def comp_def)
  then show "(v ! (?col + 1) mod 4) # map (\<lambda>i. v ! (i + 1)) [0..<?row] @ [v ! (?col + 1) div 4] = fst (split_fields (mop_widths mp) a)"
    unfolding vcol vlow tot using c4 by simp
  show "v ! (?row + 1) = to_int32 (snd (split_fields (mop_widths mp) a))" "length v = length av"
    unfolding tot using v n sp(3) by simp_all
qed

definition mop_ok :: "AddrMapperBase \<Rightarrow> bool" where
  "mop_ok mp \<longleftrightarrow> mapper_ok mp \<and> 2 \<le> m_addr_bits mp ! m_col_idx mp"

definition mop_capacity :: "AddrMapperBase \<Rightarrow> int" where
  "mop_capacity mp = (if mop_ok mp then 2 ^ sum_list (m_addr_bits mp) else 0)"

definition mop_vec :: "AddrMapperBase \<Rightarrow> AddrVec_t \<Rightarrow> Addr_t \<Rightarrow> AddrVec_t" where
  "mop_vec mp av a = mop_xor mp (m_col_idx mp) (MOP4CLXOR_slice mp av a)"

lemma mop_shape:
  assumes "mop_ok mp"
  shows "m_col_idx mp = Suc (m_row_idx mp)" "length (m_addr_bits mp) = Suc (m_col_idx mp)"
    "m_num_mapped_levels mp = Suc (m_col_idx mp)" "mapper_ok mp" "2 \<le> m_addr_bits mp ! m_col_idx mp"
    and "i \<le> m_col_idx mp \<Longrightarrow> m_addr_bits mp ! i \<le> 31"
  using assms by (auto simp: mop_ok_def mapper_ok_def)

lemma MOP4CLXOR_apply_eq:
  assumes "mop_ok mp"
  shows "req_addr_vec (MOP4CLXOR_apply mp req) =
    mop_vec mp (resize_vec (m_num_mapped_levels mp + 1) (req_addr_vec req)) (tx_addr mp req)"
proof -
  note sh = mop_shape [OF assms]
  let ?av = "resize_vec (m_num_mapped_levels mp + 1) (req_addr_vec req)"
  have len: "length ?av = Suc (m_num_mapped_levels mp)" by (simp add: resize_vec_def)
  have l: "m_col_idx mp + 1 < length (MOP4CLXOR_slice mp ?av (tx_addr mp req))"
    using mop_slice_fields(3) [OF sh(4,5) len] len sh(3) by simp
  show ?thesis
    unfolding MOP4CLXOR_apply_def Let_def mop_xor_loop [OF l sh(2) order_refl] by (simp add: mop_vec_def)
qed

lemma mop_sum:
  assumes "mop_ok mp"
  shows "sum_list (mop_widths mp) + m_addr_bits mp ! m_row_idx mp = sum_list (m_addr_bits mp)"
proof -
  note sh = mop_shape [OF assms]
  have "m_addr_bits mp = take (m_row_idx mp) (m_addr_bits mp) @ [m_addr_bits mp ! m_row_idx mp, m_addr_bits mp ! m_col_idx mp]"
    using sh(1,2) by (intro nth_equalityI) (auto simp: nth_append nth_Cons' less_Suc_eq)
  from arg_cong [OF this, of sum_list] sh(5) show ?thesis by (simp add: mop_widths_def)
qed

text \<open>The index of every level below the row is in range, for every address.\<close>

lemma mop_slice_range:
  assumes ok: "mop_ok mp" and len: "length av = Suc (m_num_mapped_levels mp)" and i: "i < m_row_idx mp \<or> i = m_col_idx mp"
  shows "0 \<le> MOP4CLXOR_slice mp av a ! (i + 1) \<and> MOP4CLXOR_slice mp av a ! (i + 1) < 2 ^ (m_addr_bits mp ! i)"
proof -
  note sh = mop_shape [OF ok]
  note fl = mop_slice_fields [OF sh(4,5) len, of a]
  let ?v = "MOP4CLXOR_slice mp av a" and ?row = "m_row_idx mp" and ?col = "m_col_idx mp"
  let ?l = "fst (split_fields (mop_widths mp) a)"
  have wl: "length (mop_widths mp) = Suc (Suc ?row)" using sh(1,2) by (simp add: mop_widths_def)
  show ?thesis
  proof (cases "i < ?row")
    case True
    have "?l ! Suc i = ?v ! (i + 1)" unfolding fl(1) [symmetric] using True by (simp add: nth_append)
    moreover have "mop_widths mp ! Suc i = m_addr_bits mp ! i" using True sh(1,2) by (simp add: mop_widths_def nth_append)
    ultimately show ?thesis using split_range [of "Suc i" "mop_widths mp" a] wl True by simp
  next
    case False
    with i have i: "i = ?col" by simp
    have "?l ! Suc ?row = ?v ! (?col + 1) div 4" unfolding fl(1) [symmetric] by (simp add: nth_append)
    moreover have "mop_widths mp ! Suc ?row = m_addr_bits mp ! ?col - 2" using sh(1,2) by (simp add: mop_widths_def nth_append)
    ultimately have r: "0 \<le> ?v ! (?col + 1) div 4" "?v ! (?col + 1) div 4 < 2 ^ (m_addr_bits mp ! ?col - 2)"
      using split_range [of "Suc ?row" "mop_widths mp" a] wl by simp_all
    from sh(5) obtain k where "m_addr_bits mp ! ?col = 2 + k" using le_Suc_ex by blast
    then have "(2::int) ^ (m_addr_bits mp ! ?col) = 2 ^ (m_addr_bits mp ! ?col - 2) * 4" by (simp add: power_add)
    with r i show ?thesis by simp linarith
  qed
qed

lemma mop_vec_range:
  assumes ok: "mop_ok mp" and len: "length av = Suc (m_num_mapped_levels mp)" and i: "i < m_row_idx mp \<or> i = m_col_idx mp"
  shows "0 \<le> mop_vec mp av a ! (i + 1) \<and> mop_vec mp av a ! (i + 1) < 2 ^ (m_addr_bits mp ! i)"
proof -
  note sh = mop_shape [OF ok] and r = mop_slice_range [OF assms, of a]
  have "i + 1 < length (MOP4CLXOR_slice mp av a)" using mop_slice_fields(3) [OF sh(4,5) len] len sh(1,3) i by auto
  with r show ?thesis
    unfolding mop_vec_def mop_xor_nth [OF \<open>i + 1 < length (MOP4CLXOR_slice mp av a)\<close>]
    by (auto simp: mop_mask_def xor_mask_range)
qed

lemma int_div_less_power: "a < m * 2 ^ k \<Longrightarrow> a div 2 ^ k < (m::int)"
proof (rule ccontr)
  assume a: "a < m * 2 ^ k" and "\<not> a div 2 ^ k < m"
  then have "m * 2 ^ k \<le> a div 2 ^ k * 2 ^ k" by (intro mult_right_mono) auto
  also have "\<dots> \<le> a"
  proof -
    have "0 \<le> a mod 2 ^ k" by simp
    with div_mult_mod_eq [of a "2 ^ k"] show ?thesis by linarith
  qed
  finally show False using a by simp
qed

lemma mop_vec_row:
  assumes ok: "mop_ok mp" and len: "length av = Suc (m_num_mapped_levels mp)" and a: "0 \<le> a" "a < mop_capacity mp"
  shows "MOP4CLXOR_slice mp av a ! (m_row_idx mp + 1) = snd (split_fields (mop_widths mp) a)"
    and "0 \<le> snd (split_fields (mop_widths mp) a)" "snd (split_fields (mop_widths mp) a) < 2 ^ (m_addr_bits mp ! m_row_idx mp)"
proof -
  note sh = mop_shape [OF ok]
  let ?r = "snd (split_fields (mop_widths mp) a)" and ?rb = "m_addr_bits mp ! m_row_idx mp"
  have "a < 2 ^ ?rb * 2 ^ sum_list (mop_widths mp)"
    using a(2) ok by (simp add: mop_capacity_def mop_sum [OF ok, symmetric] power_add mult.commute)
  then have lt: "?r < 2 ^ ?rb" by (simp add: split_rest int_div_less_power)
  have ge: "0 \<le> ?r" using a(1) by (simp add: split_rest pos_imp_zdiv_nonneg_iff)
  show "0 \<le> ?r" "?r < 2 ^ ?rb" using ge lt .
  have "(2::int) ^ ?rb \<le> 2 ^ 31" using sh(1) sh(6) [of "m_row_idx mp"] by (intro power_increasing) auto
  with ge lt have "to_int32 ?r = ?r" by (intro to_int32_id) linarith+
  then show "MOP4CLXOR_slice mp av a ! (m_row_idx mp + 1) = ?r"
    using mop_slice_fields(2) [OF sh(4,5) len, of a] by simp
qed

text \<open>The inverse of the mapper reads the levels only.\<close>

definition mop_recompose :: "AddrMapperBase \<Rightarrow> AddrVec_t \<Rightarrow> Addr_t" where
  "mop_recompose mp v =
     (if mop_ok mp
      then mop_gather mp (mop_xor mp (m_col_idx mp) (map (\<lambda>l. if l = 0 then 0 else v ! l) [0..<Suc (m_num_mapped_levels mp)]))
      else 0)"

lemma mop_recompose_vec:
  assumes len: "length av = Suc (m_num_mapped_levels mp)" and a: "0 \<le> a" "a < mop_capacity mp"
  shows "mop_recompose mp (mop_vec mp av a) = a"
proof -
  have ok: "mop_ok mp" using a by (auto simp: mop_capacity_def split: if_splits)
  note sh = mop_shape [OF ok]
  let ?v = "MOP4CLXOR_slice mp av a" and ?n = "m_num_mapped_levels mp" and ?col = "m_col_idx mp"
  let ?cut = "\<lambda>w. map (\<lambda>l. if l = 0 then 0 else w ! l) [0..<Suc ?n]"
  have lv: "length ?v = Suc ?n" using mop_slice_fields(3) [OF sh(4,5) len] len by simp
  have "?cut (mop_vec mp av a) = mop_xor mp ?col (?cut ?v)"
    using lv sh(3) by (intro nth_equalityI) (auto simp: mop_vec_def mop_xor_nth simp del: upt_Suc)
  then have "mop_xor mp ?col (?cut (mop_vec mp av a)) = ?cut ?v"
    using mop_xor_involution [of mp "?cut ?v" ?col] sh(3) by simp
  moreover have "mop_gather mp (?cut ?v) = mop_gather mp ?v"
  proof -
    have cut: "?cut ?v ! Suc l = ?v ! Suc l" if "Suc l \<le> ?n" for l using that by (simp del: upt_Suc)
    have "map (\<lambda>i. ?cut ?v ! (i + 1)) [0..<m_row_idx mp] = map (\<lambda>i. ?v ! (i + 1)) [0..<m_row_idx mp]"
      using cut sh(1,3) by (intro map_cong) simp_all
    with cut [of ?col] cut [of "m_row_idx mp"] sh(1,3) show ?thesis
      unfolding mop_gather_def Let_def by (simp only: Suc_eq_plus1 [symmetric])
  qed
  moreover have "mop_gather mp ?v = a"
    unfolding mop_gather_def Let_def mop_slice_fields(1) [OF sh(4,5) len] mop_vec_row(1) [OF ok len a]
    by (rule join_split)
  ultimately show ?thesis using ok by (simp add: mop_recompose_def)
qed

interpretation mop: addr_codec "mop_vec mp" "mop_recompose mp" "m_num_mapped_levels mp"
  "\<lambda>l. m_addr_bits mp ! (l - 1)" "mop_capacity mp" for mp
proof (unfold_locales, goal_cases)
  case (1 av a)
  then show ?case by (rule mop_recompose_vec)
next
  case (2 av a l)
  then have ok: "mop_ok mp" by (auto simp: mop_capacity_def split: if_splits)
  note sh = mop_shape [OF ok]
  show ?case
  proof (cases "l - 1 = m_row_idx mp")
    case True
    have p: "m_row_idx mp + 1 < length (MOP4CLXOR_slice mp av a)"
      using mop_slice_fields(3) [OF sh(4,5) 2(1)] 2(1) sh(1,3) by simp
    have l: "l = m_row_idx mp + 1" using True 2(4) by simp
    note row = mop_vec_row [OF ok 2(1-3)]
    from row(2,3) show ?thesis
      unfolding l mop_vec_def mop_xor_nth [OF p] row(1) using sh(1) by (auto simp: mop_mask_def xor_mask_range)
  next
    case False
    then have "l - 1 < m_row_idx mp \<or> l - 1 = m_col_idx mp" using 2(5) sh(1,3) by linarith
    from mop_vec_range [OF ok 2(1) this, of a] 2(4) show ?thesis by simp
  qed
next
  case (3 v w)
  then have "map (\<lambda>l. if l = 0 then 0 else v ! l) [0..<Suc (m_num_mapped_levels mp)] =
      map (\<lambda>l. if l = 0 then 0 else w ! l) [0..<Suc (m_num_mapped_levels mp)]"
    by (auto simp del: upt_Suc)
  then show ?case by (simp only: mop_recompose_def)
qed

section \<open>Mappers of a constructed device\<close>

lemma mapped_level_bits_Inr:
  assumes "mapped_level_bits sp n = Inr bits"
  shows "bits = map (\<lambda>i. calc_log2 (nat (level_sizes (organization sp) ! Suc i))) [0..<n]"
    and "\<forall>i < n. is_pow2 (level_sizes (organization sp) ! Suc i)"
proof -
  let ?z = "\<lambda>i. level_sizes (organization sp) ! Suc i"
  let ?f = "\<lambda>i bits. let count = level_sizes (organization sp) ! (i + 1) in
       if \<not> is_pow2 count then throw ''AddrMapper: level count is currently unsupported''
       else Inr (bits[i := calc_log2 (nat count)])"
  have "foldR ?f [0..<k] (replicate n 0) = Inr bs \<Longrightarrow> k \<le> n \<Longrightarrow>
      bs = map (\<lambda>i. calc_log2 (nat (?z i))) [0..<k] @ replicate (n - k) 0 \<and> (\<forall>i < k. is_pow2 (?z i))" for k bs
  proof (induction k arbitrary: bs)
    case (Suc k)
    then obtain cs where cs: "foldR ?f [0..<k] (replicate n 0) = Inr cs" and st: "?f k cs = Inr bs"
      by (auto simp: foldR_append bindR_eq_Inr_iff)
    from Suc.IH [OF cs] Suc.prems(2) have IH: "cs = map (\<lambda>i. calc_log2 (nat (?z i))) [0..<k] @ replicate (n - k) 0"
      "\<forall>i < k. is_pow2 (?z i)" by simp_all
    from st have p: "is_pow2 (?z k)" and bs: "bs = cs[k := calc_log2 (nat (?z k))]" by (auto simp: Let_def split: if_splits)
    have "replicate (n - k) (0::nat) = 0 # replicate (n - Suc k) 0" using Suc.prems(2) by (cases "n - k") auto
    with bs IH(1) have "bs = map (\<lambda>i. calc_log2 (nat (?z i))) [0..<Suc k] @ replicate (n - Suc k) 0"
      by (simp add: list_update_append)
    with p IH(2) show ?case by (auto simp: less_Suc_eq)
  qed simp
  from this [of n bits] assms show "bits = map (\<lambda>i. calc_log2 (nat (?z i))) [0..<n]" "\<forall>i < n. is_pow2 (?z i)"
    by (auto simp: mapped_level_bits_def)
qed

lemma log_less_32:
  assumes "is_pow2 z" "z < 2 ^ 31"
  shows "calc_log2 (nat z) \<le> 31"
proof -
  have "(2::int) ^ calc_log2 (nat z) < 2 ^ 31" using is_pow2_cases [OF assms(1)] assms(2) by simp
  then have "calc_log2 (nat z) < 31" by (rule power_less_imp_less_exp [rotated]) simp
  then show ?thesis by simp
qed

lemma AddrMapperBase_init_ok:
  assumes std: "standard_ok s" and of: "of_standard s sp" and init: "AddrMapperBase_init sp = Inr mp"
    and small: "\<forall>z \<in> set (level_sizes (organization sp)). z < 2 ^ 31"
    and len: "length (level_sizes (organization sp)) = level_count sp"
  shows "mapper_ok mp" "Suc (m_num_mapped_levels mp) = level_count sp" "m_row_idx mp = enum_index (enum_Level s) ''Bank''"
    and "i \<le> m_row_idx mp \<Longrightarrow> 2 ^ (m_addr_bits mp ! i) = level_sizes (organization sp) ! Suc i"
proof -
  let ?n = "level_count sp - 1" and ?z = "\<lambda>i. level_sizes (organization sp) ! Suc i" and ?b = "enum_index (enum_Level s) ''Bank''"
  note lv = level_ids [OF std of]
  have lc: "level_count sp = ?b + 3" using lv(3) of by (simp add: of_standard_def)
  from init obtain bits col where bits: "mapped_level_bits sp ?n = Inr bits" and
    mp: "mp = \<lparr>m_num_mapped_levels = ?n, m_addr_bits = bits[?n - 1 := bits ! (?n - 1) - calc_log2 (nat (internal_prefetch_size sp))],
      m_tx_offset = calc_log2 (nat (get_tx_bytes sp)), m_row_idx = ?b, m_col_idx = level_count sp - 2\<rparr>"
    unfolding AddrMapperBase_init_def Let_def by (auto simp: bindR_eq_Inr_iff lv(2) split: if_splits)
  note b = mapped_level_bits_Inr [OF bits]
  have "?z i \<in> set (level_sizes (organization sp))" if "i < ?n" for i using that len by simp
  then have b31: "calc_log2 (nat (?z i)) \<le> 31" if "i < ?n" for i using that b(2) small log_less_32 by blast
  have lb: "length bits = ?n" using b(1) by simp
  have "x \<le> 31" if "x \<in> set (m_addr_bits mp)" for x
  proof -
    from that obtain i where i: "i < ?n" "x = m_addr_bits mp ! i" using mp lb by (auto simp: in_set_conv_nth)
    with mp lb have "x \<le> bits ! i" by (auto simp: nth_list_update)
    with b31 [OF i(1)] i(1) b(1) show ?thesis by simp
  qed
  then show "mapper_ok mp" using mp lb lc by (auto simp: mapper_ok_def)
  show "Suc (m_num_mapped_levels mp) = level_count sp" "m_row_idx mp = ?b" using mp lc by simp_all
  show "2 ^ (m_addr_bits mp ! i) = ?z i" if "i \<le> m_row_idx mp"
  proof -
    have i: "i < ?n - 1" "i < ?n" using that mp lc by simp_all
    then have "m_addr_bits mp ! i = calc_log2 (nat (?z i))" using mp b(1) by simp
    with is_pow2_cases [of "?z i"] b(2) i(2) show ?thesis by simp
  qed
qed

lemma resize_vec_length [simp]: "length (resize_vec n av) = n"
  by (simp add: resize_vec_def)

lemma slice_bank_in_range:
  assumes std: "standard_ok s" and of: "of_standard s sp" and init: "AddrMapperBase_init sp = Inr mp"
    and small: "\<forall>z \<in> set (level_sizes (organization sp)). z < 2 ^ 31"
    and len: "length (level_sizes (organization sp)) = level_count sp"
    and dev: "m_spec dev = sp" "m_bank_level dev = enum_index (enum_Level s) ''Bank''"
    and range: "\<And>i. i < m_row_idx mp \<Longrightarrow> 0 \<le> v ! (i + 1) \<and> v ! (i + 1) < 2 ^ (m_addr_bits mp ! i)"
  shows "bank_in_range dev v"
  unfolding bank_in_range_def
proof
  note m = AddrMapperBase_init_ok [OF std of init small len]
  fix l assume l: "l \<in> {1..m_bank_level dev}"
  then have i: "l - 1 < m_row_idx mp" "l = (l - 1) + 1" using dev(2) m(3) by auto
  have "2 ^ (m_addr_bits mp ! (l - 1)) = level_sizes (organization sp) ! l"
    using m(4) [of "l - 1"] i by simp
  with range [OF i(1)] i(2) dev(1) show "0 \<le> v ! l \<and> v ! l < level_sizes (organization (m_spec dev)) ! l"
    by simp
qed

lemma MOP4CLXOR_init_ok:
  assumes "standard_ok s" "of_standard s sp" "MOP4CLXOR_init sp = Inr mp"
    and "\<forall>z \<in> set (level_sizes (organization sp)). z < 2 ^ 31"
    and "length (level_sizes (organization sp)) = level_count sp"
  shows "AddrMapperBase_init sp = Inr mp" "mop_ok mp"
proof -
  from assms(3) show i: "AddrMapperBase_init sp = Inr mp"
    unfolding MOP4CLXOR_init_def by (auto simp: bindR_eq_Inr_iff split: if_splits)
  from assms(3) have "2 \<le> m_addr_bits mp ! m_col_idx mp"
    unfolding MOP4CLXOR_init_def by (auto simp: bindR_eq_Inr_iff split: if_splits)
  with AddrMapperBase_init_ok(1) [OF assms(1,2) i assms(4,5)] show "mop_ok mp" by (simp add: mop_ok_def)
qed

end
