(* ===== verification/Row_Indirection.thy ===== *)
theory Row_Indirection
  imports Addr_Mappers "HOL-Library.AList"
begin

text \<open>
  \<^verbatim>\<open>ramulator/controller/addr_mapper/impl/rit_addr_mapper.cpp\<close>: the Row Indirection Table,
  a mapper that wraps another one, redirects rows through per-bank swap entries and
  shifts workload rows above a reserved region. The swap table of a bank is kept as an
  association list; the order in which \<^verbatim>\<open>unordered_map\<close> iterates over it is a parameter.

  The lemmas show that a table built by \<open>insert_entry\<close> and \<open>remove_entry\<close> stays symmetric,
  so that redirection is its own inverse and never maps two rows of a bank to one.
\<close>

section \<open>The wrapped mappers\<close>

datatype base_mapper =
    ChRaBaRoCo AddrMapperBase
  | RoBaRaCoCh AddrMapperBase
  | MOP4CLXOR AddrMapperBase
  | PassThroughAddrMapper

fun base_apply :: "base_mapper \<Rightarrow> Request \<Rightarrow> Request" where
  "base_apply (ChRaBaRoCo mp) req = ChRaBaRoCo_apply mp req"
| "base_apply (RoBaRaCoCh mp) req = RoBaRaCoCh_apply mp req"
| "base_apply (MOP4CLXOR mp) req = MOP4CLXOR_apply mp req"
| "base_apply PassThroughAddrMapper req = PassThroughAddrMapper_apply req"

section \<open>The table\<close>

record RITEntry =
  swapped_row :: int
  locked :: bool

record RITAddrMapper =
  m_base_mapper :: base_mapper
  rit_row_idx :: nat
  m_reserved_rows_per_bank :: int
  m_num_rows_per_bank :: int
  m_rit :: "(int \<times> RITEntry) list list"
  m_max_entries_per_bank :: int
  m_initialized :: bool

definition RITAddrMapper_init :: "DRAMSpec \<Rightarrow> int \<Rightarrow> base_mapper option \<Rightarrow> RITAddrMapper result" where
  "RITAddrMapper_init sp reserved base =
     (if reserved < 0 then throw ''RITAddrMapper: reserved_rows_per_bank must be non-negative''
      else bindR (get_level_id sp ''Row'') (\<lambda>row.
           bindR (get_level_size sp ''Row'') (\<lambda>rows.
             if reserved \<ge> rows
             then throw ''RITAddrMapper: reserved_rows_per_bank must be less than num_rows_per_bank''
             else case base of
               None \<Rightarrow> throw ''RITAddrMapper: nested addr_mapper is required''
             | Some b \<Rightarrow> Inr \<lparr>m_base_mapper = b, rit_row_idx = row - 1,
                 m_reserved_rows_per_bank = reserved, m_num_rows_per_bank = rows,
                 m_rit = [], m_max_entries_per_bank = 0, m_initialized = False\<rparr>)))"

definition init_rit :: "nat \<Rightarrow> int \<Rightarrow> RITAddrMapper \<Rightarrow> RITAddrMapper" where
  "init_rit num_banks max_entries_per_bank r =
     r\<lparr>m_rit := replicate num_banks [], m_max_entries_per_bank := max_entries_per_bank, m_initialized := True\<rparr>"

definition rit_find :: "RITAddrMapper \<Rightarrow> nat \<Rightarrow> int \<Rightarrow> RITEntry option" where
  "rit_find r bank row = map_of (m_rit r ! bank) row"

definition check_rit :: "RITAddrMapper \<Rightarrow> nat \<Rightarrow> int \<Rightarrow> int" where
  "check_rit r bank row = (case rit_find r bank row of None \<Rightarrow> -1 | Some e \<Rightarrow> swapped_row e)"

definition is_rit_locked :: "RITAddrMapper \<Rightarrow> nat \<Rightarrow> int \<Rightarrow> bool" where
  "is_rit_locked r bank row = (case rit_find r bank row of None \<Rightarrow> False | Some e \<Rightarrow> locked e)"

definition is_rit_full :: "RITAddrMapper \<Rightarrow> nat \<Rightarrow> bool" where
  "is_rit_full r bank \<longleftrightarrow> int (length (m_rit r ! bank)) \<ge> m_max_entries_per_bank r * 2"

definition insert_entry :: "nat \<Rightarrow> int \<Rightarrow> int \<Rightarrow> RITAddrMapper \<Rightarrow> RITAddrMapper" where
  "insert_entry bank src_row dst_row r =
     r\<lparr>m_rit := (m_rit r)[bank :=
         AList.update dst_row \<lparr>swapped_row = src_row, locked = True\<rparr>
           (AList.update src_row \<lparr>swapped_row = dst_row, locked = True\<rparr> (m_rit r ! bank))]\<rparr>"

definition remove_entry :: "nat \<Rightarrow> int \<Rightarrow> int \<Rightarrow> RITAddrMapper \<Rightarrow> RITAddrMapper" where
  "remove_entry bank src_row dst_row r =
     r\<lparr>m_rit := (m_rit r)[bank := AList.delete dst_row (AList.delete src_row (m_rit r ! bank))]\<rparr>"

text \<open>
  In the order of iteration, the first entry without a heavy-hitter record, or else the first
  entry; \<open>None\<close> on an empty table.
\<close>

type_synonym rit_order = "(int \<times> RITEntry) list \<Rightarrow> (int \<times> RITEntry) list"

definition get_unswap_pair :: "rit_order \<Rightarrow> RITAddrMapper \<Rightarrow> nat \<Rightarrow> (int \<rightharpoonup> int) \<Rightarrow> (int \<times> int) option" where
  "get_unswap_pair order r bank hrt =
     (let es = order (m_rit r ! bank) in
      case find (\<lambda>(src, e). hrt src = None) es of
        Some (src, e) \<Rightarrow> Some (src, swapped_row e)
      | None \<Rightarrow> (case es of [] \<Rightarrow> None | (src, e) # _ \<Rightarrow> Some (src, swapped_row e)))"

definition rit_unlock :: "RITAddrMapper \<Rightarrow> RITAddrMapper" where
  "rit_unlock r = r\<lparr>m_rit := map (map (\<lambda>(row, e). (row, e\<lparr>locked := False\<rparr>))) (m_rit r)\<rparr>"

section \<open>Applying the mapper\<close>

definition rit_redirect :: "RITAddrMapper \<Rightarrow> nat \<Rightarrow> int \<Rightarrow> int" where
  "rit_redirect r bank row = (case rit_find r bank row of None \<Rightarrow> row | Some e \<Rightarrow> swapped_row e)"

definition RITAddrMapper_apply :: "DRAMDevice \<Rightarrow> RITAddrMapper \<Rightarrow> Request \<Rightarrow> Request result" where
  "RITAddrMapper_apply dev r req0 =
     (let req = base_apply (m_base_mapper r) req0;
          pos = rit_row_idx r + 1;
          av = (if m_initialized r
                then let bank = nat (get_flat_bank_id dev (req_addr_vec req)) in
                     (req_addr_vec req)[pos := rit_redirect r bank (req_addr_vec req ! pos)]
                else req_addr_vec req)
      in if m_reserved_rows_per_bank r > 0
         then let shifted = av ! pos + m_reserved_rows_per_bank r in
              if shifted \<ge> m_num_rows_per_bank r
              then throw ''RITAddrMapper: workload row exceeds num_rows_per_bank''
              else Inr (req\<lparr>req_addr_vec := av[pos := shifted]\<rparr>)
         else Inr (req\<lparr>req_addr_vec := av\<rparr>))"

datatype AddrMapper = BaseMapper base_mapper | RITMapper RITAddrMapper

fun mapper_apply :: "DRAMDevice \<Rightarrow> AddrMapper \<Rightarrow> Request \<Rightarrow> Request result" where
  "mapper_apply dev (BaseMapper b) req = Inr (base_apply b req)"
| "mapper_apply dev (RITMapper r) req = RITAddrMapper_apply dev r req"

section \<open>Symmetric tables\<close>

definition rit_sym :: "RITAddrMapper \<Rightarrow> nat \<Rightarrow> bool" where
  "rit_sym r bank \<longleftrightarrow>
     (\<forall>a e. rit_find r bank a = Some e \<longrightarrow>
        (\<exists>e'. rit_find r bank (swapped_row e) = Some e' \<and> swapped_row e' = a))"

lemma rit_sym_init: "bank < n \<Longrightarrow> rit_sym (init_rit n k r) bank"
  by (simp add: rit_sym_def rit_find_def init_rit_def)

lemma rit_find_insert:
  assumes "bank < length (m_rit r)"
  shows "rit_find (insert_entry bank s d r) bank =
    (rit_find r bank)(s \<mapsto> \<lparr>swapped_row = d, locked = True\<rparr>, d \<mapsto> \<lparr>swapped_row = s, locked = True\<rparr>)"
  using assms by (auto simp: rit_find_def insert_entry_def update_conv')

lemma rit_find_remove:
  assumes "bank < length (m_rit r)"
  shows "rit_find (remove_entry bank s d r) bank a = (if a = s \<or> a = d then None else rit_find r bank a)"
  using assms by (auto simp: rit_find_def remove_entry_def delete_conv')

text \<open>A swap is inserted for two rows that are not yet in the table.\<close>

lemma rit_sym_insert:
  assumes "bank < length (m_rit r)" "rit_sym r bank" "rit_find r bank s = None" "rit_find r bank d = None"
  shows "rit_sym (insert_entry bank s d r) bank"
  unfolding rit_sym_def rit_find_insert [OF assms(1)]
proof (intro allI impI)
  fix a e assume e: "((rit_find r bank)(s \<mapsto> \<lparr>swapped_row = d, locked = True\<rparr>, d \<mapsto> \<lparr>swapped_row = s, locked = True\<rparr>)) a = Some e"
  show "\<exists>e'. ((rit_find r bank)(s \<mapsto> \<lparr>swapped_row = d, locked = True\<rparr>, d \<mapsto> \<lparr>swapped_row = s, locked = True\<rparr>)) (swapped_row e) = Some e'
      \<and> swapped_row e' = a"
  proof (cases "a = s \<or> a = d")
    case True
    with e show ?thesis by (cases "a = d") auto
  next
    case False
    with e have "rit_find r bank a = Some e" by simp
    with assms(2) obtain e' where "rit_find r bank (swapped_row e) = Some e'" "swapped_row e' = a"
      by (auto simp: rit_sym_def)
    with assms(3,4) show ?thesis by auto
  qed
qed

text \<open>A swap is removed as the pair that was inserted.\<close>

lemma rit_sym_remove:
  assumes "bank < length (m_rit r)" "rit_sym r bank" "rit_find r bank s = Some e" "swapped_row e = d"
  shows "rit_sym (remove_entry bank s d r) bank"
  unfolding rit_sym_def rit_find_remove [OF assms(1)]
proof (intro allI impI)
  fix a f assume f: "(if a = s \<or> a = d then None else rit_find r bank a) = Some f"
  then have a: "a \<noteq> s" "a \<noteq> d" "rit_find r bank a = Some f" by (auto split: if_splits)
  with assms(2) obtain f' where f': "rit_find r bank (swapped_row f) = Some f'" "swapped_row f' = a" by (auto simp: rit_sym_def)
  from assms(2-4) obtain g where g: "rit_find r bank d = Some g" "swapped_row g = s" by (auto simp: rit_sym_def)
  have "swapped_row f \<noteq> s" "swapped_row f \<noteq> d" using f' g assms(3,4) a by auto
  with f' show "\<exists>e'. (if swapped_row f = s \<or> swapped_row f = d then None else rit_find r bank (swapped_row f)) = Some e' \<and>
      swapped_row e' = a" by simp
qed

lemma rit_redirect_involution: "rit_sym r bank \<Longrightarrow> rit_redirect r bank (rit_redirect r bank row) = row"
proof (cases "rit_find r bank row")
  case (Some e)
  moreover assume "rit_sym r bank"
  ultimately obtain e' where "rit_find r bank (swapped_row e) = Some e'" "swapped_row e' = row"
    unfolding rit_sym_def by blast
  with Some show ?thesis by (simp add: rit_redirect_def)
qed (simp add: rit_redirect_def)

lemma rit_redirect_inj: "rit_sym r bank \<Longrightarrow> rit_redirect r bank a = rit_redirect r bank b \<Longrightarrow> a = b"
  by (metis rit_redirect_involution)

lemma rit_unlock_redirect: "bank < length (m_rit r) \<Longrightarrow> rit_redirect (rit_unlock r) bank = rit_redirect r bank"
proof -
  assume "bank < length (m_rit r)"
  moreover have "map_of (map (\<lambda>(row, e). (row, e\<lparr>locked := False\<rparr>)) es) row =
      map_option (\<lambda>e. e\<lparr>locked := False\<rparr>) (map_of es row)" for es :: "(int \<times> RITEntry) list" and row
    by (induction es) auto
  ultimately show ?thesis
    by (auto simp: rit_redirect_def rit_find_def rit_unlock_def fun_eq_iff split: option.splits)
qed

end
