(* ===== verification/Controller_Base.thy ===== *)
theory Controller_Base
  imports Complex_Main Row_Indirection
begin

text \<open>
  \<^verbatim>\<open>ramulator/controller/controller_base.h\<close> and \<^verbatim>\<open>controller_base.cpp\<close>: the state every
  controller shares and the operations on it. The members are the fields of the record
  \<open>Controller\<close>; the counters are grouped in \<open>Stats\<close> (\<^verbatim>\<open>size_t\<close>, here \<open>nat\<close>). A reference to
  one of the four request buffers is a \<open>buf_ref\<close>, an iterator is a position.

  What the controller does to its surroundings is recorded in \<open>m_events\<close> in the order
  of the calls: callbacks, \<^verbatim>\<open>on_request_departure_scheduled\<close> notifications of the plugins
  and commands issued to the device. The plugin list itself is empty, its default.
\<close>

section \<open>State\<close>

record PendingRead =
  pr_depart :: Clk_t
  pr_sequence :: nat
  pr_req :: Request

definition pending_gt :: "PendingRead \<Rightarrow> PendingRead \<Rightarrow> bool" where
  "pending_gt p q \<longleftrightarrow>
     (if pr_depart p \<noteq> pr_depart q then pr_depart p > pr_depart q else pr_sequence p > pr_sequence q)"

text \<open>
  \<^verbatim>\<open>std::priority_queue\<close> with \<^verbatim>\<open>std::greater\<close>: the list of its elements, smallest first;
  \<^verbatim>\<open>top\<close> is the head, \<^verbatim>\<open>pop\<close> the tail.
\<close>

fun pending_push :: "PendingRead \<Rightarrow> PendingRead list \<Rightarrow> PendingRead list" where
  "pending_push p [] = [p]"
| "pending_push p (q # qs) = (if pending_gt p q then q # pending_push p qs else p # q # qs)"

datatype ctrl_event =
    Callback Request
  | DepartureScheduled Request
  | Issued nat AddrVec_t Clk_t

record Stats =
  m_measured_clk :: Clk_t
  s_row_hits :: nat
  s_row_misses :: nat
  s_row_conflicts :: nat
  s_read_row_hits :: nat
  s_read_row_misses :: nat
  s_read_row_conflicts :: nat
  s_write_row_hits :: nat
  s_write_row_misses :: nat
  s_write_row_conflicts :: nat
  s_read_row_hits_per_core :: "nat list"
  s_read_row_misses_per_core :: "nat list"
  s_read_row_conflicts_per_core :: "nat list"
  s_num_read_reqs :: nat
  s_num_write_reqs :: nat
  s_num_maintenance_reqs :: nat
  s_num_read_reqs_served :: nat
  s_num_write_reqs_served :: nat
  s_num_maintenance_reqs_served :: nat
  s_num_read_reqs_forwarded :: nat
  s_num_write_reqs_coalesced :: nat
  s_queue_len :: nat
  s_read_queue_len :: nat
  s_write_queue_len :: nat
  s_priority_queue_len :: nat
  s_read_latency :: int

record Controller =
  m_channel_id :: int
  m_clk :: Clk_t
  m_device :: DRAMDevice
  m_addr_mapper :: AddrMapper
  m_pending :: "PendingRead list"
  m_pending_sequence :: nat
  m_active_buffer :: ReqBuffer
  m_priority_buffer :: ReqBuffer
  m_read_buffer :: ReqBuffer
  m_write_buffer :: ReqBuffer
  m_buffered_write_addrs :: "Addr_t set"
  m_wr_low_watermark :: rat
  m_wr_high_watermark :: rat
  m_is_write_mode :: bool
  m_active_per_bank :: "int list"
  m_stats :: Stats
  m_events :: "ctrl_event list"

datatype buf_ref = ActiveBuf | PriorityBuf | ReadBuf | WriteBuf

fun get_buf :: "buf_ref \<Rightarrow> Controller \<Rightarrow> ReqBuffer" where
  "get_buf ActiveBuf c = m_active_buffer c"
| "get_buf PriorityBuf c = m_priority_buffer c"
| "get_buf ReadBuf c = m_read_buffer c"
| "get_buf WriteBuf c = m_write_buffer c"

fun set_buf :: "buf_ref \<Rightarrow> ReqBuffer \<Rightarrow> Controller \<Rightarrow> Controller" where
  "set_buf ActiveBuf b c = c\<lparr>m_active_buffer := b\<rparr>"
| "set_buf PriorityBuf b c = c\<lparr>m_priority_buffer := b\<rparr>"
| "set_buf ReadBuf b c = c\<lparr>m_read_buffer := b\<rparr>"
| "set_buf WriteBuf b c = c\<lparr>m_write_buffer := b\<rparr>"

abbreviation spec_of :: "Controller \<Rightarrow> DRAMSpec" where
  "spec_of c \<equiv> m_spec (m_device c)"

abbreviation add_events :: "ctrl_event list \<Rightarrow> Controller \<Rightarrow> Controller" where
  "add_events es c \<equiv> c\<lparr>m_events := m_events c @ es\<rparr>"

abbreviation map_stats :: "(Stats \<Rightarrow> Stats) \<Rightarrow> Controller \<Rightarrow> Controller" where
  "map_stats f c \<equiv> c\<lparr>m_stats := f (m_stats c)\<rparr>"

section \<open>Forwarding to the device\<close>

definition ctrl_set_channel_id :: "int \<Rightarrow> Controller \<Rightarrow> Controller" where
  "ctrl_set_channel_id channel_id c =
     c\<lparr>m_channel_id := channel_id, m_device := device_set_channel_id channel_id (m_device c)\<rparr>"

definition ctrl_check_timing :: "Controller \<Rightarrow> nat \<Rightarrow> AddrVec_t \<Rightarrow> bool" where
  "ctrl_check_timing c command addr_vec = device_check_timing (m_device c) command addr_vec (m_clk c)"

definition ctrl_get_preq_command :: "Controller \<Rightarrow> nat \<Rightarrow> AddrVec_t \<Rightarrow> nat result" where
  "ctrl_get_preq_command c command addr_vec = get_preq_command (m_device c) command addr_vec (m_clk c)"

section \<open>Initialisation\<close>

text \<open>The parameters; \<open>None\<close> for a watermark that is not a finite number.\<close>

record CtrlConfig =
  cc_wr_low_watermark :: "rat option"
  cc_wr_high_watermark :: "rat option"
  cc_read_buffer_size :: int
  cc_write_buffer_size :: int
  cc_priority_buffer_size :: int
  cc_dram_impl :: string
  cc_dram :: DramConfig

definition zero_stats :: "nat \<Rightarrow> Stats" where
  "zero_stats num_cores =
     \<lparr>m_measured_clk = 0, s_row_hits = 0, s_row_misses = 0, s_row_conflicts = 0,
      s_read_row_hits = 0, s_read_row_misses = 0, s_read_row_conflicts = 0,
      s_write_row_hits = 0, s_write_row_misses = 0, s_write_row_conflicts = 0,
      s_read_row_hits_per_core = replicate num_cores 0,
      s_read_row_misses_per_core = replicate num_cores 0,
      s_read_row_conflicts_per_core = replicate num_cores 0,
      s_num_read_reqs = 0, s_num_write_reqs = 0, s_num_maintenance_reqs = 0,
      s_num_read_reqs_served = 0, s_num_write_reqs_served = 0, s_num_maintenance_reqs_served = 0,
      s_num_read_reqs_forwarded = 0, s_num_write_reqs_coalesced = 0,
      s_queue_len = 0, s_read_queue_len = 0, s_write_queue_len = 0, s_priority_queue_len = 0,
      s_read_latency = 0\<rparr>"

text \<open>
  \<^verbatim>\<open>init_base\<close> followed by \<^verbatim>\<open>setup_base\<close>. The address mapper is what the factory creates
  from the configuration once the device exists: the parameter \<open>create_mapper\<close>.
\<close>

definition init_base ::
  "(DRAMSpec \<Rightarrow> AddrMapper result) \<Rightarrow> CtrlConfig \<Rightarrow> nat \<Rightarrow> Controller result" where
  "init_base create_mapper cfg num_cores =
     (if cc_read_buffer_size cfg \<le> 0 \<or> cc_write_buffer_size cfg \<le> 0 \<or> cc_priority_buffer_size cfg < 0
      then throw ''ControllerBase: read/write buffer sizes must be positive''
      else case (cc_wr_low_watermark cfg, cc_wr_high_watermark cfg) of
        (Some low, Some high) \<Rightarrow>
          if low < 0 \<or> high > 1 \<or> low > high
          then throw ''ControllerBase: watermarks must satisfy 0 <= low <= high <= 1''
          else
            bindR (create (cc_dram_impl cfg) (cc_dram cfg)) (\<lambda>sp.
            bindR (device_init sp) (\<lambda>dev.
            bindR (get_timing_value sp ''tCK_ps'') (\<lambda>tCK_ps.
            bindR (create_mapper sp) (\<lambda>mapper.
              Inr \<lparr>m_channel_id = -1, m_clk = 0, m_device = dev, m_addr_mapper = mapper,
                   m_pending = [], m_pending_sequence = 0,
                   m_active_buffer = ReqBuffer_new (length (m_bank_nodes dev)),
                   m_priority_buffer = ReqBuffer_new (nat (cc_priority_buffer_size cfg)),
                   m_read_buffer = ReqBuffer_new (nat (cc_read_buffer_size cfg)),
                   m_write_buffer = ReqBuffer_new (nat (cc_write_buffer_size cfg)),
                   m_buffered_write_addrs = {},
                   m_wr_low_watermark = low, m_wr_high_watermark = high, m_is_write_mode = False,
                   m_active_per_bank = replicate (length (m_bank_nodes dev)) 0,
                   m_stats = zero_stats num_cores, m_events = []\<rparr>))))
      | _ \<Rightarrow> throw ''ControllerBase: watermarks must satisfy 0 <= low <= high <= 1'')"

section \<open>Accepting requests\<close>

definition notify_departure_scheduled :: "Request \<Rightarrow> Controller \<Rightarrow> Controller" where
  "notify_departure_scheduled req c = add_events [DepartureScheduled req] c"

definition call_callback :: "Request \<Rightarrow> Controller \<Rightarrow> Controller" where
  "call_callback req c = (if req_callback req \<noteq> None then add_events [Callback req] c else c)"

definition push_pending :: "Request \<Rightarrow> Controller \<Rightarrow> Controller" where
  "push_pending req c =
     c\<lparr>m_pending := pending_push \<lparr>pr_depart = req_depart req, pr_sequence = m_pending_sequence c, pr_req = req\<rparr> (m_pending c),
       m_pending_sequence := Suc (m_pending_sequence c)\<rparr>"

text \<open>
  \<open>send\<close> returns the boolean of the code, the request as it left it (it is passed by
  reference) and the controller.
\<close>

definition send :: "Request \<Rightarrow> Controller \<Rightarrow> (bool \<times> Request \<times> Controller) result" where
  "send req0 c =
     (if req_type_id req0 \<noteq> Type_Read \<and> req_type_id req0 \<noteq> Type_Write
      then throw ''ControllerBase only supports Read (0) and Write (1) request types''
      else bindR (mapper_apply (m_device c) (m_addr_mapper c) req0) (\<lambda>req1.
        let req = req1\<lparr>req_addr_vec := (req_addr_vec req1)[0 := m_channel_id c],
                       req_final_command := int (supported_requests (spec_of c) ! nat (req_type_id req1))\<rparr>
        in if req_type_id req = Type_Read \<and> req_addr req \<in> m_buffered_write_addrs c then
             let req = req\<lparr>req_arrive := m_clk c, req_depart := m_clk c + 1\<rparr>
             in Inr (True, req,
                  map_stats (\<lambda>s. s\<lparr>s_num_read_reqs := s_num_read_reqs s + 1,
                                   s_num_read_reqs_forwarded := s_num_read_reqs_forwarded s + 1\<rparr>)
                    (notify_departure_scheduled req (push_pending req c)))
           else let req = req\<lparr>req_arrive := m_clk c\<rparr> in
             if req_type_id req = Type_Read then
               (case enqueue (m_read_buffer c) req of
                  (True, b) \<Rightarrow>
                    Inr (True, req, map_stats (\<lambda>s. s\<lparr>s_num_read_reqs := s_num_read_reqs s + 1\<rparr>) (c\<lparr>m_read_buffer := b\<rparr>))
                | (False, _) \<Rightarrow> Inr (False, req\<lparr>req_arrive := -1\<rparr>, c))
             else if req_addr req \<in> m_buffered_write_addrs c then
               Inr (True, req,
                 map_stats (\<lambda>s. s\<lparr>s_num_write_reqs := s_num_write_reqs s + 1,
                                  s_num_write_reqs_coalesced := s_num_write_reqs_coalesced s + 1\<rparr>)
                   (call_callback req (notify_departure_scheduled (req\<lparr>req_depart := m_clk c\<rparr>) c)))
             else
               (case enqueue (m_write_buffer c) req of
                  (True, b) \<Rightarrow>
                    Inr (True, req,
                      map_stats (\<lambda>s. s\<lparr>s_num_write_reqs := s_num_write_reqs s + 1\<rparr>)
                        (c\<lparr>m_write_buffer := b,
                           m_buffered_write_addrs := insert (req_addr req) (m_buffered_write_addrs c)\<rparr>))
                | (False, _) \<Rightarrow> Inr (False, req\<lparr>req_arrive := -1\<rparr>, c))))"

definition priority_send :: "Request \<Rightarrow> Controller \<Rightarrow> (bool \<times> Controller) result" where
  "priority_send req c =
     (if req_final_command req < 0 \<or> req_final_command req \<ge> int (command_count (spec_of c))
      then throw ''Invalid priority request final_command''
      else case enqueue (m_priority_buffer c) req of
        (ok, b) \<Rightarrow>
          let c' = c\<lparr>m_priority_buffer := b\<rparr> in
          Inr (ok, if ok \<and> req_type_id req = -1
                   then map_stats (\<lambda>s. s\<lparr>s_num_maintenance_reqs := s_num_maintenance_reqs s + 1\<rparr>) c' else c'))"

section \<open>The tick preamble\<close>

text \<open>The loop of \<^verbatim>\<open>serve_completed_reads\<close>, over the queue from its top.\<close>

fun serve_pending :: "PendingRead list \<Rightarrow> Controller \<Rightarrow> Controller" where
  "serve_pending [] c = c\<lparr>m_pending := []\<rparr>"
| "serve_pending (p # ps) c =
     (if pr_depart p > m_clk c then c\<lparr>m_pending := p # ps\<rparr>
      else let req = pr_req p in
        serve_pending ps
          (call_callback req
            (map_stats (\<lambda>s. s\<lparr>s_read_latency := s_read_latency s + (req_depart req - req_arrive req),
                              s_num_read_reqs_served := s_num_read_reqs_served s + 1\<rparr>) c)))"

definition serve_completed_reads :: "Controller \<Rightarrow> Controller" where
  "serve_completed_reads c = serve_pending (m_pending c) c"

definition tick_prologue :: "Controller \<Rightarrow> Controller" where
  "tick_prologue c =
     (let r = buf_size (m_read_buffer c); w = buf_size (m_write_buffer c); p = buf_size (m_priority_buffer c) in
      serve_completed_reads
        (map_stats (\<lambda>s. s\<lparr>m_measured_clk := m_measured_clk s + 1,
                          s_queue_len := s_queue_len s + (r + w + p),
                          s_read_queue_len := s_read_queue_len s + r,
                          s_write_queue_len := s_write_queue_len s + w,
                          s_priority_queue_len := s_priority_queue_len s + p\<rparr>)
          (c\<lparr>m_clk := m_clk c + 1\<rparr>)))"

section \<open>Request life cycle\<close>

text \<open>\<^verbatim>\<open>m_active_per_bank[i] += d\<close>; out of range is undefined behaviour, here no change.\<close>

definition bump_bank :: "int \<Rightarrow> int \<Rightarrow> int list \<Rightarrow> int list" where
  "bump_bank i d xs = (if 0 \<le> i \<and> nat i < length xs then xs[nat i := xs ! nat i + d] else xs)"

definition leave_buffer :: "buf_ref \<Rightarrow> Request \<Rightarrow> Controller \<Rightarrow> Controller" where
  "leave_buffer ref req c =
     (if ref = ActiveBuf
      then c\<lparr>m_active_per_bank :=
               bump_bank (get_flat_bank_id (m_device c) (req_addr_vec req)) (-1) (m_active_per_bank c)\<rparr>
      else if ref = WriteBuf
      then c\<lparr>m_buffered_write_addrs := m_buffered_write_addrs c - {req_addr req}\<rparr>
      else c)"

definition complete_request :: "Request \<Rightarrow> Controller \<Rightarrow> Controller" where
  "complete_request req c =
     (if req_type_id req = Type_Read then
        let req' = req\<lparr>req_depart := m_clk c + read_latency (spec_of c)\<rparr>
        in notify_departure_scheduled req' (push_pending req' c)
      else if req_type_id req = Type_Write then
        map_stats (\<lambda>s. s\<lparr>s_num_write_reqs_served := s_num_write_reqs_served s + 1\<rparr>)
          (call_callback req (notify_departure_scheduled (req\<lparr>req_depart := m_clk c\<rparr>) c))
      else if req_type_id req = -1 then
        map_stats (\<lambda>s. s\<lparr>s_num_maintenance_reqs_served := s_num_maintenance_reqs_served s + 1\<rparr>) c
      else c)"

definition retire_request :: "buf_ref \<Rightarrow> nat \<Rightarrow> Controller \<Rightarrow> Controller" where
  "retire_request ref it c =
     (let req = buffer (get_buf ref c) ! it;
          c1 = complete_request req (leave_buffer ref req c)
      in set_buf ref (remove_at (get_buf ref c1) it) c1)"

text \<open>When \<open>ref\<close> is the active buffer itself, the copy is appended before the original goes.\<close>

definition promote_to_active :: "buf_ref \<Rightarrow> nat \<Rightarrow> Controller \<Rightarrow> Controller" where
  "promote_to_active ref it c =
     (let req = buffer (get_buf ref c) ! it in
      case enqueue (m_active_buffer c) req of
        (False, _) \<Rightarrow> c
      | (True, b) \<Rightarrow>
          let c1 = c\<lparr>m_active_buffer := b,
                     m_active_per_bank :=
                       bump_bank (get_flat_bank_id (m_device c) (req_addr_vec req)) 1 (m_active_per_bank c)\<rparr>;
              c2 = (if ref = WriteBuf
                    then c1\<lparr>m_buffered_write_addrs := m_buffered_write_addrs c1 - {req_addr req}\<rparr> else c1)
          in set_buf ref (remove_at (get_buf ref c2) it) c2)"

section \<open>Scheduling helpers\<close>

definition would_close_active :: "Controller \<Rightarrow> Request \<Rightarrow> bool" where
  "would_close_active c req =
     (let cmd = nat (req_command req); dev = m_device c in
      if \<not> is_closing (command_meta (spec_of c) ! cmd) then False
      else if buf_size (m_active_buffer c) = 0 then False
      else let target = bank_targets (spec_of c) ! cmd in
        if target = BT_Single then
          (let i = get_flat_bank_id dev (req_addr_vec req) in
           0 \<le> i \<and> nat i < length (m_active_per_bank c) \<and> m_active_per_bank c ! nat i > 0)
        else list_ex (\<lambda>i.
            m_active_per_bank c ! i \<noteq> 0 \<and>
            \<not> (target = BT_SameBank \<and>
               (case node_at (m_root dev) (m_bank_nodes dev ! i) of
                  None \<Rightarrow> True | Some b \<Rightarrow> m_node_id b \<noteq> req_addr_vec req ! m_bank_level dev)) \<and>
            bank_matches dev (m_bank_nodes dev ! i) (req_addr_vec req)) [0..<length (m_active_per_bank c)])"

definition count_at :: "bool \<Rightarrow> int \<Rightarrow> nat list \<Rightarrow> nat list" where
  "count_at has i xs = (if has then xs[nat i := xs ! nat i + 1] else xs)"

definition update_request_stats :: "buf_ref \<Rightarrow> nat \<Rightarrow> Controller \<Rightarrow> Controller" where
  "update_request_stats ref it c =
     (let b = get_buf ref c;
          req = (buffer b ! it)\<lparr>req_is_stat_updated := True\<rparr>;
          c1 = set_buf ref (b\<lparr>buffer := (buffer b)[it := req]\<rparr>) c;
          fin = nat (req_final_command req);
          hit = check_rowbuffer_hit (m_device c) fin (req_addr_vec req) (m_clk c);
          opn = check_node_open (m_device c) fin (req_addr_vec req) (m_clk c);
          src = req_source_id req;
          core = 0 \<le> src \<and> nat src < length (s_read_row_hits_per_core (m_stats c))
      in if req_type_id req = Type_Read then
           (if hit then
              map_stats (\<lambda>s. s\<lparr>s_read_row_hits := s_read_row_hits s + 1, s_row_hits := s_row_hits s + 1,
                               s_read_row_hits_per_core := count_at core src (s_read_row_hits_per_core s)\<rparr>) c1
            else if opn then
              map_stats (\<lambda>s. s\<lparr>s_read_row_conflicts := s_read_row_conflicts s + 1, s_row_conflicts := s_row_conflicts s + 1,
                               s_read_row_conflicts_per_core := count_at core src (s_read_row_conflicts_per_core s)\<rparr>) c1
            else
              map_stats (\<lambda>s. s\<lparr>s_read_row_misses := s_read_row_misses s + 1, s_row_misses := s_row_misses s + 1,
                               s_read_row_misses_per_core := count_at core src (s_read_row_misses_per_core s)\<rparr>) c1)
         else if req_type_id req = Type_Write then
           (if hit then
              map_stats (\<lambda>s. s\<lparr>s_write_row_hits := s_write_row_hits s + 1, s_row_hits := s_row_hits s + 1\<rparr>) c1
            else if opn then
              map_stats (\<lambda>s. s\<lparr>s_write_row_conflicts := s_write_row_conflicts s + 1, s_row_conflicts := s_row_conflicts s + 1\<rparr>) c1
            else
              map_stats (\<lambda>s. s\<lparr>s_write_row_misses := s_write_row_misses s + 1, s_row_misses := s_row_misses s + 1\<rparr>) c1)
         else c1)"

subsection \<open>Write mode\<close>

text \<open>
  The watermarks are \<^verbatim>\<open>float\<close>, and so are their products with \<^verbatim>\<open>max_size\<close>: rounded to the
  nearest 24-bit significand, ties to even, exponent at least -126.
\<close>

definition rat_log2 :: "rat \<Rightarrow> int" where
  "rat_log2 x =
     (let (n, d) = quotient_of x; e = int (calc_log2 (nat n)) - int (calc_log2 (nat d))
      in if 2 powi e \<le> x then e else e - 1)"

definition round_half_even :: "rat \<Rightarrow> int" where
  "round_half_even x =
     (let f = \<lfloor>x\<rfloor>; r = x - of_int f in
      if r < 1 / 2 \<or> (r = 1 / 2 \<and> even f) then f else f + 1)"

definition to_float :: "rat \<Rightarrow> rat" where
  "to_float x =
     (if x \<le> 0 then 0
      else let u = 2 powi (max (rat_log2 x) (-126) - 23) in of_int (round_half_even (x / u)) * u)"

definition above_watermark :: "rat \<Rightarrow> ReqBuffer \<Rightarrow> bool" where
  "above_watermark wm b \<longleftrightarrow> to_float (of_nat (buf_size b)) > to_float (wm * to_float (of_nat (max_size b)))"

definition below_watermark :: "rat \<Rightarrow> ReqBuffer \<Rightarrow> bool" where
  "below_watermark wm b \<longleftrightarrow> to_float (of_nat (buf_size b)) < to_float (wm * to_float (of_nat (max_size b)))"

definition set_write_mode :: "Controller \<Rightarrow> Controller" where
  "set_write_mode c =
     (if \<not> m_is_write_mode c then
        (if above_watermark (m_wr_high_watermark c) (m_write_buffer c) \<or> buf_size (m_read_buffer c) = 0
         then c\<lparr>m_is_write_mode := True\<rparr> else c)
      else
        (if (buf_size (m_write_buffer c) = 0 \<or> below_watermark (m_wr_low_watermark c) (m_write_buffer c)) \<and>
            buf_size (m_read_buffer c) \<noteq> 0
         then c\<lparr>m_is_write_mode := False\<rparr> else c))"

subsection \<open>Resetting the counters\<close>

definition reset_stats :: "Controller \<Rightarrow> Controller" where
  "reset_stats c =
     map_stats (\<lambda>s. zero_stats 0\<lparr>
        s_read_row_hits_per_core := map (\<lambda>_. 0) (s_read_row_hits_per_core s),
        s_read_row_misses_per_core := map (\<lambda>_. 0) (s_read_row_misses_per_core s),
        s_read_row_conflicts_per_core := map (\<lambda>_. 0) (s_read_row_conflicts_per_core s)\<rparr>) c"

end
