(* ===== verification/Schedulers.thy ===== *)
theory Schedulers
  imports Controller_Base
begin

text \<open>
  \<^verbatim>\<open>ramulator/controller/scheduler/impl\<close>: the two schedulers. \<open>get_best_request\<close> derives the
  current command of every request of a buffer, writes it into the requests and returns
  the position of the request to serve, \<open>None\<close> for \<^verbatim>\<open>buffer.end()\<close>. The scheduler object
  keeps no state from one call to the next that a call reads: the row-hit flags are
  cleared first, and an arrival is only read where its flag is set.

  The contract both schedulers satisfy is the locale \<open>scheduler\<close>; the controllers only
  use what it promises.
\<close>

section \<open>Deriving commands\<close>

fun derive_commands :: "Controller \<Rightarrow> Request list \<Rightarrow> Request list result" where
  "derive_commands c [] = Inr []"
| "derive_commands c (r # rs) =
     bindR (ctrl_get_preq_command c (nat (req_final_command r)) (req_addr_vec r)) (\<lambda>cmd.
     bindR (derive_commands c rs) (\<lambda>rs'. Inr (r\<lparr>req_command := int cmd\<rparr> # rs')))"

definition timing_ok :: "Controller \<Rightarrow> Request \<Rightarrow> bool" where
  "timing_ok c r = ctrl_check_timing c (nat (req_command r)) (req_addr_vec r)"

text \<open>
  The loop shared by both schedulers: the candidate so far with its cached readiness, a
  challenger, and the comparison.
\<close>

definition challenge :: "Controller \<Rightarrow> Request list \<Rightarrow> nat \<Rightarrow> (nat \<times> bool) option \<Rightarrow> (nat \<times> bool) option" where
  "challenge c rs it cand =
     (case cand of
        None \<Rightarrow> Some (it, timing_ok c (rs ! it))
      | Some (k, cand_timing_ok) \<Rightarrow>
          let it_timing_ok = timing_ok c (rs ! it) in
          if cand_timing_ok \<noteq> it_timing_ok then (if it_timing_ok then Some (it, True) else cand)
          else if req_arrive (rs ! it) < req_arrive (rs ! k) then Some (it, cand_timing_ok)
          else cand)"

definition best_of :: "Controller \<Rightarrow> (Request \<Rightarrow> bool) \<Rightarrow> Request list \<Rightarrow> nat option" where
  "best_of c eligible rs =
     map_option fst
       (fold (\<lambda>it cand. if \<not> eligible (rs ! it) then cand else challenge c rs it cand) [0..<length rs] None)"

section \<open>FRFCFS\<close>

text \<open>The filter only reads the request it is given, so deriving all commands first changes nothing.\<close>

definition FRFCFS_get_best_request ::
  "Controller \<Rightarrow> (Request \<Rightarrow> bool) \<Rightarrow> Request list \<Rightarrow> (Request list \<times> nat option) result" where
  "FRFCFS_get_best_request c flt rs =
     bindR (derive_commands c rs) (\<lambda>rs. Inr (rs, best_of c flt rs))"

section \<open>FRFCFS with row hits first\<close>

text \<open>\<^verbatim>\<open>m_bank_rowhit_flags\<close> and \<^verbatim>\<open>m_bank_rowhit_arrivals\<close>: \<open>None\<close> for a flag that is not set.\<close>

definition note_rowhit :: "Controller \<Rightarrow> Request \<Rightarrow> Clk_t option list \<Rightarrow> Clk_t option list" where
  "note_rowhit c r hits =
     (if check_rowbuffer_hit (m_device c) (nat (req_final_command r)) (req_addr_vec r) (m_clk c)
      then let bank_id = get_flat_bank_id (m_device c) (req_addr_vec r) in
        if 0 \<le> bank_id \<and> nat bank_id < length hits
        then (case hits ! nat bank_id of
                None \<Rightarrow> hits[nat bank_id := Some (req_arrive r)]
              | Some t \<Rightarrow> if req_arrive r < t then hits[nat bank_id := Some (req_arrive r)] else hits)
        else hits
      else hits)"

definition would_preempt_rowhit :: "Controller \<Rightarrow> Clk_t option list \<Rightarrow> Request \<Rightarrow> bool" where
  "would_preempt_rowhit c hits req =
     (let cmd = nat (req_command req) in
      if \<not> is_closing (command_meta (spec_of c) ! cmd) then False
      else if req_command req = req_final_command req then False
      else if bank_targets (spec_of c) ! cmd \<noteq> BT_Single then False
      else let bank_id = get_flat_bank_id (m_device c) (req_addr_vec req) in
        if bank_id < 0 \<or> nat bank_id \<ge> length hits then False
        else (case hits ! nat bank_id of None \<Rightarrow> False | Some t \<Rightarrow> t \<le> req_arrive req))"

definition FRFCFSRowHit_get_best_request ::
  "Controller \<Rightarrow> (Request \<Rightarrow> bool) \<Rightarrow> Request list \<Rightarrow> (Request list \<times> nat option) result" where
  "FRFCFSRowHit_get_best_request c flt rs =
     bindR (derive_commands c rs) (\<lambda>rs.
       let hits = fold (note_rowhit c) rs (replicate (length (m_bank_nodes (m_device c))) None)
       in Inr (rs, best_of c (\<lambda>r. flt r \<and> \<not> would_preempt_rowhit c hits r) rs))"

datatype scheduler_kind = FRFCFS | FRFCFS_RowHit

fun get_best_request ::
  "scheduler_kind \<Rightarrow> Controller \<Rightarrow> (Request \<Rightarrow> bool) \<Rightarrow> Request list \<Rightarrow> (Request list \<times> nat option) result" where
  "get_best_request FRFCFS c flt rs = FRFCFS_get_best_request c flt rs"
| "get_best_request FRFCFS_RowHit c flt rs = FRFCFSRowHit_get_best_request c flt rs"

section \<open>What the loop returns\<close>

text \<open>
  The order of the loop: ready before not ready, then the earlier arrival; equal
  requests keep their order in the buffer.
\<close>

definition better :: "Controller \<Rightarrow> Request list \<Rightarrow> nat \<Rightarrow> nat \<Rightarrow> bool" where
  "better c rs i j \<longleftrightarrow>
     (timing_ok c (rs ! i) \<and> \<not> timing_ok c (rs ! j)) \<or>
     (timing_ok c (rs ! i) = timing_ok c (rs ! j) \<and>
        (req_arrive (rs ! i) < req_arrive (rs ! j) \<or> (req_arrive (rs ! i) = req_arrive (rs ! j) \<and> i < j)))"

definition best_inv :: "Controller \<Rightarrow> (Request \<Rightarrow> bool) \<Rightarrow> Request list \<Rightarrow> nat \<Rightarrow> (nat \<times> bool) option \<Rightarrow> bool" where
  "best_inv c el rs n cand \<longleftrightarrow>
     (case cand of
        None \<Rightarrow> \<forall>j < n. \<not> el (rs ! j)
      | Some (k, ok) \<Rightarrow> k < n \<and> el (rs ! k) \<and> ok = timing_ok c (rs ! k) \<and>
          (\<forall>j < n. el (rs ! j) \<longrightarrow> j = k \<or> better c rs k j))"

lemma best_inv_fold:
  "best_inv c el rs n (fold (\<lambda>it cand. if \<not> el (rs ! it) then cand else challenge c rs it cand) [0..<n] None)"
proof (induction n)
  case 0
  show ?case by (simp add: best_inv_def)
next
  case (Suc n)
  let ?f = "fold (\<lambda>it cand. if \<not> el (rs ! it) then cand else challenge c rs it cand) [0..<n] None"
  show ?case
  proof (cases ?f)
    case None
    with Suc show ?thesis by (auto simp: best_inv_def challenge_def less_Suc_eq)
  next
    case (Some kb)
    then obtain k b where f: "?f = Some (k, b)" by (cases kb) auto
    from Suc f have k: "k < n" "el (rs ! k)" "b = timing_ok c (rs ! k)"
      and bt: "\<And>j. j < n \<Longrightarrow> el (rs ! j) \<Longrightarrow> j = k \<or> better c rs k j"
      by (auto simp: best_inv_def)
    have trans: "better c rs n j" if "better c rs n k" "j = k \<or> better c rs k j" for j
      using that by (auto simp: better_def)
    show ?thesis
    proof (cases "el (rs ! n) \<and> better c rs n k")
      case True
      then have "challenge c rs n (Some (k, b)) = Some (n, timing_ok c (rs ! n))"
        using k by (auto simp: challenge_def better_def Let_def)
      with True f bt trans show ?thesis by (auto simp: best_inv_def less_Suc_eq)
    next
      case False
      have "el (rs ! n) \<Longrightarrow> challenge c rs n (Some (k, b)) = Some (k, b) \<and> better c rs k n"
        using False k by (auto simp: challenge_def better_def Let_def)
      with f k bt show ?thesis by (auto simp: best_inv_def less_Suc_eq)
    qed
  qed
qed

lemma best_of_Some:
  assumes "best_of c el rs = Some k"
  shows "k < length rs" "el (rs ! k)" "\<And>j. j < length rs \<Longrightarrow> el (rs ! j) \<Longrightarrow> j \<noteq> k \<Longrightarrow> better c rs k j"
  using best_inv_fold [of c el rs "length rs"] assms by (auto simp: best_inv_def best_of_def)

lemma best_of_None: "best_of c el rs = None \<longleftrightarrow> (\<forall>j < length rs. \<not> el (rs ! j))"
  using best_inv_fold [of c el rs "length rs"]
  by (auto simp: best_inv_def best_of_def split: option.splits)

section \<open>The scheduler contract\<close>

lemma derive_commands_length: "derive_commands c rs = Inr rs' \<Longrightarrow> length rs' = length rs"
  by (induction rs arbitrary: rs') (auto simp: bindR_eq_Inr_iff)

lemma derive_commands_nth:
  "derive_commands c rs = Inr rs' \<Longrightarrow> i < length rs \<Longrightarrow>
   \<exists>cmd. ctrl_get_preq_command c (nat (req_final_command (rs ! i))) (req_addr_vec (rs ! i)) = Inr cmd \<and>
     rs' ! i = (rs ! i)\<lparr>req_command := int cmd\<rparr>"
proof (induction rs arbitrary: rs' i)
  case (Cons r rs)
  then show ?case by (cases i) (auto simp: bindR_eq_Inr_iff)
qed simp

lemma derive_commands_map:
  assumes "derive_commands c rs = Inr rs'" "\<And>r x. f (r\<lparr>req_command := x\<rparr>) = f r"
  shows "map f rs' = map f rs"
proof (rule nth_equalityI)
  show "length (map f rs') = length (map f rs)" using derive_commands_length [OF assms(1)] by simp
  fix i assume "i < length (map f rs')"
  then have i: "i < length rs" using derive_commands_length [OF assms(1)] by simp
  from derive_commands_nth [OF assms(1) i] assms(2) i derive_commands_length [OF assms(1)]
  show "map f rs' ! i = map f rs ! i" by auto
qed

text \<open>
  The buffer keeps its requests, each with its derived command; the returned request
  passed the filter.
\<close>

locale scheduler =
  fixes get_best :: "Controller \<Rightarrow> (Request \<Rightarrow> bool) \<Rightarrow> Request list \<Rightarrow> (Request list \<times> nat option) result"
  assumes derives: "get_best c flt rs = Inr (rs', pick) \<Longrightarrow> derive_commands c rs = Inr rs'"
    and eligible: "get_best c flt rs = Inr (rs', Some k) \<Longrightarrow> k < length rs' \<and> flt (rs' ! k)"
begin

lemma picked:
  assumes "get_best c flt rs = Inr (rs', Some k)"
  shows "k < length rs" "flt (rs' ! k)" "length rs' = length rs"
    "\<exists>cmd. ctrl_get_preq_command c (nat (req_final_command (rs ! k))) (req_addr_vec (rs ! k)) = Inr cmd \<and>
       rs' ! k = (rs ! k)\<lparr>req_command := int cmd\<rparr>"
proof -
  note d = derives [OF assms] and e = eligible [OF assms]
  show l: "length rs' = length rs" using derive_commands_length [OF d] .
  show "k < length rs" "flt (rs' ! k)" using e l by simp_all
  then show "\<exists>cmd. ctrl_get_preq_command c (nat (req_final_command (rs ! k))) (req_addr_vec (rs ! k)) = Inr cmd \<and>
       rs' ! k = (rs ! k)\<lparr>req_command := int cmd\<rparr>" using derive_commands_nth [OF d] by blast
qed

lemma keeps:
  assumes "get_best c flt rs = Inr (rs', pick)" "\<And>r x. f (r\<lparr>req_command := x\<rparr>) = f r"
  shows "map f rs' = map f rs"
  using derive_commands_map [OF derives [OF assms(1)] assms(2)] .

end

interpretation frfcfs: scheduler FRFCFS_get_best_request
  by unfold_locales (auto simp: FRFCFS_get_best_request_def bindR_eq_Inr_iff dest: best_of_Some)

interpretation frfcfs_rowhit: scheduler FRFCFSRowHit_get_best_request
  by unfold_locales (auto simp: FRFCFSRowHit_get_best_request_def bindR_eq_Inr_iff Let_def dest: best_of_Some)

interpretation sched: scheduler "get_best_request k" for k
  by unfold_locales (cases k; auto dest: frfcfs.derives frfcfs_rowhit.derives frfcfs.eligible frfcfs_rowhit.eligible)+

section \<open>Row hits are not preempted\<close>

lemma note_rowhit_length [simp]: "length (note_rowhit c r hits) = length hits"
  by (auto simp: note_rowhit_def Let_def split: option.splits)

lemma note_rowhit_mono:
  "hits ! b = Some t \<Longrightarrow> \<exists>t'. note_rowhit c r hits ! b = Some t' \<and> t' \<le> t"
  by (auto simp: note_rowhit_def Let_def nth_list_update split: option.splits)

lemma fold_note_rowhit_mono:
  "hits ! b = Some t \<Longrightarrow> \<exists>t'. fold (note_rowhit c) rs hits ! b = Some t' \<and> t' \<le> t"
proof (induction rs arbitrary: hits t)
  case (Cons r rs)
  from note_rowhit_mono [OF Cons.prems, of c r] obtain t1 where t1: "note_rowhit c r hits ! b = Some t1" "t1 \<le> t" by auto
  from Cons.IH [OF t1(1)] t1(2) show ?case by auto
qed simp

lemma fold_note_rowhit:
  assumes "r \<in> set rs" "check_rowbuffer_hit (m_device c) (nat (req_final_command r)) (req_addr_vec r) (m_clk c)"
    and "get_flat_bank_id (m_device c) (req_addr_vec r) = int b" "b < length hits"
  shows "\<exists>t. fold (note_rowhit c) rs hits ! b = Some t \<and> t \<le> req_arrive r"
  using assms(1,4)
proof (induction rs arbitrary: hits)
  case (Cons a rs)
  show ?case
  proof (cases "a = r")
    case True
    have "\<exists>t. note_rowhit c r hits ! b = Some t \<and> t \<le> req_arrive r"
      using assms(2,3) Cons.prems(2) by (auto simp: note_rowhit_def Let_def nth_list_update split: option.splits)
    with fold_note_rowhit_mono True show ?thesis by fastforce
  next
    case False
    with Cons show ?thesis by simp
  qed
qed simp

end
