(* ===== verification/Row_Policies.thy ===== *)
theory Row_Policies
  imports Schedulers
begin

text \<open>
  \<^verbatim>\<open>ramulator/controller/rowpolicy/impl\<close>: the open policy, whose hooks are the empty
  defaults of the interface, and \<open>ClosedCAP\<close>, which closes a row after \<open>cap\<close> column
  accesses, by an auto-precharge upgrade or by injecting a precharge.
\<close>

section \<open>Addresses of nodes\<close>

text \<open>
  The address vector of a node: its own id and those of its ancestors, -1 elsewhere. Row
  policy and refresh managers build it with the same loop over the parents.
\<close>

definition build_addr_vec :: "DRAMDevice \<Rightarrow> nat list \<Rightarrow> AddrVec_t" where
  "build_addr_vec dev node =
     fold (\<lambda>n av. av[m_level n := m_node_id n]) (rev (chain_to (m_root dev) node))
       (replicate (level_count (m_spec dev)) (-1))"

section \<open>ClosedCAP\<close>

record ClosedCAPRowPolicy =
  m_cap :: int
  m_cmd_prepb :: int
  m_cmd_rd :: int
  m_cmd_wr :: int
  m_cmd_rda :: int
  m_cmd_wra :: int
  m_has_ap :: bool
  m_col_accesses :: "int list"
  m_prepb_injected :: "bool list"

fun find_command :: "DRAMSpec \<Rightarrow> string list \<Rightarrow> bool \<Rightarrow> int result" where
  "find_command sp [] required =
     (if required then throw ''ClosedCAP: DRAM standard does not define required RD/WR commands'' else Inr (-1))"
| "find_command sp (name # names) required =
     (if has_command sp name then bindR (get_command_id sp name) (\<lambda>i. Inr (int i))
      else find_command sp names required)"

definition ClosedCAP_init :: "int \<Rightarrow> DRAMDevice \<Rightarrow> ClosedCAPRowPolicy result" where
  "ClosedCAP_init cap dev =
     (let sp = m_spec dev; num_banks = length (m_bank_nodes dev) in
      bindR (get_command_id sp ''PREpb'') (\<lambda>prepb.
      bindR (find_command sp [''RD'', ''RD_S''] True) (\<lambda>rd.
      bindR (find_command sp [''WR'', ''WR_S''] True) (\<lambda>wr.
      bindR (find_command sp [''RDA'', ''RDA_S''] False) (\<lambda>rda.
      bindR (find_command sp [''WRA'', ''WRA_S''] False) (\<lambda>wra.
        Inr \<lparr>m_cap = cap, m_cmd_prepb = int prepb, m_cmd_rd = rd, m_cmd_wr = wr, m_cmd_rda = rda, m_cmd_wra = wra,
             m_has_ap = (rda \<noteq> -1 \<and> wra \<noteq> -1),
             m_col_accesses = replicate num_banks 0, m_prepb_injected = replicate num_banks False\<rparr>))))))"

definition ClosedCAP_try_upgrade :: "ClosedCAPRowPolicy \<Rightarrow> Controller \<Rightarrow> Request \<Rightarrow> Request" where
  "ClosedCAP_try_upgrade pol c req =
     (if \<not> m_has_ap pol \<or> req_addr_vec req = [] then req
      else let i = get_flat_bank_id (m_device c) (req_addr_vec req) in
        if i < 0 \<or> nat i \<ge> length (m_col_accesses pol) then req
        else if m_col_accesses pol ! nat i < m_cap pol then req
        else if req_command req = m_cmd_rd pol \<and> ctrl_check_timing c (nat (m_cmd_rda pol)) (req_addr_vec req)
          then req\<lparr>req_command := m_cmd_rda pol, req_final_command := m_cmd_rda pol\<rparr>
        else if req_command req = m_cmd_wr pol \<and> ctrl_check_timing c (nat (m_cmd_wra pol)) (req_addr_vec req)
          then req\<lparr>req_command := m_cmd_wra pol, req_final_command := m_cmd_wra pol\<rparr>
        else req)"

definition reset_cap :: "int \<Rightarrow> ClosedCAPRowPolicy \<Rightarrow> ClosedCAPRowPolicy" where
  "reset_cap i pol =
     pol\<lparr>m_col_accesses := (m_col_accesses pol)[nat i := 0], m_prepb_injected := (m_prepb_injected pol)[nat i := False]\<rparr>"

definition ClosedCAP_on_issue :: "Controller \<Rightarrow> Request \<Rightarrow> ClosedCAPRowPolicy \<Rightarrow> ClosedCAPRowPolicy" where
  "ClosedCAP_on_issue c req pol =
     (let cmd = nat (req_command req); meta = command_meta (spec_of c) ! cmd;
          pol1 = (if is_closing meta then fold reset_cap (get_target_banks (m_device c) cmd (req_addr_vec req)) pol else pol)
      in if is_accessing meta \<and> \<not> is_closing meta \<and> req_addr_vec req \<noteq> []
         then let i = get_flat_bank_id (m_device c) (req_addr_vec req) in
           if 0 \<le> i \<and> nat i < length (m_col_accesses pol1)
           then pol1\<lparr>m_col_accesses := (m_col_accesses pol1)[nat i := m_col_accesses pol1 ! nat i + 1]\<rparr> else pol1
         else pol1)"

definition cap_inject :: "nat \<Rightarrow> ClosedCAPRowPolicy \<times> Controller \<Rightarrow> (ClosedCAPRowPolicy \<times> Controller) result" where
  "cap_inject i s =
     (let pol = fst s; c = snd s in
      if m_col_accesses pol ! i < m_cap pol \<or> m_prepb_injected pol ! i then Inr s
      else let addr = build_addr_vec (m_device c) (m_bank_nodes (m_device c) ! i) in
        if \<not> ctrl_check_timing c (nat (m_cmd_prepb pol)) addr then Inr s
        else bindR (priority_send (Request_Cmd addr (m_cmd_prepb pol)) c) (\<lambda>(ok, c').
          Inr (if ok then pol\<lparr>m_prepb_injected := (m_prepb_injected pol)[i := True]\<rparr> else pol, c')))"

definition ClosedCAP_pre_schedule :: "ClosedCAPRowPolicy \<times> Controller \<Rightarrow> (ClosedCAPRowPolicy \<times> Controller) result" where
  "ClosedCAP_pre_schedule s = foldR cap_inject [0..<length (m_col_accesses (fst s))] s"

section \<open>The policy interface\<close>

datatype row_policy = OpenRowPolicy | ClosedCAP ClosedCAPRowPolicy

fun pre_schedule :: "row_policy \<times> Controller \<Rightarrow> (row_policy \<times> Controller) result" where
  "pre_schedule (OpenRowPolicy, c) = Inr (OpenRowPolicy, c)"
| "pre_schedule (ClosedCAP pol, c) =
     bindR (ClosedCAP_pre_schedule (pol, c)) (\<lambda>(pol', c'). Inr (ClosedCAP pol', c'))"

fun try_upgrade_command :: "row_policy \<Rightarrow> Controller \<Rightarrow> Request \<Rightarrow> Request" where
  "try_upgrade_command OpenRowPolicy c req = req"
| "try_upgrade_command (ClosedCAP pol) c req = ClosedCAP_try_upgrade pol c req"

fun on_issue :: "Controller \<Rightarrow> Request \<Rightarrow> row_policy \<Rightarrow> row_policy" where
  "on_issue c req OpenRowPolicy = OpenRowPolicy"
| "on_issue c req (ClosedCAP pol) = ClosedCAP (ClosedCAP_on_issue c req pol)"

end
