(* ===== verification/Refresh_Managers.thy ===== *)
theory Refresh_Managers
  imports Row_Policies
begin

text \<open>
  \<^verbatim>\<open>ramulator/controller/refresh/impl\<close>: no refresh, all-bank refresh (all scopes at once
  or scattered), per-bank refresh in round-robin order with the pause between sets, and
  the per-bank refresh of the HBM standards. A node pointer is a path; debug output is
  left out.
\<close>

section \<open>All-bank refresh\<close>

definition all_bank_refresh_scopes :: "(string \<times> string) list" where
  "all_bank_refresh_scopes =
     [(''DDR3'', ''Rank''), (''DDR4'', ''Rank''), (''DDR5'', ''Rank''), (''LPDDR5'', ''Rank''), (''LPDDR6'', ''Rank''),
      (''GDDR6'', ''Channel''), (''GDDR7'', ''Channel''), (''HBM1'', ''Channel''), (''HBM2'', ''PseudoChannel''),
      (''HBM3'', ''PseudoChannel''), (''HBM4'', ''PseudoChannel'')]"

definition all_bank_refresh_scope_for :: "DRAMSpec \<Rightarrow> string result" where
  "all_bank_refresh_scope_for sp =
     (case map_of all_bank_refresh_scopes (standard_name sp) of
        None \<Rightarrow> throw ''AllBank refresh: no default scope for DRAM standard''
      | Some scope \<Rightarrow> Inr scope)"

record AllBankRefresh =
  ab_next_refresh_cycle :: Clk_t
  ab_cmd_refab :: int
  ab_nrefi :: int
  ab_scatter_enabled :: bool
  ab_ref_nodes :: "nat list list"
  ab_next_scattered :: "Clk_t list"

definition AllBank_init :: "int \<Rightarrow> DRAMDevice \<Rightarrow> AllBankRefresh result" where
  "AllBank_init scatter_interval dev =
     (let sp = m_spec dev in
      bindR (all_bank_refresh_scope_for sp) (\<lambda>scope.
      bindR (get_command_id sp ''REFab'') (\<lambda>refab.
      bindR (get_level_id sp scope) (\<lambda>ref_level.
      bindR (get_timing_value sp ''nREFI'') (\<lambda>nrefi.
        let nodes = paths_at_level ref_level (m_root dev) in
        if nodes = [] then throw ''AllBank refresh: no nodes found at level''
        else if \<not> scatter_interval > 0 then
          Inr \<lparr>ab_next_refresh_cycle = nrefi, ab_cmd_refab = int refab, ab_nrefi = nrefi,
               ab_scatter_enabled = False, ab_ref_nodes = nodes, ab_next_scattered = []\<rparr>
        else if scatter_interval * int (length nodes) > nrefi
          then throw ''AllBank refresh: scatter_interval * number_of_refresh_nodes must be <= nREFI''
        else Inr \<lparr>ab_next_refresh_cycle = -1, ab_cmd_refab = int refab, ab_nrefi = nrefi,
               ab_scatter_enabled = True, ab_ref_nodes = nodes,
               ab_next_scattered = map (\<lambda>i. int (i + 1) * scatter_interval) [0..<length nodes]\<rparr>)))))"

definition send_refresh :: "int \<Rightarrow> nat list \<Rightarrow> Controller \<Rightarrow> Controller result" where
  "send_refresh cmd node c =
     bindR (priority_send (Request_Cmd (build_addr_vec (m_device c) node) cmd) c) (\<lambda>(ok, c').
       if \<not> ok then throw ''Failed to send all-bank refresh!'' else Inr c')"

definition tick_all_at_once :: "AllBankRefresh \<times> Controller \<Rightarrow> (AllBankRefresh \<times> Controller) result" where
  "tick_all_at_once s =
     (let ab = fst s; c = snd s in
      if m_clk c \<noteq> ab_next_refresh_cycle ab then Inr s
      else bindR (foldR (send_refresh (ab_cmd_refab ab)) (ab_ref_nodes ab) c) (\<lambda>c'.
        Inr (ab\<lparr>ab_next_refresh_cycle := ab_next_refresh_cycle ab + ab_nrefi ab\<rparr>, c')))"

definition scattered_step :: "nat \<Rightarrow> AllBankRefresh \<times> Controller \<Rightarrow> (AllBankRefresh \<times> Controller) result" where
  "scattered_step i s =
     (let ab = fst s; c = snd s in
      if m_clk c \<noteq> ab_next_scattered ab ! i then Inr s
      else bindR (send_refresh (ab_cmd_refab ab) (ab_ref_nodes ab ! i) c) (\<lambda>c'.
        Inr (ab\<lparr>ab_next_scattered := (ab_next_scattered ab)[i := ab_next_scattered ab ! i + ab_nrefi ab]\<rparr>, c')))"

definition tick_scattered :: "AllBankRefresh \<times> Controller \<Rightarrow> (AllBankRefresh \<times> Controller) result" where
  "tick_scattered s = foldR scattered_step [0..<length (ab_ref_nodes (fst s))] s"

definition AllBank_tick :: "AllBankRefresh \<times> Controller \<Rightarrow> (AllBankRefresh \<times> Controller) result" where
  "AllBank_tick s = (if ab_scatter_enabled (fst s) then tick_scattered s else tick_all_at_once s)"

section \<open>Per-bank refresh\<close>

record PerBankRefresh =
  pb_next_refresh_cycle :: Clk_t
  pb_cmd_refpb :: int
  pb_nrefipb :: int
  pb_nrfc_pb :: int
  pb_requires_set_pause :: bool
  pb_pending_boundary_bank :: "nat list option"
  pb_pending_boundary_enqueue_clk :: Clk_t
  pb_next_set_allowed_clk :: Clk_t
  pb_bank_nodes :: "nat list list"
  pb_next_bank_idx :: nat

definition PerBank_init :: "DRAMDevice \<Rightarrow> PerBankRefresh result" where
  "PerBank_init dev =
     (let sp = m_spec dev in
      if standard_name sp = ''HBM1'' \<or> has_level sp ''PseudoChannel''
      then throw ''PerBank refresh does not support HBM or PseudoChannel standards''
      else bindR (get_command_id sp ''REFpb'') (\<lambda>refpb.
        bindR (get_level_id sp ''Bank'') (\<lambda>bank_level.
        bindR (get_timing_value sp ''nREFIpb'') (\<lambda>nrefipb.
          let pause = standard_name sp = ''GDDR6'' \<or> standard_name sp = ''GDDR7'' in
          bindR (if pause then get_timing_value sp ''nRFCpb'' else Inr (-1)) (\<lambda>nrfc.
            Inr \<lparr>pb_next_refresh_cycle = nrefipb, pb_cmd_refpb = int refpb, pb_nrefipb = nrefipb, pb_nrfc_pb = nrfc,
                 pb_requires_set_pause = pause, pb_pending_boundary_bank = None,
                 pb_pending_boundary_enqueue_clk = -1, pb_next_set_allowed_clk = 0,
                 pb_bank_nodes = paths_at_level bank_level (m_root dev), pb_next_bank_idx = 0\<rparr>)))))"

text \<open>\<^verbatim>\<open>node->m_cmd_history[cmd]\<close>, empty for a pointer that leads nowhere.\<close>

definition history_at :: "DRAMDevice \<Rightarrow> nat list \<Rightarrow> nat \<Rightarrow> Clk_t list" where
  "history_at dev node cmd = (case node_at (m_root dev) node of None \<Rightarrow> [] | Some d \<Rightarrow> m_cmd_history d ! cmd)"

definition PerBank_observe :: "PerBankRefresh \<Rightarrow> Controller \<Rightarrow> PerBankRefresh result" where
  "PerBank_observe pb c =
     (case pb_pending_boundary_bank pb of
        None \<Rightarrow> Inr pb
      | Some bank \<Rightarrow>
          (case history_at (m_device c) bank (nat (pb_cmd_refpb pb)) of
             [] \<Rightarrow> throw ''PerBank refresh requires Bank-level REFpb timing history''
           | issue_clk # _ \<Rightarrow>
               Inr (if issue_clk \<ge> pb_pending_boundary_enqueue_clk pb
                    then pb\<lparr>pb_pending_boundary_bank := None, pb_pending_boundary_enqueue_clk := -1,
                            pb_next_set_allowed_clk := issue_clk + pb_nrfc_pb pb\<rparr>
                    else pb)))"

definition PerBank_tick :: "PerBankRefresh \<times> Controller \<Rightarrow> (PerBankRefresh \<times> Controller) result" where
  "PerBank_tick s =
     (let c = snd s in
      bindR (PerBank_observe (fst s) c) (\<lambda>pb.
        if m_clk c < pb_next_refresh_cycle pb \<or> pb_pending_boundary_bank pb \<noteq> None \<or> m_clk c < pb_next_set_allowed_clk pb
        then Inr (pb, c)
        else let i = pb_next_bank_idx pb; n = length (pb_bank_nodes pb); bank = pb_bank_nodes pb ! i in
          bindR (priority_send (Request_Cmd (build_addr_vec (m_device c) bank) (pb_cmd_refpb pb)) c) (\<lambda>(ok, c').
            if \<not> ok then throw ''Failed to send per-bank refresh!''
            else let pb1 = (if pb_requires_set_pause pb \<and> i + 1 = n
                            then pb\<lparr>pb_pending_boundary_bank := Some bank, pb_pending_boundary_enqueue_clk := m_clk c\<rparr>
                            else pb)
                 in Inr (pb1\<lparr>pb_next_bank_idx := (i + 1) mod n,
                             pb_next_refresh_cycle := pb_next_refresh_cycle pb + pb_nrefipb pb\<rparr>, c'))))"

section \<open>Per-bank refresh of the HBM standards\<close>

record BankRef =
  br_node :: "nat list option"
  br_scope :: int
  br_flat_bank :: int

record RefpbSetState =
  banks_by_flat :: "BankRef list"
  rs_pending_boundary_bank :: "nat list option"
  rs_pending_boundary_enqueue_clk :: Clk_t
  rs_next_block_allowed_clk :: Clk_t

record HBMPerBankRefreshCore =
  hb_cmd_refpb :: int
  hb_level_scope :: nat
  hb_level_sid :: "nat option"
  hb_level_bg :: nat
  hb_level_bank :: nat
  hb_scope_count :: int
  hb_banks_per_group :: int
  hb_banks_per_sid :: int
  hb_banks_per_scope :: int
  hb_boundary_block_size :: int
  hb_nrefipb :: int
  hb_nrfc_pb :: int
  hb_next_flat_bank :: nat
  hb_next_refresh_clk :: Clk_t
  hb_sets :: "RefpbSetState list"
  hb_pending_refpbs :: "BankRef list"

definition flat_bank_in_scope :: "HBMPerBankRefreshCore \<Rightarrow> AddrVec_t \<Rightarrow> int" where
  "flat_bank_in_scope hb addr_vec =
     (let sid = (case hb_level_sid hb of Some l \<Rightarrow> addr_vec ! l | None \<Rightarrow> 0)
      in sid * hb_banks_per_sid hb + (addr_vec ! hb_level_bg hb * hb_banks_per_group hb + addr_vec ! hb_level_bank hb))"

definition place_bank ::
  "HBMPerBankRefreshCore \<Rightarrow> DRAMDevice \<Rightarrow> nat list \<Rightarrow> RefpbSetState list \<Rightarrow> RefpbSetState list result" where
  "place_bank hb dev node sets =
     (let av = build_addr_vec dev node; scope = nat (av ! hb_level_scope hb); flat = nat (flat_bank_in_scope hb av);
          st = sets ! scope
      in if br_node (banks_by_flat st ! flat) \<noteq> None
         then throw ''HBMPerBankRefresh found duplicate bank node in a REFpb set''
         else Inr (sets[scope := st\<lparr>banks_by_flat := (banks_by_flat st)[flat :=
                \<lparr>br_node = Some node, br_scope = int scope, br_flat_bank = int flat\<rparr>]\<rparr>]))"

definition build_refpb_sets :: "HBMPerBankRefreshCore \<Rightarrow> DRAMDevice \<Rightarrow> RefpbSetState list result" where
  "build_refpb_sets hb dev =
     bindR (foldR (place_bank hb dev) (paths_at_level (hb_level_bank hb) (m_root dev))
        (replicate (nat (hb_scope_count hb))
           \<lparr>banks_by_flat = replicate (nat (hb_banks_per_scope hb)) \<lparr>br_node = None, br_scope = -1, br_flat_bank = -1\<rparr>,
            rs_pending_boundary_bank = None, rs_pending_boundary_enqueue_clk = -1, rs_next_block_allowed_clk = 0\<rparr>))
       (\<lambda>sets. if list_ex (\<lambda>st. list_ex (\<lambda>b. br_node b = None) (banks_by_flat st)) sets
               then throw ''HBMPerBankRefresh found an incomplete REFpb set'' else Inr sets)"

definition HBMPerBank_init :: "DRAMDevice \<Rightarrow> HBMPerBankRefreshCore result" where
  "HBMPerBank_init dev =
     (let sp = m_spec dev; name = standard_name sp in
      if name \<noteq> ''HBM1'' \<and> name \<noteq> ''HBM2'' \<and> name \<noteq> ''HBM3'' \<and> name \<noteq> ''HBM4''
      then throw ''HBMPerBankRefresh requires an HBM1, HBM2, HBM3, or HBM4 standard''
      else bindR (get_command_id sp ''REFpb'') (\<lambda>refpb.
        bindR (if has_level sp ''PseudoChannel'' then get_level_id sp ''PseudoChannel'' else get_level_id sp ''Channel'') (\<lambda>scope.
        bindR (if has_level sp ''Sid'' then bindR (get_level_id sp ''Sid'') (\<lambda>l. Inr (Some l)) else Inr None) (\<lambda>sid.
        bindR (get_level_id sp ''BankGroup'') (\<lambda>bg.
        bindR (get_level_id sp ''Bank'') (\<lambda>bank.
        bindR (if sid \<noteq> None then get_level_size sp ''Sid'' else Inr 1) (\<lambda>sid_count.
        bindR (get_level_size sp ''BankGroup'') (\<lambda>bank_groups.
        bindR (get_level_size sp ''Bank'') (\<lambda>banks_per_group.
        bindR (get_timing_value sp ''nREFIpb'') (\<lambda>nrefipb.
        bindR (get_timing_value sp ''nRFCpb'') (\<lambda>nrfc.
          let per_sid = bank_groups * banks_per_group;
              per_scope = sid_count * per_sid;
              hb = \<lparr>hb_cmd_refpb = int refpb, hb_level_scope = scope, hb_level_sid = sid, hb_level_bg = bg, hb_level_bank = bank,
                    hb_scope_count = level_sizes (organization sp) ! scope, hb_banks_per_group = banks_per_group,
                    hb_banks_per_sid = per_sid, hb_banks_per_scope = per_scope,
                    hb_boundary_block_size = (if name = ''HBM3'' \<or> name = ''HBM4'' then per_sid else per_scope),
                    hb_nrefipb = nrefipb, hb_nrfc_pb = nrfc, hb_next_flat_bank = 0, hb_next_refresh_clk = nrefipb,
                    hb_sets = [], hb_pending_refpbs = []\<rparr>
          in bindR (build_refpb_sets hb dev) (\<lambda>sets. Inr (hb\<lparr>hb_sets := sets\<rparr>)))))))))))))"

definition observe_set :: "HBMPerBankRefreshCore \<Rightarrow> Controller \<Rightarrow> RefpbSetState \<Rightarrow> RefpbSetState result" where
  "observe_set hb c st =
     (case rs_pending_boundary_bank st of
        None \<Rightarrow> Inr st
      | Some bank \<Rightarrow>
          (case history_at (m_device c) bank (nat (hb_cmd_refpb hb)) of
             [] \<Rightarrow> throw ''HBMPerBankRefresh requires Bank-level REFpb timing history''
           | issue_clk # _ \<Rightarrow>
               Inr (if issue_clk < rs_pending_boundary_enqueue_clk st then st
                    else st\<lparr>rs_pending_boundary_bank := None, rs_pending_boundary_enqueue_clk := -1,
                            rs_next_block_allowed_clk := issue_clk + hb_nrfc_pb hb\<rparr>)))"

definition observe_boundary_refpbs :: "HBMPerBankRefreshCore \<Rightarrow> Controller \<Rightarrow> HBMPerBankRefreshCore result" where
  "observe_boundary_refpbs hb c =
     bindR (foldR (\<lambda>st sets. bindR (observe_set hb c st) (\<lambda>st'. Inr (sets @ [st']))) (hb_sets hb) [])
       (\<lambda>sets. Inr (hb\<lparr>hb_sets := sets\<rparr>))"

definition seed_pending_refpbs :: "HBMPerBankRefreshCore \<Rightarrow> Controller \<Rightarrow> bool \<times> HBMPerBankRefreshCore" where
  "seed_pending_refpbs hb c =
     (if list_ex (\<lambda>st. rs_pending_boundary_bank st \<noteq> None \<or> m_clk c < rs_next_block_allowed_clk st) (hb_sets hb)
      then (False, hb)
      else (True, hb\<lparr>hb_pending_refpbs := hb_pending_refpbs hb @
                       map (\<lambda>scope. banks_by_flat (hb_sets hb ! scope) ! hb_next_flat_bank hb) [0..<nat (hb_scope_count hb)],
                     hb_next_flat_bank := (hb_next_flat_bank hb + 1) mod nat (hb_banks_per_scope hb)\<rparr>))"

definition service_pending_refpb ::
  "HBMPerBankRefreshCore \<times> Controller \<Rightarrow> (bool \<times> HBMPerBankRefreshCore \<times> Controller) result" where
  "service_pending_refpb s =
     (let hb = fst s; c = snd s in
      case hb_pending_refpbs hb of
        [] \<Rightarrow> Inr (False, hb, c)
      | pending # rest \<Rightarrow>
          (case br_node pending of
             None \<Rightarrow> Inr (True, hb, c)
           | Some node \<Rightarrow>
             bindR (priority_send (Request_Cmd (build_addr_vec (m_device c) node) (hb_cmd_refpb hb)) c) (\<lambda>(ok, c').
               if \<not> ok then Inr (True, hb, c')
               else let scope = nat (br_scope pending); hb1 = hb\<lparr>hb_pending_refpbs := rest\<rparr> in
                 Inr (True,
                   if (br_flat_bank pending + 1) mod hb_boundary_block_size hb = 0
                   then hb1\<lparr>hb_sets := (hb_sets hb)[scope := (hb_sets hb ! scope)\<lparr>rs_pending_boundary_bank := Some node,
                                                        rs_pending_boundary_enqueue_clk := m_clk c\<rparr>]\<rparr>
                   else hb1, c'))))"

definition HBMPerBank_tick ::
  "HBMPerBankRefreshCore \<times> Controller \<Rightarrow> (HBMPerBankRefreshCore \<times> Controller) result" where
  "HBMPerBank_tick s =
     bindR (observe_boundary_refpbs (fst s) (snd s)) (\<lambda>hb.
     bindR (service_pending_refpb (hb, snd s)) (\<lambda>(busy, hb, c).
       if busy then Inr (hb, c)
       else if m_clk c < hb_next_refresh_clk hb then Inr (hb, c)
       else (case seed_pending_refpbs hb c of
           (False, hb) \<Rightarrow> Inr (hb, c)
         | (True, hb) \<Rightarrow> bindR (service_pending_refpb (hb, c)) (\<lambda>(_, hb, c).
             Inr (hb\<lparr>hb_next_refresh_clk := hb_next_refresh_clk hb + hb_nrefipb hb\<rparr>, c)))))"

section \<open>The refresh interface\<close>

datatype refresh_manager =
    NoRefresh | AllBank AllBankRefresh | PerBank PerBankRefresh | HBMPerBank HBMPerBankRefreshCore

fun refresh_tick :: "refresh_manager \<times> Controller \<Rightarrow> (refresh_manager \<times> Controller) result" where
  "refresh_tick (NoRefresh, c) = Inr (NoRefresh, c)"
| "refresh_tick (AllBank ab, c) = bindR (AllBank_tick (ab, c)) (\<lambda>(ab, c). Inr (AllBank ab, c))"
| "refresh_tick (PerBank pb, c) = bindR (PerBank_tick (pb, c)) (\<lambda>(pb, c). Inr (PerBank pb, c))"
| "refresh_tick (HBMPerBank hb, c) = bindR (HBMPerBank_tick (hb, c)) (\<lambda>(hb, c). Inr (HBMPerBank hb, c))"

end
