(* ===== verification/Activation_Trackers.thy ===== *)
theory Activation_Trackers
  imports Refresh_Managers Complex_Main
begin

text \<open>
  \<^verbatim>\<open>ramulator/controller/plugin/impl\<close>, the plugins that count activations and answer with a
  maintenance request: \<^verbatim>\<open>oracle_rh.cpp\<close>, \<^verbatim>\<open>graphene.cpp\<close>, \<^verbatim>\<open>twice.cpp\<close>, \<^verbatim>\<open>para.cpp\<close> and
  \<^verbatim>\<open>rfm_manager.cpp\<close>. Each hook is split into what it does to its own tables
  (\<open>_observe\<close>, which also returns the requests it builds) and the sending of those requests
  through the priority buffer of the controller. Debug output is left out.

  An \<^verbatim>\<open>unordered_map\<close> from rows to counts is an association list. Where the code iterates
  over one and the order matters, the order is a parameter of the plugin. The random
  numbers of \<^verbatim>\<open>PARA\<close> are a parameter too: the sequence of values its distribution draws.
  A \<^verbatim>\<open>float\<close> is the rational number it stands for.
\<close>

section \<open>What the hooks share\<close>

type_synonym counter_table = "(int \<times> int) list"

text \<open>The guard of every counting hook: the issued command opens a row of a single bank.\<close>

definition opens_one_bank :: "DRAMSpec \<Rightarrow> Request \<Rightarrow> bool" where
  "opens_one_bank sp req \<longleftrightarrow>
     is_opening (command_meta sp ! nat (req_command req)) \<and> bank_targets sp ! nat (req_command req) = BT_Single"

definition refreshes_all_banks :: "DRAMSpec \<Rightarrow> Request \<Rightarrow> bool" where
  "refreshes_all_banks sp req \<longleftrightarrow>
     is_refreshing (command_meta sp ! nat (req_command req)) \<and> bank_targets sp ! nat (req_command req) = BT_All"

text \<open>The bank and the row an issued command addresses.\<close>

definition bank_of :: "DRAMDevice \<Rightarrow> Request \<Rightarrow> nat" where
  "bank_of dev req = nat (get_flat_bank_id dev (req_addr_vec req))"

text \<open>\<^verbatim>\<open>m_ctrl->priority_send(r)\<close> for each request, the result not looked at.\<close>

definition send_all :: "Request list \<Rightarrow> Controller \<Rightarrow> Controller result" where
  "send_all = foldR (\<lambda>r c. bindR (priority_send r c) (\<lambda>(ok, c'). Inr c'))"

definition require_vrr :: "DRAMSpec \<Rightarrow> string \<Rightarrow> nat result" where
  "require_vrr sp msg = (if \<not> has_command sp ''VRR'' then throw msg else get_command_id sp ''VRR'')"

section \<open>OracleRH\<close>

record OracleRH =
  or_rh_threshold :: int
  or_vrr_cmd_id :: int
  or_rank_level :: nat
  or_row_level :: nat
  or_num_banks_per_rank :: int
  or_table :: "counter_table list"

definition OracleRH_setup :: "int \<Rightarrow> DRAMDevice \<Rightarrow> OracleRH result" where
  "OracleRH_setup tRH dev =
     (let sp = m_spec dev in
      bindR (require_vrr sp ''OracleRH is not compatible with the DRAM standard'') (\<lambda>vrr.
      bindR (get_level_id sp ''Rank'') (\<lambda>rank.
      bindR (get_level_id sp ''Row'') (\<lambda>row.
      bindR (get_level_size sp ''Rank'') (\<lambda>num_ranks.
        let num_banks = length (m_bank_nodes dev) in
        Inr \<lparr>or_rh_threshold = tRH, or_vrr_cmd_id = int vrr, or_rank_level = rank, or_row_level = row,
             or_num_banks_per_rank = int num_banks div num_ranks, or_table = replicate num_banks []\<rparr>)))))"

text \<open>\<^verbatim>\<open>auto& count = m_table[bank][row]; count++\<close> and the threshold test.\<close>

definition oracle_count :: "int \<Rightarrow> int \<Rightarrow> counter_table \<Rightarrow> bool \<times> counter_table" where
  "oracle_count thr row t =
     (let count = (case map_of t row of None \<Rightarrow> 0 | Some n \<Rightarrow> n) + 1 in
      if count \<ge> thr then (True, AList.update row 0 t) else (False, AList.update row count t))"

definition OracleRH_observe :: "DRAMDevice \<Rightarrow> Request \<Rightarrow> OracleRH \<Rightarrow> Request list \<times> OracleRH" where
  "OracleRH_observe dev req p =
     (let sp = m_spec dev;
          (out, p1) =
            (if opens_one_bank sp req
             then let b = bank_of dev req;
                      (fire, t) = oracle_count (or_rh_threshold p) (req_addr_vec req ! or_row_level p) (or_table p ! b)
                  in (if fire then [Request_Cmd (req_addr_vec req) (or_vrr_cmd_id p)] else [],
                      p\<lparr>or_table := (or_table p)[b := t]\<rparr>)
             else ([], p))
      in (out,
          if refreshes_all_banks sp req
          then let rank = req_addr_vec req ! or_rank_level p; n = or_num_banks_per_rank p
               in p1\<lparr>or_table := fold (\<lambda>i t. t[nat i := []]) [rank * n..(rank + 1) * n - 1] (or_table p1)\<rparr>
          else p1))"

section \<open>Graphene\<close>

record Graphene =
  gr_clk :: "32 word"
  gr_num_table_entries :: int
  gr_activation_threshold :: int
  gr_reset_period_clk :: int
  gr_vrr_cmd_id :: int
  gr_row_level :: nat
  gr_activation_count_table :: "counter_table list"
  gr_spillover_counter :: "int list"

text \<open>
  The dummy rows a table starts with. \<^verbatim>\<open>m_reset_period_clk\<close> is computed in \<^verbatim>\<open>float\<close> from
  the period in nanoseconds and the clock period; its value is an argument here.
\<close>

definition dummy_table :: "int \<Rightarrow> int \<Rightarrow> counter_table" where
  "dummy_table rows entries = map (\<lambda>j. (j, 0)) [-rows..-rows + entries - 1]"

definition Graphene_setup :: "int \<Rightarrow> int \<Rightarrow> int \<Rightarrow> DRAMDevice \<Rightarrow> Graphene result" where
  "Graphene_setup entries thr reset_period_clk dev =
     (let sp = m_spec dev in
      bindR (require_vrr sp ''Graphene is not compatible with the DRAM standard'') (\<lambda>vrr.
      bindR (get_timing_value sp ''tCK_ps'') (\<lambda>_.
      bindR (get_level_id sp ''Rank'') (\<lambda>_.
      bindR (get_level_id sp ''Bank'') (\<lambda>_.
      bindR (get_level_id sp ''Row'') (\<lambda>row.
      bindR (get_level_size sp ''Row'') (\<lambda>rows.
        let num_banks = length (m_bank_nodes dev) in
        Inr \<lparr>gr_clk = 0, gr_num_table_entries = entries, gr_activation_threshold = thr,
             gr_reset_period_clk = reset_period_clk, gr_vrr_cmd_id = int vrr, gr_row_level = row,
             gr_activation_count_table = replicate num_banks (dummy_table rows entries),
             gr_spillover_counter = replicate num_banks 0\<rparr>)))))))"

definition Graphene_pre_schedule :: "Graphene \<Rightarrow> Graphene" where
  "Graphene_pre_schedule p0 =
     (let p = p0\<lparr>gr_clk := gr_clk p0 + 1\<rparr> in
      if sint (gr_clk p) mod gr_reset_period_clk p = 0
      then p\<lparr>gr_activation_count_table := map (map (\<lambda>(row, _). (row, 0))) (gr_activation_count_table p),
             gr_spillover_counter := map (\<lambda>_. 0) (gr_spillover_counter p)\<rparr>
      else p)"

text \<open>
  One activation of a row in the table of its bank: the row found, a row with the spillover
  count evicted, or the spillover counter raised. \<open>iter\<close> is the order of iteration.
\<close>

definition graphene_count ::
  "(counter_table \<Rightarrow> counter_table) \<Rightarrow> int \<Rightarrow> int \<Rightarrow> counter_table \<times> int \<Rightarrow> bool \<times> counter_table \<times> int" where
  "graphene_count iter thr row s =
     (let (t, spill) = s in
      case map_of t row of
        None \<Rightarrow>
          (case find (\<lambda>(_, n). n = spill) (iter t) of
             Some (r, n) \<Rightarrow> (False, AList.update row (n + 1) (AList.delete r t), spill)
           | None \<Rightarrow> (False, t, spill + 1))
      | Some n \<Rightarrow>
          if n + 1 \<ge> thr then (True, AList.update row spill t, spill)
          else (False, AList.update row (n + 1) t, spill))"

definition Graphene_observe ::
  "(counter_table \<Rightarrow> counter_table) \<Rightarrow> DRAMDevice \<Rightarrow> Request \<Rightarrow> Graphene \<Rightarrow> Request list \<times> Graphene" where
  "Graphene_observe iter dev req p =
     (if \<not> opens_one_bank (m_spec dev) req then ([], p)
      else let b = bank_of dev req;
               (fire, t, spill) = graphene_count iter (gr_activation_threshold p) (req_addr_vec req ! gr_row_level p)
                 (gr_activation_count_table p ! b, gr_spillover_counter p ! b)
           in (if fire then [Request_Cmd (req_addr_vec req) (gr_vrr_cmd_id p)] else [],
               p\<lparr>gr_activation_count_table := (gr_activation_count_table p)[b := t],
                 gr_spillover_counter := (gr_spillover_counter p)[b := spill]\<rparr>))"

section \<open>TWiCe\<close>

record TwiCeEntry =
  act_count :: int
  life :: int

record TWiCeIdeal =
  tw_rh_threshold :: int
  tw_pruning_interval_threshold :: rat
  tw_vrr_cmd_id :: int
  tw_row_level :: nat
  tw_table :: "(int \<times> TwiCeEntry) list list"

definition TWiCe_setup :: "int \<Rightarrow> rat \<Rightarrow> DRAMDevice \<Rightarrow> TWiCeIdeal result" where
  "TWiCe_setup thr prune dev =
     (let sp = m_spec dev in
      bindR (require_vrr sp ''TWiCe is not compatible with the DRAM standard'') (\<lambda>vrr.
      bindR (get_level_id sp ''Rank'') (\<lambda>_.
      bindR (get_level_id sp ''Bank'') (\<lambda>_.
      bindR (get_level_id sp ''Row'') (\<lambda>row.
        Inr \<lparr>tw_rh_threshold = thr, tw_pruning_interval_threshold = prune, tw_vrr_cmd_id = int vrr,
             tw_row_level = row, tw_table = replicate (length (m_bank_nodes dev)) []\<rparr>)))))"

definition twice_prune :: "rat \<Rightarrow> (int \<times> TwiCeEntry) list \<Rightarrow> (int \<times> TwiCeEntry) list" where
  "twice_prune thr t =
     map (\<lambda>(row, e). (row, e\<lparr>life := life e + 1\<rparr>))
       (filter (\<lambda>(row, e). \<not> of_int (act_count e) < of_int (life e) * thr) t)"

definition twice_count :: "int \<Rightarrow> int \<Rightarrow> (int \<times> TwiCeEntry) list \<Rightarrow> bool \<times> (int \<times> TwiCeEntry) list" where
  "twice_count thr row t =
     (case map_of t row of
        None \<Rightarrow> (False, AList.update row \<lparr>act_count = 1, life = 0\<rparr> t)
      | Some e \<Rightarrow>
          let e' = e\<lparr>act_count := act_count e + 1\<rparr> in
          if act_count e' \<ge> thr then (True, AList.delete row t) else (False, AList.update row e' t))"

definition TWiCe_observe :: "DRAMDevice \<Rightarrow> Request \<Rightarrow> TWiCeIdeal \<Rightarrow> Request list \<times> TWiCeIdeal" where
  "TWiCe_observe dev req p =
     (if refreshes_all_banks (m_spec dev) req
      then ([], p\<lparr>tw_table := map (twice_prune (tw_pruning_interval_threshold p)) (tw_table p)\<rparr>)
      else if opens_one_bank (m_spec dev) req
      then let b = bank_of dev req;
               (fire, t) = twice_count (tw_rh_threshold p) (req_addr_vec req ! tw_row_level p) (tw_table p ! b)
           in (if fire then [Request_Cmd (req_addr_vec req) (tw_vrr_cmd_id p)] else [],
               p\<lparr>tw_table := (tw_table p)[b := t]\<rparr>)
      else ([], p))"

section \<open>PARA\<close>

record PARA =
  pa_pr_threshold :: rat
  pa_vrr_cmd_id :: int
  pa_drawn :: nat

definition PARA_init :: "rat \<Rightarrow> unit result" where
  "PARA_init thr = (if thr \<le> 0 \<or> thr \<ge> 1 then throw ''PARA: Invalid probability threshold!'' else Inr ())"

definition PARA_setup :: "rat \<Rightarrow> DRAMDevice \<Rightarrow> PARA result" where
  "PARA_setup thr dev =
     bindR (PARA_init thr) (\<lambda>_.
     bindR (require_vrr (m_spec dev) ''PARA is not compatible with the DRAM standard'') (\<lambda>vrr.
       Inr \<lparr>pa_pr_threshold = thr, pa_vrr_cmd_id = int vrr, pa_drawn = 0\<rparr>))"

definition PARA_observe :: "(nat \<Rightarrow> rat) \<Rightarrow> DRAMDevice \<Rightarrow> Request \<Rightarrow> PARA \<Rightarrow> Request list \<times> PARA" where
  "PARA_observe draw dev req p =
     (if \<not> opens_one_bank (m_spec dev) req then ([], p)
      else (if draw (pa_drawn p) \<ge> pa_pr_threshold p then []
            else [Request_Cmd (req_addr_vec req) (pa_vrr_cmd_id p)],
            p\<lparr>pa_drawn := pa_drawn p + 1\<rparr>))"

section \<open>RFMManager\<close>

record RFMManager =
  rfm_thresh :: int
  rfm_mode :: string
  rfm_cmd_id :: nat
  rfm_all_bank_scope_level :: nat
  rfm_bank_level :: nat
  rfm_bankgroup_level :: "nat option"
  rfm_bank_ctrs :: "int list"
  rfm_counter :: nat

definition RFM_init :: "string \<Rightarrow> unit result" where
  "RFM_init mode =
     (if mode \<noteq> ''ab'' \<and> mode \<noteq> ''sb'' \<and> mode \<noteq> ''pb''
      then throw ''RFMManager: rfm_mode must be ab, sb or pb'' else Inr ())"

definition RFM_setup :: "int \<Rightarrow> string \<Rightarrow> DRAMDevice \<Rightarrow> RFMManager result" where
  "RFM_setup thresh mode dev =
     (let sp = m_spec dev;
          cmd_name = (if mode = ''ab'' then ''RFMab'' else if mode = ''sb'' then ''RFMsb'' else ''RFMpb'')
      in bindR (RFM_init mode) (\<lambda>_.
         if \<not> has_command sp cmd_name then throw ''RFMManager: rfm_mode requires DRAM standard with the command''
         else bindR (get_command_id sp cmd_name) (\<lambda>cmd.
           bindR (if has_level sp ''Rank'' then get_level_id sp ''Rank''
                  else if has_level sp ''PseudoChannel'' then get_level_id sp ''PseudoChannel''
                  else get_level_id sp ''Channel'') (\<lambda>scope.
           bindR (get_level_id sp ''Bank'') (\<lambda>bank.
           bindR (get_level_id sp ''Row'') (\<lambda>_.
             Inr \<lparr>rfm_thresh = thresh, rfm_mode = mode, rfm_cmd_id = cmd, rfm_all_bank_scope_level = scope,
                  rfm_bank_level = bank, rfm_bankgroup_level = levels sp ''BankGroup'',
                  rfm_bank_ctrs = replicate (length (m_bank_nodes dev)) 0, rfm_counter = 0\<rparr>))))))"

text \<open>The address of the request: the levels that the mode spans are set to -1.\<close>

definition rfm_addr :: "RFMManager \<Rightarrow> AddrVec_t \<Rightarrow> AddrVec_t" where
  "rfm_addr p av =
     (let av1 = (if rfm_mode p = ''ab'' \<or> rfm_mode p = ''sb''
                 then (case rfm_bankgroup_level p of None \<Rightarrow> av | Some bg \<Rightarrow> av[bg := -1]) else av)
      in if rfm_mode p = ''ab''
         then fold (\<lambda>level a. a[level := -1]) [rfm_all_bank_scope_level p + 1..<rfm_bank_level p + 1] av1
         else av1)"

definition RFM_observe :: "DRAMDevice \<Rightarrow> Request \<Rightarrow> RFMManager \<Rightarrow> Request list \<times> RFMManager" where
  "RFM_observe dev req p =
     (if \<not> opens_one_bank (m_spec dev) req then ([], p)
      else let b = bank_of dev req;
               p1 = p\<lparr>rfm_bank_ctrs := (rfm_bank_ctrs p)[b := rfm_bank_ctrs p ! b + 1]\<rparr>
           in if rfm_bank_ctrs p1 ! b < rfm_thresh p then ([], p1)
              else let addr = rfm_addr p (req_addr_vec req) in
                ([Request_Cmd addr (int (rfm_cmd_id p))],
                 p1\<lparr>rfm_counter := rfm_counter p + 1,
                    rfm_bank_ctrs := fold (\<lambda>i ctrs. ctrs[nat i := 0])
                      (get_target_banks dev (rfm_cmd_id p) addr) (rfm_bank_ctrs p1)\<rparr>))"

text \<open>Unlike the other plugins, this one throws when its request does not fit.\<close>

definition RFM_on_issue :: "Request \<Rightarrow> RFMManager \<times> Controller \<Rightarrow> (RFMManager \<times> Controller) result" where
  "RFM_on_issue req s =
     (let (out, p) = RFM_observe (m_device (snd s)) req (fst s) in
      bindR (foldR (\<lambda>r c. bindR (priority_send r c) (\<lambda>(ok, c').
          if \<not> ok then throw ''RFMManager: priority_send failed (priority buffer full)'' else Inr c')) out (snd s)) (\<lambda>c'.
        Inr (p, c')))"

end
