(* ===== verification/Trr_Plugins.thy ===== *)
theory Trr_Plugins
  imports Activation_Trackers
begin

text \<open>
  \<^verbatim>\<open>ramulator/controller/plugin/impl\<close>, the plugins that model what a chip does during a
  Refresh-Management command: \<^verbatim>\<open>hynix_trr.cpp\<close>, \<^verbatim>\<open>ideal_trr.cpp\<close>, \<^verbatim>\<open>samsung_trr.cpp\<close>; and two
  observers of the command stream, \<^verbatim>\<open>command_counter.cpp\<close> and
  \<^verbatim>\<open>issued_command_validation_hook.cpp\<close>. The order in which \<^verbatim>\<open>unordered_map\<close> iterates is the
  parameter \<open>iter\<close>, the sequence of random draws the parameter \<open>draw\<close>.
\<close>

section \<open>What the three share\<close>

text \<open>The ids and sizes each \<^verbatim>\<open>setup\<close> looks up in the same way; a missing id is -1.\<close>

record TrrIds =
  trr_act_cmd_id :: int
  trr_vrr_cmd_id :: int
  trr_rfm_ab_cmd_id :: int
  trr_rfm_sb_cmd_id :: int
  trr_rfm_pb_cmd_id :: int
  trr_rank_level :: nat
  trr_bankgroup_level :: "nat option"
  trr_bank_level :: nat
  trr_row_level :: nat
  trr_num_banks_per_rank :: int
  trr_num_banks_per_bankgroup :: int

definition optional_command :: "DRAMSpec \<Rightarrow> string \<Rightarrow> int" where
  "optional_command sp name = (case commands sp name of None \<Rightarrow> -1 | Some i \<Rightarrow> int i)"

definition trr_setup :: "string \<Rightarrow> DRAMDevice \<Rightarrow> TrrIds result" where
  "trr_setup who dev =
     (let sp = m_spec dev in
      if \<not> has_command sp ''VRR'' then throw (who @ '' requires a DRAM standard with VRR command'')
      else if \<not> has_command sp ''RFMab'' \<and> \<not> has_command sp ''RFMsb'' \<and> \<not> has_command sp ''RFMpb''
      then throw (who @ '' requires a DRAM standard with at least one of RFMab/RFMsb/RFMpb'')
      else bindR (get_command_id sp ''ACT'') (\<lambda>act.
        bindR (get_command_id sp ''VRR'') (\<lambda>vrr.
        bindR (get_level_id sp ''Rank'') (\<lambda>rank.
        bindR (get_level_id sp ''Bank'') (\<lambda>bank.
        bindR (get_level_id sp ''Row'') (\<lambda>row.
        bindR (if has_level sp ''BankGroup'' then get_level_size sp ''Bank'' else Inr (-1)) (\<lambda>per_group.
        bindR (get_level_size sp ''Rank'') (\<lambda>num_ranks.
          Inr \<lparr>trr_act_cmd_id = int act, trr_vrr_cmd_id = int vrr,
               trr_rfm_ab_cmd_id = optional_command sp ''RFMab'', trr_rfm_sb_cmd_id = optional_command sp ''RFMsb'',
               trr_rfm_pb_cmd_id = optional_command sp ''RFMpb'', trr_rank_level = rank,
               trr_bankgroup_level = levels sp ''BankGroup'', trr_bank_level = bank, trr_row_level = row,
               trr_num_banks_per_rank = int (length (m_bank_nodes dev)) div num_ranks,
               trr_num_banks_per_bankgroup = per_group\<rparr>))))))))"

definition is_rfm :: "TrrIds \<Rightarrow> Request \<Rightarrow> bool" where
  "is_rfm ids req \<longleftrightarrow>
     req_command req = trr_rfm_ab_cmd_id ids \<or> req_command req = trr_rfm_sb_cmd_id ids \<or>
     req_command req = trr_rfm_pb_cmd_id ids"

text \<open>The address of a victim-row refresh: the bank recovered from its flat id.\<close>

definition trr_vrr_addr :: "TrrIds \<Rightarrow> AddrVec_t \<Rightarrow> int \<Rightarrow> int \<Rightarrow> AddrVec_t" where
  "trr_vrr_addr ids av bank_id row =
     (let rank_id = bank_id div trr_num_banks_per_rank ids;
          local_bank = bank_id - rank_id * trr_num_banks_per_rank ids;
          av1 = av[trr_rank_level ids := rank_id];
          av2 = (case trr_bankgroup_level ids of
                   Some bg \<Rightarrow> av1[bg := local_bank div trr_num_banks_per_bankgroup ids,
                                trr_bank_level ids := local_bank mod trr_num_banks_per_bankgroup ids]
                 | None \<Rightarrow> av1[trr_bank_level ids := local_bank])
      in av2[trr_row_level ids := row])"

text \<open>\<^verbatim>\<open>if (priority_send(vrr_req)) s_vrrs_fired++\<close>.\<close>

definition fire_vrr :: "TrrIds \<Rightarrow> AddrVec_t \<Rightarrow> nat \<times> Controller \<Rightarrow> (nat \<times> Controller) result" where
  "fire_vrr ids addr s =
     bindR (priority_send (Request_Cmd addr (trr_vrr_cmd_id ids)) (snd s)) (\<lambda>(ok, c).
       Inr (if ok then fst s + 1 else fst s, c))"

text \<open>The first \<open>k\<close> entries by count; the order among equal counts is that of \<open>iter\<close>.\<close>

definition top_rows :: "(counter_table \<Rightarrow> counter_table) \<Rightarrow> int \<Rightarrow> counter_table \<Rightarrow> int list" where
  "top_rows iter k t = map fst (take (nat (min k (int (length t)))) (sort_key (\<lambda>e. - snd e) (iter t)))"

section \<open>HynixTRR\<close>

record HynixTRR =
  hx_ids :: TrrIds
  hx_sample_probability :: rat
  hx_sampled_row :: "int list"
  hx_drawn :: nat
  hx_rfm_observed :: nat
  hx_vrrs_fired :: nat

definition HynixTRR_setup :: "rat \<Rightarrow> DRAMDevice \<Rightarrow> HynixTRR result" where
  "HynixTRR_setup prob dev =
     (if prob \<le> 0 \<or> prob > 1 then throw ''HynixTRR: sample_probability must be in (0, 1]''
      else bindR (trr_setup ''HynixTRR'' dev) (\<lambda>ids.
        Inr \<lparr>hx_ids = ids, hx_sample_probability = prob,
             hx_sampled_row = replicate (length (m_bank_nodes dev)) (-1), hx_drawn = 0,
             hx_rfm_observed = 0, hx_vrrs_fired = 0\<rparr>))"

definition HynixTRR_process_act :: "(nat \<Rightarrow> rat) \<Rightarrow> DRAMDevice \<Rightarrow> Request \<Rightarrow> HynixTRR \<Rightarrow> HynixTRR" where
  "HynixTRR_process_act draw dev req p =
     (let p1 = p\<lparr>hx_drawn := hx_drawn p + 1\<rparr> in
      if draw (hx_drawn p) \<ge> hx_sample_probability p then p1
      else p1\<lparr>hx_sampled_row := (hx_sampled_row p)[bank_of dev req := req_addr_vec req ! trr_row_level (hx_ids p)]\<rparr>)"

definition HynixTRR_process_rfm :: "Request \<Rightarrow> int \<Rightarrow> HynixTRR \<times> Controller \<Rightarrow> (HynixTRR \<times> Controller) result" where
  "HynixTRR_process_rfm req bank_id s =
     (let p = fst s; c = snd s; row = hx_sampled_row p ! nat bank_id in
      if row < 0 then Inr s
      else bindR (fire_vrr (hx_ids p) (trr_vrr_addr (hx_ids p) (req_addr_vec req) bank_id row) (hx_vrrs_fired p, c)) (\<lambda>(n, c').
        Inr (p\<lparr>hx_vrrs_fired := n, hx_sampled_row := (hx_sampled_row p)[nat bank_id := -1]\<rparr>, c')))"

definition HynixTRR_on_issue ::
  "(nat \<Rightarrow> rat) \<Rightarrow> Request \<Rightarrow> HynixTRR \<times> Controller \<Rightarrow> (HynixTRR \<times> Controller) result" where
  "HynixTRR_on_issue draw req s =
     (let p = fst s; c = snd s in
      if is_rfm (hx_ids p) req
      then foldR (HynixTRR_process_rfm req) (get_target_banks (m_device c) (nat (req_command req)) (req_addr_vec req))
             (p\<lparr>hx_rfm_observed := hx_rfm_observed p + 1\<rparr>, c)
      else if req_command req \<noteq> trr_act_cmd_id (hx_ids p) then Inr s
      else Inr (HynixTRR_process_act draw (m_device c) req p, c))"

section \<open>IdealTRR and SamsungTRR\<close>

record IdealTRR =
  it_ids :: TrrIds
  it_num_rows_per_rfm :: int
  it_counter_table :: "counter_table list"
  it_rfm_observed :: nat
  it_vrrs_fired :: nat

definition IdealTRR_setup :: "int \<Rightarrow> DRAMDevice \<Rightarrow> IdealTRR result" where
  "IdealTRR_setup rows dev =
     (if rows < 1 then throw ''IdealTRR: num_rows_per_rfm must be >= 1''
      else bindR (trr_setup ''IdealTRR'' dev) (\<lambda>ids.
        Inr \<lparr>it_ids = ids, it_num_rows_per_rfm = rows, it_counter_table = replicate (length (m_bank_nodes dev)) [],
             it_rfm_observed = 0, it_vrrs_fired = 0\<rparr>))"

definition IdealTRR_process_act :: "DRAMDevice \<Rightarrow> Request \<Rightarrow> IdealTRR \<Rightarrow> IdealTRR" where
  "IdealTRR_process_act dev req p =
     (let b = bank_of dev req; t = it_counter_table p ! b; row = req_addr_vec req ! trr_row_level (it_ids p)
      in p\<lparr>it_counter_table := (it_counter_table p)[b :=
             AList.update row ((case map_of t row of None \<Rightarrow> 0 | Some n \<Rightarrow> n) + 1) t]\<rparr>)"

definition IdealTRR_process_rfm ::
  "(counter_table \<Rightarrow> counter_table) \<Rightarrow> Request \<Rightarrow> int \<Rightarrow> IdealTRR \<times> Controller \<Rightarrow> (IdealTRR \<times> Controller) result" where
  "IdealTRR_process_rfm iter req bank_id s =
     foldR (\<lambda>row s. let p = fst s; c = snd s; b = nat bank_id in
         bindR (fire_vrr (it_ids p) (trr_vrr_addr (it_ids p) (req_addr_vec req) bank_id row) (it_vrrs_fired p, c)) (\<lambda>(n, c').
           Inr (p\<lparr>it_vrrs_fired := n,
                  it_counter_table := (it_counter_table p)[b := AList.update row 0 (it_counter_table p ! b)]\<rparr>, c')))
       (top_rows iter (it_num_rows_per_rfm (fst s)) (it_counter_table (fst s) ! nat bank_id)) s"

definition IdealTRR_on_issue ::
  "(counter_table \<Rightarrow> counter_table) \<Rightarrow> Request \<Rightarrow> IdealTRR \<times> Controller \<Rightarrow> (IdealTRR \<times> Controller) result" where
  "IdealTRR_on_issue iter req s =
     (let p = fst s; c = snd s in
      if is_rfm (it_ids p) req
      then foldR (IdealTRR_process_rfm iter req) (get_target_banks (m_device c) (nat (req_command req)) (req_addr_vec req))
             (p\<lparr>it_rfm_observed := it_rfm_observed p + 1\<rparr>, c)
      else if req_command req \<noteq> trr_act_cmd_id (it_ids p) then Inr s
      else Inr (IdealTRR_process_act (m_device c) req p, c))"

record SamsungTRR =
  sx_ids :: TrrIds
  sx_num_table_entries :: int
  sx_num_rows_per_rfm :: int
  sx_counter_table :: "counter_table list"
  sx_spillover_counter :: "int list"
  sx_rfm_observed :: nat
  sx_vrrs_fired :: nat

definition SamsungTRR_setup :: "int \<Rightarrow> int \<Rightarrow> DRAMDevice \<Rightarrow> SamsungTRR result" where
  "SamsungTRR_setup entries rows dev =
     (if rows < 1 then throw ''SamsungTRR: num_rows_per_rfm must be >= 1''
      else bindR (trr_setup ''SamsungTRR'' dev) (\<lambda>ids.
        Inr \<lparr>sx_ids = ids, sx_num_table_entries = entries, sx_num_rows_per_rfm = rows,
             sx_counter_table = replicate (length (m_bank_nodes dev)) [],
             sx_spillover_counter = replicate (length (m_bank_nodes dev)) 0, sx_rfm_observed = 0, sx_vrrs_fired = 0\<rparr>))"

definition samsung_count ::
  "(counter_table \<Rightarrow> counter_table) \<Rightarrow> int \<Rightarrow> int \<Rightarrow> counter_table \<times> int \<Rightarrow> counter_table \<times> int" where
  "samsung_count iter entries row s =
     (let (t, spill) = s in
      case map_of t row of
        Some n \<Rightarrow> (AList.update row (n + 1) t, spill)
      | None \<Rightarrow>
          if int (length t) < entries then (AList.update row (spill + 1) t, spill)
          else (case find (\<lambda>(_, n). n = spill) (iter t) of
                  Some (r, n) \<Rightarrow> (AList.update row (n + 1) (AList.delete r t), spill)
                | None \<Rightarrow> (t, spill + 1)))"

definition SamsungTRR_process_act ::
  "(counter_table \<Rightarrow> counter_table) \<Rightarrow> DRAMDevice \<Rightarrow> Request \<Rightarrow> SamsungTRR \<Rightarrow> SamsungTRR" where
  "SamsungTRR_process_act iter dev req p =
     (let b = bank_of dev req;
          (t, spill) = samsung_count iter (sx_num_table_entries p) (req_addr_vec req ! trr_row_level (sx_ids p))
            (sx_counter_table p ! b, sx_spillover_counter p ! b)
      in p\<lparr>sx_counter_table := (sx_counter_table p)[b := t], sx_spillover_counter := (sx_spillover_counter p)[b := spill]\<rparr>)"

definition SamsungTRR_process_rfm ::
  "(counter_table \<Rightarrow> counter_table) \<Rightarrow> Request \<Rightarrow> int \<Rightarrow> SamsungTRR \<times> Controller \<Rightarrow> (SamsungTRR \<times> Controller) result" where
  "SamsungTRR_process_rfm iter req bank_id s =
     foldR (\<lambda>row s. let p = fst s; c = snd s; b = nat bank_id in
         bindR (fire_vrr (sx_ids p) (trr_vrr_addr (sx_ids p) (req_addr_vec req) bank_id row) (sx_vrrs_fired p, c)) (\<lambda>(n, c').
           Inr (p\<lparr>sx_vrrs_fired := n,
                  sx_counter_table := (sx_counter_table p)[b :=
                    AList.update row (sx_spillover_counter p ! b) (sx_counter_table p ! b)]\<rparr>, c')))
       (top_rows iter (sx_num_rows_per_rfm (fst s)) (sx_counter_table (fst s) ! nat bank_id)) s"

definition SamsungTRR_on_issue ::
  "(counter_table \<Rightarrow> counter_table) \<Rightarrow> Request \<Rightarrow> SamsungTRR \<times> Controller \<Rightarrow> (SamsungTRR \<times> Controller) result" where
  "SamsungTRR_on_issue iter req s =
     (let p = fst s; c = snd s in
      if is_rfm (sx_ids p) req
      then foldR (SamsungTRR_process_rfm iter req) (get_target_banks (m_device c) (nat (req_command req)) (req_addr_vec req))
             (p\<lparr>sx_rfm_observed := sx_rfm_observed p + 1\<rparr>, c)
      else if req_command req \<noteq> trr_act_cmd_id (sx_ids p) then Inr s
      else Inr (SamsungTRR_process_act iter (m_device c) req p, c))"

section \<open>Observers\<close>

record CommandCounter = cc_counters :: "(int \<times> nat) list"

definition CommandCounter_setup :: "string list \<Rightarrow> DRAMDevice \<Rightarrow> CommandCounter result" where
  "CommandCounter_setup names dev =
     foldR (\<lambda>name p. bindR (get_command_id (m_spec dev) name) (\<lambda>i.
         Inr (p\<lparr>cc_counters := AList.update (int i) 0 (cc_counters p)\<rparr>))) names \<lparr>cc_counters = []\<rparr>"

definition CommandCounter_on_issue :: "Request \<Rightarrow> CommandCounter \<Rightarrow> CommandCounter" where
  "CommandCounter_on_issue req p =
     (case map_of (cc_counters p) (req_command req) of
        None \<Rightarrow> p
      | Some n \<Rightarrow> p\<lparr>cc_counters := AList.update (req_command req) (n + 1) (cc_counters p)\<rparr>)"

definition CommandCounter_reset_stats :: "CommandCounter \<Rightarrow> CommandCounter" where
  "CommandCounter_reset_stats p = p\<lparr>cc_counters := map (\<lambda>(i, _). (i, 0)) (cc_counters p)\<rparr>"

record IssuedCommandRecord =
  icr_clk :: Clk_t
  icr_command :: int
  icr_final_command :: int
  icr_addr_vec :: AddrVec_t
  icr_type_id :: int
  icr_source_id :: int

record ValidationHook = vh_issued_commands_this_tick :: "IssuedCommandRecord list"

definition ValidationHook_pre_schedule :: "ValidationHook \<Rightarrow> ValidationHook" where
  "ValidationHook_pre_schedule p = p\<lparr>vh_issued_commands_this_tick := []\<rparr>"

definition ValidationHook_on_issue :: "Controller \<Rightarrow> Request \<Rightarrow> ValidationHook \<Rightarrow> ValidationHook" where
  "ValidationHook_on_issue c req p =
     p\<lparr>vh_issued_commands_this_tick := vh_issued_commands_this_tick p @
         [\<lparr>icr_clk = m_clk c, icr_command = req_command req, icr_final_command = req_final_command req,
           icr_addr_vec = req_addr_vec req, icr_type_id = req_type_id req, icr_source_id = req_source_id req\<rparr>]\<rparr>"

definition take_issued_commands_this_tick :: "ValidationHook \<Rightarrow> IssuedCommandRecord list \<times> ValidationHook" where
  "take_issued_commands_this_tick p = (vh_issued_commands_this_tick p, p\<lparr>vh_issued_commands_this_tick := []\<rparr>)"

end
