(* ===== verification/Plugins.thy ===== *)
theory Plugins
  imports Trr_Plugins
begin

text \<open>
  The plugin interface of \<^verbatim>\<open>ramulator/controller/plugin/i_controller_plugin.h\<close>: dispatch of the
  hooks to the implementations, and the loops of a controller over its plugin list. The
  hooks a plugin does not override are the empty defaults; none of the plugins here
  overrides \<^verbatim>\<open>post_schedule\<close> or \<^verbatim>\<open>on_request_departure_scheduled\<close>.

  A plugin that iterates over a hash map or draws random numbers carries the order, or the
  sequence of draws, as its parameter.
\<close>

datatype plugin =
    OracleRH OracleRH
  | Graphene "counter_table \<Rightarrow> counter_table" Graphene
  | TWiCeIdeal TWiCeIdeal
  | PARA "nat \<Rightarrow> rat" PARA
  | RFMManager RFMManager
  | HynixTRR "nat \<Rightarrow> rat" HynixTRR
  | IdealTRR "counter_table \<Rightarrow> counter_table" IdealTRR
  | SamsungTRR "counter_table \<Rightarrow> counter_table" SamsungTRR
  | CommandCounter CommandCounter
  | IssuedCommandValidationHook ValidationHook

fun plugin_pre_schedule :: "plugin \<Rightarrow> plugin" where
  "plugin_pre_schedule (Graphene iter p) = Graphene iter (Graphene_pre_schedule p)"
| "plugin_pre_schedule (IssuedCommandValidationHook p) = IssuedCommandValidationHook (ValidationHook_pre_schedule p)"
| "plugin_pre_schedule p = p"

text \<open>Only the command counter overrides \<^verbatim>\<open>reset_stats\<close>.\<close>

fun plugin_reset_stats :: "plugin \<Rightarrow> plugin" where
  "plugin_reset_stats (CommandCounter p) = CommandCounter (CommandCounter_reset_stats p)"
| "plugin_reset_stats p = p"

text \<open>An \<open>_observe\<close> function followed by the sending of its requests.\<close>

definition observed :: "('p \<Rightarrow> plugin) \<Rightarrow> Request list \<times> 'p \<Rightarrow> Controller \<Rightarrow> (plugin \<times> Controller) result" where
  "observed mk op c = bindR (send_all (fst op) c) (\<lambda>c'. Inr (mk (snd op), c'))"

fun plugin_on_issue :: "Request \<Rightarrow> plugin \<times> Controller \<Rightarrow> (plugin \<times> Controller) result" where
  "plugin_on_issue req (OracleRH p, c) = observed OracleRH (OracleRH_observe (m_device c) req p) c"
| "plugin_on_issue req (Graphene iter p, c) = observed (Graphene iter) (Graphene_observe iter (m_device c) req p) c"
| "plugin_on_issue req (TWiCeIdeal p, c) = observed TWiCeIdeal (TWiCe_observe (m_device c) req p) c"
| "plugin_on_issue req (PARA draw p, c) = observed (PARA draw) (PARA_observe draw (m_device c) req p) c"
| "plugin_on_issue req (RFMManager p, c) =
     bindR (RFM_on_issue req (p, c)) (\<lambda>(p', c'). Inr (RFMManager p', c'))"
| "plugin_on_issue req (HynixTRR draw p, c) =
     bindR (HynixTRR_on_issue draw req (p, c)) (\<lambda>(p', c'). Inr (HynixTRR draw p', c'))"
| "plugin_on_issue req (IdealTRR iter p, c) =
     bindR (IdealTRR_on_issue iter req (p, c)) (\<lambda>(p', c'). Inr (IdealTRR iter p', c'))"
| "plugin_on_issue req (SamsungTRR iter p, c) =
     bindR (SamsungTRR_on_issue iter req (p, c)) (\<lambda>(p', c'). Inr (SamsungTRR iter p', c'))"
| "plugin_on_issue req (CommandCounter p, c) = Inr (CommandCounter (CommandCounter_on_issue req p), c)"
| "plugin_on_issue req (IssuedCommandValidationHook p, c) =
     Inr (IssuedCommandValidationHook (ValidationHook_on_issue c req p), c)"

text \<open>\<^verbatim>\<open>for (auto* p : m_plugins) p->on_issue(req)\<close>.\<close>

fun plugins_on_issue :: "Request \<Rightarrow> plugin list \<times> Controller \<Rightarrow> (plugin list \<times> Controller) result" where
  "plugins_on_issue req ([], c) = Inr ([], c)"
| "plugins_on_issue req (p # ps, c) =
     bindR (plugin_on_issue req (p, c)) (\<lambda>(p', c1).
     bindR (plugins_on_issue req (ps, c1)) (\<lambda>(ps', c2). Inr (p' # ps', c2)))"

lemma plugins_on_issue_invariant:
  assumes "plugins_on_issue req (ps, c) = Inr (ps', c')" "I c" "\<forall>p \<in> set ps. P p"
    and "\<And>p c p' c'. plugin_on_issue req (p, c) = Inr (p', c') \<Longrightarrow> I c \<Longrightarrow> P p \<Longrightarrow> I c' \<and> P p'"
  shows "I c' \<and> (\<forall>p \<in> set ps'. P p)"
  using assms(1-3)
proof (induction ps arbitrary: c ps' c')
  case (Cons p ps)
  from Cons.prems(1) obtain p1 c1 ps1 where s: "plugin_on_issue req (p, c) = Inr (p1, c1)"
    "plugins_on_issue req (ps, c1) = Inr (ps1, c')" "ps' = p1 # ps1"
    by (auto simp: bindR_eq_Inr_iff)
  from assms(4) [OF s(1)] Cons.prems have "I c1 \<and> P p1" by simp
  with Cons.IH [OF s(2)] Cons.prems(3) s(3) show ?case by auto
qed simp

end
