(* ===== verification/Generic_DDR.thy ===== *)
theory Generic_DDR
  imports Plugins
begin

text \<open>
  The candidate selection of \<^verbatim>\<open>controller_base.cpp\<close> and the tick of
  \<^verbatim>\<open>ramulator/controller/impl/generic_ddr_controller.cpp\<close>, composed of the controller
  state, a scheduler, a refresh manager, a row policy and a list of plugins. The hook
  \<^verbatim>\<open>post_schedule\<close> is the empty default in every modelled policy and plugin.
\<close>

section \<open>Candidates\<close>

text \<open>A candidate is the buffer it lies in and its position; \<open>None\<close> is not valid.\<close>

type_synonym Candidate = "(buf_ref \<times> nat) option"

definition pick_best_ready_from ::
  "scheduler_kind \<Rightarrow> buf_ref \<Rightarrow> (Request \<Rightarrow> bool) \<Rightarrow> Controller \<Rightarrow> (Candidate \<times> Controller) result" where
  "pick_best_ready_from sch ref flt c =
     bindR (get_best_request sch c flt (buffer (get_buf ref c))) (\<lambda>(rs, pick).
       let c1 = set_buf ref ((get_buf ref c)\<lparr>buffer := rs\<rparr>) c in
       case pick of
         None \<Rightarrow> Inr (None, c1)
       | Some it \<Rightarrow>
           if \<not> ctrl_check_timing c1 (nat (req_command (rs ! it))) (req_addr_vec (rs ! it)) then Inr (None, c1)
           else Inr (Some (ref, it), c1))"

definition pick_priority_if :: "(Request \<Rightarrow> bool) \<Rightarrow> Controller \<Rightarrow> (Candidate \<times> Controller) result" where
  "pick_priority_if flt c =
     (case buffer (m_priority_buffer c) of
        [] \<Rightarrow> Inr (None, c)
      | r # rs \<Rightarrow>
          bindR (ctrl_get_preq_command c (nat (req_final_command r)) (req_addr_vec r)) (\<lambda>cmd.
            let r' = r\<lparr>req_command := int cmd\<rparr>;
                c1 = c\<lparr>m_priority_buffer := (m_priority_buffer c)\<lparr>buffer := r' # rs\<rparr>\<rparr>
            in if \<not> ctrl_check_timing c1 cmd (req_addr_vec r') then Inr (None, c1)
               else if would_close_active c1 r' then Inr (None, c1)
               else if \<not> flt r' then Inr (None, c1)
               else Inr (Some (PriorityBuf, 0), c1)))"

definition pick_rw_if :: "scheduler_kind \<Rightarrow> (Request \<Rightarrow> bool) \<Rightarrow> Controller \<Rightarrow> (Candidate \<times> Controller) result" where
  "pick_rw_if sch flt c =
     (let c1 = set_write_mode c;
          ref = (if m_is_write_mode c1 then WriteBuf else ReadBuf)
      in pick_best_ready_from sch ref (\<lambda>req. \<not> would_close_active c1 req \<and> flt req) c1)"

section \<open>The controller\<close>

record GenericDDR =
  g_ctrl :: Controller
  g_scheduler :: scheduler_kind
  g_refresh :: refresh_manager
  g_rowpolicy :: row_policy
  g_plugins :: "plugin list"

definition select_candidate :: "scheduler_kind \<Rightarrow> Controller \<Rightarrow> (Candidate \<times> Controller) result" where
  "select_candidate sch c =
     bindR (pick_best_ready_from sch ActiveBuf (\<lambda>_. True) c) (\<lambda>(cand, c).
     bindR (if cand = None then pick_priority_if (\<lambda>_. True) c else Inr (cand, c)) (\<lambda>(cand, c).
       if cand = None \<and> buf_size (m_priority_buffer c) = 0 then pick_rw_if sch (\<lambda>_. True) c
       else Inr (cand, c)))"

definition replace_at :: "buf_ref \<Rightarrow> nat \<Rightarrow> Request \<Rightarrow> Controller \<Rightarrow> Controller" where
  "replace_at ref it req c = set_buf ref ((get_buf ref c)\<lparr>buffer := (buffer (get_buf ref c))[it := req]\<rparr>) c"

text \<open>The steps for a valid candidate, in the order of the code.\<close>

definition prepare_candidate :: "buf_ref \<Rightarrow> nat \<Rightarrow> row_policy \<Rightarrow> Controller \<Rightarrow> Controller" where
  "prepare_candidate ref it pol c =
     (let c1 = replace_at ref it (try_upgrade_command pol c (buffer (get_buf ref c) ! it)) c
      in if req_is_stat_updated (buffer (get_buf ref c1) ! it) then c1 else update_request_stats ref it c1)"

definition issue_candidate :: "buf_ref \<Rightarrow> nat \<Rightarrow> Controller \<Rightarrow> Controller" where
  "issue_candidate ref it c =
     (let req = buffer (get_buf ref c) ! it; cmd = nat (req_command req)
      in c\<lparr>m_device := issue_command cmd (req_addr_vec req) (m_clk c) (m_device c),
           m_events := m_events c @ [Issued cmd (req_addr_vec req) (m_clk c)]\<rparr>)"

definition advance_request :: "buf_ref \<Rightarrow> nat \<Rightarrow> Controller \<Rightarrow> Controller" where
  "advance_request ref it c =
     (let req = buffer (get_buf ref c) ! it in
      if req_command req = req_final_command req then retire_request ref it c
      else if is_opening (command_meta (spec_of c) ! nat (req_command req)) then promote_to_active ref it c
      else c)"

text \<open>From the issue of the command on: the device, the row policy, the plugins, and the request moves on.\<close>

definition finish_candidate ::
  "buf_ref \<Rightarrow> nat \<Rightarrow> row_policy \<times> plugin list \<times> Controller \<Rightarrow> (row_policy \<times> plugin list \<times> Controller) result" where
  "finish_candidate ref it s =
     (let (pol, ps, c0) = s;
          c = issue_candidate ref it c0;
          req = buffer (get_buf ref c) ! it
      in bindR (plugins_on_issue req (ps, c)) (\<lambda>(ps', c').
           Inr (on_issue c req pol, ps', advance_request ref it c')))"

definition serve_candidate ::
  "buf_ref \<Rightarrow> nat \<Rightarrow> row_policy \<times> plugin list \<times> Controller \<Rightarrow> (row_policy \<times> plugin list \<times> Controller) result" where
  "serve_candidate ref it s =
     (case s of (pol, ps, c) \<Rightarrow> finish_candidate ref it (pol, ps, prepare_candidate ref it pol c))"

definition serve_if_valid ::
  "Candidate \<Rightarrow> row_policy \<times> plugin list \<times> Controller \<Rightarrow> (row_policy \<times> plugin list \<times> Controller) result" where
  "serve_if_valid cand s = (case cand of None \<Rightarrow> Inr s | Some (ref, it) \<Rightarrow> serve_candidate ref it s)"

definition GenericDDR_tick :: "GenericDDR \<Rightarrow> GenericDDR result" where
  "GenericDDR_tick g =
     bindR (refresh_tick (g_refresh g, tick_prologue (g_ctrl g))) (\<lambda>(rf, c1).
     bindR (pre_schedule (g_rowpolicy g, c1)) (\<lambda>(pol, c2).
     bindR (select_candidate (g_scheduler g) c2) (\<lambda>(cand, c3).
     bindR (serve_if_valid cand (pol, map plugin_pre_schedule (g_plugins g), c3)) (\<lambda>(pol', ps, c4).
       Inr (g\<lparr>g_ctrl := c4, g_refresh := rf, g_rowpolicy := pol', g_plugins := ps\<rparr>)))))"

text \<open>\<^verbatim>\<open>reset_stats\<close> of the controller and of its children; only the plugins among them keep counters.\<close>

definition GenericDDR_reset_stats :: "GenericDDR \<Rightarrow> GenericDDR" where
  "GenericDDR_reset_stats g = g\<lparr>g_ctrl := reset_stats (g_ctrl g), g_plugins := map plugin_reset_stats (g_plugins g)\<rparr>"

text \<open>The phases of a successful tick.\<close>

lemma GenericDDR_tick_phases:
  assumes "GenericDDR_tick g = Inr g'"
  obtains rf c1 pol c2 cand c3 pol' ps c4 where
    "refresh_tick (g_refresh g, tick_prologue (g_ctrl g)) = Inr (rf, c1)"
    "pre_schedule (g_rowpolicy g, c1) = Inr (pol, c2)"
    "select_candidate (g_scheduler g) c2 = Inr (cand, c3)"
    "serve_if_valid cand (pol, map plugin_pre_schedule (g_plugins g), c3) = Inr (pol', ps, c4)"
    "g' = g\<lparr>g_ctrl := c4, g_refresh := rf, g_rowpolicy := pol', g_plugins := ps\<rparr>"
  using assms unfolding GenericDDR_tick_def by (auto simp: bindR_eq_Inr_iff Let_def)

lemma finish_candidate_phases:
  assumes "finish_candidate ref it (pol, ps, c) = Inr (pol', ps', c')"
  obtains c1 where
    "plugins_on_issue (buffer (get_buf ref (issue_candidate ref it c)) ! it) (ps, issue_candidate ref it c) = Inr (ps', c1)"
    "c' = advance_request ref it c1"
    "pol' = on_issue (issue_candidate ref it c) (buffer (get_buf ref (issue_candidate ref it c)) ! it) pol"
  using assms unfolding finish_candidate_def by (auto simp: bindR_eq_Inr_iff Let_def)

lemma serve_candidate_phases:
  assumes "serve_candidate ref it (pol, ps, c) = Inr (pol', ps', c')"
  obtains c1 where
    "plugins_on_issue (buffer (get_buf ref (issue_candidate ref it (prepare_candidate ref it pol c))) ! it)
       (ps, issue_candidate ref it (prepare_candidate ref it pol c)) = Inr (ps', c1)"
    "c' = advance_request ref it c1"
    "pol' = on_issue (issue_candidate ref it (prepare_candidate ref it pol c))
       (buffer (get_buf ref (issue_candidate ref it (prepare_candidate ref it pol c))) ! it) pol"
  using assms unfolding serve_candidate_def by (auto elim: finish_candidate_phases)

end
