(* ===== verification/Controller_Inv.thy ===== *)
theory Controller_Inv
  imports Generic_DDR
begin

text \<open>
  The invariant of a controller and its preservation: no buffer exceeds its capacity, the
  index of buffered write addresses is exact, pending reads are kept in the order of
  their departure, and every accepted request is accounted for in exactly one place
  until it is served. The last part is stated on the counters the controller reports.
\<close>

section \<open>The invariant\<close>

abbreviation of_type :: "int \<Rightarrow> Request \<Rightarrow> bool" where
  "of_type t r \<equiv> req_type_id r = t"

definition count_type :: "int \<Rightarrow> Request list \<Rightarrow> nat" where
  "count_type t rs = length (filter (of_type t) rs)"

definition bufs_ok :: "Controller \<Rightarrow> bool" where
  "bufs_ok c \<longleftrightarrow>
     within_capacity (m_active_buffer c) \<and> within_capacity (m_priority_buffer c) \<and>
     within_capacity (m_read_buffer c) \<and> within_capacity (m_write_buffer c)"

definition types_ok :: "Controller \<Rightarrow> bool" where
  "types_ok c \<longleftrightarrow>
     (\<forall>r \<in> set (buffer (m_read_buffer c)). of_type Type_Read r) \<and>
     (\<forall>r \<in> set (buffer (m_write_buffer c)). of_type Type_Write r) \<and>
     (\<forall>r \<in> set (buffer (m_priority_buffer c)). of_type (-1) r)"

definition writes_ok :: "Controller \<Rightarrow> bool" where
  "writes_ok c \<longleftrightarrow>
     m_buffered_write_addrs c = req_addr ` set (buffer (m_write_buffer c)) \<and>
     distinct (map req_addr (buffer (m_write_buffer c)))"

definition pending_ok :: "Controller \<Rightarrow> bool" where
  "pending_ok c \<longleftrightarrow>
     sorted_wrt (\<lambda>p q. pending_gt q p) (m_pending c) \<and>
     (\<forall>p \<in> set (m_pending c). pr_sequence p < m_pending_sequence c \<and> pr_depart p = req_depart (pr_req p))"

text \<open>
  The reads, writes and maintenance requests a controller has accepted and not served yet.
\<close>

definition outstanding :: "Controller \<Rightarrow> nat \<times> nat \<times> nat" where
  "outstanding c =
     (length (m_pending c) + length (buffer (m_read_buffer c)) + count_type Type_Read (buffer (m_active_buffer c)),
      length (buffer (m_write_buffer c)) + count_type Type_Write (buffer (m_active_buffer c)),
      length (buffer (m_priority_buffer c)) + count_type (-1) (buffer (m_active_buffer c)))"

text \<open>The backlog \<open>bl\<close> was outstanding when the counters were last zero.\<close>

definition counts_ok :: "nat \<times> nat \<times> nat \<Rightarrow> Controller \<Rightarrow> bool" where
  "counts_ok bl c \<longleftrightarrow>
     fst bl + s_num_read_reqs (m_stats c) =
       s_num_read_reqs_served (m_stats c) + length (m_pending c) + length (buffer (m_read_buffer c)) +
       count_type Type_Read (buffer (m_active_buffer c)) \<and>
     fst (snd bl) + s_num_write_reqs (m_stats c) =
       s_num_write_reqs_served (m_stats c) + s_num_write_reqs_coalesced (m_stats c) +
       length (buffer (m_write_buffer c)) + count_type Type_Write (buffer (m_active_buffer c)) \<and>
     snd (snd bl) + s_num_maintenance_reqs (m_stats c) =
       s_num_maintenance_reqs_served (m_stats c) + length (buffer (m_priority_buffer c)) +
       count_type (-1) (buffer (m_active_buffer c))"

definition ctrl_inv :: "nat \<times> nat \<times> nat \<Rightarrow> Controller \<Rightarrow> bool" where
  "ctrl_inv bl c \<longleftrightarrow> bufs_ok c \<and> types_ok c \<and> writes_ok c \<and> pending_ok c \<and> counts_ok bl c"

lemmas ctrl_inv_defs = ctrl_inv_def bufs_ok_def types_ok_def writes_ok_def pending_ok_def counts_ok_def

lemma type_consts [simp]: "Type_Read = 0" "Type_Write = 1"
  by (simp_all add: Type_Read_def Type_Write_def)

subsection \<open>What the invariant looks at\<close>

abbreviation req_key :: "Request \<Rightarrow> int \<times> Addr_t" where
  "req_key r \<equiv> (req_type_id r, req_addr r)"

definition buf_keys :: "ReqBuffer \<Rightarrow> (int \<times> Addr_t) list \<times> nat" where
  "buf_keys b = (map req_key (buffer b), max_size b)"

definition stat_keys :: "Stats \<Rightarrow> nat list" where
  "stat_keys s = [s_num_read_reqs s, s_num_write_reqs s, s_num_maintenance_reqs s, s_num_read_reqs_served s,
     s_num_write_reqs_served s, s_num_maintenance_reqs_served s, s_num_write_reqs_coalesced s]"

definition same_view :: "Controller \<Rightarrow> Controller \<Rightarrow> bool" where
  "same_view c c' \<longleftrightarrow>
     buf_keys (m_active_buffer c) = buf_keys (m_active_buffer c') \<and>
     buf_keys (m_priority_buffer c) = buf_keys (m_priority_buffer c') \<and>
     buf_keys (m_read_buffer c) = buf_keys (m_read_buffer c') \<and>
     buf_keys (m_write_buffer c) = buf_keys (m_write_buffer c') \<and>
     m_pending c = m_pending c' \<and> m_pending_sequence c = m_pending_sequence c' \<and>
     m_buffered_write_addrs c = m_buffered_write_addrs c' \<and> stat_keys (m_stats c) = stat_keys (m_stats c')"

lemma same_view_refl [simp]: "same_view c c"
  by (simp add: same_view_def)

lemma same_view_trans [trans]: "same_view c c' \<Longrightarrow> same_view c' c'' \<Longrightarrow> same_view c c''"
  by (simp add: same_view_def)

lemma buf_keysD:
  assumes "buf_keys b = buf_keys b'"
  shows "length (buffer b) = length (buffer b')" "max_size b = max_size b'"
    "map req_type_id (buffer b) = map req_type_id (buffer b')" "map req_addr (buffer b) = map req_addr (buffer b')"
proof -
  have m: "map req_key (buffer b) = map req_key (buffer b')" and "max_size b = max_size b'"
    using assms by (simp_all add: buf_keys_def)
  then show "max_size b = max_size b'" by simp
  from m show "length (buffer b) = length (buffer b')" by (rule map_eq_imp_length_eq)
  from arg_cong [OF m, of "map fst"] arg_cong [OF m, of "map snd"]
  show "map req_type_id (buffer b) = map req_type_id (buffer b')" "map req_addr (buffer b) = map req_addr (buffer b')"
    by (simp_all add: comp_def)
qed

lemma count_type_map: "count_type t rs = length (filter ((=) t) (map req_type_id rs))"
  by (induction rs) (auto simp: count_type_def)

lemma all_type_map: "(\<forall>r \<in> set rs. of_type t r) \<longleftrightarrow> (\<forall>x \<in> set (map req_type_id rs). x = t)"
  by simp

lemma ctrl_inv_view:
  assumes "same_view c c'" "ctrl_inv bl c"
  shows "ctrl_inv bl c'"
proof -
  note v = assms(1) [unfolded same_view_def, THEN conjunct1] assms(1) [unfolded same_view_def, THEN conjunct2, THEN conjunct1]
    assms(1) [unfolded same_view_def, THEN conjunct2, THEN conjunct2, THEN conjunct1]
    assms(1) [unfolded same_view_def, THEN conjunct2, THEN conjunct2, THEN conjunct2, THEN conjunct1]
  note a = buf_keysD [OF v(1)] and p = buf_keysD [OF v(2)] and r = buf_keysD [OF v(3)] and w = buf_keysD [OF v(4)]
  from assms(1) have m: "m_pending c = m_pending c'" "m_pending_sequence c = m_pending_sequence c'"
    "m_buffered_write_addrs c = m_buffered_write_addrs c'" "stat_keys (m_stats c) = stat_keys (m_stats c')"
    by (simp_all add: same_view_def)
  have "req_addr ` set (buffer (m_write_buffer c)) = req_addr ` set (buffer (m_write_buffer c'))"
    using arg_cong [OF w(4), of set] by simp
  with assms(2) show ?thesis
    unfolding ctrl_inv_defs within_capacity_def count_type_map all_type_map a(1,2,3) p(1,2,3) r(1,2,3) w(1,2,3,4) m(1,2,3)
    using m(4) by (simp add: stat_keys_def)
qed

section \<open>Accepting requests\<close>

lemma count_type_simps [simp]:
  "count_type t [] = 0" "count_type t (r # rs) = (if of_type t r then 1 else 0) + count_type t rs"
  "count_type t (xs @ ys) = count_type t xs + count_type t ys"
  by (simp_all add: count_type_def)

text \<open>The queue keeps its order, and a push adds exactly one element.\<close>

lemma pending_gt_trans: "pending_gt p q \<Longrightarrow> pending_gt q r \<Longrightarrow> pending_gt p r"
  by (auto simp: pending_gt_def split: if_splits)

lemma pending_gt_total: "pr_sequence p \<noteq> pr_sequence q \<Longrightarrow> \<not> pending_gt p q \<Longrightarrow> pending_gt q p"
  by (auto simp: pending_gt_def split: if_splits)

lemma set_pending_push [simp]: "set (pending_push p qs) = insert p (set qs)"
  by (induction qs) auto

lemma length_pending_push [simp]: "length (pending_push p qs) = Suc (length qs)"
  by (induction qs) auto

lemma sorted_pending_push:
  "sorted_wrt (\<lambda>p q. pending_gt q p) qs \<Longrightarrow> \<forall>q \<in> set qs. pr_sequence q \<noteq> pr_sequence p \<Longrightarrow>
   sorted_wrt (\<lambda>p q. pending_gt q p) (pending_push p qs)"
proof (induction qs)
  case (Cons q qs)
  show ?case
  proof (cases "pending_gt p q")
    case True
    with Cons show ?thesis by auto
  next
    case False
    with Cons.prems(2) have qp: "pending_gt q p" using pending_gt_total [of p q] by auto
    with Cons.prems(1) have "\<forall>x \<in> set (q # qs). pending_gt x p" using pending_gt_trans by auto
    with False Cons.prems(1) show ?thesis by simp
  qed
qed simp

lemma pending_ok_push:
  assumes "pending_ok c" "pr_depart p = req_depart (pr_req p)" "pr_sequence p = m_pending_sequence c"
  shows "sorted_wrt (\<lambda>p q. pending_gt q p) (pending_push p (m_pending c)) \<and>
    (\<forall>q \<in> set (pending_push p (m_pending c)). pr_sequence q < Suc (m_pending_sequence c) \<and> pr_depart q = req_depart (pr_req q))"
proof -
  have "\<forall>q \<in> set (m_pending c). pr_sequence q \<noteq> pr_sequence p" using assms(1,3) by (auto simp: pending_ok_def)
  with assms sorted_pending_push [of "m_pending c" p] show ?thesis by (auto simp: pending_ok_def)
qed

lemma mapper_apply_keys:
  assumes "mapper_apply dev am req = Inr req'"
  shows "req_type_id req' = req_type_id req" "req_addr req' = req_addr req"
proof -
  have b: "req_type_id (base_apply m r) = req_type_id r \<and> req_addr (base_apply m r) = req_addr r" for m r
    by (cases m) (simp_all add: ChRaBaRoCo_apply_def RoBaRaCoCh_apply_def MOP4CLXOR_apply_def
        PassThroughAddrMapper_apply_def Let_def)
  with assms show "req_type_id req' = req_type_id req" "req_addr req' = req_addr req"
    by (cases am; auto simp: RITAddrMapper_apply_def Let_def split: if_splits)+
qed

lemma send_ctrl_inv:
  assumes inv: "ctrl_inv bl c" and s: "send req c = Inr (ok, req', c')"
  shows "ctrl_inv bl c'"
proof -
  from s obtain q where q: "mapper_apply (m_device c) (m_addr_mapper c) req = Inr q"
    and ty: "req_type_id req = 0 \<or> req_type_id req = 1"
    unfolding send_def by (auto simp: bindR_eq_Inr_iff split: if_splits)
  note k = mapper_apply_keys [OF q]
  let ?q = "q\<lparr>req_addr_vec := (req_addr_vec q)[0 := m_channel_id c],
     req_final_command := int (supported_requests (spec_of c) ! nat (req_type_id q))\<rparr>"
  note pp = pending_ok_push [OF inv [unfolded ctrl_inv_def, THEN conjunct2, THEN conjunct2, THEN conjunct2, THEN conjunct1]]
  consider (forwarded) "req_type_id q = 0" "req_addr q \<in> m_buffered_write_addrs c"
    | (buffer_read) "req_type_id q = 0" "req_addr q \<notin> m_buffered_write_addrs c"
    | (coalesced) "req_type_id q = 1" "req_addr q \<in> m_buffered_write_addrs c"
    | (buffer_write) "req_type_id q = 1" "req_addr q \<notin> m_buffered_write_addrs c"
    using ty k(1) by auto
  then show ?thesis
  proof cases
    case forwarded
    with s q have c': "c' = map_stats (\<lambda>s. s\<lparr>s_num_read_reqs := s_num_read_reqs s + 1,
          s_num_read_reqs_forwarded := s_num_read_reqs_forwarded s + 1\<rparr>)
        (notify_departure_scheduled (?q\<lparr>req_arrive := m_clk c, req_depart := m_clk c + 1\<rparr>)
          (push_pending (?q\<lparr>req_arrive := m_clk c, req_depart := m_clk c + 1\<rparr>) c))"
      unfolding send_def using k ty by (auto simp: Let_def)
    from inv pp show ?thesis
      unfolding c' by (auto simp: ctrl_inv_defs notify_departure_scheduled_def push_pending_def)
  next
    case buffer_read
    show ?thesis
    proof (cases rule: enqueue_cases [of "m_read_buffer c" "?q\<lparr>req_arrive := m_clk c\<rparr>"])
      case full
      with buffer_read s q k ty inv show ?thesis unfolding send_def by (auto simp: Let_def)
    next
      case room
      with buffer_read s q k ty have c': "c' = map_stats (\<lambda>s. s\<lparr>s_num_read_reqs := s_num_read_reqs s + 1\<rparr>)
          (c\<lparr>m_read_buffer := (m_read_buffer c)\<lparr>buffer := buffer (m_read_buffer c) @ [?q\<lparr>req_arrive := m_clk c\<rparr>]\<rparr>\<rparr>)"
        unfolding send_def by (auto simp: Let_def)
      from inv room(1) buffer_read show ?thesis
        unfolding c' by (auto simp: ctrl_inv_defs within_capacity_def)
    qed
  next
    case coalesced
    with s q have c': "c' = map_stats (\<lambda>s. s\<lparr>s_num_write_reqs := s_num_write_reqs s + 1,
          s_num_write_reqs_coalesced := s_num_write_reqs_coalesced s + 1\<rparr>)
        (call_callback (?q\<lparr>req_arrive := m_clk c\<rparr>)
          (notify_departure_scheduled (?q\<lparr>req_arrive := m_clk c, req_depart := m_clk c\<rparr>) c))"
      unfolding send_def using k ty by (auto simp: Let_def)
    from inv show ?thesis
      unfolding c' by (auto simp: ctrl_inv_defs notify_departure_scheduled_def call_callback_def)
  next
    case buffer_write
    show ?thesis
    proof (cases rule: enqueue_cases [of "m_write_buffer c" "?q\<lparr>req_arrive := m_clk c\<rparr>"])
      case full
      with buffer_write s q k ty inv show ?thesis unfolding send_def by (auto simp: Let_def)
    next
      case room
      with buffer_write s q k ty have c': "c' = map_stats (\<lambda>s. s\<lparr>s_num_write_reqs := s_num_write_reqs s + 1\<rparr>)
          (c\<lparr>m_write_buffer := (m_write_buffer c)\<lparr>buffer := buffer (m_write_buffer c) @ [?q\<lparr>req_arrive := m_clk c\<rparr>]\<rparr>,
             m_buffered_write_addrs := insert (req_addr q) (m_buffered_write_addrs c)\<rparr>)"
        unfolding send_def by (auto simp: Let_def)
      from inv room(1) buffer_write show ?thesis
        unfolding c' by (auto simp: ctrl_inv_defs within_capacity_def)
    qed
  qed
qed

lemma priority_send_ctrl_inv:
  assumes inv: "ctrl_inv bl c" and s: "priority_send req c = Inr (ok, c')" and ty: "req_type_id req = -1"
  shows "ctrl_inv bl c'"
proof (cases rule: enqueue_cases [of "m_priority_buffer c" req])
  case full
  with s inv show ?thesis unfolding priority_send_def by (auto simp: Let_def split: if_splits)
next
  case room
  with s ty have c': "c' = map_stats (\<lambda>s. s\<lparr>s_num_maintenance_reqs := s_num_maintenance_reqs s + 1\<rparr>)
      (c\<lparr>m_priority_buffer := (m_priority_buffer c)\<lparr>buffer := buffer (m_priority_buffer c) @ [req]\<rparr>\<rparr>)"
    unfolding priority_send_def by (auto simp: Let_def split: if_splits)
  from inv room(1) ty show ?thesis unfolding c' by (auto simp: ctrl_inv_defs within_capacity_def)
qed

lemma Request_Cmd_type [simp]: "req_type_id (Request_Cmd av cmd) = -1"
  by (simp add: Request_Cmd_def default_Request_def)

section \<open>Serving completed reads\<close>

text \<open>
  The reads whose departure has arrived leave from the front of the queue, their
  callbacks are called in that order, the rest stays.
\<close>

lemma serve_pending_split:
  "serve_pending ps c =
     (let due = takeWhile (\<lambda>p. pr_depart p \<le> m_clk c) ps in
      (add_events (map Callback (filter (\<lambda>r. req_callback r \<noteq> None) (map pr_req due)))
        (map_stats (\<lambda>s. s\<lparr>s_read_latency := s_read_latency s + sum_list (map (\<lambda>p. req_depart (pr_req p) - req_arrive (pr_req p)) due),
                          s_num_read_reqs_served := s_num_read_reqs_served s + length due\<rparr>) c))
       \<lparr>m_pending := dropWhile (\<lambda>p. pr_depart p \<le> m_clk c) ps\<rparr>)"
proof (induction ps arbitrary: c)
  case (Cons p ps)
  show ?case
  proof (cases "pr_depart p > m_clk c")
    case True
    then show ?thesis by simp
  next
    case False
    then show ?thesis using Cons.IH by (simp add: Let_def call_callback_def)
  qed
qed simp

lemma sorted_dropWhile: "sorted_wrt P xs \<Longrightarrow> sorted_wrt P (dropWhile Q xs)"
  by (induction xs) auto

lemma serve_completed_reads_inv: "ctrl_inv bl c \<Longrightarrow> ctrl_inv bl (serve_completed_reads c)"
proof -
  assume inv: "ctrl_inv bl c"
  let ?P = "\<lambda>p. pr_depart p \<le> m_clk c"
  have len: "length (takeWhile ?P (m_pending c)) + length (dropWhile ?P (m_pending c)) = length (m_pending c)"
    by (metis length_append takeWhile_dropWhile_id)
  have mem: "\<And>p. p \<in> set (dropWhile ?P (m_pending c)) \<Longrightarrow> p \<in> set (m_pending c)" by (rule set_dropWhileD)
  from inv len show ?thesis
    unfolding serve_completed_reads_def serve_pending_split Let_def
    by (auto simp: ctrl_inv_defs sorted_dropWhile dest: mem)
qed

lemma tick_prologue_inv: "ctrl_inv bl c \<Longrightarrow> ctrl_inv bl (tick_prologue c)"
  unfolding tick_prologue_def Let_def
  by (rule serve_completed_reads_inv) (simp add: ctrl_inv_defs)

section \<open>Steps that only send maintenance requests\<close>

text \<open>
  Refresh managers and row policies reach the controller only through \<open>priority_send\<close>,
  with requests built by the \<^verbatim>\<open>Cmd\<close> constructor; \<open>K\<close> is the set of their commands.
\<close>

inductive sends :: "int set \<Rightarrow> Controller \<Rightarrow> Controller \<Rightarrow> bool" for K where
  nothing: "sends K c c"
| step: "sends K c c' \<Longrightarrow> cmd \<in> K \<Longrightarrow> priority_send (Request_Cmd av cmd) c' = Inr (ok, c'') \<Longrightarrow> sends K c c''"

lemma sends_trans: "sends K c' c'' \<Longrightarrow> sends K c c' \<Longrightarrow> sends K c c''"
  by (induction rule: sends.induct) (auto intro: sends.intros)

lemma sends_one: "priority_send (Request_Cmd av cmd) c = Inr (ok, c') \<Longrightarrow> sends {cmd} c c'"
  by (auto intro: sends.intros)

lemma sends_inv: "sends K c c' \<Longrightarrow> ctrl_inv bl c \<Longrightarrow> ctrl_inv bl c'"
  by (induction rule: sends.induct) (auto intro: priority_send_ctrl_inv)

lemma sends_frame:
  "sends K c c' \<Longrightarrow> m_device c' = m_device c \<and> m_clk c' = m_clk c \<and> m_active_buffer c' = m_active_buffer c \<and>
     m_active_per_bank c' = m_active_per_bank c \<and> m_read_buffer c' = m_read_buffer c \<and>
     m_write_buffer c' = m_write_buffer c \<and> m_events c' = m_events c"
proof (induction rule: sends.induct)
  case (step c c' cmd av ok c'')
  then show ?case by (auto simp: priority_send_def Let_def split: if_splits prod.splits)
qed simp

text \<open>A loop whose body keeps the command it sends.\<close>

lemma foldR_sends:
  assumes "foldR f xs s = Inr t" "\<And>x s t. f x s = Inr t \<Longrightarrow> k t = k s \<and> sends {k s} (g s) (g t)"
  shows "k t = k s \<and> sends {k s} (g s) (g t)"
proof (rule foldR_invariant [where I = "\<lambda>u. k u = k s \<and> sends {k s} (g s) (g u)", OF assms(1)])
  show "k s = k s \<and> sends {k s} (g s) (g s)" by (simp add: sends.nothing)
  fix x u v assume "k u = k s \<and> sends {k s} (g s) (g u)" "f x u = Inr v"
  then show "k v = k s \<and> sends {k s} (g s) (g v)" using sends_trans assms(2) [of x u v] by auto
qed

lemma cap_inject_sends:
  "cap_inject i s = Inr t \<Longrightarrow> m_cmd_prepb (fst t) = m_cmd_prepb (fst s) \<and> sends {m_cmd_prepb (fst s)} (snd s) (snd t)"
  by (auto simp: cap_inject_def Let_def bindR_eq_Inr_iff split: if_splits intro: sends.nothing sends_one)

fun policy_cmds :: "row_policy \<Rightarrow> int set" where
  "policy_cmds OpenRowPolicy = {}"
| "policy_cmds (ClosedCAP cp) = {m_cmd_prepb cp}"

lemma pre_schedule_sends: "pre_schedule (pol, c) = Inr (pol', c') \<Longrightarrow> sends (policy_cmds pol) c c'"
proof (cases pol)
  case OpenRowPolicy
  moreover assume "pre_schedule (pol, c) = Inr (pol', c')"
  ultimately show ?thesis by (auto intro: sends.nothing)
next
  case (ClosedCAP cp)
  moreover assume "pre_schedule (pol, c) = Inr (pol', c')"
  ultimately obtain cp' where "ClosedCAP_pre_schedule (cp, c) = Inr (cp', c')" by (auto simp: bindR_eq_Inr_iff)
  then have "foldR cap_inject [0..<length (m_col_accesses cp)] (cp, c) = Inr (cp', c')"
    by (simp add: ClosedCAP_pre_schedule_def)
  from foldR_sends [where g = snd and k = "\<lambda>s. m_cmd_prepb (fst s)", OF this cap_inject_sends] ClosedCAP
  show ?thesis by simp
qed

lemma send_refresh_sends: "send_refresh cmd node c = Inr c' \<Longrightarrow> sends {cmd} c c'"
  by (auto simp: send_refresh_def bindR_eq_Inr_iff split: if_splits intro: sends_one)

abbreviation ab_command :: "AllBankRefresh \<times> Controller \<Rightarrow> int" where
  "ab_command s \<equiv> ab_cmd_refab (fst s)"

lemma scattered_step_sends:
  "scattered_step i s = Inr t \<Longrightarrow> ab_command t = ab_command s \<and> sends {ab_command s} (snd s) (snd t)"
  by (auto simp: scattered_step_def Let_def bindR_eq_Inr_iff split: if_splits intro: sends.nothing send_refresh_sends)

lemma tick_all_at_once_sends:
  assumes "tick_all_at_once s = Inr t"
  shows "ab_command t = ab_command s \<and> sends {ab_command s} (snd s) (snd t)"
proof (cases "m_clk (snd s) = ab_next_refresh_cycle (fst s)")
  case True
  with assms obtain c' where f: "foldR (send_refresh (ab_command s)) (ab_ref_nodes (fst s)) (snd s) = Inr c'"
    and t: "ab_command t = ab_command s" "snd t = c'"
    by (auto simp: tick_all_at_once_def Let_def bindR_eq_Inr_iff)
  from foldR_sends [where g = "\<lambda>c. c" and k = "\<lambda>_. ab_command s", OF f] send_refresh_sends t show ?thesis by auto
next
  case False
  with assms show ?thesis by (auto simp: tick_all_at_once_def Let_def intro: sends.nothing)
qed

lemma AllBank_tick_sends:
  assumes "AllBank_tick s = Inr t"
  shows "ab_command t = ab_command s \<and> sends {ab_command s} (snd s) (snd t)"
proof (cases "ab_scatter_enabled (fst s)")
  case True
  with assms have "foldR scattered_step [0..<length (ab_ref_nodes (fst s))] s = Inr t"
    by (simp add: AllBank_tick_def tick_scattered_def)
  from foldR_sends [where g = snd and k = ab_command, OF this scattered_step_sends] show ?thesis .
next
  case False
  with assms show ?thesis by (intro tick_all_at_once_sends) (simp add: AllBank_tick_def)
qed

lemma PerBank_observe_cmd: "PerBank_observe pb c = Inr pb' \<Longrightarrow> pb_cmd_refpb pb' = pb_cmd_refpb pb"
  by (auto simp: PerBank_observe_def split: option.splits list.splits)

lemma PerBank_tick_sends:
  "PerBank_tick s = Inr t \<Longrightarrow> pb_cmd_refpb (fst t) = pb_cmd_refpb (fst s) \<and> sends {pb_cmd_refpb (fst s)} (snd s) (snd t)"
  by (auto simp: PerBank_tick_def Let_def bindR_eq_Inr_iff split: if_splits dest!: PerBank_observe_cmd
      intro: sends.nothing dest: sends_one)

lemma observe_boundary_cmd: "observe_boundary_refpbs hb c = Inr hb' \<Longrightarrow> hb_cmd_refpb hb' = hb_cmd_refpb hb"
  by (auto simp: observe_boundary_refpbs_def bindR_eq_Inr_iff)

lemma service_pending_sends:
  "service_pending_refpb (hb, c) = Inr (b, hb', c') \<Longrightarrow> hb_cmd_refpb hb' = hb_cmd_refpb hb \<and> sends {hb_cmd_refpb hb} c c'"
  by (auto simp: service_pending_refpb_def Let_def bindR_eq_Inr_iff split: list.splits option.splits if_splits
      intro: sends.nothing sends_one)

lemma seed_pending_cmd: "seed_pending_refpbs hb c = (b, hb') \<Longrightarrow> hb_cmd_refpb hb' = hb_cmd_refpb hb"
  by (auto simp: seed_pending_refpbs_def split: if_splits)

lemma HBMPerBank_tick_sends:
  "HBMPerBank_tick (hb, c) = Inr (hb', c') \<Longrightarrow> hb_cmd_refpb hb' = hb_cmd_refpb hb \<and> sends {hb_cmd_refpb hb} c c'"
  by (auto simp: HBMPerBank_tick_def bindR_eq_Inr_iff split: if_splits prod.splits bool.splits
      dest!: observe_boundary_cmd service_pending_sends seed_pending_cmd intro: sends_trans)

fun refresh_cmds :: "refresh_manager \<Rightarrow> int set" where
  "refresh_cmds NoRefresh = {}"
| "refresh_cmds (AllBank ab) = {ab_cmd_refab ab}"
| "refresh_cmds (PerBank pb) = {pb_cmd_refpb pb}"
| "refresh_cmds (HBMPerBank hb) = {hb_cmd_refpb hb}"

lemma refresh_tick_sends:
  "refresh_tick (m, c) = Inr (m', c') \<Longrightarrow> refresh_cmds m' = refresh_cmds m \<and> sends (refresh_cmds m) c c'"
proof (cases m)
  case (HBMPerBank hb)
  moreover assume "refresh_tick (m, c) = Inr (m', c')"
  ultimately show ?thesis by (auto simp: bindR_eq_Inr_iff dest: HBMPerBank_tick_sends)
qed (auto simp: bindR_eq_Inr_iff intro: sends.nothing dest!: AllBank_tick_sends PerBank_tick_sends)

subsection \<open>Plugins\<close>

fun plugin_cmds :: "plugin \<Rightarrow> int set" where
  "plugin_cmds (OracleRH p) = {or_vrr_cmd_id p}"
| "plugin_cmds (Graphene _ p) = {gr_vrr_cmd_id p}"
| "plugin_cmds (TWiCeIdeal p) = {tw_vrr_cmd_id p}"
| "plugin_cmds (PARA _ p) = {pa_vrr_cmd_id p}"
| "plugin_cmds (RFMManager p) = {int (rfm_cmd_id p)}"
| "plugin_cmds (HynixTRR _ p) = {trr_vrr_cmd_id (hx_ids p)}"
| "plugin_cmds (IdealTRR _ p) = {trr_vrr_cmd_id (it_ids p)}"
| "plugin_cmds (SamsungTRR _ p) = {trr_vrr_cmd_id (sx_ids p)}"
| "plugin_cmds (CommandCounter _) = {}"
| "plugin_cmds (IssuedCommandValidationHook _) = {}"

lemma plugin_pre_schedule_cmds [simp]: "plugin_cmds (plugin_pre_schedule p) = plugin_cmds p"
  by (cases p) (simp_all add: Graphene_pre_schedule_def Let_def)

lemma send_all_sends:
  assumes "send_all rs c = Inr c'" "\<forall>r \<in> set rs. \<exists>av. r = Request_Cmd av cmd"
  shows "sends {cmd} c c'"
  using assms
proof (induction rs arbitrary: c)
  case Nil
  then show ?case by (simp add: send_all_def sends.nothing)
next
  case (Cons r rs)
  from Cons.prems(1) obtain ok c1 where r: "priority_send r c = Inr (ok, c1)" "send_all rs c1 = Inr c'"
    by (auto simp: send_all_def bindR_eq_Inr_iff)
  from Cons.prems(2) r(1) have "sends {cmd} c c1" by (auto intro: sends_one)
  with Cons.IH [OF r(2)] Cons.prems(2) show ?case by (auto intro: sends_trans)
qed

lemma fire_vrr_sends: "fire_vrr ids addr s = Inr t \<Longrightarrow> sends {trr_vrr_cmd_id ids} (snd s) (snd t)"
  by (auto simp: fire_vrr_def bindR_eq_Inr_iff intro: sends_one)

lemma HynixTRR_sends:
  assumes "HynixTRR_on_issue draw req s = Inr t"
  shows "hx_ids (fst t) = hx_ids (fst s) \<and> sends {trr_vrr_cmd_id (hx_ids (fst s))} (snd s) (snd t)"
proof (cases "is_rfm (hx_ids (fst s)) req")
  case True
  let ?s = "((fst s)\<lparr>hx_rfm_observed := hx_rfm_observed (fst s) + 1\<rparr>, snd s)"
  from True assms have f: "foldR (HynixTRR_process_rfm req) (get_target_banks (m_device (snd s)) (nat (req_command req)) (req_addr_vec req)) ?s = Inr t"
    by (simp add: HynixTRR_on_issue_def Let_def)
  have step: "hx_ids (fst v) = hx_ids (fst u) \<and> sends {trr_vrr_cmd_id (hx_ids (fst u))} (snd u) (snd v)"
    if "HynixTRR_process_rfm req b u = Inr v" for b u v
    using that by (auto simp: HynixTRR_process_rfm_def Let_def bindR_eq_Inr_iff sends.nothing split: if_splits dest: fire_vrr_sends)
  have "hx_ids (fst t) = hx_ids (fst s) \<and> sends {trr_vrr_cmd_id (hx_ids (fst s))} (snd s) (snd t)"
    by (rule foldR_invariant [OF f, where I = "\<lambda>u. hx_ids (fst u) = hx_ids (fst s) \<and> sends {trr_vrr_cmd_id (hx_ids (fst s))} (snd s) (snd u)"])
      (auto simp: sends.nothing dest!: step intro: sends_trans)
  then show ?thesis .
next
  case False
  with assms show ?thesis
    by (auto simp: HynixTRR_on_issue_def HynixTRR_process_act_def Let_def sends.nothing split: if_splits)
qed

text \<open>The two counting variants share the shape of their loops.\<close>

lemma nested_sends:
  assumes "foldR f xs s = Inr t" "\<And>x s t. f x s = Inr t \<Longrightarrow> ids t = ids s \<and> sends {trr_vrr_cmd_id (ids s)} (g s) (g t)"
  shows "ids t = ids s \<and> sends {trr_vrr_cmd_id (ids s)} (g s) (g t)"
  by (rule foldR_invariant [OF assms(1), where I = "\<lambda>u. ids u = ids s \<and> sends {trr_vrr_cmd_id (ids s)} (g s) (g u)"])
    (auto simp: sends.nothing dest!: assms(2) intro: sends_trans)

lemma IdealTRR_process_rfm_sends:
  "IdealTRR_process_rfm iter req b s = Inr t \<Longrightarrow>
   it_ids (fst t) = it_ids (fst s) \<and> sends {trr_vrr_cmd_id (it_ids (fst s))} (snd s) (snd t)"
  unfolding IdealTRR_process_rfm_def
  by (erule nested_sends) (auto simp: Let_def bindR_eq_Inr_iff dest: fire_vrr_sends)

lemma SamsungTRR_process_rfm_sends:
  "SamsungTRR_process_rfm iter req b s = Inr t \<Longrightarrow>
   sx_ids (fst t) = sx_ids (fst s) \<and> sends {trr_vrr_cmd_id (sx_ids (fst s))} (snd s) (snd t)"
  unfolding SamsungTRR_process_rfm_def
  by (erule nested_sends) (auto simp: Let_def bindR_eq_Inr_iff dest: fire_vrr_sends)

lemma IdealTRR_sends:
  assumes "IdealTRR_on_issue iter req s = Inr t"
  shows "it_ids (fst t) = it_ids (fst s) \<and> sends {trr_vrr_cmd_id (it_ids (fst s))} (snd s) (snd t)"
proof (cases "is_rfm (it_ids (fst s)) req")
  case True
  with assms nested_sends [where ids = "\<lambda>s. it_ids (fst s)" and g = snd, OF _ IdealTRR_process_rfm_sends]
  show ?thesis by (fastforce simp: IdealTRR_on_issue_def Let_def)
next
  case False
  with assms show ?thesis
    by (auto simp: IdealTRR_on_issue_def IdealTRR_process_act_def Let_def sends.nothing split: if_splits)
qed

lemma SamsungTRR_sends:
  assumes "SamsungTRR_on_issue iter req s = Inr t"
  shows "sx_ids (fst t) = sx_ids (fst s) \<and> sends {trr_vrr_cmd_id (sx_ids (fst s))} (snd s) (snd t)"
proof (cases "is_rfm (sx_ids (fst s)) req")
  case True
  with assms nested_sends [where ids = "\<lambda>s. sx_ids (fst s)" and g = snd, OF _ SamsungTRR_process_rfm_sends]
  show ?thesis by (fastforce simp: SamsungTRR_on_issue_def Let_def)
next
  case False
  with assms show ?thesis
    by (auto simp: SamsungTRR_on_issue_def SamsungTRR_process_act_def Let_def sends.nothing split: if_splits prod.splits)
qed

lemma RFM_sends:
  "RFM_on_issue req s = Inr t \<Longrightarrow>
   rfm_cmd_id (fst t) = rfm_cmd_id (fst s) \<and> sends {int (rfm_cmd_id (fst s))} (snd s) (snd t)"
  by (auto simp: RFM_on_issue_def RFM_observe_def Let_def bindR_eq_Inr_iff split: if_splits prod.splits
      intro: sends.nothing sends_one)

lemma OracleRH_observe_cmd:
  assumes "OracleRH_observe dev req p = (out, p')"
  shows "or_vrr_cmd_id p' = or_vrr_cmd_id p \<and> (\<forall>r \<in> set out. \<exists>av. r = Request_Cmd av (or_vrr_cmd_id p))"
  using assms by (auto simp: OracleRH_observe_def Let_def split: if_splits prod.splits)

lemma Graphene_observe_cmd:
  assumes "Graphene_observe iter dev req p = (out, p')"
  shows "gr_vrr_cmd_id p' = gr_vrr_cmd_id p \<and> (\<forall>r \<in> set out. \<exists>av. r = Request_Cmd av (gr_vrr_cmd_id p))"
  using assms by (auto simp: Graphene_observe_def Let_def split: if_splits prod.splits)

lemma TWiCe_observe_cmd:
  assumes "TWiCe_observe dev req p = (out, p')"
  shows "tw_vrr_cmd_id p' = tw_vrr_cmd_id p \<and> (\<forall>r \<in> set out. \<exists>av. r = Request_Cmd av (tw_vrr_cmd_id p))"
  using assms by (auto simp: TWiCe_observe_def Let_def split: if_splits prod.splits)

lemma PARA_observe_cmd:
  assumes "PARA_observe draw dev req p = (out, p')"
  shows "pa_vrr_cmd_id p' = pa_vrr_cmd_id p \<and> (\<forall>r \<in> set out. \<exists>av. r = Request_Cmd av (pa_vrr_cmd_id p))"
  using assms by (auto simp: PARA_observe_def split: if_splits)

lemma observed_sends:
  assumes "observed mk op c = Inr (p', c')" "\<forall>r \<in> set (fst op). \<exists>av. r = Request_Cmd av cmd"
  shows "p' = mk (snd op) \<and> sends {cmd} c c'"
  using assms send_all_sends by (auto simp: observed_def bindR_eq_Inr_iff)

lemma plugin_on_issue_sends:
  assumes "plugin_on_issue req (p, c) = Inr (p', c')"
  shows "plugin_cmds p' = plugin_cmds p \<and> sends (plugin_cmds p) c c'"
proof (cases p)
  case (OracleRH q)
  obtain out q' where o: "OracleRH_observe (m_device c) req q = (out, q')" by force
  from OracleRH_observe_cmd [OF o] observed_sends [where op = "(out, q')"] assms OracleRH o show ?thesis by fastforce
next
  case (Graphene iter q)
  obtain out q' where o: "Graphene_observe iter (m_device c) req q = (out, q')" by force
  from Graphene_observe_cmd [OF o] observed_sends [where op = "(out, q')"] assms Graphene o show ?thesis by fastforce
next
  case (TWiCeIdeal q)
  obtain out q' where o: "TWiCe_observe (m_device c) req q = (out, q')" by force
  from TWiCe_observe_cmd [OF o] observed_sends [where op = "(out, q')"] assms TWiCeIdeal o show ?thesis by fastforce
next
  case (PARA draw q)
  obtain out q' where o: "PARA_observe draw (m_device c) req q = (out, q')" by force
  from PARA_observe_cmd [OF o] observed_sends [where op = "(out, q')"] assms PARA o show ?thesis by fastforce
next
  case (RFMManager q)
  with assms show ?thesis by (auto simp: bindR_eq_Inr_iff dest!: RFM_sends)
next
  case (HynixTRR draw q)
  with assms show ?thesis by (auto simp: bindR_eq_Inr_iff dest!: HynixTRR_sends)
next
  case (IdealTRR iter q)
  with assms show ?thesis by (auto simp: bindR_eq_Inr_iff dest!: IdealTRR_sends)
next
  case (SamsungTRR iter q)
  with assms show ?thesis by (auto simp: bindR_eq_Inr_iff dest!: SamsungTRR_sends)
qed (use assms in \<open>auto simp: sends.nothing\<close>)

lemma sends_mono: "sends K c c' \<Longrightarrow> K \<subseteq> K' \<Longrightarrow> sends K' c c'"
  by (induction rule: sends.induct) (auto intro: sends.intros)

lemma plugins_on_issue_sends:
  assumes "plugins_on_issue req (ps, c) = Inr (ps', c')"
  shows "(\<Union>p \<in> set ps'. plugin_cmds p) = (\<Union>p \<in> set ps. plugin_cmds p) \<and> sends (\<Union>p \<in> set ps. plugin_cmds p) c c'"
  using assms
proof (induction ps arbitrary: c ps' c')
  case (Cons p ps)
  from Cons.prems obtain p1 c1 ps1 where s: "plugin_on_issue req (p, c) = Inr (p1, c1)"
    "plugins_on_issue req (ps, c1) = Inr (ps1, c')" "ps' = p1 # ps1"
    by (auto simp: bindR_eq_Inr_iff)
  let ?K = "\<Union>q \<in> set (p # ps). plugin_cmds q"
  have "sends ?K c c1" using plugin_on_issue_sends [OF s(1)] by (auto intro: sends_mono)
  moreover have "sends ?K c1 c'" using Cons.IH [OF s(2)] by (auto intro: sends_mono)
  ultimately show ?case using plugin_on_issue_sends [OF s(1)] Cons.IH [OF s(2)] s(3) by (auto intro: sends_trans)
qed (simp add: sends.nothing)

section \<open>Selecting a candidate\<close>

lemma set_buf_view: "buf_keys b = buf_keys (get_buf ref c) \<Longrightarrow> same_view c (set_buf ref b c)"
  by (cases ref) (simp_all add: same_view_def)

lemma get_set_buf [simp]: "get_buf ref (set_buf ref b c) = b"
  by (cases ref) simp_all

lemma set_buf_frame [simp]:
  "m_device (set_buf ref b c) = m_device c" "m_clk (set_buf ref b c) = m_clk c" "m_events (set_buf ref b c) = m_events c"
  "m_pending (set_buf ref b c) = m_pending c" "m_stats (set_buf ref b c) = m_stats c"
  "m_active_per_bank (set_buf ref b c) = m_active_per_bank c"
  "m_buffered_write_addrs (set_buf ref b c) = m_buffered_write_addrs c"
  by (cases ref; simp)+

lemma derived_keys:
  assumes "get_best_request sch c flt (buffer b) = Inr (rs, pick)"
  shows "buf_keys (b\<lparr>buffer := rs\<rparr>) = buf_keys b"
  using sched.keeps [OF assms, of req_key] by (simp add: buf_keys_def)

lemma pick_best_view:
  assumes "pick_best_ready_from sch ref flt c = Inr (cand, c')"
  shows "same_view c c'" and "cand = Some (ref', it) \<Longrightarrow> ref' = ref \<and> it < length (buffer (get_buf ref c'))"
proof -
  from assms obtain rs pick where g: "get_best_request sch c flt (buffer (get_buf ref c)) = Inr (rs, pick)"
    and c': "c' = set_buf ref ((get_buf ref c)\<lparr>buffer := rs\<rparr>) c"
    and cand: "cand = None \<or> (\<exists>it. pick = Some it \<and> cand = Some (ref, it))"
    unfolding pick_best_ready_from_def by (auto simp: bindR_eq_Inr_iff Let_def split: option.splits if_splits)
  show "same_view c c'" unfolding c' by (rule set_buf_view) (rule derived_keys [OF g])
  assume "cand = Some (ref', it)"
  with cand g have "ref' = ref" "get_best_request sch c flt (buffer (get_buf ref c)) = Inr (rs, Some it)" by auto
  with sched.eligible show "ref' = ref \<and> it < length (buffer (get_buf ref c'))" unfolding c' by fastforce
qed

lemma pick_priority_view:
  assumes "pick_priority_if flt c = Inr (cand, c')"
  shows "same_view c c'" and "cand = Some (ref, it) \<Longrightarrow> ref = PriorityBuf \<and> it < length (buffer (m_priority_buffer c'))"
  using assms
  by (auto simp: pick_priority_if_def bindR_eq_Inr_iff Let_def same_view_def buf_keys_def split: list.splits if_splits)

lemma set_write_mode_view: "same_view c (set_write_mode c)"
  by (simp add: set_write_mode_def same_view_def)

lemma pick_rw_view:
  assumes "pick_rw_if sch flt c = Inr (cand, c')"
  shows "same_view c c'" and "cand = Some (ref, it) \<Longrightarrow> it < length (buffer (get_buf ref c'))"
proof -
  let ?c1 = "set_write_mode c"
  let ?ref = "if m_is_write_mode ?c1 then WriteBuf else ReadBuf"
  from assms have p: "pick_best_ready_from sch ?ref (\<lambda>req. \<not> would_close_active ?c1 req \<and> flt req) ?c1 = Inr (cand, c')"
    by (simp add: pick_rw_if_def Let_def)
  show "same_view c c'" using same_view_trans [OF set_write_mode_view pick_best_view(1) [OF p]] .
  show "cand = Some (ref, it) \<Longrightarrow> it < length (buffer (get_buf ref c'))" using pick_best_view(2) [OF p] by blast
qed

lemma select_candidate_view:
  assumes "select_candidate sch c = Inr (cand, c')"
  shows "same_view c c'" and "cand = Some (ref, it) \<Longrightarrow> it < length (buffer (get_buf ref c'))"
proof -
  from assms obtain cand1 c1 cand2 c2 where
    p1: "pick_best_ready_from sch ActiveBuf (\<lambda>_. True) c = Inr (cand1, c1)" and
    p2: "(if cand1 = None then pick_priority_if (\<lambda>_. True) c1 else Inr (cand1, c1)) = Inr (cand2, c2)" and
    p3: "(if cand2 = None \<and> buf_size (m_priority_buffer c2) = 0 then pick_rw_if sch (\<lambda>_. True) c2 else Inr (cand2, c2)) = Inr (cand, c')"
    unfolding select_candidate_def by (auto simp: bindR_eq_Inr_iff)
  have v2: "same_view c1 c2" using p2 pick_priority_view(1) by (auto split: if_splits)
  have v3: "same_view c2 c'" using p3 pick_rw_view(1) by (auto split: if_splits)
  show "same_view c c'" using same_view_trans [OF pick_best_view(1) [OF p1] same_view_trans [OF v2 v3]] .
  assume cand: "cand = Some (ref, it)"
  show "it < length (buffer (get_buf ref c'))"
  proof (cases "cand2 = None \<and> buf_size (m_priority_buffer c2) = 0")
    case True
    with p3 cand pick_rw_view(2) show ?thesis by auto
  next
    case False
    with p3 cand have c2: "cand2 = Some (ref, it)" "c' = c2" by auto
    show ?thesis
    proof (cases "cand1 = None")
      case True
      with p2 c2 pick_priority_view(2) [of "\<lambda>_. True" c1 cand2 c2 ref it] show ?thesis by auto
    next
      case False
      with p2 c2 pick_best_view(2) [OF p1, of ref it] show ?thesis by auto
    qed
  qed
qed

section \<open>Serving a candidate\<close>

lemma remove_nth_split:
  assumes "it < length xs"
  shows "xs = take it xs @ xs ! it # drop (Suc it) xs"
  using assms by (rule id_take_nth_drop)

lemma count_type_remove:
  "it < length xs \<Longrightarrow> count_type t xs = (if of_type t (xs ! it) then 1 else 0) + count_type t (take it xs @ drop (Suc it) xs)"
  by (subst remove_nth_split [of it xs]) auto

lemma set_remove: "set (take it xs @ drop (Suc it) xs) \<subseteq> set xs"
  by (auto dest: in_set_takeD in_set_dropD)

lemma addrs_remove:
  assumes "it < length xs" "distinct (map f xs)"
  shows "f ` set (take it xs @ drop (Suc it) xs) = f ` set xs - {f (xs ! it)}" "distinct (map f (take it xs @ drop (Suc it) xs))"
proof -
  let ?ys = "take it xs" and ?zs = "drop (Suc it) xs"
  have xs: "xs = ?ys @ xs ! it # ?zs" using assms(1) by (rule remove_nth_split)
  with assms(2) have "distinct (map f (?ys @ xs ! it # ?zs))" by simp
  then have d: "distinct (map f ?ys)" "distinct (map f ?zs)" "f ` set ?ys \<inter> f ` set ?zs = {}" "f (xs ! it) \<notin> f ` set ?ys" "f (xs ! it) \<notin> f ` set ?zs"
    by auto
  then show "distinct (map f (?ys @ ?zs))" by simp
  have "f ` set xs = insert (f (xs ! it)) (f ` set (?ys @ ?zs))" using arg_cong [OF xs, of "\<lambda>l. f ` set l"] by auto
  moreover have "f (xs ! it) \<notin> f ` set (?ys @ ?zs)" using d(4,5) by (simp add: image_Un)
  ultimately show "f ` set (?ys @ ?zs) = f ` set xs - {f (xs ! it)}" by simp
qed

lemma remove_fields [simp]:
  "buffer (remove_at b it) = take it (buffer b) @ drop (Suc it) (buffer b)"
  by (simp add: remove_at_def)

text \<open>What removing one request does to the parts of the invariant.\<close>

lemma remove_length: "it < length xs \<Longrightarrow> length (take it xs) + length (drop (Suc it) xs) + 1 = length xs"
  by simp

lemma retire_request_inv:
  assumes inv: "ctrl_inv bl c" and it: "it < length (buffer (get_buf ref c))"
  shows "ctrl_inv bl (retire_request ref it c)"
proof -
  let ?req = "buffer (get_buf ref c) ! it"
  note pp = pending_ok_push [OF inv [unfolded ctrl_inv_def, THEN conjunct2, THEN conjunct2, THEN conjunct2, THEN conjunct1]]
  note defs = retire_request_def Let_def complete_request_def leave_buffer_def notify_departure_scheduled_def
    push_pending_def call_callback_def ctrl_inv_defs within_capacity_def
  show ?thesis
  proof (cases ref)
    case ActiveBuf
    note ct = count_type_remove [of it "buffer (m_active_buffer c)"]
    from inv it ActiveBuf pp ct [of 0] ct [of 1] ct [of "-1"] show ?thesis
      by (auto simp: defs)
  next
    case PriorityBuf
    have ty: "req_type_id ?req = -1" using inv it PriorityBuf nth_mem [of it "buffer (m_priority_buffer c)"] by (auto simp: ctrl_inv_defs)
    from inv it PriorityBuf ty set_remove [of it "buffer (m_priority_buffer c)"] show ?thesis
      by (auto simp: defs)
  next
    case ReadBuf
    have ty: "req_type_id ?req = 0" using inv it ReadBuf nth_mem [of it "buffer (m_read_buffer c)"] by (auto simp: ctrl_inv_defs)
    from inv it ReadBuf ty pp set_remove [of it "buffer (m_read_buffer c)"] show ?thesis
      by (auto simp: defs)
  next
    case WriteBuf
    have ty: "req_type_id ?req = 1" using inv it WriteBuf nth_mem [of it "buffer (m_write_buffer c)"] by (auto simp: ctrl_inv_defs)
    from inv it WriteBuf ty set_remove [of it "buffer (m_write_buffer c)"] addrs_remove [of it "buffer (m_write_buffer c)" req_addr]
    show ?thesis by (auto simp: defs)
  qed
qed

lemma promote_to_active_inv:
  assumes inv: "ctrl_inv bl c" and it: "it < length (buffer (get_buf ref c))"
  shows "ctrl_inv bl (promote_to_active ref it c)"
proof (cases rule: enqueue_cases [of "m_active_buffer c" "buffer (get_buf ref c) ! it"])
  case full
  with inv show ?thesis by (simp add: promote_to_active_def Let_def)
next
  case room
  let ?req = "buffer (get_buf ref c) ! it"
  note defs = promote_to_active_def Let_def ctrl_inv_defs within_capacity_def
  show ?thesis
  proof (cases ref)
    case ActiveBuf
    note ct = count_type_remove [of it "buffer (m_active_buffer c)"]
    from inv it room ActiveBuf ct [of 0] ct [of 1] ct [of "-1"] show ?thesis
      by (auto simp: defs)
  next
    case PriorityBuf
    have ty: "req_type_id ?req = -1" using inv it PriorityBuf nth_mem [of it "buffer (m_priority_buffer c)"] by (auto simp: ctrl_inv_defs)
    from inv it room PriorityBuf ty set_remove [of it "buffer (m_priority_buffer c)"] show ?thesis
      by (auto simp: defs)
  next
    case ReadBuf
    have ty: "req_type_id ?req = 0" using inv it ReadBuf nth_mem [of it "buffer (m_read_buffer c)"] by (auto simp: ctrl_inv_defs)
    from inv it room ReadBuf ty set_remove [of it "buffer (m_read_buffer c)"] show ?thesis
      by (auto simp: defs)
  next
    case WriteBuf
    have ty: "req_type_id ?req = 1" using inv it WriteBuf nth_mem [of it "buffer (m_write_buffer c)"] by (auto simp: ctrl_inv_defs)
    from inv it room WriteBuf ty set_remove [of it "buffer (m_write_buffer c)"] addrs_remove [of it "buffer (m_write_buffer c)" req_addr]
    show ?thesis by (auto simp: defs)
  qed
qed

lemma update_nth_keys: "req_key r = req_key (xs ! it) \<Longrightarrow> map req_key (xs[it := r]) = map req_key xs"
  by (cases "it < length xs") (auto intro!: nth_equalityI simp: nth_list_update)

lemma replace_at_view: "req_key r = req_key (buffer (get_buf ref c) ! it) \<Longrightarrow> same_view c (replace_at ref it r c)"
  unfolding replace_at_def by (rule set_buf_view) (simp add: buf_keys_def update_nth_keys)

lemma try_upgrade_keys: "req_key (try_upgrade_command pol c r) = req_key r"
  by (cases pol) (simp_all add: ClosedCAP_try_upgrade_def Let_def)

lemma map_stats_view:
  "same_view c c' \<Longrightarrow> stat_keys st = stat_keys (m_stats c') \<Longrightarrow> same_view c (c'\<lparr>m_stats := st\<rparr>)"
  by (simp add: same_view_def)

lemma update_request_stats_view: "same_view c (update_request_stats ref it c)"
proof -
  let ?b = "get_buf ref c"
  have "same_view c (set_buf ref (?b\<lparr>buffer := (buffer ?b)[it := (buffer ?b ! it)\<lparr>req_is_stat_updated := True\<rparr>]\<rparr>) c)"
    by (rule set_buf_view) (simp add: buf_keys_def update_nth_keys)
  then show ?thesis
    unfolding update_request_stats_def Let_def by (auto intro!: map_stats_view simp: stat_keys_def)
qed

lemma get_buf_view_length: "same_view c c' \<Longrightarrow> length (buffer (get_buf ref c)) = length (buffer (get_buf ref c'))"
  by (cases ref) (auto simp: same_view_def dest: buf_keysD)

lemma prepare_candidate_view: "same_view c (prepare_candidate ref it pol c)"
proof -
  have "same_view c (replace_at ref it (try_upgrade_command pol c (buffer (get_buf ref c) ! it)) c)"
    by (rule replace_at_view) (rule try_upgrade_keys)
  then show ?thesis
    unfolding prepare_candidate_def Let_def by (simp add: same_view_trans [OF _ update_request_stats_view])
qed

lemma issue_candidate_view: "same_view c (issue_candidate ref it c)"
  by (simp add: issue_candidate_def Let_def same_view_def)

lemma advance_request_inv:
  "ctrl_inv bl c \<Longrightarrow> it < length (buffer (get_buf ref c)) \<Longrightarrow> ctrl_inv bl (advance_request ref it c)"
  by (simp add: advance_request_def Let_def retire_request_inv promote_to_active_inv)

lemma sends_get_buf:
  assumes "sends K c c'" "it < length (buffer (get_buf ref c))"
  shows "it < length (buffer (get_buf ref c'))" "buffer (get_buf ref c') ! it = buffer (get_buf ref c) ! it"
proof -
  from assms have "it < length (buffer (get_buf ref c')) \<and> buffer (get_buf ref c') ! it = buffer (get_buf ref c) ! it"
  proof (induction rule: sends.induct)
    case (step c c' cmd av ok c'')
    then show ?case
      by (cases ref) (auto simp: priority_send_def Let_def enqueue_def nth_append split: if_splits)
  qed simp
  then show "it < length (buffer (get_buf ref c'))" "buffer (get_buf ref c') ! it = buffer (get_buf ref c) ! it" by blast+
qed

lemma finish_candidate_inv:
  assumes inv: "ctrl_inv bl c" and it: "it < length (buffer (get_buf ref c))"
    and s: "finish_candidate ref it (pol, ps, c) = Inr (pol', ps', c')"
  shows "ctrl_inv bl c'"
proof -
  let ?c3 = "issue_candidate ref it c"
  have v: "same_view c ?c3" by (rule issue_candidate_view)
  from s obtain c1 where p: "plugins_on_issue (buffer (get_buf ref ?c3) ! it) (ps, ?c3) = Inr (ps', c1)"
    and c': "c' = advance_request ref it c1" by (rule finish_candidate_phases)
  note p = conjunct2 [OF plugins_on_issue_sends [OF p]]
  have "ctrl_inv bl c1" by (rule sends_inv [OF p ctrl_inv_view [OF v inv]])
  moreover have "it < length (buffer (get_buf ref c1))" using sends_get_buf(1) [OF p] get_buf_view_length [OF v, of ref] it by simp
  ultimately show ?thesis unfolding c' by (rule advance_request_inv)
qed

lemma serve_candidate_inv:
  assumes inv: "ctrl_inv bl c" and it: "it < length (buffer (get_buf ref c))"
    and s: "serve_candidate ref it (pol, ps, c) = Inr (pol', ps', c')"
  shows "ctrl_inv bl c'"
proof (rule finish_candidate_inv [OF ctrl_inv_view [OF prepare_candidate_view inv]])
  show "it < length (buffer (get_buf ref (prepare_candidate ref it pol c)))"
    using it get_buf_view_length [OF prepare_candidate_view, of ref c ref it pol] by simp
  show "finish_candidate ref it (pol, ps, prepare_candidate ref it pol c) = Inr (pol', ps', c')"
    using s by (simp add: serve_candidate_def)
qed

section \<open>Ticks\<close>

lemma GenericDDR_tick_inv:
  assumes inv: "ctrl_inv bl (g_ctrl g)" and t: "GenericDDR_tick g = Inr g'"
  shows "ctrl_inv bl (g_ctrl g')"
proof -
  from t obtain rf c1 pol c2 cand c3 pol' ps c4 where
    r: "refresh_tick (g_refresh g, tick_prologue (g_ctrl g)) = Inr (rf, c1)" and
    p: "pre_schedule (g_rowpolicy g, c1) = Inr (pol, c2)" and
    sel: "select_candidate (g_scheduler g) c2 = Inr (cand, c3)" and
    sv: "serve_if_valid cand (pol, map plugin_pre_schedule (g_plugins g), c3) = Inr (pol', ps, c4)" and
    g': "g_ctrl g' = c4"
    by (elim GenericDDR_tick_phases) simp
  have "ctrl_inv bl c2"
    using sends_inv [OF pre_schedule_sends [OF p] sends_inv [OF conjunct2 [OF refresh_tick_sends [OF r]] tick_prologue_inv [OF inv]]] .
  then have inv3: "ctrl_inv bl c3" by (rule ctrl_inv_view [OF select_candidate_view(1) [OF sel]])
  with sv g' select_candidate_view(2) [OF sel] serve_candidate_inv [OF inv3] show ?thesis
    by (auto simp: serve_if_valid_def split: option.splits)
qed

text \<open>
  The states of a controller: created, its channel numbered, then any sequence of requests
  from the memory system, ticks, and resets of the statistics.
\<close>

inductive ctrl_reachable :: "(DRAMSpec \<Rightarrow> AddrMapper result) \<Rightarrow> CtrlConfig \<Rightarrow> nat \<Rightarrow> GenericDDR \<Rightarrow> bool" for mk cfg cores where
  start: "init_base mk cfg cores = Inr c \<Longrightarrow> g_ctrl g = ctrl_set_channel_id ch c \<Longrightarrow> ctrl_reachable mk cfg cores g"
| sent: "ctrl_reachable mk cfg cores g \<Longrightarrow> send req (g_ctrl g) = Inr (ok, req', c) \<Longrightarrow>
    ctrl_reachable mk cfg cores (g\<lparr>g_ctrl := c\<rparr>)"
| ticked: "ctrl_reachable mk cfg cores g \<Longrightarrow> GenericDDR_tick g = Inr g' \<Longrightarrow> ctrl_reachable mk cfg cores g'"
| reset: "ctrl_reachable mk cfg cores g \<Longrightarrow> ctrl_reachable mk cfg cores (GenericDDR_reset_stats g)"

text \<open>
  The same runs, with the requests that were outstanding when the counters were last zero:
  none at the start, then those at the last reset.
\<close>

inductive ctrl_since :: "(DRAMSpec \<Rightarrow> AddrMapper result) \<Rightarrow> CtrlConfig \<Rightarrow> nat \<Rightarrow> nat \<times> nat \<times> nat \<Rightarrow> GenericDDR \<Rightarrow> bool" for mk cfg cores where
  start: "init_base mk cfg cores = Inr c \<Longrightarrow> g_ctrl g = ctrl_set_channel_id ch c \<Longrightarrow> ctrl_since mk cfg cores (0, 0, 0) g"
| sent: "ctrl_since mk cfg cores bl g \<Longrightarrow> send req (g_ctrl g) = Inr (ok, req', c) \<Longrightarrow>
    ctrl_since mk cfg cores bl (g\<lparr>g_ctrl := c\<rparr>)"
| ticked: "ctrl_since mk cfg cores bl g \<Longrightarrow> GenericDDR_tick g = Inr g' \<Longrightarrow> ctrl_since mk cfg cores bl g'"
| reset: "ctrl_since mk cfg cores bl g \<Longrightarrow> ctrl_since mk cfg cores (outstanding (g_ctrl g)) (GenericDDR_reset_stats g)"

lemma ctrl_reachable_since: "ctrl_reachable mk cfg cores g \<longleftrightarrow> (\<exists>bl. ctrl_since mk cfg cores bl g)"
proof
  show "\<exists>bl. ctrl_since mk cfg cores bl g" if "ctrl_reachable mk cfg cores g"
    using that
  proof (induction rule: ctrl_reachable.induct)
    case (reset g)
    then show ?case using ctrl_since.reset by blast
  qed (auto intro: ctrl_since.intros)
  have "ctrl_reachable mk cfg cores g" if "ctrl_since mk cfg cores bl g" for bl
    using that by (induction rule: ctrl_since.induct) (auto intro: ctrl_reachable.intros)
  then show "ctrl_reachable mk cfg cores g" if "\<exists>bl. ctrl_since mk cfg cores bl g" using that by blast
qed

inductive_cases ctrl_reachableE: "ctrl_reachable mk cfg cores g"

lemma init_base_inv: "init_base mk cfg cores = Inr c \<Longrightarrow> ctrl_inv (0, 0, 0) (ctrl_set_channel_id ch c)"
  by (auto simp: init_base_def bindR_eq_Inr_iff ctrl_inv_defs ctrl_set_channel_id_def ReqBuffer_new_def
      within_capacity_def zero_stats_def split: if_splits option.splits)

text \<open>A reset clears the counters and nothing else.\<close>

lemma reset_stats_inv: "ctrl_inv bl c \<Longrightarrow> ctrl_inv (outstanding c) (reset_stats c)"
  by (simp add: ctrl_inv_defs within_capacity_def outstanding_def reset_stats_def zero_stats_def)

lemma ctrl_since_inv: "ctrl_since mk cfg cores bl g \<Longrightarrow> ctrl_inv bl (g_ctrl g)"
  by (induction rule: ctrl_since.induct)
    (auto simp: GenericDDR_reset_stats_def intro: init_base_inv send_ctrl_inv GenericDDR_tick_inv reset_stats_inv)

lemma ctrl_reachable_inv: "ctrl_reachable mk cfg cores g \<Longrightarrow> \<exists>bl. ctrl_inv bl (g_ctrl g)"
  using ctrl_since_inv unfolding ctrl_reachable_since by blast

text \<open>The invariant with some backlog, for the clients that do not count.\<close>

definition ctrl_ok :: "Controller \<Rightarrow> bool" where
  "ctrl_ok c \<longleftrightarrow> (\<exists>bl. ctrl_inv bl c)"

lemma ctrl_ok_view: "same_view c c' \<Longrightarrow> ctrl_ok c \<Longrightarrow> ctrl_ok c'"
  unfolding ctrl_ok_def using ctrl_inv_view by blast

lemma ctrl_ok_send: "ctrl_ok c \<Longrightarrow> send req c = Inr (ok, req', c') \<Longrightarrow> ctrl_ok c'"
  unfolding ctrl_ok_def using send_ctrl_inv by blast

lemma ctrl_ok_sends: "sends K c c' \<Longrightarrow> ctrl_ok c \<Longrightarrow> ctrl_ok c'"
  unfolding ctrl_ok_def using sends_inv by blast

lemma ctrl_ok_prologue: "ctrl_ok c \<Longrightarrow> ctrl_ok (tick_prologue c)"
  unfolding ctrl_ok_def using tick_prologue_inv by blast

lemma ctrl_ok_finish:
  "ctrl_ok c \<Longrightarrow> it < length (buffer (get_buf ref c)) \<Longrightarrow> finish_candidate ref it (pol, ps, c) = Inr (pol', ps', c') \<Longrightarrow>
   ctrl_ok c'"
  unfolding ctrl_ok_def using finish_candidate_inv by blast

lemma ctrl_ok_reset: "ctrl_ok c \<Longrightarrow> ctrl_ok (reset_stats c)"
  unfolding ctrl_ok_def using reset_stats_inv by blast

lemma ctrl_reachable_ok: "ctrl_reachable mk cfg cores g \<Longrightarrow> ctrl_ok (g_ctrl g)"
  unfolding ctrl_ok_def by (rule ctrl_reachable_inv)

end
