(* ===== verification/Controller_Device.thy ===== *)
theory Controller_Device
  imports Controller_Inv
begin

text \<open>
  What a controller does to its device. Every command of a tick is the one the device
  resolved for a buffered request and one the device declared ready; so the banks stay in
  legal states, and the whole sequence of issued commands respects the timing
  constraints of the configuration.
\<close>

section \<open>Configurations\<close>

text \<open>
  A usable constraint table: every window is positive and every constrained command
  exists.
\<close>

definition constraints_ok :: "dram_standard \<Rightarrow> DramConfig \<Rightarrow> bool" where
  "constraints_ok s cfg \<longleftrightarrow>
     list_all (\<lambda>f. 0 < window_of f \<and> list_all (\<lambda>c. c < length (CommandImpls s)) (tcc_following f))
       (cfg_timing_constraints cfg)"

definition entries_ok :: "nat \<Rightarrow> nat \<Rightarrow> TimingConsEntry list list list \<Rightarrow> bool" where
  "entries_ok nl nc tcs \<longleftrightarrow>
     tcons_shape nl nc tcs \<and>
     (\<forall>l < nl. \<forall>p < nc. \<forall>t \<in> set (tcs ! l ! p). tc_cmd t < nc \<and> 0 < tc_window t)"

lemma entries_ok_push:
  assumes "entries_ok nl nc tcs" "tc_cmd e < nc" "0 < tc_window e"
  shows "entries_ok nl nc (tcons_push l p e tcs)"
proof (cases "l < nl \<and> p < nc")
  case True
  with assms show ?thesis by (auto simp: entries_ok_def tcons_shape_push tcons_push_nth split: if_splits)
next
  case False
  with assms have "tcons_push l p e tcs = tcs"
    by (cases "l < nl") (simp_all add: entries_ok_def tcons_push_def tcons_shape_def list_update_beyond)
  with assms show ?thesis by simp
qed

lemma entries_ok_row:
  assumes "entries_ok nl nc tcs" "\<forall>c \<in> set fcs. c < nc" "0 < window_of f"
  shows "entries_ok nl nc (fold (\<lambda>fc. tcons_push l p (entry_of f fc)) fcs tcs)"
proof -
  have "0 < tc_window (entry_of f fc)" "tc_cmd (entry_of f fc) = fc" for fc
    using assms(3) by (simp_all add: entry_of_def window_of_def)
  with assms(2) show ?thesis
    by (intro fold_invariant [where P = "entries_ok nl nc" and Q = "\<lambda>c. c < nc"] entries_ok_push assms(1)) auto
qed

lemma entries_ok_line:
  assumes "entries_ok nl nc tcs" "\<forall>c \<in> set (tcc_following f). c < nc" "0 < window_of f"
    and "load_timing_constraint f tcs = Inr tcs'"
  shows "entries_ok nl nc tcs'"
proof -
  have "entries_ok nl nc (fold (\<lambda>p. fold (\<lambda>fc. tcons_push (tcc_level f) p (entry_of f fc)) (tcc_following f)) ps tcs)" for ps
    by (rule fold_invariant [where P = "entries_ok nl nc" and Q = "\<lambda>_. True"])
      (simp_all add: entries_ok_row assms)
  with assms(3,4) show ?thesis by (auto simp: load_timing_constraint_eq)
qed

lemma construct_spec_spec_ok:
  assumes ok: "standard_ok s" and con: "construct_spec s cfg = Inr sp" and c: "constraints_ok s cfg"
  shows "spec_ok sp (Suc (enum_index (enum_Level s) ''Bank''))"
proof -
  note of = construct_spec_of_standard [OF ok con]
  from con obtain sp1 where l: "load_config (static_spec s) cfg = Inr sp1"
    and sp: "sp = classify_bus s (populate_commands (map (\<lambda>k. impl_of k (env_of s)) (CommandImpls s)) sp1)"
    by (auto simp: construct_spec_def bindR_eq_Inr_iff)
  let ?nl = "length (enum_Level s)" and ?nc = "length (enum_Command s)"
  from l obtain tcs where f: "foldR load_timing_constraint (cfg_timing_constraints cfg) (replicate ?nl (replicate ?nc [])) = Inr tcs"
    and "timing_cons sp1 = tcs"
    unfolding load_config_def by (auto simp: bindR_eq_Inr_iff static_spec_def split: if_splits)
  then have t: "timing_cons sp = tcs" by (simp add: sp classify_bus_def Let_def populate_commands_def)
  have "entries_ok ?nl ?nc (replicate ?nl (replicate ?nc []))" by (auto simp: entries_ok_def tcons_shape_def)
  with f have "entries_ok ?nl ?nc tcs"
  proof (rule foldR_invariant)
    fix x u v assume x: "x \<in> set (cfg_timing_constraints cfg)" "entries_ok ?nl ?nc u" "load_timing_constraint x u = Inr v"
    with c show "entries_ok ?nl ?nc v"
      by (intro entries_ok_line [OF x(2) _ _ x(3)]) (auto simp: constraints_ok_def list_all_iff standard_length [OF ok])
  qed
  then have "cons_ok sp" using of t by (simp add: cons_ok_def entries_ok_def of_standard_def standard_length [OF ok])
  moreover have "flags_ok sp" "level_count sp = ?nl" using of by (simp_all add: of_standard_def)
  ultimately show ?thesis using level_ids(3) [OF ok of] by (simp add: spec_ok_def)
qed

section \<open>Final commands\<close>

lemma prerequisite_names:
  assumes ok: "standard_ok s" and fin: "final_ok s fin" and res: "resolve s fin b av clk = Inr c" and ne: "c \<noteq> fin"
  shows "c < length (CommandImpls s)" "CommandImpls s ! c \<in> {K_ACT, K_ACT1, K_ACT2, K_PREpb, K_PREab, K_PREsb}"
proof -
  note k = kind_of_name [OF ok]
  show "c < length (CommandImpls s)" by (rule resolve_targets(1) [OF ok fin res])
  from resolve_prerequisite [OF ok fin res ne]
  show "CommandImpls s ! c \<in> {K_ACT, K_ACT1, K_ACT2, K_PREpb, K_PREab, K_PREsb}"
    using k(1) [of K_ACT] k(1) [of K_ACT1] k(1) [of K_ACT2] k(1) [of K_PREpb] k(1) [of K_PREab] k(1) [of K_PREsb]
    by (auto simp: env_of_def Let_def)
qed

text \<open>
  A command that is neither an activation nor a precharge is only ever resolved for
  itself.
\<close>

lemma resolved_self:
  assumes ok: "standard_ok s" and of: "of_standard s (m_spec dev)" and fin: "final_ok s fin"
    and res: "get_preq_command dev fin av clk = Inr c"
    and k: "CommandImpls s ! c \<notin> {K_ACT, K_ACT1, K_ACT2, K_PREpb, K_PREab, K_PREsb}"
  shows "fin = c"
proof (rule ccontr)
  assume ne: "fin \<noteq> c"
  with get_preq_command_source [OF ok of fin res] obtain b where "resolve s fin b av clk = Inr c" by auto
  from prerequisite_names(2) [OF ok fin this] ne k show False by auto
qed

lemma access_kind_not_prerequisite:
  "is_access s c \<Longrightarrow> CommandImpls s ! c \<notin> {K_ACT, K_ACT1, K_ACT2, K_PREpb, K_PREab, K_PREsb}"
  by (auto simp: is_access_def access_kinds_def)

lemma refresh_kind_not_prerequisite:
  "is_refreshing (impl_meta (kind_at s c)) \<Longrightarrow> CommandImpls s ! c \<notin> {K_ACT, K_ACT1, K_ACT2, K_PREpb, K_PREab, K_PREsb}"
  by (auto simp: kind_at_def cmd_defs meta_none_def)

lemma access_single: "is_access s fin \<Longrightarrow> impl_bank_target (kind_at s fin) = BT_Single"
  by (auto simp: is_access_def kind_at_def access_kinds_def cmd_defs)

lemma access_has_preq: "is_access s fin \<Longrightarrow> impl_preq (kind_at s fin) = Some (RD_preq (env_of s))"
  by (auto simp: is_access_def kind_at_def access_kinds_def cmd_defs)

text \<open>An access the device would accept now can be exchanged for any other access.\<close>

lemma exchange_access:
  assumes ok: "standard_ok s" and of: "of_standard s (m_spec dev)" and leg: "device_legal s dev"
    and a: "is_access s fin" and b: "is_access s fin'"
    and res: "get_preq_command dev fin av clk = Inr fin"
  shows "get_preq_command dev fin' av clk = Inr fin'"
proof -
  have len: "fin < length (CommandImpls s)" "fin' < length (CommandImpls s)" using a b by (simp_all add: is_access_def)
  have tb: "get_target_banks dev f av = [get_flat_bank_id dev av]" if "f < length (CommandImpls s)" "is_access s f" for f
    using that of access_single [of s f] by (simp add: get_target_banks_def of_standard_def)
  have "resolve s fin' bk av clk = Inr fin'" if bk: "bank_at dev (get_flat_bank_id dev av) = Some bk" for bk
  proof -
    have "resolve s fin bk av clk = Inr fin"
      using own_prerequisite [OF ok of len(1) res _ bk] tb [OF len(1) a] by simp
    with access_resolved_open [OF ok a bank_at_legal [OF leg bk]] have o: "row_open s bk av" by blast
    then show ?thesis using env_states [OF ok]
      by (auto simp: resolve_access [OF b] RD_preq_def ACT_preq_def ACT2_preq_def row_open_def RD_rowhit_def)
  qed
  then show ?thesis
    using access_has_preq [OF b]
    by (simp add: get_preq_command_resolve [OF of len(2)] tb [OF len(2) b] split: option.splits)
qed

section \<open>Requests, policies and refresh managers\<close>

text \<open>Final commands as the code stores them: integers, -1 for none.\<close>

definition cmd_ok :: "dram_standard \<Rightarrow> int \<Rightarrow> bool" where
  "cmd_ok s x \<longleftrightarrow> 0 \<le> x \<and> final_ok s (nat x)"

definition finals_ok :: "dram_standard \<Rightarrow> Controller \<Rightarrow> bool" where
  "finals_ok s c \<longleftrightarrow> (\<forall>ref. \<forall>r \<in> set (buffer (get_buf ref c)). cmd_ok s (req_final_command r))"

definition access_id :: "dram_standard \<Rightarrow> int \<Rightarrow> bool" where
  "access_id s x \<longleftrightarrow> 0 \<le> x \<and> is_access s (nat x)"

fun policy_ok :: "dram_standard \<Rightarrow> row_policy \<Rightarrow> bool" where
  "policy_ok s OpenRowPolicy \<longleftrightarrow> True"
| "policy_ok s (ClosedCAP p) \<longleftrightarrow>
     cmd_ok s (m_cmd_prepb p) \<and> access_id s (m_cmd_rd p) \<and> access_id s (m_cmd_wr p) \<and>
     (m_has_ap p \<longrightarrow> access_id s (m_cmd_rda p) \<and> access_id s (m_cmd_wra p))"

definition refresh_ok :: "dram_standard \<Rightarrow> refresh_manager \<Rightarrow> bool" where
  "refresh_ok s m \<longleftrightarrow> (\<forall>x \<in> refresh_cmds m. cmd_ok s x)"

definition plugins_ok :: "dram_standard \<Rightarrow> plugin list \<Rightarrow> bool" where
  "plugins_ok s ps \<longleftrightarrow> (\<forall>x \<in> (\<Union>p \<in> set ps. plugin_cmds p). cmd_ok s x)"

text \<open>The commands behind read and write requests are accesses.\<close>

lemma supported_access:
  assumes ok: "standard_ok s" and of: "of_standard s sp" and t: "t < 2"
  shows "is_access s (supported_requests sp ! t)"
proof -
  have len: "length (std_supported_requests s) = 2" and
    all: "list_all (\<lambda>c. c \<in> set (map kind_name access_kinds) \<and> c \<in> set (enum_Command s)) (std_supported_requests s)"
    using ok unfolding standard_ok_def commands_ok_def by blast+
  with t obtain k where k: "k \<in> set access_kinds" "std_supported_requests s ! t = kind_name k" "kind_name k \<in> set (enum_Command s)"
    by (fastforce simp: list_all_length)
  with kind_of_name [OF ok k(3)] of t len show ?thesis by (simp add: is_access_def of_standard_def)
qed

lemma access_id_cmd_ok: "access_id s x \<Longrightarrow> cmd_ok s x"
  by (simp add: access_id_def cmd_ok_def access_final_ok)

text \<open>The commands the initialisers look up by name.\<close>

lemma get_command_id_kind:
  assumes ok: "standard_ok s" and of: "of_standard s sp" and g: "get_command_id sp (kind_name k) = Inr i"
  shows "i < length (CommandImpls s)" "CommandImpls s ! i = k"
proof -
  have e: "commands sp (kind_name k) = Some i" using g by (auto simp: get_command_id_def split: option.splits)
  have mem: "kind_name k \<in> set (enum_Command s)"
  proof (rule ccontr)
    assume "kind_name k \<notin> set (enum_Command s)"
    with of e show False by (simp add: of_standard_def number_names_other)
  qed
  have "i = enum_index (enum_Command s) (kind_name k)"
    using number_names_nth [OF standard_okD(1) [OF ok] enum_index_less [OF mem], of 0 Map.empty] nth_enum_index [OF mem] e of
    by (simp add: of_standard_def)
  with kind_of_name [OF ok mem] show "i < length (CommandImpls s)" "CommandImpls s ! i = k" by simp_all
qed

lemmas command_id_kinds =
  get_command_id_kind [where k = K_PREpb, unfolded kind_name.simps]
  get_command_id_kind [where k = K_REFab, unfolded kind_name.simps]
  get_command_id_kind [where k = K_REFpb, unfolded kind_name.simps]
  get_command_id_kind [where k = K_VRR, unfolded kind_name.simps]
  get_command_id_kind [where k = K_RFMab, unfolded kind_name.simps]
  get_command_id_kind [where k = K_RFMsb, unfolded kind_name.simps]
  get_command_id_kind [where k = K_RFMpb, unfolded kind_name.simps]

lemma find_command_access:
  assumes ok: "standard_ok s" and of: "of_standard s sp" and k: "k \<in> set access_kinds" "k' \<in> set access_kinds"
    and f: "find_command sp [kind_name k, kind_name k'] required = Inr x"
  shows "(\<not> required \<and> x = -1) \<or> access_id s x"
proof -
  from f obtain i where "(\<not> required \<and> x = -1) \<or>
      x = int i \<and> (get_command_id sp (kind_name k) = Inr i \<or> get_command_id sp (kind_name k') = Inr i)"
    by (auto simp: bindR_eq_Inr_iff split: if_splits)
  with get_command_id_kind [OF ok of] k show ?thesis by (auto simp: access_id_def is_access_def)
qed

lemma ClosedCAP_init_ok:
  assumes ok: "standard_ok s" and of: "of_standard s (m_spec dev)" and i: "ClosedCAP_init cap dev = Inr p"
  shows "policy_ok s (ClosedCAP p)"
proof -
  let ?sp = "m_spec dev"
  note fc = find_command_access [OF ok of]
  from i obtain pre rd wr rda wra where
    pre: "get_command_id ?sp ''PREpb'' = Inr pre" and
    f: "find_command ?sp [''RD'', ''RD_S''] True = Inr rd" "find_command ?sp [''WR'', ''WR_S''] True = Inr wr"
      "find_command ?sp [''RDA'', ''RDA_S''] False = Inr rda" "find_command ?sp [''WRA'', ''WRA_S''] False = Inr wra" and
    p: "m_cmd_prepb p = int pre" "m_cmd_rd p = rd" "m_cmd_wr p = wr" "m_cmd_rda p = rda" "m_cmd_wra p = wra"
      "m_has_ap p \<longleftrightarrow> rda \<noteq> -1 \<and> wra \<noteq> -1"
    unfolding ClosedCAP_init_def Let_def by (auto simp: bindR_eq_Inr_iff simp del: find_command.simps)
  have "access_id s rd" using fc [of K_RD K_RD_S True rd] f(1) by (simp add: access_kinds_def del: find_command.simps)
  moreover have "access_id s wr" using fc [of K_WR K_WR_S True wr] f(2) by (simp add: access_kinds_def del: find_command.simps)
  moreover have "rda = -1 \<or> access_id s rda"
    using fc [of K_RDA K_RDA_S False rda] f(3) by (simp add: access_kinds_def del: find_command.simps)
  moreover have "wra = -1 \<or> access_id s wra"
    using fc [of K_WRA K_WRA_S False wra] f(4) by (simp add: access_kinds_def del: find_command.simps)
  moreover have "cmd_ok s (int pre)" using command_id_kinds(1,2) [OF ok of pre] by (simp add: cmd_ok_def final_ok_def)
  ultimately show ?thesis using p by auto
qed

text \<open>What \<^verbatim>\<open>create_child_ifce\<close> and \<^verbatim>\<open>setup\<close> build for the components, on the new device.\<close>

definition policy_created :: "DRAMDevice \<Rightarrow> row_policy \<Rightarrow> bool" where
  "policy_created dev pol \<longleftrightarrow> pol = OpenRowPolicy \<or> (\<exists>cap p. ClosedCAP_init cap dev = Inr p \<and> pol = ClosedCAP p)"

definition refresh_created :: "DRAMDevice \<Rightarrow> refresh_manager \<Rightarrow> bool" where
  "refresh_created dev m \<longleftrightarrow>
     m = NoRefresh \<or> (\<exists>k ab. AllBank_init k dev = Inr ab \<and> m = AllBank ab) \<or>
     (\<exists>pb. PerBank_init dev = Inr pb \<and> m = PerBank pb) \<or> (\<exists>hb. HBMPerBank_init dev = Inr hb \<and> m = HBMPerBank hb)"

fun plugin_created :: "DRAMDevice \<Rightarrow> plugin \<Rightarrow> bool" where
  "plugin_created dev (OracleRH p) \<longleftrightarrow> (\<exists>t. OracleRH_setup t dev = Inr p)"
| "plugin_created dev (Graphene _ p) \<longleftrightarrow> (\<exists>n t r. Graphene_setup n t r dev = Inr p)"
| "plugin_created dev (TWiCeIdeal p) \<longleftrightarrow> (\<exists>t q. TWiCe_setup t q dev = Inr p)"
| "plugin_created dev (PARA _ p) \<longleftrightarrow> (\<exists>t. PARA_setup t dev = Inr p)"
| "plugin_created dev (RFMManager p) \<longleftrightarrow> (\<exists>t m. RFM_setup t m dev = Inr p)"
| "plugin_created dev (HynixTRR _ p) \<longleftrightarrow> (\<exists>q. HynixTRR_setup q dev = Inr p)"
| "plugin_created dev (IdealTRR _ p) \<longleftrightarrow> (\<exists>n. IdealTRR_setup n dev = Inr p)"
| "plugin_created dev (SamsungTRR _ p) \<longleftrightarrow> (\<exists>e n. SamsungTRR_setup e n dev = Inr p)"
| "plugin_created dev (CommandCounter p) \<longleftrightarrow> (\<exists>ns. CommandCounter_setup ns dev = Inr p)"
| "plugin_created dev (IssuedCommandValidationHook p) \<longleftrightarrow> vh_issued_commands_this_tick p = []"

lemma trr_setup_vrr: "trr_setup who dev = Inr ids \<Longrightarrow> \<exists>i. get_command_id (m_spec dev) ''VRR'' = Inr i \<and> trr_vrr_cmd_id ids = int i"
  by (auto simp: trr_setup_def Let_def bindR_eq_Inr_iff split: if_splits)

lemma require_vrr_id: "require_vrr sp msg = Inr i \<Longrightarrow> get_command_id sp ''VRR'' = Inr i"
  by (simp add: require_vrr_def split: if_splits)

lemma plugin_created_ok:
  assumes ok: "standard_ok s" and of: "of_standard s (m_spec dev)" and p: "plugin_created dev p"
  shows "\<forall>x \<in> plugin_cmds p. cmd_ok s x"
proof -
  have vrr: "cmd_ok s (int i)" if "get_command_id (m_spec dev) ''VRR'' = Inr i" for i
    using command_id_kinds(7,8) [OF ok of that] by (simp add: cmd_ok_def final_ok_def)
  have rfm: "cmd_ok s (int (rfm_cmd_id q))" if "RFM_setup t m dev = Inr q" for t m q
    using that command_id_kinds(9-14) [OF ok of]
    by (auto simp: RFM_setup_def Let_def bindR_eq_Inr_iff cmd_ok_def final_ok_def split: if_splits)
  show ?thesis
  proof (cases p)
    case (OracleRH q)
    with p vrr show ?thesis by (auto simp: OracleRH_setup_def Let_def bindR_eq_Inr_iff dest: require_vrr_id)
  next
    case (Graphene it q)
    with p vrr show ?thesis by (auto simp: Graphene_setup_def Let_def bindR_eq_Inr_iff dest: require_vrr_id)
  next
    case (TWiCeIdeal q)
    with p vrr show ?thesis by (auto simp: TWiCe_setup_def Let_def bindR_eq_Inr_iff dest: require_vrr_id)
  next
    case (PARA d q)
    with p vrr show ?thesis by (auto simp: PARA_setup_def Let_def bindR_eq_Inr_iff dest: require_vrr_id)
  next
    case (HynixTRR d q)
    with p vrr show ?thesis by (auto simp: HynixTRR_setup_def bindR_eq_Inr_iff split: if_splits dest: trr_setup_vrr)
  next
    case (IdealTRR d q)
    with p vrr show ?thesis by (auto simp: IdealTRR_setup_def bindR_eq_Inr_iff split: if_splits dest: trr_setup_vrr)
  next
    case (SamsungTRR d q)
    with p vrr show ?thesis by (auto simp: SamsungTRR_setup_def bindR_eq_Inr_iff split: if_splits dest: trr_setup_vrr)
  qed (use p rfm in auto)
qed

lemma plugins_created_ok:
  "standard_ok s \<Longrightarrow> of_standard s (m_spec dev) \<Longrightarrow> list_all (plugin_created dev) ps \<Longrightarrow> plugins_ok s ps"
  using plugin_created_ok by (fastforce simp: plugins_ok_def list_all_iff)

lemma policy_created_ok:
  "standard_ok s \<Longrightarrow> of_standard s (m_spec dev) \<Longrightarrow> policy_created dev pol \<Longrightarrow> policy_ok s pol"
  by (auto simp: policy_created_def dest: ClosedCAP_init_ok)

lemma refresh_created_ok:
  assumes ok: "standard_ok s" and of: "of_standard s (m_spec dev)" and m: "refresh_created dev m"
  shows "refresh_ok s m"
proof -
  have ab: "cmd_ok s (ab_cmd_refab ab)" if "AllBank_init k dev = Inr ab" for k ab
    using that command_id_kinds(3,4) [OF ok of]
    by (auto simp: AllBank_init_def Let_def bindR_eq_Inr_iff cmd_ok_def final_ok_def split: if_splits)
  have pb: "cmd_ok s (pb_cmd_refpb pb)" if "PerBank_init dev = Inr pb" for pb
    using that command_id_kinds(5,6) [OF ok of]
    by (auto simp: PerBank_init_def Let_def bindR_eq_Inr_iff cmd_ok_def final_ok_def split: if_splits)
  have hb: "cmd_ok s (hb_cmd_refpb hb)" if i: "HBMPerBank_init dev = Inr hb" for hb
  proof -
    from i obtain c where "get_command_id (m_spec dev) ''REFpb'' = Inr c" "hb_cmd_refpb hb = int c"
      by (auto simp: HBMPerBank_init_def Let_def bindR_eq_Inr_iff split: if_splits)
    with command_id_kinds(5,6) [OF ok of] show ?thesis by (auto simp: cmd_ok_def final_ok_def)
  qed
  from m ab pb hb show ?thesis by (auto simp: refresh_created_def refresh_ok_def)
qed

section \<open>The command bus\<close>

text \<open>
  The abstract view of a channel: a device, the commands issued so far and the clock. In a
  cycle at most one command is issued, the one the device resolved for some final command,
  and only when the device says it is ready.
\<close>

type_synonym bus = "DRAMDevice \<times> cmd_event list \<times> Clk_t"

inductive bus_step :: "dram_standard \<Rightarrow> bus \<Rightarrow> bus \<Rightarrow> bool" for s where
  idle: "bus_step s (dev, es, clk) (dev, es, clk + 1)"
| issue: "final_ok s fin \<Longrightarrow> get_preq_command dev fin av (clk + 1) = Inr cmd \<Longrightarrow>
    device_check_timing dev cmd av (clk + 1) \<Longrightarrow>
    bus_step s (dev, es, clk) (issue_command cmd av (clk + 1) dev, es @ [(cmd, av, clk + 1)], clk + 1)"

text \<open>
  The same in smaller steps, for the controllers that issue more than once per cycle: the
  clock moves, or a command is issued at the clock of the cycle.
\<close>

inductive slot_step :: "dram_standard \<Rightarrow> bus \<Rightarrow> bus \<Rightarrow> bool" for s where
  advance: "slot_step s (dev, es, clk) (dev, es, clk + 1)"
| issue: "final_ok s fin \<Longrightarrow> get_preq_command dev fin av clk = Inr cmd \<Longrightarrow> device_check_timing dev cmd av clk \<Longrightarrow>
    slot_step s (dev, es, clk) (issue_command cmd av clk dev, es @ [(cmd, av, clk)], clk)"

lemma bus_step_slots: "bus_step s b b' \<Longrightarrow> (slot_step s)\<^sup>*\<^sup>* b b'"
proof (induction rule: bus_step.induct)
  case (idle dev es clk)
  show ?case by (rule r_into_rtranclp) (rule slot_step.advance)
next
  case (issue fin dev av clk cmd es)
  from slot_step.issue [OF issue] slot_step.advance show ?case by (meson r_into_rtranclp rtranclp.rtrancl_into_rtrancl)
qed

inductive bus_reachable :: "dram_standard \<Rightarrow> DRAMSpec \<Rightarrow> int \<Rightarrow> bus \<Rightarrow> bool" for s sp ch where
  start: "device_init sp = Inr dev \<Longrightarrow> bus_reachable s sp ch (device_set_channel_id ch dev, [], 0)"
| step: "bus_reachable s sp ch b \<Longrightarrow> bus_step s b b' \<Longrightarrow> bus_reachable s sp ch b'"

text \<open>
  Every command of the sequence waited for all obligations that the commands before it
  raised on the nodes it addresses.
\<close>

definition trace_ok :: "DRAMSpec \<Rightarrow> nat \<Rightarrow> int \<Rightarrow> cmd_event list \<Rightarrow> bool" where
  "trace_ok sp last_level ch es \<longleftrightarrow>
     (\<forall>i < length es. case es ! i of (c, av, clk) \<Rightarrow>
        \<forall>p. valid_path sp last_level 0 p \<and> on_path 0 av p \<longrightarrow>
          (\<forall>ob \<in> obligations sp (length p) (view ch p (take i es)) c. ob \<le> clk))"

lemma trace_ok_Nil [simp]: "trace_ok sp ll ch []"
  by (simp add: trace_ok_def)

lemma trace_ok_snoc:
  "trace_ok sp ll ch (es @ [(c, av, clk)]) \<longleftrightarrow>
     trace_ok sp ll ch es \<and>
     (\<forall>p. valid_path sp ll 0 p \<and> on_path 0 av p \<longrightarrow> (\<forall>ob \<in> obligations sp (length p) (view ch p es) c. ob \<le> clk))"
  unfolding trace_ok_def by (auto simp: less_Suc_eq nth_append)

text \<open>The tree of a device is the tree the timing theory runs, up to the bank states.\<close>

definition slot_inv :: "dram_standard \<Rightarrow> DRAMSpec \<Rightarrow> int \<Rightarrow> bus \<Rightarrow> bool" where
  "slot_inv s sp ch b \<longleftrightarrow>
     (case b of (dev, es, clk) \<Rightarrow>
        m_spec dev = sp \<and> device_reachable s sp dev \<and> 0 \<le> clk \<and>
        (\<forall>e \<in> set es. fst e < command_count sp \<and> snd (snd e) \<le> clk) \<and>
        sorted_wrt (\<le>) (map (\<lambda>e. snd (snd e)) es) \<and>
        erase (m_root dev) = erase (run_cmds sp es (build_node sp (Suc (enum_index (enum_Level s) ''Bank'')) 0 ch)) \<and>
        trace_ok sp (Suc (enum_index (enum_Level s) ''Bank'')) ch es)"

definition bus_inv :: "dram_standard \<Rightarrow> DRAMSpec \<Rightarrow> int \<Rightarrow> bus \<Rightarrow> bool" where
  "bus_inv s sp ch b \<longleftrightarrow> slot_inv s sp ch b \<and> sorted_wrt (<) (map (\<lambda>e. snd (snd e)) (fst (snd b)))"

lemmas bus_inv_defs = bus_inv_def slot_inv_def

lemma run_cmds_snoc: "run_cmds sp (es @ [(c, av, clk)]) n = update_timing sp c av clk (run_cmds sp es n)"
  by (induction es arbitrary: n) auto

lemma number_channel:
  "modify_at [] (\<lambda>d. d\<lparr>m_node_id := ch\<rparr>) (build_node sp last_level 0 0) = build_node sp last_level 0 ch"
  by (subst (1 2) build_node.simps) (simp add: init_node_data_def Let_def)

lemma slot_inv_start:
  assumes ok: "standard_ok s" and of: "of_standard s sp" and i: "device_init sp = Inr dev"
  shows "slot_inv s sp ch (device_set_channel_id ch dev, [], 0)"
proof -
  from device_init_ok [OF ok of] i have d: "m_spec dev = sp" "m_bank_level dev = enum_index (enum_Level s) ''Bank''"
    "m_root dev = build_node sp (Suc (m_bank_level dev)) 0 0" by auto
  have "m_root (device_set_channel_id ch dev) = build_node sp (Suc (m_bank_level dev)) 0 ch"
    using d(3) number_channel by (simp add: device_set_channel_id_def)
  with d i show ?thesis by (simp add: slot_inv_def device_reachable.numbered)
qed

lemma slot_inv_step:
  assumes ok: "standard_ok s" and of: "of_standard s sp" and sok: "spec_ok sp (Suc (enum_index (enum_Level s) ''Bank''))"
    and inv: "slot_inv s sp ch b" and st: "slot_step s b b'"
  shows "slot_inv s sp ch b'"
  using st
proof cases
  case (advance dev es clk)
  with inv show ?thesis by (force simp: slot_inv_def)
next
  case (issue fin dev av clk cmd es)
  let ?ll = "Suc (enum_index (enum_Level s) ''Bank'')" and ?n = "build_node sp (Suc (enum_index (enum_Level s) ''Bank'')) 0 ch"
  from inv issue(1) have sp: "m_spec dev = sp" and r: "device_reachable s sp dev" and clk: "0 \<le> clk"
    and es: "\<forall>e \<in> set es. fst e < command_count sp \<and> snd (snd e) \<le> clk"
    and so: "sorted_wrt (\<le>) (map (\<lambda>e. snd (snd e)) es)"
    and er: "erase (m_root dev) = erase (run_cmds sp es ?n)" and tr: "trace_ok sp ?ll ch es"
    by (simp_all add: slot_inv_def)
  have cmd: "cmd < length (CommandImpls s)" using get_preq_command_less [OF ok _ issue(3,4)] of sp by simp
  then have cmd': "cmd < command_count sp" using of by (simp add: of_standard_def)
  have "check_timing cmd av clk (run_cmds sp es ?n)"
    using issue(5) er by (metis check_timing_erase device_check_timing_def)
  then have "\<forall>p. valid_path sp ?ll 0 p \<and> on_path 0 av p \<longrightarrow> (\<forall>ob \<in> obligations sp (length p) (view ch p es) cmd. ob \<le> clk)"
    using check_timing_run [OF sok _ cmd', of es clk av ch] es clk by simp
  with tr have tr': "trace_ok sp ?ll ch (es @ [(cmd, av, clk)])" by (simp add: trace_ok_snoc)
  have "erase (m_root (issue_command cmd av clk dev)) = erase (run_cmds sp (es @ [(cmd, av, clk)]) ?n)"
    using erase_issue [of s dev cmd av clk] of sp cmd er by (simp add: run_cmds_snoc erase_update_timing)
  moreover have "device_reachable s sp (issue_command cmd av clk dev)"
    by (rule device_reachable.issue [OF r issue(3,4)])
  moreover have "\<forall>e \<in> set (es @ [(cmd, av, clk)]). fst e < command_count sp \<and> snd (snd e) \<le> clk"
    using es cmd' by force
  moreover have "sorted_wrt (\<le>) (map (\<lambda>e. snd (snd e)) (es @ [(cmd, av, clk)]))"
    using so es by (auto simp: sorted_wrt_append)
  ultimately show ?thesis using issue(2) sp clk tr' by (simp add: slot_inv_def)
qed

lemma slot_inv_steps:
  assumes "standard_ok s" "of_standard s sp" "spec_ok sp (Suc (enum_index (enum_Level s) ''Bank''))"
  shows "(slot_step s)\<^sup>*\<^sup>* b b' \<Longrightarrow> slot_inv s sp ch b \<Longrightarrow> slot_inv s sp ch b'"
  by (induction rule: rtranclp_induct) (auto intro: slot_inv_step [OF assms])

lemma bus_inv_start:
  assumes "standard_ok s" "of_standard s sp" "device_init sp = Inr dev"
  shows "bus_inv s sp ch (device_set_channel_id ch dev, [], 0)"
  using slot_inv_start [OF assms] by (simp add: bus_inv_def)

lemma bus_inv_step:
  assumes ok: "standard_ok s" "of_standard s sp" "spec_ok sp (Suc (enum_index (enum_Level s) ''Bank''))"
    and inv: "bus_inv s sp ch b" and st: "bus_step s b b'"
  shows "bus_inv s sp ch b'"
proof -
  have "slot_inv s sp ch b'" using slot_inv_steps [OF ok bus_step_slots [OF st]] inv by (simp add: bus_inv_def)
  moreover have "sorted_wrt (<) (map (\<lambda>e. snd (snd e)) (fst (snd b')))"
    using st inv by cases (auto simp: bus_inv_defs sorted_wrt_append)
  ultimately show ?thesis by (simp add: bus_inv_def)
qed

lemma bus_reachable_inv:
  assumes "standard_ok s" "of_standard s sp" "spec_ok sp (Suc (enum_index (enum_Level s) ''Bank''))"
  shows "bus_reachable s sp ch b \<Longrightarrow> bus_inv s sp ch b"
  by (induction rule: bus_reachable.induct) (auto intro: bus_inv_start [OF assms(1,2)] bus_inv_step [OF assms])

section \<open>The controller drives the bus\<close>

fun issued_of :: "ctrl_event list \<Rightarrow> cmd_event list" where
  "issued_of [] = []"
| "issued_of (Issued c av clk # es) = (c, av, clk) # issued_of es"
| "issued_of (_ # es) = issued_of es"

definition bus_of :: "Controller \<Rightarrow> bus" where
  "bus_of c = (m_device c, issued_of (m_events c), m_clk c)"

lemma issued_of_append [simp]: "issued_of (xs @ ys) = issued_of xs @ issued_of ys"
  by (induction xs rule: issued_of.induct) auto

lemma issued_of_callbacks [simp]: "issued_of (map Callback rs) = []"
  by (induction rs) auto

lemma finals_okI:
  assumes "\<And>r. r \<in> set (buffer (m_active_buffer c)) \<Longrightarrow> cmd_ok s (req_final_command r)"
    "\<And>r. r \<in> set (buffer (m_priority_buffer c)) \<Longrightarrow> cmd_ok s (req_final_command r)"
    "\<And>r. r \<in> set (buffer (m_read_buffer c)) \<Longrightarrow> cmd_ok s (req_final_command r)"
    "\<And>r. r \<in> set (buffer (m_write_buffer c)) \<Longrightarrow> cmd_ok s (req_final_command r)"
  shows "finals_ok s c"
  unfolding finals_ok_def
proof
  fix ref
  show "\<forall>r \<in> set (buffer (get_buf ref c)). cmd_ok s (req_final_command r)"
    using assms by (cases ref) simp_all
qed

lemma finals_okD: "finals_ok s c \<Longrightarrow> r \<in> set (buffer (get_buf ref c)) \<Longrightarrow> cmd_ok s (req_final_command r)"
  by (simp add: finals_ok_def)

lemmas finals_okDs = finals_okD [where ref = ActiveBuf, simplified] finals_okD [where ref = PriorityBuf, simplified]
  finals_okD [where ref = ReadBuf, simplified] finals_okD [where ref = WriteBuf, simplified]

lemma finals_ok_set_buf:
  assumes "finals_ok s c" "\<forall>r \<in> set (buffer b). cmd_ok s (req_final_command r)"
  shows "finals_ok s (set_buf ref b c)"
  using assms by (cases ref) (auto intro!: finals_okI dest: finals_okDs)

lemma finals_ok_frame:
  "m_active_buffer c' = m_active_buffer c \<Longrightarrow> m_priority_buffer c' = m_priority_buffer c \<Longrightarrow>
   m_read_buffer c' = m_read_buffer c \<Longrightarrow> m_write_buffer c' = m_write_buffer c \<Longrightarrow> finals_ok s c' \<longleftrightarrow> finals_ok s c"
  by (auto intro!: finals_okI dest: finals_okDs)

lemma sends_finals:
  assumes "sends K c c'" "finals_ok s c" "\<forall>x \<in> K. cmd_ok s x"
  shows "finals_ok s c'"
  using assms
proof (induction rule: sends.induct)
  case (step c c' cmd av ok c'')
  then have c': "finals_ok s c'" "cmd_ok s cmd" by auto
  have fin: "req_final_command (Request_Cmd av cmd) = cmd" by (simp add: Request_Cmd_def)
  show ?case
  proof (cases rule: enqueue_cases [of "m_priority_buffer c'" "Request_Cmd av cmd"])
    case full
    with step.hyps(3) have "c'' = c'" by (auto simp: priority_send_def Let_def split: if_splits)
    with c' show ?thesis by simp
  next
    case room
    with step.hyps(3) have b: "m_active_buffer c'' = m_active_buffer c'" "m_read_buffer c'' = m_read_buffer c'"
      "m_write_buffer c'' = m_write_buffer c'" "buffer (m_priority_buffer c'') = buffer (m_priority_buffer c') @ [Request_Cmd av cmd]"
      by (auto simp: priority_send_def Let_def split: if_splits)
    with c' fin show ?thesis by (auto intro!: finals_okI dest: finals_okDs)
  qed
qed simp

lemma tick_prologue_frame:
  "m_device (tick_prologue c) = m_device c" "m_clk (tick_prologue c) = m_clk c + 1"
  "issued_of (m_events (tick_prologue c)) = issued_of (m_events c)" "finals_ok s (tick_prologue c) \<longleftrightarrow> finals_ok s c"
proof -
  show "m_device (tick_prologue c) = m_device c" "m_clk (tick_prologue c) = m_clk c + 1"
    "issued_of (m_events (tick_prologue c)) = issued_of (m_events c)"
    by (simp_all add: tick_prologue_def serve_completed_reads_def serve_pending_split Let_def)
  show "finals_ok s (tick_prologue c) \<longleftrightarrow> finals_ok s c"
    by (rule finals_ok_frame) (simp_all add: tick_prologue_def serve_completed_reads_def serve_pending_split Let_def)
qed

lemma send_bus:
  assumes ok: "standard_ok s" and of: "of_standard s (spec_of c)" and fin: "finals_ok s c"
    and s: "send req c = Inr (acc, req', c')"
  shows "bus_of c' = bus_of c" "finals_ok s c'"
proof -
  from s obtain q where q: "mapper_apply (m_device c) (m_addr_mapper c) req = Inr q"
    and ty: "req_type_id req = 0 \<or> req_type_id req = 1"
    unfolding send_def by (auto simp: bindR_eq_Inr_iff split: if_splits)
  have sup: "cmd_ok s (int (supported_requests (spec_of c) ! nat (req_type_id q)))"
    using supported_access [OF ok of] ty mapper_apply_keys(1) [OF q] by (auto simp: cmd_ok_def access_final_ok)
  show "bus_of c' = bus_of c"
    using s q ty mapper_apply_keys [OF q] unfolding send_def bus_of_def
    by (auto simp: Let_def notify_departure_scheduled_def push_pending_def call_callback_def split: if_splits prod.splits bool.splits)
  show "finals_ok s c'"
    using s q ty mapper_apply_keys [OF q] fin sup unfolding send_def
    by (auto simp: Let_def notify_departure_scheduled_def push_pending_def call_callback_def enqueue_def
        split: if_splits intro!: finals_okI dest: finals_okDs)
qed

section \<open>Selecting and serving\<close>

text \<open>The request carries the command the device resolved for it, and the device is ready.\<close>

definition ready_req :: "Controller \<Rightarrow> Request \<Rightarrow> bool" where
  "ready_req c r \<longleftrightarrow>
     0 \<le> req_command r \<and>
     get_preq_command (m_device c) (nat (req_final_command r)) (req_addr_vec r) (m_clk c) = Inr (nat (req_command r)) \<and>
     device_check_timing (m_device c) (nat (req_command r)) (req_addr_vec r) (m_clk c)"

lemma ready_req_frame: "m_device c = m_device c' \<Longrightarrow> m_clk c = m_clk c' \<Longrightarrow> ready_req c r \<longleftrightarrow> ready_req c' r"
  by (simp add: ready_req_def)

definition cand_ready :: "Controller \<Rightarrow> Candidate \<Rightarrow> bool" where
  "cand_ready c cand \<longleftrightarrow>
     (case cand of None \<Rightarrow> True
      | Some (ref, it) \<Rightarrow> it < length (buffer (get_buf ref c)) \<and> ready_req c (buffer (get_buf ref c) ! it))"

abbreviation kept :: "dram_standard \<Rightarrow> Controller \<Rightarrow> Controller \<Rightarrow> bool" where
  "kept s c c' \<equiv> bus_of c' = bus_of c \<and> (finals_ok s c \<longrightarrow> finals_ok s c')"

lemma pick_best_ready:
  assumes "pick_best_ready_from sch ref flt c = Inr (cand, c')"
  shows "kept s c c' \<and> cand_ready c' cand"
proof -
  let ?b = "buffer (get_buf ref c)"
  from assms obtain rs pick where g: "get_best_request sch c flt ?b = Inr (rs, pick)"
    and c': "c' = set_buf ref ((get_buf ref c)\<lparr>buffer := rs\<rparr>) c"
    and cand: "cand = None \<or> (\<exists>it. pick = Some it \<and> cand = Some (ref, it) \<and>
        ctrl_check_timing c' (nat (req_command (rs ! it))) (req_addr_vec (rs ! it)))"
    unfolding pick_best_ready_from_def by (auto simp: bindR_eq_Inr_iff Let_def split: option.splits if_splits)
  have "map req_final_command rs = map req_final_command ?b" by (rule sched.keeps [OF g]) simp
  from arg_cong [OF this, of set] have im: "req_final_command ` set rs = req_final_command ` set ?b" by simp
  have fins: "finals_ok s c \<longrightarrow> finals_ok s c'"
  proof
    assume f: "finals_ok s c"
    have "cmd_ok s (req_final_command r)" if "r \<in> set rs" for r
    proof -
      from that im obtain r' where "r' \<in> set ?b" "req_final_command r = req_final_command r'" by (metis imageE imageI)
      with finals_okD [OF f] show ?thesis by simp
    qed
    then show "finals_ok s c'" unfolding c' using f by (intro finals_ok_set_buf) auto
  qed
  have "cand_ready c' cand"
  proof (cases cand)
    case (Some x)
    with cand obtain it where it: "cand = Some (ref, it)" "get_best_request sch c flt ?b = Inr (rs, Some it)"
      "ctrl_check_timing c' (nat (req_command (rs ! it))) (req_addr_vec (rs ! it))" using g by auto
    from sched.picked [OF it(2)] obtain cmd where "it < length rs" "rs ! it = (?b ! it)\<lparr>req_command := int cmd\<rparr>"
      "ctrl_get_preq_command c (nat (req_final_command (?b ! it))) (req_addr_vec (?b ! it)) = Inr cmd" by auto
    with it show ?thesis
      by (simp add: cand_ready_def ready_req_def c' ctrl_get_preq_command_def ctrl_check_timing_def)
  qed (simp add: cand_ready_def)
  with fins show ?thesis by (simp add: bus_of_def c')
qed

lemma pick_priority_ready:
  assumes "pick_priority_if flt c = Inr (cand, c')"
  shows "kept s c c' \<and> cand_ready c' cand"
proof (cases "buffer (m_priority_buffer c)")
  case Nil
  with assms show ?thesis by (auto simp: pick_priority_if_def cand_ready_def)
next
  case (Cons r rs)
  let ?c1 = "\<lambda>cmd. c\<lparr>m_priority_buffer := (m_priority_buffer c)\<lparr>buffer := r\<lparr>req_command := int cmd\<rparr> # rs\<rparr>\<rparr>"
  from assms Cons obtain cmd where cmd: "ctrl_get_preq_command c (nat (req_final_command r)) (req_addr_vec r) = Inr cmd"
    and c': "c' = ?c1 cmd" and cand: "cand = None \<or> cand = Some (PriorityBuf, 0) \<and> ctrl_check_timing (?c1 cmd) cmd (req_addr_vec r)"
    by (auto simp: pick_priority_if_def bindR_eq_Inr_iff Let_def split: if_splits)
  have "cmd_ok s (req_final_command r)" "\<forall>x \<in> set rs. cmd_ok s (req_final_command x)" if "finals_ok s c"
    using finals_okD [OF that, of _ PriorityBuf] Cons by simp_all
  then have "finals_ok s c \<longrightarrow> finals_ok s c'"
    unfolding c' by (auto intro!: finals_okI dest: finals_okDs)
  moreover have "cand_ready c' cand"
    using cand cmd by (auto simp: cand_ready_def ready_req_def c' ctrl_get_preq_command_def ctrl_check_timing_def)
  ultimately show ?thesis by (simp add: c' bus_of_def)
qed

lemma set_write_mode_kept: "kept s c (set_write_mode c)"
proof -
  have "finals_ok s (set_write_mode c) \<longleftrightarrow> finals_ok s c"
    by (rule finals_ok_frame) (simp_all add: set_write_mode_def)
  then show ?thesis by (simp add: set_write_mode_def bus_of_def)
qed

lemma select_candidate_ready:
  assumes "select_candidate sch c = Inr (cand, c')"
  shows "kept s c c' \<and> cand_ready c' cand"
proof -
  from assms obtain cand1 c1 cand2 c2 where
    p1: "pick_best_ready_from sch ActiveBuf (\<lambda>_. True) c = Inr (cand1, c1)" and
    p2: "(if cand1 = None then pick_priority_if (\<lambda>_. True) c1 else Inr (cand1, c1)) = Inr (cand2, c2)" and
    p3: "(if cand2 = None \<and> buf_size (m_priority_buffer c2) = 0 then pick_rw_if sch (\<lambda>_. True) c2 else Inr (cand2, c2)) = Inr (cand, c')"
    unfolding select_candidate_def by (auto simp: bindR_eq_Inr_iff)
  have k1: "kept s c c1 \<and> cand_ready c1 cand1" by (rule pick_best_ready [OF p1])
  have k2: "kept s c1 c2 \<and> cand_ready c2 cand2"
    using p2 k1 pick_priority_ready [of "\<lambda>_. True" c1 cand2 c2] by (auto split: if_splits)
  have "kept s c2 c' \<and> cand_ready c' cand"
  proof (cases "cand2 = None \<and> buf_size (m_priority_buffer c2) = 0")
    case True
    with p3 have p: "pick_rw_if sch (\<lambda>_. True) c2 = Inr (cand, c')" by simp
    let ?w = "set_write_mode c2"
    from p have "pick_best_ready_from sch (if m_is_write_mode ?w then WriteBuf else ReadBuf)
        (\<lambda>req. \<not> would_close_active ?w req \<and> True) ?w = Inr (cand, c')" by (simp add: pick_rw_if_def Let_def)
    from pick_best_ready [OF this, where s = s] set_write_mode_kept [where s = s and c = c2] show ?thesis by auto
  next
    case False
    with p3 k2 show ?thesis by auto
  qed
  with k1 k2 show ?thesis by auto
qed

text \<open>
  The policy may exchange the command: the exchanged one is ready too. Statistics do not
  change it.
\<close>

lemma ClosedCAP_upgrade_cases:
  obtains "ClosedCAP_try_upgrade p c r = r"
  | x y where "m_has_ap p" "(x, y) \<in> {(m_cmd_rd p, m_cmd_rda p), (m_cmd_wr p, m_cmd_wra p)}" "req_command r = x"
      "ctrl_check_timing c (nat y) (req_addr_vec r)"
      "ClosedCAP_try_upgrade p c r = r\<lparr>req_command := y, req_final_command := y\<rparr>"
proof -
  have "ClosedCAP_try_upgrade p c r = r \<or>
      m_has_ap p \<and> req_command r = m_cmd_rd p \<and> ctrl_check_timing c (nat (m_cmd_rda p)) (req_addr_vec r) \<and>
        ClosedCAP_try_upgrade p c r = r\<lparr>req_command := m_cmd_rda p, req_final_command := m_cmd_rda p\<rparr> \<or>
      m_has_ap p \<and> req_command r = m_cmd_wr p \<and> ctrl_check_timing c (nat (m_cmd_wra p)) (req_addr_vec r) \<and>
        ClosedCAP_try_upgrade p c r = r\<lparr>req_command := m_cmd_wra p, req_final_command := m_cmd_wra p\<rparr>"
    unfolding ClosedCAP_try_upgrade_def Let_def by (simp only: split: if_split) blast
  then show ?thesis
    using that by blast
qed

lemma upgrade_ready:
  assumes ok: "standard_ok s" and of: "of_standard s (spec_of c)" and leg: "device_legal s (m_device c)"
    and pol: "policy_ok s pol" and fin: "cmd_ok s (req_final_command r)" and rdy: "ready_req c r"
  shows "ready_req c (try_upgrade_command pol c r) \<and> cmd_ok s (req_final_command (try_upgrade_command pol c r))"
proof (cases "try_upgrade_command pol c r = r")
  case False
  then obtain p where pc: "pol = ClosedCAP p" by (cases pol) simp_all
  with False obtain x y where xy: "m_has_ap p" "(x, y) \<in> {(m_cmd_rd p, m_cmd_rda p), (m_cmd_wr p, m_cmd_wra p)}"
    and q: "req_command r = x" "ctrl_check_timing c (nat y) (req_addr_vec r)"
    and r': "try_upgrade_command pol c r = r\<lparr>req_command := y, req_final_command := y\<rparr>"
    using ClosedCAP_upgrade_cases [of p c r] by (metis try_upgrade_command.simps(2))
  have "access_id s x \<and> access_id s y" using xy pol pc by auto
  then have p: "pol = ClosedCAP p" "access_id s x" "access_id s y" "req_command r = x"
    "ctrl_check_timing c (nat y) (req_addr_vec r)" using pc q by blast+
  from p have acc: "is_access s (nat x)" "is_access s (nat y)" "0 \<le> y" by (simp_all add: access_id_def)
  from fin have f: "final_ok s (nat (req_final_command r))" by (simp add: cmd_ok_def)
  from rdy p(4) have g: "get_preq_command (m_device c) (nat (req_final_command r)) (req_addr_vec r) (m_clk c) = Inr (nat x)"
    by (simp add: ready_req_def)
  have "nat (req_final_command r) = nat x"
    by (rule resolved_self [OF ok of f g access_kind_not_prerequisite [OF acc(1)]])
  with g have "get_preq_command (m_device c) (nat x) (req_addr_vec r) (m_clk c) = Inr (nat x)" by simp
  from exchange_access [OF ok of leg acc(1,2) this] acc(3) p(3,5) show ?thesis
    unfolding r' by (simp add: ready_req_def ctrl_check_timing_def access_id_cmd_ok)
qed (use fin rdy in simp)

lemma replace_at_finals:
  assumes "finals_ok s c" "cmd_ok s (req_final_command r)"
  shows "finals_ok s (replace_at ref it r c)"
  unfolding replace_at_def using assms finals_okD [OF assms(1), of _ ref]
  by (intro finals_ok_set_buf) (auto dest!: set_update_subset_insert [THEN subsetD])

lemma replace_at_frame [simp]:
  "m_device (replace_at ref it r c) = m_device c" "m_clk (replace_at ref it r c) = m_clk c"
  "m_events (replace_at ref it r c) = m_events c"
  "buffer (get_buf ref (replace_at ref it r c)) = (buffer (get_buf ref c))[it := r]"
  by (simp_all add: replace_at_def)

lemma get_buf_stats [simp]: "get_buf ref (c\<lparr>m_stats := x\<rparr>) = get_buf ref c"
  by (cases ref) simp_all

lemma update_request_stats_frame:
  "m_device (update_request_stats ref it c) = m_device c" "m_clk (update_request_stats ref it c) = m_clk c"
  "m_events (update_request_stats ref it c) = m_events c"
  "get_buf ref' (update_request_stats ref it c) =
     get_buf ref' (replace_at ref it ((buffer (get_buf ref c) ! it)\<lparr>req_is_stat_updated := True\<rparr>) c)"
  by (simp_all add: update_request_stats_def replace_at_def Let_def)

lemma finals_ok_bufs: "(\<And>ref. get_buf ref c' = get_buf ref c) \<Longrightarrow> finals_ok s c' \<longleftrightarrow> finals_ok s c"
  by (simp add: finals_ok_def)

lemma prepare_candidate_ready:
  assumes ok: "standard_ok s" and of: "of_standard s (spec_of c)" and leg: "device_legal s (m_device c)"
    and pol: "policy_ok s pol" and fin: "finals_ok s c" and rdy: "cand_ready c (Some (ref, it))"
  shows "kept s c (prepare_candidate ref it pol c) \<and> cand_ready (prepare_candidate ref it pol c) (Some (ref, it))"
proof -
  let ?r = "buffer (get_buf ref c) ! it" and ?u = "try_upgrade_command pol c (buffer (get_buf ref c) ! it)"
  let ?c1 = "replace_at ref it ?u c"
  from rdy have it: "it < length (buffer (get_buf ref c))" and rr: "ready_req c ?r" by (simp_all add: cand_ready_def)
  have f: "cmd_ok s (req_final_command ?r)" using finals_okD [OF fin nth_mem [OF it]] .
  note u = upgrade_ready [OF ok of leg pol f rr]
  have c1: "finals_ok s ?c1" using replace_at_finals [OF fin] u by blast
  have r1: "ready_req ?c1 ?u" using u ready_req_frame [of ?c1 c] by simp
  show ?thesis
  proof (cases "req_is_stat_updated ?u")
    case True
    with c1 r1 it show ?thesis by (simp add: prepare_candidate_def Let_def cand_ready_def bus_of_def)
  next
    case False
    let ?c2 = "update_request_stats ref it ?c1"
    have b: "get_buf ref' ?c2 = get_buf ref' (replace_at ref it (?u\<lparr>req_is_stat_updated := True\<rparr>) ?c1)" for ref'
      using it by (simp add: update_request_stats_frame(4))
    have "finals_ok s ?c2"
      using replace_at_finals [OF c1, of "?u\<lparr>req_is_stat_updated := True\<rparr>" ref it] u finals_ok_bufs [OF b] by simp
    moreover have "ready_req ?c2 (?u\<lparr>req_is_stat_updated := True\<rparr>)"
      using u by (simp add: ready_req_def update_request_stats_frame)
    ultimately show ?thesis using False it
      by (simp add: prepare_candidate_def Let_def cand_ready_def bus_of_def b update_request_stats_frame(1-3))
  qed
qed

lemma get_buf_device [simp]: "get_buf ref (c\<lparr>m_device := d, m_events := e\<rparr>) = get_buf ref c"
  by (cases ref) simp_all

text \<open>A candidate whose command the device resolved, for the final command of the request or another.\<close>

definition cand_issuable :: "dram_standard \<Rightarrow> Controller \<Rightarrow> buf_ref \<Rightarrow> nat \<Rightarrow> bool" where
  "cand_issuable s c ref it \<longleftrightarrow>
     it < length (buffer (get_buf ref c)) \<and>
     (let r = buffer (get_buf ref c) ! it in
      (\<exists>fin. final_ok s fin \<and> get_preq_command (m_device c) fin (req_addr_vec r) (m_clk c) = Inr (nat (req_command r))) \<and>
      device_check_timing (m_device c) (nat (req_command r)) (req_addr_vec r) (m_clk c))"

lemma cand_ready_issuable:
  assumes "finals_ok s c" "cand_ready c (Some (ref, it))"
  shows "cand_issuable s c ref it"
  using assms finals_okD [OF assms(1) nth_mem, of it ref]
  by (auto simp: cand_ready_def ready_req_def cand_issuable_def cmd_ok_def Let_def)

lemma issue_candidate_slot:
  assumes "cand_issuable s c ref it"
  shows "slot_step s (bus_of c) (bus_of (issue_candidate ref it c))"
  using assms by (auto simp: cand_issuable_def Let_def bus_of_def issue_candidate_def intro: slot_step.issue)

lemma issue_candidate_finals: "finals_ok s c \<Longrightarrow> finals_ok s (issue_candidate ref it c)"
  using finals_ok_bufs [of "issue_candidate ref it c" c] by (simp add: issue_candidate_def Let_def)

text \<open>An issue at the clock of a cycle is a step of the bus from the clock before.\<close>

lemma slot_issue_bus:
  assumes "slot_step s (dev, es, clk + 1) (dev', es', clk + 1)"
  shows "bus_step s (dev, es, clk) (dev', es', clk + 1)"
  using assms by cases (auto intro: bus_step.issue)

text \<open>Retiring and promoting move requests between places that all satisfy the invariant.\<close>

lemma remove_at_subset: "set (buffer (remove_at b it)) \<subseteq> set (buffer b)"
  by (auto dest: in_set_takeD in_set_dropD)

lemma retire_request_kept:
  "kept s c (retire_request ref it c)"
proof -
  let ?r = "buffer (get_buf ref c) ! it"
  let ?c1 = "complete_request ?r (leave_buffer ref ?r c)"
  have "get_buf x (complete_request ?r (leave_buffer ref ?r c)) = get_buf x c" for x
    by (cases x) (simp_all add: complete_request_def leave_buffer_def Let_def notify_departure_scheduled_def push_pending_def call_callback_def)
  moreover have "bus_of ?c1 = bus_of c"
    by (simp add: bus_of_def complete_request_def leave_buffer_def Let_def notify_departure_scheduled_def push_pending_def call_callback_def)
  moreover have "finals_ok s (set_buf ref (remove_at (get_buf ref ?c1) it) ?c1)" if "finals_ok s ?c1"
    using that remove_at_subset [of "get_buf ref ?c1" it] finals_okD [OF that, of _ ref]
    by (intro finals_ok_set_buf) auto
  ultimately show ?thesis
    using finals_ok_bufs [of ?c1 c s] by (simp add: retire_request_def Let_def bus_of_def)
qed

lemma promote_to_active_kept:
  assumes it: "it < length (buffer (get_buf ref c))"
  shows "kept s c (promote_to_active ref it c)"
proof (cases rule: enqueue_cases [of "m_active_buffer c" "buffer (get_buf ref c) ! it"])
  case full
  then show ?thesis by (simp add: promote_to_active_def Let_def)
next
  case room
  let ?r = "buffer (get_buf ref c) ! it"
  let ?c1 = "c\<lparr>m_active_buffer := (m_active_buffer c)\<lparr>buffer := buffer (m_active_buffer c) @ [?r]\<rparr>,
      m_active_per_bank := bump_bank (get_flat_bank_id (m_device c) (req_addr_vec ?r)) 1 (m_active_per_bank c)\<rparr>"
  let ?c2 = "if ref = WriteBuf then ?c1\<lparr>m_buffered_write_addrs := m_buffered_write_addrs ?c1 - {req_addr ?r}\<rparr> else ?c1"
  have e: "promote_to_active ref it c = set_buf ref (remove_at (get_buf ref ?c2) it) ?c2"
    using room by (simp add: promote_to_active_def Let_def)
  have f2: "finals_ok s ?c2" if "finals_ok s c"
    using that finals_okD [OF that nth_mem [OF it]] by (auto intro!: finals_okI dest: finals_okDs)
  have "finals_ok s (set_buf ref (remove_at (get_buf ref ?c2) it) ?c2)" if "finals_ok s c"
    using remove_at_subset [of "get_buf ref ?c2" it] finals_okD [OF f2 [OF that], of _ ref]
    by (intro finals_ok_set_buf f2 [OF that]) blast
  then show ?thesis unfolding e by (simp add: bus_of_def)
qed

lemma on_issue_ok: "policy_ok s pol \<Longrightarrow> policy_ok s (on_issue c r pol)"
proof (cases pol)
  case (ClosedCAP p)
  have fr: "m_cmd_prepb (fold reset_cap is p) = m_cmd_prepb p" "m_cmd_rd (fold reset_cap is p) = m_cmd_rd p"
    "m_cmd_wr (fold reset_cap is p) = m_cmd_wr p" "m_cmd_rda (fold reset_cap is p) = m_cmd_rda p"
    "m_cmd_wra (fold reset_cap is p) = m_cmd_wra p" "m_has_ap (fold reset_cap is p) = m_has_ap p" for "is"
    by (rule fold_frame, simp add: reset_cap_def)+
  assume "policy_ok s pol"
  with ClosedCAP show ?thesis by (simp add: ClosedCAP_on_issue_def Let_def fr)
qed simp

lemma pre_schedule_ok: "pre_schedule (pol, c) = Inr (pol', c') \<Longrightarrow> policy_ok s pol \<Longrightarrow> policy_ok s pol'"
proof (cases pol)
  case (ClosedCAP p)
  let ?k = "\<lambda>p. (m_cmd_prepb p, m_cmd_rd p, m_cmd_wr p, m_cmd_rda p, m_cmd_wra p, m_has_ap p)"
  assume "pre_schedule (pol, c) = Inr (pol', c')" and ok: "policy_ok s pol"
  with ClosedCAP obtain p' where p': "pol' = ClosedCAP p'" "foldR cap_inject [0..<length (m_col_accesses p)] (p, c) = Inr (p', c')"
    by (auto simp: bindR_eq_Inr_iff ClosedCAP_pre_schedule_def)
  have "?k (fst (p', c')) = ?k p"
    by (rule foldR_invariant [OF p'(2), where I = "\<lambda>u. ?k (fst u) = ?k p"])
      (auto simp: cap_inject_def Let_def bindR_eq_Inr_iff split: if_splits)
  with ok p'(1) ClosedCAP show ?thesis by simp
qed simp

lemma advance_request_kept:
  "it < length (buffer (get_buf ref c)) \<Longrightarrow> kept s c (advance_request ref it c)"
  using retire_request_kept [where c = c and ref = ref and it = it and s = s] promote_to_active_kept [where s = s and c = c and ref = ref and it = it]
  by (simp add: advance_request_def Let_def)

lemma finish_candidate_slot:
  assumes pol: "policy_ok s pol" and plug: "plugins_ok s ps" and fin: "finals_ok s c" and iss: "cand_issuable s c ref it"
    and sv: "finish_candidate ref it (pol, ps, c) = Inr (pol', ps', c')"
  shows "slot_step s (bus_of c) (bus_of c')" "m_clk c' = m_clk c" "finals_ok s c'" "policy_ok s pol'" "plugins_ok s ps'"
proof -
  let ?i = "issue_candidate ref it c"
  have it: "it < length (buffer (get_buf ref ?i))" using iss by (simp add: cand_issuable_def issue_candidate_def Let_def)
  from sv obtain c1 where pl: "plugins_on_issue (buffer (get_buf ref ?i) ! it) (ps, ?i) = Inr (ps', c1)"
    and c': "c' = advance_request ref it c1" and pol': "pol' = on_issue ?i (buffer (get_buf ref ?i) ! it) pol"
    by (rule finish_candidate_phases)
  note ps = plugins_on_issue_sends [OF pl]
  have cs: "\<forall>x \<in> (\<Union>q \<in> set ps. plugin_cmds q). cmd_ok s x" using plug by (simp add: plugins_ok_def)
  have b1: "bus_of c1 = bus_of ?i" using sends_frame [OF conjunct2 [OF ps]] by (simp add: bus_of_def)
  have f1: "finals_ok s c1" by (rule sends_finals [OF conjunct2 [OF ps] issue_candidate_finals [OF fin] cs])
  have k: "kept s c1 c'" unfolding c' by (rule advance_request_kept) (rule sends_get_buf(1) [OF conjunct2 [OF ps] it])
  with b1 have b: "bus_of c' = bus_of ?i" by simp
  show "slot_step s (bus_of c) (bus_of c')" unfolding b by (rule issue_candidate_slot [OF iss])
  show "m_clk c' = m_clk c" using b by (simp add: bus_of_def issue_candidate_def Let_def)
  show "finals_ok s c'" using f1 k by blast
  show "policy_ok s pol'" using on_issue_ok [OF pol] pol' by simp
  show "plugins_ok s ps'" using cs ps by (simp add: plugins_ok_def)
qed

lemma serve_candidate_bus:
  assumes ok: "standard_ok s" and of: "of_standard s (spec_of c)" and leg: "device_legal s (m_device c)"
    and pol: "policy_ok s pol" and plug: "plugins_ok s ps" and fin: "finals_ok s c"
    and rdy: "cand_ready c (Some (ref, it))" and clk: "m_clk c = clk + 1"
    and sv: "serve_candidate ref it (pol, ps, c) = Inr (pol', ps', c')"
  shows "bus_step s (m_device c, issued_of (m_events c), clk) (bus_of c')"
    "finals_ok s c'" "policy_ok s pol'" "plugins_ok s ps'"
proof -
  let ?p = "prepare_candidate ref it pol c"
  note p = prepare_candidate_ready [OF ok of leg pol fin rdy]
  from p fin have f: "finals_ok s ?p" by blast
  from sv have sv': "finish_candidate ref it (pol, ps, ?p) = Inr (pol', ps', c')" by (simp add: serve_candidate_def)
  note s = finish_candidate_slot [OF pol plug f cand_ready_issuable [OF f conjunct2 [OF p]] sv']
  from s(1,2) p clk show "bus_step s (m_device c, issued_of (m_events c), clk) (bus_of c')"
    by (auto simp: bus_of_def intro: slot_issue_bus)
  show "finals_ok s c'" "policy_ok s pol'" "plugins_ok s ps'" by (rule s)+
qed

section \<open>Ticks refine bus cycles\<close>

definition sys_ok :: "dram_standard \<Rightarrow> GenericDDR \<Rightarrow> bool" where
  "sys_ok s g \<longleftrightarrow> finals_ok s (g_ctrl g) \<and> policy_ok s (g_rowpolicy g) \<and> refresh_ok s (g_refresh g) \<and> plugins_ok s (g_plugins g)"

lemma policy_cmds_ok: "policy_ok s pol \<Longrightarrow> \<forall>x \<in> policy_cmds pol. cmd_ok s x"
  by (cases pol) auto

lemma tick_bus:
  assumes ok: "standard_ok s" and of: "of_standard s (spec_of (g_ctrl g))" and leg: "device_legal s (m_device (g_ctrl g))"
    and sys: "sys_ok s g" and t: "GenericDDR_tick g = Inr g'"
  shows "bus_step s (bus_of (g_ctrl g)) (bus_of (g_ctrl g'))" "sys_ok s g'"
proof -
  let ?c = "g_ctrl g" and ?tp = "tick_prologue (g_ctrl g)"
  let ?ps = "map plugin_pre_schedule (g_plugins g)"
  from t obtain rf c1 pol c2 cand c3 pol' ps c4 where
    r: "refresh_tick (g_refresh g, ?tp) = Inr (rf, c1)" and p: "pre_schedule (g_rowpolicy g, c1) = Inr (pol, c2)" and
    sel: "select_candidate (g_scheduler g) c2 = Inr (cand, c3)" and sv: "serve_if_valid cand (pol, ?ps, c3) = Inr (pol', ps, c4)" and
    g': "g' = g\<lparr>g_ctrl := c4, g_refresh := rf, g_rowpolicy := pol', g_plugins := ps\<rparr>"
    by (elim GenericDDR_tick_phases)
  have plug: "plugins_ok s ?ps" using sys by (simp add: sys_ok_def plugins_ok_def)
  from sys have s: "finals_ok s ?c" "policy_ok s (g_rowpolicy g)" "\<forall>x \<in> refresh_cmds (g_refresh g). cmd_ok s x"
    by (simp_all add: sys_ok_def refresh_ok_def)
  note rs = refresh_tick_sends [OF r] and ps = pre_schedule_sends [OF p]
  have f2: "finals_ok s c2"
    using sends_finals [OF ps sends_finals [OF conjunct2 [OF rs]]] s policy_cmds_ok [OF s(2)] tick_prologue_frame(4) by blast
  have po: "policy_ok s pol" by (rule pre_schedule_ok [OF p s(2)])
  note k3 = select_candidate_ready [OF sel, where s = s]
  have b3: "m_device c3 = m_device ?c" "issued_of (m_events c3) = issued_of (m_events ?c)" "m_clk c3 = m_clk ?c + 1"
    using k3 sends_frame [OF ps] sends_frame [OF conjunct2 [OF rs]] tick_prologue_frame(1-3) [where c = ?c] by (simp_all add: bus_of_def)
  have f3: "finals_ok s c3" using k3 f2 by blast
  have rf: "refresh_ok s rf" using rs s(3) by (simp add: refresh_ok_def)
  have "bus_step s (bus_of ?c) (bus_of (g_ctrl g')) \<and> sys_ok s g'"
  proof (cases cand)
    case None
    with sv have e: "pol' = pol" "ps = ?ps" "c4 = c3" by (simp_all add: serve_if_valid_def)
    then have "bus_of (g_ctrl g') = (m_device ?c, issued_of (m_events ?c), m_clk ?c + 1)"
      using b3 g' by (simp add: bus_of_def)
    with bus_step.idle [of s "m_device ?c" "issued_of (m_events ?c)" "m_clk ?c"] e f3 po rf plug g' show ?thesis
      by (simp add: bus_of_def [of ?c] sys_ok_def)
  next
    case (Some x)
    obtain ref it where x: "cand = Some (ref, it)" using Some by (cases x) simp
    with sv have sv': "serve_candidate ref it (pol, ?ps, c3) = Inr (pol', ps, c4)" by (simp add: serve_if_valid_def)
    have "of_standard s (spec_of c3)" "device_legal s (m_device c3)" "cand_ready c3 (Some (ref, it))"
      using of leg b3(1) k3 x by simp_all
    from serve_candidate_bus [OF ok this(1,2) po plug f3 this(3) b3(3) sv'] rf b3 g' show ?thesis
      by (simp add: sys_ok_def bus_of_def [of ?c])
  qed
  then show "bus_step s (bus_of (g_ctrl g)) (bus_of (g_ctrl g'))" "sys_ok s g'" by blast+
qed

text \<open>A reset of the statistics is not seen on the bus.\<close>

lemma plugin_reset_cmds [simp]: "plugin_cmds (plugin_reset_stats p) = plugin_cmds p"
  by (cases p) simp_all

lemma reset_stats_bus:
  "bus_of (g_ctrl (GenericDDR_reset_stats g)) = bus_of (g_ctrl g)"
  "sys_ok s (GenericDDR_reset_stats g) \<longleftrightarrow> sys_ok s g"
proof -
  have "get_buf ref (reset_stats c) = get_buf ref c" for ref c by (cases ref) (simp_all add: reset_stats_def)
  then show "bus_of (g_ctrl (GenericDDR_reset_stats g)) = bus_of (g_ctrl g)"
    "sys_ok s (GenericDDR_reset_stats g) \<longleftrightarrow> sys_ok s g"
    by (simp_all add: GenericDDR_reset_stats_def bus_of_def reset_stats_def sys_ok_def finals_ok_def plugins_ok_def)
qed

text \<open>
  The states of a whole channel: the controller with the scheduler, refresh manager, row
  policy and plugins created for its device, then requests, ticks and resets of the
  statistics in any order.
\<close>

inductive channel_reachable ::
  "(DRAMSpec \<Rightarrow> AddrMapper result) \<Rightarrow> CtrlConfig \<Rightarrow> nat \<Rightarrow> int \<Rightarrow> GenericDDR \<Rightarrow> bool" for mk cfg cores ch where
  start: "init_base mk cfg cores = Inr c \<Longrightarrow> g_ctrl g = ctrl_set_channel_id ch c \<Longrightarrow>
    refresh_created (m_device c) (g_refresh g) \<Longrightarrow> policy_created (m_device c) (g_rowpolicy g) \<Longrightarrow>
    list_all (plugin_created (m_device c)) (g_plugins g) \<Longrightarrow> channel_reachable mk cfg cores ch g"
| sent: "channel_reachable mk cfg cores ch g \<Longrightarrow> send req (g_ctrl g) = Inr (ok, req', c) \<Longrightarrow>
    channel_reachable mk cfg cores ch (g\<lparr>g_ctrl := c\<rparr>)"
| ticked: "channel_reachable mk cfg cores ch g \<Longrightarrow> GenericDDR_tick g = Inr g' \<Longrightarrow> channel_reachable mk cfg cores ch g'"
| reset: "channel_reachable mk cfg cores ch g \<Longrightarrow> channel_reachable mk cfg cores ch (GenericDDR_reset_stats g)"

lemma init_base_parts:
  assumes "init_base mk cfg cores = Inr c"
  obtains sp where "create (cc_dram_impl cfg) (cc_dram cfg) = Inr sp" "device_init sp = Inr (m_device c)" "m_clk c = 0"
    "m_events c = []" "\<And>ref. buffer (get_buf ref c) = []"
proof -
  from assms obtain sp where "create (cc_dram_impl cfg) (cc_dram cfg) = Inr sp" "device_init sp = Inr (m_device c)" "m_clk c = 0"
    "m_events c = []" and b: "buffer (m_active_buffer c) = []" "buffer (m_priority_buffer c) = []"
    "buffer (m_read_buffer c) = []" "buffer (m_write_buffer c) = []"
    unfolding init_base_def by (auto simp: bindR_eq_Inr_iff ReqBuffer_new_def split: if_splits option.splits)
  moreover have "buffer (get_buf ref c) = []" for ref using b by (cases ref) simp_all
  ultimately show ?thesis using that by blast
qed

lemma create_parts:
  assumes "create name cfg = Inr sp"
  obtains s sp0 where "s \<in> set all_standards" "std_name s = name" "construct_spec s cfg = Inr sp0" "sp = sp0\<lparr>standard_name := name\<rparr>"
proof -
  from assms obtain s sp0 where "registry name = Some s" "construct_spec s cfg = Inr sp0" "sp = sp0\<lparr>standard_name := name\<rparr>"
    by (auto simp: create_def bindR_eq_Inr_iff split: option.splits)
  moreover from this(1) have "s \<in> set all_standards" "std_name s = name"
    by (auto simp: registry_def dest!: map_of_SomeD)
  ultimately show ?thesis using that by blast
qed

lemma all_standards_ok: "s \<in> set all_standards \<Longrightarrow> standard_ok s"
  using standards_ok by (simp add: list_all_iff)

text \<open>A name is not consulted by the device.\<close>

lemma of_standard_name [simp]: "of_standard s (sp\<lparr>standard_name := n\<rparr>) \<longleftrightarrow> of_standard s sp"
  by (simp add: of_standard_def flags_ok_def)

lemma spec_ok_name [simp]: "spec_ok (sp\<lparr>standard_name := n\<rparr>) l \<longleftrightarrow> spec_ok sp l"
  by (simp add: spec_ok_def flags_ok_def cons_ok_def)

lemma channel_refines_bus:
  assumes s: "standard_ok s" and c: "create (cc_dram_impl cfg) (cc_dram cfg) = Inr sp" and of: "of_standard s sp"
    and sok: "spec_ok sp (Suc (enum_index (enum_Level s) ''Bank''))"
  shows "channel_reachable mk cfg cores ch g \<Longrightarrow> bus_reachable s sp ch (bus_of (g_ctrl g)) \<and> sys_ok s g"
proof (induction rule: channel_reachable.induct)
  case (start c0 g)
  from init_base_parts [OF start(1)] c have i: "device_init sp = Inr (m_device c0)" "m_clk c0 = 0" "m_events c0 = []"
    "\<And>ref. buffer (get_buf ref c0) = []" by (metis sum.inject(2))+
  from device_init_ok [OF s of] i(1) have "m_spec (m_device c0) = sp" by auto
  then have "policy_ok s (g_rowpolicy g)" "refresh_ok s (g_refresh g)" "plugins_ok s (g_plugins g)"
    using policy_created_ok [OF s _ start(4)] refresh_created_ok [OF s _ start(3)] plugins_created_ok [OF s _ start(5)] of by auto
  moreover have "finals_ok s (g_ctrl g)"
    using i(4) [of ActiveBuf] i(4) [of PriorityBuf] i(4) [of ReadBuf] i(4) [of WriteBuf] start(2)
    by (auto intro!: finals_okI simp: ctrl_set_channel_id_def)
  moreover have "bus_of (g_ctrl g) = (device_set_channel_id ch (m_device c0), [], 0)"
    using i start(2) by (simp add: bus_of_def ctrl_set_channel_id_def)
  ultimately show ?case using bus_reachable.start [OF i(1)] by (simp add: sys_ok_def)
next
  case (sent g req ok req' c')
  from sent.IH bus_reachable_inv [OF s of sok, of ch "bus_of (g_ctrl g)"] have "spec_of (g_ctrl g) = sp"
    by (simp add: bus_inv_defs bus_of_def)
  with send_bus [OF s _ _ sent(2)] of sent.IH show ?case by (simp add: sys_ok_def)
next
  case (ticked g g')
  from ticked.IH bus_reachable_inv [OF s of sok, of ch "bus_of (g_ctrl g)"]
  have d: "spec_of (g_ctrl g) = sp" "device_reachable s sp (m_device (g_ctrl g))" by (simp_all add: bus_inv_defs bus_of_def)
  from device_reachable_inv [OF s of d(2)] have leg: "device_legal s (m_device (g_ctrl g))" by blast
  from tick_bus [OF s _ leg _ ticked(2)] of d(1) ticked.IH show ?case by (auto intro: bus_reachable.step)
next
  case (reset g)
  then show ?case by (simp add: reset_stats_bus)
qed

lemma channel_ctrl_reachable: "channel_reachable mk cfg cores ch g \<Longrightarrow> ctrl_reachable mk cfg cores g"
  by (induction rule: channel_reachable.induct) (auto intro: ctrl_reachable.intros)

section \<open>Executions\<close>

text \<open>
  A run of a channel: a request is sent, or the channel ticks. \<open>run_states\<close> lists the states
  passed through, up to the first exception.
\<close>

datatype channel_op = Op_Send Request | Op_Tick

definition channel_step :: "channel_op \<Rightarrow> GenericDDR \<Rightarrow> GenericDDR result" where
  "channel_step op g =
     (case op of
        Op_Send r \<Rightarrow> bindR (send r (g_ctrl g)) (\<lambda>(_, _, c). Inr (g\<lparr>g_ctrl := c\<rparr>))
      | Op_Tick \<Rightarrow> GenericDDR_tick g)"

fun run_states :: "channel_op list \<Rightarrow> GenericDDR \<Rightarrow> GenericDDR list" where
  "run_states [] g = [g]"
| "run_states (op # ops) g = g # (case channel_step op g of Inl _ \<Rightarrow> [] | Inr g' \<Rightarrow> run_states ops g')"

lemma channel_step_reachable:
  "channel_reachable mk cfg cores ch g \<Longrightarrow> channel_step op g = Inr g' \<Longrightarrow> channel_reachable mk cfg cores ch g'"
  by (cases op) (auto simp: channel_step_def bindR_eq_Inr_iff intro: channel_reachable.intros)

lemma run_states_nonempty [simp]: "run_states ops g \<noteq> []" "run_states ops g ! 0 = g"
  by (cases ops; simp)+

lemma run_states_reachable:
  "channel_reachable mk cfg cores ch g \<Longrightarrow> g' \<in> set (run_states ops g) \<Longrightarrow> channel_reachable mk cfg cores ch g'"
proof (induction ops g rule: run_states.induct)
  case (2 op ops g)
  then show ?case by (cases "channel_step op g") (auto dest: channel_step_reachable)
qed simp

lemma run_states_step:
  "Suc i < length (run_states ops g) \<Longrightarrow> channel_step (ops ! i) (run_states ops g ! i) = Inr (run_states ops g ! Suc i)"
proof (induction ops g arbitrary: i rule: run_states.induct)
  case (2 op ops g)
  then show ?case by (cases i) (auto split: sum.splits)
qed simp

end
