(* ===== verification/Example_Config.thy ===== *)
theory Example_Config
  imports Controller_Device
begin

text \<open>
  A small DDR3 configuration (two ranks of two banks) and the specification, device and
  controllers built from it. The witnesses of the properties are evaluated on them.
\<close>

section \<open>Configuration\<close>

text \<open>
  Three constraint lines: activate to read in one bank, at most four activates of a rank
  in a window, and the bus turnaround between ranks. Commands are numbered as the
  enumeration of \<open>DDR3\<close> lists them: ACT 0, PREpb 1, PREab 2, RD 3, WR 4, RDA 5, WRA 6, REFab 7.
\<close>

definition ex_constraints :: "TimingConsConfig list" where
  "ex_constraints =
     [\<lparr>tcc_level = 2, tcc_preceding = [0], tcc_following = [3, 4], tcc_latency = 2,
       tcc_window = None, tcc_sibling = None, tcc_history_group = None\<rparr>,
      \<lparr>tcc_level = 1, tcc_preceding = [0], tcc_following = [0], tcc_latency = 20,
       tcc_window = Some 4, tcc_sibling = None, tcc_history_group = None\<rparr>,
      \<lparr>tcc_level = 1, tcc_preceding = [3], tcc_following = [3], tcc_latency = 6,
       tcc_window = None, tcc_sibling = Some True, tcc_history_group = None\<rparr>]"

definition ex_cfg :: DramConfig where
  "ex_cfg = \<lparr>cfg_channel_width = 64, cfg_data_payload_bytes = None, cfg_dq = 8, cfg_count = [1, 2, 2, 16, 64],
     cfg_timing = [1600, 4, 11, 11, 11, 28, 39, 12, 6, 8, 4, 5, 6, 24, 208, 6240, 2, 1250],
     cfg_command_cycles = None, cfg_read_latency = 15, cfg_timing_constraints = ex_constraints\<rparr>"

section \<open>The specification\<close>

definition ex_env :: cmd_env where
  "ex_env = \<lparr>T_Opened = 0, T_Closed = 1, T_Activating = 3, T_Row = 3, T_ACT = 0, T_ACT1 = 8, T_ACT2 = 8,
     T_PREpb = 1, T_PREab = 2, T_PREsb = 8, T_has_ACT2 = False\<rparr>"

definition ex_entry :: "nat \<Rightarrow> int \<Rightarrow> nat \<Rightarrow> bool \<Rightarrow> TimingConsEntry" where
  "ex_entry c v w b = \<lparr>tc_cmd = c, tc_val = v, tc_window = w, tc_sibling = b, tc_history_group = -1\<rparr>"

definition ex_funcs :: FuncArrays where
  "ex_funcs =
     \<lparr>actions = [Some (ACT_action ex_env), Some (PREpb_action ex_env), Some (PREpb_action ex_env), None, None,
        Some (PREpb_action ex_env), Some (PREpb_action ex_env), None],
      preqs = [Some (ACT_preq ex_env), Some (PREpb_preq ex_env), None, Some (RD_preq ex_env), Some (RD_preq ex_env),
        Some (RD_preq ex_env), Some (RD_preq ex_env), Some (REFab_preq ex_env)],
      rowhits = [None, None, None, Some (RD_rowhit ex_env), Some (RD_rowhit ex_env), Some (RD_rowhit ex_env),
        Some (RD_rowhit ex_env), None],
      rowopens = [None, None, None, Some (RD_rowopen ex_env), Some (RD_rowopen ex_env), Some (RD_rowopen ex_env),
        Some (RD_rowopen ex_env), None]\<rparr>"

definition ex_spec :: DRAMSpec where
  "ex_spec =
     \<lparr>levels = number_names 0 Map.empty (enum_Level DDR3), commands = number_names 0 Map.empty (enum_Command DDR3),
      states = number_names 0 Map.empty (enum_State DDR3), timings = number_names 0 Map.empty (enum_Timing DDR3),
      level_names = enum_Level DDR3, command_names = enum_Command DDR3, state_names = enum_State DDR3,
      timing_names = enum_Timing DDR3, level_count = 5, command_count = 8, state_count = 3, timing_count = 18,
      standard_name = ''DDR3'', internal_prefetch_size = 8, channel_width = 64, data_payload_bytes = -1,
      read_latency = 15, organization = \<lparr>dq = 8, level_sizes = [1, 2, 2, 16, 64]\<rparr>,
      init_states = [2, 2, 1, 1, 2], supported_requests = [3, 4],
      timing_vals = [1600, 4, 11, 11, 11, 28, 39, 12, 6, 8, 4, 5, 6, 24, 208, 6240, 2, 1250],
      command_cycles = [1, 1, 1, 1, 1, 1, 1, 1],
      timing_cons =
        [[[], [], [], [], [], [], [], []],
         [[ex_entry 0 20 4 False], [], [], [ex_entry 3 6 1 True], [], [], [], []],
         [[ex_entry 3 2 1 False, ex_entry 4 2 1 False], [], [], [], [], [], [], []],
         [[], [], [], [], [], [], [], []], [[], [], [], [], [], [], [], []]],
      has_sibling_cons =
        [[False, False, False, False, False, False, False, False],
         [False, False, False, True, False, False, False, False],
         [False, False, False, False, False, False, False, False],
         [False, False, False, False, False, False, False, False],
         [False, False, False, False, False, False, False, False]],
      command_meta =
        [meta_none\<lparr>is_opening := True\<rparr>, meta_none\<lparr>is_closing := True\<rparr>, meta_none\<lparr>is_closing := True\<rparr>,
         meta_none\<lparr>is_accessing := True\<rparr>, meta_none\<lparr>is_accessing := True\<rparr>,
         meta_none\<lparr>is_closing := True, is_accessing := True\<rparr>, meta_none\<lparr>is_closing := True, is_accessing := True\<rparr>,
         meta_none\<lparr>is_refreshing := True\<rparr>],
      bank_targets = [BT_Single, BT_Single, BT_All, BT_Single, BT_Single, BT_Single, BT_Single, BT_All],
      funcs = ex_funcs\<rparr>"

section \<open>Facts\<close>

lemma ex_standard_ok: "standard_ok DDR3"
  by code_simp

lemma ex_env: "env_of DDR3 = ex_env"
  by code_simp

lemma ex_impls:
  "map (\<lambda>k. impl_of k (env_of DDR3)) (CommandImpls DDR3) =
     [Cmd_ACT ex_env, Cmd_PREpb ex_env, Cmd_PREab ex_env, Cmd_RD ex_env, Cmd_WR ex_env, Cmd_RDA ex_env, Cmd_WRA ex_env,
      Cmd_REFab ex_env]"
  unfolding ex_env by (simp add: DDR3_def)

lemma upt_8: "[0..<8] = [0, 1, 2, 3, 4, 5, 6, 7::nat]" "[0..<5] = [0, 1, 2, 3, 4::nat]"
  by code_simp+

lemma ex_load:
  "foldR load_timing_constraint ex_constraints (replicate 5 (replicate 8 [])) = Inr (timing_cons ex_spec)"
  by (simp add: ex_constraints_def load_timing_constraint_def mk_TimingConsEntry_def tcons_push_def ex_spec_def ex_entry_def
      eval_nat_numeral Let_def)

lemma ex_flags: "sibling_flags (timing_cons ex_spec) 5 8 = has_sibling_cons ex_spec"
  by (simp add: sibling_flags_def upt_8 ex_spec_def ex_entry_def)

lemma ex_counts: "length (enum_Level DDR3) = 5" "length (enum_Command DDR3) = 8" "length (enum_State DDR3) = 3"
  "length (enum_Timing DDR3) = 18"
  by (simp_all add: DDR3_def)

lemma ex_indices: "map (enum_index (enum_State DDR3)) (std_init_states DDR3) = [2, 2, 1, 1, 2]"
  "map (enum_index (enum_Command DDR3)) (std_supported_requests DDR3) = [3, 4]"
  by code_simp+

lemma ex_names: "std_level_names DDR3 = enum_Level DDR3" "std_command_names DDR3 = enum_Command DDR3"
  "std_state_names DDR3 = enum_State DDR3" "std_timing_names DDR3 = enum_Timing DDR3" "std_prefetch_size DDR3 = 8"
  "std_row_commands DDR3 = []" "std_column_commands DDR3 = []"
  by (simp_all add: DDR3_def)

lemma ex_cfg_fields: "cfg_timing_constraints ex_cfg = ex_constraints" "cfg_count ex_cfg = [1, 2, 2, 16, 64]"
  "cfg_channel_width ex_cfg = 64" "cfg_data_payload_bytes ex_cfg = None" "cfg_dq ex_cfg = 8" "cfg_command_cycles ex_cfg = None"
  "cfg_read_latency ex_cfg = 15" "cfg_timing ex_cfg = timing_vals ex_spec"
  by (simp_all add: ex_cfg_def ex_spec_def)

text \<open>The specification before the commands are registered.\<close>

definition ex_loaded :: DRAMSpec where
  "ex_loaded = ex_spec\<lparr>standard_name := [], command_meta := [], bank_targets := [], funcs := FuncArrays_resize 0\<rparr>"

lemma ex_load_config: "load_config (static_spec DDR3) ex_cfg = Inr ex_loaded"
proof -
  have c: "level_count (static_spec DDR3) = 5" "command_count (static_spec DDR3) = 8"
    by (simp_all add: static_spec_def ex_counts)
  show ?thesis
    unfolding load_config_def c ex_cfg_fields ex_load
    by (simp add: ex_flags ex_loaded_def load_command_cycles_def static_spec_def blank_spec_def ex_counts ex_names ex_indices
        set_names_def) (simp add: ex_spec_def eval_nat_numeral)
qed

lemma ex_populate: "populate_commands (map (\<lambda>k. impl_of k (env_of DDR3)) (CommandImpls DDR3)) ex_loaded = ex_spec\<lparr>standard_name := []\<rparr>"
proof -
  have n: "command_count ex_loaded = Suc (Suc (Suc (Suc (Suc (Suc (Suc (Suc 0)))))))"
    by (simp add: ex_loaded_def ex_spec_def eval_nat_numeral)
  show ?thesis
    unfolding ex_impls populate_commands_def n
    by (simp add: ex_loaded_def register_command_def FuncArrays_resize_def cmd_defs Let_def)
      (simp add: ex_spec_def ex_funcs_def)
qed

lemma ex_construct: "construct_spec DDR3 ex_cfg = Inr (ex_spec\<lparr>standard_name := []\<rparr>)"
proof -
  have "classify_bus DDR3 (ex_spec\<lparr>standard_name := []\<rparr>) = ex_spec\<lparr>standard_name := []\<rparr>"
    by (simp add: classify_bus_def ex_names) (simp add: ex_spec_def upt_8 meta_none_def Let_def eval_nat_numeral)
  then show ?thesis by (simp add: construct_spec_def ex_load_config ex_populate)
qed

lemma ex_registry: "registry ''DDR3'' = Some DDR3"
  by (simp add: registry_def all_standards_def standard_defs)

lemma ex_create: "create ''DDR3'' ex_cfg = Inr ex_spec"
  by (simp add: create_def ex_registry ex_construct) (simp add: ex_spec_def)

lemma ex_of_standard: "of_standard DDR3 ex_spec"
  using construct_spec_of_standard [OF ex_standard_ok ex_construct] by simp

lemma ex_bank_level: "enum_index (enum_Level DDR3) ''Bank'' = 2"
  by code_simp

lemma ex_constraints_ok: "constraints_ok DDR3 ex_cfg"
  by code_simp

lemma ex_spec_ok: "spec_ok ex_spec 3"
  using construct_spec_spec_ok [OF ex_standard_ok ex_construct ex_constraints_ok] by (simp add: ex_bank_level)

section \<open>A controller\<close>

text \<open>
  Four-entry buffers, the mapper \<open>RoBaRaCoCh\<close>, and watermarks of one and three quarters.
\<close>

definition ex_mk :: "DRAMSpec \<Rightarrow> AddrMapper result" where
  "ex_mk sp = bindR (AddrMapperBase_init sp) (\<lambda>mp. Inr (BaseMapper (RoBaRaCoCh mp)))"

definition ex_cc :: CtrlConfig where
  "ex_cc = \<lparr>cc_wr_low_watermark = Some (1/4), cc_wr_high_watermark = Some (3/4), cc_read_buffer_size = 4,
     cc_write_buffer_size = 4, cc_priority_buffer_size = 4, cc_dram_impl = ''DDR3'', cc_dram = ex_cfg\<rparr>"

definition ex_dev :: DRAMDevice where
  "ex_dev = \<lparr>m_spec = ex_spec, m_root = build_node ex_spec 3 0 0, m_bank_nodes = [[0, 0], [0, 1], [1, 0], [1, 1]],
     m_bank_level = 2\<rparr>"

definition ex_mapper :: AddrMapperBase where
  "ex_mapper = \<lparr>m_num_mapped_levels = 4, m_addr_bits = [1, 1, 4, 3], m_tx_offset = 6, m_row_idx = 2, m_col_idx = 3\<rparr>"

definition ex_ctrl :: Controller where
  "ex_ctrl = \<lparr>m_channel_id = -1, m_clk = 0, m_device = ex_dev, m_addr_mapper = BaseMapper (RoBaRaCoCh ex_mapper),
     m_pending = [], m_pending_sequence = 0, m_active_buffer = ReqBuffer_new 4, m_priority_buffer = ReqBuffer_new 4,
     m_read_buffer = ReqBuffer_new 4, m_write_buffer = ReqBuffer_new 4, m_buffered_write_addrs = {},
     m_wr_low_watermark = 1/4, m_wr_high_watermark = 3/4, m_is_write_mode = False, m_active_per_bank = [0, 0, 0, 0],
     m_stats = zero_stats 1, m_events = []\<rparr>"

definition ex_channel :: GenericDDR where
  "ex_channel = \<lparr>g_ctrl = ctrl_set_channel_id 0 ex_ctrl, g_scheduler = FRFCFS, g_refresh = NoRefresh,
     g_rowpolicy = OpenRowPolicy, g_plugins = []\<rparr>"

lemma ex_levels: "get_level_id ex_spec ''Bank'' = Inr 2" "get_level_id ex_spec ''Row'' = Inr 3"
  "get_timing_value ex_spec ''tCK_ps'' = Inr 1250"
  by code_simp+

lemma ex_paths: "paths_at_level 2 (build_node ex_spec 3 0 0) = [[0, 0], [0, 1], [1, 0], [1, 1]]"
  by code_simp

lemma ex_device_init: "device_init ex_spec = Inr ex_dev"
  by (simp add: device_init_def ex_levels ex_paths ex_dev_def)

lemma ex_mapper_init: "AddrMapperBase_init ex_spec = Inr ex_mapper"
  by code_simp

lemma ex_init_base: "init_base ex_mk ex_cc 1 = Inr ex_ctrl"
  by (simp add: init_base_def ex_cc_def ex_create ex_device_init ex_levels ex_mk_def ex_mapper_init ex_ctrl_def)
    (simp add: ex_dev_def eval_nat_numeral)

lemma ex_channel_reachable: "channel_reachable ex_mk ex_cc 1 0 ex_channel"
  by (rule channel_reachable.start [OF ex_init_base])
    (simp_all add: ex_channel_def refresh_created_def policy_created_def)

section \<open>A run\<close>

text \<open>
  One read is sent and the channel ticks three times: the row is activated in the first
  cycle and read in the third, when the activate-to-read constraint of two cycles is met.
\<close>

definition ex_read :: Request where
  "ex_read = (Request_addr 4096 Type_Read)\<lparr>req_intra_channel_addr := 4096\<rparr>"

definition ex_ops :: "channel_op list" where
  "ex_ops = [Op_Send ex_read, Op_Tick, Op_Tick, Op_Tick]"

definition ex_run :: "GenericDDR list" where
  "ex_run = run_states ex_ops ex_channel"

definition ex_vec :: AddrVec_t where
  "ex_vec = [0, 0, 0, 2, 0]"

lemma ex_run_trace:
  "map (\<lambda>g. issued_of (m_events (g_ctrl g))) ex_run =
     [[], [], [(0, ex_vec, 1)], [(0, ex_vec, 1)], [(0, ex_vec, 1), (3, ex_vec, 3)]]"
  by code_simp

lemma ex_run_length: "length ex_run = 5"
  using arg_cong [OF ex_run_trace, of length] by simp

lemma ex_run_reachable:
  assumes "i < 5"
  shows "channel_reachable ex_mk ex_cc 1 0 (ex_run ! i)"
proof -
  have "ex_run ! i \<in> set (run_states ex_ops ex_channel)"
    using assms ex_run_length nth_mem [of i ex_run] by (simp add: ex_run_def)
  then show ?thesis by (rule run_states_reachable [OF ex_channel_reachable])
qed

lemma ex_run_issued:
  "issued_of (m_events (g_ctrl (ex_run ! 3))) = [(0, ex_vec, 1)]"
  "issued_of (m_events (g_ctrl (ex_run ! 4))) = [(0, ex_vec, 1), (3, ex_vec, 3)]"
  using arg_cong [OF ex_run_trace, of "\<lambda>l. l ! 3"] arg_cong [OF ex_run_trace, of "\<lambda>l. l ! 4"] ex_run_length
  by simp_all

lemma ex_run_tick: "GenericDDR_tick (ex_run ! 3) = Inr (ex_run ! 4)"
proof -
  have "ex_ops ! 3 = Op_Tick" by (simp add: ex_ops_def)
  then show ?thesis
    using run_states_step [of 3 ex_ops ex_channel] ex_run_length by (simp add: ex_run_def channel_step_def)
qed

section \<open>A run with refresh\<close>

text \<open>All-bank refresh, scattered one cycle apart: the first rank is refreshed in the first cycle.\<close>

definition ex_all_bank :: AllBankRefresh where
  "ex_all_bank = \<lparr>ab_next_refresh_cycle = -1, ab_cmd_refab = 7, ab_nrefi = 6240, ab_scatter_enabled = True,
     ab_ref_nodes = [[0], [1]], ab_next_scattered = [1, 2]\<rparr>"

lemma ex_all_bank_init: "AllBank_init 1 ex_dev = Inr ex_all_bank"
  by code_simp

definition ex_refresh_channel :: GenericDDR where
  "ex_refresh_channel = ex_channel\<lparr>g_refresh := AllBank ex_all_bank\<rparr>"

lemma ex_refresh_channel_reachable: "channel_reachable ex_mk ex_cc 1 0 ex_refresh_channel"
proof (rule channel_reachable.start [OF ex_init_base])
  have "m_device ex_ctrl = ex_dev" by (simp add: ex_ctrl_def)
  with ex_all_bank_init show "refresh_created (m_device ex_ctrl) (g_refresh ex_refresh_channel)"
    by (auto simp: refresh_created_def ex_refresh_channel_def)
qed (simp_all add: ex_refresh_channel_def ex_channel_def policy_created_def)

definition ex_refresh_run :: "GenericDDR list" where
  "ex_refresh_run = run_states [Op_Tick] ex_refresh_channel"

definition ex_rank_vec :: AddrVec_t where
  "ex_rank_vec = [0, 0, -1, -1, -1]"

lemma ex_refresh_trace: "map (\<lambda>g. issued_of (m_events (g_ctrl g))) ex_refresh_run = [[], [(7, ex_rank_vec, 1)]]"
  by code_simp

lemma ex_refresh_step:
  "GenericDDR_tick ex_refresh_channel = Inr (ex_refresh_run ! 1)"
  "issued_of (m_events (g_ctrl (ex_refresh_run ! 1))) =
     issued_of (m_events (g_ctrl ex_refresh_channel)) @ [(7, ex_rank_vec, 1)]"
proof -
  have len: "length ex_refresh_run = 2" using arg_cong [OF ex_refresh_trace, of length] by simp
  then show "GenericDDR_tick ex_refresh_channel = Inr (ex_refresh_run ! 1)"
    using run_states_step [of 0 "[Op_Tick]" ex_refresh_channel]
    by (simp add: ex_refresh_run_def channel_step_def del: run_states.simps)
  show "issued_of (m_events (g_ctrl (ex_refresh_run ! 1))) =
     issued_of (m_events (g_ctrl ex_refresh_channel)) @ [(7, ex_rank_vec, 1)]"
    using arg_cong [OF ex_refresh_trace, of "\<lambda>l. l ! 1"] arg_cong [OF ex_refresh_trace, of "\<lambda>l. l ! 0"] len
    by (simp add: ex_refresh_run_def del: run_states.simps)
qed

section \<open>Facts for the witnesses\<close>

lemma ex_facts:
  "registry (cc_dram_impl ex_cc) = Some DDR3" "constraints_ok DDR3 (cc_dram ex_cc)"
  by (simp_all add: ex_cc_def ex_registry ex_constraints_ok)

lemma ex_obligation: "3 \<in> obligations ex_spec 2 (view 0 [0, 0] [(0, ex_vec, 1)]) 3"
proof -
  have v: "view 0 [0, 0] [(0, ex_vec, 1)] = [(Target, 0, 1)]" by (simp add: view_def ex_vec_def)
  have tc: "timing_cons ex_spec ! 2 ! 0 = [ex_entry 3 2 1 False, ex_entry 4 2 1 False]" by (simp add: ex_spec_def)
  have "3 \<in> raised ex_spec 2 [(Target, 0, 1)] (Target, 0, 1) 3"
    unfolding raised.simps tc
    by (rule CollectI, rule exI [of _ "ex_entry 3 2 1 False"]) (simp add: hist_for_def cmd_hist_def ex_entry_def)
  then show ?thesis by (simp add: obligations_def v)
qed

lemma ex_path: "valid_path ex_spec 3 0 [0, 0]" "on_path 0 ex_vec [0, 0]"
  by (simp_all add: ex_spec_def ex_vec_def)

section \<open>Other standards\<close>

text \<open>A configuration without timing constraints is accepted for every standard.\<close>

lemma unconstrained_create:
  assumes reg: "registry name = Some s" and cfg: "cfg_count cfg ! 0 = 1" "cfg_timing_constraints cfg = []"
  obtains sp where "create name cfg = Inr sp" "standard_ok s" "of_standard s sp" "standard_name sp = name"
    "timings sp = number_names 0 Map.empty (std_timing_names s)" "timing_vals sp = cfg_timing cfg"
    "level_sizes (organization sp) = cfg_count cfg"
proof -
  have mem: "s \<in> set all_standards" using reg by (auto simp: registry_def dest!: map_of_SomeD)
  obtain sp1 where l: "load_config (static_spec s) cfg = Inr sp1"
    "timings sp1 = number_names 0 Map.empty (std_timing_names s)" "timing_vals sp1 = cfg_timing cfg"
    "level_sizes (organization sp1) = cfg_count cfg"
    using cfg by (simp add: load_config_def static_spec_def set_names_def)
  let ?sp = "classify_bus s (populate_commands (map (\<lambda>k. impl_of k (env_of s)) (CommandImpls s)) sp1)"
  have con: "construct_spec s cfg = Inr ?sp" by (simp add: construct_spec_def l(1))
  have "of_standard s (?sp\<lparr>standard_name := name\<rparr>)"
    using construct_spec_of_standard [OF all_standards_ok [OF mem] con] by simp
  with l(2-4) con reg all_standards_ok [OF mem] show ?thesis
    by (intro that [of "?sp\<lparr>standard_name := name\<rparr>"])
      (simp_all add: create_def classify_bus_def populate_commands_def Let_def)
qed

end
