(* ===== verification/Channel_Safety.thy ===== *)
theory Channel_Safety
  imports Example_Config
begin

text \<open>
  The properties of a whole channel: controller, scheduler, refresh manager, row policy
  and device together, over every sequence of requests and ticks.
\<close>

section \<open>The facts behind them\<close>

lemma channel_facts:
  assumes s: "registry (cc_dram_impl cfg) = Some s" and c: "constraints_ok s (cc_dram cfg)"
    and r: "channel_reachable mk cfg cores ch g"
  obtains sp where "create (cc_dram_impl cfg) (cc_dram cfg) = Inr sp" "standard_ok s" "of_standard s sp" "bus_reachable s sp ch (bus_of (g_ctrl g))"
    "bus_inv s sp ch (bus_of (g_ctrl g))" "sys_ok s g" "spec_of (g_ctrl g) = sp"
    "device_legal s (m_device (g_ctrl g))"
proof -
  from s have mem: "s \<in> set all_standards" by (auto simp: registry_def dest!: map_of_SomeD)
  note ok = all_standards_ok [OF mem]
  from r obtain c0 where "init_base mk cfg cores = Inr c0" by (induction rule: channel_reachable.induct) auto
  then obtain sp where cr: "create (cc_dram_impl cfg) (cc_dram cfg) = Inr sp" by (rule init_base_parts)
  with s obtain sp1 where con: "construct_spec s (cc_dram cfg) = Inr sp1" and sp: "sp = sp1\<lparr>standard_name := cc_dram_impl cfg\<rparr>"
    by (auto simp: create_def bindR_eq_Inr_iff)
  have of: "of_standard s sp" using construct_spec_of_standard [OF ok con] sp by simp
  have sok: "spec_ok sp (Suc (enum_index (enum_Level s) ''Bank''))" using construct_spec_spec_ok [OF ok con c] sp by simp
  from channel_refines_bus [OF ok cr of sok r]
  have b: "bus_reachable s sp ch (bus_of (g_ctrl g))" and sys: "sys_ok s g" by blast+
  note inv = bus_reachable_inv [OF ok of sok b]
  from inv have spec: "spec_of (g_ctrl g) = sp" and d: "device_reachable s sp (m_device (g_ctrl g))"
    by (simp_all add: bus_inv_defs bus_of_def)
  from device_reachable_inv [OF ok of d] have "device_legal s (m_device (g_ctrl g))" by blast
  with cr ok of b inv sys spec show ?thesis by (rule that)
qed

lemma tick_issued:
  assumes "bus_step s (bus_of c) (bus_of c')" "issued_of (m_events c') = issued_of (m_events c) @ [(cmd, av, clk)]"
  obtains fin where "final_ok s fin" "get_preq_command (m_device c) fin av clk = Inr cmd"
    "device_check_timing (m_device c) cmd av clk" "clk = m_clk c + 1"
  using assms by cases (auto simp: bus_of_def)

lemma addressed_bank_exists:
  assumes "banks_ok dev" "device_legal s dev" "bank_in_range dev av"
  shows "\<exists>b. bank_at dev (get_flat_bank_id dev av) = Some b"
proof -
  note p = flat_bank_position [OF assms(1,3)]
  from nth_mem [OF p(2)] assms(2) have "\<exists>b. node_at (m_root dev) (m_bank_nodes dev ! nat (get_flat_bank_id dev av)) = Some b"
    by (auto simp: device_legal_def)
  with p(1,2) show ?thesis by (simp add: bank_at_def)
qed

lemma ex_run_spec: "i < 5 \<Longrightarrow> spec_of (g_ctrl (ex_run ! i)) = ex_spec"
  by (rule channel_facts [OF ex_facts ex_run_reachable]) (simp_all add: ex_cc_def ex_create)

lemma ex_channel_bank: "bank_at (m_device (g_ctrl ex_channel)) 0 = Some (init_node_data ex_spec 2 0)"
proof -
  have "node_at (build_node ex_spec 3 0 0) [0, 0] = Some (init_node_data ex_spec 2 0)"
    using ex_path(1) by (simp add: node_at_build numeral_2_eq_2)
  then show ?thesis
    by (simp add: bank_at_def ex_channel_def ctrl_set_channel_id_def device_set_channel_id_def ex_ctrl_def ex_dev_def node_at_modify)
qed

lemma ex_rank_targets: "0 \<in> set (get_target_banks (m_device (g_ctrl ex_channel)) 7 ex_rank_vec)"
  by code_simp

lemma ex_run_bank:
  assumes "i < 5"
  shows "\<exists>b. bank_at (m_device (g_ctrl (ex_run ! i))) (get_flat_bank_id (m_device (g_ctrl (ex_run ! i))) ex_vec) = Some b"
proof -
  let ?dev = "m_device (g_ctrl (ex_run ! i))"
  obtain sp where d: "device_reachable DDR3 sp ?dev" and of: "of_standard DDR3 sp" and m: "spec_of (g_ctrl (ex_run ! i)) = sp"
    by (rule channel_facts [OF ex_facts ex_run_reachable [OF assms]]) (auto simp: bus_inv_defs bus_of_def)
  note inv = device_reachable_inv [OF ex_standard_ok of d]
  have lv: "m_bank_level ?dev = 2" using device_reachable_level [OF ex_standard_ok of d] by (simp add: ex_bank_level)
  have sz: "level_sizes (organization (m_spec ?dev)) = [1, 2, 2, 16, 64]" using ex_run_spec [OF assms] by (simp add: ex_spec_def)
  have "bank_in_range ?dev ex_vec"
    unfolding bank_in_range_def lv sz by (auto simp: ex_vec_def eval_nat_numeral le_Suc_eq)
  with addressed_bank_exists inv show ?thesis by blast
qed

section \<open>Properties\<close>

text \<open>Property C1. Every command a channel ever issues respects the timing constraints of its
  configuration: at its issue clock, each obligation raised by the commands issued before it,
  on every node its address selects, has expired.\<close>

theorem issued_commands_respect_timing:
  assumes "registry (cc_dram_impl cfg) = Some s" "constraints_ok s (cc_dram cfg)"
    and "channel_reachable mk cfg cores ch g"
    and "issued_of (m_events (g_ctrl g)) = es @ (cmd, av, clk) # later"
    and "valid_path (spec_of (g_ctrl g)) (Suc (enum_index (enum_Level s) ''Bank'')) 0 p" "on_path 0 av p"
    and "ob \<in> obligations (spec_of (g_ctrl g)) (length p) (view ch p es) cmd"
  shows "ob \<le> clk"
proof -
  obtain sp where inv: "bus_inv s sp ch (bus_of (g_ctrl g))" and sp: "spec_of (g_ctrl g) = sp"
    by (rule channel_facts [OF assms(1-3)]) blast
  then have t: "trace_ok sp (Suc (enum_index (enum_Level s) ''Bank'')) ch (es @ (cmd, av, clk) # later)"
    using assms(4) by (simp add: bus_inv_defs bus_of_def)
  have i: "length es < length (es @ (cmd, av, clk) # later)" by simp
  from t [unfolded trace_ok_def, rule_format, OF i] assms(5-7) sp show ?thesis by simp
qed

theorem issued_commands_respect_timing_witness:
  "issued_of (m_events (g_ctrl (ex_run ! 4))) = [(0, ex_vec, 1), (3, ex_vec, 3)] \<and>
   3 \<in> obligations ex_spec 2 (view 0 [0, 0] [(0, ex_vec, 1)]) 3 \<and> (3::int) \<le> 3"
proof -
  have i: "4 < (5::nat)" by simp
  show ?thesis
    using issued_commands_respect_timing [OF ex_facts ex_run_reachable [OF i], of "[(0, ex_vec, 1)]" 3 ex_vec 3 "[]" "[0, 0]" 3]
      ex_run_issued(2) ex_run_spec [OF i] ex_obligation ex_path
    by (simp add: ex_bank_level eval_nat_numeral)
qed

text \<open>Property C5. In every state of a channel each bank is closed, being activated, or has exactly
  one open row.\<close>

theorem channel_banks_legal:
  assumes "registry (cc_dram_impl cfg) = Some s" "constraints_ok s (cc_dram cfg)"
    and "channel_reachable mk cfg cores ch g" and "bank_at (m_device (g_ctrl g)) i = Some b"
  shows "bank_legal s b"
proof -
  have "device_legal s (m_device (g_ctrl g))" by (rule channel_facts [OF assms(1-3)])
  from bank_at_legal [OF this assms(4)] show ?thesis .
qed

theorem channel_banks_legal_witness:
  "bank_at (m_device (g_ctrl ex_channel)) 0 = Some (init_node_data ex_spec 2 0) \<and>
   bank_legal DDR3 (init_node_data ex_spec 2 0)"
proof -
  have b: "bank_at (m_device (g_ctrl ex_channel)) 0 = Some (init_node_data ex_spec 2 0)"
    by (rule ex_channel_bank)
  show ?thesis using b channel_banks_legal [OF ex_facts ex_channel_reachable b] by blast
qed

text \<open>Property C4. A tick of the controller is a cycle of the abstract command bus: at most one
  command, resolved by the device for a final command and declared ready by it.\<close>

theorem controller_refines_bus:
  assumes "registry (cc_dram_impl cfg) = Some s" "constraints_ok s (cc_dram cfg)"
    and "channel_reachable mk cfg cores ch g" and "GenericDDR_tick g = Inr g'"
  shows "bus_step s (bus_of (g_ctrl g)) (bus_of (g_ctrl g'))"
  by (rule channel_facts [OF assms(1-3)]) (auto intro: tick_bus(1) [OF _ _ _ _ assms(4)])

theorem controller_refines_bus_witness:
  "bus_step DDR3 (bus_of (g_ctrl (ex_run ! 3))) (bus_of (g_ctrl (ex_run ! 4))) \<and>
   bus_of (g_ctrl (ex_run ! 3)) \<noteq> bus_of (g_ctrl (ex_run ! 4))"
proof -
  have i: "3 < (5::nat)" by simp
  show ?thesis
    using controller_refines_bus [OF ex_facts ex_run_reachable [OF i] ex_run_tick] ex_run_issued
    by (simp add: bus_of_def)
qed

text \<open>Property C2. Whenever a tick issues a read or write command, the row it addresses is the open
  row of its bank.\<close>

theorem access_finds_row_open:
  assumes "registry (cc_dram_impl cfg) = Some s" "constraints_ok s (cc_dram cfg)"
    and "channel_reachable mk cfg cores ch g" and "GenericDDR_tick g = Inr g'"
    and "issued_of (m_events (g_ctrl g')) = issued_of (m_events (g_ctrl g)) @ [(cmd, av, clk)]" "is_access s cmd"
    and "bank_at (m_device (g_ctrl g)) (get_flat_bank_id (m_device (g_ctrl g)) av) = Some b"
  shows "row_open s b av"
proof -
  let ?dev = "m_device (g_ctrl g)"
  obtain sp where ok: "standard_ok s" and of: "of_standard s (m_spec ?dev)" and sys: "sys_ok s g"
    and leg: "device_legal s ?dev" by (rule channel_facts [OF assms(1-3)]) blast
  from tick_issued [OF tick_bus(1) [OF ok of leg sys assms(4)] assms(5)] obtain fin
    where fin: "final_ok s fin" "get_preq_command ?dev fin av clk = Inr cmd" by blast
  have "fin = cmd" by (rule resolved_self [OF ok of fin access_kind_not_prerequisite [OF assms(6)]])
  with fin(2) have own: "get_preq_command ?dev cmd av clk = Inr cmd" by simp
  have len: "cmd < length (CommandImpls s)" using assms(6) by (simp add: is_access_def)
  have "get_target_banks ?dev cmd av = [get_flat_bank_id ?dev av]"
    using of len access_single [OF assms(6)] by (simp add: get_target_banks_def of_standard_def)
  with own_prerequisite [OF ok of len own _ assms(7)] have "resolve s cmd b av clk = Inr cmd" by simp
  then show ?thesis by (rule access_resolved_open [OF ok assms(6) bank_at_legal [OF leg assms(7)]])
qed

theorem access_finds_row_open_witness:
  "\<exists>b. bank_at (m_device (g_ctrl (ex_run ! 3))) (get_flat_bank_id (m_device (g_ctrl (ex_run ! 3))) ex_vec) = Some b \<and>
     row_open DDR3 b ex_vec"
proof -
  have i: "3 < (5::nat)" by simp
  have a: "is_access DDR3 3" by code_simp
  have n: "issued_of (m_events (g_ctrl (ex_run ! 4))) = issued_of (m_events (g_ctrl (ex_run ! 3))) @ [(3, ex_vec, 3)]"
    using ex_run_issued by simp
  obtain b where b: "bank_at (m_device (g_ctrl (ex_run ! 3))) (get_flat_bank_id (m_device (g_ctrl (ex_run ! 3))) ex_vec) = Some b"
    using ex_run_bank [OF i] by blast
  with access_finds_row_open [OF ex_facts ex_run_reachable [OF i] ex_run_tick n a b] show ?thesis by blast
qed

text \<open>Property C3. Whenever a tick issues a refresh command, every bank it refreshes is closed.\<close>

theorem refresh_finds_banks_closed:
  assumes "registry (cc_dram_impl cfg) = Some s" "constraints_ok s (cc_dram cfg)"
    and "channel_reachable mk cfg cores ch g" and "GenericDDR_tick g = Inr g'"
    and "issued_of (m_events (g_ctrl g')) = issued_of (m_events (g_ctrl g)) @ [(cmd, av, clk)]"
    and "is_refreshing (command_meta (spec_of (g_ctrl g)) ! cmd)"
    and "i \<in> set (get_target_banks (m_device (g_ctrl g)) cmd av)" "bank_at (m_device (g_ctrl g)) i = Some b"
  shows "m_state b = T_Closed (env_of s)"
proof -
  let ?dev = "m_device (g_ctrl g)"
  obtain sp where ok: "standard_ok s" and of: "of_standard s (m_spec ?dev)" and sys: "sys_ok s g"
    and leg: "device_legal s ?dev" by (rule channel_facts [OF assms(1-3)]) blast
  from tick_issued [OF tick_bus(1) [OF ok of leg sys assms(4)] assms(5)] obtain fin
    where fin: "final_ok s fin" "get_preq_command ?dev fin av clk = Inr cmd" by blast
  have len: "cmd < length (CommandImpls s)" by (rule get_preq_command_less [OF ok of fin])
  have ref: "is_refreshing (impl_meta (kind_at s cmd))" using of len assms(6) by (simp add: of_standard_def)
  have "fin = cmd" by (rule resolved_self [OF ok of fin refresh_kind_not_prerequisite [OF ref]])
  with fin(2) own_prerequisite [OF ok of len _ assms(7,8)] have "resolve s cmd b av clk = Inr cmd" by simp
  then show ?thesis by (rule refresh_resolved_closed [OF ok len ref])
qed

theorem refresh_finds_banks_closed_witness:
  "0 \<in> set (get_target_banks (m_device (g_ctrl ex_refresh_channel)) 7 ex_rank_vec) \<and>
   m_state (init_node_data ex_spec 2 0) = T_Closed (env_of DDR3)"
proof -
  have d: "m_device (g_ctrl ex_refresh_channel) = m_device (g_ctrl ex_channel)" by (simp add: ex_refresh_channel_def)
  have m: "is_refreshing (command_meta (spec_of (g_ctrl ex_refresh_channel)) ! 7)"
    by (simp add: d ex_channel_def ex_ctrl_def ex_dev_def ctrl_set_channel_id_def) (simp add: ex_spec_def)
  have t: "0 \<in> set (get_target_banks (m_device (g_ctrl ex_refresh_channel)) 7 ex_rank_vec)"
    unfolding d by (rule ex_rank_targets)
  have b: "bank_at (m_device (g_ctrl ex_refresh_channel)) 0 = Some (init_node_data ex_spec 2 0)"
    unfolding d by (rule ex_channel_bank)
  show ?thesis
    using t refresh_finds_banks_closed [OF ex_facts ex_refresh_channel_reachable ex_refresh_step m t b] by blast
qed

text \<open>Property C6. The command bus carries at most one command per cycle: the issue clocks of a
  channel are strictly increasing and none lies in the future.\<close>

theorem one_command_per_cycle:
  assumes "registry (cc_dram_impl cfg) = Some s" "constraints_ok s (cc_dram cfg)"
    and "channel_reachable mk cfg cores ch g"
  shows "sorted_wrt (<) (map (\<lambda>(cmd, av, clk). clk) (issued_of (m_events (g_ctrl g)))) \<and>
    (\<forall>(cmd, av, clk) \<in> set (issued_of (m_events (g_ctrl g))). clk \<le> m_clk (g_ctrl g))"
proof -
  obtain sp where "bus_inv s sp ch (bus_of (g_ctrl g))" by (rule channel_facts [OF assms(1-3)])
  then show ?thesis by (auto simp: bus_inv_defs bus_of_def case_prod_unfold)
qed

theorem one_command_per_cycle_witness:
  "map (\<lambda>(cmd, av, clk). clk) (issued_of (m_events (g_ctrl (ex_run ! 4)))) = [1, 3] \<and> 3 \<le> m_clk (g_ctrl (ex_run ! 4))"
proof -
  have i: "4 < (5::nat)" by simp
  show ?thesis using one_command_per_cycle [OF ex_facts ex_run_reachable [OF i]] ex_run_issued(2) by auto
qed

end
