(* ===== verification/Device_Properties.thy ===== *)
theory Device_Properties
  imports Example_Config
begin

text \<open>
  The properties of the DRAM side: standards and configuration, the timing tree, the bank
  protocol, the bank array and the address mappers.
\<close>

section \<open>Facts\<close>

lemma create_facts:
  assumes "registry name = Some s" "create name cfg = Inr sp"
  obtains sp1 where "s \<in> set all_standards" "standard_ok s" "of_standard s sp" "construct_spec s cfg = Inr sp1"
    "sp = sp1\<lparr>standard_name := name\<rparr>"
proof -
  from assms(1) have mem: "s \<in> set all_standards" by (auto simp: registry_def dest!: map_of_SomeD)
  from assms obtain sp1 where "construct_spec s cfg = Inr sp1" "sp = sp1\<lparr>standard_name := name\<rparr>"
    by (auto simp: create_def bindR_eq_Inr_iff)
  with mem all_standards_ok [OF mem] construct_spec_of_standard [of s cfg sp1] that show ?thesis by auto
qed

lemma create_spec_ok:
  assumes "registry name = Some s" "create name cfg = Inr sp" "constraints_ok s cfg"
  shows "spec_ok sp (Suc (enum_index (enum_Level s) ''Bank''))"
  by (rule create_facts [OF assms(1,2)]) (auto dest: construct_spec_spec_ok [OF _ _ assms(3)])

section \<open>Timing\<close>

text \<open>Property C7. The timing tree answers exactly the declarative question: after any sequence of
  commands on a freshly built tree, a command is allowed at a clock if and only if all
  obligations the sequence raised on the nodes its address selects have expired.\<close>

theorem check_timing_is_obligations:
  assumes "registry name = Some s" "create name cfg = Inr sp" "constraints_ok s cfg"
    and "\<forall>e \<in> set es. fst e < command_count sp" "c < command_count sp" "0 \<le> clk"
  shows "check_timing c av clk (run_cmds sp es (build_node sp (Suc (enum_index (enum_Level s) ''Bank'')) 0 ch)) \<longleftrightarrow>
    (\<forall>p. valid_path sp (Suc (enum_index (enum_Level s) ''Bank'')) 0 p \<and> on_path 0 av p \<longrightarrow>
       (\<forall>ob \<in> obligations sp (length p) (view ch p es) c. ob \<le> clk))"
  by (rule check_timing_run [OF create_spec_ok [OF assms(1-3)] assms(4-6)])

theorem check_timing_is_obligations_witness:
  "\<not> check_timing 3 ex_vec 2 (run_cmds ex_spec [(0, ex_vec, 1)] (build_node ex_spec 3 0 0))"
proof -
  have p: "valid_path ex_spec 3 0 [0, 0]" "on_path 0 ex_vec [0, 0]" by (simp_all add: ex_spec_def ex_vec_def)
  have c: "\<forall>e \<in> set [(0, ex_vec, 1)]. fst e < command_count ex_spec" "3 < command_count ex_spec"
    by (simp_all add: ex_spec_def)
  have l: "Suc (enum_index (enum_Level DDR3) ''Bank'') = 3" by (simp add: ex_bank_level)
  have ob: "3 \<in> obligations ex_spec (length [0, 0::nat]) (view 0 [0, 0] [(0, ex_vec, 1)]) 3"
    using ex_obligation by (simp add: numeral_2_eq_2)
  have "(0::int) \<le> 2" by simp
  note iff = check_timing_is_obligations [OF ex_registry ex_create ex_constraints_ok c this, of ex_vec 0, unfolded l]
  show ?thesis
  proof
    assume "check_timing 3 ex_vec 2 (run_cmds ex_spec [(0, ex_vec, 1)] (build_node ex_spec 3 0 0))"
    with iff p ob have "(3::int) \<le> 2" by blast
    then show False by simp
  qed
qed

text \<open>Property C19. Skipping the children without sibling constraints is only an optimisation: the
  tree update of the code equals the update that visits every child.\<close>

theorem update_timing_visits_enough:
  assumes "registry name = Some s" "create name cfg = Inr sp" "constraints_ok s cfg"
    and "\<forall>e \<in> set es. fst e < command_count sp" "c < command_count sp"
  shows "update_timing sp c av clk (run_cmds sp es (build_node sp (Suc (enum_index (enum_Level s) ''Bank'')) 0 ch)) =
    update_timing_full sp c av clk (run_cmds sp es (build_node sp (Suc (enum_index (enum_Level s) ''Bank'')) 0 ch))"
proof -
  note sok = create_spec_ok [OF assms(1-3)]
  from sok have "flags_ok sp" by (simp add: spec_ok_def)
  from update_timing_full_eq [OF this assms(5) wf_tree_built_run [OF sok assms(4)]] show ?thesis .
qed

theorem update_timing_visits_enough_witness:
  "update_timing ex_spec 3 ex_vec 4 (run_cmds ex_spec [(0, ex_vec, 1)] (build_node ex_spec 3 0 0)) =
   update_timing_full ex_spec 3 ex_vec 4 (run_cmds ex_spec [(0, ex_vec, 1)] (build_node ex_spec 3 0 0))"
proof -
  have c: "\<forall>e \<in> set [(0, ex_vec, 1)]. fst e < command_count ex_spec" "3 < command_count ex_spec"
    by (simp_all add: ex_spec_def)
  show ?thesis
    using update_timing_visits_enough [OF ex_registry ex_create ex_constraints_ok c, of ex_vec 4 0]
    by (simp add: ex_bank_level eval_nat_numeral)
qed

text \<open>The two timing queries agree: a command is allowed at a clock exactly when the
  earliest ready clock computed for it is not later.\<close>

theorem check_timing_earliest_ready:
  assumes "registry name = Some s" "create name cfg = Inr sp" "constraints_ok s cfg"
    and "\<forall>e \<in> set es. fst e < command_count sp" "c < command_count sp" "0 \<le> clk"
  shows "check_timing c av clk (run_cmds sp es (build_node sp (Suc (enum_index (enum_Level s) ''Bank'')) 0 ch)) \<longleftrightarrow>
    earliest_ready c av (run_cmds sp es (build_node sp (Suc (enum_index (enum_Level s) ''Bank'')) 0 ch)) \<le> clk"
  by (rule check_timing_earliest_run [OF create_spec_ok [OF assms(1-3)] assms(4-6)])

theorem check_timing_earliest_ready_witness:
  "\<not> check_timing 3 ex_vec 2 (run_cmds ex_spec [(0, ex_vec, 1)] (build_node ex_spec 3 0 0)) \<and>
   2 < earliest_ready 3 ex_vec (run_cmds ex_spec [(0, ex_vec, 1)] (build_node ex_spec 3 0 0))"
proof -
  have c: "\<forall>e \<in> set [(0, ex_vec, 1)]. fst e < command_count ex_spec" "3 < command_count ex_spec"
    by (simp_all add: ex_spec_def)
  have e: "earliest_ready 3 ex_vec (run_cmds ex_spec [(0, ex_vec, 1)] (build_node ex_spec 3 0 0)) = 3" by code_simp
  show ?thesis
    using check_timing_earliest_ready [OF ex_registry ex_create ex_constraints_ok c, of 2 ex_vec 0] e
    by (simp add: ex_bank_level eval_nat_numeral)
qed

section \<open>Standards and configuration\<close>

text \<open>A specification is created exactly when the standard is registered, the channel
  count is 1 and no constraint line that applies has a negative window; anything else throws.\<close>

theorem create_succeeds_iff:
  "(\<exists>sp. create name cfg = Inr sp) \<longleftrightarrow>
     (\<exists>s. registry name = Some s) \<and> cfg_count cfg ! 0 = 1 \<and>
     list_all (\<lambda>f. 0 \<le> window_of f \<or> tcc_preceding f = [] \<or> tcc_following f = []) (cfg_timing_constraints cfg)"
proof (cases "registry name")
  case None
  then show ?thesis by (simp add: create_def)
next
  case (Some s)
  have "(\<exists>sp. create name cfg = Inr sp) \<longleftrightarrow> (\<exists>sp. load_config (static_spec s) cfg = Inr sp)"
    by (auto simp: create_def construct_spec_def Some bindR_eq_Inr_iff)
  with Some load_config_succeeds [of "static_spec s" cfg] show ?thesis
    unfolding line_ok_def [abs_def] by simp
qed

text \<open>Property C40. The constraint table of a created specification holds, for each level and
  preceding command, exactly the entries of the configuration lines that name them, in the
  order of the configuration.\<close>

theorem created_constraint_table:
  assumes "registry name = Some s" "create name cfg = Inr sp" "l < level_count sp" "p < command_count sp"
  shows "timing_cons sp ! l ! p = concat (map (line_entries l p) (cfg_timing_constraints cfg))"
proof -
  from assms(1,2) obtain sp1 where l: "load_config (static_spec s) cfg = Inr sp1"
    and sp: "timing_cons sp = timing_cons sp1" "level_count sp = level_count sp1" "command_count sp = command_count sp1"
    by (auto simp: create_def construct_spec_def bindR_eq_Inr_iff classify_bus_def Let_def populate_commands_def)
  with load_config_entries [OF l] load_config_Inr(5,6) [OF l] assms(3,4) show ?thesis by simp
qed

theorem created_constraint_table_witness:
  "timing_cons ex_spec ! 2 ! 0 = [ex_entry 3 2 1 False, ex_entry 4 2 1 False]"
proof -
  have "2 < level_count ex_spec" "0 < command_count ex_spec" by (simp_all add: ex_spec_def)
  from created_constraint_table [OF ex_registry ex_create this] show ?thesis
    by (simp add: ex_cfg_fields ex_constraints_def line_entries_def entry_of_def ex_entry_def)
qed

section \<open>Banks\<close>

text \<open>Property C21. From any state a bank can reach, a read or write is served after at most three
  preparing commands: resolving and issuing repeatedly ends with the addressed row open
  and the access itself due.\<close>

theorem access_served_in_three:
  assumes "s \<in> set all_standards" "is_access s fin" "bank_reachable s b"
  shows "\<exists>pre b'. service s 4 fin b av clk = Some (pre, b') \<and> row_open s b' av \<and> length pre \<le> 3"
  using service_access [OF all_standards_ok [OF assms(1)] assms(2)]
    bank_reachable_legal [OF assms(3) all_standards_ok [OF assms(1)]] .

theorem access_served_in_three_witness:
  "\<exists>pre b'. service DDR3 4 3 (init_node_data ex_spec 2 0) ex_vec 7 = Some (pre, b') \<and> row_open DDR3 b' ex_vec \<and> length pre \<le> 3"
proof -
  have m: "DDR3 \<in> set all_standards" by (simp add: all_standards_def)
  have a: "is_access DDR3 3" by code_simp
  have "m_state (init_node_data ex_spec 2 0) = T_Closed (env_of DDR3)"
    by (simp add: ex_env) (simp add: ex_spec_def ex_env_def)
  then have "bank_reachable DDR3 (init_node_data ex_spec 2 0)" by (intro bank_reachable.start) simp_all
  from access_served_in_three [OF m a this] show ?thesis .
qed

text \<open>Property C23. On a device that was driven by resolved commands only, resolving a final command
  never throws: no bank is ever found in a state its handlers do not know.\<close>

theorem resolving_never_throws:
  assumes "registry name = Some s" "create name cfg = Inr sp" "device_reachable s sp dev" "final_ok s fin"
  shows "\<exists>cmd. get_preq_command dev fin av clk = Inr cmd \<and> cmd < command_count sp"
proof -
  obtain sp1 where ok: "standard_ok s" and of: "of_standard s sp" by (rule create_facts [OF assms(1,2)])
  from device_reachable_inv [OF ok of assms(3)] have d: "m_spec dev = sp" "device_legal s dev" by blast+
  with get_preq_command_total [OF ok _ d(2) assms(4)] of obtain cmd where c: "get_preq_command dev fin av clk = Inr cmd" by blast
  with get_preq_command_less [OF ok _ assms(4) c] of d show ?thesis by (auto simp: of_standard_def)
qed

theorem resolving_never_throws_witness:
  "\<exists>cmd. get_preq_command ex_dev 7 ex_rank_vec 1 = Inr cmd \<and> cmd < command_count ex_spec"
proof -
  have "device_reachable DDR3 ex_spec ex_dev" by (rule device_reachable.init [OF ex_device_init])
  moreover have "final_ok DDR3 7" by code_simp
  ultimately show ?thesis by (rule resolving_never_throws [OF ex_registry ex_create])
qed

text \<open>Property C28. The flat bank id of an address inside the organisation is the position of exactly
  that bank in the device's bank array, and equal ids mean equal bank coordinates.\<close>

theorem flat_bank_id_indexes_bank:
  assumes "registry name = Some s" "create name cfg = Inr sp" "device_reachable s sp dev" "bank_in_range dev av"
  shows "0 \<le> get_flat_bank_id dev av \<and> nat (get_flat_bank_id dev av) < length (m_bank_nodes dev) \<and>
    m_bank_nodes dev ! nat (get_flat_bank_id dev av) = map (\<lambda>l. nat (av ! l)) [1..<Suc (m_bank_level dev)] \<and>
    (\<forall>av'. bank_in_range dev av' \<and> get_flat_bank_id dev av' = get_flat_bank_id dev av \<longrightarrow>
       (\<forall>l \<in> {1..m_bank_level dev}. av' ! l = av ! l))"
proof -
  obtain sp1 where ok: "standard_ok s" and of: "of_standard s sp" by (rule create_facts [OF assms(1,2)])
  from device_reachable_inv [OF ok of assms(3)] have b: "banks_ok dev" by blast
  from flat_bank_position [OF b assms(4)] flat_bank_inj [OF b _ assms(4)] show ?thesis
    by (auto simp: bank_path_def)
qed

theorem flat_bank_id_indexes_bank_witness:
  "get_flat_bank_id ex_dev [0, 1, 0, 5, 2] = 2 \<and> m_bank_nodes ex_dev ! 2 = [1, 0]"
proof -
  have r: "device_reachable DDR3 ex_spec ex_dev" by (rule device_reachable.init [OF ex_device_init])
  have i: "bank_in_range ex_dev [0, 1, 0, 5, 2]"
    unfolding bank_in_range_def by (simp add: ex_dev_def) (auto simp: ex_spec_def eval_nat_numeral le_Suc_eq)
  have f: "get_flat_bank_id ex_dev [0, 1, 0, 5, 2] = 2" by code_simp
  have "m_bank_level ex_dev = 2" by (simp add: ex_dev_def)
  with flat_bank_id_indexes_bank [OF ex_registry ex_create r i] f show ?thesis by (simp add: eval_nat_numeral)
qed

section \<open>Address mapping\<close>

text \<open>What the three mappers share: the mapper of a created specification.\<close>

definition mappable :: "DRAMSpec \<Rightarrow> bool" where
  "mappable sp \<longleftrightarrow>
     list_all (\<lambda>z. z < 2 ^ 31) (level_sizes (organization sp)) \<and> length (level_sizes (organization sp)) = level_count sp"

lemma mapper_facts:
  assumes "registry name = Some s" "create name cfg = Inr sp" "mappable sp" "AddrMapperBase_init sp = Inr mp"
  shows "mapper_ok mp" "mapper_capacity mp = 2 ^ sum_list (m_addr_bits mp)"
proof -
  obtain sp1 where ok: "standard_ok s" and of: "of_standard s sp" by (rule create_facts [OF assms(1,2)])
  show "mapper_ok mp"
    using AddrMapperBase_init_ok(1) [OF ok of assms(4)] assms(3) by (simp add: mappable_def list_all_iff)
  then show "mapper_capacity mp = 2 ^ sum_list (m_addr_bits mp)" by (simp add: mapper_capacity_def)
qed

lemma ex_mappable: "mappable ex_spec"
  by (simp add: mappable_def) (simp add: ex_spec_def)

text \<open>The mapper ChRaBaRoCo loses nothing: from the address vector it writes, the
  transaction address it was given can be read back, for every address below the capacity.\<close>

theorem ChRaBaRoCo_round_trip:
  assumes "registry name = Some s" "create name cfg = Inr sp" "mappable sp" "AddrMapperBase_init sp = Inr mp"
    and "0 \<le> tx_addr mp req" "tx_addr mp req < 2 ^ sum_list (m_addr_bits mp)"
  shows "gather (fields_at mp (ch_order mp)) (req_addr_vec (ChRaBaRoCo_apply mp req)) = tx_addr mp req"
  using ch.recompose_decompose [of "resize_vec (m_num_mapped_levels mp + 1) (req_addr_vec req)" mp "tx_addr mp req"]
    mapper_facts [OF assms(1-4)] assms(5,6) by (simp add: ChRaBaRoCo_apply_eq)

theorem ChRaBaRoCo_round_trip_witness:
  "gather (fields_at ex_mapper (ch_order ex_mapper)) (req_addr_vec (ChRaBaRoCo_apply ex_mapper ex_read)) = 64"
proof -
  have t: "tx_addr ex_mapper ex_read = 64" by code_simp
  have b: "sum_list (m_addr_bits ex_mapper) = 9" by (simp add: ex_mapper_def)
  show ?thesis using ChRaBaRoCo_round_trip [OF ex_registry ex_create ex_mappable ex_mapper_init, of ex_read] t b by simp
qed

text \<open>The mapper RoBaRaCoCh loses nothing: the transaction address can be read back from
  the address vector, for every address below the capacity.\<close>

theorem RoBaRaCoCh_round_trip:
  assumes "registry name = Some s" "create name cfg = Inr sp" "mappable sp" "AddrMapperBase_init sp = Inr mp"
    and "0 \<le> tx_addr mp req" "tx_addr mp req < 2 ^ sum_list (m_addr_bits mp)"
  shows "gather (fields_at mp (ro_order mp)) (req_addr_vec (RoBaRaCoCh_apply mp req)) = tx_addr mp req"
  using ro.recompose_decompose [of "resize_vec (m_num_mapped_levels mp + 1) (req_addr_vec req)" mp "tx_addr mp req"]
    mapper_facts [OF assms(1-4)] assms(5,6) by (simp add: RoBaRaCoCh_apply_eq)

theorem RoBaRaCoCh_round_trip_witness:
  "gather (fields_at ex_mapper (ro_order ex_mapper)) (req_addr_vec (RoBaRaCoCh_apply ex_mapper ex_read)) = 64"
proof -
  have t: "tx_addr ex_mapper ex_read = 64" by code_simp
  have b: "sum_list (m_addr_bits ex_mapper) = 9" by (simp add: ex_mapper_def)
  show ?thesis using RoBaRaCoCh_round_trip [OF ex_registry ex_create ex_mappable ex_mapper_init, of ex_read] t b by simp
qed

text \<open>Property C26. The permuting mapper MOP4CLXOR, which folds column bits into the bank bits, loses
  nothing either: undoing the exclusive-or and joining the slices gives the address back.\<close>

theorem MOP4CLXOR_round_trip:
  assumes "registry name = Some s" "create name cfg = Inr sp" "mappable sp" "MOP4CLXOR_init sp = Inr mp"
    and "0 \<le> tx_addr mp req" "tx_addr mp req < 2 ^ sum_list (m_addr_bits mp)"
  shows "mop_recompose mp (req_addr_vec (MOP4CLXOR_apply mp req)) = tx_addr mp req"
proof -
  obtain sp1 where ok: "standard_ok s" and of: "of_standard s sp" by (rule create_facts [OF assms(1,2)])
  have m: "mop_ok mp" using MOP4CLXOR_init_ok(2) [OF ok of assms(4)] assms(3) by (simp add: mappable_def list_all_iff)
  then show ?thesis
    using mop.recompose_decompose [of "resize_vec (m_num_mapped_levels mp + 1) (req_addr_vec req)" mp "tx_addr mp req"] assms(5,6)
    by (simp add: MOP4CLXOR_apply_eq [OF m] mop_capacity_def)
qed

theorem MOP4CLXOR_round_trip_witness:
  "mop_recompose ex_mapper (req_addr_vec (MOP4CLXOR_apply ex_mapper ex_read)) = 64"
proof -
  have t: "tx_addr ex_mapper ex_read = 64" by code_simp
  have b: "sum_list (m_addr_bits ex_mapper) = 9" by (simp add: ex_mapper_def)
  have i: "MOP4CLXOR_init ex_spec = Inr ex_mapper" by (simp add: MOP4CLXOR_init_def ex_mapper_init) (simp add: ex_mapper_def)
  show ?thesis using MOP4CLXOR_round_trip [OF ex_registry ex_create ex_mappable i, of ex_read] t b by simp
qed

text \<open>Property C27. Every address a slicing mapper sees (ChRaBaRoCo, RoBaRaCoCh and MOP4CLXOR, which folds
  column bits into the bank bits) lands in a bank that exists, whatever its upper bits: the
  bank coordinates it writes are inside the organisation of the device.\<close>

theorem mapped_bank_exists:
  assumes "registry name = Some s" "create name cfg = Inr sp" "mappable sp" "AddrMapperBase_init sp = Inr mp"
    and "device_reachable s sp dev"
  shows "bank_in_range dev (req_addr_vec (ChRaBaRoCo_apply mp req)) \<and>
    bank_in_range dev (req_addr_vec (RoBaRaCoCh_apply mp req)) \<and>
    (MOP4CLXOR_init sp = Inr mp \<longrightarrow> bank_in_range dev (req_addr_vec (MOP4CLXOR_apply mp req)))"
proof -
  obtain sp1 where ok: "standard_ok s" and of: "of_standard s sp" by (rule create_facts [OF assms(1,2)])
  from device_reachable_inv [OF ok of assms(5)] have d: "m_spec dev = sp" by blast
  note lv = device_reachable_level [OF ok of assms(5)]
  have m: "\<forall>z \<in> set (level_sizes (organization sp)). z < 2 ^ 31" "length (level_sizes (organization sp)) = level_count sp"
    using assms(3) by (simp_all add: mappable_def list_all_iff)
  have ok': "mapper_ok mp" by (rule mapper_facts(1) [OF assms(1-4)])
  note p = order_perm [OF ok']
  let ?av = "resize_vec (m_num_mapped_levels mp + 1) (req_addr_vec req)"
  have len: "length ?av = Suc (m_num_mapped_levels mp)" by simp
  have r: "0 \<le> slice_vec (fields_at mp is) ?av a ! (i + 1) \<and> slice_vec (fields_at mp is) ?av a ! (i + 1) < 2 ^ (m_addr_bits mp ! i)"
    if "distinct is" "set is = {0..<m_num_mapped_levels mp}" "i < m_row_idx mp" for "is" i a
  proof -
    note f = fields_at_perm [OF ok' that(1,2) len]
    have "(i + 1, m_addr_bits mp ! (i + 1 - 1)) \<in> set (fields_at mp is)"
      by (rule f(4)) (use that(3) ok' in \<open>auto simp: mapper_ok_def\<close>)
    from slice_vec_range [OF f(1,2) this, of a] show ?thesis by simp
  qed
  note in_range = slice_bank_in_range [OF ok of assms(4) m d lv]
  have "bank_in_range dev (req_addr_vec (MOP4CLXOR_apply mp req))" if "MOP4CLXOR_init sp = Inr mp"
  proof -
    have mo: "mop_ok mp" using MOP4CLXOR_init_ok(2) [OF ok of that] assms(3) by (simp add: mappable_def list_all_iff)
    from mop_vec_range [OF mo len] in_range show ?thesis by (simp add: MOP4CLXOR_apply_eq [OF mo])
  qed
  then show ?thesis
    using in_range r [OF p(1,2)] r [OF p(3,4)] by (simp add: ChRaBaRoCo_apply_eq RoBaRaCoCh_apply_eq)
qed

theorem mapped_bank_exists_witness:
  "bank_in_range ex_dev (req_addr_vec (ChRaBaRoCo_apply ex_mapper ex_read)) \<and>
   bank_in_range ex_dev (req_addr_vec (RoBaRaCoCh_apply ex_mapper ex_read)) \<and>
   bank_in_range ex_dev (req_addr_vec (MOP4CLXOR_apply ex_mapper (ex_read\<lparr>req_addr := 2 ^ 40 + 16383\<rparr>)))"
proof -
  have i: "MOP4CLXOR_init ex_spec = Inr ex_mapper" by (simp add: MOP4CLXOR_init_def ex_mapper_init) (simp add: ex_mapper_def)
  note w = mapped_bank_exists [OF ex_registry ex_create ex_mappable ex_mapper_init device_reachable.init [OF ex_device_init]]
  from w [of ex_read] w [of "ex_read\<lparr>req_addr := 2 ^ 40 + 16383\<rparr>"] i show ?thesis by blast
qed

end
