(* ===== verification/Controller_Properties.thy ===== *)
theory Controller_Properties
  imports Example_Config
begin

text \<open>
  The properties of the controller and of the components it composes: buffers and request
  conservation, admission, completion order, write mode, schedulers, refresh managers and
  row policy.
\<close>

section \<open>Requests\<close>

text \<open>Property C8. No request is lost or served twice, in every state the controller reaches by requests,
  ticks and resets of its statistics in any order (\<open>ctrl_reachable_since\<close>): the reads, writes
  and maintenance requests accepted since the counters were last zero, with those that were
  outstanding then (none at the start, those in the controller at the last reset), are
  exactly those served since, coalesced since, waiting for their data, or lying in one of the
  buffers.\<close>

theorem requests_conserved:
  assumes "ctrl_since mk cfg cores (old_reads, old_writes, old_maintenance) g" "c = g_ctrl g"
  shows "old_reads + s_num_read_reqs (m_stats c) =
       s_num_read_reqs_served (m_stats c) + length (m_pending c) + length (buffer (m_read_buffer c)) +
       count_type Type_Read (buffer (m_active_buffer c)) \<and>
     old_writes + s_num_write_reqs (m_stats c) =
       s_num_write_reqs_served (m_stats c) + s_num_write_reqs_coalesced (m_stats c) +
       length (buffer (m_write_buffer c)) + count_type Type_Write (buffer (m_active_buffer c)) \<and>
     old_maintenance + s_num_maintenance_reqs (m_stats c) =
       s_num_maintenance_reqs_served (m_stats c) + length (buffer (m_priority_buffer c)) +
       count_type (-1) (buffer (m_active_buffer c))"
  using ctrl_since_inv [OF assms(1)] assms(2) by (simp add: ctrl_inv_def counts_ok_def)

lemma ex_ctrl_reachable: "ctrl_reachable ex_mk ex_cc 1 ex_channel"
  by (rule ctrl_reachable.start [OF ex_init_base]) (simp add: ex_channel_def)

lemma ex_sent:
  "\<exists>ok r c. send ex_read (g_ctrl ex_channel) = Inr (ok, r, c) \<and> ctrl_reachable ex_mk ex_cc 1 (ex_channel\<lparr>g_ctrl := c\<rparr>) \<and>
     length (buffer (m_read_buffer c)) = 1"
proof -
  have "case send ex_read (g_ctrl ex_channel) of Inl _ \<Rightarrow> False | Inr (ok, r, c) \<Rightarrow> length (buffer (m_read_buffer c)) = 1"
    by code_simp
  then obtain ok r c where s: "send ex_read (g_ctrl ex_channel) = Inr (ok, r, c)" "length (buffer (m_read_buffer c)) = 1"
    by (auto split: sum.splits)
  with ctrl_reachable.sent [OF ex_ctrl_reachable s(1)] show ?thesis by blast
qed

text \<open>A read is sent, the statistics are reset, and the bank of the read is activated.\<close>

definition ex_reset_tick :: "GenericDDR \<Rightarrow> GenericDDR result" where
  "ex_reset_tick g = channel_step Op_Tick (GenericDDR_reset_stats g)"

definition ex_measured :: "GenericDDR result" where
  "ex_measured = bindR (channel_step (Op_Send ex_read) ex_channel) ex_reset_tick"

lemma ex_measured_evaluated:
  "case ex_measured of
     Inr g \<Rightarrow> s_num_read_reqs (m_stats (g_ctrl g)) = 0 \<and> length (issued_of (m_events (g_ctrl g))) = 1
   | _ \<Rightarrow> False"
  by code_simp

lemma ex_sent_outstanding:
  "case channel_step (Op_Send ex_read) ex_channel of Inr g \<Rightarrow> outstanding (g_ctrl g) = (1, 0, 0) | _ \<Rightarrow> False"
  by code_simp

lemma channel_step_since:
  "ctrl_since mk cfg cores bl g \<Longrightarrow> channel_step op g = Inr g' \<Longrightarrow> ctrl_since mk cfg cores bl g'"
  by (cases op) (auto simp: channel_step_def bindR_eq_Inr_iff intro: ctrl_since.intros)

lemma ex_measured_since:
  obtains g where "ex_measured = Inr g" "ctrl_since ex_mk ex_cc 1 (1, 0, 0) g"
    "s_num_read_reqs (m_stats (g_ctrl g)) = 0" "length (issued_of (m_events (g_ctrl g))) = 1"
proof -
  from ex_measured_evaluated obtain g where g: "ex_measured = Inr g" "s_num_read_reqs (m_stats (g_ctrl g)) = 0"
    "length (issued_of (m_events (g_ctrl g))) = 1" by (auto split: sum.splits)
  from g(1) obtain g0 where g0: "channel_step (Op_Send ex_read) ex_channel = Inr g0"
    "channel_step Op_Tick (GenericDDR_reset_stats g0) = Inr g"
    unfolding ex_measured_def ex_reset_tick_def bindR_eq_Inr_iff by blast
  have "ctrl_since ex_mk ex_cc 1 (0, 0, 0) ex_channel"
    by (rule ctrl_since.start [OF ex_init_base]) (simp add: ex_channel_def)
  from ctrl_since.reset [OF channel_step_since [OF this g0(1)]] ex_sent_outstanding
  have "ctrl_since ex_mk ex_cc 1 (1, 0, 0) (GenericDDR_reset_stats g0)" by (simp add: g0(1))
  from channel_step_since [OF this g0(2)] g show ?thesis using that by blast
qed

theorem requests_conserved_witness:
  "\<exists>g. ex_measured = Inr g \<and> ctrl_since ex_mk ex_cc 1 (1, 0, 0) g \<and> ctrl_reachable ex_mk ex_cc 1 g \<and>
     s_num_read_reqs (m_stats (g_ctrl g)) = 0 \<and> length (issued_of (m_events (g_ctrl g))) = 1 \<and>
     s_num_read_reqs_served (m_stats (g_ctrl g)) + length (m_pending (g_ctrl g)) + length (buffer (m_read_buffer (g_ctrl g))) +
       count_type Type_Read (buffer (m_active_buffer (g_ctrl g))) = 1"
proof -
  obtain g where g: "ex_measured = Inr g" "ctrl_since ex_mk ex_cc 1 (1, 0, 0) g"
    "s_num_read_reqs (m_stats (g_ctrl g)) = 0" "length (issued_of (m_events (g_ctrl g))) = 1" by (rule ex_measured_since)
  moreover have "ctrl_reachable ex_mk ex_cc 1 g" using g(2) ctrl_reachable_since by blast
  ultimately show ?thesis using requests_conserved [OF g(2) refl] by auto
qed

text \<open>Property C20. No buffer ever holds more than its capacity, and the index of buffered write
  addresses is exact: it lists the addresses in the write buffer, each buffered once.\<close>

theorem buffers_bounded_and_indexed:
  assumes "ctrl_reachable mk cfg cores g" "c = g_ctrl g"
  shows "length (buffer (get_buf ref c)) \<le> max_size (get_buf ref c) \<and>
    m_buffered_write_addrs c = req_addr ` set (buffer (m_write_buffer c)) \<and>
    distinct (map req_addr (buffer (m_write_buffer c)))"
proof -
  from ctrl_reachable_inv [OF assms(1)] assms(2) have "bufs_ok c" "writes_ok c" by (auto simp: ctrl_inv_def)
  then show ?thesis by (cases ref) (simp_all add: bufs_ok_def writes_ok_def within_capacity_def)
qed

theorem buffers_bounded_and_indexed_witness:
  "length (buffer (get_buf ReadBuf (g_ctrl ex_channel))) \<le> max_size (get_buf ReadBuf (g_ctrl ex_channel)) \<and>
   m_buffered_write_addrs (g_ctrl ex_channel) = {}"
proof -
  have "buffer (m_write_buffer (g_ctrl ex_channel)) = []"
    by (simp add: ex_channel_def ctrl_set_channel_id_def ex_ctrl_def ReqBuffer_new_def)
  with buffers_bounded_and_indexed [OF ex_ctrl_reachable refl, of ReadBuf] show ?thesis by simp
qed

text \<open>Property C30. Admission: a request is accepted exactly when its address is already in the write
  buffer (forwarded or coalesced) or its buffer has room; a refused request leaves the
  controller as it was.\<close>

theorem send_admission:
  assumes "send req c = Inr (accepted, req', c')"
  shows "(accepted \<longleftrightarrow> req_addr req \<in> m_buffered_write_addrs c \<or>
      length (buffer (if req_type_id req = Type_Read then m_read_buffer c else m_write_buffer c)) <
      max_size (if req_type_id req = Type_Read then m_read_buffer c else m_write_buffer c)) \<and>
    (accepted \<or> (c' = c \<and> req_arrive req' = -1))"
proof -
  from assms obtain q where q: "mapper_apply (m_device c) (m_addr_mapper c) req = Inr q"
    and ty: "req_type_id req = 0 \<or> req_type_id req = 1"
    unfolding send_def by (auto simp: bindR_eq_Inr_iff split: if_splits)
  from assms q ty mapper_apply_keys [OF q] show ?thesis
    unfolding send_def by (auto simp: Let_def enqueue_def split: if_splits)
qed

theorem send_admission_witness:
  "\<exists>req' c'. send ex_read (g_ctrl ex_channel) = Inr (True, req', c')"
proof -
  obtain ok r c where s: "send ex_read (g_ctrl ex_channel) = Inr (ok, r, c)" using ex_sent by blast
  have "length (buffer (m_read_buffer (g_ctrl ex_channel))) < max_size (m_read_buffer (g_ctrl ex_channel))"
    by (simp add: ex_channel_def ctrl_set_channel_id_def ex_ctrl_def ReqBuffer_new_def)
  moreover have "req_type_id ex_read = Type_Read" by (simp add: ex_read_def Request_addr_def)
  ultimately have ok using send_admission [OF s] by simp
  with s show ?thesis by auto
qed

text \<open>A request that is neither a read nor a write is rejected with an exception before
  it is mapped.\<close>

theorem send_rejects_other_types:
  assumes "req_type_id req \<noteq> Type_Read" "req_type_id req \<noteq> Type_Write"
  shows "send req c = throw ''ControllerBase only supports Read (0) and Write (1) request types''"
  using assms by (simp add: send_def)

theorem send_rejects_other_types_witness:
  "send (Request_Cmd ex_vec 7) ex_ctrl = throw ''ControllerBase only supports Read (0) and Write (1) request types''"
  using send_rejects_other_types [of "Request_Cmd ex_vec 7" ex_ctrl] by simp

text \<open>Property C22. Completed reads leave in order: a cycle removes exactly the reads whose departure
  clock has come from the front of the queue, calls their callbacks in the order of departure
  (ties in the order of entry), and keeps every later read.\<close>

theorem completed_reads_in_order:
  assumes "ctrl_reachable mk cfg cores g" "c = g_ctrl g"
  shows "\<exists>due rest. m_pending c = due @ rest \<and>
    (\<forall>p \<in> set due. pr_depart p \<le> m_clk c + 1) \<and> (\<forall>p \<in> set rest. m_clk c + 1 < pr_depart p) \<and>
    sorted_wrt (\<lambda>p q. pr_depart p < pr_depart q \<or> (pr_depart p = pr_depart q \<and> pr_sequence p < pr_sequence q)) due \<and>
    m_pending (tick_prologue c) = rest \<and>
    m_events (tick_prologue c) = m_events c @ map Callback (filter (\<lambda>r. req_callback r \<noteq> None) (map pr_req due)) \<and>
    s_num_read_reqs_served (m_stats (tick_prologue c)) = s_num_read_reqs_served (m_stats c) + length due"
proof -
  from ctrl_reachable_inv [OF assms(1)] assms(2) have so: "sorted_wrt (\<lambda>p q. pending_gt q p) (m_pending c)"
    by (auto simp: ctrl_inv_def pending_ok_def)
  let ?P = "\<lambda>p. pr_depart p \<le> m_clk c + 1"
  let ?due = "takeWhile ?P (m_pending c)" and ?rest = "dropWhile ?P (m_pending c)"
  have gt: "pending_gt q p \<longleftrightarrow> pr_depart p < pr_depart q \<or> (pr_depart p = pr_depart q \<and> pr_sequence p < pr_sequence q)" for p q
    by (auto simp: pending_gt_def)
  have later: "sorted_wrt (\<lambda>p q. pending_gt q p) ps \<Longrightarrow> p \<in> set (dropWhile ?P ps) \<Longrightarrow> m_clk c + 1 < pr_depart p" for p ps
    by (induction ps) (auto simp: gt split: if_splits)
  have "sorted_wrt (\<lambda>p q. pending_gt q p) ?due" using so by (metis sorted_wrt_append takeWhile_dropWhile_id)
  then have "sorted_wrt (\<lambda>p q. pr_depart p < pr_depart q \<or> (pr_depart p = pr_depart q \<and> pr_sequence p < pr_sequence q)) ?due"
    by (simp add: gt)
  moreover have "m_pending c = ?due @ ?rest" by simp
  moreover have "\<forall>p \<in> set ?due. ?P p" by (auto dest: set_takeWhileD)
  moreover have "\<forall>p \<in> set ?rest. m_clk c + 1 < pr_depart p" using later [OF so] by blast
  ultimately show ?thesis
    by (intro exI [of _ ?due] exI [of _ ?rest])
      (simp add: tick_prologue_def serve_completed_reads_def serve_pending_split Let_def)
qed

text \<open>A write and a read of the same address: the read is forwarded and due in the next cycle.\<close>

definition ex_forward :: "GenericDDR list" where
  "ex_forward = run_states [Op_Send (ex_read\<lparr>req_type_id := Type_Write\<rparr>), Op_Send ex_read] ex_channel"

lemma ex_forward_pending: "map (\<lambda>g. map pr_depart (m_pending (g_ctrl g))) ex_forward = [[], [], [1]]"
  by code_simp

lemma ex_forward_clk: "m_clk (g_ctrl (ex_forward ! 2)) = 0"
  by code_simp

lemma ex_forward_reachable: "ctrl_reachable ex_mk ex_cc 1 (ex_forward ! 2)"
proof -
  have "length ex_forward = 3" using arg_cong [OF ex_forward_pending, of length] by simp
  then have "ex_forward ! 2 \<in> set (run_states [Op_Send (ex_read\<lparr>req_type_id := Type_Write\<rparr>), Op_Send ex_read] ex_channel)"
    using nth_mem [of 2 ex_forward] by (simp add: ex_forward_def del: run_states.simps)
  with run_states_reachable [OF ex_channel_reachable] show ?thesis by (blast intro: channel_ctrl_reachable)
qed

theorem completed_reads_in_order_witness:
  "\<exists>p. m_pending (g_ctrl (ex_forward ! 2)) = [p] \<and> pr_depart p = 1 \<and> m_pending (tick_prologue (g_ctrl (ex_forward ! 2))) = []"
proof -
  let ?c = "g_ctrl (ex_forward ! 2)"
  have len: "length ex_forward = 3" using arg_cong [OF ex_forward_pending, of length] by simp
  have "map pr_depart (m_pending ?c) = [1]"
    using arg_cong [OF ex_forward_pending, of "\<lambda>l. l ! 2"] len by simp
  then obtain p where p: "m_pending ?c = [p]" "pr_depart p = 1" by auto
  have clk: "m_clk ?c = 0" by (rule ex_forward_clk)
  obtain due rest where d: "m_pending ?c = due @ rest" "\<forall>p \<in> set rest. m_clk ?c + 1 < pr_depart p"
    "m_pending (tick_prologue ?c) = rest"
    using completed_reads_in_order [OF ex_forward_reachable refl] by blast
  from d(1,2) p clk have "rest = []" by (cases due) auto
  with p d(3) show ?thesis by simp
qed

section \<open>Write mode\<close>

lemma to_float_nonneg: "0 \<le> to_float x"
proof (cases "x \<le> 0")
  case False
  have "0 \<le> round_half_even y" if "0 \<le> y" for y
    using that by (auto simp: round_half_even_def Let_def)
  moreover have "0 < (2::rat) powi k" for k by simp
  ultimately show ?thesis using False by (simp add: to_float_def Let_def)
qed (simp add: to_float_def)

lemma empty_not_above: "buf_size b = 0 \<Longrightarrow> \<not> above_watermark wm b"
  using to_float_nonneg [of "wm * to_float (of_nat (max_size b))"] by (simp add: above_watermark_def to_float_def)

text \<open>The mode switch never starves a buffer: whatever mode it settles on, the buffer that
  mode serves is empty only when both the read and the write buffer are empty.\<close>

lemma write_mode_serves_work:
  "buf_size (if m_is_write_mode (set_write_mode c) then m_write_buffer c else m_read_buffer c) = 0 \<longleftrightarrow>
   buf_size (m_read_buffer c) = 0 \<and> buf_size (m_write_buffer c) = 0"
  using empty_not_above [of "m_write_buffer c" "m_wr_high_watermark c"]
  by (cases "m_is_write_mode c") (auto simp: set_write_mode_def)

section \<open>Scheduling\<close>

lemma fold_note_length: "length (fold (note_rowhit c) rs (replicate n None)) = n"
  using fold_frame [of length "note_rowhit c"] by simp

text \<open>Property C18. First ready, first come: the request the FRFCFS scheduler picks is eligible, and
  among the eligible requests it is ready if any is, and the oldest of its readiness class
  (the first in the buffer among equals). Nothing is picked only when nothing is eligible.\<close>

theorem FRFCFS_first_ready_oldest:
  assumes "FRFCFS_get_best_request c flt rs = Inr (rs', pick)"
  shows "derive_commands c rs = Inr rs' \<and>
    (case pick of
       None \<Rightarrow> list_all (\<lambda>r. \<not> flt r) rs'
     | Some k \<Rightarrow> k < length rs' \<and> flt (rs' ! k) \<and>
         (\<forall>j < length rs'. flt (rs' ! j) \<and> j \<noteq> k \<longrightarrow>
            (timing_ok c (rs' ! k) \<and> \<not> timing_ok c (rs' ! j)) \<or>
            (timing_ok c (rs' ! k) = timing_ok c (rs' ! j) \<and>
               (req_arrive (rs' ! k) < req_arrive (rs' ! j) \<or> (req_arrive (rs' ! k) = req_arrive (rs' ! j) \<and> k < j)))))"
proof -
  from assms have d: "derive_commands c rs = Inr rs'" and b: "best_of c flt rs' = pick"
    by (auto simp: FRFCFS_get_best_request_def bindR_eq_Inr_iff)
  show ?thesis
  proof (cases pick)
    case None
    with b d best_of_None [of c flt rs'] show ?thesis by (simp add: list_all_length)
  next
    case (Some k)
    with b have "best_of c flt rs' = Some k" by simp
    note best_of_Some [OF this]
    with d Some show ?thesis by (auto simp: better_def)
  qed
qed

text \<open>A bank with row 2 open, and two requests to it: a hit and an older conflict.\<close>

definition ex_open :: Controller where
  "ex_open = (g_ctrl ex_channel)\<lparr>m_device := issue_command 0 ex_vec 1 (m_device (g_ctrl ex_channel)), m_clk := 5\<rparr>"

definition ex_hit :: Request where
  "ex_hit = default_Request\<lparr>req_addr_vec := ex_vec, req_type_id := Type_Read, req_final_command := 3, req_arrive := 4\<rparr>"

definition ex_conflict :: Request where
  "ex_conflict = ex_hit\<lparr>req_addr_vec := [0, 0, 0, 5, 0], req_arrive := 2\<rparr>"

definition picked_commands :: "(Request list \<times> nat option) result \<Rightarrow> int list \<times> nat option" where
  "picked_commands r = (case r of Inl _ \<Rightarrow> ([], None) | Inr (rs, k) \<Rightarrow> (map req_command rs, k))"

lemma ex_pick_frfcfs: "picked_commands (FRFCFS_get_best_request ex_open (\<lambda>_. True) [ex_hit, ex_conflict]) = ([3, 1], Some 1)"
  by code_simp

lemma ex_pick_rowhit: "picked_commands (FRFCFSRowHit_get_best_request ex_open (\<lambda>_. True) [ex_hit, ex_conflict]) = ([3, 1], Some 1)"
  by code_simp

lemma picked_commandsE:
  assumes "picked_commands r = (cs, Some k)"
  obtains rs where "r = Inr (rs, Some k)" "map req_command rs = cs"
  using assms by (auto simp: picked_commands_def split: sum.splits prod.splits)

lemma derived_requests:
  assumes "derive_commands c [a, b] = Inr rs" "map req_command rs = [x, y]"
  shows "rs = [a\<lparr>req_command := x\<rparr>, b\<lparr>req_command := y\<rparr>]"
  using assms by (auto simp: bindR_eq_Inr_iff)

theorem FRFCFS_first_ready_oldest_witness:
  "\<exists>rs. FRFCFS_get_best_request ex_open (\<lambda>_. True) [ex_hit, ex_conflict] = Inr (rs, Some 1) \<and>
     (timing_ok ex_open (rs ! 0) \<longrightarrow> timing_ok ex_open (rs ! 1))"
proof -
  obtain rs where rs: "FRFCFS_get_best_request ex_open (\<lambda>_. True) [ex_hit, ex_conflict] = Inr (rs, Some 1)"
    "map req_command rs = [3, 1]" by (rule picked_commandsE [OF ex_pick_frfcfs])
  have len: "0 < length rs" using arg_cong [OF rs(2), of length] by simp
  from FRFCFS_first_ready_oldest [OF rs(1)] len have "timing_ok ex_open (rs ! 0) \<longrightarrow> timing_ok ex_open (rs ! 1)" by auto
  with rs(1) show ?thesis by blast
qed

text \<open>Property C29. The row-hit scheduler lets a request close a row only when it is older than every
  buffered hit on that row: a precharge of one bank, picked to prepare another access, has
  waited strictly longer than each request that still hits the open row of the bank.\<close>

theorem rowhit_not_preempted:
  assumes "FRFCFSRowHit_get_best_request c flt rs = Inr (rs', Some k)"
    and "is_closing (command_meta (spec_of c) ! nat (req_command (rs' ! k)))"
    and "req_command (rs' ! k) \<noteq> req_final_command (rs' ! k)" "bank_targets (spec_of c) ! nat (req_command (rs' ! k)) = BT_Single"
    and "get_flat_bank_id (m_device c) (req_addr_vec (rs' ! k)) = int b" "b < length (m_bank_nodes (m_device c))"
    and "h \<in> set rs'" "check_rowbuffer_hit (m_device c) (nat (req_final_command h)) (req_addr_vec h) (m_clk c)"
    and "get_flat_bank_id (m_device c) (req_addr_vec h) = int b"
  shows "req_arrive (rs' ! k) < req_arrive h"
proof (rule ccontr)
  assume older: "\<not> req_arrive (rs' ! k) < req_arrive h"
  let ?n = "length (m_bank_nodes (m_device c))"
  let ?hits = "fold (note_rowhit c) rs' (replicate ?n None)"
  from assms(1) have "best_of c (\<lambda>r. flt r \<and> \<not> would_preempt_rowhit c ?hits r) rs' = Some k"
    by (auto simp: FRFCFSRowHit_get_best_request_def bindR_eq_Inr_iff Let_def)
  from best_of_Some(2) [OF this] have np: "\<not> would_preempt_rowhit c ?hits (rs' ! k)" by blast
  from fold_note_rowhit [OF assms(7-9), of "replicate ?n None"] assms(6)
  obtain t where t: "?hits ! b = Some t" "t \<le> req_arrive h" by auto
  have len: "length ?hits = ?n" by (rule fold_note_length)
  from np show False using older assms(2-6) t len by (simp add: would_preempt_rowhit_def Let_def)
qed

theorem rowhit_not_preempted_witness:
  "check_rowbuffer_hit (m_device ex_open) 3 ex_vec 5 \<and> req_arrive ex_conflict < req_arrive ex_hit"
proof -
  obtain rs where rs: "FRFCFSRowHit_get_best_request ex_open (\<lambda>_. True) [ex_hit, ex_conflict] = Inr (rs, Some 1)"
    "map req_command rs = [3, 1]" by (rule picked_commandsE [OF ex_pick_rowhit])
  have r: "rs = [ex_hit\<lparr>req_command := 3\<rparr>, ex_conflict\<lparr>req_command := 1\<rparr>]"
    using frfcfs_rowhit.derives [OF rs(1)] rs(2) by (rule derived_requests)
  have hit: "check_rowbuffer_hit (m_device ex_open) 3 ex_vec 5" by code_simp
  have f: "get_flat_bank_id (m_device ex_open) ex_vec = int 0" "get_flat_bank_id (m_device ex_open) [0, 0, 0, 5, 0] = int 0"
    by code_simp+
  have sp: "spec_of ex_open = ex_spec" "m_bank_nodes (m_device ex_open) = m_bank_nodes ex_dev" "m_clk ex_open = 5"
    by (simp_all add: ex_open_def ex_channel_def ex_ctrl_def ctrl_set_channel_id_def ex_dev_def)
  have m: "is_closing (command_meta ex_spec ! 1)" "bank_targets ex_spec ! 1 = BT_Single" by (simp_all add: ex_spec_def)
  have "req_arrive (rs ! 1) < req_arrive (ex_hit\<lparr>req_command := 3\<rparr>)"
    by (rule rowhit_not_preempted [OF rs(1), where b = 0])
      (use r hit f sp m in \<open>simp_all add: ex_conflict_def ex_hit_def ex_dev_def\<close>)
  with r hit show ?thesis by simp
qed

end
