(* ===== verification/Refresh_Properties.thy ===== *)
theory Refresh_Properties
  imports Channel_Safety
begin

text \<open>
  The cadence of the refresh managers: which maintenance requests a tick sends, when the
  next refresh is due, and that no due refresh is skipped.
\<close>

section \<open>Sending\<close>

abbreviation prio :: "Controller \<Rightarrow> Request list" where
  "prio c \<equiv> buffer (m_priority_buffer c)"

text \<open>A sent refresh is appended to the priority buffer, and nothing else of it changes.\<close>

lemma priority_send_appends:
  assumes "priority_send r c = Inr (True, c')"
  shows "prio c' = prio c @ [r]" "m_device c' = m_device c" "m_clk c' = m_clk c"
    "length (prio c) < max_size (m_priority_buffer c)" "max_size (m_priority_buffer c') = max_size (m_priority_buffer c)"
  using assms by (auto simp: priority_send_def enqueue_def Let_def split: if_splits)

lemma send_refresh_appends:
  assumes "send_refresh cmd node c = Inr c'"
  shows "prio c' = prio c @ [Request_Cmd (build_addr_vec (m_device c) node) cmd]" "m_device c' = m_device c" "m_clk c' = m_clk c"
proof -
  from assms have "priority_send (Request_Cmd (build_addr_vec (m_device c) node) cmd) c = Inr (True, c')"
    by (auto simp: send_refresh_def bindR_eq_Inr_iff split: if_splits)
  from priority_send_appends [OF this] show "prio c' = prio c @ [Request_Cmd (build_addr_vec (m_device c) node) cmd]"
    "m_device c' = m_device c" "m_clk c' = m_clk c" by simp_all
qed

lemma send_refreshes_append:
  "foldR (send_refresh cmd) nodes c = Inr c' \<Longrightarrow>
   prio c' = prio c @ map (\<lambda>n. Request_Cmd (build_addr_vec (m_device c) n) cmd) nodes \<and> m_device c' = m_device c"
proof (induction nodes arbitrary: c)
  case (Cons n nodes)
  then obtain c1 where c1: "send_refresh cmd n c = Inr c1" "foldR (send_refresh cmd) nodes c1 = Inr c'"
    by (auto simp: bindR_eq_Inr_iff)
  from Cons.IH [OF c1(2)] send_refresh_appends [OF c1(1)] show ?case by simp
qed simp

section \<open>All-bank refresh\<close>

text \<open>Property C17. All-bank refresh is on time: as long as the next refresh is not overdue, a tick keeps
  it so; at the due clock it sends one refresh per scope, in order, and moves the due clock
  by exactly nREFI, and at every other clock it sends nothing.\<close>

theorem all_bank_refresh_on_time:
  assumes "AllBank_tick (ab, c) = Inr (ab', c')" "\<not> ab_scatter_enabled ab" "0 < ab_nrefi ab"
    and "m_clk c \<le> ab_next_refresh_cycle ab"
  shows "m_clk c < ab_next_refresh_cycle ab' \<and>
    (if m_clk c = ab_next_refresh_cycle ab
     then ab_next_refresh_cycle ab' = ab_next_refresh_cycle ab + ab_nrefi ab \<and>
       prio c' = prio c @ map (\<lambda>n. Request_Cmd (build_addr_vec (m_device c) n) (ab_cmd_refab ab)) (ab_ref_nodes ab)
     else ab' = ab \<and> c' = c)"
proof (cases "m_clk c = ab_next_refresh_cycle ab")
  case True
  with assms(1,2) have "foldR (send_refresh (ab_cmd_refab ab)) (ab_ref_nodes ab) c = Inr c'"
    and ab': "ab' = ab\<lparr>ab_next_refresh_cycle := ab_next_refresh_cycle ab + ab_nrefi ab\<rparr>"
    by (auto simp: AllBank_tick_def tick_all_at_once_def Let_def bindR_eq_Inr_iff)
  from send_refreshes_append [OF this(1)] True ab' assms(3) show ?thesis by simp
next
  case False
  with assms show ?thesis by (simp add: AllBank_tick_def tick_all_at_once_def Let_def)
qed

definition ex_all_at_once :: AllBankRefresh where
  "ex_all_at_once = \<lparr>ab_next_refresh_cycle = 6240, ab_cmd_refab = 7, ab_nrefi = 6240, ab_scatter_enabled = False,
     ab_ref_nodes = [[0], [1]], ab_next_scattered = []\<rparr>"

lemma ex_all_at_once_init: "AllBank_init (-1) ex_dev = Inr ex_all_at_once"
  by code_simp

definition ex_due :: Controller where
  "ex_due = (g_ctrl ex_channel)\<lparr>m_clk := 6240\<rparr>"

lemma ex_due_tick: "\<not> isl (AllBank_tick (ex_all_at_once, ex_due))"
  by code_simp

theorem all_bank_refresh_on_time_witness:
  "\<exists>ab' c'. AllBank_tick (ex_all_at_once, ex_due) = Inr (ab', c') \<and> ab_next_refresh_cycle ab' = 12480 \<and> length (prio c') = 2"
proof -
  obtain ab' c' where t: "AllBank_tick (ex_all_at_once, ex_due) = Inr (ab', c')"
    using ex_due_tick by (cases "AllBank_tick (ex_all_at_once, ex_due)") auto
  have "prio ex_due = []"
    by (simp add: ex_due_def ex_channel_def ctrl_set_channel_id_def ex_ctrl_def ReqBuffer_new_def)
  with all_bank_refresh_on_time [OF t] t show ?thesis
    by (simp add: ex_all_at_once_def ex_due_def)
qed

lemma scattered_loop:
  assumes "0 < ab_nrefi ab"
  shows "foldR scattered_step [0..<n] (ab, c) = Inr (ab', c') \<Longrightarrow> n \<le> length (ab_next_scattered ab) \<Longrightarrow>
    m_clk c' = m_clk c \<and> m_device c' = m_device c \<and>
    (\<exists>ns. ab' = ab\<lparr>ab_next_scattered := ns\<rparr> \<and> length ns = length (ab_next_scattered ab) \<and>
      (\<forall>i < length ns. ns ! i = (if i < n \<and> ab_next_scattered ab ! i = m_clk c
         then ab_next_scattered ab ! i + ab_nrefi ab else ab_next_scattered ab ! i))) \<and>
    prio c' = prio c @ map (\<lambda>i. Request_Cmd (build_addr_vec (m_device c) (ab_ref_nodes ab ! i)) (ab_cmd_refab ab))
      (filter (\<lambda>i. ab_next_scattered ab ! i = m_clk c) [0..<n])"
proof (induction n arbitrary: ab' c')
  case 0
  then show ?case by (auto intro!: exI [of _ "ab_next_scattered ab"])
next
  case (Suc n)
  then obtain ab1 c1 where f: "foldR scattered_step [0..<n] (ab, c) = Inr (ab1, c1)" and st: "scattered_step n (ab1, c1) = Inr (ab', c')"
    by (auto simp: foldR_append bindR_eq_Inr_iff)
  from Suc.IH [OF f] Suc.prems(2) obtain ns where IH: "m_clk c1 = m_clk c" "m_device c1 = m_device c"
    "ab1 = ab\<lparr>ab_next_scattered := ns\<rparr>" "length ns = length (ab_next_scattered ab)"
    "\<forall>i < length ns. ns ! i = (if i < n \<and> ab_next_scattered ab ! i = m_clk c
         then ab_next_scattered ab ! i + ab_nrefi ab else ab_next_scattered ab ! i)"
    "prio c1 = prio c @ map (\<lambda>i. Request_Cmd (build_addr_vec (m_device c) (ab_ref_nodes ab ! i)) (ab_cmd_refab ab))
      (filter (\<lambda>i. ab_next_scattered ab ! i = m_clk c) [0..<n])" by auto
  have n: "n < length ns" "ns ! n = ab_next_scattered ab ! n" using IH(4,5) Suc.prems(2) by auto
  show ?case
  proof (cases "ab_next_scattered ab ! n = m_clk c")
    case True
    with st IH n have s: "send_refresh (ab_cmd_refab ab) (ab_ref_nodes ab ! n) c1 = Inr c'"
      "ab' = ab\<lparr>ab_next_scattered := ns[n := ns ! n + ab_nrefi ab]\<rparr>"
      by (auto simp: scattered_step_def Let_def bindR_eq_Inr_iff split: if_splits)
    from send_refresh_appends [OF s(1)] IH s(2) n True show ?thesis
      by (auto simp: nth_list_update less_Suc_eq intro!: exI [of _ "ns[n := ns ! n + ab_nrefi ab]"])
  next
    case False
    with st IH n have "ab' = ab1" "c' = c1" by (auto simp: scattered_step_def Let_def split: if_splits)
    with IH False n show ?thesis by (auto simp: less_Suc_eq intro!: exI [of _ ns])
  qed
qed

text \<open>Property C24. Scattered all-bank refresh keeps a clock per scope: when none is overdue, a tick
  refreshes exactly the scopes that are due, each once, moves their clocks by nREFI and
  leaves none overdue.\<close>

theorem scattered_refresh_on_time:
  assumes "AllBank_tick (ab, c) = Inr (ab', c')" "ab_scatter_enabled ab" "0 < ab_nrefi ab"
    and "length (ab_next_scattered ab) = length (ab_ref_nodes ab)"
    and "\<forall>i < length (ab_ref_nodes ab). m_clk c \<le> ab_next_scattered ab ! i"
  shows "(\<forall>i < length (ab_ref_nodes ab). m_clk c < ab_next_scattered ab' ! i \<and>
      ab_next_scattered ab' ! i =
        (if ab_next_scattered ab ! i = m_clk c then ab_next_scattered ab ! i + ab_nrefi ab else ab_next_scattered ab ! i)) \<and>
    prio c' = prio c @ map (\<lambda>i. Request_Cmd (build_addr_vec (m_device c) (ab_ref_nodes ab ! i)) (ab_cmd_refab ab))
      (filter (\<lambda>i. ab_next_scattered ab ! i = m_clk c) [0..<length (ab_ref_nodes ab)])"
proof -
  from assms(1,2) have "foldR scattered_step [0..<length (ab_ref_nodes ab)] (ab, c) = Inr (ab', c')"
    by (simp add: AllBank_tick_def tick_scattered_def)
  from scattered_loop [OF assms(3) this] assms(3-5) show ?thesis by fastforce
qed

theorem scattered_refresh_on_time_witness:
  "\<exists>ab' c'. AllBank_tick (ex_all_bank, (g_ctrl ex_channel)\<lparr>m_clk := 1\<rparr>) = Inr (ab', c') \<and>
     ab_next_scattered ab' ! 0 = 6241 \<and> ab_next_scattered ab' ! 1 = 2 \<and> length (prio c') = 1"
proof -
  let ?c = "(g_ctrl ex_channel)\<lparr>m_clk := 1\<rparr>"
  have "\<not> isl (AllBank_tick (ex_all_bank, ?c))" by code_simp
  then obtain ab' c' where t: "AllBank_tick (ex_all_bank, ?c) = Inr (ab', c')"
    by (cases "AllBank_tick (ex_all_bank, ?c)") auto
  have p: "prio ?c = []" by (simp add: ex_channel_def ctrl_set_channel_id_def ex_ctrl_def ReqBuffer_new_def)
  have i: "\<forall>i < length (ab_ref_nodes ex_all_bank). m_clk ?c \<le> ab_next_scattered ex_all_bank ! i"
    by (auto simp: ex_all_bank_def less_Suc_eq)
  from scattered_refresh_on_time [OF t _ _ _ i] t p show ?thesis
    by (auto simp: ex_all_bank_def)
qed

section \<open>Per-bank refresh\<close>

text \<open>
  A run of the per-bank manager: created for a device, then ticked once per cycle with the
  controller in whatever state it is in; only the shape of its device is that of the device
  the manager was created for, numbered \<open>ch\<close>. The log lists the requests the manager has sent
  and the clocks at which it sent them.
\<close>

definition device_like :: "int \<Rightarrow> DRAMDevice \<Rightarrow> DRAMDevice \<Rightarrow> bool" where
  "device_like ch dev dev' \<longleftrightarrow>
     m_spec dev' = m_spec dev \<and> same_shape (m_root (device_set_channel_id ch dev)) (m_root dev')"

inductive per_bank_run :: "DRAMDevice \<Rightarrow> int \<Rightarrow> Clk_t \<Rightarrow> PerBankRefresh \<Rightarrow> (Clk_t \<times> Request) list \<Rightarrow> bool" for dev ch where
  created: "PerBank_init dev = Inr pb \<Longrightarrow> per_bank_run dev ch 0 pb []"
| ticked: "per_bank_run dev ch t pb rs \<Longrightarrow> device_like ch dev (m_device c) \<Longrightarrow> m_clk c = t + 1 \<Longrightarrow>
    PerBank_tick (pb, c) = Inr (pb', c') \<Longrightarrow> prio c' = prio c @ sent \<Longrightarrow>
    per_bank_run dev ch (t + 1) pb' (rs @ map (Pair (t + 1)) sent)"


















text \<open>The manager of a channel goes through such a run, one tick per tick of the channel.\<close>

lemma bus_device_like:
  assumes ok: "standard_ok s" and of: "of_standard s sp" and i: "device_init sp = Inr dev"
  shows "bus_reachable s sp ch b \<Longrightarrow> device_like ch dev (fst b)"
proof (induction rule: bus_reachable.induct)
  case (start dev')
  with i show ?case by (simp add: device_like_def)
next
  case (step b b')
  from device_init_ok [OF ok of] i have sp: "m_spec dev = sp" by auto
  from step(2) show ?case
  proof cases
    case idle
    with step.IH show ?thesis by simp
  next
    case (issue fin d av clk cmd es)
    with step.IH of sp have o: "of_standard s (m_spec d)" by (simp add: device_like_def)
    have "same_shape (m_root d) (m_root (issue_command cmd av (clk + 1) d))"
      by (rule issue_command_shape [OF o get_preq_command_less [OF ok o issue(3,4)]])
    with issue step.IH show ?thesis by (auto simp: device_like_def intro: same_shape_trans)
  qed
qed

lemma channel_per_bank_run:
  assumes s: "registry (cc_dram_impl cfg) = Some s" and c: "constraints_ok s (cc_dram cfg)"
    and i: "init_base mk cfg cores = Inr c0" and r: "channel_reachable mk cfg cores ch g"
  shows "\<forall>pb. g_refresh g = PerBank pb \<longrightarrow> (\<exists>rs. per_bank_run (m_device c0) ch (m_clk (g_ctrl g)) pb rs)"
  using r
proof (induction rule: channel_reachable.induct)
  case (start c1 g)
  from start(1) i have c1: "c1 = c0" by simp
  have clk: "m_clk c0 = 0" by (rule init_base_parts [OF i])
  show ?case
  proof (intro allI impI)
    fix pb assume "g_refresh g = PerBank pb"
    with start(3) c1 have "PerBank_init (m_device c0) = Inr pb" by (auto simp: refresh_created_def)
    from per_bank_run.created [OF this] clk start(2) c1
    show "\<exists>rs. per_bank_run (m_device c0) ch (m_clk (g_ctrl g)) pb rs" by (auto simp: ctrl_set_channel_id_def)
  qed
next
  case (sent g req ok req' c')
  have "m_clk c' = m_clk (g_ctrl g)"
    by (rule channel_facts [OF s c sent(1)]) (use send_bus(1) [OF _ _ _ sent(2), of s] in \<open>auto simp: sys_ok_def bus_of_def\<close>)
  with sent.IH show ?case by simp
next
  case (ticked g g')
  show ?case
  proof (intro allI impI)
    fix pb' assume pb': "g_refresh g' = PerBank pb'"
    let ?c = "tick_prologue (g_ctrl g)"
    from ticked(2) obtain c1 pol c2 cand c3 pol' ps c4 where
      t: "refresh_tick (g_refresh g, ?c) = Inr (PerBank pb', c1)" "g_ctrl g' = c4"
      using pb' by (elim GenericDDR_tick_phases) auto
    then obtain pb where pb: "g_refresh g = PerBank pb" "PerBank_tick (pb, ?c) = Inr (pb', c1)"
      by (cases "g_refresh g") (auto simp: bindR_eq_Inr_iff)
    obtain sp where f: "standard_ok s" "of_standard s sp" "bus_reachable s sp ch (bus_of (g_ctrl g))"
      "create (cc_dram_impl cfg) (cc_dram cfg) = Inr sp" by (rule channel_facts [OF s c ticked(1)])
    from init_base_parts [OF i] f(4) have "device_init sp = Inr (m_device c0)" by (metis sum.inject(2))
    from bus_device_like [OF f(1,2) this f(3)] have l: "device_like ch (m_device c0) (m_device ?c)"
      using tick_prologue_frame(1) by (simp add: bus_of_def)
    have clk: "m_clk ?c = m_clk (g_ctrl g) + 1" using tick_prologue_frame(2) by simp
    from ticked.IH pb(1) obtain rs where rs: "per_bank_run (m_device c0) ch (m_clk (g_ctrl g)) pb rs" by blast
    have "c1 = ?c \<or> (\<exists>r. priority_send r ?c = Inr (True, c1))"
      using pb(2) by (auto simp: PerBank_tick_def Let_def bindR_eq_Inr_iff split: if_splits)
    then have "\<exists>sent. prio c1 = prio ?c @ sent" using priority_send_appends(1) by auto
    then obtain sent where "prio c1 = prio ?c @ sent" ..
    note run = per_bank_run.ticked [OF rs l clk pb(2) this]
    have "bus_step s (bus_of (g_ctrl g)) (bus_of (g_ctrl g'))"
      by (rule channel_facts [OF s c ticked(1)]) (auto intro: tick_bus(1) [OF _ _ _ _ ticked(2)])
    with run show "\<exists>rs. per_bank_run (m_device c0) ch (m_clk (g_ctrl g')) pb' rs"
      by (auto simp: bus_of_def elim!: bus_step.cases)
  qed
next
  case (reset g)
  then show ?case by (simp add: GenericDDR_reset_stats_def reset_stats_def)
qed








end
