(* ===== verification/Row_Hammer.thy ===== *)
theory Row_Hammer
  imports Plugins
begin

text \<open>
  What the counting plugins promise: a row, or a bank, that is activated often enough gets a
  maintenance request in time. The argument is the same for every plugin and is made once,
  in the locale \<open>tracker\<close>: the plugin keeps an estimate of the activations since the last
  request that never falls behind, and a hit that brings the estimate to the threshold
  fires.
\<close>

section \<open>Trackers\<close>

locale tracker =
  fixes inv :: "nat \<Rightarrow> 's \<Rightarrow> bool"
    and step :: "'e \<Rightarrow> 's \<Rightarrow> 's"
    and est :: "'s \<Rightarrow> int"
    and hits :: "'e \<Rightarrow> bool"
    and clears :: "'e \<Rightarrow> bool"
    and fires :: "'e \<Rightarrow> 's \<Rightarrow> bool"
    and cost :: "'e \<Rightarrow> nat"
    and thr :: int and budget :: nat
  assumes inv_step: "inv n s \<Longrightarrow> inv (n + cost e) (step e s)"
    and est_nonneg: "inv n s \<Longrightarrow> 0 \<le> est s"
    and est_grows: "inv n s \<Longrightarrow> \<not> clears e \<Longrightarrow> \<not> fires e s \<Longrightarrow> est s + (if hits e then 1 else 0) \<le> est (step e s)"
    and forced: "inv n s \<Longrightarrow> n + cost e \<le> budget \<Longrightarrow> hits e \<Longrightarrow> thr \<le> est s + 1 \<Longrightarrow> fires e s"
begin

lemma inv_run: "inv n s \<Longrightarrow> inv (n + sum_list (map cost es)) (fold step es s)"
proof (induction es arbitrary: n s)
  case (Cons e es)
  from Cons.IH [OF inv_step [OF Cons.prems, of e]] show ?case by (simp add: add.assoc)
qed simp

lemma fires_in_time:
  "inv n s \<Longrightarrow> n + sum_list (map cost es) \<le> budget \<Longrightarrow> \<forall>e \<in> set es. \<not> clears e \<Longrightarrow>
   thr \<le> est s + int (length (filter hits es)) \<Longrightarrow> filter hits es \<noteq> [] \<Longrightarrow>
   \<exists>pre e post. es = pre @ e # post \<and> fires e (fold step pre s)"
proof (induction es arbitrary: n s)
  case (Cons e es)
  show ?case
  proof (cases "fires e s")
    case True
    then show ?thesis by (intro exI [of _ "[]"]) auto
  next
    case False
    have g: "est s + (if hits e then 1 else 0) \<le> est (step e s)"
      using est_grows [OF Cons.prems(1) _ False] Cons.prems(3) by simp
    have nf: "\<not> (hits e \<and> thr \<le> est s + 1)" using forced [OF Cons.prems(1), of e] False Cons.prems(2) by auto
    from Cons.prems(4,5) g nf have "thr \<le> est (step e s) + int (length (filter hits es)) \<and> filter hits es \<noteq> []"
      by (cases "hits e") auto
    then obtain pre e' post where "es = pre @ e' # post" "fires e' (fold step pre (step e s))"
      using Cons.IH [OF inv_step [OF Cons.prems(1), of e]] Cons.prems(2,3) by (auto simp: add.assoc)
    then show ?thesis by (intro exI [of _ "e # pre"]) auto
  qed
qed simp

text \<open>The property of every tracker: after any history, a window with \<open>thr\<close> hits contains a firing.\<close>

lemma window:
  assumes "inv 0 s" "sum_list (map cost (es1 @ es2)) \<le> budget" "\<forall>e \<in> set es2. \<not> clears e"
    and "thr \<le> int (length (filter hits es2))" "0 < thr"
  shows "\<exists>pre e post. es2 = pre @ e # post \<and> fires e (fold step (es1 @ pre) s)"
proof -
  have "inv (0 + sum_list (map cost es1)) (fold step es1 s)" by (rule inv_run [OF assms(1)])
  from fires_in_time [OF this, of es2] est_nonneg [OF this] assms(2-5) show ?thesis by fastforce
qed

end

text \<open>A notification is the device at that moment and the issued request.\<close>

type_synonym notice = "DRAMDevice \<times> Request"

definition activates :: "nat \<Rightarrow> notice \<Rightarrow> bool" where
  "activates b e \<longleftrightarrow> opens_one_bank (m_spec (fst e)) (snd e) \<and> bank_of (fst e) (snd e) = b"

definition activates_row :: "nat \<Rightarrow> nat \<Rightarrow> int \<Rightarrow> notice \<Rightarrow> bool" where
  "activates_row level b row e \<longleftrightarrow> activates b e \<and> req_addr_vec (snd e) ! level = row"

definition bank_cost :: "nat \<Rightarrow> notice \<Rightarrow> nat" where
  "bank_cost b e = (if activates b e then 1 else 0)"

definition observing :: "(DRAMDevice \<Rightarrow> Request \<Rightarrow> 'p \<Rightarrow> Request list \<times> 'p) \<Rightarrow> notice \<Rightarrow> 'p \<Rightarrow> 'p" where
  "observing obs e p = snd (obs (fst e) (snd e) p)"

definition answers :: "(DRAMDevice \<Rightarrow> Request \<Rightarrow> 'p \<Rightarrow> Request list \<times> 'p) \<Rightarrow> notice \<Rightarrow> 'p \<Rightarrow> Request list" where
  "answers obs e p = fst (obs (fst e) (snd e) p)"

section \<open>Tables\<close>

lemma update_absent: "map_of t k = None \<Longrightarrow> AList.update k v t = t @ [(k, v)]"
  by (induction t) auto

lemma update_present:
  assumes "map_of t k = Some v"
  shows "length (AList.update k w t) = length t" "sum_list (map snd (AList.update k w t)) = sum_list (map snd t) - v + (w :: int)"
  using assms by (induction t) auto

lemma delete_present:
  assumes "distinct (map fst t)" "(k, v) \<in> set t"
  shows "Suc (length (AList.delete k t)) = length t" "sum_list (map snd (AList.delete k t)) = sum_list (map snd t) - (v :: int)"
proof -
  from assms obtain xs ys where t: "t = xs @ (k, v) # ys" "k \<notin> fst ` set xs" "k \<notin> fst ` set ys"
    by (auto dest!: split_list)
  have "filter (\<lambda>(k', _). k \<noteq> k') zs = zs" if "k \<notin> fst ` set zs" for zs :: "('a \<times> int) list"
    using that by (intro filter_True) force
  with t have "AList.delete k t = xs @ ys" by (simp add: AList.delete_eq)
  with t show "Suc (length (AList.delete k t)) = length t" "sum_list (map snd (AList.delete k t)) = sum_list (map snd t) - v"
    by simp_all
qed

lemma update_entries: "e \<in> set (AList.update k v t) \<Longrightarrow> e = (k, v) \<or> (e \<in> set t)"
  by (induction t) (auto split: if_splits)

lemma delete_entries: "e \<in> set (AList.delete k t) \<Longrightarrow> e \<in> set t"
  by (auto simp: AList.delete_eq)

section \<open>Graphene\<close>

text \<open>
  The state of one bank: counts of \<open>N\<close> rows, none below the spillover counter, together not
  more than the \<open>n\<close> activations seen since the last reset.
\<close>

definition graphene_bank :: "nat \<Rightarrow> nat \<Rightarrow> counter_table \<times> int \<Rightarrow> bool" where
  "graphene_bank N n s \<longleftrightarrow>
     distinct (map fst (fst s)) \<and> length (fst s) = N \<and> 0 \<le> snd s \<and> (\<forall>e \<in> set (fst s). snd s \<le> snd e) \<and>
     sum_list (map snd (fst s)) + snd s \<le> int n"

definition graphene_est :: "int \<Rightarrow> counter_table \<times> int \<Rightarrow> int" where
  "graphene_est row s = (case map_of (fst s) row of None \<Rightarrow> snd s | Some c \<Rightarrow> c)"

lemma graphene_bank_est: "graphene_bank N n s \<Longrightarrow> snd s \<le> graphene_est row s"
  by (auto simp: graphene_bank_def graphene_est_def split: option.splits dest: map_of_SomeD)

lemma graphene_spill:
  assumes "graphene_bank N n s"
  shows "int (Suc N) * snd s \<le> int n"
proof -
  have "int (length t) * m \<le> sum_list (map snd t)" if "\<forall>e \<in> set t. m \<le> snd e" for t :: counter_table and m
    using that by (induction t) (auto simp: algebra_simps)
  from this [of "fst s" "snd s"] assms show ?thesis by (simp add: graphene_bank_def algebra_simps)
qed

lemma graphene_count_cases [consumes 1]:
  assumes it: "\<And>t. set (iter t) = set t"
  obtains (hit) c where "map_of t row = Some c"
      "graphene_count iter thr row (t, spill) = (thr \<le> c + 1, AList.update row (if thr \<le> c + 1 then spill else c + 1) t, spill)"
    | (evict) r where "map_of t row = None" "(r, spill) \<in> set t"
      "graphene_count iter thr row (t, spill) = (False, AList.update row (spill + 1) (AList.delete r t), spill)"
    | (spilled) "map_of t row = None" "\<forall>e \<in> set t. snd e \<noteq> spill"
      "graphene_count iter thr row (t, spill) = (False, t, spill + 1)"
proof (cases "map_of t row")
  case (Some c)
  then show ?thesis using hit by (auto simp: graphene_count_def)
next
  case None
  show ?thesis
  proof (cases "find (\<lambda>(_, n). n = spill) (iter t)")
    case (Some e)
    then have "e \<in> set (iter t)" "snd e = spill" by (auto simp: find_Some_iff) (metis nth_mem)
    with Some None evict [of "fst e"] it show ?thesis by (cases e) (auto simp: graphene_count_def)
  next
    case notfound: None
    then have "\<forall>e \<in> set t. snd e \<noteq> spill" using it by (force simp: find_None_iff)
    with notfound None spilled show ?thesis by (auto simp: graphene_count_def)
  qed
qed

lemma graphene_count_bank:
  assumes it: "\<And>t. set (iter t) = set t" and inv: "graphene_bank N n s"
  shows "graphene_bank N (Suc n) (snd (graphene_count iter thr row s))"
proof -
  obtain t spill where s: "s = (t, spill)" by force
  note b = inv [unfolded graphene_bank_def s fst_conv snd_conv]
  from it show ?thesis unfolding s
  proof (cases rule: graphene_count_cases [where t = t and row = row and thr = thr and spill = spill])
    case (hit c)
    have c: "spill \<le> c" using b hit(1) by (auto dest: map_of_SomeD)
    with b hit update_present [OF hit(1)] show "graphene_bank N (Suc n) (snd (graphene_count iter thr row (t, spill)))"
      by (auto simp: graphene_bank_def distinct_update dest!: update_entries)
  next
    case (evict r)
    have d: "distinct (map fst (AList.delete r t))" using b by (simp add: distinct_delete)
    have n: "map_of (AList.delete r t) row = None" using evict(1) by (simp add: delete_conv')
    then have "row \<notin> fst ` set (AList.delete r t)" by (simp add: map_of_eq_None_iff)
    moreover have "\<forall>e \<in> set (AList.delete r t). spill \<le> snd e" using b delete_entries by fastforce
    ultimately show "graphene_bank N (Suc n) (snd (graphene_count iter thr row (t, spill)))"
      using b d evict(3) delete_present [OF _ evict(2)] by (simp add: graphene_bank_def update_absent [OF n])
  next
    case spilled
    from b spilled show "graphene_bank N (Suc n) (snd (graphene_count iter thr row (t, spill)))"
      by (force simp: graphene_bank_def)
  qed
qed

lemma graphene_count_est:
  assumes it: "\<And>t. set (iter t) = set t" and inv: "graphene_bank N n s"
    and nf: "\<not> (row = k \<and> fst (graphene_count iter thr row s))"
  shows "graphene_est k s + (if row = k then 1 else 0) \<le> graphene_est k (snd (graphene_count iter thr row s))"
proof -
  obtain t spill where s: "s = (t, spill)" by force
  note b = inv [unfolded graphene_bank_def s fst_conv snd_conv]
  from it show ?thesis unfolding s
  proof (cases rule: graphene_count_cases [where t = t and row = row and thr = thr and spill = spill])
    case (hit c)
    with nf s show "graphene_est k (t, spill) + (if row = k then 1 else 0) \<le> graphene_est k (snd (graphene_count iter thr row (t, spill)))"
      by (auto simp: graphene_est_def update_conv' split: option.splits)
  next
    case (evict r)
    have "map_of t r = Some spill" using b evict(2) by simp
    with evict show "graphene_est k (t, spill) + (if row = k then 1 else 0) \<le> graphene_est k (snd (graphene_count iter thr row (t, spill)))"
      by (auto simp: graphene_est_def update_conv' delete_conv' split: option.splits)
  next
    case spilled
    then show "graphene_est k (t, spill) + (if row = k then 1 else 0) \<le> graphene_est k (snd (graphene_count iter thr row (t, spill)))"
      by (auto simp: graphene_est_def split: option.splits)
  qed
qed

lemma graphene_forced:
  assumes it: "\<And>t. set (iter t) = set t" and inv: "graphene_bank N n s"
    and n: "Suc n \<le> nat (int (Suc N) * (thr - 1))" and e: "thr \<le> graphene_est row s + 1"
  shows "fst (graphene_count iter thr row s)"
proof -
  obtain t spill where s: "s = (t, spill)" by force
  have "int n < int (Suc N) * (thr - 1)" using n by linarith
  with graphene_spill [OF inv] have "int (Suc N) * snd s < int (Suc N) * (thr - 1)" by linarith
  then have sp: "snd s < thr - 1" by (simp add: mult_less_cancel_left_pos)
  from it show ?thesis unfolding s
    by (cases rule: graphene_count_cases [where t = t and row = row and thr = thr and spill = spill])
      (use e sp s in \<open>auto simp: graphene_est_def\<close>)
qed

text \<open>The plugin: the table and the spillover counter of a bank.\<close>

definition gr_bank :: "nat \<Rightarrow> Graphene \<Rightarrow> counter_table \<times> int" where
  "gr_bank b p = (gr_activation_count_table p ! b, gr_spillover_counter p ! b)"

definition gr_state :: "nat \<Rightarrow> int \<Rightarrow> nat \<Rightarrow> int \<Rightarrow> nat \<Rightarrow> nat \<Rightarrow> Graphene \<Rightarrow> bool" where
  "gr_state N thr lev vrr b n p \<longleftrightarrow>
     gr_activation_threshold p = thr \<and> gr_row_level p = lev \<and> gr_vrr_cmd_id p = vrr \<and>
     b < length (gr_activation_count_table p) \<and> b < length (gr_spillover_counter p) \<and> graphene_bank N n (gr_bank b p)"

lemma Graphene_observe_bank:
  assumes "gr_state N thr lev vrr b n p"
  shows "gr_bank b (observing (Graphene_observe iter) e p) =
      (if activates b e then snd (graphene_count iter thr (req_addr_vec (snd e) ! lev) (gr_bank b p)) else gr_bank b p)"
    "activates b e \<Longrightarrow> answers (Graphene_observe iter) e p =
      (if fst (graphene_count iter thr (req_addr_vec (snd e) ! lev) (gr_bank b p)) then [Request_Cmd (req_addr_vec (snd e)) vrr] else [])"
  using assms
  by (auto simp: gr_state_def gr_bank_def observing_def answers_def activates_def Graphene_observe_def Let_def nth_list_update
      split: prod.splits)

lemma Graphene_observe_frame:
  "gr_activation_threshold (observing (Graphene_observe iter) e p) = gr_activation_threshold p"
  "gr_row_level (observing (Graphene_observe iter) e p) = gr_row_level p"
  "gr_vrr_cmd_id (observing (Graphene_observe iter) e p) = gr_vrr_cmd_id p"
  "length (gr_activation_count_table (observing (Graphene_observe iter) e p)) = length (gr_activation_count_table p)"
  "length (gr_spillover_counter (observing (Graphene_observe iter) e p)) = length (gr_spillover_counter p)"
  by (simp_all add: observing_def Graphene_observe_def Let_def split: prod.splits)

lemma graphene_tracker:
  assumes it: "\<And>t. set (iter t) = set t"
  shows "tracker (gr_state N thr lev vrr b) (observing (Graphene_observe iter)) (\<lambda>p. graphene_est row (gr_bank b p))
    (activates_row lev b row) (\<lambda>_. False)
    (\<lambda>e p. activates_row lev b row e \<and> answers (Graphene_observe iter) e p = [Request_Cmd (req_addr_vec (snd e)) vrr])
    (bank_cost b) thr (nat (int (Suc N) * (thr - 1)))"
proof
  fix n p e assume st: "gr_state N thr lev vrr b n p"
  then have bk: "graphene_bank N n (gr_bank b p)" by (simp add: gr_state_def)
  note o = Graphene_observe_bank [OF st, where iter = iter and e = e]
  show "gr_state N thr lev vrr b (n + bank_cost b e) (observing (Graphene_observe iter) e p)"
    using st o(1) graphene_count_bank [OF it bk] unfolding gr_state_def Graphene_observe_frame
    by (simp add: bank_cost_def)
  show "0 \<le> graphene_est row (gr_bank b p)" using graphene_bank_est [OF bk, of row] bk by (simp add: graphene_bank_def)
  show "activates_row lev b row e \<and> answers (Graphene_observe iter) e p = [Request_Cmd (req_addr_vec (snd e)) vrr]"
    if "n + bank_cost b e \<le> nat (int (Suc N) * (thr - 1))" "activates_row lev b row e" "thr \<le> graphene_est row (gr_bank b p) + 1"
    using that graphene_forced [OF it bk] o(2) by (simp add: activates_row_def bank_cost_def)
  show "graphene_est row (gr_bank b p) + (if activates_row lev b row e then 1 else 0) \<le> graphene_est row (gr_bank b (observing (Graphene_observe iter) e p))"
    if "\<not> (activates_row lev b row e \<and> answers (Graphene_observe iter) e p = [Request_Cmd (req_addr_vec (snd e)) vrr])"
    using that graphene_count_est [OF it bk, of "req_addr_vec (snd e) ! lev" row thr] o by (auto simp: activates_row_def split: if_splits)
qed

interpretation graphene: tracker "gr_state N thr lev vrr b" "observing (Graphene_observe (\<lambda>t. t))"
    "\<lambda>p. graphene_est row (gr_bank b p)" "activates_row lev b row" "\<lambda>_. False"
    "\<lambda>e p. activates_row lev b row e \<and> answers (Graphene_observe (\<lambda>t. t)) e p = [Request_Cmd (req_addr_vec (snd e)) vrr]"
    "bank_cost b" thr "nat (int (Suc N) * (thr - 1))" for N thr lev vrr b row
  by (rule graphene_tracker) simp

section \<open>OracleRH\<close>

definition table_est :: "int \<Rightarrow> counter_table \<Rightarrow> int" where
  "table_est row t = (case map_of t row of None \<Rightarrow> 0 | Some n \<Rightarrow> n)"

definition oracle_state :: "int \<Rightarrow> nat \<Rightarrow> int \<Rightarrow> nat \<Rightarrow> nat \<Rightarrow> OracleRH \<Rightarrow> bool" where
  "oracle_state thr lev vrr b n p \<longleftrightarrow>
     or_rh_threshold p = thr \<and> or_row_level p = lev \<and> or_vrr_cmd_id p = vrr \<and>
     b < length (or_table p) \<and> (\<forall>e \<in> set (or_table p ! b). 0 \<le> snd e)"

text \<open>An all-bank refresh of the rank of the bank forgets its counts.\<close>

definition oracle_clears :: "nat \<Rightarrow> nat \<Rightarrow> int \<Rightarrow> notice \<Rightarrow> bool" where
  "oracle_clears rank_level b n e \<longleftrightarrow>
     refreshes_all_banks (m_spec (fst e)) (snd e) \<and>
     b \<in> nat ` {req_addr_vec (snd e) ! rank_level * n..(req_addr_vec (snd e) ! rank_level + 1) * n - 1}"

lemma fold_clear:
  "length (fold (\<lambda>i t. t[nat i := v]) is xs) = length xs"
  "b < length xs \<Longrightarrow> fold (\<lambda>i t. t[nat i := v]) is xs ! b = (if b \<in> nat ` set is then v else xs ! b)"
  by (induction "is" arbitrary: xs) (auto simp: nth_list_update)

lemma OracleRH_observe_bank:
  assumes st: "oracle_state thr lev vrr b n p"
  shows "or_table (observing OracleRH_observe e p) ! b =
      (if oracle_clears (or_rank_level p) b (or_num_banks_per_rank p) e then []
       else if activates b e then snd (oracle_count thr (req_addr_vec (snd e) ! lev) (or_table p ! b)) else or_table p ! b)"
    "activates b e \<Longrightarrow> answers OracleRH_observe e p =
      (if fst (oracle_count thr (req_addr_vec (snd e) ! lev) (or_table p ! b)) then [Request_Cmd (req_addr_vec (snd e)) vrr] else [])"
  using st
  by (auto simp: oracle_state_def observing_def answers_def activates_def oracle_clears_def OracleRH_observe_def Let_def
      nth_list_update fold_clear split: prod.splits if_splits)

lemma OracleRH_observe_frame:
  "or_rh_threshold (observing OracleRH_observe e p) = or_rh_threshold p"
  "or_row_level (observing OracleRH_observe e p) = or_row_level p"
  "or_rank_level (observing OracleRH_observe e p) = or_rank_level p"
  "or_num_banks_per_rank (observing OracleRH_observe e p) = or_num_banks_per_rank p"
  "or_vrr_cmd_id (observing OracleRH_observe e p) = or_vrr_cmd_id p"
  "length (or_table (observing OracleRH_observe e p)) = length (or_table p)"
  by (simp_all add: observing_def OracleRH_observe_def Let_def fold_clear split: prod.splits)

lemma oracle_count_est:
  "\<not> (row = k \<and> fst (oracle_count thr row t)) \<Longrightarrow>
   table_est k t + (if row = k then 1 else 0) \<le> table_est k (snd (oracle_count thr row t))"
  "thr \<le> table_est row t + 1 \<Longrightarrow> fst (oracle_count thr row t)"
  by (auto simp: oracle_count_def table_est_def Let_def update_conv' split: option.splits if_splits)

lemma oracle_count_nonneg:
  "\<forall>e \<in> set t. 0 \<le> snd e \<Longrightarrow> \<forall>e \<in> set (snd (oracle_count thr row t)). 0 \<le> snd e"
  by (auto simp: oracle_count_def Let_def dest!: update_entries split: option.splits) (force dest: map_of_SomeD)+

interpretation orh: tracker
    "\<lambda>n p. oracle_state thr lev vrr b n p \<and> or_rank_level p = rl \<and> or_num_banks_per_rank p = nb"
    "observing OracleRH_observe" "\<lambda>p. table_est row (or_table p ! b)" "activates_row lev b row" "oracle_clears rl b nb"
    "\<lambda>e p. activates_row lev b row e \<and> answers OracleRH_observe e p = [Request_Cmd (req_addr_vec (snd e)) vrr]"
    "\<lambda>_. 0" thr "0" for thr lev vrr b rl nb row
proof
  fix n p e assume st: "oracle_state thr lev vrr b n p \<and> or_rank_level p = rl \<and> or_num_banks_per_rank p = nb"
  note o = OracleRH_observe_bank [OF conjunct1 [OF st], where e = e]
  show "oracle_state thr lev vrr b (n + 0) (observing OracleRH_observe e p) \<and>
      or_rank_level (observing OracleRH_observe e p) = rl \<and> or_num_banks_per_rank (observing OracleRH_observe e p) = nb"
    using st oracle_count_nonneg [of "or_table p ! b"] unfolding oracle_state_def OracleRH_observe_frame o(1) by auto
  show "0 \<le> table_est row (or_table p ! b)"
    using st by (auto simp: oracle_state_def table_est_def split: option.splits dest!: map_of_SomeD)
  show "activates_row lev b row e \<and> answers OracleRH_observe e p = [Request_Cmd (req_addr_vec (snd e)) vrr]"
    if "activates_row lev b row e" "thr \<le> table_est row (or_table p ! b) + 1"
    using that o(2) oracle_count_est(2) [of thr row "or_table p ! b"] by (simp add: activates_row_def)
  show "table_est row (or_table p ! b) + (if activates_row lev b row e then 1 else 0) \<le> table_est row (or_table (observing OracleRH_observe e p) ! b)"
    if "\<not> oracle_clears rl b nb e" "\<not> (activates_row lev b row e \<and> answers OracleRH_observe e p = [Request_Cmd (req_addr_vec (snd e)) vrr])"
    using that st o oracle_count_est(1) [of "req_addr_vec (snd e) ! lev" row thr "or_table p ! b"]
    by (auto simp: activates_row_def split: if_splits)
qed

section \<open>TWiCe\<close>

definition twice_est :: "int \<Rightarrow> (int \<times> TwiCeEntry) list \<Rightarrow> int" where
  "twice_est row t = (case map_of t row of None \<Rightarrow> 0 | Some e \<Rightarrow> act_count e)"

definition twice_state :: "int \<Rightarrow> nat \<Rightarrow> int \<Rightarrow> nat \<Rightarrow> TWiCeIdeal \<Rightarrow> bool" where
  "twice_state thr lev vrr b p \<longleftrightarrow>
     tw_rh_threshold p = thr \<and> tw_row_level p = lev \<and> tw_vrr_cmd_id p = vrr \<and>
     b < length (tw_table p) \<and> (\<forall>e \<in> set (tw_table p ! b). 0 \<le> act_count (snd e))"

lemma twice_count_est:
  "\<not> (row = k \<and> fst (twice_count thr row t)) \<Longrightarrow>
   twice_est k t + (if row = k then 1 else 0) \<le> twice_est k (snd (twice_count thr row t))"
  "max 2 thr \<le> twice_est row t + 1 \<Longrightarrow> fst (twice_count thr row t)"
  by (auto simp: twice_count_def twice_est_def Let_def update_conv' delete_conv' split: option.splits if_splits)

lemma twice_count_nonneg:
  "\<forall>e \<in> set t. 0 \<le> act_count (snd e) \<Longrightarrow> \<forall>e \<in> set (snd (twice_count thr row t)). 0 \<le> act_count (snd e)"
  by (auto simp: twice_count_def Let_def dest!: update_entries delete_entries split: option.splits if_splits)
    (force dest: map_of_SomeD)+

lemma TWiCe_observe_bank:
  assumes st: "twice_state thr lev vrr b p"
  shows "tw_table (observing TWiCe_observe e p) ! b =
      (if refreshes_all_banks (m_spec (fst e)) (snd e) then twice_prune (tw_pruning_interval_threshold p) (tw_table p ! b)
       else if activates b e then snd (twice_count thr (req_addr_vec (snd e) ! lev) (tw_table p ! b)) else tw_table p ! b)"
    "activates b e \<Longrightarrow> \<not> refreshes_all_banks (m_spec (fst e)) (snd e) \<Longrightarrow> answers TWiCe_observe e p =
      (if fst (twice_count thr (req_addr_vec (snd e) ! lev) (tw_table p ! b)) then [Request_Cmd (req_addr_vec (snd e)) vrr] else [])"
  using st
  by (auto simp: twice_state_def observing_def answers_def activates_def TWiCe_observe_def Let_def nth_list_update
      split: prod.splits if_splits)

lemma TWiCe_observe_frame:
  "tw_rh_threshold (observing TWiCe_observe e p) = tw_rh_threshold p"
  "tw_row_level (observing TWiCe_observe e p) = tw_row_level p"
  "tw_vrr_cmd_id (observing TWiCe_observe e p) = tw_vrr_cmd_id p"
  "length (tw_table (observing TWiCe_observe e p)) = length (tw_table p)"
  by (simp_all add: observing_def TWiCe_observe_def Let_def split: prod.splits)

text \<open>
  A refresh prunes the table, so the promise of TWiCe is about the time between two
  refreshes; a row is entered without a threshold test, so a threshold below 2 acts as 2.
  A command that opens a row does not refresh all banks.
\<close>

interpretation twice: tracker "\<lambda>_. twice_state thr lev vrr b" "observing TWiCe_observe" "\<lambda>p. twice_est row (tw_table p ! b)"
    "\<lambda>e. activates_row lev b row e \<and> \<not> refreshes_all_banks (m_spec (fst e)) (snd e)"
    "\<lambda>e. refreshes_all_banks (m_spec (fst e)) (snd e)"
    "\<lambda>e p. activates_row lev b row e \<and> answers TWiCe_observe e p = [Request_Cmd (req_addr_vec (snd e)) vrr]"
    "\<lambda>_. 0" "max 2 thr" "0" for thr lev vrr b row
proof
  fix n p e assume st: "twice_state thr lev vrr b p"
  note o = TWiCe_observe_bank [OF st, where e = e]
  have pr: "\<forall>e \<in> set (twice_prune q (tw_table p ! b)). 0 \<le> act_count (snd e)" for q
    using st by (auto simp: twice_state_def twice_prune_def)
  show "twice_state thr lev vrr b (observing TWiCe_observe e p)"
    using st twice_count_nonneg [of "tw_table p ! b"] pr unfolding twice_state_def TWiCe_observe_frame o(1) by auto
  show "0 \<le> twice_est row (tw_table p ! b)"
    using st by (auto simp: twice_state_def twice_est_def split: option.splits dest!: map_of_SomeD)
  show "activates_row lev b row e \<and> answers TWiCe_observe e p = [Request_Cmd (req_addr_vec (snd e)) vrr]"
    if "activates_row lev b row e \<and> \<not> refreshes_all_banks (m_spec (fst e)) (snd e)" "max 2 thr \<le> twice_est row (tw_table p ! b) + 1"
    using that o(2) twice_count_est(2) [of thr row "tw_table p ! b"] by (simp add: activates_row_def)
  show "twice_est row (tw_table p ! b) + (if activates_row lev b row e \<and> \<not> refreshes_all_banks (m_spec (fst e)) (snd e) then 1 else 0)
      \<le> twice_est row (tw_table (observing TWiCe_observe e p) ! b)"
    if "\<not> refreshes_all_banks (m_spec (fst e)) (snd e)"
      "\<not> (activates_row lev b row e \<and> answers TWiCe_observe e p = [Request_Cmd (req_addr_vec (snd e)) vrr])"
    using that o twice_count_est(1) [of "req_addr_vec (snd e) ! lev" row thr "tw_table p ! b"]
    by (auto simp: activates_row_def split: if_splits)
qed

end
