(* ===== verification/Rfm_Targets.thy ===== *)
theory Rfm_Targets
  imports Row_Hammer Controller_Device
begin

text \<open>
  Refresh management reaches the bank that asked for it: the address that the manager builds
  for its mode, with the levels the command spans set to -1, makes the device apply the
  command to the bank whose activation caused it. With that, the manager's counters are a
  tracker of the activations since a bank was last covered.
\<close>

section \<open>The nodes on the way to a bank\<close>

lemma chain_build:
  "p \<in> set (level_paths (sizes_of sp) l k) \<Longrightarrow> l + k < last_level \<Longrightarrow>
   map node_key (chain_to (build_node sp last_level l nid) p) = (l, nid) # map (\<lambda>j. (l + 1 + j, int (p ! j))) [0..<length p]"
proof (induction k arbitrary: l nid p)
  case 0
  then show ?case by (subst build_node_eq) simp
next
  case (Suc k)
  then obtain i q where p: "p = i # q" "i < sizes_of sp (Suc l)" "q \<in> set (level_paths (sizes_of sp) (Suc l) k)" by auto
  have c: "m_child_nodes (build_node sp last_level l nid) = map (\<lambda>i. build_node sp last_level (Suc l) (int i)) [0..<sizes_of sp (Suc l)]"
    using Suc.prems(2) by (simp add: build_node_children)
  from Suc.IH [OF p(3), of "int i"] Suc.prems(2)
  have "map node_key (chain_to (build_node sp last_level (Suc l) (int i)) q) =
    (Suc l, int i) # map (\<lambda>j. (l + 2 + j, int (q ! j))) [0..<length q]" by simp
  then show ?case
    by (subst build_node_eq) (simp add: p(1,2) c map_upt_Suc del: upt_Suc)
qed

abbreviation root_id :: "DRAMDevice \<Rightarrow> int" where
  "root_id dev \<equiv> m_node_id (node_data (m_root dev))"

definition chains_ok :: "DRAMDevice \<Rightarrow> bool" where
  "chains_ok dev \<longleftrightarrow> (\<forall>p \<in> set (m_bank_nodes dev).
     map node_key (chain_to (m_root dev) p) = (0, root_id dev) # map (\<lambda>j. (1 + j, int (p ! j))) [0..<length p])"

lemma chain_root: "\<exists>ds. chain_to n p = node_data n # ds"
  by (cases n; cases p) auto

lemma chain_renumber:
  "map node_key (chain_to (modify_at [] (\<lambda>d. d\<lparr>m_node_id := ch\<rparr>) n) p) =
   (fst (hd (map node_key (chain_to n p))), ch) # tl (map node_key (chain_to n p))"
  by (cases n; cases p) auto

lemma chains_ok_shape:
  assumes "chains_ok dev" "same_shape (m_root dev) (m_root dev')" "m_bank_nodes dev' = m_bank_nodes dev"
  shows "chains_ok dev'"
proof -
  have "node_at n [] = Some (node_data n)" for n by (cases n) simp
  then have r: "root_id dev' = root_id dev" using assms(2) by (auto simp: same_shape_def dest: spec [where x = "[]"])
  show ?thesis using assms(1,3) same_shape_chain [OF assms(2)] by (simp add: chains_ok_def r)
qed

lemma device_reachable_chains:
  assumes ok: "standard_ok s" and of: "of_standard s sp"
  shows "device_reachable s sp dev \<Longrightarrow> chains_ok dev"
proof (induction rule: device_reachable.induct)
  have i: "chains_ok dev" if "device_init sp = Inr dev" for dev
  proof -
    from device_init_ok [OF ok of] that have d: "m_spec dev = sp" "banks_ok dev"
      "m_root dev = build_node sp (Suc (m_bank_level dev)) 0 0" by auto
    have "root_id dev = 0" unfolding d(3) by (subst build_node_eq) simp
    with chain_build [of _ sp 0 "m_bank_level dev" "Suc (m_bank_level dev)" 0] d show ?thesis
      by (simp add: chains_ok_def banks_ok_def)
  qed
  {
    case (init dev)
    then show ?case by (rule i)
  next
    case (numbered dev ch)
    from i [OF numbered] have "map node_key (chain_to (m_root (device_set_channel_id ch dev)) p) =
        (0, ch) # map (\<lambda>j. (1 + j, int (p ! j))) [0..<length p]" if "p \<in> set (m_bank_nodes dev)" for p
      using that by (simp add: chains_ok_def device_set_channel_id_def chain_renumber)
    moreover have "root_id (device_set_channel_id ch dev) = ch"
      by (cases "m_root dev") (simp add: device_set_channel_id_def)
    ultimately show ?case by (simp add: chains_ok_def)
  next
    case (issue dev fin av clk c)
    from device_reachable_inv [OF ok of issue(1)] of have o: "of_standard s (m_spec dev)" by simp
    show ?case
      by (rule chains_ok_shape [OF issue.IH issue_command_shape [OF o get_preq_command_less [OF ok o issue(2,3)]]]) simp
  }
qed

section \<open>Well-addressed notices\<close>

text \<open>
  A command the controller issued on its own channel: the device is one the channel can
  reach, and the address names the channel and an existing bank.
\<close>

definition addressed :: "dram_standard \<Rightarrow> DRAMSpec \<Rightarrow> notice \<Rightarrow> bool" where
  "addressed s sp e \<longleftrightarrow> device_reachable s sp (fst e) \<and> bank_in_range (fst e) (req_addr_vec (snd e)) \<and>
     req_addr_vec (snd e) ! 0 = m_node_id (node_data (m_root (fst e)))"

lemma addressed_bank_matches:
  assumes ok: "standard_ok s" and of: "of_standard s sp" and a: "addressed s sp (dev, req)"
    and v: "\<And>l. l \<le> m_bank_level dev \<Longrightarrow> v ! l = -1 \<or> v ! l = req_addr_vec req ! l"
  shows "bank_matches dev (m_bank_nodes dev ! bank_of dev req) v" "bank_of dev req < length (m_bank_nodes dev)"
    "\<exists>d. node_at (m_root dev) (m_bank_nodes dev ! bank_of dev req) = Some d \<and> m_node_id d = req_addr_vec req ! m_bank_level dev"
proof -
  let ?av = "req_addr_vec req" and ?p = "bank_path dev (req_addr_vec req)" and ?b = "m_bank_level dev"
  from a have r: "device_reachable s sp dev" and ir: "bank_in_range dev ?av" and r0: "?av ! 0 = root_id dev" by (simp_all add: addressed_def)
  from device_reachable_inv [OF ok of r] have bo: "banks_ok dev" and leg: "device_legal s dev" by simp_all
  note fp = flat_bank_position [OF bo ir]
  have p: "m_bank_nodes dev ! bank_of dev req = ?p" using fp(3) by (simp add: bank_of_def)
  show len: "bank_of dev req < length (m_bank_nodes dev)" using fp(2) by (simp add: bank_of_def)
  have mem: "?p \<in> set (m_bank_nodes dev)" using nth_mem [OF len] p by simp
  have nth: "length ?p = ?b" "int (?p ! j) = ?av ! (1 + j)" if "j < ?b" for j
    using bank_in_rangeD(1) [OF ir, of "1 + j"] that by (simp_all add: bank_path_def del: upt_Suc)
  have b0: "0 < ?b" using device_reachable_level [OF ok of r] level_ids(4) [OF ok of] by simp
  note nl = nth(1) [OF b0]
  have keys: "map node_key (chain_to (m_root dev) ?p) = (0, ?av ! 0) # map (\<lambda>j. (1 + j, ?av ! (1 + j))) [0..<?b]"
    using device_reachable_chains [OF ok of r] mem nth(2) by (simp add: chains_ok_def r0 nl)
  show "bank_matches dev (m_bank_nodes dev ! bank_of dev req) v"
    unfolding p bank_matches_chain keys using v by (auto simp: list_all_iff)
  from leg mem obtain d where d: "node_at (m_root dev) ?p = Some d" by (auto simp: device_legal_def)
  have last: "node_at n q = Some d \<Longrightarrow> last (chain_to n q) = d \<and> chain_to n q \<noteq> []" for n q
    by (induction n q rule: chain_to.induct) (auto split: if_splits)
  have "node_key d = last (map node_key (chain_to (m_root dev) ?p))" using last [OF d] by (simp add: last_map)
  also have "\<dots> = (?b, ?av ! ?b)" unfolding keys using b0 by (simp add: last_map)
  finally show "\<exists>d. node_at (m_root dev) (m_bank_nodes dev ! bank_of dev req) = Some d \<and> m_node_id d = ?av ! ?b"
    using d p by simp
qed

section \<open>The address of the request\<close>

text \<open>What \<^verbatim>\<open>setup\<close> fixes.\<close>

definition rfm_config :: "dram_standard \<Rightarrow> RFMManager \<Rightarrow> bool" where
  "rfm_config s p \<longleftrightarrow>
     (rfm_mode p = ''ab'' \<and> CommandImpls s ! rfm_cmd_id p = K_RFMab \<or>
      rfm_mode p = ''sb'' \<and> CommandImpls s ! rfm_cmd_id p = K_RFMsb \<or>
      rfm_mode p = ''pb'' \<and> CommandImpls s ! rfm_cmd_id p = K_RFMpb) \<and>
     rfm_cmd_id p < length (CommandImpls s) \<and> rfm_bankgroup_level p \<noteq> Some (enum_index (enum_Level s) ''Bank'')"

lemma number_names_mem:
  assumes "distinct ns" "number_names 0 Map.empty ns n = Some i"
  shows "ns ! i = n"
proof -
  have "n \<in> set ns" using assms(2) number_names_other [of n ns 0 Map.empty] by (cases "n \<in> set ns") simp_all
  then obtain k where "k < length ns" "ns ! k = n" by (auto simp: in_set_conv_nth)
  with number_names_nth [OF assms(1), of k 0 Map.empty] assms(2) show ?thesis by simp
qed

lemma RFM_setup_config:
  assumes ok: "standard_ok s" and of: "of_standard s (m_spec dev)" and i: "RFM_setup thresh mode dev = Inr p"
  shows "rfm_config s p"
proof -
  let ?b = "enum_index (enum_Level s) ''Bank''"
  have "names_ok s" using ok by (simp add: standard_ok_def)
  then have dist: "distinct (enum_Level s)" unfolding names_ok_def by (elim conjE)
  have "levels (m_spec dev) ''BankGroup'' \<noteq> Some ?b"
  proof
    assume "levels (m_spec dev) ''BankGroup'' = Some ?b"
    with number_names_mem [OF dist] of have "enum_Level s ! ?b = ''BankGroup''"
      by (simp add: of_standard_def)
    moreover have "levels (m_spec dev) ''Bank'' = Some ?b" using level_ids(1) [OF ok of] by (auto simp: get_level_id_def split: option.splits)
    with number_names_mem [OF dist] of have "enum_Level s ! ?b = ''Bank''"
      by (simp add: of_standard_def)
    ultimately show False by simp
  qed
  with i command_id_kinds(9-14) [OF ok of] show ?thesis
    by (auto simp: RFM_setup_def RFM_init_def rfm_config_def Let_def bindR_eq_Inr_iff split: if_splits)
qed

lemma rfm_addr_wildcards: "rfm_addr p av ! l = -1 \<or> rfm_addr p av ! l = av ! l"
proof -
  have u: "a[k := -1] ! l = -1 \<or> a[k := -1] ! l = a ! l" for a :: AddrVec_t and k
    by (cases "k < length a") (auto simp: nth_list_update list_update_beyond)
  have f: "fold (\<lambda>k a. a[k := -1]) ks a ! l = -1 \<or> fold (\<lambda>k a. a[k := -1]) ks a ! l = a ! l" for ks and a :: AddrVec_t
  proof (induction ks arbitrary: a)
    case (Cons k ks)
    from Cons.IH [of "a[k := -1]"] u [of a k] show ?case by auto
  qed simp
  let ?av1 = "if rfm_mode p = ''ab'' \<or> rfm_mode p = ''sb''
      then (case rfm_bankgroup_level p of None \<Rightarrow> av | Some bg \<Rightarrow> av[bg := -1]) else av"
  have "?av1 ! l = -1 \<or> ?av1 ! l = av ! l" using u by (simp split: option.splits)
  with f [of "[rfm_all_bank_scope_level p + 1..<rfm_bank_level p + 1]" ?av1] show ?thesis
    unfolding rfm_addr_def Let_def by (cases "rfm_mode p = ''ab''") auto
qed

lemma rfm_addr_targets:
  assumes ok: "standard_ok s" and of: "of_standard s sp" and cf: "rfm_config s p" and a: "addressed s sp (dev, req)"
  shows "bank_of dev req \<in> nat ` set (get_target_banks dev (rfm_cmd_id p) (rfm_addr p (req_addr_vec req)))"
proof -
  let ?v = "rfm_addr p (req_addr_vec req)"
  from a have r: "device_reachable s sp dev" by (simp add: addressed_def)
  with device_reachable_inv [OF ok of] have sp: "m_spec dev = sp" by blast
  note m = addressed_bank_matches [OF ok of a rfm_addr_wildcards]
  have tg: "bank_targets sp ! rfm_cmd_id p = impl_bank_target (kind_at s (rfm_cmd_id p))"
    using of cf by (simp add: of_standard_def rfm_config_def)
  have k: "impl_bank_target (kind_at s c) = (if CommandImpls s ! c = K_RFMab then BT_All else if CommandImpls s ! c = K_RFMsb then BT_SameBank else BT_Single)"
    if "CommandImpls s ! c \<in> {K_RFMab, K_RFMsb, K_RFMpb}" for c
    using that by (auto simp: kind_at_def cmd_defs)
  consider "rfm_mode p = ''ab''" "CommandImpls s ! rfm_cmd_id p = K_RFMab"
    | "rfm_mode p = ''sb''" "CommandImpls s ! rfm_cmd_id p = K_RFMsb"
    | "rfm_mode p = ''pb''" "CommandImpls s ! rfm_cmd_id p = K_RFMpb"
    using cf by (auto simp: rfm_config_def)
  then show ?thesis
  proof cases
    case 1
    with m tg k sp show ?thesis by (auto simp: get_target_banks_def image_iff)
  next
    case 2
    then have "?v ! m_bank_level dev = req_addr_vec req ! m_bank_level dev"
      using cf device_reachable_level [OF ok of r] by (auto simp: rfm_addr_def rfm_config_def split: option.splits)
    with 2 m tg k sp show ?thesis by (auto simp: get_target_banks_def image_iff)
  next
    case 3
    then have "?v = req_addr_vec req" by (simp add: rfm_addr_def)
    with 3 tg k sp show ?thesis by (simp add: get_target_banks_def bank_of_def)
  qed
qed

section \<open>The tracker\<close>

definition rfm_state :: "dram_standard \<Rightarrow> int \<Rightarrow> nat \<Rightarrow> RFMManager \<Rightarrow> bool" where
  "rfm_state s thr b p \<longleftrightarrow> rfm_config s p \<and> rfm_thresh p = thr \<and> b < length (rfm_bank_ctrs p) \<and> 0 \<le> rfm_bank_ctrs p ! b"

text \<open>The plugin asks for a refresh management that the device applies to the bank.\<close>

definition rfm_covers :: "nat \<Rightarrow> notice \<Rightarrow> RFMManager \<Rightarrow> bool" where
  "rfm_covers b e p \<longleftrightarrow>
     (\<exists>av. answers RFM_observe e p = [Request_Cmd av (int (rfm_cmd_id p))] \<and>
       b \<in> nat ` set (get_target_banks (fst e) (rfm_cmd_id p) av))"

lemma Request_Cmd_inject: "Request_Cmd av c = Request_Cmd av' c' \<longleftrightarrow> av = av' \<and> c = c'"
proof
  assume "Request_Cmd av c = Request_Cmd av' c'"
  from arg_cong [OF this, of req_addr_vec] arg_cong [OF this, of req_final_command] show "av = av' \<and> c = c'"
    by (simp add: Request_Cmd_def)
qed simp

lemma RFM_observe_bank:
  assumes st: "rfm_state s thr b p"
  shows "rfm_bank_ctrs (observing RFM_observe e p) ! b =
      (if rfm_covers b e p then 0 else rfm_bank_ctrs p ! b + (if activates b e then 1 else 0))"
    "activates b e \<Longrightarrow> thr \<le> rfm_bank_ctrs p ! b + 1 \<Longrightarrow>
     answers RFM_observe e p = [Request_Cmd (rfm_addr p (req_addr_vec (snd e))) (int (rfm_cmd_id p))]"
  using st
  by (auto simp: rfm_state_def observing_def answers_def activates_def rfm_covers_def RFM_observe_def Let_def
      nth_list_update fold_clear Request_Cmd_inject)

lemma RFM_observe_frame:
  "rfm_thresh (observing RFM_observe e p) = rfm_thresh p" "rfm_cmd_id (observing RFM_observe e p) = rfm_cmd_id p"
  "rfm_config s (observing RFM_observe e p) = rfm_config s p"
  "length (rfm_bank_ctrs (observing RFM_observe e p)) = length (rfm_bank_ctrs p)"
  by (simp_all add: observing_def RFM_observe_def Let_def fold_clear rfm_config_def)

lemma rfm_tracker:
  assumes ok: "standard_ok s" and of: "of_standard s sp"
  shows "tracker (\<lambda>_. rfm_state s thr b) (observing RFM_observe) (\<lambda>p. rfm_bank_ctrs p ! b)
    (\<lambda>e. activates b e \<and> addressed s sp e) (\<lambda>_. False) (rfm_covers b) (\<lambda>_. 0) thr 0"
proof
  fix n p e assume st: "rfm_state s thr b p"
  note o = RFM_observe_bank [OF st, where e = e]
  show "rfm_state s thr b (observing RFM_observe e p)"
    using st unfolding rfm_state_def RFM_observe_frame o(1) by auto
  show "0 \<le> rfm_bank_ctrs p ! b" using st by (simp add: rfm_state_def)
  show "rfm_bank_ctrs p ! b + (if activates b e \<and> addressed s sp e then 1 else 0) \<le> rfm_bank_ctrs (observing RFM_observe e p) ! b"
    if "\<not> rfm_covers b e p"
    using that o(1) by simp
  show "rfm_covers b e p" if h: "activates b e \<and> addressed s sp e" "thr \<le> rfm_bank_ctrs p ! b + 1"
  proof -
    have "bank_of (fst e) (snd e) = b" using h(1) by (simp add: activates_def)
    with rfm_addr_targets [OF ok of, of p "fst e" "snd e"] st h(1) o(2) h(2) show ?thesis
      by (auto simp: rfm_covers_def rfm_state_def)
  qed
qed

end
