(* ===== verification/Plugin_Properties.thy ===== *)
theory Plugin_Properties
  imports Row_Hammer Rfm_Targets Device_Properties
begin

text \<open>
  The promises of the row-hammer plugins, from the state \<^verbatim>\<open>setup\<close> leaves: every window of
  issued commands that activates a row (or a bank) as often as the threshold says contains
  the maintenance request the plugin is there to send.
\<close>

section \<open>Runs of the plugins\<close>

text \<open>
  The states of Graphene: set up, then issued commands and cycles in any order. A state is
  fresh when all counters are zero, as after \<^verbatim>\<open>setup\<close> and after a periodic reset.
\<close>

inductive graphene_run :: "(counter_table \<Rightarrow> counter_table) \<Rightarrow> DRAMDevice \<Rightarrow> int \<Rightarrow> int \<Rightarrow> int \<Rightarrow> Graphene \<Rightarrow> bool"
  for iter dev entries thr period where
  start: "Graphene_setup entries thr period dev = Inr p \<Longrightarrow> graphene_run iter dev entries thr period p"
| issued: "graphene_run iter dev entries thr period p \<Longrightarrow>
    graphene_run iter dev entries thr period (observing (Graphene_observe iter) e p)"
| cycle: "graphene_run iter dev entries thr period p \<Longrightarrow> graphene_run iter dev entries thr period (Graphene_pre_schedule p)"

definition graphene_fresh :: "Graphene \<Rightarrow> bool" where
  "graphene_fresh p \<longleftrightarrow>
     list_all (list_all (\<lambda>e. snd e = 0)) (gr_activation_count_table p) \<and> list_all (\<lambda>n. n = 0) (gr_spillover_counter p)"

lemma graphene_bank_reset:
  "graphene_bank N n s \<Longrightarrow> graphene_bank N 0 (map (\<lambda>(row, _). (row, 0)) (fst s), 0)"
  by (auto simp: graphene_bank_def comp_def case_prod_unfold sum_list_eq_0_iff)

lemma graphene_run_state:
  assumes it: "\<And>t. set (iter t) = set t" and b: "b < length (m_bank_nodes dev)"
  shows "graphene_run iter dev entries thr period p \<Longrightarrow>
    \<exists>n. gr_state (nat entries) thr (gr_row_level p) (gr_vrr_cmd_id p) b n p"
proof (induction rule: graphene_run.induct)
  case (start p)
  then show ?case using b
    by (auto simp: Graphene_setup_def Let_def bindR_eq_Inr_iff gr_state_def gr_bank_def graphene_bank_def dummy_table_def comp_def
        sum_list_eq_0_iff)
next
  case (issued p e)
  then obtain n where n: "gr_state (nat entries) thr (gr_row_level p) (gr_vrr_cmd_id p) b n p" by blast
  from tracker.inv_step [OF graphene_tracker [OF it], OF n, of e] show ?case unfolding Graphene_observe_frame by blast
next
  case (cycle p)
  then obtain n where n: "gr_state (nat entries) thr (gr_row_level p) (gr_vrr_cmd_id p) b n p" by blast
  then have "graphene_bank (nat entries) 0 (map (\<lambda>(row, _). (row, 0)) (gr_activation_count_table p ! b), 0)"
    using graphene_bank_reset [of "nat entries" n "gr_bank b p"] by (simp add: gr_state_def gr_bank_def)
  with n show ?case by (auto simp: gr_state_def gr_bank_def Graphene_pre_schedule_def Let_def)
qed

lemma zero_counts: "\<forall>e \<in> set t. snd e = 0 \<Longrightarrow> sum_list (map snd t) = (0 :: int)"
  by (induction t) auto

lemma graphene_fresh_state:
  assumes "graphene_fresh p" "gr_state N thr lev vrr b n p"
  shows "gr_state N thr lev vrr b 0 p"
proof -
  from assms have "\<forall>e \<in> set (gr_activation_count_table p ! b). snd e = 0" "gr_spillover_counter p ! b = 0"
    by (auto simp: graphene_fresh_def list_all_iff gr_state_def)
  moreover from this(1) have "sum_list (map snd (gr_activation_count_table p ! b)) = 0" by (rule zero_counts)
  ultimately show ?thesis using assms(2) by (simp add: gr_state_def graphene_bank_def gr_bank_def)
qed

lemma bank_cost_filter: "sum_list (map (bank_cost b) es) = length (filter (activates b) es)"
  by (induction es) (simp_all add: bank_cost_def)

text \<open>
  An example device for the witnesses: DDR5 with victim-row refresh, one rank of two bank
  groups with two banks each, and a repeated activation of one row of its first bank.
\<close>

definition vrr_dev :: DRAMDevice where
  "vrr_dev = (let sp = populate_commands (map (\<lambda>k. impl_of k (env_of DDR5_VRR)) (CommandImpls DDR5_VRR))
       ((static_spec DDR5_VRR)\<lparr>organization := \<lparr>dq = 8, level_sizes = [1, 1, 2, 2, 16, 64]\<rparr>\<rparr>)
     in \<lparr>m_spec = sp, m_root = build_node sp 4 0 0, m_bank_nodes = [[0, 0, 0], [0, 0, 1], [0, 1, 0], [0, 1, 1]],
         m_bank_level = 3\<rparr>)"

definition vrr_act :: notice where
  "vrr_act = (vrr_dev, (Request_Cmd [0, 0, 0, 0, 5, 0] 3)\<lparr>req_command := 0\<rparr>)"

lemma vrr_act_activates: "activates_row 4 0 5 vrr_act" "\<not> refreshes_all_banks (m_spec (fst vrr_act)) (snd vrr_act)"
  by code_simp+

section \<open>The promises\<close>

text \<open>Property C32. Graphene protects every row: when at most (entries + 1) * (threshold - 1)
  activations of a bank fall into a reset period, a window of that period that activates a row
  as often as the threshold contains a victim-row refresh for that row, wherever the window
  starts, whatever the other rows do and in whatever order the table is iterated.\<close>

theorem Graphene_protects:
  assumes "\<forall>t. set (iter t) = set t" "graphene_run iter dev entries thr period p" "graphene_fresh p"
    and "b < length (m_bank_nodes dev)" "0 \<le> entries" "0 < thr"
    and "int (length (filter (activates b) (es1 @ es2))) \<le> (entries + 1) * (thr - 1)"
    and "thr \<le> int (length (filter (activates_row (gr_row_level p) b row) es2))"
  shows "\<exists>pre e post. es2 = pre @ e # post \<and> activates_row (gr_row_level p) b row e \<and>
    fst (Graphene_observe iter (fst e) (snd e) (fold (observing (Graphene_observe iter)) (es1 @ pre) p)) =
      [Request_Cmd (req_addr_vec (snd e)) (gr_vrr_cmd_id p)]"
proof -
  have it: "\<And>t. set (iter t) = set t" using assms(1) by blast
  from graphene_run_state [OF it assms(4,2)] graphene_fresh_state [OF assms(3)]
  have st: "gr_state (nat entries) thr (gr_row_level p) (gr_vrr_cmd_id p) b 0 p" by blast
  have bu: "sum_list (map (bank_cost b) (es1 @ es2)) \<le> nat (int (Suc (nat entries)) * (thr - 1))"
    using assms(5,7) unfolding bank_cost_filter by (simp add: algebra_simps)
  from tracker.window [OF graphene_tracker [OF it] st bu _ assms(8,6)] show ?thesis by (auto simp: answers_def)
qed

lemma vrr_graphene:
  "Graphene_setup 1 2 100 vrr_dev = Inr \<lparr>gr_clk = 0, gr_num_table_entries = 1, gr_activation_threshold = 2,
     gr_reset_period_clk = 100, gr_vrr_cmd_id = 12, gr_row_level = 4,
     gr_activation_count_table = [[(-16, 0)], [(-16, 0)], [(-16, 0)], [(-16, 0)]], gr_spillover_counter = [0, 0, 0, 0]\<rparr>"
  by code_simp

theorem Graphene_protects_witness:
  "\<exists>p. Graphene_setup 1 2 100 vrr_dev = Inr p \<and> (\<exists>pre e post. [vrr_act, vrr_act] = pre @ e # post \<and> activates_row 4 0 5 e \<and>
     fst (Graphene_observe rev (fst e) (snd e) (fold (observing (Graphene_observe rev)) ([] @ pre) p)) =
       [Request_Cmd (req_addr_vec (snd e)) 12])"
proof -
  obtain p where p: "Graphene_setup 1 2 100 vrr_dev = Inr p" "gr_row_level p = 4" "gr_vrr_cmd_id p = 12" "graphene_fresh p"
    by (rule that [OF vrr_graphene]) (simp_all add: graphene_fresh_def)
  have b: "0 < length (m_bank_nodes vrr_dev)" by (simp add: vrr_dev_def Let_def)
  have a: "activates 0 vrr_act" using vrr_act_activates(1) by (simp add: activates_row_def)
  from Graphene_protects [of rev vrr_dev 1 2 100 p 0 "[]" "[vrr_act, vrr_act]" 5] p b a vrr_act_activates graphene_run.start [OF p(1)]
  show ?thesis by simp
qed

text \<open>Property C33. OracleRH protects every row exactly: any window of issued commands that activates a
  row tRH times, without an all-bank refresh of its rank in between, contains a victim-row
  refresh for that row.\<close>

theorem OracleRH_protects:
  assumes "OracleRH_setup tRH dev = Inr p" "b < length (m_bank_nodes dev)" "0 < tRH"
    and "\<forall>e \<in> set es2. \<not> oracle_clears (or_rank_level p) b (or_num_banks_per_rank p) e"
    and "tRH \<le> int (length (filter (activates_row (or_row_level p) b row) es2))"
  shows "\<exists>pre e post. es2 = pre @ e # post \<and> activates_row (or_row_level p) b row e \<and>
    fst (OracleRH_observe (fst e) (snd e) (fold (observing OracleRH_observe) (es1 @ pre) p)) =
      [Request_Cmd (req_addr_vec (snd e)) (or_vrr_cmd_id p)]"
proof -
  have st: "oracle_state tRH (or_row_level p) (or_vrr_cmd_id p) b 0 p"
    using assms(1,2) by (auto simp: OracleRH_setup_def Let_def bindR_eq_Inr_iff oracle_state_def)
  with orh.window [where ?es1.0 = es1, OF _ _ assms(4,5,3)] show ?thesis by (auto simp: answers_def)
qed

theorem OracleRH_protects_witness:
  "\<exists>p. OracleRH_setup 2 vrr_dev = Inr p \<and> (\<exists>pre e post. [vrr_act, vrr_act] = pre @ e # post \<and> activates_row 4 0 5 e \<and>
     fst (OracleRH_observe (fst e) (snd e) (fold (observing OracleRH_observe) ([vrr_act] @ pre) p)) =
       [Request_Cmd (req_addr_vec (snd e)) 12])"
proof -
  have s: "OracleRH_setup 2 vrr_dev = Inr \<lparr>or_rh_threshold = 2, or_vrr_cmd_id = 12, or_rank_level = 1, or_row_level = 4,
      or_num_banks_per_rank = 4, or_table = [[], [], [], []]\<rparr>" by code_simp
  obtain p where p: "OracleRH_setup 2 vrr_dev = Inr p" "or_row_level p = 4" "or_vrr_cmd_id p = 12"
    by (rule that [OF s]) simp_all
  have b: "0 < length (m_bank_nodes vrr_dev)" by (simp add: vrr_dev_def Let_def)
  have "\<not> oracle_clears r 0 n vrr_act" for r n using vrr_act_activates(2) by (simp add: oracle_clears_def)
  with OracleRH_protects [of 2 vrr_dev p 0 "[vrr_act, vrr_act]" 5 "[vrr_act]"] p b vrr_act_activates show ?thesis by simp
qed

text \<open>Property C34. The refresh manager keeps up with every bank: any window of issued commands with as
  many activations of a bank as the threshold contains a refresh-management request whose
  target banks, as the device works them out from the request's command and address, include
  that bank. This holds in each of the three modes (all banks, same bank, single bank), for
  activations that address existing banks of the manager's own channel.\<close>

theorem RFM_keeps_up:
  assumes "registry name = Some s" "create name cfg = Inr sp" "device_init sp = Inr dev"
    and "RFM_setup thresh mode dev = Inr p" "b < length (m_bank_nodes dev)" "0 < thresh"
    and "\<forall>e \<in> set es2. activates b e \<longrightarrow> addressed s sp e"
    and "thresh \<le> int (length (filter (activates b) es2))"
  shows "\<exists>pre e post q av. es2 = pre @ e # post \<and> q = fold (observing RFM_observe) (es1 @ pre) p \<and>
    fst (RFM_observe (fst e) (snd e) q) = [Request_Cmd av (int (rfm_cmd_id q))] \<and>
    b \<in> nat ` set (get_target_banks (fst e) (rfm_cmd_id q) av)"
proof -
  obtain sp1 where ok: "standard_ok s" and of: "of_standard s sp" by (rule create_facts [OF assms(1,2)])
  from device_init_ok [OF ok of] assms(3) have "of_standard s (m_spec dev)" using of by auto
  from RFM_setup_config [OF ok this assms(4)] have st: "rfm_state s thresh b p"
    using assms(4,5) by (auto simp: RFM_setup_def Let_def bindR_eq_Inr_iff rfm_state_def split: if_splits)
  have f: "filter (\<lambda>e. activates b e \<and> addressed s sp e) es2 = filter (activates b) es2"
    by (rule filter_cong) (use assms(7) in auto)
  from tracker.window [OF rfm_tracker [OF ok of], where ?es1.0 = es1 and ?es2.0 = es2, OF st, unfolded f, OF _ _ assms(8,6)]
  show ?thesis by (auto simp: rfm_covers_def answers_def)
qed

text \<open>A DDR5 device with two bank groups of two banks, and an activation of its third bank, bank 0 of group 1.\<close>

definition rfm_cfg :: DramConfig where
  "rfm_cfg = \<lparr>cfg_channel_width = 32, cfg_data_payload_bytes = None, cfg_dq = 8, cfg_count = [1, 1, 2, 2, 16, 64],
     cfg_timing = replicate 32 4, cfg_command_cycles = None, cfg_read_latency = 15, cfg_timing_constraints = []\<rparr>"

definition rfm_act :: Request where
  "rfm_act = (Request_Cmd [0, 0, 1, 0, 5, 0] 4)\<lparr>req_command := 0\<rparr>"

lemma rfm_device:
  obtains sp dev p where "registry ''DDR5'' = Some DDR5" "create ''DDR5'' rfm_cfg = Inr sp" "device_init sp = Inr dev"
    "RFM_setup 2 ''sb'' dev = Inr p" "2 < length (m_bank_nodes dev)" "activates 2 (dev, rfm_act)" "addressed DDR5 sp (dev, rfm_act)"
proof -
  have reg: "registry ''DDR5'' = Some DDR5" by (simp add: registry_def all_standards_def standard_defs)
  obtain sp where sp: "create ''DDR5'' rfm_cfg = Inr sp" "standard_ok DDR5" "of_standard DDR5 sp"
    "level_sizes (organization sp) = [1, 1, 2, 2, 16, 64]"
    by (rule unconstrained_create [OF reg, of rfm_cfg]) (auto simp: rfm_cfg_def)
  have n: "number_names 0 Map.empty (enum_Command DDR5) ''RFMsb'' = Some 11"
    "number_names 0 Map.empty (enum_Level DDR5) ''Rank'' = Some 1" "CommandImpls DDR5 ! 0 = K_ACT"
    "enum_index (enum_Level DDR5) ''Bank'' = 3" "0 < length (CommandImpls DDR5)"
    by (simp_all add: DDR5_def enum_index_def)
  from device_init_ok [OF sp(2,3)] obtain dev where dev: "device_init sp = Inr dev" "m_spec dev = sp" "banks_ok dev"
    "m_bank_level dev = 3" "m_root dev = build_node sp 4 0 0" by (auto simp: n)
  have "\<exists>p. RFM_setup 2 ''sb'' dev = Inr p"
    using sp(3) n level_ids(1,2) [OF sp(2,3)]
    by (simp add: RFM_setup_def RFM_init_def Let_def dev(2) has_command_def has_level_def get_command_id_def get_level_id_def of_standard_def)
  then obtain p where p: "RFM_setup 2 ''sb'' dev = Inr p" ..
  have u: "[1..<4] = [1, 2, 3 :: nat]" by (simp add: upt_rec)
  have fl: "get_flat_bank_id dev (req_addr_vec rfm_act) = 2"
    by (simp add: get_flat_bank_id_def dev(2,4) sp(4) u rfm_act_def Request_Cmd_def eval_nat_numeral)
  have ir: "bank_in_range dev (req_addr_vec rfm_act)"
    by (auto simp: bank_in_range_def dev(2,4) sp(4) rfm_act_def Request_Cmd_def eval_nat_numeral atLeastAtMostSuc_conv)
  have "opens_one_bank sp rfm_act"
    using sp(3) n(3,5) by (auto simp: opens_one_bank_def rfm_act_def of_standard_def kind_at_def cmd_defs)
  then have "activates 2 (dev, rfm_act)" using fl by (simp add: activates_def bank_of_def dev(2))
  moreover have "m_node_id (node_data (m_root dev)) = 0" unfolding dev(5) by (subst build_node_eq) simp
  then have "addressed DDR5 sp (dev, rfm_act)"
    using ir device_reachable.init [OF dev(1)] by (simp add: addressed_def rfm_act_def Request_Cmd_def)
  moreover have "2 < length (m_bank_nodes dev)" using flat_bank_position(2) [OF dev(3) ir] fl by simp
  ultimately show ?thesis using that [OF reg sp(1) dev(1) p] by blast
qed

theorem RFM_keeps_up_witness:
  "\<exists>sp dev p. create ''DDR5'' rfm_cfg = Inr sp \<and> device_init sp = Inr dev \<and> RFM_setup 2 ''sb'' dev = Inr p \<and>
     (\<exists>pre e post q av. [(dev, rfm_act), (dev, rfm_act)] = pre @ e # post \<and> q = fold (observing RFM_observe) ([] @ pre) p \<and>
       fst (RFM_observe (fst e) (snd e) q) = [Request_Cmd av (int (rfm_cmd_id q))] \<and>
       2 \<in> nat ` set (get_target_banks (fst e) (rfm_cmd_id q) av))"
proof -
  obtain sp dev p where d: "registry ''DDR5'' = Some DDR5" "create ''DDR5'' rfm_cfg = Inr sp" "device_init sp = Inr dev"
    "RFM_setup 2 ''sb'' dev = Inr p" "2 < length (m_bank_nodes dev)" "activates 2 (dev, rfm_act)" "addressed DDR5 sp (dev, rfm_act)"
    by (rule rfm_device)
  from RFM_keeps_up [OF d(1-5), of "[(dev, rfm_act), (dev, rfm_act)]" "[]"] d(6,7)
  have "\<exists>pre e post q av. [(dev, rfm_act), (dev, rfm_act)] = pre @ e # post \<and> q = fold (observing RFM_observe) ([] @ pre) p \<and>
       fst (RFM_observe (fst e) (snd e) q) = [Request_Cmd av (int (rfm_cmd_id q))] \<and>
       2 \<in> nat ` set (get_target_banks (fst e) (rfm_cmd_id q) av)" by simp
  with d(2-4) show ?thesis by blast
qed

section \<open>Addresses of victim-row refreshes\<close>

lemma DDR5_VRR_levels:
  assumes "of_standard DDR5_VRR sp"
  shows "levels sp ''Rank'' = Some 1" "levels sp ''BankGroup'' = Some 2" "levels sp ''Bank'' = Some 3" "levels sp ''Row'' = Some 4"
  using assms by (simp_all add: of_standard_def DDR5_VRR_def)

lemma mixed_radix_bank:
  fixes S1 S2 S3 b :: int
  assumes "0 < S1" "0 < S2" "0 < S3"
  shows "(b div (S2 * S3) * S2 + (b - b div (S2 * S3) * (S2 * S3)) div S3) * S3 + (b - b div (S2 * S3) * (S2 * S3)) mod S3 = b"
proof -
  have "(q * S2 + r div S3) * S3 + r mod S3 = q * (S2 * S3) + r" for q r
    by (metis (no_types, opaque_lifting) add.assoc distrib_right div_mult_mod_eq mult.assoc)
  then show ?thesis by simp
qed

text \<open>Property C38. A victim-row refresh of the in-DRAM mitigations goes to the bank whose row was
  tracked: from the flat bank id the plugins recover rank, bank group and bank so that the
  device computes the same flat id again, and the row is the tracked one.\<close>

theorem trr_targets_tracked_bank:
  assumes "create ''DDR5_VRR'' cfg = Inr sp" "device_reachable DDR5_VRR sp dev" "trr_setup who dev = Inr ids"
    and "length av = level_count sp" "0 \<le> bank_id" "bank_id < int (length (m_bank_nodes dev))"
  shows "get_flat_bank_id dev (trr_vrr_addr ids av bank_id row) = bank_id \<and>
    trr_vrr_addr ids av bank_id row ! trr_row_level ids = row"
proof -
  have reg: "registry ''DDR5_VRR'' = Some DDR5_VRR" by (simp add: registry_def all_standards_def standard_defs)
  obtain sp1 where ok: "standard_ok DDR5_VRR" and of: "of_standard DDR5_VRR sp" by (rule create_facts [OF reg assms(1)])
  have ix: "enum_index (enum_Level DDR5_VRR) ''Bank'' = 3" "length (enum_Level DDR5_VRR) = 6" by code_simp+
  from device_reachable_inv [OF ok of assms(2)] have d: "m_spec dev = sp" "banks_ok dev" by blast+
  have bl: "m_bank_level dev = 3" using device_reachable_level [OF ok of assms(2)] ix by simp
  let ?S = "level_sizes (organization sp)"
  have n: "length (m_bank_nodes dev) = nat (?S ! 1) * (nat (?S ! 2) * nat (?S ! 3))"
  proof -
    have "length (m_bank_nodes dev) = level_count_from (sizes_of sp) 0 3" using d by (simp add: banks_ok_def bl length_level_paths)
    then show ?thesis by (simp add: eval_nat_numeral)
  qed
  with assms(5,6) have pos: "0 < ?S ! 1" "0 < ?S ! 2" "0 < ?S ! 3"
  proof -
    have "length (m_bank_nodes dev) \<noteq> 0" using assms(5,6) by linarith
    then have "nat (?S ! 1) \<noteq> 0" "nat (?S ! 2) \<noteq> 0" "nat (?S ! 3) \<noteq> 0" unfolding n by (metis mult_is_0)+
    then show "0 < ?S ! 1" "0 < ?S ! 2" "0 < ?S ! 3" by auto
  qed
  then have per: "int (length (m_bank_nodes dev)) div ?S ! 1 = ?S ! 2 * ?S ! 3" by (simp add: n)
  have ids: "trr_rank_level ids = 1" "trr_bankgroup_level ids = Some 2" "trr_bank_level ids = 3" "trr_row_level ids = 4"
    "trr_num_banks_per_rank ids = ?S ! 2 * ?S ! 3" "trr_num_banks_per_bankgroup ids = ?S ! 3"
    using assms(3) DDR5_VRR_levels [OF of] d per
    by (auto simp: trr_setup_def Let_def bindR_eq_Inr_iff get_level_id_def get_level_size_def has_level_def split: if_splits)
  have len: "length av = 6" using assms(4) of ix by (simp add: of_standard_def)
  have lv: "[1..<Suc 3] = [1, 2, 3]" by (simp add: upt_conv_Cons)
  have fl: "get_flat_bank_id dev v = (v ! 1 * ?S ! 2 + v ! 2) * ?S ! 3 + v ! 3" for v
    unfolding get_flat_bank_id_def bl d(1) lv by simp
  show ?thesis
    using mixed_radix_bank [OF pos, of bank_id] len by (simp add: fl trr_vrr_addr_def ids Let_def)
qed

definition vrr_cfg :: DramConfig where
  "vrr_cfg = \<lparr>cfg_channel_width = 32, cfg_data_payload_bytes = None, cfg_dq = 8, cfg_count = [1, 1, 2, 2, 16, 64],
     cfg_timing = replicate 33 4, cfg_command_cycles = None, cfg_read_latency = 15, cfg_timing_constraints = []\<rparr>"

lemma vrr_created:
  obtains sp dev ids where "create ''DDR5_VRR'' vrr_cfg = Inr sp" "level_count sp = 6" "device_init sp = Inr dev"
    "trr_setup who dev = Inr ids" "length (m_bank_nodes dev) = 4"
proof -
  have reg: "registry ''DDR5_VRR'' = Some DDR5_VRR" by (simp add: registry_def all_standards_def standard_defs)
  have "\<exists>sp. load_config (static_spec DDR5_VRR) vrr_cfg = Inr sp" unfolding load_config_succeeds by (simp add: vrr_cfg_def)
  then obtain sp0 where l: "load_config (static_spec DDR5_VRR) vrr_cfg = Inr sp0" ..
  then obtain sp where c: "create ''DDR5_VRR'' vrr_cfg = Inr sp" and o: "organization sp = organization sp0"
    by (auto simp: create_def reg construct_spec_def classify_bus_def Let_def populate_commands_def)
  obtain sp1 where ok: "standard_ok DDR5_VRR" and of: "of_standard DDR5_VRR sp" by (rule create_facts [OF reg c])
  have lc: "level_count sp = 6" and cm: "commands sp = number_names 0 Map.empty (enum_Command DDR5_VRR)"
    using of by (simp_all add: of_standard_def DDR5_VRR_def)
  have "enum_index (enum_Level DDR5_VRR) ''Bank'' = 3" by code_simp
  with device_init_ok [OF ok of] obtain dev where d: "device_init sp = Inr dev" "m_spec dev = sp" "banks_ok dev" "m_bank_level dev = 3"
    by auto
  have "level_sizes (organization sp) = [1, 1, 2, 2, 16, 64]" using load_config_Inr(2) [OF l] o by (simp add: vrr_cfg_def)
  with d have n: "length (m_bank_nodes dev) = 4" by (simp add: banks_ok_def length_level_paths) (simp add: eval_nat_numeral)
  have "\<exists>ids. trr_setup who dev = Inr ids"
    using DDR5_VRR_levels [OF of] d(2)
    by (simp add: trr_setup_def Let_def has_command_def cm get_command_id_def get_level_id_def get_level_size_def has_level_def)
      (simp add: DDR5_VRR_def)
  with that c lc d(1) n show ?thesis by blast
qed

theorem trr_targets_tracked_bank_witness:
  "\<exists>sp dev ids. create ''DDR5_VRR'' vrr_cfg = Inr sp \<and> device_init sp = Inr dev \<and> trr_setup ''IdealTRR'' dev = Inr ids \<and>
     get_flat_bank_id dev (trr_vrr_addr ids [0, 0, -1, -1, -1, -1] 3 7) = 3 \<and>
     trr_vrr_addr ids [0, 0, -1, -1, -1, -1] 3 7 ! trr_row_level ids = 7"
proof -
  obtain sp dev ids where d: "create ''DDR5_VRR'' vrr_cfg = Inr sp" "level_count sp = 6" "device_init sp = Inr dev"
    "trr_setup ''IdealTRR'' dev = Inr ids" "length (m_bank_nodes dev) = 4" by (rule vrr_created)
  from trr_targets_tracked_bank [OF d(1) device_reachable.init [OF d(3)] d(4), of "[0, 0, -1, -1, -1, -1]" 3 7] d
  show ?thesis by auto
qed

end
