(* ===== verification/Channel_Mappers.thy ===== *)
theory Channel_Mappers
  imports Ram_Request Ram_Utils
begin

text \<open>
  \<^verbatim>\<open>ramulator/memory_system/channel_mapper\<close>: how the memory system spreads addresses over its
  channels, and \<^verbatim>\<open>ramulator/translation\<close>: the translation of virtual addresses in front of
  it. \<^verbatim>\<open>>>\<close> on a signed 64-bit address is an arithmetic shift, \<open>drop_bit\<close> on \<open>int\<close>.

  The lemmas show that the interleaving mappers lose nothing: the address can be rebuilt from
  the channel and the address inside the channel, and the channel always exists.
\<close>

section \<open>Definitions\<close>

record Interleave =
  ch_param :: int
  m_num_channels :: int
  m_ch_shift :: nat
  m_ch_width :: nat

text \<open>\<open>ch_param\<close> is \<^verbatim>\<open>m_interleave_bits\<close> in the first mapper and \<^verbatim>\<open>m_interleave_size\<close> in the second.\<close>

definition CacheLineInterleave_setup :: "int \<Rightarrow> int \<Rightarrow> int \<Rightarrow> Interleave result" where
  "CacheLineInterleave_setup interleave_bits num_channels tx_offset =
     (if num_channels > 1 \<and> num_channels AND (num_channels - 1) \<noteq> 0
      then throw ''CacheLineInterleave requires a power-of-two channel count''
      else Inr \<lparr>ch_param = interleave_bits, m_num_channels = num_channels,
                m_ch_shift = nat (tx_offset + interleave_bits), m_ch_width = calc_log2 (nat num_channels)\<rparr>)"

text \<open>\<^verbatim>\<open>if (req.addr_vec.empty()) req.addr_vec.resize(1, x)\<close>, then the assignment of element 0.\<close>

definition set_channel :: "int \<Rightarrow> Request \<Rightarrow> Request" where
  "set_channel ch req =
     req\<lparr>req_addr_vec := (if req_addr_vec req = [] then [ch] else (req_addr_vec req)[0 := ch])\<rparr>"

definition CacheLineInterleave_apply :: "Interleave \<Rightarrow> Request \<Rightarrow> Request" where
  "CacheLineInterleave_apply cm req =
     (if m_num_channels cm \<le> 1 then (set_channel 0 req)\<lparr>req_intra_channel_addr := req_addr req\<rparr>
      else let addr = req_addr req;
               low = addr AND (push_bit (m_ch_shift cm) 1 - 1);
               high = drop_bit (m_ch_shift cm + m_ch_width cm) addr
           in (set_channel (drop_bit (m_ch_shift cm) addr AND (push_bit (m_ch_width cm) 1 - 1)) req)
                \<lparr>req_intra_channel_addr := push_bit (m_ch_shift cm) high OR low\<rparr>)"

definition Gem5PortInterleave_setup :: "int \<Rightarrow> int \<Rightarrow> int \<Rightarrow> Interleave result" where
  "Gem5PortInterleave_setup interleave_size num_channels tx_offset =
     (if num_channels \<le> 0 then throw ''Gem5PortInterleave requires a positive channel count''
      else if num_channels AND (num_channels - 1) \<noteq> 0
      then throw ''Gem5PortInterleave requires a power-of-two channel count''
      else if interleave_size \<le> 0 \<or> interleave_size AND (interleave_size - 1) \<noteq> 0
      then throw ''Gem5PortInterleave requires power-of-two interleave_size''
      else if interleave_size < push_bit (nat tx_offset) 1
      then throw ''Gem5PortInterleave interleave_size must be at least one Ramulator transaction''
      else Inr \<lparr>ch_param = interleave_size, m_num_channels = num_channels,
                m_ch_shift = calc_log2 (nat interleave_size), m_ch_width = calc_log2 (nat num_channels)\<rparr>)"

definition Gem5PortInterleave_apply :: "Interleave \<Rightarrow> Request \<Rightarrow> Request" where
  "Gem5PortInterleave_apply cm req =
     (let req1 = set_channel (req_ingress_id req) req; addr = req_addr req in
      if m_num_channels cm = 1 then req1\<lparr>req_intra_channel_addr := addr\<rparr>
      else let low = addr AND (push_bit (m_ch_shift cm) 1 - 1);
               high = drop_bit (m_ch_shift cm + m_ch_width cm) addr
           in req1\<lparr>req_intra_channel_addr := push_bit (m_ch_shift cm) high OR low\<rparr>)"

definition PassThroughChannelMapper_apply :: "Request \<Rightarrow> Request" where
  "PassThroughChannelMapper_apply req =
     (let req1 = (if req_addr_vec req = [] \<or> req_addr_vec req ! 0 < 0 then set_channel 0 req else req)
      in req1\<lparr>req_intra_channel_addr := req_addr req\<rparr>)"

datatype channel_mapper = CacheLineInterleave Interleave | Gem5PortInterleave Interleave | PassThroughChannelMapper

fun channel_apply :: "channel_mapper \<Rightarrow> Request \<Rightarrow> Request" where
  "channel_apply (CacheLineInterleave cm) req = CacheLineInterleave_apply cm req"
| "channel_apply (Gem5PortInterleave cm) req = Gem5PortInterleave_apply cm req"
| "channel_apply PassThroughChannelMapper req = PassThroughChannelMapper_apply req"

text \<open>A mapper as configured, before \<^verbatim>\<open>setup\<close> tells it the number of channels.\<close>

datatype mapper_config = CacheLineInterleave_config int | Gem5PortInterleave_config int | PassThrough_config

fun channel_setup :: "mapper_config \<Rightarrow> int \<Rightarrow> int \<Rightarrow> channel_mapper result" where
  "channel_setup (CacheLineInterleave_config bits) n tx = bindR (CacheLineInterleave_setup bits n tx) (\<lambda>cm. Inr (CacheLineInterleave cm))"
| "channel_setup (Gem5PortInterleave_config sz) n tx = bindR (Gem5PortInterleave_setup sz n tx) (\<lambda>cm. Inr (Gem5PortInterleave cm))"
| "channel_setup PassThrough_config n tx = Inr PassThroughChannelMapper"

section \<open>Splitting and joining addresses\<close>

text \<open>
  The interface of an interleaving: an address is split into a channel and an address inside
  the channel, and the two determine it.
\<close>

locale interleaving =
  fixes split :: "'c \<Rightarrow> Addr_t \<Rightarrow> int \<times> Addr_t" and join :: "'c \<Rightarrow> int \<times> Addr_t \<Rightarrow> Addr_t" and channels :: "'c \<Rightarrow> int"
    and ok :: "'c \<Rightarrow> bool"
  assumes join_split: "ok c \<Longrightarrow> join c (split c a) = a"
    and channel_exists: "ok c \<Longrightarrow> 0 \<le> fst (split c a) \<and> fst (split c a) < channels c"
begin

lemma split_injective: "ok c \<Longrightarrow> split c a = split c a' \<Longrightarrow> a = a'"
  by (metis join_split)

end

definition cut_channel :: "Interleave \<Rightarrow> Addr_t \<Rightarrow> int \<times> Addr_t" where
  "cut_channel cm a =
     (take_bit (m_ch_width cm) (drop_bit (m_ch_shift cm) a),
      push_bit (m_ch_shift cm) (drop_bit (m_ch_shift cm + m_ch_width cm) a) OR take_bit (m_ch_shift cm) a)"

definition paste_channel :: "Interleave \<Rightarrow> int \<times> Addr_t \<Rightarrow> Addr_t" where
  "paste_channel cm ci =
     push_bit (m_ch_shift cm + m_ch_width cm) (drop_bit (m_ch_shift cm) (snd ci)) OR
     push_bit (m_ch_shift cm) (fst ci) OR take_bit (m_ch_shift cm) (snd ci)"

definition interleave_ok :: "Interleave \<Rightarrow> bool" where
  "interleave_ok cm \<longleftrightarrow> m_num_channels cm = 2 ^ m_ch_width cm"

interpretation cut: interleaving cut_channel paste_channel m_num_channels interleave_ok
proof
  fix cm a assume ok: "interleave_ok cm"
  show "paste_channel cm (cut_channel cm a) = a"
  proof (rule bit_eqI)
    fix n
    consider "n < m_ch_shift cm" | "m_ch_shift cm \<le> n" "n < m_ch_shift cm + m_ch_width cm" | "m_ch_shift cm + m_ch_width cm \<le> n"
      by linarith
    then show "bit (paste_channel cm (cut_channel cm a)) n = bit a n"
      by cases (auto simp: paste_channel_def cut_channel_def bit_or_iff bit_push_bit_iff bit_take_bit_iff bit_drop_bit_eq)
  qed
  show "0 \<le> fst (cut_channel cm a) \<and> fst (cut_channel cm a) < m_num_channels cm"
    using ok by (simp add: cut_channel_def interleave_ok_def)
qed

lemma Interleave_setup_ok:
  "CacheLineInterleave_setup bits n tx = Inr cm \<Longrightarrow> 0 < n \<Longrightarrow> interleave_ok cm \<and> m_num_channels cm = n"
  "Gem5PortInterleave_setup sz n tx = Inr cm \<Longrightarrow> interleave_ok cm \<and> m_num_channels cm = n"
  using is_pow2_cases [of n] calc_log2_pow2 [of 0]
  by (cases "n = 1"; auto simp: CacheLineInterleave_setup_def Gem5PortInterleave_setup_def interleave_ok_def is_pow2_def split: if_splits)+

lemma interleave_single: "interleave_ok cm \<Longrightarrow> m_num_channels cm = 1 \<Longrightarrow> cut_channel cm a = (0, a)"
proof -
  assume "interleave_ok cm" "m_num_channels cm = 1"
  then have "(2 :: int) ^ m_ch_width cm = 2 ^ 0" by (simp add: interleave_ok_def)
  then have w: "m_ch_width cm = 0" by (simp only: power_inject_exp)
  show ?thesis by (auto simp: cut_channel_def w intro!: bit_eqI simp: bit_or_iff bit_push_bit_iff bit_take_bit_iff bit_drop_bit_eq)
qed

lemma interleave_positive: "interleave_ok cm \<Longrightarrow> 0 < m_num_channels cm"
  by (simp add: interleave_ok_def)

text \<open>What the two mappers write, in terms of the cut.\<close>

lemma CacheLineInterleave_cut:
  assumes "interleave_ok cm"
  shows "CacheLineInterleave_apply cm req =
    (set_channel (fst (cut_channel cm (req_addr req))) req)\<lparr>req_intra_channel_addr := snd (cut_channel cm (req_addr req))\<rparr>"
proof (cases "m_num_channels cm \<le> 1")
  case True
  with interleave_positive [OF assms] have "m_num_channels cm = 1" by simp
  with interleave_single [OF assms] show ?thesis by (simp add: CacheLineInterleave_apply_def)
next
  case False
  then show ?thesis by (simp add: CacheLineInterleave_apply_def cut_channel_def Let_def take_bit_eq_mask mask_eq_exp_minus_1)
qed

lemma Gem5PortInterleave_cut:
  assumes "interleave_ok cm"
  shows "Gem5PortInterleave_apply cm req =
    (set_channel (req_ingress_id req) req)\<lparr>req_intra_channel_addr := snd (cut_channel cm (req_addr req))\<rparr>"
proof (cases "m_num_channels cm = 1")
  case True
  with interleave_single [OF assms] show ?thesis by (simp add: Gem5PortInterleave_apply_def)
next
  case False
  then show ?thesis by (simp add: Gem5PortInterleave_apply_def cut_channel_def Let_def take_bit_eq_mask mask_eq_exp_minus_1)
qed

lemma set_channel_simps [simp]:
  "req_addr_vec (set_channel ch req) \<noteq> []" "req_addr_vec (set_channel ch req) ! 0 = ch"
  "req_addr (set_channel ch req) = req_addr req" "req_type_id (set_channel ch req) = req_type_id req"
  by (auto simp: set_channel_def)

lemma channel_apply_keys [simp]:
  "req_addr (channel_apply m req) = req_addr req" "req_type_id (channel_apply m req) = req_type_id req"
  by (cases m; simp add: CacheLineInterleave_apply_def Gem5PortInterleave_apply_def PassThroughChannelMapper_apply_def Let_def)+

section \<open>Translation\<close>

text \<open>\<^verbatim>\<open>%\<close> takes the sign of its left operand in C++; frontends send non-negative addresses.\<close>

definition NoTranslation_translate :: "Addr_t \<Rightarrow> Request \<Rightarrow> Request" where
  "NoTranslation_translate max_paddr req = req\<lparr>req_addr := sgn (req_addr req) * (\<bar>req_addr req\<bar> mod \<bar>max_paddr\<bar>)\<rparr>"

record RandomTranslation =
  rt_page_size :: Addr_t
  rt_num_frames :: "64 word"
  rt_next :: "64 word"
  rt_table :: "64 word \<rightharpoonup> 64 word"

text \<open>
  \<^verbatim>\<open>permute\<close> at the width of the code. \<^verbatim>\<open>x >> 7\<close> shifts a signed 64-bit value, the
  product with an unsigned constant is unsigned and wraps, and is stored back as signed.
\<close>

definition permute :: "64 word \<Rightarrow> 64 word \<Rightarrow> 64 word" where
  "permute num_frames i =
     (let x1 = i XOR signed_drop_bit 7 i;
          x2 = x1 * 0x9E3779B97F4A7C15;
          x3 = x2 XOR signed_drop_bit 11 x2
      in x3 AND (num_frames - 1))"

text \<open>The loop that clears the lowest set bit until one is left.\<close>

function round_down_pow2 :: "nat \<Rightarrow> nat" where
  "round_down_pow2 n = (if n AND (n - 1) \<noteq> 0 then round_down_pow2 (n AND (n - 1)) else n)"
  by pat_completeness auto
termination
proof (relation "measure id")
  fix n :: nat assume n: "n AND (n - 1) \<noteq> 0"
  have "int (n AND (n - 1)) \<le> int (n - 1)" unfolding of_nat_and_eq by (rule AND_upper2) simp
  with n show "(n AND (n - 1), n) \<in> measure id" by (cases n) auto
qed simp

declare round_down_pow2.simps [simp del]

definition RandomTranslation_init :: "nat \<Rightarrow> nat \<Rightarrow> RandomTranslation" where
  "RandomTranslation_init max_paddr page_size =
     \<lparr>rt_page_size = int page_size, rt_num_frames = word_of_nat (round_down_pow2 (max_paddr div page_size)),
      rt_next = 0, rt_table = Map.empty\<rparr>"

definition RandomTranslation_translate :: "RandomTranslation \<Rightarrow> Request \<Rightarrow> RandomTranslation \<times> Request" where
  "RandomTranslation_translate t req =
     (let addr = word_of_int (req_addr req) :: 64 word; page = word_of_int (rt_page_size t);
          vpage = addr div page; offset = addr mod page;
          (t1, frame) = (case rt_table t vpage of
             Some f \<Rightarrow> (t, f)
           | None \<Rightarrow> let f = permute (rt_num_frames t) (rt_next t)
                    in (t\<lparr>rt_next := rt_next t + 1, rt_table := (rt_table t)(vpage \<mapsto> f)\<rparr>, f))
      in (t1, req\<lparr>req_addr := sint (frame * page + offset)\<rparr>))"

text \<open>
  The comment of the class calls the frames collision-free. With 16 frames the allocations
  number 1 and 4 already share one, so the two pages are one page of memory.
\<close>

lemma permute_collides: "permute 16 1 = 10" "permute 16 4 = 10"
  by code_simp+

end
