(* ===== verification/Memory_System.thy ===== *)
theory Memory_System
  imports Controller_Device Channel_Mappers
begin

text \<open>
  \<^verbatim>\<open>ramulator/memory_system/impl/generic_dram_system.cpp\<close>: the memory system, a channel mapper in
  front of a list of controllers. The controllers are generic DDR controllers; indexing the
  list with a channel that does not exist is undefined in C++ and leaves the model's list
  unchanged. The two counters are 32-bit \<^verbatim>\<open>int\<close>s in the code and 32-bit words here; the code's
  signed overflow is taken to wrap.

  The states of a whole system are the states its channels can reach on their own: nothing
  is shared between channels but the mapper.
\<close>

section \<open>Definitions\<close>

record GenericDRAM =
  m_channel_mapper :: channel_mapper
  m_controllers :: "GenericDDR list"
  m_next_admission_ordinal :: "int list"
  m_clock_ratio :: nat
  m_tx_bytes :: int
  s_num_read_requests :: "32 word"
  s_num_write_requests :: "32 word"

definition number_channel :: "nat \<times> GenericDDR \<Rightarrow> GenericDDR" where
  "number_channel ig = (snd ig)\<lparr>g_ctrl := ctrl_set_channel_id (int (fst ig)) (g_ctrl (snd ig))\<rparr>"

definition GenericDRAM_init :: "nat \<Rightarrow> mapper_config \<Rightarrow> GenericDDR list \<Rightarrow> GenericDRAM result" where
  "GenericDRAM_init clock_ratio mc controllers =
     (if controllers = [] then throw ''GenericDRAM requires at least one controller''
      else let cs = map number_channel (enumerate 0 controllers);
               tx_bytes = get_tx_bytes (spec_of (g_ctrl (cs ! 0)))
           in bindR (channel_setup mc (int (length cs)) (int (calc_log2 (nat tx_bytes)))) (\<lambda>cm.
                Inr \<lparr>m_channel_mapper = cm, m_controllers = cs, m_next_admission_ordinal = replicate (length cs) 0,
                     m_clock_ratio = clock_ratio, m_tx_bytes = tx_bytes,
                     s_num_read_requests = 0, s_num_write_requests = 0\<rparr>))"

definition count_accepted :: "Request \<Rightarrow> GenericDRAM \<Rightarrow> GenericDRAM" where
  "count_accepted req ms =
     (if req_type_id req = Type_Read then ms\<lparr>s_num_read_requests := s_num_read_requests ms + 1\<rparr>
      else if req_type_id req = Type_Write then ms\<lparr>s_num_write_requests := s_num_write_requests ms + 1\<rparr>
      else ms)"

definition GenericDRAM_send :: "Request \<Rightarrow> GenericDRAM \<Rightarrow> (bool \<times> Request \<times> GenericDRAM) result" where
  "GenericDRAM_send req0 ms =
     (if req_size_bytes req0 \<le> 0 \<or> req_size_bytes req0 > m_tx_bytes ms
      then throw ''Request size_bytes must be set by the frontend''
      else let req1 = channel_apply (m_channel_mapper ms) req0;
               channel_id = nat (req_addr_vec req1 ! 0);
               req2 = req1\<lparr>req_admission_ordinal := m_next_admission_ordinal ms ! channel_id\<rparr>;
               g = m_controllers ms ! channel_id
           in bindR (send req2 (g_ctrl g)) (\<lambda>(is_success, req, c).
                let ms' = ms\<lparr>m_controllers := (m_controllers ms)[channel_id := g\<lparr>g_ctrl := c\<rparr>],
                             m_next_admission_ordinal :=
                               (m_next_admission_ordinal ms)[channel_id := m_next_admission_ordinal ms ! channel_id + 1]\<rparr>
                in if is_success then Inr (True, req, count_accepted req ms')
                   else Inr (False, req\<lparr>req_admission_ordinal := -1\<rparr>, ms')))"

fun tick_all :: "GenericDDR list \<Rightarrow> GenericDDR list result" where
  "tick_all [] = Inr []"
| "tick_all (g # gs) = bindR (GenericDDR_tick g) (\<lambda>g'. bindR (tick_all gs) (\<lambda>gs'. Inr (g' # gs')))"

definition GenericDRAM_tick :: "GenericDRAM \<Rightarrow> GenericDRAM result" where
  "GenericDRAM_tick ms = bindR (tick_all (m_controllers ms)) (\<lambda>gs. Inr (ms\<lparr>m_controllers := gs\<rparr>))"

text \<open>Cycle-level controllers keep the default \<^verbatim>\<open>idle_ticks\<close>, which is 0.\<close>

definition GenericDRAM_idle_ticks :: "GenericDRAM \<Rightarrow> Clk_t" where
  "GenericDRAM_idle_ticks ms = fold (\<lambda>_ idle. min idle 0) (m_controllers ms) (2 ^ 63 - 1)"

definition GenericDRAM_reset_stats :: "GenericDRAM \<Rightarrow> GenericDRAM" where
  "GenericDRAM_reset_stats ms = ms\<lparr>s_num_read_requests := 0, s_num_write_requests := 0\<rparr>"

text \<open>
  \<^verbatim>\<open>reset_stats_recursive\<close> of \<^verbatim>\<open>i_memory_system.h\<close>: the system's own counters and those of every
  component below it.
\<close>

definition GenericDRAM_reset_stats_recursive :: "GenericDRAM \<Rightarrow> GenericDRAM" where
  "GenericDRAM_reset_stats_recursive ms =
     (GenericDRAM_reset_stats ms)\<lparr>m_controllers := map GenericDDR_reset_stats (m_controllers ms)\<rparr>"

section \<open>States of a system\<close>

text \<open>A controller as the factory builds it, before the system numbers its channel.\<close>

definition channel_created :: "(DRAMSpec \<Rightarrow> AddrMapper result) \<Rightarrow> CtrlConfig \<Rightarrow> nat \<Rightarrow> GenericDDR \<Rightarrow> bool" where
  "channel_created mk cfg cores g \<longleftrightarrow>
     init_base mk cfg cores = Inr (g_ctrl g) \<and> refresh_created (m_device (g_ctrl g)) (g_refresh g) \<and>
     policy_created (m_device (g_ctrl g)) (g_rowpolicy g) \<and> list_all (plugin_created (m_device (g_ctrl g))) (g_plugins g)"

type_synonym channel_config = "(DRAMSpec \<Rightarrow> AddrMapper result) \<times> CtrlConfig"

inductive system_reachable :: "channel_config list \<Rightarrow> nat \<Rightarrow> mapper_config \<Rightarrow> nat \<Rightarrow> GenericDRAM \<Rightarrow> bool" for cs cores mc ratio where
  start: "list_all2 (\<lambda>mc g. channel_created (fst mc) (snd mc) cores g) cs gs \<Longrightarrow>
    GenericDRAM_init ratio mc gs = Inr ms \<Longrightarrow> system_reachable cs cores mc ratio ms"
| sent: "system_reachable cs cores mc ratio ms \<Longrightarrow> GenericDRAM_send req ms = Inr (ok, req', ms') \<Longrightarrow>
    system_reachable cs cores mc ratio ms'"
| ticked: "system_reachable cs cores mc ratio ms \<Longrightarrow> GenericDRAM_tick ms = Inr ms' \<Longrightarrow> system_reachable cs cores mc ratio ms'"
| reset: "system_reachable cs cores mc ratio ms \<Longrightarrow> system_reachable cs cores mc ratio (GenericDRAM_reset_stats_recursive ms)"

lemma number_channel_reachable:
  assumes "channel_created mk cfg cores g"
  shows "channel_reachable mk cfg cores (int i) (number_channel (i, g))"
  by (rule channel_reachable.start [of mk cfg cores "g_ctrl g"]) (use assms in \<open>simp_all add: channel_created_def number_channel_def\<close>)

lemma tick_all_nth:
  "tick_all gs = Inr gs' \<Longrightarrow> length gs' = length gs \<and> (\<forall>i < length gs. GenericDDR_tick (gs ! i) = Inr (gs' ! i))"
proof (induction gs arbitrary: gs')
  case (Cons g gs)
  from Cons.prems obtain g1 gs1 where "GenericDDR_tick g = Inr g1" "tick_all gs = Inr gs1" "gs' = g1 # gs1"
    by (auto simp: bindR_eq_Inr_iff)
  with Cons.IH [of gs1] show ?case by (auto simp: nth_Cons split: nat.splits)
qed simp

text \<open>The parts of a successful send.\<close>

lemma GenericDRAM_send_parts:
  assumes "GenericDRAM_send req ms = Inr (ok, req', ms')"
  obtains ch req2 req3 c where "ch = nat (req_addr_vec (channel_apply (m_channel_mapper ms) req) ! 0)"
    "req2 = (channel_apply (m_channel_mapper ms) req)\<lparr>req_admission_ordinal := m_next_admission_ordinal ms ! ch\<rparr>"
    "send req2 (g_ctrl (m_controllers ms ! ch)) = Inr (ok, req3, c)"
    "m_controllers ms' = (m_controllers ms)[ch := (m_controllers ms ! ch)\<lparr>g_ctrl := c\<rparr>]"
    "m_next_admission_ordinal ms' = (m_next_admission_ordinal ms)[ch := m_next_admission_ordinal ms ! ch + 1]"
    "m_channel_mapper ms' = m_channel_mapper ms" "m_tx_bytes ms' = m_tx_bytes ms"
    "req' = (if ok then req3 else req3\<lparr>req_admission_ordinal := -1\<rparr>)"
    "s_num_read_requests ms' = s_num_read_requests ms + (if ok \<and> req_type_id req3 = Type_Read then 1 else 0)"
    "s_num_write_requests ms' = s_num_write_requests ms + (if ok \<and> req_type_id req3 = Type_Write then 1 else 0)"
proof -
  let ?ch = "nat (req_addr_vec (channel_apply (m_channel_mapper ms) req) ! 0)"
  from assms obtain ok3 req3 c where s: "send ((channel_apply (m_channel_mapper ms) req)\<lparr>req_admission_ordinal := m_next_admission_ordinal ms ! ?ch\<rparr>)
      (g_ctrl (m_controllers ms ! ?ch)) = Inr (ok3, req3, c)"
    unfolding GenericDRAM_send_def by (auto simp: bindR_eq_Inr_iff Let_def split: if_splits)
  with assms that [OF refl refl, of req3 c] show ?thesis
    by (auto simp: GenericDRAM_send_def Let_def count_accepted_def Type_Read_def Type_Write_def split: if_splits)
qed

lemma system_channels:
  "system_reachable cs cores mc ratio ms \<Longrightarrow>
   length (m_controllers ms) = length cs \<and>
   (\<forall>i < length cs. channel_reachable (fst (cs ! i)) (snd (cs ! i)) cores (int i) (m_controllers ms ! i))"
proof (induction rule: system_reachable.induct)
  case (start gs ms)
  have ms: "m_controllers ms = map number_channel (enumerate 0 gs)"
    using start(2) by (auto simp: GenericDRAM_init_def Let_def bindR_eq_Inr_iff split: if_splits)
  have "channel_reachable (fst (cs ! i)) (snd (cs ! i)) cores (int i) (m_controllers ms ! i)" if "i < length cs" for i
    using list_all2_nthD [OF start(1) that] number_channel_reachable list_all2_lengthD [OF start(1)] that
    by (simp add: ms nth_enumerate_eq)
  with ms list_all2_lengthD [OF start(1)] show ?case by simp
next
  case (sent ms req ok req' ms')
  from sent(2) obtain ch req2 req3 c where s: "send req2 (g_ctrl (m_controllers ms ! ch)) = Inr (ok, req3, c)"
    "m_controllers ms' = (m_controllers ms)[ch := (m_controllers ms ! ch)\<lparr>g_ctrl := c\<rparr>]"
    by (rule GenericDRAM_send_parts)
  have "channel_reachable (fst (cs ! i)) (snd (cs ! i)) cores (int i) (m_controllers ms' ! i)" if "i < length cs" for i
    using sent.IH channel_reachable.sent [OF _ s(1)] that s(2) by (cases "ch = i") auto
  with sent.IH s(2) show ?case by simp
next
  case (ticked ms ms')
  from ticked(2) obtain gs where "tick_all (m_controllers ms) = Inr gs" "ms' = ms\<lparr>m_controllers := gs\<rparr>"
    by (auto simp: GenericDRAM_tick_def bindR_eq_Inr_iff)
  with tick_all_nth [of "m_controllers ms" gs] ticked.IH show ?case by (auto intro: channel_reachable.ticked)
next
  case (reset ms)
  then show ?case
    by (auto simp: GenericDRAM_reset_stats_recursive_def GenericDRAM_reset_stats_def intro: channel_reachable.reset)
qed

section \<open>Counting requests\<close>

definition sum_stat :: "(Stats \<Rightarrow> nat) \<Rightarrow> GenericDDR list \<Rightarrow> nat" where
  "sum_stat f gs = sum_list (map (\<lambda>g. f (m_stats (g_ctrl g))) gs)"

lemma sum_stat_update:
  "i < length gs \<Longrightarrow> f (m_stats (g_ctrl g)) = f (m_stats (g_ctrl (gs ! i))) + k \<Longrightarrow> sum_stat f (gs[i := g]) = sum_stat f gs + k"
proof (induction gs arbitrary: i)
  case (Cons a gs)
  then show ?case by (cases i) (auto simp: sum_stat_def)
qed simp

lemma send_counts:
  assumes "send req c = Inr (ok, req', c')"
  shows "s_num_read_reqs (m_stats c') = s_num_read_reqs (m_stats c) + (if ok \<and> req_type_id req' = Type_Read then 1 else 0)"
    "s_num_write_reqs (m_stats c') = s_num_write_reqs (m_stats c) + (if ok \<and> req_type_id req' = Type_Write then 1 else 0)"
proof -
  from assms obtain q where q: "mapper_apply (m_device c) (m_addr_mapper c) req = Inr q"
    and ty: "req_type_id req = 0 \<or> req_type_id req = 1"
    unfolding send_def by (auto simp: bindR_eq_Inr_iff split: if_splits)
  note k = mapper_apply_keys [OF q]
  show "s_num_read_reqs (m_stats c') = s_num_read_reqs (m_stats c) + (if ok \<and> req_type_id req' = Type_Read then 1 else 0)"
    "s_num_write_reqs (m_stats c') = s_num_write_reqs (m_stats c) + (if ok \<and> req_type_id req' = Type_Write then 1 else 0)"
    using assms q ty k unfolding send_def
    by (cases "req_addr req \<in> m_buffered_write_addrs c";
        auto simp: Let_def enqueue_def notify_departure_scheduled_def push_pending_def call_callback_def split: if_splits)+
qed

text \<open>A tick accepts nothing: the counters of accepted reads and writes stay.\<close>

abbreviation accepted :: "Controller \<Rightarrow> nat \<times> nat" where
  "accepted c \<equiv> (s_num_read_reqs (m_stats c), s_num_write_reqs (m_stats c))"

lemma same_view_accepted: "same_view c c' \<Longrightarrow> accepted c' = accepted c"
  by (simp add: same_view_def stat_keys_def)

lemma sends_accepted: "sends K c c' \<Longrightarrow> accepted c' = accepted c"
proof (induction rule: sends.induct)
  case (step c c' cmd av ok c'')
  then show ?case by (auto simp: priority_send_def Let_def split: if_splits prod.splits)
qed simp

lemma serve_pending_accepted: "accepted (serve_pending ps c) = accepted c"
  by (induction ps c rule: serve_pending.induct) (simp_all add: Let_def call_callback_def)

lemma tick_prologue_accepted: "accepted (tick_prologue c) = accepted c"
  using serve_pending_accepted by (simp add: tick_prologue_def Let_def serve_completed_reads_def)

lemma advance_request_accepted: "accepted (advance_request ref it c) = accepted c"
  by (auto simp: advance_request_def retire_request_def promote_to_active_def complete_request_def leave_buffer_def Let_def
      notify_departure_scheduled_def push_pending_def call_callback_def split: prod.splits bool.splits)

lemma tick_accepted:
  assumes "GenericDDR_tick g = Inr g'"
  shows "accepted (g_ctrl g') = accepted (g_ctrl g)"
proof -
  from assms obtain rf c1 pol c2 cand c3 pol' ps c4 where
    r: "refresh_tick (g_refresh g, tick_prologue (g_ctrl g)) = Inr (rf, c1)" and
    p: "pre_schedule (g_rowpolicy g, c1) = Inr (pol, c2)" and
    sel: "select_candidate (g_scheduler g) c2 = Inr (cand, c3)" and
    sv: "serve_if_valid cand (pol, map plugin_pre_schedule (g_plugins g), c3) = Inr (pol', ps, c4)" and
    g': "g_ctrl g' = c4"
    by (elim GenericDDR_tick_phases) simp
  have c3: "accepted c3 = accepted (g_ctrl g)"
    using same_view_accepted [OF select_candidate_view(1) [OF sel]] sends_accepted [OF pre_schedule_sends [OF p]]
      sends_accepted [OF conjunct2 [OF refresh_tick_sends [OF r]]] tick_prologue_accepted [of "g_ctrl g"] by simp
  have "accepted c4 = accepted c3"
  proof (cases cand)
    case None
    with sv show ?thesis by (simp add: serve_if_valid_def)
  next
    case (Some x)
    obtain ref it where "serve_candidate ref it (pol, map plugin_pre_schedule (g_plugins g), c3) = Inr (pol', ps, c4)"
      using sv Some by (cases x) (auto simp: serve_if_valid_def)
    then obtain cx where
      pl: "plugins_on_issue (buffer (get_buf ref (issue_candidate ref it (prepare_candidate ref it pol c3))) ! it)
         (map plugin_pre_schedule (g_plugins g), issue_candidate ref it (prepare_candidate ref it pol c3)) = Inr (ps, cx)"
      and c4: "c4 = advance_request ref it cx" by (rule serve_candidate_phases)
    from sends_accepted [OF conjunct2 [OF plugins_on_issue_sends [OF pl]]]
      same_view_accepted [OF same_view_trans [OF prepare_candidate_view issue_candidate_view]] c4 advance_request_accepted
    show ?thesis by metis
  qed
  with c3 g' show ?thesis by simp
qed

end
