(* ===== verification/System_Properties.thy ===== *)
theory System_Properties
  imports Memory_System Channel_Safety
begin

text \<open>
  Properties of the memory system: routing, the totals, and the lifting of what holds for one
  channel to every channel of a running system.
\<close>

section \<open>An example system\<close>

text \<open>Two channels of the example configuration behind a cache-line interleaving.\<close>

definition ex_bare :: GenericDDR where
  "ex_bare = \<lparr>g_ctrl = ex_ctrl, g_scheduler = FRFCFS, g_refresh = NoRefresh, g_rowpolicy = OpenRowPolicy, g_plugins = []\<rparr>"

definition ex_system :: GenericDRAM where
  "ex_system = \<lparr>m_channel_mapper = CacheLineInterleave \<lparr>ch_param = 0, m_num_channels = 2, m_ch_shift = 6, m_ch_width = 1\<rparr>,
     m_controllers = [number_channel (0, ex_bare), number_channel (1, ex_bare)], m_next_admission_ordinal = [0, 0],
     m_clock_ratio = 1, m_tx_bytes = 64, s_num_read_requests = 0, s_num_write_requests = 0\<rparr>"

definition ex_configs :: "channel_config list" where
  "ex_configs = [(ex_mk, ex_cc), (ex_mk, ex_cc)]"

lemma ex_bare_created: "channel_created ex_mk ex_cc 1 ex_bare"
  using ex_init_base by (simp add: channel_created_def ex_bare_def refresh_created_def policy_created_def)

lemma ex_tx_bytes: "get_tx_bytes ex_spec = 64"
  by (simp add: get_tx_bytes_def ex_spec_def)

lemma ex_system_init: "GenericDRAM_init 1 (CacheLineInterleave_config 0) [ex_bare, ex_bare] = Inr ex_system"
proof -
  have "spec_of (g_ctrl (number_channel (0, ex_bare))) = ex_spec"
    by (simp add: number_channel_def ex_bare_def ctrl_set_channel_id_def device_set_channel_id_def ex_ctrl_def ex_dev_def)
  moreover have "calc_log2 64 = 6" "calc_log2 2 = 1" by code_simp+
  ultimately show ?thesis
    by (simp add: GenericDRAM_init_def Let_def ex_tx_bytes CacheLineInterleave_setup_def ex_system_def enumerate_eq_zip)
qed

lemma ex_system_reachable: "system_reachable ex_configs 1 (CacheLineInterleave_config 0) 1 ex_system"
  by (rule system_reachable.start [OF _ ex_system_init]) (use ex_bare_created in \<open>simp add: ex_configs_def\<close>)

section \<open>Facts on sending\<close>

lemma mapper_apply_ordinal:
  assumes "mapper_apply dev am req = Inr req'"
  shows "req_admission_ordinal req' = req_admission_ordinal req"
proof -
  have b: "req_admission_ordinal (base_apply m r) = req_admission_ordinal r" for m r
    by (cases m) (simp_all add: ChRaBaRoCo_apply_def RoBaRaCoCh_apply_def MOP4CLXOR_apply_def PassThroughAddrMapper_apply_def Let_def split: prod.splits)
  from assms b show ?thesis
    by (cases am) (auto simp: RITAddrMapper_apply_def Let_def split: if_splits)
qed

lemma send_ordinal:
  assumes "send req c = Inr (ok, req', c')"
  shows "req_admission_ordinal req' = req_admission_ordinal req" "\<not> ok \<Longrightarrow> c' = c"
proof -
  from assms obtain q where q: "mapper_apply (m_device c) (m_addr_mapper c) req = Inr q"
    and ty: "req_type_id req = 0 \<or> req_type_id req = 1"
    unfolding send_def by (auto simp: bindR_eq_Inr_iff split: if_splits)
  from assms q ty mapper_apply_keys [OF q] mapper_apply_ordinal [OF q]
  show "req_admission_ordinal req' = req_admission_ordinal req" "\<not> ok \<Longrightarrow> c' = c"
    unfolding send_def by (auto simp: Let_def enqueue_def split: if_splits)
qed

lemma system_mapper:
  "system_reachable cs cores (CacheLineInterleave_config bits) ratio ms \<Longrightarrow>
   \<exists>cm. m_channel_mapper ms = CacheLineInterleave cm \<and> interleave_ok cm \<and> m_num_channels cm = int (length (m_controllers ms)) \<and>
     m_ch_shift cm = nat (int (calc_log2 (nat (m_tx_bytes ms))) + bits) \<and> length (m_next_admission_ordinal ms) = length (m_controllers ms)"
proof (induction rule: system_reachable.induct)
  case (start gs ms)
  have sh: "m_ch_shift cm = nat (tx + bits)" if "CacheLineInterleave_setup bits n tx = Inr cm" for n tx cm
    using that by (auto simp: CacheLineInterleave_setup_def split: if_splits)
  from start show ?case using Interleave_setup_ok(1)
    by (auto simp: GenericDRAM_init_def Let_def bindR_eq_Inr_iff sh split: if_splits)
next
  case (sent ms req ok req' ms')
  from sent(2) sent.IH show ?case by (elim GenericDRAM_send_parts) auto
next
  case (ticked ms ms')
  then show ?case by (auto simp: GenericDRAM_tick_def bindR_eq_Inr_iff dest!: tick_all_nth)
next
  case (reset ms)
  then show ?case by (simp add: GenericDRAM_reset_stats_recursive_def GenericDRAM_reset_stats_def)
qed

text \<open>The channel of an address exists.\<close>

lemma interleaved_channel:
  assumes "system_reachable cs cores (CacheLineInterleave_config bits) ratio ms"
  shows "nat (req_addr_vec (channel_apply (m_channel_mapper ms) req) ! 0) < length (m_controllers ms)"
    "0 \<le> req_addr_vec (channel_apply (m_channel_mapper ms) req) ! 0"
proof -
  obtain cm where cm: "m_channel_mapper ms = CacheLineInterleave cm" "interleave_ok cm" "m_num_channels cm = int (length (m_controllers ms))"
    using system_mapper [OF assms] by blast
  with cut.channel_exists [OF cm(2), of "req_addr req"]
  show "nat (req_addr_vec (channel_apply (m_channel_mapper ms) req) ! 0) < length (m_controllers ms)"
    "0 \<le> req_addr_vec (channel_apply (m_channel_mapper ms) req) ! 0"
    by (simp_all add: CacheLineInterleave_cut nat_less_iff)
qed

text \<open>The channel and the address inside the channel, by arithmetic.\<close>

lemma interleaved_request:
  assumes "interleave_ok cm" "m_num_channels cm = int n"
  shows "req_addr_vec (channel_apply (CacheLineInterleave cm) req) ! 0 = req_addr req div 2 ^ m_ch_shift cm mod int n"
    "req_addr (channel_apply (CacheLineInterleave cm) req) = req_addr req"
    "req_intra_channel_addr (channel_apply (CacheLineInterleave cm) req) =
       req_addr req div (2 ^ m_ch_shift cm * int n) * 2 ^ m_ch_shift cm + req_addr req mod 2 ^ m_ch_shift cm"
proof -
  have w: "int n = 2 ^ m_ch_width cm" using assms by (simp add: interleave_ok_def)
  have "push_bit k a AND take_bit k b = 0" for k and a b :: int
    by (rule bit_eqI) (auto simp: bit_and_iff bit_push_bit_iff bit_take_bit_iff)
  then have o: "push_bit k a OR take_bit k b = a * 2 ^ k + b mod 2 ^ k" for k and a b :: int
    by (simp add: disjunctive_add_eq_or [symmetric] push_bit_eq_mult take_bit_eq_mod)
  show "req_addr_vec (channel_apply (CacheLineInterleave cm) req) ! 0 = req_addr req div 2 ^ m_ch_shift cm mod int n"
    by (simp add: CacheLineInterleave_cut [OF assms(1)] cut_channel_def w drop_bit_eq_div take_bit_eq_mod set_channel_def)
  show "req_intra_channel_addr (channel_apply (CacheLineInterleave cm) req) =
       req_addr req div (2 ^ m_ch_shift cm * int n) * 2 ^ m_ch_shift cm + req_addr req mod 2 ^ m_ch_shift cm"
    by (simp add: CacheLineInterleave_cut [OF assms(1)] cut_channel_def w o drop_bit_eq_div power_add)
qed (rule channel_apply_keys(1))

lemma tick_all_accepted:
  assumes "tick_all gs = Inr gs'"
  shows "map (\<lambda>g. accepted (g_ctrl g)) gs' = map (\<lambda>g. accepted (g_ctrl g)) gs"
  by (rule nth_equalityI) (use tick_all_nth [OF assms] tick_accepted in auto)

lemma sum_stat_accepted:
  assumes "map (\<lambda>g. accepted (g_ctrl g)) gs' = map (\<lambda>g. accepted (g_ctrl g)) gs"
  shows "sum_stat s_num_read_reqs gs' = sum_stat s_num_read_reqs gs" "sum_stat s_num_write_reqs gs' = sum_stat s_num_write_reqs gs"
  using arg_cong [OF assms, of "map fst"] arg_cong [OF assms, of "map snd"] by (simp_all add: sum_stat_def comp_def)

lemma init_base_accepted: "init_base mk cfg cores = Inr c \<Longrightarrow> accepted c = (0, 0)"
  by (auto simp: init_base_def bindR_eq_Inr_iff zero_stats_def split: if_splits option.splits)

lemma created_accepted: "channel_created mk cfg cores g \<Longrightarrow> accepted (g_ctrl (number_channel (i, g))) = (0, 0)"
  using init_base_accepted by (fastforce simp: channel_created_def number_channel_def ctrl_set_channel_id_def)

lemma system_counts:
  "system_reachable cs cores (CacheLineInterleave_config bits) ratio ms \<Longrightarrow>
   s_num_read_requests ms = of_nat (sum_stat s_num_read_reqs (m_controllers ms)) \<and>
   s_num_write_requests ms = of_nat (sum_stat s_num_write_reqs (m_controllers ms))"
proof (induction rule: system_reachable.induct)
  case (start gs ms)
  have ms: "m_controllers ms = map number_channel (enumerate 0 gs)" "s_num_read_requests ms = 0" "s_num_write_requests ms = 0"
    using start(2) by (auto simp: GenericDRAM_init_def Let_def bindR_eq_Inr_iff split: if_splits)
  have "accepted (g_ctrl g) = (0, 0)" if "g \<in> set (m_controllers ms)" for g
    using that start(1) created_accepted by (fastforce simp: ms in_set_enumerate_eq list_all2_conv_all_nth)
  then have "\<forall>g \<in> set (m_controllers ms). s_num_read_reqs (m_stats (g_ctrl g)) = 0 \<and> s_num_write_reqs (m_stats (g_ctrl g)) = 0" by blast
  then have "map (\<lambda>g. s_num_read_reqs (m_stats (g_ctrl g))) (m_controllers ms) = map (\<lambda>_. 0) (m_controllers ms)"
    "map (\<lambda>g. s_num_write_reqs (m_stats (g_ctrl g))) (m_controllers ms) = map (\<lambda>_. 0) (m_controllers ms)" by simp_all
  then show ?case by (simp add: ms(2,3) sum_stat_def del: map_eq_conv)
next
  case (sent ms req ok req' ms')
  from sent(2) obtain ch req2 req3 c where p: "ch = nat (req_addr_vec (channel_apply (m_channel_mapper ms) req) ! 0)"
    "send req2 (g_ctrl (m_controllers ms ! ch)) = Inr (ok, req3, c)"
    "m_controllers ms' = (m_controllers ms)[ch := (m_controllers ms ! ch)\<lparr>g_ctrl := c\<rparr>]"
    "s_num_read_requests ms' = s_num_read_requests ms + (if ok \<and> req_type_id req3 = Type_Read then 1 else 0)"
    "s_num_write_requests ms' = s_num_write_requests ms + (if ok \<and> req_type_id req3 = Type_Write then 1 else 0)"
    by (rule GenericDRAM_send_parts)
  have ch: "ch < length (m_controllers ms)" using interleaved_channel(1) [OF sent(1)] p(1) by simp
  note c = send_counts [OF p(2)]
  from sum_stat_update [OF ch, of s_num_read_reqs "(m_controllers ms ! ch)\<lparr>g_ctrl := c\<rparr>"] c(1)
    sum_stat_update [OF ch, of s_num_write_reqs "(m_controllers ms ! ch)\<lparr>g_ctrl := c\<rparr>"] c(2) sent.IH
  show ?case by (simp add: p(3-5))
next
  case (ticked ms ms')
  from ticked(2) obtain gs where g: "tick_all (m_controllers ms) = Inr gs" "ms' = ms\<lparr>m_controllers := gs\<rparr>"
    by (auto simp: GenericDRAM_tick_def bindR_eq_Inr_iff)
  from sum_stat_accepted [OF tick_all_accepted [OF g(1)]] ticked.IH g(2) show ?case by simp
next
  case (reset ms)
  show ?case
    by (simp add: GenericDRAM_reset_stats_recursive_def GenericDRAM_reset_stats_def sum_stat_def comp_def
        GenericDDR_reset_stats_def reset_stats_def zero_stats_def)
qed

text \<open>A 32-bit \<^verbatim>\<open>int\<close> that counts to less than $2^{31}$ holds the count.\<close>

lemma sint_of_nat_small:
  assumes "n < 2 ^ 31"
  shows "sint (of_nat n :: 32 word) = int n"
proof -
  have "sint (of_nat n :: 32 word) = signed_take_bit 31 (int n)" by (simp add: signed_of_nat)
  also have "\<dots> = int n" by (rule signed_take_bit_int_eq_self) (use assms in simp_all)
  finally show ?thesis .
qed

lemma send_keeps_buses:
  assumes "system_reachable cs cores mc ratio ms" "i < length cs"
    and "registry (cc_dram_impl (snd (cs ! i))) = Some s" "constraints_ok s (cc_dram (snd (cs ! i)))"
    and "GenericDRAM_send req ms = Inr (ok, req', ms')"
  shows "bus_of (g_ctrl (m_controllers ms' ! i)) = bus_of (g_ctrl (m_controllers ms ! i))"
proof -
  from assms(5) obtain ch req2 req3 c where p: "send req2 (g_ctrl (m_controllers ms ! ch)) = Inr (ok, req3, c)"
    "m_controllers ms' = (m_controllers ms)[ch := (m_controllers ms ! ch)\<lparr>g_ctrl := c\<rparr>]"
    by (rule GenericDRAM_send_parts)
  have len: "i < length (m_controllers ms)"
    and r: "channel_reachable (fst (cs ! i)) (snd (cs ! i)) cores (int i) (m_controllers ms ! i)"
    using system_channels [OF assms(1)] assms(2) by auto
  have "bus_of c = bus_of (g_ctrl (m_controllers ms ! i))" if "ch = i"
    by (rule channel_facts [OF assms(3,4) r], rule send_bus(1) [OF _ _ _ p(1) [unfolded that]]) (auto simp: sys_ok_def)
  with p(2) len show ?thesis by (cases "ch = i") auto
qed

section \<open>Properties\<close>

text \<open>Property C31. A memory system is as safe as its channels: in every state it reaches, a tick is one
  cycle of the abstract command bus of every channel, from the channel's state before to its
  state after; a request sent and a reset of the statistics leave every bus as it is; and the
  command sequence of every channel respects the timing constraints of its configuration.\<close>

theorem system_refines_buses:
  assumes "system_reachable cs cores mc ratio ms" "i < length cs"
    and "registry (cc_dram_impl (snd (cs ! i))) = Some s" "constraints_ok s (cc_dram (snd (cs ! i)))"
  shows "(\<forall>ms'. GenericDRAM_tick ms = Inr ms' \<longrightarrow>
      bus_step s (bus_of (g_ctrl (m_controllers ms ! i))) (bus_of (g_ctrl (m_controllers ms' ! i))) \<and>
      m_clk (g_ctrl (m_controllers ms' ! i)) = m_clk (g_ctrl (m_controllers ms ! i)) + 1) \<and>
    (\<forall>req ok req' ms'. GenericDRAM_send req ms = Inr (ok, req', ms') \<longrightarrow>
      bus_of (g_ctrl (m_controllers ms' ! i)) = bus_of (g_ctrl (m_controllers ms ! i))) \<and>
    bus_of (g_ctrl (m_controllers (GenericDRAM_reset_stats_recursive ms) ! i)) = bus_of (g_ctrl (m_controllers ms ! i)) \<and>
    (\<exists>sp. create (cc_dram_impl (snd (cs ! i))) (cc_dram (snd (cs ! i))) = Inr sp \<and>
      trace_ok sp (Suc (enum_index (enum_Level s) ''Bank'')) (int i) (issued_of (m_events (g_ctrl (m_controllers ms ! i)))))"
proof (intro conjI allI impI)
  have len: "i < length (m_controllers ms)"
    and r: "channel_reachable (fst (cs ! i)) (snd (cs ! i)) cores (int i) (m_controllers ms ! i)"
    using system_channels [OF assms(1)] assms(2) by auto
  fix ms' assume "GenericDRAM_tick ms = Inr ms'"
  then have t: "GenericDDR_tick (m_controllers ms ! i) = Inr (m_controllers ms' ! i)"
    using len tick_all_nth by (fastforce simp: GenericDRAM_tick_def bindR_eq_Inr_iff)
  show b: "bus_step s (bus_of (g_ctrl (m_controllers ms ! i))) (bus_of (g_ctrl (m_controllers ms' ! i)))"
    by (rule channel_facts [OF assms(3,4) r]) (auto intro: tick_bus(1) [OF _ _ _ _ t])
  show "m_clk (g_ctrl (m_controllers ms' ! i)) = m_clk (g_ctrl (m_controllers ms ! i)) + 1"
    using b by cases (auto simp: bus_of_def)
next
  show "bus_of (g_ctrl (m_controllers ms' ! i)) = bus_of (g_ctrl (m_controllers ms ! i))"
    if "GenericDRAM_send req ms = Inr (ok, req', ms')" for req ok req' ms'
    by (rule send_keeps_buses [OF assms that])
next
  show "bus_of (g_ctrl (m_controllers (GenericDRAM_reset_stats_recursive ms) ! i)) = bus_of (g_ctrl (m_controllers ms ! i))"
    using system_channels [OF assms(1)] assms(2) by (simp add: GenericDRAM_reset_stats_recursive_def reset_stats_bus(1))
next
  from system_channels [OF assms(1)] assms(2)
  have r: "channel_reachable (fst (cs ! i)) (snd (cs ! i)) cores (int i) (m_controllers ms ! i)" by blast
  show "\<exists>sp. create (cc_dram_impl (snd (cs ! i))) (cc_dram (snd (cs ! i))) = Inr sp \<and>
      trace_ok sp (Suc (enum_index (enum_Level s) ''Bank'')) (int i) (issued_of (m_events (g_ctrl (m_controllers ms ! i))))"
    by (rule channel_facts [OF assms(3,4) r]) (auto simp: bus_inv_defs bus_of_def)
qed

definition ex_sys_read :: Request where
  "ex_sys_read = (Request_addr 4160 Type_Read)\<lparr>req_size_bytes := 64\<rparr>"

definition ex_sys_sent :: "GenericDRAM result" where
  "ex_sys_sent = bindR (GenericDRAM_send ex_sys_read ex_system) (\<lambda>(_, _, ms). Inr ms)"

definition ex_sys_ticked :: "GenericDRAM result" where
  "ex_sys_ticked = bindR ex_sys_sent GenericDRAM_tick"

lemma ex_sys_evaluated:
  "case ex_sys_ticked of
     Inr ms \<Rightarrow> map (\<lambda>g. length (issued_of (m_events (g_ctrl g)))) (m_controllers ms) = [0, 1]
   | _ \<Rightarrow> False"
  by code_simp

lemma ex_sys_run:
  obtains ok r ms ms' where "GenericDRAM_send ex_sys_read ex_system = Inr (ok, r, ms)" "GenericDRAM_tick ms = Inr ms'"
    "map (\<lambda>g. length (issued_of (m_events (g_ctrl g)))) (m_controllers ms') = [0, 1]"
proof -
  from ex_sys_evaluated obtain ms' where t: "ex_sys_ticked = Inr ms'"
    "map (\<lambda>g. length (issued_of (m_events (g_ctrl g)))) (m_controllers ms') = [0, 1]"
    by (auto split: sum.splits)
  from t(1) obtain ms where "ex_sys_sent = Inr ms" "GenericDRAM_tick ms = Inr ms'"
    unfolding ex_sys_ticked_def bindR_eq_Inr_iff by blast
  with t(2) that show ?thesis by (auto simp: ex_sys_sent_def bindR_eq_Inr_iff)
qed

lemma ex_sys_configs: "i < 2 \<Longrightarrow> ex_configs ! i = (ex_mk, ex_cc)" "length ex_configs = 2"
  by (auto simp: ex_configs_def less_2_cases_iff)

theorem system_refines_buses_witness:
  "\<exists>ok r ms ms'. GenericDRAM_send ex_sys_read ex_system = Inr (ok, r, ms) \<and> GenericDRAM_tick ms = Inr ms' \<and>
     bus_of (g_ctrl (m_controllers ms ! 1)) = bus_of (g_ctrl (m_controllers ex_system ! 1)) \<and>
     bus_step DDR3 (bus_of (g_ctrl (m_controllers ms ! 1))) (bus_of (g_ctrl (m_controllers ms' ! 1))) \<and>
     length (issued_of (m_events (g_ctrl (m_controllers ms' ! 1)))) = 1"
proof -
  obtain ok r ms ms' where s: "GenericDRAM_send ex_sys_read ex_system = Inr (ok, r, ms)" and t: "GenericDRAM_tick ms = Inr ms'"
    and l: "map (\<lambda>g. length (issued_of (m_events (g_ctrl g)))) (m_controllers ms') = [0, 1]" by (rule ex_sys_run)
  have f: "1 < length ex_configs" "registry (cc_dram_impl (snd (ex_configs ! 1))) = Some DDR3"
    "constraints_ok DDR3 (cc_dram (snd (ex_configs ! 1)))" using ex_facts by (simp_all add: ex_sys_configs)
  have r: "system_reachable ex_configs 1 (CacheLineInterleave_config 0) 1 ms" by (rule system_reachable.sent [OF ex_system_reachable s])
  from l have "length (issued_of (m_events (g_ctrl (m_controllers ms' ! 1)))) = 1"
    by (cases "m_controllers ms'") (auto simp: nth_Cons' Cons_eq_map_conv)
  with s t system_refines_buses [OF ex_system_reachable f] system_refines_buses [OF r f] show ?thesis by blast
qed

text \<open>Property C35. Routing: with cache-line interleaving over \<open>n\<close> channels, the bits of the address above
  the transaction offset select the channel, which exists. That channel's controller, and no
  other, is sent the request, with the channel bits cut out of the address inside the channel
  and with the next ordinal of the channel. An accepted request keeps that ordinal, a refused
  one carries none and leaves every controller as it was.\<close>

theorem send_routes_to_one_channel:
  assumes "system_reachable cs cores (CacheLineInterleave_config bits) ratio ms"
    and "GenericDRAM_send req ms = Inr (ok, req', ms')"
    and "n = length (m_controllers ms)" "shift = nat (int (calc_log2 (nat (m_tx_bytes ms))) + bits)"
    and "ch = nat (req_addr req div 2 ^ shift mod int n)"
  shows "ch < n \<and> (\<forall>j. j \<noteq> ch \<longrightarrow> m_controllers ms' ! j = m_controllers ms ! j) \<and>
    (\<exists>sent req3 c. send sent (g_ctrl (m_controllers ms ! ch)) = Inr (ok, req3, c) \<and>
       m_controllers ms' ! ch = (m_controllers ms ! ch)\<lparr>g_ctrl := c\<rparr> \<and>
       req_addr sent = req_addr req \<and> req_type_id sent = req_type_id req \<and> req_addr_vec sent ! 0 = int ch \<and>
       req_intra_channel_addr sent = req_addr req div (2 ^ shift * int n) * 2 ^ shift + req_addr req mod 2 ^ shift \<and>
       req_admission_ordinal sent = m_next_admission_ordinal ms ! ch) \<and>
    m_next_admission_ordinal ms' ! ch = m_next_admission_ordinal ms ! ch + 1 \<and>
    (if ok then req_admission_ordinal req' = m_next_admission_ordinal ms ! ch
     else req_admission_ordinal req' = -1 \<and> m_controllers ms' = m_controllers ms)"
proof -
  obtain cm where cm: "m_channel_mapper ms = CacheLineInterleave cm" "interleave_ok cm" "m_num_channels cm = int n"
    "m_ch_shift cm = shift" "length (m_next_admission_ordinal ms) = n"
    using system_mapper [OF assms(1)] assms(3,4) by auto
  let ?q = "channel_apply (m_channel_mapper ms) req"
  note q = interleaved_request [OF cm(2,3), unfolded cm(4), of req]
  have ch: "nat (req_addr_vec ?q ! 0) = ch" "req_addr_vec ?q ! 0 = int ch" "ch < n"
    using q(1,2) interleaved_channel [OF assms(1), of req] assms(3,5) by (simp_all add: cm(1))
  from assms(2) obtain ch' req2 req3 c where p: "ch' = nat (req_addr_vec ?q ! 0)"
    "req2 = ?q\<lparr>req_admission_ordinal := m_next_admission_ordinal ms ! ch'\<rparr>"
    "send req2 (g_ctrl (m_controllers ms ! ch')) = Inr (ok, req3, c)"
    "m_controllers ms' = (m_controllers ms)[ch' := (m_controllers ms ! ch')\<lparr>g_ctrl := c\<rparr>]"
    "m_next_admission_ordinal ms' = (m_next_admission_ordinal ms)[ch' := m_next_admission_ordinal ms ! ch' + 1]"
    "req' = (if ok then req3 else req3\<lparr>req_admission_ordinal := -1\<rparr>)"
    by (rule GenericDRAM_send_parts)
  from p(1) ch have e: "ch' = ch" by simp
  note o = send_ordinal [OF p(3)]
  have same: "(m_controllers ms ! ch)\<lparr>g_ctrl := g_ctrl (m_controllers ms ! ch)\<rparr> = m_controllers ms ! ch" by simp
  have "req_intra_channel_addr req2 = req_addr req div (2 ^ shift * int n) * 2 ^ shift + req_addr req mod 2 ^ shift"
    using q(3) by (simp add: p(2) cm(1))
  moreover have "req_addr req2 = req_addr req" "req_type_id req2 = req_type_id req" "req_addr_vec req2 ! 0 = int ch"
    "req_admission_ordinal req2 = m_next_admission_ordinal ms ! ch" using ch by (simp_all add: p(2) e)
  moreover have "m_controllers ms' ! ch = (m_controllers ms ! ch)\<lparr>g_ctrl := c\<rparr>" using p(4) e ch(3) assms(3) by simp
  moreover have "if ok then req_admission_ordinal req' = m_next_admission_ordinal ms ! ch
     else req_admission_ordinal req' = -1 \<and> m_controllers ms' = m_controllers ms"
    using o p(4,6) same calculation(5) unfolding e by simp
  moreover have "\<forall>j. j \<noteq> ch \<longrightarrow> m_controllers ms' ! j = m_controllers ms ! j"
    "m_next_admission_ordinal ms' ! ch = m_next_admission_ordinal ms ! ch + 1" using p(4,5) e ch(3) cm(5) by simp_all
  ultimately show ?thesis using ch(3) p(3) e by blast
qed

theorem send_routes_to_one_channel_witness:
  "\<exists>ok r ms sent r' c. GenericDRAM_send ex_sys_read ex_system = Inr (ok, r, ms) \<and> m_controllers ms ! 0 = m_controllers ex_system ! 0 \<and>
     send sent (g_ctrl (m_controllers ex_system ! 1)) = Inr (ok, r', c) \<and> g_ctrl (m_controllers ms ! 1) = c \<and>
     req_addr sent = 4160 \<and> req_intra_channel_addr sent = 2048 \<and> m_next_admission_ordinal ms ! 1 = 1"
proof -
  obtain ok r ms where s: "GenericDRAM_send ex_sys_read ex_system = Inr (ok, r, ms)" using ex_sys_run by blast
  have l: "calc_log2 64 = 6" by code_simp
  have n: "2 = length (m_controllers ex_system)" "6 = nat (int (calc_log2 (nat (m_tx_bytes ex_system))) + 0)"
    "1 = nat (req_addr ex_sys_read div 2 ^ 6 mod int 2)" "m_next_admission_ordinal ex_system ! 1 = 0" "req_addr ex_sys_read = 4160"
    by (simp_all add: ex_system_def ex_sys_read_def Request_addr_def default_Request_def l)
  note w = send_routes_to_one_channel [OF ex_system_reachable s n(1-3)]
  from w obtain sent r' c where "send sent (g_ctrl (m_controllers ex_system ! 1)) = Inr (ok, r', c)"
    "m_controllers ms ! 1 = (m_controllers ex_system ! 1)\<lparr>g_ctrl := c\<rparr>" "req_addr sent = 4160"
    "req_intra_channel_addr sent = 2048" unfolding n(5) by auto
  moreover have "m_controllers ms ! 0 = m_controllers ex_system ! 0" "m_next_admission_ordinal ms ! 1 = 1"
    using w n(4) by simp_all
  ultimately show ?thesis using s by auto
qed

text \<open>Property C36. Interleaving loses nothing: two requests with the same channel and the same address
  inside the channel have the same address.\<close>

theorem interleaving_lossless:
  assumes "CacheLineInterleave_setup bits n tx = Inr cm" "0 < n"
    and "req_addr_vec (CacheLineInterleave_apply cm r) ! 0 = req_addr_vec (CacheLineInterleave_apply cm r') ! 0"
    and "req_intra_channel_addr (CacheLineInterleave_apply cm r) = req_intra_channel_addr (CacheLineInterleave_apply cm r')"
  shows "req_addr r = req_addr r'"
proof -
  have ok: "interleave_ok cm" using Interleave_setup_ok(1) [OF assms(1,2)] by blast
  from assms(3,4) have "cut_channel cm (req_addr r) = cut_channel cm (req_addr r')"
    by (intro prod_eqI) (simp_all add: CacheLineInterleave_cut [OF ok])
  then show ?thesis by (rule cut.split_injective [OF ok])
qed

theorem interleaving_lossless_witness:
  "\<exists>cm. CacheLineInterleave_setup 0 4 6 = Inr cm \<and>
     \<not> (req_addr_vec (CacheLineInterleave_apply cm (Request_addr 64 0)) ! 0 = req_addr_vec (CacheLineInterleave_apply cm (Request_addr 320 0)) ! 0 \<and>
        req_intra_channel_addr (CacheLineInterleave_apply cm (Request_addr 64 0)) =
          req_intra_channel_addr (CacheLineInterleave_apply cm (Request_addr 320 0)))"
proof -
  have s: "CacheLineInterleave_setup 0 4 6 = Inr \<lparr>ch_param = 0, m_num_channels = 4, m_ch_shift = 6, m_ch_width = 2\<rparr>" by code_simp
  have "req_addr (Request_addr 64 0) \<noteq> req_addr (Request_addr 320 0)" by (simp add: Request_addr_def)
  with interleaving_lossless [OF s, of "Request_addr 64 0" "Request_addr 320 0"] s show ?thesis by auto
qed

text \<open>Property C37. The totals are right: the numbers of reads and writes the memory system reports are,
  as 32-bit integers, the sums of those its channels accepted since the counters were last
  zero, and they are the sums themselves while these are below \<open>2 ^ 31\<close>.\<close>

theorem system_totals:
  assumes "system_reachable cs cores (CacheLineInterleave_config bits) ratio ms"
    and "reads = sum_list (map (\<lambda>g. s_num_read_reqs (m_stats (g_ctrl g))) (m_controllers ms))"
    and "writes = sum_list (map (\<lambda>g. s_num_write_reqs (m_stats (g_ctrl g))) (m_controllers ms))"
  shows "s_num_read_requests ms = of_nat reads \<and> s_num_write_requests ms = of_nat writes \<and>
    (reads < 2 ^ 31 \<longrightarrow> sint (s_num_read_requests ms) = int reads) \<and>
    (writes < 2 ^ 31 \<longrightarrow> sint (s_num_write_requests ms) = int writes)"
  using system_counts [OF assms(1)] assms(2,3) by (simp add: sum_stat_def sint_of_nat_small)

theorem system_totals_witness:
  "\<exists>ok r ms. GenericDRAM_send ex_sys_read ex_system = Inr (ok, r, ms) \<and>
     sum_list (map (\<lambda>g. s_num_read_reqs (m_stats (g_ctrl g))) (m_controllers ms)) = 1 \<and> sint (s_num_read_requests ms) = 1"
proof -
  have "case ex_sys_sent of Inr ms \<Rightarrow> sum_list (map (\<lambda>g. s_num_read_reqs (m_stats (g_ctrl g))) (m_controllers ms)) = 1 | _ \<Rightarrow> False"
    by code_simp
  then obtain ms where m: "ex_sys_sent = Inr ms" "sum_list (map (\<lambda>g. s_num_read_reqs (m_stats (g_ctrl g))) (m_controllers ms)) = 1"
    by (auto split: sum.splits)
  from m(1) obtain ok r where s: "GenericDRAM_send ex_sys_read ex_system = Inr (ok, r, ms)"
    by (auto simp: ex_sys_sent_def bindR_eq_Inr_iff)
  from system_totals [OF system_reachable.sent [OF ex_system_reachable s] m(2) [symmetric] refl] s m(2) show ?thesis by auto
qed

end
