(* ===== verification/Row_Migration.thy ===== *)
theory Row_Migration
  imports Activation_Trackers
begin

text \<open>
  \<^verbatim>\<open>ramulator/controller/plugin/impl/rrs.cpp\<close> and \<^verbatim>\<open>aqua.cpp\<close>: the plugins that move hot rows by
  rewriting the Row Indirection Table of the controller's address mapper. \<^verbatim>\<open>setup\<close> insists
  on that mapper, so the hooks find it; the model leaves a controller with another mapper
  alone. The orders in which the hash maps are iterated (the counters, the indirection table)
  and the sequence of random rows are parameters. Debug output is left out.
\<close>

section \<open>What the two share\<close>

text \<open>
  The hot-row table: the new count of the row, or \<open>None\<close> when the hook returns early because
  only the spillover counter was raised.
\<close>

definition hot_row_count ::
  "(counter_table \<Rightarrow> counter_table) \<Rightarrow> int \<Rightarrow> int \<Rightarrow> counter_table \<times> int \<Rightarrow> int option \<times> counter_table \<times> int" where
  "hot_row_count iter entries row s =
     (let (t, spill) = s in
      case map_of t row of
        Some n \<Rightarrow> (Some (n + 1), AList.update row (n + 1) t, spill)
      | None \<Rightarrow>
          if int (length t) < entries then (Some 1, AList.update row 1 t, spill)
          else (case find (\<lambda>(_, n). n = spill) (iter t) of
                  Some (r, n) \<Rightarrow> (Some (n + 1), AList.update row (n + 1) (AList.delete r t), spill)
                | None \<Rightarrow> (None, t, spill + 1)))"

text \<open>A whole row as one request per cache line, with the final command already chosen.\<close>

definition row_copy_requests :: "AddrVec_t \<Rightarrow> nat \<Rightarrow> nat \<Rightarrow> int \<Rightarrow> int \<Rightarrow> int \<Rightarrow> int \<Rightarrow> Request list" where
  "row_copy_requests template row_level col_level row final_cmd num_cls prefetch =
     map (\<lambda>cl. (Request_vec (template[row_level := row, col_level := cl * prefetch]) (-1))
            \<lparr>req_command := final_cmd, req_final_command := final_cmd\<rparr>) [0..num_cls - 1]"

record RowMover =
  mv_rd_cmd_id :: int
  mv_wr_cmd_id :: int
  mv_row_level :: nat
  mv_col_level :: nat
  mv_num_banks :: nat
  mv_num_rows_per_bank :: int
  mv_num_cls :: int
  mv_prefetch :: int

definition issue_row_copy :: "RowMover \<Rightarrow> AddrVec_t \<Rightarrow> int \<Rightarrow> bool \<Rightarrow> Controller \<Rightarrow> Controller result" where
  "issue_row_copy m template row is_write =
     send_all (row_copy_requests template (mv_row_level m) (mv_col_level m) row
       (if is_write then mv_wr_cmd_id m else mv_rd_cmd_id m) (mv_num_cls m) (mv_prefetch m))"

definition mover_setup :: "DRAMDevice \<Rightarrow> RowMover result" where
  "mover_setup dev =
     (let sp = m_spec dev in
      bindR (get_command_id sp ''RD'') (\<lambda>rd.
      bindR (get_command_id sp ''WR'') (\<lambda>wr.
      bindR (get_level_id sp ''Row'') (\<lambda>row.
      bindR (get_level_id sp ''Column'') (\<lambda>col.
      bindR (get_level_size sp ''Row'') (\<lambda>rows.
      bindR (get_level_size sp ''Column'') (\<lambda>cols.
      bindR (get_timing_value sp ''tCK_ps'') (\<lambda>_.
        Inr \<lparr>mv_rd_cmd_id = int rd, mv_wr_cmd_id = int wr, mv_row_level = row, mv_col_level = col,
             mv_num_banks = length (m_bank_nodes dev), mv_num_rows_per_bank = rows,
             mv_num_cls = cols div internal_prefetch_size sp, mv_prefetch = internal_prefetch_size sp\<rparr>))))))))"

definition with_rit :: "(RITAddrMapper \<Rightarrow> RITAddrMapper) \<Rightarrow> Controller \<Rightarrow> Controller" where
  "with_rit f c = (case m_addr_mapper c of RITMapper r \<Rightarrow> c\<lparr>m_addr_mapper := RITMapper (f r)\<rparr> | BaseMapper _ \<Rightarrow> c)"

section \<open>RRS\<close>

record RRS =
  rrs_mover :: RowMover
  rrs_num_hrt_entries :: int
  rrs_threshold :: int
  rrs_reset_period_clk :: int
  rrs_clk :: "32 word"
  rrs_hrt :: "counter_table list"
  rrs_spillover_counter :: "int list"
  rrs_drawn :: nat
  rrs_num_swaps :: nat
  rrs_num_unswaps :: nat
  rrs_num_reswaps :: nat

definition RRS_setup :: "int \<Rightarrow> int \<Rightarrow> int \<Rightarrow> int \<Rightarrow> Controller \<Rightarrow> (RRS \<times> Controller) result" where
  "RRS_setup hrt_entries rit_entries thr reset_period_clk c =
     (case m_addr_mapper c of
        BaseMapper _ \<Rightarrow> throw ''RRS requires the controller's addr_mapper to be RITAddrMapper''
      | RITMapper _ \<Rightarrow>
          bindR (mover_setup (m_device c)) (\<lambda>m.
            Inr (\<lparr>rrs_mover = m, rrs_num_hrt_entries = hrt_entries, rrs_threshold = thr,
                  rrs_reset_period_clk = reset_period_clk, rrs_clk = 0, rrs_hrt = replicate (mv_num_banks m) [],
                  rrs_spillover_counter = replicate (mv_num_banks m) 0, rrs_drawn = 0,
                  rrs_num_swaps = 0, rrs_num_unswaps = 0, rrs_num_reswaps = 0\<rparr>,
                 with_rit (init_rit (mv_num_banks m) rit_entries) c)))"

definition RRS_pre_schedule :: "RRS \<times> Controller \<Rightarrow> RRS \<times> Controller" where
  "RRS_pre_schedule s =
     (let p = (fst s)\<lparr>rrs_clk := rrs_clk (fst s) + 1\<rparr>; c = snd s in
      if sint (rrs_clk p) mod rrs_reset_period_clk p = 0
      then (p\<lparr>rrs_hrt := map (\<lambda>_. []) (rrs_hrt p), rrs_spillover_counter := map (\<lambda>_. 0) (rrs_spillover_counter p)\<rparr>,
            with_rit rit_unlock c)
      else (p, c))"

text \<open>
  The loop that draws until a row suits; \<open>None\<close> when no later draw does. The pair is the row
  and the number of values drawn so far.
\<close>

partial_function (option) random_cold_row :: "(nat \<Rightarrow> int) \<Rightarrow> (int \<Rightarrow> bool) \<Rightarrow> nat \<Rightarrow> (int \<times> nat) option" where
  "random_cold_row draw good n = (if good (draw n) then Some (draw n, Suc n) else random_cold_row draw good (Suc n))"

declare random_cold_row.simps [code]

definition is_cold :: "counter_table \<Rightarrow> RITAddrMapper \<Rightarrow> nat \<Rightarrow> int \<Rightarrow> int \<Rightarrow> bool" where
  "is_cold hrt r bank src row \<longleftrightarrow> map_of hrt row = None \<and> check_rit r bank row = -1 \<and> row \<noteq> src"

text \<open>Read both rows, then write both.\<close>

definition issue_swap :: "RowMover \<Rightarrow> AddrVec_t \<Rightarrow> int \<Rightarrow> int \<Rightarrow> Controller \<Rightarrow> Controller result" where
  "issue_swap m template src dst c =
     bindR (issue_row_copy m template src False c) (\<lambda>c.
     bindR (issue_row_copy m template dst False c) (\<lambda>c.
     bindR (issue_row_copy m template dst True c) (issue_row_copy m template src True)))"

text \<open>Making room in a full table.\<close>

definition unswap_if_full :: "rit_order \<Rightarrow> RRS \<Rightarrow> AddrVec_t \<Rightarrow> nat \<Rightarrow> RITAddrMapper \<Rightarrow> Controller \<Rightarrow> (nat \<times> RITAddrMapper \<times> Controller) result" where
  "unswap_if_full order p av bank r c =
     (if is_rit_full r bank
      then let (u_src, u_dst) = the (get_unswap_pair order r bank (map_of (rrs_hrt p ! bank))) in
        bindR (issue_swap (rrs_mover p) av u_src u_dst c) (\<lambda>c'. Inr (1, remove_entry bank u_src u_dst r, c'))
      else Inr (0, r, c))"

text \<open>The three branches of the swap logic; the outer option is the drawing loop.\<close>

definition rrs_fresh :: "rit_order \<Rightarrow> (nat \<Rightarrow> int) \<Rightarrow> AddrVec_t \<Rightarrow> nat \<Rightarrow> int \<Rightarrow> RRS \<Rightarrow> RITAddrMapper \<Rightarrow> Controller \<Rightarrow> (RRS \<times> RITAddrMapper \<times> Controller) result option" where
  "rrs_fresh order draw av bank row p r c =
     (case unswap_if_full order p av bank r c of
        Inl e \<Rightarrow> Some (Inl e)
      | Inr (u, r1, c1) \<Rightarrow>
          (case random_cold_row draw (is_cold (rrs_hrt p ! bank) r1 bank row) (rrs_drawn p) of
             None \<Rightarrow> None
           | Some (dst, n) \<Rightarrow>
               Some (bindR (issue_swap (rrs_mover p) av row dst c1) (\<lambda>c2.
                 Inr (p\<lparr>rrs_drawn := n, rrs_num_unswaps := rrs_num_unswaps p + u, rrs_num_swaps := rrs_num_swaps p + 1\<rparr>,
                      insert_entry bank row dst r1, c2)))))"

definition rrs_unswap :: "(nat \<Rightarrow> int) \<Rightarrow> AddrVec_t \<Rightarrow> nat \<Rightarrow> int \<Rightarrow> int \<Rightarrow> RRS \<Rightarrow> RITAddrMapper \<Rightarrow> Controller \<Rightarrow> (RRS \<times> RITAddrMapper \<times> Controller) result option" where
  "rrs_unswap draw av bank row prev p r c =
     (case random_cold_row draw (is_cold (rrs_hrt p ! bank) r bank row) (rrs_drawn p) of
        None \<Rightarrow> None
      | Some (dst, n) \<Rightarrow>
          Some (bindR (issue_swap (rrs_mover p) av row prev c) (\<lambda>c1.
                bindR (issue_swap (rrs_mover p) av row dst c1) (\<lambda>c2.
            Inr (p\<lparr>rrs_drawn := n, rrs_num_unswaps := rrs_num_unswaps p + 1, rrs_num_swaps := rrs_num_swaps p + 1\<rparr>,
                 insert_entry bank row dst (remove_entry bank row prev r), c2)))))"

definition rrs_reswap :: "rit_order \<Rightarrow> (nat \<Rightarrow> int) \<Rightarrow> AddrVec_t \<Rightarrow> nat \<Rightarrow> int \<Rightarrow> int \<Rightarrow> RRS \<Rightarrow> RITAddrMapper \<Rightarrow> Controller \<Rightarrow> (RRS \<times> RITAddrMapper \<times> Controller) result option" where
  "rrs_reswap order draw av bank row prev p r c =
     (case unswap_if_full order p av bank r c of
        Inl e \<Rightarrow> Some (Inl e)
      | Inr (u, r1, c1) \<Rightarrow>
          (let good = is_cold (rrs_hrt p ! bank) r1 bank row in
           case random_cold_row draw good (rrs_drawn p) of
             None \<Rightarrow> None
           | Some (dst0, n0) \<Rightarrow>
               (case random_cold_row draw good n0 of
                  None \<Rightarrow> None
                | Some (dst1, n1) \<Rightarrow>
                    Some (bindR (issue_swap (rrs_mover p) av row dst0 c1) (\<lambda>c2.
                          bindR (issue_swap (rrs_mover p) av prev dst1 c2) (\<lambda>c3.
                      Inr (p\<lparr>rrs_drawn := n1, rrs_num_unswaps := rrs_num_unswaps p + u,
                             rrs_num_swaps := rrs_num_swaps p + 2, rrs_num_reswaps := rrs_num_reswaps p + 1\<rparr>,
                           insert_entry bank prev dst0 (insert_entry bank row dst1 (remove_entry bank row prev r1)), c3)))))))"

definition rrs_swap :: "rit_order \<Rightarrow> (nat \<Rightarrow> int) \<Rightarrow> AddrVec_t \<Rightarrow> nat \<Rightarrow> int \<Rightarrow> RRS \<Rightarrow> RITAddrMapper \<Rightarrow> Controller \<Rightarrow> (RRS \<times> RITAddrMapper \<times> Controller) result option" where
  "rrs_swap order draw av bank row p r c =
     (let prev = check_rit r bank row in
      if prev \<noteq> -1
      then (if is_rit_locked r bank row then rrs_reswap order draw av bank row prev p r c else rrs_unswap draw av bank row prev p r c)
      else rrs_fresh order draw av bank row p r c)"

definition RRS_on_issue ::
  "(counter_table \<Rightarrow> counter_table) \<Rightarrow> rit_order \<Rightarrow> (nat \<Rightarrow> int) \<Rightarrow> Request \<Rightarrow> RRS \<times> Controller \<Rightarrow> (RRS \<times> Controller) result option" where
  "RRS_on_issue iter order draw req s =
     (let p = fst s; c = snd s; dev = m_device c in
      if \<not> opens_one_bank (m_spec dev) req then Some (Inr s)
      else let bank = bank_of dev req; row = req_addr_vec req ! mv_row_level (rrs_mover p);
               (count, t, spill) = hot_row_count iter (rrs_num_hrt_entries p) row (rrs_hrt p ! bank, rrs_spillover_counter p ! bank);
               p1 = p\<lparr>rrs_hrt := (rrs_hrt p)[bank := t], rrs_spillover_counter := (rrs_spillover_counter p)[bank := spill]\<rparr>
           in case count of
                None \<Rightarrow> Some (Inr (p1, c))
              | Some n \<Rightarrow>
                  if n mod rrs_threshold p \<noteq> 0 then Some (Inr (p1, c))
                  else (case m_addr_mapper c of
                      BaseMapper _ \<Rightarrow> Some (Inr (p1, c))
                    | RITMapper r \<Rightarrow>
                        map_option (\<lambda>res. bindR res (\<lambda>(p2, r', c'). Inr (p2, c'\<lparr>m_addr_mapper := RITMapper r'\<rparr>)))
                          (rrs_swap order draw (req_addr_vec req) bank row p1 r c)))"

section \<open>AQUA\<close>

record AQUA =
  aq_mover :: RowMover
  aq_num_art_entries :: int
  aq_num_qrows_per_bank :: int
  aq_art_threshold :: int
  aq_reset_period_clk :: int
  aq_clk :: "32 word"
  aq_art :: "counter_table list"
  aq_spillover_counter :: "int list"
  aq_rpt :: "(int \<times> int) list list"
  aq_rqa_head :: int
  aq_num_migrations :: nat
  aq_num_r_migrations :: nat

definition AQUA_setup :: "int \<Rightarrow> int \<Rightarrow> int \<Rightarrow> int \<Rightarrow> int \<Rightarrow> Controller \<Rightarrow> (AQUA \<times> Controller) result" where
  "AQUA_setup art_entries fpt_entries qrows thr reset_period_clk c =
     (case m_addr_mapper c of
        BaseMapper _ \<Rightarrow> throw ''AQUA requires the controller's addr_mapper to be RITAddrMapper''
      | RITMapper _ \<Rightarrow>
          bindR (mover_setup (m_device c)) (\<lambda>m.
            if qrows \<le> 0 \<or> qrows \<ge> mv_num_rows_per_bank m then throw ''AQUA: num_qrows_per_bank out of range''
            else Inr (\<lparr>aq_mover = m, aq_num_art_entries = art_entries, aq_num_qrows_per_bank = qrows, aq_art_threshold = thr,
                       aq_reset_period_clk = reset_period_clk, aq_clk = 0, aq_art = replicate (mv_num_banks m) [],
                       aq_spillover_counter = replicate (mv_num_banks m) 0, aq_rpt = replicate (mv_num_banks m) [],
                       aq_rqa_head = 0, aq_num_migrations = 0, aq_num_r_migrations = 0\<rparr>,
                      with_rit (init_rit (mv_num_banks m) fpt_entries) c)))"

definition AQUA_pre_schedule :: "AQUA \<Rightarrow> AQUA" where
  "AQUA_pre_schedule p0 =
     (let p = p0\<lparr>aq_clk := aq_clk p0 + 1\<rparr> in
      if sint (aq_clk p) mod aq_reset_period_clk p = 0
      then p\<lparr>aq_art := map (\<lambda>_. []) (aq_art p), aq_spillover_counter := map (\<lambda>_. 0) (aq_spillover_counter p)\<rparr>
      else p)"

definition issue_migration :: "RowMover \<Rightarrow> AddrVec_t \<Rightarrow> int \<Rightarrow> int \<Rightarrow> Controller \<Rightarrow> Controller result" where
  "issue_migration m template src_row dst_row c =
     bindR (issue_row_copy m template src_row False c) (issue_row_copy m template dst_row True)"

text \<open>The row that holds the head slot goes home first.\<close>

definition aqua_evict :: "AddrVec_t \<Rightarrow> nat \<Rightarrow> AQUA \<times> Controller \<Rightarrow> (AQUA \<times> Controller) result" where
  "aqua_evict av bank s =
     (let p = fst s; c = snd s; q_row = aq_rqa_head p in
      case map_of (aq_rpt p ! bank) q_row of
        None \<Rightarrow> Inr s
      | Some prev \<Rightarrow>
          bindR (issue_migration (aq_mover p) av q_row prev (with_rit (remove_entry bank prev q_row) c)) (\<lambda>c'.
            Inr (p\<lparr>aq_rpt := (aq_rpt p)[bank := AList.delete q_row (aq_rpt p ! bank)],
                   aq_num_r_migrations := aq_num_r_migrations p + 1\<rparr>, c')))"

text \<open>A quarantined row moves under the new head; a workload row is entered.\<close>

definition aqua_enter :: "nat \<Rightarrow> int \<Rightarrow> AQUA \<times> Controller \<Rightarrow> AQUA \<times> Controller" where
  "aqua_enter bank row s =
     (let p = fst s; c = snd s; q_row = aq_rqa_head p; t = aq_rpt p ! bank in
      if row < aq_num_qrows_per_bank p
      then (case map_of t row of
              None \<Rightarrow> s
            | Some original \<Rightarrow>
                (p\<lparr>aq_rpt := (aq_rpt p)[bank := AList.update q_row original (AList.delete row t)]\<rparr>,
                 with_rit (insert_entry bank original q_row) (with_rit (remove_entry bank original row) c)))
      else (p\<lparr>aq_rpt := (aq_rpt p)[bank := AList.update q_row row t]\<rparr>, with_rit (insert_entry bank row q_row) c))"

definition AQUA_on_issue ::
  "(counter_table \<Rightarrow> counter_table) \<Rightarrow> Request \<Rightarrow> AQUA \<times> Controller \<Rightarrow> (AQUA \<times> Controller) result" where
  "AQUA_on_issue iter req s =
     (let p = fst s; c = snd s; dev = m_device c in
      if \<not> opens_one_bank (m_spec dev) req then Inr s
      else let bank = bank_of dev req; row = req_addr_vec req ! mv_row_level (aq_mover p);
               (count, t, spill) = hot_row_count iter (aq_num_art_entries p) row (aq_art p ! bank, aq_spillover_counter p ! bank);
               p1 = p\<lparr>aq_art := (aq_art p)[bank := t], aq_spillover_counter := (aq_spillover_counter p)[bank := spill]\<rparr>
           in case count of
                None \<Rightarrow> Inr (p1, c)
              | Some n \<Rightarrow>
                  if n mod aq_art_threshold p \<noteq> 0 then Inr (p1, c)
                  else bindR (aqua_evict (req_addr_vec req) bank (p1, c)) (\<lambda>s2.
                    let (p3, c3) = aqua_enter bank row s2 in
                    bindR (issue_migration (aq_mover p3) (req_addr_vec req) row (aq_rqa_head p3) c3) (\<lambda>c4.
                      Inr (p3\<lparr>aq_num_migrations := aq_num_migrations p3 + 1,
                              aq_rqa_head := (aq_rqa_head p3 + 1) mod aq_num_qrows_per_bank p3\<rparr>, c4))))"

section \<open>The drawing loop\<close>

lemma random_cold_row_result:
  assumes "random_cold_row draw good n = Some (row, m)"
  shows "good row \<and> n < m \<and> row = draw (m - 1)"
proof -
  have "fst y = draw (snd y - 1) \<and> good (fst y) \<and> n < snd y" if "random_cold_row draw good n = Some y" for y
    by (rule random_cold_row.raw_induct [where P = "\<lambda>draw good n y. fst y = draw (snd y - 1) \<and> good (fst y) \<and> n < snd y", OF _ that])
      (fastforce split: if_splits)
  from this [OF assms] show ?thesis by auto
qed

lemma random_cold_row_returns:
  "good (draw m) \<Longrightarrow> n \<le> m \<Longrightarrow> \<exists>y. random_cold_row draw good n = Some y"
proof (induction "m - n" arbitrary: n)
  case 0
  then have "n = m" by simp
  with 0(2) show ?case by (simp add: random_cold_row.simps)
next
  case (Suc k)
  then have "\<exists>y. random_cold_row draw good (Suc n) = Some y" by simp
  then show ?case by (subst random_cold_row.simps) auto
qed

section \<open>Swaps keep the table symmetric\<close>

text \<open>A table of swaps: one entry per row, symmetric, of two different rows, which are not negative.\<close>

definition rit_good :: "RITAddrMapper \<Rightarrow> nat \<Rightarrow> bool" where
  "rit_good r bank \<longleftrightarrow> bank < length (m_rit r) \<and> distinct (map fst (m_rit r ! bank)) \<and> rit_sym r bank \<and>
     (\<forall>a e. rit_find r bank a = Some e \<longrightarrow> 0 \<le> a \<and> swapped_row e \<noteq> a)"

lemma check_rit_absent:
  assumes "rit_good r bank" "check_rit r bank row = -1"
  shows "rit_find r bank row = None"
proof (rule ccontr)
  assume "rit_find r bank row \<noteq> None"
  then obtain e where e: "rit_find r bank row = Some e" by blast
  with assms(2) have "swapped_row e = -1" by (simp add: check_rit_def)
  with assms(1) e obtain e' where "rit_find r bank (-1) = Some e'" unfolding rit_good_def rit_sym_def by metis
  with assms(1) show False by (fastforce simp: rit_good_def)
qed

lemma check_rit_present: "check_rit r bank row = d \<Longrightarrow> d \<noteq> -1 \<Longrightarrow> \<exists>e. rit_find r bank row = Some e \<and> swapped_row e = d"
  by (auto simp: check_rit_def split: option.splits)

lemma rit_partner:
  assumes "rit_good r bank" "rit_find r bank s = Some e" "swapped_row e = d"
  shows "s \<noteq> d" "\<exists>e'. rit_find r bank d = Some e' \<and> swapped_row e' = s" "0 \<le> s" "0 \<le> d"
  using assms by (fastforce simp: rit_good_def rit_sym_def)+

lemma rit_good_insert:
  assumes "rit_good r bank" "rit_find r bank s = None" "rit_find r bank d = None" "0 \<le> s" "0 \<le> d" "s \<noteq> d"
  shows "rit_good (insert_entry bank s d r) bank"
proof -
  have b: "bank < length (m_rit r)" using assms(1) by (simp add: rit_good_def)
  have "distinct (map fst (m_rit (insert_entry bank s d r) ! bank))"
    using assms(1) b by (simp add: rit_good_def insert_entry_def distinct_update)
  then show ?thesis
    using assms rit_sym_insert [OF b _ assms(2,3)] rit_find_insert [OF b, of s d]
    by (auto simp: rit_good_def insert_entry_def)
qed

lemma rit_good_remove:
  assumes g: "rit_good r bank"
    and e: "(\<exists>e. rit_find r bank s = Some e \<and> swapped_row e = d) \<or> (rit_find r bank s = None \<and> rit_find r bank d = None)"
  shows "rit_good (remove_entry bank s d r) bank"
    "rit_find (remove_entry bank s d r) bank x = (if x = s \<or> x = d then None else rit_find r bank x)"
proof -
  have b: "bank < length (m_rit r)" using g by (simp add: rit_good_def)
  note f = rit_find_remove [OF b, of s d]
  show "rit_find (remove_entry bank s d r) bank x = (if x = s \<or> x = d then None else rit_find r bank x)" by (rule f)
  have "rit_find (remove_entry bank s d r) bank = rit_find r bank" if "rit_find r bank s = None" "rit_find r bank d = None"
    using that by (auto simp: f fun_eq_iff)
  with g e rit_sym_remove [OF b] have sy: "rit_sym (remove_entry bank s d r) bank"
    by (auto simp: rit_good_def rit_sym_def)
  have "distinct (map fst (m_rit (remove_entry bank s d r) ! bank))"
    using g b by (simp add: rit_good_def remove_entry_def distinct_delete)
  with g b sy show "rit_good (remove_entry bank s d r) bank"
    by (auto simp: rit_good_def f split: if_splits) (simp_all add: remove_entry_def)
qed

lemma rit_good_other:
  assumes "rit_good r b" "b \<noteq> bank"
  shows "rit_good (insert_entry bank s d r) b" "rit_good (remove_entry bank s d r) b"
proof -
  have "rit_find (insert_entry bank s d r) b = rit_find r b" "rit_find (remove_entry bank s d r) b = rit_find r b"
    using assms(2) by (auto simp: fun_eq_iff rit_find_def insert_entry_def remove_entry_def)
  with assms show "rit_good (insert_entry bank s d r) b" "rit_good (remove_entry bank s d r) b"
    by (simp_all add: rit_good_def rit_sym_def insert_entry_def remove_entry_def)
qed

text \<open>The tables of all banks, with room for at least one swap in each.\<close>

definition rit_all :: "nat \<Rightarrow> RITAddrMapper \<Rightarrow> bool" where
  "rit_all n r \<longleftrightarrow> length (m_rit r) = n \<and> 0 < m_max_entries_per_bank r \<and> (\<forall>b < n. rit_good r b)"

lemma rit_all_insert:
  assumes "rit_all n r" "bank < n" "rit_find r bank s = None" "rit_find r bank d = None" "0 \<le> s" "0 \<le> d" "s \<noteq> d"
  shows "rit_all n (insert_entry bank s d r)"
proof -
  have "rit_good (insert_entry bank s d r) b" if "b < n" for b
    using assms that rit_good_insert [of r bank s d] rit_good_other(1) [of r b bank] by (cases "b = bank") (auto simp: rit_all_def)
  with assms(1) show ?thesis by (simp add: rit_all_def insert_entry_def)
qed

lemma rit_all_remove:
  assumes "rit_all n r" "bank < n"
    and "(\<exists>e. rit_find r bank s = Some e \<and> swapped_row e = d) \<or> (rit_find r bank s = None \<and> rit_find r bank d = None)"
  shows "rit_all n (remove_entry bank s d r)"
proof -
  have "rit_good (remove_entry bank s d r) b" if "b < n" for b
    using assms that rit_good_remove(1) [of r bank s d] rit_good_other(2) [of r b bank] by (cases "b = bank") (auto simp: rit_all_def)
  with assms(1) show ?thesis by (simp add: rit_all_def remove_entry_def)
qed

lemma rit_all_unlock: "rit_all n r \<Longrightarrow> rit_all n (rit_unlock r)"
proof -
  assume r: "rit_all n r"
  have m: "map_of (map (\<lambda>(row, e). (row, e\<lparr>locked := False\<rparr>)) es) row =
      map_option (\<lambda>e. e\<lparr>locked := False\<rparr>) (map_of es row)" for es :: "(int \<times> RITEntry) list" and row
    by (induction es) auto
  have f: "rit_find (rit_unlock r) b row = map_option (\<lambda>e. e\<lparr>locked := False\<rparr>) (rit_find r b row)" if "b < n" for b row
    using r that by (simp add: rit_find_def rit_unlock_def m rit_all_def)
  have k: "map fst (m_rit (rit_unlock r) ! b) = map fst (m_rit r ! b)" if "b < n" for b
    using r that by (simp add: rit_unlock_def rit_all_def comp_def case_prod_beta')
  have "rit_good (rit_unlock r) b" if b: "b < n" for b
  proof -
    from r b have g: "rit_good r b" "length (m_rit (rit_unlock r)) = n" by (simp_all add: rit_all_def rit_unlock_def)
    have "rit_sym (rit_unlock r) b" using g(1) unfolding rit_sym_def f [OF b] rit_good_def by fastforce
    moreover have "0 \<le> a \<and> swapped_row e \<noteq> a" if "rit_find (rit_unlock r) b a = Some e" for a e
    proof -
      from that obtain e0 where "rit_find r b a = Some e0" "swapped_row e = swapped_row e0" by (auto simp: f [OF b])
      with g(1) show ?thesis by (auto simp: rit_good_def)
    qed
    ultimately show ?thesis using g b by (simp add: rit_good_def k)
  qed
  with r show ?thesis by (simp add: rit_all_def rit_unlock_def)
qed

text \<open>Whatever the order of iteration, the pair to undo is a swap of the table.\<close>

lemma unswap_pair_swapped:
  assumes g: "rit_good r bank" and o: "\<And>t. set (order t) = set t" and u: "get_unswap_pair order r bank hrt = Some (s, d)"
  shows "\<exists>e. rit_find r bank s = Some e \<and> swapped_row e = d"
proof -
  let ?t = "m_rit r ! bank"
  have "\<exists>e. (s, e) \<in> set (order ?t) \<and> swapped_row e = d"
  proof (cases "find (\<lambda>(src, e). hrt src = None) (order ?t)")
    case None
    with u show ?thesis by (auto simp: get_unswap_pair_def Let_def split: list.splits)
  next
    case (Some x)
    then have "x \<in> set (order ?t)" by (metis find_Some_iff nth_mem)
    with Some u show ?thesis by (cases x) (auto simp: get_unswap_pair_def Let_def)
  qed
  then obtain e where "(s, e) \<in> set ?t" "swapped_row e = d" using o by auto
  with g show ?thesis by (auto simp: rit_find_def rit_good_def map_of_eq_Some_iff)
qed

lemma unswap_pair_exists:
  assumes "m_rit r ! bank \<noteq> []" "\<And>t. set (order t) = set t"
  shows "get_unswap_pair order r bank hrt \<noteq> None"
proof -
  have "order (m_rit r ! bank) \<noteq> []" using assms by (metis set_empty)
  then show ?thesis by (auto simp: get_unswap_pair_def Let_def split: option.splits list.splits)
qed

lemma unswap_if_full_good:
  assumes g: "rit_all n r" and bank: "bank < n" and o: "\<And>t. set (order t) = set t"
    and u: "unswap_if_full order p av bank r c = Inr (k, r1, c1)"
  obtains "r1 = r" | s d where "\<exists>e. rit_find r bank s = Some e \<and> swapped_row e = d" "r1 = remove_entry bank s d r" "rit_all n r1"
proof (cases "is_rit_full r bank")
  case True
  with g have ne: "m_rit r ! bank \<noteq> []" by (auto simp: is_rit_full_def rit_all_def)
  obtain s d where p: "get_unswap_pair order r bank (map_of (rrs_hrt p ! bank)) = Some (s, d)"
    using unswap_pair_exists [OF ne o] by (metis option.exhaust surj_pair)
  with True u have r1: "r1 = remove_entry bank s d r" by (auto simp: unswap_if_full_def bindR_eq_Inr_iff)
  have e: "\<exists>e. rit_find r bank s = Some e \<and> swapped_row e = d"
    using unswap_pair_swapped [OF _ o p] g bank by (simp add: rit_all_def)
  with rit_all_remove [OF g bank] r1 that(2) show ?thesis by blast
next
  case False
  with u that(1) show ?thesis by (simp add: unswap_if_full_def)
qed

text \<open>The three branches keep every table good.\<close>

lemma cold_row:
  assumes "random_cold_row draw (is_cold hrt r bank row) n0 = Some (dst, n1)" "rit_good r bank" "\<And>k. 0 \<le> draw k"
  shows "rit_find r bank dst = None" "0 \<le> dst" "dst \<noteq> row" "n0 < n1" "dst = draw (n1 - 1)"
  using random_cold_row_result [OF assms(1)] check_rit_absent [OF assms(2)] assms(3) by (auto simp: is_cold_def)

lemma rrs_fresh_good:
  assumes g: "rit_all n r" and bank: "bank < n" and o: "\<And>t. set (order t) = set t"
    and f: "rrs_fresh order draw av bank row p r c = Some (Inr (p', r', c'))" and row: "check_rit r bank row = -1" "0 \<le> row"
    and d: "\<And>k. 0 \<le> draw k"
  shows "rit_all n r'"
proof -
  have row': "rit_find r bank row = None" using check_rit_absent g bank row(1) by (simp add: rit_all_def)
  from f obtain k r1 c1 dst m where u: "unswap_if_full order p av bank r c = Inr (k, r1, c1)"
    and dst: "random_cold_row draw (is_cold (rrs_hrt p ! bank) r1 bank row) (rrs_drawn p) = Some (dst, m)"
    and r': "r' = insert_entry bank row dst r1"
    by (auto simp: rrs_fresh_def bindR_eq_Inr_iff split: sum.splits option.splits)
  have g1: "rit_all n r1 \<and> rit_find r1 bank row = None"
  proof (rule unswap_if_full_good [OF g bank o u])
    fix s d assume e: "\<exists>e. rit_find r bank s = Some e \<and> swapped_row e = d" "r1 = remove_entry bank s d r" "rit_all n r1"
    with rit_good_remove(2) [of r bank s d row] g bank row' show "rit_all n r1 \<and> rit_find r1 bank row = None"
      by (simp add: rit_all_def)
  qed (use g row' in simp)
  then have "rit_good r1 bank" using bank by (simp add: rit_all_def)
  note c = cold_row [OF dst this d]
  from rit_all_insert [OF _ bank _ c(1) row(2) c(2)] c(3) g1 show ?thesis unfolding r' by simp
qed

lemma rrs_unswap_good:
  assumes g: "rit_all n r" and bank: "bank < n"
    and f: "rrs_unswap draw av bank row prev p r c = Some (Inr (p', r', c'))" and row: "check_rit r bank row = prev" "prev \<noteq> -1" "0 \<le> row"
    and d: "\<And>k. 0 \<le> draw k"
  shows "rit_all n r'"
proof -
  from check_rit_present [OF row(1,2)] have e: "\<exists>e. rit_find r bank row = Some e \<and> swapped_row e = prev" .
  have gb: "rit_good r bank" using g bank by (simp add: rit_all_def)
  from f obtain dst m where dst: "random_cold_row draw (is_cold (rrs_hrt p ! bank) r bank row) (rrs_drawn p) = Some (dst, m)"
    and r': "r' = insert_entry bank row dst (remove_entry bank row prev r)"
    by (auto simp: rrs_unswap_def bindR_eq_Inr_iff split: option.splits)
  note c = cold_row [OF dst gb d]
  have "rit_find (remove_entry bank row prev r) bank row = None" "rit_find (remove_entry bank row prev r) bank dst = None"
    using rit_good_remove(2) [OF gb] e c(1) by auto
  from rit_all_insert [OF rit_all_remove [OF g bank] bank this row(3) c(2)] e c(3) show ?thesis unfolding r' by simp
qed

text \<open>
  Swapping both rows of a pair again: the two rows drawn have to differ from each other, and
  from the row's partner, which is free again when the pair itself was undone to make room.
\<close>

lemma rrs_reswap_good:
  assumes g: "rit_all n r" and bank: "bank < n" and o: "\<And>t. set (order t) = set t"
    and f: "rrs_reswap order draw av bank row prev p r c = Some (Inr (p', r', c'))" and row: "check_rit r bank row = prev" "prev \<noteq> -1"
    and d: "\<And>k. 0 \<le> draw k" and fresh: "distinct (prev # map draw [rrs_drawn p..<rrs_drawn p'])"
  shows "rit_all n r'"
proof -
  have gb: "rit_good r bank" using g bank by (simp add: rit_all_def)
  from check_rit_present [OF row] obtain e where e: "rit_find r bank row = Some e" "swapped_row e = prev" by blast
  note pt = rit_partner [OF gb e]
  from f obtain k r1 c1 dst0 n0 dst1 n1 where u: "unswap_if_full order p av bank r c = Inr (k, r1, c1)"
    and d0: "random_cold_row draw (is_cold (rrs_hrt p ! bank) r1 bank row) (rrs_drawn p) = Some (dst0, n0)"
    and d1: "random_cold_row draw (is_cold (rrs_hrt p ! bank) r1 bank row) n0 = Some (dst1, n1)"
    and r': "r' = insert_entry bank prev dst0 (insert_entry bank row dst1 (remove_entry bank row prev r1))" and p': "rrs_drawn p' = n1"
    by (auto simp: rrs_reswap_def Let_def bindR_eq_Inr_iff split: sum.splits option.splits)
  have g1: "rit_all n r1 \<and> ((\<exists>e. rit_find r1 bank row = Some e \<and> swapped_row e = prev) \<or>
      (rit_find r1 bank row = None \<and> rit_find r1 bank prev = None))"
  proof (rule unswap_if_full_good [OF g bank o u])
    fix s d assume a: "\<exists>e. rit_find r bank s = Some e \<and> swapped_row e = d" "r1 = remove_entry bank s d r" "rit_all n r1"
    have "rit_find r1 bank x = (if x = s \<or> x = d then None else rit_find r bank x)" for x
      using rit_good_remove(2) [OF gb] a(1,2) by blast
    with a(1,3) e pt(2) show ?thesis using rit_partner(2) [OF gb] by (cases "row = s \<or> row = d") fastforce+
  qed (use g e in auto)
  then have gb1: "rit_good r1 bank" using bank by (simp add: rit_all_def)
  note c0 = cold_row [OF d0 gb1 d] and c1 = cold_row [OF d1 gb1 d]
  have inj: "inj_on draw {rrs_drawn p..<n1}" "prev \<notin> draw ` {rrs_drawn p..<n1}" using fresh p' by (simp_all add: distinct_map)
  have i: "n0 - 1 \<noteq> n1 - 1" "n0 - 1 \<in> {rrs_drawn p..<n1}" "n1 - 1 \<in> {rrs_drawn p..<n1}" using c0(4) c1(4) by auto
  with inj_onD [OF inj(1)] c0(5) c1(5) have ne: "dst0 \<noteq> dst1" by metis
  have nep: "dst0 \<noteq> prev" "dst1 \<noteq> prev" using i(2,3) c0(5) c1(5) inj(2) by blast+
  let ?r2 = "remove_entry bank row prev r1"
  have g2: "rit_all n ?r2" using rit_all_remove [OF _ bank] g1 by blast
  have f2: "rit_find ?r2 bank row = None" "rit_find ?r2 bank prev = None" "rit_find ?r2 bank dst0 = None" "rit_find ?r2 bank dst1 = None"
    using rit_good_remove(2) [OF gb1] g1 c0(1) c1(1) by auto
  have g3: "rit_all n (insert_entry bank row dst1 ?r2)"
    by (rule rit_all_insert [OF g2 bank f2(1,4) pt(3) c1(2)]) (use c1(3) in simp)
  have l: "bank < length (m_rit ?r2)" using g2 bank by (simp add: rit_all_def)
  have "rit_find (insert_entry bank row dst1 ?r2) bank prev = None" "rit_find (insert_entry bank row dst1 ?r2) bank dst0 = None"
    using f2 pt(1) nep ne c0(3) by (auto simp: rit_find_insert [OF l])
  from rit_all_insert [OF g3 bank this pt(4) c0(2)] nep(1) show ?thesis unfolding r' by simp
qed

end
