(* ===== verification/Migration_Properties.thy ===== *)
theory Migration_Properties
  imports Row_Migration Example_Config
begin

text \<open>
  What randomised row swapping keeps, and where it does not: as long as no reswap draws a row
  twice or draws the partner of the row it moves, the indirection table stays a set of
  disjoint swaps, so no two rows of a bank ever share a physical row.
\<close>

section \<open>Runs\<close>

text \<open>
  The bank and the row an issued command names, and the condition on the random rows of one
  reswap: the values drawn for it are all different and none is the row's present partner.
\<close>

abbreviation rrs_row :: "RRS \<Rightarrow> Request \<Rightarrow> int" where
  "rrs_row p req \<equiv> req_addr_vec req ! mv_row_level (rrs_mover p)"

definition reswap_draws_differ :: "(nat \<Rightarrow> int) \<Rightarrow> Request \<Rightarrow> RRS \<times> Controller \<Rightarrow> RRS \<Rightarrow> bool" where
  "reswap_draws_differ draw req s p' \<longleftrightarrow>
     (case m_addr_mapper (snd s) of
        BaseMapper _ \<Rightarrow> True
      | RITMapper r \<Rightarrow>
          rrs_num_reswaps p' = rrs_num_reswaps (fst s) \<or>
          distinct (check_rit r (bank_of (m_device (snd s)) req) (rrs_row (fst s) req) #
            map draw [rrs_drawn (fst s)..<rrs_drawn p']))"

text \<open>
  A run of the plugin: \<^verbatim>\<open>setup\<close>, then cycles and issued commands that name existing banks and
  rows, while the controller does what else it does, which leaves its mapper alone.
\<close>

inductive rrs_run :: "(counter_table \<Rightarrow> counter_table) \<Rightarrow> rit_order \<Rightarrow> (nat \<Rightarrow> int) \<Rightarrow> int \<Rightarrow> int \<Rightarrow> int \<Rightarrow> int \<Rightarrow> RRS \<times> Controller \<Rightarrow> bool"
  for iter order draw hrt_entries rit_entries thr period where
  created: "RRS_setup hrt_entries rit_entries thr period c = Inr s \<Longrightarrow> rrs_run iter order draw hrt_entries rit_entries thr period s"
| cycle: "rrs_run iter order draw hrt_entries rit_entries thr period s \<Longrightarrow>
    rrs_run iter order draw hrt_entries rit_entries thr period (RRS_pre_schedule s)"
| issued: "rrs_run iter order draw hrt_entries rit_entries thr period (p, c) \<Longrightarrow>
    bank_of (m_device c) req < mv_num_banks (rrs_mover p) \<Longrightarrow> 0 \<le> rrs_row p req \<Longrightarrow>
    RRS_on_issue iter order draw req (p, c) = Some (Inr (p', c')) \<Longrightarrow> reswap_draws_differ draw req (p, c) p' \<Longrightarrow>
    rrs_run iter order draw hrt_entries rit_entries thr period (p', c')"
| other: "rrs_run iter order draw hrt_entries rit_entries thr period (p, c) \<Longrightarrow> m_addr_mapper c' = m_addr_mapper c \<Longrightarrow>
    rrs_run iter order draw hrt_entries rit_entries thr period (p, c')"

definition rrs_ok :: "RRS \<times> Controller \<Rightarrow> bool" where
  "rrs_ok s \<longleftrightarrow> (\<exists>r. m_addr_mapper (snd s) = RITMapper r \<and> rit_all (mv_num_banks (rrs_mover (fst s))) r)"

lemma RRS_setup_ok:
  assumes "RRS_setup hrt_entries rit_entries thr period c = Inr s" "0 < rit_entries"
  shows "rrs_ok s"
  using assms by (auto simp: RRS_setup_def bindR_eq_Inr_iff with_rit_def rrs_ok_def rit_all_def rit_good_def init_rit_def rit_sym_def rit_find_def
      split: AddrMapper.splits)

lemma RRS_pre_schedule_ok: "rrs_ok s \<Longrightarrow> rrs_ok (RRS_pre_schedule s)"
  by (auto simp: RRS_pre_schedule_def Let_def rrs_ok_def with_rit_def rit_all_unlock)

lemma rrs_swap_frame:
  assumes "rrs_swap order draw av bank row p r c = Some (Inr (p', r', c'))"
  shows "rrs_mover p' = rrs_mover p"
    "check_rit r bank row \<noteq> -1 \<Longrightarrow> is_rit_locked r bank row \<Longrightarrow> rrs_num_reswaps p' = rrs_num_reswaps p + 1"
  using assms
  by (auto simp: rrs_swap_def rrs_fresh_def rrs_unswap_def rrs_reswap_def Let_def bindR_eq_Inr_iff
      split: if_splits option.splits sum.splits)

lemma rrs_swap_good:
  assumes g: "rit_all n r" and bank: "bank < n" and o: "\<And>t. set (order t) = set t" and d: "\<And>k. 0 \<le> draw k" and row: "0 \<le> row"
    and f: "rrs_swap order draw av bank row p r c = Some (Inr (p', r', c'))"
    and fresh: "rrs_num_reswaps p' = rrs_num_reswaps p \<or> distinct (check_rit r bank row # map draw [rrs_drawn p..<rrs_drawn p'])"
  shows "rit_all n r'"
proof (cases "check_rit r bank row = -1")
  case True
  with f have "rrs_fresh order draw av bank row p r c = Some (Inr (p', r', c'))" by (simp add: rrs_swap_def)
  from rrs_fresh_good [OF g bank o this True row d] show ?thesis .
next
  case False
  show ?thesis
  proof (cases "is_rit_locked r bank row")
    case True
    with f False have r: "rrs_reswap order draw av bank row (check_rit r bank row) p r c = Some (Inr (p', r', c'))"
      by (simp add: rrs_swap_def Let_def)
    have "distinct (check_rit r bank row # map draw [rrs_drawn p..<rrs_drawn p'])"
      using fresh rrs_swap_frame(2) [OF f False True] by simp
    from rrs_reswap_good [OF g bank o r refl False d this] show ?thesis .
  next
    case unlocked: False
    with f False have "rrs_unswap draw av bank row (check_rit r bank row) p r c = Some (Inr (p', r', c'))"
      by (simp add: rrs_swap_def Let_def)
    from rrs_unswap_good [OF g bank this refl False row d] show ?thesis .
  qed
qed

lemma RRS_on_issue_ok:
  assumes ok: "rrs_ok (p, c)" and o: "\<And>t. set (order t) = set t" and d: "\<And>k. 0 \<le> draw k"
    and a: "bank_of (m_device c) req < mv_num_banks (rrs_mover p)" "0 \<le> rrs_row p req"
    and i: "RRS_on_issue iter order draw req (p, c) = Some (Inr (p', c'))" and fresh: "reswap_draws_differ draw req (p, c) p'"
  shows "rrs_ok (p', c')"
proof -
  let ?bank = "bank_of (m_device c) req"
  obtain count t spill where h: "hot_row_count iter (rrs_num_hrt_entries p) (rrs_row p req) (rrs_hrt p ! ?bank, rrs_spillover_counter p ! ?bank) = (count, t, spill)"
    by (metis prod_cases3)
  let ?p = "p\<lparr>rrs_hrt := (rrs_hrt p)[?bank := t], rrs_spillover_counter := (rrs_spillover_counter p)[?bank := spill]\<rparr>"
  from ok obtain r where r: "m_addr_mapper c = RITMapper r" "rit_all (mv_num_banks (rrs_mover p)) r" by (auto simp: rrs_ok_def)
  from r(1) i h consider "c' = c" "rrs_mover p' = rrs_mover p"
    | r' c2 where "rrs_swap order draw (req_addr_vec req) ?bank (rrs_row p req) ?p r c = Some (Inr (p', r', c2))" "m_addr_mapper c' = RITMapper r'"
    by (auto simp: RRS_on_issue_def Let_def bindR_eq_Inr_iff split: if_splits option.splits)
  then show ?thesis
  proof cases
    case 1
    with ok show ?thesis by (simp add: rrs_ok_def)
  next
    case (2 r' c2)
    from fresh r(1) have "rrs_num_reswaps p' = rrs_num_reswaps ?p \<or>
        distinct (check_rit r ?bank (rrs_row p req) # map draw [rrs_drawn ?p..<rrs_drawn p'])"
      by (simp add: reswap_draws_differ_def)
    from rrs_swap_good [OF r(2) a(1) o d a(2) 2(1) this] 2(2) rrs_swap_frame(1) [OF 2(1)] show ?thesis by (simp add: rrs_ok_def)
  qed
qed

section \<open>Rows stay apart\<close>

text \<open>Property C39. Swapped rows stay apart: in every state RRS reaches from its setup, through fresh
  swaps, unswaps and reswaps, full tables and new epochs, redirection is its own inverse in
  every bank, so no two rows of a bank are ever redirected to the same physical row. The
  condition is that the values drawn for one reswap are all different and none of them is the
  present partner of the row (\<open>reswap_draws_differ\<close>); the code does not ensure it, and
  \<open>RRS_reswap_collides\<close> shows two rows meeting without it. Fresh swaps and unswaps need no
  such condition. It holds for every order in which the tables are iterated.\<close>

theorem RRS_keeps_rows_apart:
  assumes "rrs_run iter order draw hrt_entries rit_entries thr period (p, c)"
    and "\<forall>t. set (order t) = set t" "\<forall>k. 0 \<le> draw k" "0 < rit_entries"
  shows "\<exists>r. m_addr_mapper c = RITMapper r \<and> length (m_rit r) = mv_num_banks (rrs_mover p) \<and>
    (\<forall>b < mv_num_banks (rrs_mover p). inj (rit_redirect r b) \<and> (\<forall>x. rit_redirect r b (rit_redirect r b x) = x))"
proof -
  have "rrs_run iter order draw hrt_entries rit_entries thr period s \<Longrightarrow> rrs_ok s" for s
  proof (induction rule: rrs_run.induct)
    case (created c s)
    from RRS_setup_ok [OF this assms(4)] show ?case .
  next
    case (cycle s)
    then show ?case by (auto intro: RRS_pre_schedule_ok)
  next
    case (issued p c req p' c')
    from RRS_on_issue_ok [OF issued.IH _ _ issued(2-5)] assms(2,3) show ?case by blast
  next
    case (other p c c')
    then show ?case by (simp add: rrs_ok_def)
  qed
  from this [OF assms(1)] obtain r where r: "m_addr_mapper c = RITMapper r" "rit_all (mv_num_banks (rrs_mover p)) r"
    by (auto simp: rrs_ok_def)
  have "inj (rit_redirect r b) \<and> (\<forall>x. rit_redirect r b (rit_redirect r b x) = x)" if "b < mv_num_banks (rrs_mover p)" for b
  proof -
    from r(2) that have "rit_sym r b" by (simp add: rit_all_def rit_good_def)
    then show ?thesis using rit_redirect_involution rit_redirect_inj unfolding inj_def by metis
  qed
  with r show ?thesis by (auto simp: rit_all_def)
qed

text \<open>Copies only send; with valid commands they never throw.\<close>

lemma send_all_returns:
  "\<forall>r \<in> set rs. 0 \<le> req_final_command r \<and> req_final_command r < int (command_count (spec_of c)) \<Longrightarrow>
   \<exists>c'. send_all rs c = Inr c' \<and> m_device c' = m_device c"
proof (induction rs arbitrary: c)
  case (Cons r rs)
  then obtain ok c1 where c1: "priority_send r c = Inr (ok, c1)" "m_device c1 = m_device c"
    by (cases "enqueue (m_priority_buffer c) r") (auto simp: priority_send_def Let_def)
  from Cons.IH [of c1] Cons.prems c1(2) obtain c' where "send_all rs c1 = Inr c'" "m_device c' = m_device c" by auto
  with c1(1) show ?case by (simp add: send_all_def)
qed (simp add: send_all_def)

lemma issue_swap_returns:
  assumes "mv_rd_cmd_id m \<in> {0..<int (command_count (spec_of c))}" "mv_wr_cmd_id m \<in> {0..<int (command_count (spec_of c))}"
  obtains c' where "issue_swap m av a b c = Inr c'" "m_device c' = m_device c"
proof -
  have copy: "\<exists>c'. issue_row_copy m av row w c1 = Inr c' \<and> m_device c' = m_device c" if "m_device c1 = m_device c" for row w c1
    unfolding issue_row_copy_def using that send_all_returns [of _ c1] assms by (auto simp: row_copy_requests_def)
  obtain c1 where c1: "issue_row_copy m av a False c = Inr c1" "m_device c1 = m_device c" using copy by blast
  obtain c2 where c2: "issue_row_copy m av b False c1 = Inr c2" "m_device c2 = m_device c" using copy [OF c1(2)] by blast
  obtain c3 where c3: "issue_row_copy m av b True c2 = Inr c3" "m_device c3 = m_device c" using copy [OF c2(2)] by blast
  obtain c4 where "issue_row_copy m av a True c3 = Inr c4" "m_device c4 = m_device c" using copy [OF c3(2)] by blast
  with c1 c2 c3 show ?thesis using that by (simp add: issue_swap_def)
qed

text \<open>The example controller behind an indirection table; row 5 is activated twice in one epoch, so it is
  swapped and then reswapped.\<close>

definition rrs_table :: "(int \<times> RITEntry) list list \<Rightarrow> RITAddrMapper" where
  "rrs_table t = \<lparr>m_base_mapper = RoBaRaCoCh ex_mapper, rit_row_idx = 2, m_reserved_rows_per_bank = 0, m_num_rows_per_bank = 16,
     m_rit = t, m_max_entries_per_bank = 2, m_initialized = True\<rparr>"

definition rrs_ctrl :: Controller where
  "rrs_ctrl = ex_ctrl\<lparr>m_addr_mapper := RITMapper ((rrs_table [])\<lparr>m_max_entries_per_bank := 0, m_initialized := False\<rparr>)\<rparr>"

definition rrs_state :: "counter_table \<Rightarrow> nat \<Rightarrow> nat \<Rightarrow> nat \<Rightarrow> RRS" where
  "rrs_state t drawn swaps reswaps = \<lparr>rrs_mover = \<lparr>mv_rd_cmd_id = 3, mv_wr_cmd_id = 4, mv_row_level = 3, mv_col_level = 4, mv_num_banks = 4,
       mv_num_rows_per_bank = 16, mv_num_cls = 8, mv_prefetch = 8\<rparr>, rrs_num_hrt_entries = 2, rrs_threshold = 1,
     rrs_reset_period_clk = 100, rrs_clk = 0, rrs_hrt = [[], t, [], []], rrs_spillover_counter = [0, 0, 0, 0],
     rrs_drawn = drawn, rrs_num_swaps = swaps, rrs_num_unswaps = 0, rrs_num_reswaps = reswaps\<rparr>"

definition rrs_act :: Request where
  "rrs_act = (Request_Cmd [0, 0, 1, 5, 0] 3)\<lparr>req_command := 0\<rparr>"

definition rrs_draw :: "nat \<Rightarrow> int" where
  "rrs_draw k = 7 + int k"

lemma rrs_setup: "RRS_setup 2 2 1 100 rrs_ctrl = Inr (rrs_state [] 0 0 0, rrs_ctrl\<lparr>m_addr_mapper := RITMapper (rrs_table [[], [], [], []])\<rparr>)"
proof -
  have "mover_setup ex_dev = Inr (rrs_mover (rrs_state [] 0 0 0))" by code_simp
  moreover have "replicate 4 x = [x, x, x, x]" for x :: 'a by (simp add: eval_nat_numeral)
  moreover have "m_device rrs_ctrl = ex_dev" by (simp add: rrs_ctrl_def ex_ctrl_def)
  ultimately show ?thesis
    by (simp add: RRS_setup_def rrs_state_def) (simp add: rrs_ctrl_def rrs_table_def init_rit_def with_rit_def eval_nat_numeral)
qed

lemma rrs_act_opens: "opens_one_bank (m_spec ex_dev) rrs_act" "bank_of ex_dev rrs_act = 1" "command_count (m_spec ex_dev) = 8"
  "req_addr_vec rrs_act = [0, 0, 1, 5, 0]"
  by code_simp+

abbreviation rrs_entry :: "int \<Rightarrow> RITEntry" where
  "rrs_entry row \<equiv> \<lparr>swapped_row = row, locked = True\<rparr>"

lemma rrs_first_swap:
  assumes "m_device c = ex_dev" "m_addr_mapper c = RITMapper (rrs_table [[], [], [], []])"
  shows "\<exists>c'. RRS_on_issue rev rev rrs_draw rrs_act (rrs_state [] 0 0 0, c) = Some (Inr (rrs_state [(5, 1)] 1 1 0, c')) \<and>
    m_device c' = ex_dev \<and> m_addr_mapper c' = RITMapper (rrs_table [[], [(5, rrs_entry 7), (7, rrs_entry 5)], [], []])"
proof -
  let ?m = "rrs_mover (rrs_state [] 0 0 0)" and ?av = "req_addr_vec rrs_act"
  obtain c' where c': "issue_swap ?m ?av 5 7 c = Inr c'" "m_device c' = m_device c"
    by (rule issue_swap_returns [of ?m c]) (simp_all add: assms(1) rrs_act_opens(3) rrs_state_def)
  have "random_cold_row rrs_draw (is_cold [(5, 1)] (rrs_table [[], [], [], []]) 1 5) 0 = Some (7, 1)"
    by (simp add: random_cold_row.simps [of _ _ 0] is_cold_def rrs_draw_def check_rit_def rit_find_def rrs_table_def)
  with c' assms show ?thesis
    by (simp add: RRS_on_issue_def rrs_act_opens hot_row_count_def rrs_swap_def rrs_fresh_def unswap_if_full_def is_rit_full_def
        check_rit_def rit_find_def insert_entry_def rrs_state_def rrs_table_def Let_def)
qed

lemma rrs_second_swap:
  assumes "m_device c = ex_dev" "m_addr_mapper c = RITMapper (rrs_table [[], [(5, rrs_entry 7), (7, rrs_entry 5)], [], []])"
  shows "\<exists>c'. RRS_on_issue rev rev rrs_draw rrs_act (rrs_state [(5, 1)] 1 1 0, c) = Some (Inr (rrs_state [(5, 2)] 3 3 1, c')) \<and>
    m_device c' = ex_dev \<and>
    m_addr_mapper c' = RITMapper (rrs_table [[], [(5, rrs_entry 9), (9, rrs_entry 5), (7, rrs_entry 8), (8, rrs_entry 7)], [], []])"
proof -
  let ?m = "rrs_mover (rrs_state [(5, 1)] 1 1 0)" and ?av = "req_addr_vec rrs_act"
  obtain c1 where c1: "issue_swap ?m ?av 5 8 c = Inr c1" "m_device c1 = m_device c"
    by (rule issue_swap_returns [of ?m c]) (simp_all add: assms(1) rrs_act_opens(3) rrs_state_def)
  obtain c2 where c2: "issue_swap ?m ?av 7 9 c1 = Inr c2" "m_device c2 = m_device c1"
    by (rule issue_swap_returns [of ?m c1]) (simp_all add: c1(2) assms(1) rrs_act_opens(3) rrs_state_def)
  let ?good = "is_cold [(5, 2)] (rrs_table [[], [(5, rrs_entry 7), (7, rrs_entry 5)], [], []]) 1 5"
  have "random_cold_row rrs_draw ?good 1 = Some (8, 2)" "random_cold_row rrs_draw ?good 2 = Some (9, 3)"
    by (subst random_cold_row.simps, simp add: is_cold_def rrs_draw_def check_rit_def rit_find_def rrs_table_def)+
  with c1 c2 assms show ?thesis
    by (simp add: RRS_on_issue_def rrs_act_opens hot_row_count_def rrs_swap_def rrs_reswap_def unswap_if_full_def is_rit_full_def
        is_rit_locked_def check_rit_def rit_find_def insert_entry_def remove_entry_def rrs_state_def rrs_table_def Let_def)
qed

theorem RRS_keeps_rows_apart_witness:
  "\<exists>c r. rrs_run rev rev rrs_draw 2 2 1 100 (rrs_state [(5, 2)] 3 3 1, c) \<and> m_addr_mapper c = RITMapper r \<and>
     rit_redirect r 1 5 = 9 \<and> (\<forall>b < 4. inj (rit_redirect r b) \<and> (\<forall>x. rit_redirect r b (rit_redirect r b x) = x))"
proof -
  let ?c0 = "rrs_ctrl\<lparr>m_addr_mapper := RITMapper (rrs_table [[], [], [], []])\<rparr>"
  have d0: "m_device ?c0 = ex_dev" "m_addr_mapper ?c0 = RITMapper (rrs_table [[], [], [], []])" by (simp_all add: rrs_ctrl_def ex_ctrl_def)
  from rrs_first_swap [OF this] obtain c1 where c1: "RRS_on_issue rev rev rrs_draw rrs_act (rrs_state [] 0 0 0, ?c0) = Some (Inr (rrs_state [(5, 1)] 1 1 0, c1))"
    "m_device c1 = ex_dev" "m_addr_mapper c1 = RITMapper (rrs_table [[], [(5, rrs_entry 7), (7, rrs_entry 5)], [], []])" by blast
  from rrs_second_swap [OF c1(2,3)] obtain c2 where c2: "RRS_on_issue rev rev rrs_draw rrs_act (rrs_state [(5, 1)] 1 1 0, c1) = Some (Inr (rrs_state [(5, 2)] 3 3 1, c2))"
    "m_addr_mapper c2 = RITMapper (rrs_table [[], [(5, rrs_entry 9), (9, rrs_entry 5), (7, rrs_entry 8), (8, rrs_entry 7)], [], []])" by blast
  have row: "rrs_row (rrs_state t d k l) rrs_act = 5" "mv_num_banks (rrs_mover (rrs_state t d k l)) = 4" for t d k l
    by (simp_all add: rrs_state_def rrs_act_def Request_Cmd_def)
  have f1: "reswap_draws_differ rrs_draw rrs_act (rrs_state [] 0 0 0, ?c0) (rrs_state [(5, 1)] 1 1 0)"
    by (simp add: reswap_draws_differ_def rrs_state_def)
  have "[1..<3] = [1, 2 :: nat]" by (simp add: upt_rec)
  then have f2: "reswap_draws_differ rrs_draw rrs_act (rrs_state [(5, 1)] 1 1 0, c1) (rrs_state [(5, 2)] 3 3 1)"
    using c1(2,3)
    by (simp add: reswap_draws_differ_def rrs_act_opens check_rit_def rit_find_def rrs_table_def rrs_state_def rrs_draw_def)
  have r1: "rrs_run rev rev rrs_draw 2 2 1 100 (rrs_state [(5, 1)] 1 1 0, c1)"
    by (rule rrs_run.issued [OF rrs_run.created [OF rrs_setup] _ _ c1(1) f1]) (simp_all add: d0(1) rrs_act_opens(2) row)
  have r2: "rrs_run rev rev rrs_draw 2 2 1 100 (rrs_state [(5, 2)] 3 3 1, c2)"
    by (rule rrs_run.issued [OF r1 _ _ c2(1) f2]) (simp_all add: c1(2) rrs_act_opens(2) row)
  have "rit_redirect (rrs_table [[], [(5, rrs_entry 9), (9, rrs_entry 5), (7, rrs_entry 8), (8, rrs_entry 7)], [], []]) 1 5 = 9"
    by (simp add: rit_redirect_def rit_find_def rrs_table_def)
  with RRS_keeps_rows_apart [OF r2] c2(2) r2 row(2) show ?thesis by (auto simp: rrs_draw_def)
qed

text \<open>
  Swapping a row twice in an epoch draws two destinations with the same table, so the draws
  may agree; then the row and its former partner are both redirected to that one row.
\<close>

lemma RRS_reswap_collides:
  assumes good: "rit_good r bank" and loc: "check_rit r bank row = prev" "prev \<noteq> -1" and nf: "\<not> is_rit_full r bank"
    and d: "draw (rrs_drawn p) = d" "draw (Suc (rrs_drawn p)) = d" "is_cold (rrs_hrt p ! bank) r bank row d"
    and res: "rrs_reswap order draw av bank row prev p r c = Some (Inr (p', r', c'))"
  shows "rit_redirect r' bank row = d \<and> rit_redirect r' bank prev = d"
proof -
  have b: "bank < length (m_rit r)" using good by (simp add: rit_good_def)
  from check_rit_present [OF loc] obtain e where e: "rit_find r bank row = Some e" "swapped_row e = prev" by blast
  with good obtain e' where e': "rit_find r bank prev = Some e'" "swapped_row e' = row" by (auto simp: rit_good_def rit_sym_def)
  have "rit_find r bank d = None" using check_rit_absent [OF good] d(3) by (simp add: is_cold_def)
  with e e' have ne: "d \<noteq> row" "d \<noteq> prev" by auto
  have "random_cold_row draw (is_cold (rrs_hrt p ! bank) r bank row) (rrs_drawn p) = Some (d, Suc (rrs_drawn p))"
    "random_cold_row draw (is_cold (rrs_hrt p ! bank) r bank row) (Suc (rrs_drawn p)) = Some (d, Suc (Suc (rrs_drawn p)))"
    using d by (simp_all add: random_cold_row.simps)
  with res nf have r': "r' = insert_entry bank prev d (insert_entry bank row d (remove_entry bank row prev r))"
    by (auto simp: rrs_reswap_def unswap_if_full_def bindR_eq_Inr_iff)
  have l: "bank < length (m_rit (remove_entry bank row prev r))" "bank < length (m_rit (insert_entry bank row d (remove_entry bank row prev r)))"
    using b by (simp_all add: remove_entry_def insert_entry_def)
  show ?thesis using ne by (auto simp: r' rit_redirect_def rit_find_insert [OF l(2)] rit_find_insert [OF l(1)])
qed

end
