(* ===== verification/Split_Bus.thy ===== *)
theory Split_Bus
  imports Generic_DDR
begin

text \<open>
  The controllers with separate buses for column and row commands:
  \<^verbatim>\<open>ramulator/controller/impl/hbm_controller_base.cpp\<close> with the subclasses HBM12, HBM34 and GDDR7.
  A tick may issue one column command and then one row command; a subclass narrows what a slot
  accepts. \<open>GDDR7_priority_send\<close> differs from the inherited method only on clock commands, which no
  refresh manager, row policy or plugin sends. The members of \<^verbatim>\<open>ControllerBase\<close> and its children are those of a \<open>GenericDDR\<close> record.
\<close>

section \<open>Slots\<close>

datatype SlotType = ColumnBus | RowBus

record IssuedCommand =
  ic_slot :: SlotType
  ic_command :: nat
  ic_addr_vec :: AddrVec_t
  ic_clk :: Clk_t

type_synonym parts = "row_policy \<times> plugin list \<times> Controller"

abbreviation ctrl_of :: "parts \<Rightarrow> Controller" where
  "ctrl_of s \<equiv> snd (snd s)"

definition hbm_slot_matches :: "DRAMSpec \<Rightarrow> SlotType \<Rightarrow> Request \<Rightarrow> bool" where
  "hbm_slot_matches sp slot req =
     (let meta = command_meta sp ! nat (req_command req) in
      if slot = ColumnBus then is_column_command meta else is_row_command meta)"

definition select_slot :: "(Request \<Rightarrow> bool) \<Rightarrow> SlotType \<Rightarrow> scheduler_kind \<Rightarrow> Controller \<Rightarrow> (Candidate \<times> Controller) result" where
  "select_slot matches slot sch c =
     bindR (if slot = ColumnBus then pick_best_ready_from sch ActiveBuf matches c else Inr (None, c)) (\<lambda>(cand, c).
     bindR (if cand = None then pick_priority_if matches c else Inr (cand, c)) (\<lambda>(cand, c).
       if cand = None \<and> buf_size (m_priority_buffer c) = 0 then pick_rw_if sch matches c
       else Inr (cand, c)))"

text \<open>The policy may upgrade the command; the command, and only it, is put back when the slot does not take the new one.\<close>

definition upgrade_in_slot :: "(Request \<Rightarrow> bool) \<Rightarrow> row_policy \<Rightarrow> Controller \<Rightarrow> Request \<Rightarrow> Request" where
  "upgrade_in_slot matches pol c req =
     (let up = try_upgrade_command pol c req in
      if req_command up \<noteq> req_command req \<and> \<not> matches up then up\<lparr>req_command := req_command req\<rparr> else up)"

definition prepare_in_slot :: "(Request \<Rightarrow> bool) \<Rightarrow> buf_ref \<Rightarrow> nat \<Rightarrow> row_policy \<Rightarrow> Controller \<Rightarrow> Controller" where
  "prepare_in_slot matches ref it pol c =
     (let c1 = replace_at ref it (upgrade_in_slot matches pol c (buffer (get_buf ref c) ! it)) c
      in if req_is_stat_updated (buffer (get_buf ref c1) ! it) then c1 else update_request_stats ref it c1)"

definition issued_command :: "SlotType \<Rightarrow> Request \<Rightarrow> Clk_t \<Rightarrow> IssuedCommand" where
  "issued_command slot req clk =
     \<lparr>ic_slot = slot, ic_command = nat (req_command req), ic_addr_vec = req_addr_vec req, ic_clk = clk\<rparr>"

definition try_issue_slot ::
  "(Request \<Rightarrow> bool) \<Rightarrow> SlotType \<Rightarrow> scheduler_kind \<Rightarrow> parts \<Rightarrow> (IssuedCommand option \<times> parts) result" where
  "try_issue_slot matches slot sch s =
     (case s of (pol, ps, c) \<Rightarrow>
        bindR (select_slot matches slot sch c) (\<lambda>(cand, c1).
          case cand of
            None \<Rightarrow> Inr (None, pol, ps, c1)
          | Some (ref, it) \<Rightarrow>
              let c2 = prepare_in_slot matches ref it pol c1 in
              bindR (finish_candidate ref it (pol, ps, c2)) (\<lambda>s'.
                Inr (Some (issued_command slot (buffer (get_buf ref c2) ! it) (m_clk c2)), s'))))"

section \<open>HBM1 and HBM2\<close>

definition hbm_tick_prologue :: "GenericDDR \<Rightarrow> (refresh_manager \<times> parts) result" where
  "hbm_tick_prologue g =
     bindR (refresh_tick (g_refresh g, tick_prologue (g_ctrl g))) (\<lambda>(rf, c1).
     bindR (pre_schedule (g_rowpolicy g, c1)) (\<lambda>(pol, c2).
       Inr (rf, pol, map plugin_pre_schedule (g_plugins g), c2)))"

definition with_parts :: "GenericDDR \<Rightarrow> refresh_manager \<Rightarrow> parts \<Rightarrow> GenericDDR" where
  "with_parts g rf s =
     (case s of (pol, ps, c) \<Rightarrow> g\<lparr>g_ctrl := c, g_refresh := rf, g_rowpolicy := pol, g_plugins := ps\<rparr>)"

definition HBM12_tick :: "GenericDDR \<Rightarrow> GenericDDR result" where
  "HBM12_tick g =
     bindR (hbm_tick_prologue g) (\<lambda>(rf, s).
     let matches = hbm_slot_matches (spec_of (ctrl_of s)) in
     bindR (try_issue_slot (matches ColumnBus) ColumnBus (g_scheduler g) s) (\<lambda>(_, s).
     bindR (try_issue_slot (matches RowBus) RowBus (g_scheduler g) s) (\<lambda>(_, s).
       Inr (with_parts g rf s))))"

section \<open>HBM3 and HBM4\<close>

record RisingEdgeCommandInfo =
  re_command :: int
  re_pc :: int
  re_bank_key :: int
  re_next_pairing_falling_edge :: Clk_t

record HBM34Controller =
  h_base :: GenericDDR
  h_cmd_act :: int
  h_cmd_prepb :: int
  h_cmd_preab :: int
  h_cmd_refab :: int
  h_cmd_rfmab :: int
  h_level_pc :: nat
  h_level_sid :: nat
  h_level_bg :: nat
  h_level_bank :: nat
  h_bank_groups :: int
  h_banks_per_group :: int
  h_rising_column_pc :: int
  h_rising_edge_cmd_info :: RisingEdgeCommandInfo

definition HBM34_init :: "GenericDDR \<Rightarrow> HBM34Controller result" where
  "HBM34_init g =
     (let sp = spec_of (g_ctrl g) in
      bindR (get_command_id sp ''ACT'') (\<lambda>act.
      bindR (get_command_id sp ''PREpb'') (\<lambda>prepb.
      bindR (get_command_id sp ''PREab'') (\<lambda>preab.
      bindR (get_command_id sp ''REFab'') (\<lambda>refab.
      bindR (if has_command sp ''RFMab'' then bindR (get_command_id sp ''RFMab'') (\<lambda>i. Inr (int i)) else Inr (-1)) (\<lambda>rfmab.
      bindR (get_level_id sp ''PseudoChannel'') (\<lambda>pc.
      bindR (get_level_id sp ''Sid'') (\<lambda>sid.
      bindR (get_level_id sp ''BankGroup'') (\<lambda>bg.
      bindR (get_level_id sp ''Bank'') (\<lambda>bank.
      bindR (get_level_size sp ''BankGroup'') (\<lambda>bgs.
      bindR (get_level_size sp ''Bank'') (\<lambda>banks.
        Inr \<lparr>h_base = g, h_cmd_act = int act, h_cmd_prepb = int prepb, h_cmd_preab = int preab, h_cmd_refab = int refab,
             h_cmd_rfmab = rfmab, h_level_pc = pc, h_level_sid = sid, h_level_bg = bg, h_level_bank = bank,
             h_bank_groups = bgs, h_banks_per_group = banks, h_rising_column_pc = -1,
             h_rising_edge_cmd_info = \<lparr>re_command = -1, re_pc = -1, re_bank_key = -1, re_next_pairing_falling_edge = -1\<rparr>\<rparr>))))))))))))"

definition is_rising_edge :: "Clk_t \<Rightarrow> bool" where
  "is_rising_edge clk \<longleftrightarrow> clk mod 2 = 1"

definition is_all_bank_row_command :: "HBM34Controller \<Rightarrow> int \<Rightarrow> bool" where
  "is_all_bank_row_command h command \<longleftrightarrow>
     command = h_cmd_preab h \<or> command = h_cmd_refab h \<or> command = h_cmd_rfmab h"

definition bank_key :: "HBM34Controller \<Rightarrow> AddrVec_t \<Rightarrow> int" where
  "bank_key h av =
     (av ! h_level_sid h * h_bank_groups h + av ! h_level_bg h) * h_banks_per_group h + av ! h_level_bank h"

definition can_issue_falling_edge_pre :: "HBM34Controller \<Rightarrow> Clk_t \<Rightarrow> Request \<Rightarrow> bool" where
  "can_issue_falling_edge_pre h clk cand =
     (let info = h_rising_edge_cmd_info h in
      if clk \<noteq> re_next_pairing_falling_edge info then True
      else if re_pc info \<noteq> req_addr_vec cand ! h_level_pc h then True
      else if is_all_bank_row_command h (re_command info) then False
      else req_command cand = h_cmd_prepb h \<and> bank_key h (req_addr_vec cand) \<noteq> re_bank_key info)"

definition HBM34_slot_matches :: "HBM34Controller \<Rightarrow> DRAMSpec \<Rightarrow> Clk_t \<Rightarrow> SlotType \<Rightarrow> Request \<Rightarrow> bool" where
  "HBM34_slot_matches h sp clk slot req =
     (if is_rising_edge clk then
        if slot = RowBus \<and> h_rising_column_pc h \<ge> 0 \<and> is_all_bank_row_command h (req_command req) \<and>
           (req_addr_vec req ! h_level_pc h < 0 \<or> req_addr_vec req ! h_level_pc h = h_rising_column_pc h)
        then False else hbm_slot_matches sp slot req
      else if slot = ColumnBus then False
      else if req_command req \<noteq> h_cmd_prepb h \<and> req_command req \<noteq> h_cmd_preab h then False
      else can_issue_falling_edge_pre h clk req)"

definition record_rising_row :: "IssuedCommand \<Rightarrow> HBM34Controller \<Rightarrow> HBM34Controller" where
  "record_rising_row i h =
     (let cmd = int (ic_command i); av = ic_addr_vec i in
      h\<lparr>h_rising_edge_cmd_info :=
          \<lparr>re_command = cmd, re_pc = av ! h_level_pc h,
           re_bank_key = (if is_all_bank_row_command h cmd then -1 else bank_key h av),
           re_next_pairing_falling_edge = ic_clk i + (if cmd = h_cmd_act h then 3 else 1)\<rparr>\<rparr>)"

definition note_rising_column :: "IssuedCommand option \<Rightarrow> HBM34Controller \<Rightarrow> HBM34Controller" where
  "note_rising_column i h =
     h\<lparr>h_rising_column_pc := (case i of None \<Rightarrow> -1 | Some i \<Rightarrow> ic_addr_vec i ! h_level_pc h)\<rparr>"

definition HBM34_tick :: "HBM34Controller \<Rightarrow> HBM34Controller result" where
  "HBM34_tick h =
     bindR (hbm_tick_prologue (h_base h)) (\<lambda>(rf, s).
     let clk = m_clk (ctrl_of s); sp = spec_of (ctrl_of s); sch = g_scheduler (h_base h); h0 = note_rising_column None h in
     bindR (if is_rising_edge clk then try_issue_slot (HBM34_slot_matches h0 sp clk ColumnBus) ColumnBus sch s else Inr (None, s)) (\<lambda>(col, s).
     let h1 = note_rising_column col h0 in
     bindR (try_issue_slot (HBM34_slot_matches h1 sp clk RowBus) RowBus sch s) (\<lambda>(row, s).
       Inr ((case row of Some i \<Rightarrow> if is_rising_edge clk then record_rising_row i h1 else h1 | None \<Rightarrow> h1)
         \<lparr>h_base := with_parts (h_base h) rf s\<rparr>))))"

section \<open>GDDR7\<close>

datatype RCKMode = AlwaysOn | StartWithRead | StartWithRCKStrt
datatype RCKState = Stopped | Toggling

record GDDR7Controller =
  d_base :: GenericDDR
  d_rck_mode :: RCKMode
  d_rck_state :: RCKState
  d_rck_idle_threshold :: int
  d_last_read_clk :: Clk_t
  d_cmd_rckstrt :: nat
  d_cmd_rckstop :: nat
  d_cmd_rd :: nat
  d_cmd_rda :: nat
  d_channel_level :: nat
  d_num_rckstrt_issued :: nat
  d_num_rckstop_issued :: nat

definition parse_rck_mode :: "string \<Rightarrow> RCKMode result" where
  "parse_rck_mode m =
     (if m = ''always_on'' then Inr AlwaysOn
      else if m = ''start_with_read'' then Inr StartWithRead
      else if m = ''start_with_rckstrt'' then Inr StartWithRCKStrt
      else throw ''GDDR7: unsupported rck_mode'')"

definition GDDR7_init :: "string \<Rightarrow> int \<Rightarrow> GenericDDR \<Rightarrow> GDDR7Controller result" where
  "GDDR7_init rck_mode idle_threshold g =
     bindR (parse_rck_mode rck_mode) (\<lambda>mode.
     if idle_threshold < 0 then throw ''GDDR7: rck_idle_threshold must be non-negative''
     else let sp = spec_of (g_ctrl g) in
       bindR (get_command_id sp ''RCKSTRT'') (\<lambda>strt.
       bindR (get_command_id sp ''RCKSTOP'') (\<lambda>stop.
       bindR (get_command_id sp ''RD'') (\<lambda>rd.
       bindR (get_command_id sp ''RDA'') (\<lambda>rda.
       bindR (get_level_id sp ''Channel'') (\<lambda>ch.
         Inr \<lparr>d_base = g, d_rck_mode = mode, d_rck_state = (if mode = AlwaysOn then Toggling else Stopped),
              d_rck_idle_threshold = idle_threshold, d_last_read_clk = -1, d_cmd_rckstrt = strt, d_cmd_rckstop = stop,
              d_cmd_rd = rd, d_cmd_rda = rda, d_channel_level = ch,
              d_num_rckstrt_issued = 0, d_num_rckstop_issued = 0\<rparr>))))))"

definition GDDR7_reset_stats :: "GDDR7Controller \<Rightarrow> GDDR7Controller" where
  "GDDR7_reset_stats d =
     d\<lparr>d_base := (d_base d)\<lparr>g_ctrl := reset_stats (g_ctrl (d_base d))\<rparr>, d_num_rckstrt_issued := 0, d_num_rckstop_issued := 0\<rparr>"

definition GDDR7_priority_send :: "GDDR7Controller \<Rightarrow> Request \<Rightarrow> Controller \<Rightarrow> (bool \<times> Controller) result" where
  "GDDR7_priority_send d req c =
     (let is_rckstrt = req_final_command req = int (d_cmd_rckstrt d);
          is_rckstop = req_final_command req = int (d_cmd_rckstop d)
      in if d_rck_mode d = AlwaysOn \<and> (is_rckstrt \<or> is_rckstop)
         then throw ''GDDR7: RCKSTRT/RCKSTOP are not legal when rck_mode=always_on''
         else if d_rck_mode d = StartWithRead \<and> is_rckstrt
         then throw ''GDDR7: RCKSTRT is not legal when rck_mode=start_with_read''
         else priority_send req c)"

definition is_read_like :: "GDDR7Controller \<Rightarrow> int \<Rightarrow> bool" where
  "is_read_like d cmd \<longleftrightarrow> cmd = int (d_cmd_rd d) \<or> cmd = int (d_cmd_rda d)"

definition GDDR7_slot_matches :: "GDDR7Controller \<Rightarrow> DRAMSpec \<Rightarrow> SlotType \<Rightarrow> Request \<Rightarrow> bool" where
  "GDDR7_slot_matches d sp slot req =
     (if \<not> hbm_slot_matches sp slot req then False
      else if d_rck_mode d = StartWithRCKStrt \<and> d_rck_state d = Stopped \<and> is_read_like d (req_command req) then False
      else True)"

definition priority_buffer_contains :: "int \<Rightarrow> Controller \<Rightarrow> bool" where
  "priority_buffer_contains cmd c = list_ex (\<lambda>r. req_final_command r = cmd) (buffer (m_priority_buffer c))"

definition reads_waiting :: "Controller \<Rightarrow> bool" where
  "reads_waiting c \<longleftrightarrow>
     buf_size (m_read_buffer c) > 0 \<or> list_ex (\<lambda>r. req_type_id r = Type_Read) (buffer (m_active_buffer c))"

definition get_rck_cmd :: "GDDR7Controller \<Rightarrow> Controller \<Rightarrow> nat option" where
  "get_rck_cmd d c =
     (if d_rck_mode d = AlwaysOn then None
      else if d_rck_mode d = StartWithRCKStrt \<and> d_rck_state d = Stopped \<and> reads_waiting c \<and>
              \<not> priority_buffer_contains (int (d_cmd_rckstrt d)) c
      then Some (d_cmd_rckstrt d)
      else if d_rck_state d = Toggling \<and> d_last_read_clk d \<ge> 0 \<and> \<not> reads_waiting c \<and>
              m_clk c - d_last_read_clk d \<ge> d_rck_idle_threshold d \<and>
              \<not> priority_buffer_contains (int (d_cmd_rckstop d)) c
      then Some (d_cmd_rckstop d)
      else None)"

text \<open>The internal command bypasses the buffers: it is built, timed and issued at once.\<close>

definition rck_request :: "GDDR7Controller \<Rightarrow> Controller \<Rightarrow> nat \<Rightarrow> Request" where
  "rck_request d c cmd =
     (Request_Cmd ((replicate (level_count (spec_of c)) (-1))[d_channel_level d := m_channel_id c]) (int cmd))\<lparr>req_command := int cmd\<rparr>"

definition try_issue_internal_rck :: "GDDR7Controller \<Rightarrow> parts \<Rightarrow> (IssuedCommand option \<times> parts) result" where
  "try_issue_internal_rck d s =
     (case s of (pol, ps, c) \<Rightarrow>
        (case get_rck_cmd d c of
           None \<Rightarrow> Inr (None, s)
         | Some cmd \<Rightarrow>
             let req = rck_request d c cmd; av = req_addr_vec req in
             if \<not> ctrl_check_timing c cmd av then Inr (None, s)
             else let c1 = c\<lparr>m_device := issue_command cmd av (m_clk c) (m_device c),
                             m_events := m_events c @ [Issued cmd av (m_clk c)]\<rparr>
                  in bindR (plugins_on_issue req (ps, c1)) (\<lambda>(ps', c2).
                       Inr (Some (issued_command ColumnBus req (m_clk c)), on_issue c1 req pol, ps', c2))))"

definition update_rck_state_on_issue :: "Clk_t \<Rightarrow> IssuedCommand option \<Rightarrow> GDDR7Controller \<Rightarrow> GDDR7Controller" where
  "update_rck_state_on_issue clk issued d =
     (case issued of
        None \<Rightarrow> d
      | Some i \<Rightarrow>
          if ic_command i = d_cmd_rckstrt d
          then d\<lparr>d_rck_state := Toggling, d_num_rckstrt_issued := d_num_rckstrt_issued d + 1\<rparr>
          else if ic_command i = d_cmd_rckstop d
          then d\<lparr>d_rck_state := Stopped, d_num_rckstop_issued := d_num_rckstop_issued d + 1\<rparr>
          else if is_read_like d (int (ic_command i))
          then (if d_rck_mode d = StartWithRead \<and> d_rck_state d = Stopped then d\<lparr>d_rck_state := Toggling\<rparr> else d)
                 \<lparr>d_last_read_clk := clk\<rparr>
          else d)"

definition GDDR7_tick :: "GDDR7Controller \<Rightarrow> GDDR7Controller result" where
  "GDDR7_tick d =
     bindR (hbm_tick_prologue (d_base d)) (\<lambda>(rf, s).
     let clk = m_clk (ctrl_of s); matches = GDDR7_slot_matches d (spec_of (ctrl_of s)); sch = g_scheduler (d_base d) in
     bindR (try_issue_internal_rck d s) (\<lambda>(rck, s).
     bindR (if rck = None then try_issue_slot (matches ColumnBus) ColumnBus sch s else Inr (rck, s)) (\<lambda>(col, s).
     bindR (try_issue_slot (matches RowBus) RowBus sch s) (\<lambda>(row, s).
       Inr ((update_rck_state_on_issue clk row (update_rck_state_on_issue clk col d))
         \<lparr>d_base := with_parts (d_base d) rf s\<rparr>)))))"

section \<open>Dispatch\<close>

datatype split_controller =
    HBM12Ctrl GenericDDR
  | HBM34Ctrl HBM34Controller
  | GDDR7Ctrl GDDR7Controller

fun base_of :: "split_controller \<Rightarrow> GenericDDR" where
  "base_of (HBM12Ctrl g) = g"
| "base_of (HBM34Ctrl h) = h_base h"
| "base_of (GDDR7Ctrl d) = d_base d"

fun with_base :: "GenericDDR \<Rightarrow> split_controller \<Rightarrow> split_controller" where
  "with_base g (HBM12Ctrl _) = HBM12Ctrl g"
| "with_base g (HBM34Ctrl h) = HBM34Ctrl (h\<lparr>h_base := g\<rparr>)"
| "with_base g (GDDR7Ctrl d) = GDDR7Ctrl (d\<lparr>d_base := g\<rparr>)"

fun split_tick :: "split_controller \<Rightarrow> split_controller result" where
  "split_tick (HBM12Ctrl g) = bindR (HBM12_tick g) (\<lambda>g'. Inr (HBM12Ctrl g'))"
| "split_tick (HBM34Ctrl h) = bindR (HBM34_tick h) (\<lambda>h'. Inr (HBM34Ctrl h'))"
| "split_tick (GDDR7Ctrl d) = bindR (GDDR7_tick d) (\<lambda>d'. Inr (GDDR7Ctrl d'))"

text \<open>What \<^verbatim>\<open>init\<close> makes of the base controller.\<close>

text \<open>\<^verbatim>\<open>reset_stats\<close> of the controller and of its plugins.\<close>

fun split_reset_stats :: "split_controller \<Rightarrow> split_controller" where
  "split_reset_stats (HBM12Ctrl g) = HBM12Ctrl (GenericDDR_reset_stats g)"
| "split_reset_stats (HBM34Ctrl h) = HBM34Ctrl (h\<lparr>h_base := GenericDDR_reset_stats (h_base h)\<rparr>)"
| "split_reset_stats (GDDR7Ctrl d) =
     (let d' = GDDR7_reset_stats d
      in GDDR7Ctrl (d'\<lparr>d_base := (d_base d')\<lparr>g_plugins := map plugin_reset_stats (g_plugins (d_base d'))\<rparr>\<rparr>))"

definition split_created :: "GenericDDR \<Rightarrow> split_controller \<Rightarrow> bool" where
  "split_created g sc \<longleftrightarrow>
     sc = HBM12Ctrl g \<or> (\<exists>h. HBM34_init g = Inr h \<and> sc = HBM34Ctrl h) \<or>
     (\<exists>mode idle d. GDDR7_init mode idle g = Inr d \<and> sc = GDDR7Ctrl d)"

lemma base_of_with_base [simp]: "base_of (with_base g sc) = g"
  by (cases sc) simp_all

end
