(* ===== verification/Split_Slots.thy ===== *)
theory Split_Slots
  imports Split_Bus Controller_Device
begin

text \<open>
  What one slot of a split-bus controller does: it issues at most one command, one that the
  slot accepts, that the device resolved and that the device declared ready; and the whole
  controller state stays well formed between the slots of a cycle.
\<close>

section \<open>Selecting in a slot\<close>

text \<open>The outcome of a picker: nothing observable changed, and the candidate is ready and accepted by the filter.\<close>

definition selected :: "dram_standard \<Rightarrow> (Request \<Rightarrow> bool) \<Rightarrow> Controller \<Rightarrow> Candidate \<Rightarrow> Controller \<Rightarrow> bool" where
  "selected s flt c cand c' \<longleftrightarrow>
     same_view c c' \<and> kept s c c' \<and> cand_ready c' cand \<and>
     (\<forall>ref it. cand = Some (ref, it) \<longrightarrow> flt (buffer (get_buf ref c') ! it))"

lemma selected_none: "selected s flt c None c"
  by (simp add: selected_def cand_ready_def)

lemma selected_trans: "selected s flt c cand1 c1 \<Longrightarrow> selected s flt c1 cand c' \<Longrightarrow> selected s flt c cand c'"
  by (auto simp: selected_def intro: same_view_trans)

lemma pick_best_selected:
  assumes "pick_best_ready_from sch ref flt c = Inr (cand, c')"
  shows "selected s flt c cand c'"
proof -
  have "flt (buffer (get_buf ref' c') ! it)" if cand: "cand = Some (ref', it)" for ref' it
  proof -
    from assms cand obtain rs where "get_best_request sch c flt (buffer (get_buf ref c)) = Inr (rs, Some it)"
      "c' = set_buf ref ((get_buf ref c)\<lparr>buffer := rs\<rparr>) c" "ref' = ref"
      unfolding pick_best_ready_from_def by (auto simp: bindR_eq_Inr_iff Let_def split: option.splits if_splits)
    with sched.eligible show ?thesis by fastforce
  qed
  with pick_best_view(1) [OF assms] pick_best_ready [OF assms] show ?thesis by (simp add: selected_def)
qed

lemma pick_priority_selected:
  assumes "pick_priority_if flt c = Inr (cand, c')"
  shows "selected s flt c cand c'"
proof -
  have "flt (buffer (get_buf ref c') ! it)" if "cand = Some (ref, it)" for ref it
    using assms that by (auto simp: pick_priority_if_def bindR_eq_Inr_iff Let_def split: list.splits if_splits)
  with pick_priority_view(1) [OF assms] pick_priority_ready [OF assms] show ?thesis by (simp add: selected_def)
qed

lemma pick_rw_selected:
  assumes "pick_rw_if sch flt c = Inr (cand, c')"
  shows "selected s flt c cand c'"
proof -
  let ?w = "set_write_mode c"
  from assms have "pick_best_ready_from sch (if m_is_write_mode ?w then WriteBuf else ReadBuf)
      (\<lambda>req. \<not> would_close_active ?w req \<and> flt req) ?w = Inr (cand, c')" by (simp add: pick_rw_if_def Let_def)
  then have r: "selected s (\<lambda>req. \<not> would_close_active ?w req \<and> flt req) ?w cand c'" by (rule pick_best_selected)
  have "selected s (\<lambda>req. \<not> would_close_active ?w req \<and> flt req) c None ?w"
    using set_write_mode_kept set_write_mode_view by (simp add: selected_def cand_ready_def)
  from selected_trans [OF this r] show ?thesis by (simp add: selected_def)
qed

lemma select_slot_selected:
  assumes "select_slot flt slot sch c = Inr (cand, c')"
  shows "selected s flt c cand c'"
proof -
  from assms obtain cand1 c1 cand2 c2 where
    p1: "(if slot = ColumnBus then pick_best_ready_from sch ActiveBuf flt c else Inr (None, c)) = Inr (cand1, c1)" and
    p2: "(if cand1 = None then pick_priority_if flt c1 else Inr (cand1, c1)) = Inr (cand2, c2)" and
    p3: "(if cand2 = None \<and> buf_size (m_priority_buffer c2) = 0 then pick_rw_if sch flt c2 else Inr (cand2, c2)) = Inr (cand, c')"
    unfolding select_slot_def by (auto simp: bindR_eq_Inr_iff)
  have s1: "selected s flt c cand1 c1" using p1 by (auto intro: pick_best_selected selected_none split: if_splits)
  have s2: "selected s flt c cand2 c2"
    using p2 s1 selected_trans [OF s1 pick_priority_selected] by (auto split: if_splits)
  show ?thesis using p3 s2 selected_trans [OF s2 pick_rw_selected] by (auto split: if_splits)
qed

section \<open>Preparing in a slot\<close>

lemma upgrade_same_addr: "req_addr_vec (try_upgrade_command pol c r) = req_addr_vec r"
  by (cases pol) (simp_all add: ClosedCAP_try_upgrade_def Let_def)

lemma upgrade_in_slot_frame:
  "req_addr_vec (upgrade_in_slot flt pol c r) = req_addr_vec r"
  "req_key (upgrade_in_slot flt pol c r) = req_key r"
  "req_final_command (upgrade_in_slot flt pol c r) = req_final_command (try_upgrade_command pol c r)"
  using try_upgrade_keys [of pol c r] by (simp_all add: upgrade_in_slot_def Let_def upgrade_same_addr)

text \<open>The command of the prepared request is one the slot accepts, up to the other fields of the request.\<close>

lemma upgrade_in_slot_accepted:
  assumes "flt r"
  obtains r' where "flt r'" "req_command r' = req_command (upgrade_in_slot flt pol c r)" "req_addr_vec r' = req_addr_vec r"
proof (cases "req_command (upgrade_in_slot flt pol c r) = req_command r")
  case True
  with assms that show ?thesis by simp
next
  case False
  then have "flt (upgrade_in_slot flt pol c r)" by (auto simp: upgrade_in_slot_def Let_def split: if_splits)
  with that upgrade_in_slot_frame show ?thesis by blast
qed

definition issuable_req :: "dram_standard \<Rightarrow> Controller \<Rightarrow> Request \<Rightarrow> bool" where
  "issuable_req s c r \<longleftrightarrow>
     0 \<le> req_command r \<and>
     (\<exists>fin. final_ok s fin \<and> get_preq_command (m_device c) fin (req_addr_vec r) (m_clk c) = Inr (nat (req_command r))) \<and>
     device_check_timing (m_device c) (nat (req_command r)) (req_addr_vec r) (m_clk c)"

lemma ready_issuable: "cmd_ok s (req_final_command r) \<Longrightarrow> ready_req c r \<Longrightarrow> issuable_req s c r"
  by (auto simp: ready_req_def issuable_req_def cmd_ok_def)

lemma upgrade_in_slot_issuable:
  assumes "standard_ok s" "of_standard s (spec_of c)" "device_legal s (m_device c)"
    and "policy_ok s pol" and fin: "cmd_ok s (req_final_command r)" and rdy: "ready_req c r"
  shows "issuable_req s c (upgrade_in_slot flt pol c r) \<and> cmd_ok s (req_final_command (upgrade_in_slot flt pol c r))"
proof -
  note u = upgrade_ready [OF assms]
  show ?thesis
  proof (cases "req_command (upgrade_in_slot flt pol c r) = req_command r")
    case True
    with ready_issuable [OF fin rdy] upgrade_in_slot_frame u show ?thesis by (simp add: issuable_req_def)
  next
    case False
    then have "upgrade_in_slot flt pol c r = try_upgrade_command pol c r"
      by (auto simp: upgrade_in_slot_def Let_def split: if_splits)
    with u ready_issuable show ?thesis by auto
  qed
qed

lemma prepare_in_slot:
  assumes ok: "standard_ok s" and of: "of_standard s (spec_of c)" and leg: "device_legal s (m_device c)"
    and pol: "policy_ok s pol" and fin: "finals_ok s c" and sel: "selected s flt c0 (Some (ref, it)) c"
  defines "c' \<equiv> prepare_in_slot flt ref it pol c"
  shows "same_view c c'" "kept s c c'" "cand_issuable s c' ref it" "0 \<le> req_command (buffer (get_buf ref c') ! it)"
    "\<exists>r. flt r \<and> req_command r = req_command (buffer (get_buf ref c') ! it) \<and>
       req_addr_vec r = req_addr_vec (buffer (get_buf ref c') ! it)"
proof -
  let ?r = "buffer (get_buf ref c) ! it"
  let ?u = "upgrade_in_slot flt pol c ?r"
  let ?c1 = "replace_at ref it ?u c"
  from sel have it: "it < length (buffer (get_buf ref c))" and rdy: "ready_req c ?r" and fr: "flt ?r"
    by (simp_all add: selected_def cand_ready_def)
  have f: "cmd_ok s (req_final_command ?r)" using finals_okD [OF fin nth_mem [OF it]] .
  note u = upgrade_in_slot_issuable [OF ok of leg pol f rdy, where flt = flt]
  have v1: "same_view c ?c1" by (rule replace_at_view) (rule upgrade_in_slot_frame)
  have f1: "finals_ok s ?c1" using replace_at_finals [OF fin] u by blast
  obtain w where w: "buffer (get_buf ref c') ! it = w" "req_command w = req_command ?u" "req_addr_vec w = req_addr_vec ?u"
      "it < length (buffer (get_buf ref c'))" "bus_of c' = bus_of c" "same_view c c'" "finals_ok s c'"
  proof (cases "req_is_stat_updated ?u")
    case True
    with it have "c' = ?c1" by (simp add: c'_def prepare_in_slot_def Let_def)
    with that [of ?u] it v1 f1 show ?thesis by (simp add: bus_of_def)
  next
    case False
    let ?u' = "?u\<lparr>req_is_stat_updated := True\<rparr>"
    from False it have c': "c' = update_request_stats ref it ?c1" by (simp add: c'_def prepare_in_slot_def Let_def)
    have b: "get_buf x c' = get_buf x (replace_at ref it ?u' ?c1)" for x
      using it by (simp add: c' update_request_stats_frame(4))
    have "finals_ok s c'" using replace_at_finals [OF f1, of ?u' ref it] u finals_ok_bufs [OF b] by simp
    moreover have "same_view c c'" unfolding c' by (rule same_view_trans [OF v1 update_request_stats_view])
    ultimately show ?thesis using that [of ?u'] it by (simp add: b) (simp add: c' bus_of_def update_request_stats_frame(1-3))
  qed
  show "same_view c c'" "kept s c c'" using w by blast+
  show "0 \<le> req_command (buffer (get_buf ref c') ! it)" using w u by (simp add: issuable_req_def)
  show "cand_issuable s c' ref it" using w u by (simp add: cand_issuable_def issuable_req_def bus_of_def Let_def)
  obtain r' where "flt r'" "req_command r' = req_command ?u" "req_addr_vec r' = req_addr_vec ?r"
    by (rule upgrade_in_slot_accepted [where flt = flt and r = ?r and pol = pol and c = c, OF fr])
  with w upgrade_in_slot_frame(1)
  show "\<exists>r. flt r \<and> req_command r = req_command (buffer (get_buf ref c') ! it) \<and>
       req_addr_vec r = req_addr_vec (buffer (get_buf ref c') ! it)" by auto
qed

section \<open>A whole slot\<close>

definition parts_ok :: "dram_standard \<Rightarrow> DRAMSpec \<Rightarrow> int \<Rightarrow> parts \<Rightarrow> bool" where
  "parts_ok s sp ch p \<longleftrightarrow>
     (case p of (pol, ps, c) \<Rightarrow> slot_inv s sp ch (bus_of c) \<and> finals_ok s c \<and> policy_ok s pol \<and> plugins_ok s ps \<and> ctrl_ok c)"

definition issue_of :: "IssuedCommand option \<Rightarrow> cmd_event list" where
  "issue_of io = (case io of None \<Rightarrow> [] | Some i \<Rightarrow> [(ic_command i, ic_addr_vec i, ic_clk i)])"

text \<open>What a slot leaves: the events of its command, which the slot accepts.\<close>

definition slot_result :: "dram_standard \<Rightarrow> (Request \<Rightarrow> bool) \<Rightarrow> Controller \<Rightarrow> IssuedCommand option \<Rightarrow> Controller \<Rightarrow> bool" where
  "slot_result s flt c io c' \<longleftrightarrow>
     m_clk c' = m_clk c \<and> issued_of (m_events c') = issued_of (m_events c) @ issue_of io \<and>
     (slot_step s)\<^sup>=\<^sup>= (bus_of c) (bus_of c') \<and>
     (\<forall>i. io = Some i \<longrightarrow> ic_clk i = m_clk c \<and>
        (\<exists>r. flt r \<and> req_command r = int (ic_command i) \<and> req_addr_vec r = ic_addr_vec i))"

lemma finish_candidate_events:
  assumes "finish_candidate ref it (pol, ps, c) = Inr (pol', ps', c')" "it < length (buffer (get_buf ref c))"
  shows "issued_of (m_events c') = issued_of (m_events c) @
    [(nat (req_command (buffer (get_buf ref c) ! it)), req_addr_vec (buffer (get_buf ref c) ! it), m_clk c)]"
proof -
  let ?i = "issue_candidate ref it c"
  from assms(1) obtain c1 where pl: "plugins_on_issue (buffer (get_buf ref ?i) ! it) (ps, ?i) = Inr (ps', c1)"
    and c': "c' = advance_request ref it c1" by (rule finish_candidate_phases)
  note ps = conjunct2 [OF plugins_on_issue_sends [OF pl]]
  have it: "it < length (buffer (get_buf ref ?i))" using assms(2) by (simp add: issue_candidate_def Let_def)
  have "bus_of c' = bus_of c1" unfolding c' using advance_request_kept [OF sends_get_buf(1) [OF ps it]] by blast
  with sends_frame [OF ps] show ?thesis by (simp add: bus_of_def issue_candidate_def Let_def)
qed

lemma try_issue_slot_ok:
  assumes ok: "standard_ok s" "of_standard s sp" "spec_ok sp (Suc (enum_index (enum_Level s) ''Bank''))"
    and inv: "parts_ok s sp ch p" and t: "try_issue_slot flt slot sch p = Inr (io, p')"
  shows "parts_ok s sp ch p' \<and> slot_result s flt (ctrl_of p) io (ctrl_of p')"
proof -
  obtain pol ps c where p: "p = (pol, ps, c)" by (cases p) auto
  from inv p have si: "slot_inv s sp ch (bus_of c)" and fin: "finals_ok s c" and pol: "policy_ok s pol"
    and plug: "plugins_ok s ps" and ci: "ctrl_ok c" by (simp_all add: parts_ok_def)
  from t p obtain cand c1 where sel: "select_slot flt slot sch c = Inr (cand, c1)"
    and rest: "(case cand of None \<Rightarrow> Inr (None, pol, ps, c1) | Some (ref, it) \<Rightarrow>
        let c2 = prepare_in_slot flt ref it pol c1 in
        bindR (finish_candidate ref it (pol, ps, c2)) (\<lambda>s'.
          Inr (Some (issued_command slot (buffer (get_buf ref c2) ! it) (m_clk c2)), s'))) = Inr (io, p')"
    by (auto simp: try_issue_slot_def bindR_eq_Inr_iff)
  have s1: "selected s flt c cand c1" by (rule select_slot_selected [OF sel])
  then have b1: "bus_of c1 = bus_of c" and f1: "finals_ok s c1" and i1: "ctrl_ok c1"
    using fin ctrl_ok_view [OF _ ci] by (auto simp: selected_def)
  show ?thesis
  proof (cases cand)
    case None
    with rest b1 f1 i1 si pol plug p show ?thesis by (auto simp: parts_ok_def slot_result_def issue_of_def bus_of_def)
  next
    case (Some x)
    then obtain ref it where cand: "cand = Some (ref, it)" by (cases x) auto
    let ?c2 = "prepare_in_slot flt ref it pol c1"
    from rest cand obtain pol' ps' c' where fc: "finish_candidate ref it (pol, ps, ?c2) = Inr (pol', ps', c')"
      and io: "io = Some (issued_command slot (buffer (get_buf ref ?c2) ! it) (m_clk ?c2))" and p': "p' = (pol', ps', c')"
      by (auto simp: bindR_eq_Inr_iff Let_def)
    have d: "of_standard s (spec_of c1)" "device_legal s (m_device c1)"
      using si b1 ok(2) device_reachable_inv [OF ok(1,2)] by (auto simp: slot_inv_def bus_of_def)
    note pr = prepare_in_slot [OF ok(1) d pol f1 s1 [unfolded cand]]
    from pr(2) b1 f1 have b2: "bus_of ?c2 = bus_of c" and f2: "finals_ok s ?c2" by auto
    note fs = finish_candidate_slot [OF pol plug f2 pr(3) fc]
    have it: "it < length (buffer (get_buf ref ?c2))" using pr(3) by (simp add: cand_issuable_def)
    have "ctrl_ok c'" by (rule ctrl_ok_finish [OF ctrl_ok_view [OF pr(1) i1] it fc])
    moreover have "slot_inv s sp ch (bus_of c')" using slot_inv_step [OF ok _ fs(1)] si b2 by simp
    moreover have "slot_result s flt c io c'"
      using pr(4,5) fs(1,2) finish_candidate_events [OF fc it] b2 io
      by (auto simp: slot_result_def issue_of_def issued_command_def bus_of_def)
    ultimately show ?thesis using fs p p' by (simp add: parts_ok_def)
  qed
qed

section \<open>The start of a tick\<close>

definition base_ok :: "dram_standard \<Rightarrow> DRAMSpec \<Rightarrow> int \<Rightarrow> GenericDDR \<Rightarrow> bool" where
  "base_ok s sp ch g \<longleftrightarrow> parts_ok s sp ch (g_rowpolicy g, g_plugins g, g_ctrl g) \<and> refresh_ok s (g_refresh g)"

lemma hbm_tick_prologue_ok:
  assumes ok: "standard_ok s" "of_standard s sp" "spec_ok sp (Suc (enum_index (enum_Level s) ''Bank''))"
    and inv: "base_ok s sp ch g" and t: "hbm_tick_prologue g = Inr (rf, p)"
  shows "parts_ok s sp ch p \<and> refresh_ok s rf \<and> m_clk (ctrl_of p) = m_clk (g_ctrl g) + 1 \<and>
    m_device (ctrl_of p) = m_device (g_ctrl g) \<and> issued_of (m_events (ctrl_of p)) = issued_of (m_events (g_ctrl g))"
proof -
  let ?c = "g_ctrl g" and ?tp = "tick_prologue (g_ctrl g)"
  from t obtain c1 pol c2 where r: "refresh_tick (g_refresh g, ?tp) = Inr (rf, c1)"
    and p: "pre_schedule (g_rowpolicy g, c1) = Inr (pol, c2)" and pp: "p = (pol, map plugin_pre_schedule (g_plugins g), c2)"
    by (auto simp: hbm_tick_prologue_def bindR_eq_Inr_iff)
  from inv have si: "slot_inv s sp ch (bus_of ?c)" and s: "finals_ok s ?c" "policy_ok s (g_rowpolicy g)" "\<forall>x \<in> refresh_cmds (g_refresh g). cmd_ok s x"
    and plug: "plugins_ok s (g_plugins g)" and ci: "ctrl_ok ?c"
    by (simp_all add: base_ok_def parts_ok_def refresh_ok_def)
  note rs = refresh_tick_sends [OF r] and ps = pre_schedule_sends [OF p]
  have f2: "finals_ok s c2"
    using sends_finals [OF ps sends_finals [OF conjunct2 [OF rs]]] s policy_cmds_ok [OF s(2)] tick_prologue_frame(4) by blast
  have b: "m_device c2 = m_device ?c" "issued_of (m_events c2) = issued_of (m_events ?c)" "m_clk c2 = m_clk ?c + 1"
    using sends_frame [OF ps] sends_frame [OF conjunct2 [OF rs]] tick_prologue_frame(1-3) [where c = ?c] by simp_all
  have "ctrl_ok c2"
    using ctrl_ok_sends [OF ps ctrl_ok_sends [OF conjunct2 [OF rs] ctrl_ok_prologue [OF ci]]] .
  moreover have "slot_inv s sp ch (bus_of c2)"
    using slot_inv_step [OF ok si, of "bus_of c2"] b slot_step.advance [of s "m_device ?c" "issued_of (m_events ?c)" "m_clk ?c"]
    by (simp add: bus_of_def)
  moreover have "plugins_ok s (map plugin_pre_schedule (g_plugins g))" using plug by (simp add: plugins_ok_def)
  ultimately show ?thesis
    using f2 b pre_schedule_ok [OF p s(2)] rs s(3) by (simp add: pp parts_ok_def refresh_ok_def)
qed

lemma with_parts_ok: "parts_ok s sp ch p \<Longrightarrow> refresh_ok s rf \<Longrightarrow> base_ok s sp ch (with_parts g rf p)"
  by (cases p) (simp add: base_ok_def with_parts_def)

lemma with_parts_ctrl [simp]: "g_ctrl (with_parts g rf p) = ctrl_of p"
  by (cases p) (simp add: with_parts_def)

end
