(* ===== verification/Split_Cycle.thy ===== *)
theory Split_Cycle
  imports Split_Slots
begin

text \<open>
  A tick of a split-bus controller as a cycle of the abstract command bus: an optional column
  command followed by an optional row command, both at the clock of the cycle. HBM12 needs no
  more; the controllers with further state build on the same lemmas.
\<close>

section \<open>Cycles of two slots\<close>

text \<open>An optional issue at the clock of the cycle, of a command of the given kind.\<close>

inductive slot_issue :: "dram_standard \<Rightarrow> (nat \<Rightarrow> bool) \<Rightarrow> bus \<Rightarrow> bus \<Rightarrow> bool" for s kind where
  none: "slot_issue s kind b b"
| some: "final_ok s fin \<Longrightarrow> get_preq_command dev fin av clk = Inr cmd \<Longrightarrow> device_check_timing dev cmd av clk \<Longrightarrow> kind cmd \<Longrightarrow>
    slot_issue s kind (dev, es, clk) (issue_command cmd av clk dev, es @ [(cmd, av, clk)], clk)"

inductive split_cycle :: "dram_standard \<Rightarrow> bus \<Rightarrow> bus \<Rightarrow> bool" for s where
  cycle: "slot_issue s (on_column_bus s) (dev, es, clk + 1) b1 \<Longrightarrow> slot_issue s (on_row_bus s) b1 b2 \<Longrightarrow>
    split_cycle s (dev, es, clk) b2"

lemma slot_result_issue:
  assumes ok: "standard_ok s" and of: "of_standard s (spec_of c)" and r: "slot_result s flt c io c'"
    and k: "\<And>r cmd. flt r \<Longrightarrow> req_command r = int cmd \<Longrightarrow> cmd < length (CommandImpls s) \<Longrightarrow> kind cmd"
  shows "slot_issue s kind (bus_of c) (bus_of c')"
proof -
  from r have clk: "m_clk c' = m_clk c" and ev: "issued_of (m_events c') = issued_of (m_events c) @ issue_of io"
    and st: "bus_of c = bus_of c' \<or> slot_step s (bus_of c) (bus_of c')"
    by (auto simp: slot_result_def)
  from st show ?thesis
  proof
    assume "slot_step s (bus_of c) (bus_of c')"
    then show ?thesis
    proof cases
      case (advance dev es ck)
      with clk show ?thesis by (simp add: bus_of_def)
    next
      case (issue fin dev av ck cmd es)
      with ev obtain i where i: "io = Some i" "ic_command i = cmd" by (auto simp: bus_of_def issue_of_def split: option.splits)
      have "dev = m_device c" using issue(1) by (simp add: bus_of_def)
      with get_preq_command_less [OF ok _ issue(3,4)] of have "cmd < length (CommandImpls s)" by simp
      with i r k have "kind cmd" by (auto simp: slot_result_def)
      with issue show ?thesis by (simp add: slot_issue.some)
    qed
  qed (simp add: slot_issue.none)
qed

section \<open>Command classes of the standards\<close>

lemma classes_checked:
  "list_all (\<lambda>s. list_all (\<lambda>c.
     \<not> (on_row_bus s c \<and> on_column_bus s c) \<and> (CommandImpls s ! c \<in> {K_RD, K_RDA} \<longrightarrow> \<not> on_row_bus s c) \<and>
     (''Sid'' \<in> set (enum_Level s) \<and> CommandImpls s ! c \<in> {K_PREpb, K_PREab} \<longrightarrow> on_row_bus s c))
     [0..<length (CommandImpls s)]) all_standards"
  by code_simp

lemma one_bus: "s \<in> set all_standards \<Longrightarrow> c < length (CommandImpls s) \<Longrightarrow> on_column_bus s c \<Longrightarrow> \<not> on_row_bus s c"
  using classes_checked by (auto simp: list_all_iff)

lemma reads_off_row_bus:
  "s \<in> set all_standards \<Longrightarrow> c < length (CommandImpls s) \<Longrightarrow> CommandImpls s ! c \<in> {K_RD, K_RDA} \<Longrightarrow> \<not> on_row_bus s c"
  using classes_checked by (auto simp: list_all_iff)

lemma pre_on_row_bus:
  "s \<in> set all_standards \<Longrightarrow> ''Sid'' \<in> set (enum_Level s) \<Longrightarrow> c < length (CommandImpls s) \<Longrightarrow>
   CommandImpls s ! c \<in> {K_PREpb, K_PREab} \<Longrightarrow> on_row_bus s c"
  using classes_checked by (auto simp: list_all_iff)

lemma rck_on_column_bus:
  "CommandImpls s ! c \<in> {K_RCKSTRT, K_RCKSTOP} \<Longrightarrow> on_column_bus s c"
  by (auto simp: on_column_bus_def kind_at_def cmd_defs)

lemma hbm_slot_kind:
  assumes "bus_classes s sp" "cmd < length (CommandImpls s)" "req_command r = int cmd" "hbm_slot_matches sp slot r"
  shows "if slot = ColumnBus then on_column_bus s cmd else on_row_bus s cmd"
  using assms by (simp add: bus_classes_def hbm_slot_matches_def Let_def split: if_splits)

section \<open>Histories\<close>

text \<open>Every command of a sequence satisfies a rule about the commands before it.\<close>

definition each :: "(cmd_event list \<Rightarrow> cmd_event \<Rightarrow> bool) \<Rightarrow> cmd_event list \<Rightarrow> bool" where
  "each R es \<longleftrightarrow> (\<forall>i < length es. R (take i es) (es ! i))"

lemma each_Nil [simp]: "each R []"
  by (simp add: each_def)

lemma each_snoc [simp]: "each R (es @ [e]) \<longleftrightarrow> each R es \<and> R es e"
  by (auto simp: each_def less_Suc_eq nth_append)

lemma eachD: "each R (es1 @ e # es2) \<Longrightarrow> R es1 e"
  unfolding each_def by (drule spec [of _ "length es1"]) simp

lemma each_issue_of: "each R (es @ issue_of io) \<longleftrightarrow> each R es \<and> (\<forall>i. io = Some i \<longrightarrow> R es (ic_command i, ic_addr_vec i, ic_clk i))"
  by (cases io) (simp_all add: issue_of_def)

lemma slot_result_rule:
  assumes r: "slot_result s flt c io c'" and e: "each R (issued_of (m_events c))"
    and R: "\<And>r x. flt r \<Longrightarrow> req_command r = int x \<Longrightarrow> R (issued_of (m_events c)) (x, req_addr_vec r, m_clk c)"
  shows "each R (issued_of (m_events c'))"
proof -
  have "R (issued_of (m_events c)) (ic_command i, ic_addr_vec i, ic_clk i)" if "io = Some i" for i
  proof -
    from r that obtain q where q: "flt q" "req_command q = int (ic_command i)" "req_addr_vec q = ic_addr_vec i" "ic_clk i = m_clk c"
      by (auto simp: slot_result_def)
    from R [OF q(1,2)] q(3,4) show ?thesis by simp
  qed
  with r e show ?thesis by (simp add: slot_result_def each_issue_of)
qed

text \<open>The command a slot issued is of its kind.\<close>

lemma slot_issue_event:
  assumes st: "slot_issue s kind (bus_of c) (bus_of c')" and e: "issued_of (m_events c') = issued_of (m_events c) @ [(x, a, k)]"
    and ok: "standard_ok s" "of_standard s (spec_of c)"
  shows "kind x \<and> x < length (CommandImpls s)"
  using st
proof cases
  case none
  with e show ?thesis by (simp add: bus_of_def)
next
  case (some fin dev av clk cmd es)
  with e ok(2) have "cmd = x" "of_standard s (m_spec dev)" by (simp_all add: bus_of_def)
  with some get_preq_command_less [OF ok(1) _ some(3,4)] show ?thesis by simp
qed

section \<open>One tick\<close>

text \<open>A column slot and a row slot after the prologue.\<close>

lemma split_tick_cycle:
  assumes ok: "standard_ok s" "of_standard s sp" "spec_ok sp (Suc (enum_index (enum_Level s) ''Bank''))"
    and inv: "base_ok s sp ch g" and p: "hbm_tick_prologue g = Inr (rf, p)"
    and col: "slot_issue s (on_column_bus s) (bus_of (ctrl_of p)) (bus_of (ctrl_of p1))"
    and row: "slot_issue s (on_row_bus s) (bus_of (ctrl_of p1)) (bus_of (ctrl_of p2))"
  shows "split_cycle s (bus_of (g_ctrl g)) (bus_of (ctrl_of p2))"
proof -
  from hbm_tick_prologue_ok [OF ok inv p]
  have b: "bus_of (ctrl_of p) = (m_device (g_ctrl g), issued_of (m_events (g_ctrl g)), m_clk (g_ctrl g) + 1)" by (simp add: bus_of_def)
  show ?thesis unfolding bus_of_def [of "g_ctrl g"] by (rule split_cycle.cycle [OF col [unfolded b] row])
qed

lemma parts_spec: "parts_ok s sp ch p \<Longrightarrow> spec_of (ctrl_of p) = sp"
  by (cases p) (simp add: parts_ok_def slot_inv_def bus_of_def)

lemma slot_both:
  assumes ok: "standard_ok s" "of_standard s sp" "spec_ok sp (Suc (enum_index (enum_Level s) ''Bank''))"
    and p: "parts_ok s sp ch p" and t: "try_issue_slot flt slot sch p = Inr (io, p')"
    and k: "\<And>r cmd. flt r \<Longrightarrow> req_command r = int cmd \<Longrightarrow> cmd < length (CommandImpls s) \<Longrightarrow> kind cmd"
  shows "parts_ok s sp ch p'" "slot_result s flt (ctrl_of p) io (ctrl_of p')"
    "slot_issue s kind (bus_of (ctrl_of p)) (bus_of (ctrl_of p'))"
proof -
  from try_issue_slot_ok [OF ok p t] show "parts_ok s sp ch p'" and r: "slot_result s flt (ctrl_of p) io (ctrl_of p')" by blast+
  from slot_result_issue [OF ok(1) _ r k] parts_spec [OF p] ok(2)
  show "slot_issue s kind (bus_of (ctrl_of p)) (bus_of (ctrl_of p'))" by simp
qed

lemma HBM12_tick_ok:
  assumes ok: "standard_ok s" "of_standard s sp" "spec_ok sp (Suc (enum_index (enum_Level s) ''Bank''))"
    and bc: "bus_classes s sp" and inv: "base_ok s sp ch g" and t: "HBM12_tick g = Inr g'"
  shows "base_ok s sp ch g' \<and> split_cycle s (bus_of (g_ctrl g)) (bus_of (g_ctrl g'))"
proof -
  from t obtain rf p io p1 io2 p2 where pr: "hbm_tick_prologue g = Inr (rf, p)"
    and col: "try_issue_slot (hbm_slot_matches (spec_of (ctrl_of p)) ColumnBus) ColumnBus (g_scheduler g) p = Inr (io, p1)"
    and row: "try_issue_slot (hbm_slot_matches (spec_of (ctrl_of p)) RowBus) RowBus (g_scheduler g) p1 = Inr (io2, p2)"
    and g': "g' = with_parts g rf p2"
    by (auto simp: HBM12_tick_def bindR_eq_Inr_iff Let_def)
  from hbm_tick_prologue_ok [OF ok inv pr] have p: "parts_ok s sp ch p" "refresh_ok s rf" by blast+
  note sp = parts_spec [OF p(1)]
  note c = slot_both [OF ok p(1) col, of "on_column_bus s"]
  have c': "parts_ok s sp ch p1" "slot_issue s (on_column_bus s) (bus_of (ctrl_of p)) (bus_of (ctrl_of p1))"
    using c(1,3) hbm_slot_kind [OF bc] sp by auto
  note r = slot_both [OF ok c'(1) row, of "on_row_bus s"]
  have r': "parts_ok s sp ch p2" "slot_issue s (on_row_bus s) (bus_of (ctrl_of p1)) (bus_of (ctrl_of p2))"
    using r(1,3) hbm_slot_kind [OF bc] sp by force+
  from with_parts_ok [OF r'(1) p(2)] split_tick_cycle [OF ok inv pr c'(2) r'(2)] g' show ?thesis by simp
qed

end
