(* ===== verification/HBM34_Edges.thy ===== *)
theory HBM34_Edges
  imports Split_Cycle
begin

text \<open>
  The HBM3 and HBM4 controller: which commands may share a rising edge, and which precharges
  may follow on the falling edge.
\<close>

section \<open>HBM3 and HBM4\<close>

definition hbm34_ids :: "dram_standard \<Rightarrow> HBM34Controller \<Rightarrow> bool" where
  "hbm34_ids s h \<longleftrightarrow>
     ''Sid'' \<in> set (enum_Level s) \<and>
     (\<exists>pb ab. h_cmd_prepb h = int pb \<and> pb < length (CommandImpls s) \<and> CommandImpls s ! pb = K_PREpb \<and>
        h_cmd_preab h = int ab \<and> ab < length (CommandImpls s) \<and> CommandImpls s ! ab = K_PREab)"

lemma HBM34_init_ids:
  assumes ok: "standard_ok s" and of: "of_standard s (spec_of (g_ctrl g))" and i: "HBM34_init g = Inr h"
  shows "hbm34_ids s h" "h_base h = g"
    "h_rising_edge_cmd_info h = \<lparr>re_command = -1, re_pc = -1, re_bank_key = -1, re_next_pairing_falling_edge = -1\<rparr>"
proof -
  let ?sp = "spec_of (g_ctrl g)"
  from i obtain pb ab sid where e: "get_command_id ?sp ''PREpb'' = Inr pb" "get_command_id ?sp ''PREab'' = Inr ab"
    "get_level_id ?sp ''Sid'' = Inr sid" "h_cmd_prepb h = int pb" "h_cmd_preab h = int ab"
    and h: "h_base h = g" "h_rising_edge_cmd_info h = \<lparr>re_command = -1, re_pc = -1, re_bank_key = -1, re_next_pairing_falling_edge = -1\<rparr>"
    unfolding HBM34_init_def Let_def by (auto simp: bindR_eq_Inr_iff)
  have "''Sid'' \<in> set (enum_Level s)"
  proof (rule ccontr)
    assume "''Sid'' \<notin> set (enum_Level s)"
    with of e(3) show False by (simp add: get_level_id_def of_standard_def number_names_other)
  qed
  with get_command_id_kind [OF ok of, of K_PREpb] get_command_id_kind [OF ok of, of K_PREab] e(1,2,4,5)
  show "hbm34_ids s h" by (simp add: hbm34_ids_def)
qed (use i in \<open>auto simp: HBM34_init_def Let_def bindR_eq_Inr_iff\<close>)

text \<open>The last row command of a rising edge, and the record the controller keeps of it.\<close>

definition last_rising :: "dram_standard \<Rightarrow> cmd_event list \<Rightarrow> cmd_event option" where
  "last_rising s es =
     (case filter (\<lambda>(c, a, k). is_rising_edge k \<and> on_row_bus s c) (rev es) of [] \<Rightarrow> None | e # _ \<Rightarrow> Some e)"

definition info_of :: "HBM34Controller \<Rightarrow> cmd_event option \<Rightarrow> RisingEdgeCommandInfo" where
  "info_of h e =
     (case e of
        None \<Rightarrow> \<lparr>re_command = -1, re_pc = -1, re_bank_key = -1, re_next_pairing_falling_edge = -1\<rparr>
      | Some (c, a, k) \<Rightarrow>
          \<lparr>re_command = int c, re_pc = a ! h_level_pc h,
           re_bank_key = (if is_all_bank_row_command h (int c) then -1 else bank_key h a),
           re_next_pairing_falling_edge = k + (if int c = h_cmd_act h then 3 else 1)\<rparr>)"

text \<open>
  The rules of the two edges. On a falling edge only precharges are issued; one that pairs
  with the last rising row command goes to another pseudo channel, or is a single-bank
  precharge of another bank and the rising command was not an all-bank one. On a rising edge
  an all-bank row command never meets a column command of its pseudo channel.
\<close>

definition edge_rule :: "dram_standard \<Rightarrow> HBM34Controller \<Rightarrow> cmd_event list \<Rightarrow> cmd_event \<Rightarrow> bool" where
  "edge_rule s h es e \<longleftrightarrow>
     (case e of (c, a, k) \<Rightarrow>
        (if is_rising_edge k
         then is_all_bank_row_command h (int c) \<longrightarrow>
           (\<forall>(c1, a1, k1) \<in> set es. k1 = k \<and> 0 \<le> a1 ! h_level_pc h \<longrightarrow> 0 \<le> a ! h_level_pc h \<and> a ! h_level_pc h \<noteq> a1 ! h_level_pc h)
         else (int c = h_cmd_prepb h \<or> int c = h_cmd_preab h) \<and>
           (\<forall>c1 a1 k1. last_rising s es = Some (c1, a1, k1) \<and> k = k1 + (if int c1 = h_cmd_act h then 3 else 1) \<and>
              a1 ! h_level_pc h = a ! h_level_pc h \<longrightarrow>
              \<not> is_all_bank_row_command h (int c1) \<and> int c = h_cmd_prepb h \<and> bank_key h a \<noteq> bank_key h a1)))"

definition hbm34_inv :: "dram_standard \<Rightarrow> DRAMSpec \<Rightarrow> int \<Rightarrow> HBM34Controller \<Rightarrow> bool" where
  "hbm34_inv s sp ch h \<longleftrightarrow>
     (let es = issued_of (m_events (g_ctrl (h_base h))) in
      base_ok s sp ch (h_base h) \<and> hbm34_ids s h \<and> each (edge_rule s h) es \<and>
      h_rising_edge_cmd_info h = info_of h (last_rising s es))"

lemma HBM34_update_frame [simp]:
  "is_all_bank_row_command (h\<lparr>h_rising_column_pc := x\<rparr>) = is_all_bank_row_command h"
  "is_all_bank_row_command (h\<lparr>h_rising_edge_cmd_info := y\<rparr>) = is_all_bank_row_command h"
  "is_all_bank_row_command (h\<lparr>h_base := z\<rparr>) = is_all_bank_row_command h"
  "bank_key (h\<lparr>h_rising_column_pc := x\<rparr>) = bank_key h"
  "bank_key (h\<lparr>h_rising_edge_cmd_info := y\<rparr>) = bank_key h"
  "bank_key (h\<lparr>h_base := z\<rparr>) = bank_key h"
  by (simp_all add: fun_eq_iff is_all_bank_row_command_def bank_key_def)

lemma HBM34_ids_frame [simp]:
  "hbm34_ids s (h\<lparr>h_rising_column_pc := x\<rparr>) = hbm34_ids s h"
  "hbm34_ids s (h\<lparr>h_rising_edge_cmd_info := y\<rparr>) = hbm34_ids s h"
  "hbm34_ids s (h\<lparr>h_base := z\<rparr>) = hbm34_ids s h"
  "edge_rule s (h\<lparr>h_rising_column_pc := x\<rparr>) = edge_rule s h"
  "edge_rule s (h\<lparr>h_rising_edge_cmd_info := y\<rparr>) = edge_rule s h"
  "edge_rule s (h\<lparr>h_base := z\<rparr>) = edge_rule s h"
  "info_of (h\<lparr>h_rising_column_pc := x\<rparr>) = info_of h"
  "info_of (h\<lparr>h_rising_edge_cmd_info := y\<rparr>) = info_of h"
  "info_of (h\<lparr>h_base := z\<rparr>) = info_of h"
  by (auto simp: fun_eq_iff hbm34_ids_def edge_rule_def info_of_def split: option.splits)

lemma HBM34_slot_kind:
  assumes s: "s \<in> set all_standards" and bc: "bus_classes s sp" and ids: "hbm34_ids s h"
    and cmd: "cmd < length (CommandImpls s)" "req_command r = int cmd" and m: "HBM34_slot_matches h sp clk slot r"
  shows "if slot = ColumnBus then on_column_bus s cmd else on_row_bus s cmd"
proof (cases "hbm_slot_matches sp slot r")
  case True
  with hbm_slot_kind [OF bc cmd] show ?thesis by blast
next
  case False
  with m have f: "\<not> is_rising_edge clk" "slot \<noteq> ColumnBus" "req_command r = h_cmd_prepb h \<or> req_command r = h_cmd_preab h"
    by (auto simp: HBM34_slot_matches_def split: if_splits)
  with ids cmd pre_on_row_bus [OF s] show ?thesis by (auto simp: hbm34_ids_def)
qed

lemma last_rising_snoc:
  "last_rising s (es @ [(c, a, k)]) = (if is_rising_edge k \<and> on_row_bus s c then Some (c, a, k) else last_rising s es)"
  by (simp add: last_rising_def)

text \<open>Column commands obey the rules of the rising edge, since nothing was issued in the cycle before them.\<close>

lemma rising_column_rule:
  assumes "is_rising_edge k" "\<forall>e \<in> set es. snd (snd e) < k"
  shows "edge_rule s h es (c, a, k)"
  using assms by (auto simp: edge_rule_def)

lemma row_rule:
  assumes info: "h_rising_edge_cmd_info h = info_of h (last_rising s es)"
    and col: "\<forall>(c1, a1, k1) \<in> set es. k1 = k \<longrightarrow> a1 ! h_level_pc h = h_rising_column_pc h"
    and m: "HBM34_slot_matches h sp k RowBus r" and c: "req_command r = int c"
  shows "edge_rule s h es (c, req_addr_vec r, k)"
proof (cases "is_rising_edge k")
  case True
  with m col c show ?thesis by (fastforce simp: edge_rule_def HBM34_slot_matches_def split: if_splits)
next
  case False
  with m c have pre: "int c = h_cmd_prepb h \<or> int c = h_cmd_preab h"
    and can: "can_issue_falling_edge_pre h k r"
    by (auto simp: HBM34_slot_matches_def split: if_splits)
  have "\<not> is_all_bank_row_command h (int c1) \<and> int c = h_cmd_prepb h \<and> bank_key h (req_addr_vec r) \<noteq> bank_key h a1"
    if "last_rising s es = Some (c1, a1, k1)" "k = k1 + (if int c1 = h_cmd_act h then 3 else 1)"
      "a1 ! h_level_pc h = req_addr_vec r ! h_level_pc h" for c1 a1 k1
    using can that c by (auto simp: can_issue_falling_edge_pre_def info info_of_def Let_def split: if_splits)
  with False pre show ?thesis unfolding edge_rule_def prod.case by (simp only: if_False) blast
qed

text \<open>The column slot of a rising edge: the record of the last row command stands, and the slot leaves
  at most one command of this clock, in the pseudo channel the controller notes.\<close>

lemma HBM34_column_slot:
  assumes s: "s \<in> set all_standards"
    and ok: "standard_ok s" "of_standard s sp" "spec_ok sp (Suc (enum_index (enum_Level s) ''Bank''))"
    and bc: "bus_classes s sp" and ids: "hbm34_ids s h0" and p: "parts_ok s sp ch p" and rise: "is_rising_edge (m_clk (ctrl_of p))"
    and tr: "each (edge_rule s h) (issued_of (m_events (ctrl_of p)))"
    and old: "\<forall>e \<in> set (issued_of (m_events (ctrl_of p))). snd (snd e) < m_clk (ctrl_of p)"
    and t: "try_issue_slot (HBM34_slot_matches h0 (spec_of (ctrl_of p)) (m_clk (ctrl_of p)) ColumnBus) ColumnBus sch p = Inr (col, p1)"
  shows "parts_ok s sp ch p1 \<and> slot_issue s (on_column_bus s) (bus_of (ctrl_of p)) (bus_of (ctrl_of p1)) \<and>
    each (edge_rule s h) (issued_of (m_events (ctrl_of p1))) \<and> m_clk (ctrl_of p1) = m_clk (ctrl_of p) \<and>
    last_rising s (issued_of (m_events (ctrl_of p1))) = last_rising s (issued_of (m_events (ctrl_of p))) \<and>
    (\<forall>(c1, a1, k1) \<in> set (issued_of (m_events (ctrl_of p1))). k1 = m_clk (ctrl_of p) \<longrightarrow>
       a1 ! h_level_pc h = (case col of None \<Rightarrow> -1 | Some i \<Rightarrow> ic_addr_vec i ! h_level_pc h))"
proof -
  let ?es = "\<lambda>q. issued_of (m_events (ctrl_of q))" and ?clk = "m_clk (ctrl_of p)"
  note sp = parts_spec [OF p]
  have k: "on_column_bus s cmd" if "HBM34_slot_matches h0 (spec_of (ctrl_of p)) ?clk ColumnBus r" "req_command r = int cmd"
    "cmd < length (CommandImpls s)" for r cmd
    using HBM34_slot_kind [OF s _ ids that(3,2,1)] bc sp by simp
  note c = slot_both [OF ok p t, where kind = "on_column_bus s", OF k]
  have "each (edge_rule s h) (?es p1)"
    by (rule slot_result_rule [OF c(2)]) (use tr rising_column_rule [OF rise old] in simp_all)
  moreover from c(2) have e1: "?es p1 = ?es p @ issue_of col" and k1: "m_clk (ctrl_of p1) = ?clk" by (auto simp: slot_result_def)
  moreover have "last_rising s (?es p1) = last_rising s (?es p)"
  proof (cases col)
    case (Some i)
    with e1 slot_issue_event [OF c(3) _ ok(1)] sp ok(2) have "on_column_bus s (ic_command i) \<and> ic_command i < length (CommandImpls s)"
      by (simp add: issue_of_def)
    with one_bus [OF s] e1 Some show ?thesis by (simp add: issue_of_def last_rising_snoc)
  qed (simp add: e1 issue_of_def)
  moreover have "\<forall>(c1, a1, k1) \<in> set (?es p1). k1 = ?clk \<longrightarrow>
      a1 ! h_level_pc h = (case col of None \<Rightarrow> -1 | Some i \<Rightarrow> ic_addr_vec i ! h_level_pc h)"
    using old by (auto simp: e1 issue_of_def split: option.splits)
  ultimately show ?thesis using c(1,3) by (intro conjI) simp_all
qed

definition keep_rising_row :: "Clk_t \<Rightarrow> IssuedCommand option \<Rightarrow> HBM34Controller \<Rightarrow> HBM34Controller" where
  "keep_rising_row clk row h = (case row of Some i \<Rightarrow> if is_rising_edge clk then record_rising_row i h else h | None \<Rightarrow> h)"

lemma keep_rising_row_frame:
  "hbm34_ids s (keep_rising_row clk row h) = hbm34_ids s h" "edge_rule s (keep_rising_row clk row h) = edge_rule s h"
  "info_of (keep_rising_row clk row h) = info_of h"
  by (simp_all add: keep_rising_row_def record_rising_row_def Let_def split: option.splits)

text \<open>The row slot: its command obeys the rules, and the record kept afterwards is that of the new history.\<close>

lemma HBM34_row_slot:
  assumes s: "s \<in> set all_standards"
    and ok: "standard_ok s" "of_standard s sp" "spec_ok sp (Suc (enum_index (enum_Level s) ''Bank''))"
    and bc: "bus_classes s sp" and ids: "hbm34_ids s h" and p: "parts_ok s sp ch p"
    and tr: "each (edge_rule s h) (issued_of (m_events (ctrl_of p)))"
    and info: "h_rising_edge_cmd_info h = info_of h (last_rising s (issued_of (m_events (ctrl_of p))))"
    and col: "\<forall>(c1, a1, k1) \<in> set (issued_of (m_events (ctrl_of p))). k1 = m_clk (ctrl_of p) \<longrightarrow> a1 ! h_level_pc h = h_rising_column_pc h"
    and t: "try_issue_slot (HBM34_slot_matches h sp (m_clk (ctrl_of p)) RowBus) RowBus sch p = Inr (row, p')"
  shows "parts_ok s sp ch p' \<and> slot_issue s (on_row_bus s) (bus_of (ctrl_of p)) (bus_of (ctrl_of p')) \<and>
    each (edge_rule s h) (issued_of (m_events (ctrl_of p'))) \<and>
    h_rising_edge_cmd_info (keep_rising_row (m_clk (ctrl_of p)) row h) = info_of h (last_rising s (issued_of (m_events (ctrl_of p'))))"
proof -
  let ?es = "\<lambda>q. issued_of (m_events (ctrl_of q))" and ?clk = "m_clk (ctrl_of p)"
  have k: "on_row_bus s cmd" if "HBM34_slot_matches h sp ?clk RowBus r" "req_command r = int cmd" "cmd < length (CommandImpls s)" for r cmd
    using HBM34_slot_kind [OF s bc ids that(3,2,1)] by simp
  note r = slot_both [OF ok p t, where kind = "on_row_bus s", OF k]
  have "each (edge_rule s h) (?es p')"
    by (rule slot_result_rule [OF r(2)]) (use tr row_rule [OF info col] in simp_all)
  moreover have "h_rising_edge_cmd_info (keep_rising_row ?clk row h) = info_of h (last_rising s (?es p'))"
  proof -
    from r(2) have e: "?es p' = ?es p @ issue_of row" and ri: "\<And>i. row = Some i \<Longrightarrow> ic_clk i = ?clk" by (auto simp: slot_result_def)
    have "on_row_bus s (ic_command i)" if "row = Some i" for i
      using slot_issue_event [OF r(3) _ ok(1)] e that parts_spec [OF p] ok(2) by (simp add: issue_of_def)
    with info e ri show ?thesis
      by (auto simp: keep_rising_row_def issue_of_def last_rising_snoc record_rising_row_def info_of_def Let_def split: option.splits)
  qed
  ultimately show ?thesis using r(1,3) by (intro conjI) simp_all
qed

lemma HBM34_tick_ok:
  assumes s: "s \<in> set all_standards"
    and ok: "standard_ok s" "of_standard s sp" "spec_ok sp (Suc (enum_index (enum_Level s) ''Bank''))"
    and bc: "bus_classes s sp" and inv: "hbm34_inv s sp ch h" and t: "HBM34_tick h = Inr h'"
  shows "hbm34_inv s sp ch h' \<and> split_cycle s (bus_of (g_ctrl (h_base h))) (bus_of (g_ctrl (h_base h')))"
proof -
  let ?g = "h_base h" and ?h0 = "note_rising_column None h"
  from t obtain rf p where pr: "hbm_tick_prologue ?g = Inr (rf, p)" by (auto simp: HBM34_tick_def bindR_eq_Inr_iff)
  let ?clk = "m_clk (ctrl_of p)" and ?sp = "spec_of (ctrl_of p)"
  from t pr obtain col p1 row p2 where
    col: "(if is_rising_edge ?clk then try_issue_slot (HBM34_slot_matches ?h0 ?sp ?clk ColumnBus) ColumnBus (g_scheduler ?g) p
        else Inr (None, p)) = Inr (col, p1)" and
    row: "try_issue_slot (HBM34_slot_matches (note_rising_column col ?h0) ?sp ?clk RowBus) RowBus (g_scheduler ?g) p1 = Inr (row, p2)" and
    h': "h' = (keep_rising_row ?clk row (note_rising_column col ?h0))\<lparr>h_base := with_parts ?g rf p2\<rparr>"
    by (auto simp: HBM34_tick_def bindR_eq_Inr_iff Let_def keep_rising_row_def)
  define h1 where "h1 = note_rising_column col ?h0"
  have h1: "h1 = h\<lparr>h_rising_column_pc := (case col of None \<Rightarrow> -1 | Some i \<Rightarrow> ic_addr_vec i ! h_level_pc h)\<rparr>"
    by (simp add: h1_def note_rising_column_def split: option.split)
  let ?es = "\<lambda>q. issued_of (m_events (ctrl_of q))"
  from inv have b: "base_ok s sp ch ?g" and ids: "hbm34_ids s h" and tr: "each (edge_rule s h) (issued_of (m_events (g_ctrl ?g)))"
    and info: "h_rising_edge_cmd_info h = info_of h (last_rising s (issued_of (m_events (g_ctrl ?g))))"
    by (simp_all add: hbm34_inv_def Let_def)
  from hbm_tick_prologue_ok [OF ok b pr] have p: "parts_ok s sp ch p" "refresh_ok s rf"
    and pe: "?es p = issued_of (m_events (g_ctrl ?g))" and pc: "?clk = m_clk (g_ctrl ?g) + 1" by blast+
  have old: "\<forall>e \<in> set (?es p). snd (snd e) < ?clk"
    using b pe pc by (force simp: base_ok_def parts_ok_def slot_inv_def bus_of_def)
  have ids0: "hbm34_ids s ?h0" "hbm34_ids s h1" using ids by (simp_all add: note_rising_column_def h1)
  have c: "parts_ok s sp ch p1 \<and> slot_issue s (on_column_bus s) (bus_of (ctrl_of p)) (bus_of (ctrl_of p1)) \<and>
      each (edge_rule s h) (?es p1) \<and> m_clk (ctrl_of p1) = ?clk \<and> last_rising s (?es p1) = last_rising s (?es p) \<and>
      (\<forall>(c1, a1, k1) \<in> set (?es p1). k1 = ?clk \<longrightarrow> a1 ! h_level_pc h = h_rising_column_pc h1)"
  proof (cases "is_rising_edge ?clk")
    case True
    with col have tc: "try_issue_slot (HBM34_slot_matches ?h0 ?sp ?clk ColumnBus) ColumnBus (g_scheduler ?g) p = Inr (col, p1)" by simp
    have "each (edge_rule s h) (?es p)" using tr pe by simp
    from HBM34_column_slot [OF s ok bc ids0(1) p(1) True this old tc] show ?thesis by (simp add: h1)
  next
    case False
    with col have "p1 = p" by simp
    with p(1) tr pe old show ?thesis by (auto simp: slot_issue.none)
  qed
  from c have p1: "parts_ok s sp ch p1" and k1: "m_clk (ctrl_of p1) = ?clk" by blast+
  have r: "parts_ok s sp ch p2 \<and> slot_issue s (on_row_bus s) (bus_of (ctrl_of p1)) (bus_of (ctrl_of p2)) \<and>
    each (edge_rule s h1) (?es p2) \<and> h_rising_edge_cmd_info (keep_rising_row ?clk row h1) = info_of h1 (last_rising s (?es p2))"
    unfolding k1 [symmetric]
  proof (rule HBM34_row_slot [OF s ok bc ids0(2) p1])
    show "each (edge_rule s h1) (?es p1)" using c by (simp add: h1)
    show "h_rising_edge_cmd_info h1 = info_of h1 (last_rising s (?es p1))" using info pe c by (simp add: h1)
    show "\<forall>(c1, a1, k1) \<in> set (?es p1). k1 = m_clk (ctrl_of p1) \<longrightarrow> a1 ! h_level_pc h1 = h_rising_column_pc h1" using c by (simp add: h1)
    show "try_issue_slot (HBM34_slot_matches h1 sp (m_clk (ctrl_of p1)) RowBus) RowBus (g_scheduler ?g) p1 = Inr (row, p2)"
      using row k1 parts_spec [OF p(1)] by (simp add: h1_def)
  qed
  have f: "hbm34_ids s h'" "edge_rule s h' = edge_rule s h" "info_of h' = info_of h" "h_base h' = with_parts ?g rf p2"
    using ids by (simp_all add: h' h1_def [symmetric] keep_rising_row_frame h1)
  moreover from r have "base_ok s sp ch (with_parts ?g rf p2)" using with_parts_ok p(2) by blast
  moreover from c r have "split_cycle s (bus_of (g_ctrl ?g)) (bus_of (ctrl_of p2))" using split_tick_cycle [OF ok b pr] by blast
  ultimately show ?thesis using r by (simp add: hbm34_inv_def Let_def h' h1_def [symmetric] h1)
qed

end
