(* ===== verification/GDDR7_Clock.thy ===== *)
theory GDDR7_Clock
  imports Split_Cycle
begin

text \<open>The GDDR7 controller: the state of its read clock against the commands it issued.\<close>

section \<open>GDDR7\<close>

definition gddr7_ids :: "dram_standard \<Rightarrow> GDDR7Controller \<Rightarrow> bool" where
  "gddr7_ids s d \<longleftrightarrow>
     (\<forall>(x, k) \<in> {(d_cmd_rckstrt d, K_RCKSTRT), (d_cmd_rckstop d, K_RCKSTOP), (d_cmd_rd d, K_RD), (d_cmd_rda d, K_RDA)}.
        x < length (CommandImpls s) \<and> CommandImpls s ! x = k)"

lemma GDDR7_init_ids:
  assumes ok: "standard_ok s" and of: "of_standard s (spec_of (g_ctrl g))" and i: "GDDR7_init m t g = Inr d"
  shows "gddr7_ids s d" "d_base d = g" "d_rck_state d = (if d_rck_mode d = AlwaysOn then Toggling else Stopped)"
proof -
  let ?sp = "spec_of (g_ctrl g)"
  from i obtain a b c e where
    "get_command_id ?sp ''RCKSTRT'' = Inr a" "get_command_id ?sp ''RCKSTOP'' = Inr b"
    "get_command_id ?sp ''RD'' = Inr c" "get_command_id ?sp ''RDA'' = Inr e"
    "d_cmd_rckstrt d = a" "d_cmd_rckstop d = b" "d_cmd_rd d = c" "d_cmd_rda d = e"
    by (auto simp: GDDR7_init_def Let_def bindR_eq_Inr_iff split: if_splits)
  with get_command_id_kind [OF ok of, of K_RCKSTRT] get_command_id_kind [OF ok of, of K_RCKSTOP]
    get_command_id_kind [OF ok of, of K_RD] get_command_id_kind [OF ok of, of K_RDA]
  show "gddr7_ids s d" by (simp add: gddr7_ids_def)
qed (use i in \<open>auto simp: GDDR7_init_def Let_def bindR_eq_Inr_iff split: if_splits\<close>)

text \<open>The state of the read clock after a sequence of commands.\<close>

definition rck_step :: "GDDR7Controller \<Rightarrow> nat \<Rightarrow> RCKState \<Rightarrow> RCKState" where
  "rck_step d c st =
     (if c = d_cmd_rckstrt d then Toggling else if c = d_cmd_rckstop d then Stopped
      else if is_read_like d (int c) \<and> d_rck_mode d = StartWithRead then Toggling else st)"

definition rck_after :: "GDDR7Controller \<Rightarrow> cmd_event list \<Rightarrow> RCKState" where
  "rck_after d es = fold (\<lambda>e. rck_step d (fst e)) es (if d_rck_mode d = AlwaysOn then Toggling else Stopped)"

text \<open>With an explicit start command, a read finds the clock running.\<close>

definition read_clocked :: "GDDR7Controller \<Rightarrow> cmd_event list \<Rightarrow> cmd_event \<Rightarrow> bool" where
  "read_clocked d es e \<longleftrightarrow>
     (d_rck_mode d = StartWithRCKStrt \<and> is_read_like d (int (fst e)) \<longrightarrow> rck_after d es = Toggling)"

definition gddr7_inv :: "dram_standard \<Rightarrow> DRAMSpec \<Rightarrow> int \<Rightarrow> GDDR7Controller \<Rightarrow> bool" where
  "gddr7_inv s sp ch d \<longleftrightarrow>
     (let es = issued_of (m_events (g_ctrl (d_base d))) in
      base_ok s sp ch (d_base d) \<and> gddr7_ids s d \<and> each (read_clocked d) es \<and> d_rck_state d = rck_after d es)"

definition same_config :: "GDDR7Controller \<Rightarrow> GDDR7Controller \<Rightarrow> bool" where
  "same_config d d' \<longleftrightarrow>
     d_rck_mode d' = d_rck_mode d \<and> d_cmd_rckstrt d' = d_cmd_rckstrt d \<and> d_cmd_rckstop d' = d_cmd_rckstop d \<and>
     d_cmd_rd d' = d_cmd_rd d \<and> d_cmd_rda d' = d_cmd_rda d"

lemma same_config_frame:
  assumes "same_config d d'"
  shows "gddr7_ids s d' = gddr7_ids s d" "read_clocked d' = read_clocked d" "rck_after d' = rck_after d"
proof -
  from assms have r: "is_read_like d' = is_read_like d" by (simp add: same_config_def is_read_like_def fun_eq_iff)
  with assms have "rck_step d' = rck_step d" by (simp add: same_config_def rck_step_def fun_eq_iff)
  with assms show a: "rck_after d' = rck_after d" by (intro ext) (simp add: same_config_def rck_after_def)
  from assms r a show "read_clocked d' = read_clocked d" by (simp add: same_config_def read_clocked_def fun_eq_iff)
  from assms show "gddr7_ids s d' = gddr7_ids s d" by (simp add: same_config_def gddr7_ids_def)
qed

lemma update_rck_config:
  "same_config d (update_rck_state_on_issue k io d)" "same_config d (d\<lparr>d_base := g\<rparr>)"
  "same_config d d' \<Longrightarrow> same_config d' d'' \<Longrightarrow> same_config d d''"
  by (simp_all add: same_config_def update_rck_state_on_issue_def split: option.split)

lemma update_rck_state:
  assumes "d_rck_state d = rck_after d es"
  shows "d_rck_state (update_rck_state_on_issue k io d) = rck_after d (es @ issue_of io)"
  using assms by (auto simp: update_rck_state_on_issue_def rck_after_def issue_of_def rck_step_def split: option.splits) (metis RCKState.exhaust)

text \<open>The internal command of the clock is an issue on the column bus.\<close>

lemma try_issue_internal_rck_ok:
  assumes ok: "standard_ok s" "of_standard s sp" "spec_ok sp (Suc (enum_index (enum_Level s) ''Bank''))"
    and inv: "parts_ok s sp ch p" and ids: "gddr7_ids s d" and t: "try_issue_internal_rck d p = Inr (io, p')"
  shows "parts_ok s sp ch p' \<and>
    slot_result s (\<lambda>r. req_command r \<in> {int (d_cmd_rckstrt d), int (d_cmd_rckstop d)}) (ctrl_of p) io (ctrl_of p') \<and>
    (io = None \<longrightarrow> p' = p)"
proof (cases "io = None")
  case True
  with t have "p' = p"
    by (cases p) (auto simp: try_issue_internal_rck_def Let_def bindR_eq_Inr_iff split: option.splits if_splits)
  with True inv show ?thesis by (simp add: slot_result_def issue_of_def)
next
  case False
  obtain pol ps c where p: "p = (pol, ps, c)" by (cases p) auto
  from t p False obtain cmd where g: "get_rck_cmd d c = Some cmd"
    by (auto simp: try_issue_internal_rck_def split: option.splits)
  let ?req = "rck_request d c cmd"
  from t p False g have tm: "ctrl_check_timing c cmd (req_addr_vec ?req)"
    by (auto simp: try_issue_internal_rck_def Let_def split: if_splits)
  from t p g tm obtain ps' c2 where
    pl: "plugins_on_issue ?req (ps, c\<lparr>m_device := issue_command cmd (req_addr_vec ?req) (m_clk c) (m_device c),
        m_events := m_events c @ [Issued cmd (req_addr_vec ?req) (m_clk c)]\<rparr>) = Inr (ps', c2)"
    and io: "io = Some (issued_command ColumnBus ?req (m_clk c))"
    and p': "snd p' = (ps', c2)" "policy_ok s (fst p')"
    using inv by (auto simp: try_issue_internal_rck_def Let_def bindR_eq_Inr_iff parts_ok_def on_issue_ok)
  let ?av = "req_addr_vec (rck_request d c cmd)"
  let ?c1 = "c\<lparr>m_device := issue_command cmd ?av (m_clk c) (m_device c), m_events := m_events c @ [Issued cmd ?av (m_clk c)]\<rparr>"
  from g have cmd: "cmd = d_cmd_rckstrt d \<or> cmd = d_cmd_rckstop d" by (auto simp: get_rck_cmd_def split: if_splits)
  with ids have k: "cmd < length (CommandImpls s)" "CommandImpls s ! cmd \<in> {K_RCKSTRT, K_RCKSTOP}" by (auto simp: gddr7_ids_def)
  from inv p have si: "slot_inv s sp ch (bus_of c)" and fin: "finals_ok s c"
    and plug: "\<forall>x \<in> (\<Union>q \<in> set ps. plugin_cmds q). cmd_ok s x" and ci: "ctrl_ok c" by (simp_all add: parts_ok_def plugins_ok_def)
  have of: "of_standard s (spec_of c)" using si ok(2) by (simp add: slot_inv_def bus_of_def)
  have "impl_preq (kind_at s cmd) = None" using k(2) by (auto simp: kind_at_def cmd_defs)
  then have "get_preq_command (m_device c) cmd ?av (m_clk c) = Inr cmd" by (simp add: get_preq_command_resolve [OF of k(1)])
  moreover have "final_ok s cmd" using k by (auto simp: final_ok_def)
  ultimately have st: "slot_step s (bus_of c) (bus_of ?c1)"
    using slot_step.issue [of s cmd "m_device c" ?av "m_clk c" cmd "issued_of (m_events c)"] tm
    by (simp add: bus_of_def ctrl_check_timing_def)
  note ps = plugins_on_issue_sends [OF pl]
  have b2: "bus_of c2 = bus_of ?c1" using sends_frame [OF conjunct2 [OF ps]] by (simp add: bus_of_def)
  have "finals_ok s ?c1" using fin finals_ok_bufs [of ?c1 c] by simp
  from sends_finals [OF conjunct2 [OF ps] this plug] have "finals_ok s c2" .
  moreover have "same_view c ?c1" by (simp add: same_view_def)
  from ctrl_ok_sends [OF conjunct2 [OF ps] ctrl_ok_view [OF this ci]] have "ctrl_ok c2" .
  moreover have "slot_inv s sp ch (bus_of c2)" unfolding b2 by (rule slot_inv_step [OF ok si st])
  moreover have "plugins_ok s ps'" using plug ps by (simp add: plugins_ok_def)
  ultimately have "parts_ok s sp ch p'" using p' by (cases p') (simp add: parts_ok_def)
  moreover have "slot_result s (\<lambda>r. req_command r \<in> {int (d_cmd_rckstrt d), int (d_cmd_rckstop d)}) c io c2"
    unfolding slot_result_def using st b2 io cmd
    by (auto simp: bus_of_def issue_of_def issued_command_def rck_request_def intro!: exI [of _ "rck_request d c cmd"])
  ultimately show ?thesis using False p p'(1) by auto
qed

lemma GDDR7_tick_ok:
  assumes s: "s \<in> set all_standards"
    and ok: "standard_ok s" "of_standard s sp" "spec_ok sp (Suc (enum_index (enum_Level s) ''Bank''))"
    and bc: "bus_classes s sp" and inv: "gddr7_inv s sp ch d" and t: "GDDR7_tick d = Inr d'"
  shows "gddr7_inv s sp ch d' \<and> split_cycle s (bus_of (g_ctrl (d_base d))) (bus_of (g_ctrl (d_base d')))"
proof -
  let ?g = "d_base d"
  from t obtain rf p where pr: "hbm_tick_prologue ?g = Inr (rf, p)" by (auto simp: GDDR7_tick_def bindR_eq_Inr_iff)
  let ?clk = "m_clk (ctrl_of p)" and ?m = "GDDR7_slot_matches d (spec_of (ctrl_of p))"
  from t pr obtain rck p0 col p1 row p2 where
    rck: "try_issue_internal_rck d p = Inr (rck, p0)" and
    col: "(if rck = None then try_issue_slot (?m ColumnBus) ColumnBus (g_scheduler ?g) p0 else Inr (rck, p0)) = Inr (col, p1)" and
    row: "try_issue_slot (?m RowBus) RowBus (g_scheduler ?g) p1 = Inr (row, p2)" and
    d': "d' = (update_rck_state_on_issue ?clk row (update_rck_state_on_issue ?clk col d))\<lparr>d_base := with_parts ?g rf p2\<rparr>"
    by (auto simp: GDDR7_tick_def bindR_eq_Inr_iff Let_def)
  let ?es = "\<lambda>q. issued_of (m_events (ctrl_of q))"
  from inv have b: "base_ok s sp ch ?g" and ids: "gddr7_ids s d" and tr: "each (read_clocked d) (issued_of (m_events (g_ctrl ?g)))"
    and st: "d_rck_state d = rck_after d (issued_of (m_events (g_ctrl ?g)))" by (simp_all add: gddr7_inv_def Let_def)
  from hbm_tick_prologue_ok [OF ok b pr] have p: "parts_ok s sp ch p" "refresh_ok s rf"
    and pe: "?es p = issued_of (m_events (g_ctrl ?g))" by blast+
  note sp = parts_spec [OF p(1)]
  have k: "if slot = ColumnBus then on_column_bus s cmd else on_row_bus s cmd"
    if "?m slot r" "req_command r = int cmd" "cmd < length (CommandImpls s)" for slot r cmd
    using hbm_slot_kind [OF bc that(3,2), of slot] that(1) sp by (auto simp: GDDR7_slot_matches_def split: if_splits)
  note i = try_issue_internal_rck_ok [OF ok p(1) ids rck]
  have c: "parts_ok s sp ch p1 \<and> slot_issue s (on_column_bus s) (bus_of (ctrl_of p)) (bus_of (ctrl_of p1)) \<and>
      each (read_clocked d) (?es p1) \<and> ?es p1 = ?es p @ issue_of col"
  proof (cases "rck = None")
    case True
    with i have p0: "p0 = p" by blast
    with True col have tc: "try_issue_slot (?m ColumnBus) ColumnBus (g_scheduler ?g) p = Inr (col, p1)" by simp
    have kc: "on_column_bus s cmd" if "?m ColumnBus r" "req_command r = int cmd" "cmd < length (CommandImpls s)" for r cmd
      using k [OF that] by simp
    note c = slot_both [OF ok p(1) tc, where kind = "on_column_bus s", OF kc]
    have "each (read_clocked d) (?es p1)"
      by (rule slot_result_rule [OF c(2)])
        (use tr pe st in \<open>auto simp: read_clocked_def GDDR7_slot_matches_def split: if_splits intro: RCKState.exhaust\<close>)
    with c(1,3) c(2) show ?thesis by (simp add: slot_result_def)
  next
    case False
    with col have e: "col = rck" "p1 = p0" by simp_all
    from i have pp: "parts_ok s sp ch p0" and r: "slot_result s (\<lambda>r. req_command r \<in> {int (d_cmd_rckstrt d), int (d_cmd_rckstop d)}) (ctrl_of p) rck (ctrl_of p0)"
      by blast+
    have "\<not> is_read_like d (int x)" if "x = d_cmd_rckstrt d \<or> x = d_cmd_rckstop d" for x
      using ids that by (auto simp: gddr7_ids_def is_read_like_def)
    then have "each (read_clocked d) (?es p0)"
      using tr pe by (intro slot_result_rule [OF r]) (auto simp: read_clocked_def)
    moreover have "slot_issue s (on_column_bus s) (bus_of (ctrl_of p)) (bus_of (ctrl_of p0))"
      by (rule slot_result_issue [OF ok(1) _ r]) (use ids sp ok(2) rck_on_column_bus in \<open>auto simp: gddr7_ids_def\<close>)
    ultimately show ?thesis using pp r by (simp add: e slot_result_def)
  qed
  have kr: "on_row_bus s cmd" if "?m RowBus r" "req_command r = int cmd" "cmd < length (CommandImpls s)" for r cmd
    using k [OF that] by simp
  from c have p1: "parts_ok s sp ch p1" by blast
  note r = slot_both [OF ok p1 row, where kind = "on_row_bus s", OF kr]
  have e2: "?es p2 = ?es p1 @ issue_of row" using r(2) by (simp add: slot_result_def)
  have "\<not> is_read_like d (int (ic_command i))" if "row = Some i" for i
  proof -
    from slot_issue_event [OF r(3) _ ok(1)] e2 that parts_spec [OF p1] ok(2)
    have "on_row_bus s (ic_command i) \<and> ic_command i < length (CommandImpls s)" by (simp add: issue_of_def)
    with reads_off_row_bus [OF s] ids show ?thesis by (auto simp: is_read_like_def gddr7_ids_def)
  qed
  moreover from c have "each (read_clocked d) (?es p1)" by blast
  ultimately have "each (read_clocked d) (?es p2)" unfolding e2 each_issue_of by (simp add: read_clocked_def)
  moreover have "d_rck_state d' = rck_after d (?es p2)"
  proof -
    have "d_rck_state (update_rck_state_on_issue ?clk col d) = rck_after d (?es p1)"
      using update_rck_state [of d "?es p"] st pe c by simp
    then have "d_rck_state (update_rck_state_on_issue ?clk col d) = rck_after (update_rck_state_on_issue ?clk col d) (?es p1)"
      using same_config_frame(3) [OF update_rck_config(1)] by simp
    from update_rck_state [OF this] show ?thesis using same_config_frame(3) [OF update_rck_config(1)] by (simp add: d' e2)
  qed
  moreover have sc: "same_config d d'" unfolding d' using update_rck_config by blast
  moreover have "base_ok s sp ch (with_parts ?g rf p2)" by (rule with_parts_ok [OF r(1) p(2)])
  moreover have "split_cycle s (bus_of (g_ctrl ?g)) (bus_of (ctrl_of p2))"
    by (rule split_tick_cycle [OF ok b pr _ r(3)]) (use c in simp)
  ultimately show ?thesis using ids same_config_frame [OF sc] by (simp add: gddr7_inv_def d' Let_def)
qed

end
