(* ===== verification/Split_Example.thy ===== *)
theory Split_Example
  imports Split_Slots Example_Config
begin

text \<open>Reachable states of the split-bus controllers, and small channels of GDDR7 and HBM3.\<close>

section \<open>Reachable states\<close>

inductive split_reachable ::
  "(DRAMSpec \<Rightarrow> AddrMapper result) \<Rightarrow> CtrlConfig \<Rightarrow> nat \<Rightarrow> int \<Rightarrow> split_controller \<Rightarrow> bool" for mk cfg cores ch where
  start: "init_base mk cfg cores = Inr c \<Longrightarrow> g_ctrl g = ctrl_set_channel_id ch c \<Longrightarrow>
    refresh_created (m_device c) (g_refresh g) \<Longrightarrow> policy_created (m_device c) (g_rowpolicy g) \<Longrightarrow>
    list_all (plugin_created (m_device c)) (g_plugins g) \<Longrightarrow> split_created g sc \<Longrightarrow> split_reachable mk cfg cores ch sc"
| sent: "split_reachable mk cfg cores ch sc \<Longrightarrow> send req (g_ctrl (base_of sc)) = Inr (ok, req', c) \<Longrightarrow>
    split_reachable mk cfg cores ch (with_base ((base_of sc)\<lparr>g_ctrl := c\<rparr>) sc)"
| ticked: "split_reachable mk cfg cores ch sc \<Longrightarrow> split_tick sc = Inr sc' \<Longrightarrow> split_reachable mk cfg cores ch sc'"
| reset: "split_reachable mk cfg cores ch sc \<Longrightarrow> split_reachable mk cfg cores ch (split_reset_stats sc)"

section \<open>Runs\<close>

definition split_step :: "channel_op \<Rightarrow> split_controller \<Rightarrow> split_controller result" where
  "split_step op sc =
     (case op of
        Op_Send r \<Rightarrow> bindR (send r (g_ctrl (base_of sc))) (\<lambda>(_, _, c). Inr (with_base ((base_of sc)\<lparr>g_ctrl := c\<rparr>) sc))
      | Op_Tick \<Rightarrow> split_tick sc)"

lemma split_step_reachable:
  "split_reachable mk cfg cores ch sc \<Longrightarrow> split_step op sc = Inr sc' \<Longrightarrow> split_reachable mk cfg cores ch sc'"
  by (cases op) (auto simp: split_step_def bindR_eq_Inr_iff intro: split_reachable.intros)

lemma split_run_reachable:
  "split_reachable mk cfg cores ch sc \<Longrightarrow> foldR split_step ops sc = Inr sc' \<Longrightarrow> split_reachable mk cfg cores ch sc'"
  by (induction ops arbitrary: sc) (auto simp: bindR_eq_Inr_iff dest: split_step_reachable)

definition read_at :: "int \<Rightarrow> Request" where
  "read_at a = (Request_addr a Type_Read)\<lparr>req_intra_channel_addr := a\<rparr>"

section \<open>GDDR7\<close>

definition gx_constraints :: "TimingConsConfig list" where
  "gx_constraints =
     [\<lparr>tcc_level = 1, tcc_preceding = [0], tcc_following = [3, 4], tcc_latency = 2,
       tcc_window = None, tcc_sibling = None, tcc_history_group = None\<rparr>,
      \<lparr>tcc_level = 0, tcc_preceding = [11], tcc_following = [3], tcc_latency = 1,
       tcc_window = None, tcc_sibling = None, tcc_history_group = None\<rparr>]"

definition gx_cfg :: DramConfig where
  "gx_cfg = \<lparr>cfg_channel_width = 32, cfg_data_payload_bytes = None, cfg_dq = 8, cfg_count = [1, 1, 2, 64],
     cfg_timing = [4, 4, 4, 4, 4, 4, 4, 4, 4, 4, 4, 4, 4, 4, 4, 4, 4, 4, 4, 4, 4, 4, 4, 4, 4, 4, 4, 4, 4, 4, 4, 4, 4, 4, 4, 4, 1250],
     cfg_command_cycles = None, cfg_read_latency = 15, cfg_timing_constraints = gx_constraints\<rparr>"

definition gx_env :: cmd_env where
  "gx_env = \<lparr>T_Opened = 0, T_Closed = 1, T_Activating = 3, T_Row = 2, T_ACT = 0, T_ACT1 = 13, T_ACT2 = 13,
     T_PREpb = 1, T_PREab = 2, T_PREsb = 13, T_has_ACT2 = False\<rparr>"

definition gx_funcs :: FuncArrays where
  "gx_funcs =
     \<lparr>actions = [Some (ACT_action gx_env), Some (PREpb_action gx_env), Some (PREpb_action gx_env), None, None, Some (PREpb_action gx_env),
        Some (PREpb_action gx_env), None, None, None, None, None, None],
      preqs = [Some (ACT_preq gx_env), Some (PREpb_preq gx_env), None, Some (RD_preq gx_env), Some (RD_preq gx_env), Some (RD_preq gx_env),
        Some (RD_preq gx_env), Some (REFab_preq gx_env), Some (REFpb_preq gx_env), Some (RFMab_preq gx_env), Some (RFMpb_preq gx_env), None,
        None],
      rowhits = [None, None, None, Some (RD_rowhit gx_env), Some (RD_rowhit gx_env), Some (RD_rowhit gx_env), Some (RD_rowhit gx_env), None, None,
        None, None, None, None],
      rowopens = [None, None, None, Some (RD_rowopen gx_env), Some (RD_rowopen gx_env), Some (RD_rowopen gx_env), Some (RD_rowopen gx_env), None, None,
        None, None, None, None]\<rparr>"

definition gx_metas :: "DRAMCommandMeta list" where
  "gx_metas =
     [meta_none\<lparr>is_opening := True, is_row_command := True\<rparr>,
      meta_none\<lparr>is_closing := True, is_row_command := True\<rparr>,
      meta_none\<lparr>is_closing := True, is_row_command := True\<rparr>,
      meta_none\<lparr>is_accessing := True, is_column_command := True\<rparr>,
      meta_none\<lparr>is_accessing := True, is_column_command := True\<rparr>,
      meta_none\<lparr>is_closing := True, is_accessing := True, is_column_command := True\<rparr>,
      meta_none\<lparr>is_closing := True, is_accessing := True, is_column_command := True\<rparr>,
      meta_none\<lparr>is_refreshing := True, is_row_command := True\<rparr>,
      meta_none\<lparr>is_refreshing := True, is_row_command := True\<rparr>,
      meta_none\<lparr>is_refreshing := True, is_row_command := True\<rparr>,
      meta_none\<lparr>is_refreshing := True, is_row_command := True\<rparr>, meta_none\<lparr>is_column_command := True\<rparr>,
      meta_none\<lparr>is_column_command := True\<rparr>]"

definition gx_spec :: DRAMSpec where
  "gx_spec =
     \<lparr>levels = number_names 0 Map.empty (enum_Level GDDR7), commands = number_names 0 Map.empty (enum_Command GDDR7),
      states = number_names 0 Map.empty (enum_State GDDR7), timings = number_names 0 Map.empty (enum_Timing GDDR7),
      level_names = enum_Level GDDR7, command_names = enum_Command GDDR7, state_names = enum_State GDDR7,
      timing_names = enum_Timing GDDR7, level_count = 4, command_count = 13, state_count = 3, timing_count = 37,
      standard_name = ''GDDR7'', internal_prefetch_size = 32, channel_width = 32, data_payload_bytes = -1,
      read_latency = 15, organization = \<lparr>dq = 8, level_sizes = [1, 1, 2, 64]\<rparr>,
      init_states = [2, 1, 1, 2], supported_requests = [3, 4],
      timing_vals = [4, 4, 4, 4, 4, 4, 4, 4, 4, 4, 4, 4, 4, 4, 4, 4, 4, 4, 4, 4, 4, 4, 4, 4, 4, 4, 4, 4, 4, 4, 4, 4, 4, 4, 4, 4, 1250],
      command_cycles = [1, 1, 1, 1, 1, 1, 1, 1, 1, 1, 1, 1, 1],
      timing_cons =
        [[[], [], [], [], [], [], [], [], [], [], [], [ex_entry 3 1 1 False], []],
         [[ex_entry 3 2 1 False, ex_entry 4 2 1 False], [], [], [], [], [], [], [], [], [], [], [], []],
         [[], [], [], [], [], [], [], [], [], [], [], [], []],
         [[], [], [], [], [], [], [], [], [], [], [], [], []]],
      has_sibling_cons =
        [[False, False, False, False, False, False, False, False, False, False, False, False, False],
         [False, False, False, False, False, False, False, False, False, False, False, False, False],
         [False, False, False, False, False, False, False, False, False, False, False, False, False],
         [False, False, False, False, False, False, False, False, False, False, False, False, False]],
      command_meta = gx_metas,
      bank_targets = [BT_Single, BT_Single, BT_All, BT_Single, BT_Single, BT_Single, BT_Single, BT_All, BT_Single, BT_All, BT_Single, BT_All, BT_All],
      funcs = gx_funcs\<rparr>"

lemma gx_facts:
  "standard_ok GDDR7" "env_of GDDR7 = gx_env" "enum_index (enum_Level GDDR7) ''Bank'' = 1" "constraints_ok GDDR7 gx_cfg"
  "[0..<13] = [0, 1, 2, 3, 4, 5, 6, 7, 8, 9, 10, 11, 12]" "[0..<4] = [0, 1, 2, 3]"
  by code_simp+

lemma gx_impls:
  "map (\<lambda>k. impl_of k (env_of GDDR7)) (CommandImpls GDDR7) =
     [Cmd_ACT gx_env, Cmd_PREpb gx_env, Cmd_PREab gx_env, Cmd_RD gx_env, Cmd_WR gx_env, Cmd_RDA gx_env, Cmd_WRA gx_env, Cmd_REFab gx_env,
      Cmd_REFpb gx_env, Cmd_RFMab gx_env, Cmd_RFMpb gx_env, Cmd_RCKSTRT gx_env, Cmd_RCKSTOP gx_env]"
  unfolding gx_facts by (simp add: GDDR7_def)

lemma gx_load:
  "foldR load_timing_constraint gx_constraints (replicate 4 (replicate 13 [])) = Inr (timing_cons gx_spec)"
  by (simp add: gx_constraints_def load_timing_constraint_def mk_TimingConsEntry_def tcons_push_def gx_spec_def ex_entry_def
      eval_nat_numeral Let_def)

lemma gx_flags: "sibling_flags (timing_cons gx_spec) 4 13 = has_sibling_cons gx_spec"
  by (simp add: sibling_flags_def gx_facts gx_spec_def ex_entry_def)

lemma gx_counts: "length (enum_Level GDDR7) = 4" "length (enum_Command GDDR7) = 13" "length (enum_State GDDR7) = 3"
  "length (enum_Timing GDDR7) = 37"
  by (simp_all add: GDDR7_def)

lemma gx_indices: "map (enum_index (enum_State GDDR7)) (std_init_states GDDR7) = [2, 1, 1, 2]"
  "map (enum_index (enum_Command GDDR7)) (std_supported_requests GDDR7) = [3, 4]"
  "map (enum_index (enum_Command GDDR7)) (std_row_commands GDDR7) = [0, 1, 2, 7, 8, 9, 10]"
  "map (enum_index (enum_Command GDDR7)) (std_column_commands GDDR7) = [3, 4, 5, 6, 11, 12]"
  by code_simp+

lemma gx_names: "std_level_names GDDR7 = enum_Level GDDR7" "std_command_names GDDR7 = enum_Command GDDR7"
  "std_state_names GDDR7 = enum_State GDDR7" "std_timing_names GDDR7 = enum_Timing GDDR7" "std_prefetch_size GDDR7 = 32"
  by (simp_all add: GDDR7_def)

lemma gx_cfg_fields: "cfg_timing_constraints gx_cfg = gx_constraints" "cfg_count gx_cfg = [1, 1, 2, 64]"
  "cfg_channel_width gx_cfg = 32" "cfg_data_payload_bytes gx_cfg = None" "cfg_dq gx_cfg = 8" "cfg_command_cycles gx_cfg = None"
  "cfg_read_latency gx_cfg = 15" "cfg_timing gx_cfg = timing_vals gx_spec"
  by (simp_all add: gx_cfg_def gx_spec_def)

definition gx_loaded :: DRAMSpec where
  "gx_loaded = gx_spec\<lparr>standard_name := [], command_meta := [], bank_targets := [], funcs := FuncArrays_resize 0\<rparr>"

lemma gx_load_config: "load_config (static_spec GDDR7) gx_cfg = Inr gx_loaded"
proof -
  have c: "level_count (static_spec GDDR7) = 4" "command_count (static_spec GDDR7) = 13"
    by (simp_all add: static_spec_def gx_counts)
  show ?thesis
    unfolding load_config_def c gx_cfg_fields gx_load
    by (simp add: gx_flags gx_loaded_def load_command_cycles_def static_spec_def blank_spec_def gx_counts gx_names gx_indices
        set_names_def) (simp add: gx_spec_def eval_nat_numeral)
qed

lemma gx_construct: "construct_spec GDDR7 gx_cfg = Inr (gx_spec\<lparr>standard_name := []\<rparr>)"
proof -
  have n: "command_count gx_loaded = Suc (Suc (Suc (Suc (Suc (Suc (Suc (Suc (Suc (Suc (Suc (Suc (Suc 0))))))))))))"
    by (simp add: gx_loaded_def gx_spec_def eval_nat_numeral)
  show ?thesis
    unfolding construct_spec_def gx_load_config bindR_simps gx_impls populate_commands_def n classify_bus_def gx_indices
    by (simp add: gx_loaded_def register_command_def FuncArrays_resize_def cmd_defs Let_def gx_facts)
      (simp add: gx_spec_def gx_funcs_def gx_metas_def meta_none_def)
qed

lemma gx_registry: "registry ''GDDR7'' = Some GDDR7"
  by (simp add: registry_def all_standards_def standard_defs)

lemma gx_create: "create ''GDDR7'' gx_cfg = Inr gx_spec"
  by (simp add: create_def gx_registry gx_construct) (simp add: gx_spec_def)

subsection \<open>A channel\<close>

definition gx_cc :: CtrlConfig where
  "gx_cc = ex_cc\<lparr>cc_dram_impl := ''GDDR7'', cc_dram := gx_cfg\<rparr>"

definition gx_dev :: DRAMDevice where
  "gx_dev = \<lparr>m_spec = gx_spec, m_root = build_node gx_spec 2 0 0, m_bank_nodes = [[0]],
     m_bank_level = 1\<rparr>"

definition gx_mapper :: AddrMapperBase where
  "gx_mapper = \<lparr>m_num_mapped_levels = 3, m_addr_bits = [0, 1, 1], m_tx_offset = 7, m_row_idx = 1, m_col_idx = 2\<rparr>"

definition gx_ctrl :: Controller where
  "gx_ctrl = ex_ctrl\<lparr>m_device := gx_dev, m_addr_mapper := BaseMapper (RoBaRaCoCh gx_mapper), m_active_per_bank := [0],
     m_active_buffer := ReqBuffer_new 1\<rparr>"

definition gx_base :: GenericDDR where
  "gx_base = ex_channel\<lparr>g_ctrl := ctrl_set_channel_id 0 gx_ctrl\<rparr>"

lemma gx_levels: "get_level_id gx_spec ''Bank'' = Inr 1" "get_level_id gx_spec ''Row'' = Inr 2"
  "get_timing_value gx_spec ''tCK_ps'' = Inr 1250"
  by code_simp+

lemma gx_paths: "paths_at_level 1 (build_node gx_spec 2 0 0) = [[0]]"
  by code_simp

lemma gx_device_init: "device_init gx_spec = Inr gx_dev"
  by (simp add: device_init_def gx_levels gx_paths gx_dev_def del: One_nat_def)

lemma gx_mapper_init: "AddrMapperBase_init gx_spec = Inr gx_mapper"
  by code_simp

lemma gx_init_base: "init_base ex_mk gx_cc 1 = Inr gx_ctrl"
  by (simp add: init_base_def gx_cc_def ex_cc_def gx_create gx_device_init gx_levels ex_mk_def gx_mapper_init gx_ctrl_def ex_ctrl_def)
    (simp add: gx_dev_def eval_nat_numeral)

lemma gx_config: "registry (cc_dram_impl gx_cc) = Some GDDR7" "constraints_ok GDDR7 (cc_dram gx_cc)"
  by (simp_all add: gx_cc_def gx_registry gx_facts)

lemma gx_started:
  assumes "split_created gx_base sc"
  shows "split_reachable ex_mk gx_cc 1 0 sc"
  by (rule split_reachable.start [OF gx_init_base _ _ _ _ assms])
    (simp_all add: gx_base_def ex_channel_def refresh_created_def policy_created_def)

definition gx_start :: GDDR7Controller where
  "gx_start = \<lparr>d_base = gx_base, d_rck_mode = StartWithRCKStrt, d_rck_state = Stopped, d_rck_idle_threshold = 2, d_last_read_clk = -1,
     d_cmd_rckstrt = 11, d_cmd_rckstop = 12, d_cmd_rd = 3, d_cmd_rda = 5, d_channel_level = 0,
     d_num_rckstrt_issued = 0, d_num_rckstop_issued = 0\<rparr>"

lemma gx_ids: "get_command_id gx_spec ''RCKSTRT'' = Inr 11" "get_command_id gx_spec ''RCKSTOP'' = Inr 12"
  "get_command_id gx_spec ''RD'' = Inr 3" "get_command_id gx_spec ''RDA'' = Inr 5" "get_level_id gx_spec ''Channel'' = Inr 0"
  by code_simp+

lemma gx_start_reachable: "split_reachable ex_mk gx_cc 1 0 (GDDR7Ctrl gx_start)"
proof (rule gx_started)
  have "spec_of (g_ctrl gx_base) = gx_spec" by (simp add: gx_base_def gx_ctrl_def gx_dev_def ctrl_set_channel_id_def device_set_channel_id_def)
  then have "GDDR7_init ''start_with_rckstrt'' 2 gx_base = Inr gx_start"
    by (simp add: GDDR7_init_def parse_rck_mode_def gx_ids gx_start_def)
  then show "split_created gx_base (GDDR7Ctrl gx_start)" by (auto simp: split_created_def)
qed

section \<open>HBM3\<close>

definition hx_constraints :: "TimingConsConfig list" where
  "hx_constraints =
     [\<lparr>tcc_level = 4, tcc_preceding = [0], tcc_following = [3, 4], tcc_latency = 2,
       tcc_window = None, tcc_sibling = None, tcc_history_group = None\<rparr>,
      \<lparr>tcc_level = 4, tcc_preceding = [3], tcc_following = [1], tcc_latency = 3,
       tcc_window = None, tcc_sibling = None, tcc_history_group = None\<rparr>]"

definition hx_cfg :: DramConfig where
  "hx_cfg = \<lparr>cfg_channel_width = 32, cfg_data_payload_bytes = None, cfg_dq = 8, cfg_count = [1, 1, 1, 1, 1, 4, 8],
     cfg_timing = [4, 4, 4, 4, 4, 4, 4, 4, 4, 4, 4, 4, 4, 4, 4, 4, 4, 4, 4, 4, 4, 4, 4, 4, 4, 4, 4, 4, 1250],
     cfg_command_cycles = None, cfg_read_latency = 15, cfg_timing_constraints = hx_constraints\<rparr>"

definition hx_env :: cmd_env where
  "hx_env = \<lparr>T_Opened = 0, T_Closed = 1, T_Activating = 3, T_Row = 5, T_ACT = 0, T_ACT1 = 11, T_ACT2 = 11,
     T_PREpb = 1, T_PREab = 2, T_PREsb = 11, T_has_ACT2 = False\<rparr>"

definition hx_funcs :: FuncArrays where
  "hx_funcs =
     \<lparr>actions = [Some (ACT_action hx_env), Some (PREpb_action hx_env), Some (PREpb_action hx_env), None, None, Some (PREpb_action hx_env),
        Some (PREpb_action hx_env), None, None, None, None],
      preqs = [Some (ACT_preq hx_env), Some (PREpb_preq hx_env), None, Some (RD_preq hx_env), Some (RD_preq hx_env), Some (RD_preq hx_env),
        Some (RD_preq hx_env), Some (REFab_preq hx_env), Some (REFpb_preq hx_env), Some (RFMab_preq hx_env), Some (RFMpb_preq hx_env)],
      rowhits = [None, None, None, Some (RD_rowhit hx_env), Some (RD_rowhit hx_env), Some (RD_rowhit hx_env), Some (RD_rowhit hx_env), None, None,
        None, None],
      rowopens = [None, None, None, Some (RD_rowopen hx_env), Some (RD_rowopen hx_env), Some (RD_rowopen hx_env), Some (RD_rowopen hx_env), None, None,
        None, None]\<rparr>"

definition hx_metas :: "DRAMCommandMeta list" where
  "hx_metas =
     [meta_none\<lparr>is_opening := True, is_row_command := True\<rparr>,
      meta_none\<lparr>is_closing := True, is_row_command := True\<rparr>,
      meta_none\<lparr>is_closing := True, is_row_command := True\<rparr>,
      meta_none\<lparr>is_accessing := True, is_column_command := True\<rparr>,
      meta_none\<lparr>is_accessing := True, is_column_command := True\<rparr>,
      meta_none\<lparr>is_closing := True, is_accessing := True, is_column_command := True\<rparr>,
      meta_none\<lparr>is_closing := True, is_accessing := True, is_column_command := True\<rparr>,
      meta_none\<lparr>is_refreshing := True, is_row_command := True\<rparr>,
      meta_none\<lparr>is_refreshing := True, is_row_command := True\<rparr>,
      meta_none\<lparr>is_refreshing := True, is_row_command := True\<rparr>,
      meta_none\<lparr>is_refreshing := True, is_row_command := True\<rparr>]"

definition hx_spec :: DRAMSpec where
  "hx_spec =
     \<lparr>levels = number_names 0 Map.empty (enum_Level HBM3), commands = number_names 0 Map.empty (enum_Command HBM3),
      states = number_names 0 Map.empty (enum_State HBM3), timings = number_names 0 Map.empty (enum_Timing HBM3),
      level_names = enum_Level HBM3, command_names = enum_Command HBM3, state_names = enum_State HBM3,
      timing_names = enum_Timing HBM3, level_count = 7, command_count = 11, state_count = 3, timing_count = 29,
      standard_name = ''HBM3'', internal_prefetch_size = 8, channel_width = 32, data_payload_bytes = -1,
      read_latency = 15, organization = \<lparr>dq = 8, level_sizes = [1, 1, 1, 1, 1, 4, 8]\<rparr>,
      init_states = [2, 2, 2, 2, 1, 1, 2], supported_requests = [3, 4],
      timing_vals = [4, 4, 4, 4, 4, 4, 4, 4, 4, 4, 4, 4, 4, 4, 4, 4, 4, 4, 4, 4, 4, 4, 4, 4, 4, 4, 4, 4, 1250],
      command_cycles = [1, 1, 1, 1, 1, 1, 1, 1, 1, 1, 1],
      timing_cons =
        [[[], [], [], [], [], [], [], [], [], [], []],
         [[], [], [], [], [], [], [], [], [], [], []],
         [[], [], [], [], [], [], [], [], [], [], []],
         [[], [], [], [], [], [], [], [], [], [], []],
         [[ex_entry 3 2 1 False, ex_entry 4 2 1 False], [], [], [ex_entry 1 3 1 False], [], [], [], [], [], [], []],
         [[], [], [], [], [], [], [], [], [], [], []],
         [[], [], [], [], [], [], [], [], [], [], []]],
      has_sibling_cons =
        [[False, False, False, False, False, False, False, False, False, False, False],
         [False, False, False, False, False, False, False, False, False, False, False],
         [False, False, False, False, False, False, False, False, False, False, False],
         [False, False, False, False, False, False, False, False, False, False, False],
         [False, False, False, False, False, False, False, False, False, False, False],
         [False, False, False, False, False, False, False, False, False, False, False],
         [False, False, False, False, False, False, False, False, False, False, False]],
      command_meta = hx_metas,
      bank_targets = [BT_Single, BT_Single, BT_All, BT_Single, BT_Single, BT_Single, BT_Single, BT_All, BT_Single, BT_All, BT_Single],
      funcs = hx_funcs\<rparr>"

lemma hx_facts:
  "standard_ok HBM3" "env_of HBM3 = hx_env" "enum_index (enum_Level HBM3) ''Bank'' = 4" "constraints_ok HBM3 hx_cfg"
  "[0..<11] = [0, 1, 2, 3, 4, 5, 6, 7, 8, 9, 10]" "[0..<7] = [0, 1, 2, 3, 4, 5, 6]"
  by code_simp+

lemma hx_impls:
  "map (\<lambda>k. impl_of k (env_of HBM3)) (CommandImpls HBM3) =
     [Cmd_ACT hx_env, Cmd_PREpb hx_env, Cmd_PREab hx_env, Cmd_RD hx_env, Cmd_WR hx_env, Cmd_RDA hx_env, Cmd_WRA hx_env, Cmd_REFab hx_env,
      Cmd_REFpb hx_env, Cmd_RFMab hx_env, Cmd_RFMpb hx_env]"
  unfolding hx_facts by (simp add: HBM3_def)

lemma hx_load:
  "foldR load_timing_constraint hx_constraints (replicate 7 (replicate 11 [])) = Inr (timing_cons hx_spec)"
  by (simp add: hx_constraints_def load_timing_constraint_def mk_TimingConsEntry_def tcons_push_def hx_spec_def ex_entry_def
      eval_nat_numeral Let_def)

lemma hx_flags: "sibling_flags (timing_cons hx_spec) 7 11 = has_sibling_cons hx_spec"
  by (simp add: sibling_flags_def hx_facts hx_spec_def ex_entry_def)

lemma hx_counts: "length (enum_Level HBM3) = 7" "length (enum_Command HBM3) = 11" "length (enum_State HBM3) = 3"
  "length (enum_Timing HBM3) = 29"
  by (simp_all add: HBM3_def)

lemma hx_indices: "map (enum_index (enum_State HBM3)) (std_init_states HBM3) = [2, 2, 2, 2, 1, 1, 2]"
  "map (enum_index (enum_Command HBM3)) (std_supported_requests HBM3) = [3, 4]"
  "map (enum_index (enum_Command HBM3)) (std_row_commands HBM3) = [0, 1, 2, 7, 8, 9, 10]"
  "map (enum_index (enum_Command HBM3)) (std_column_commands HBM3) = [3, 4, 5, 6]"
  by code_simp+

lemma hx_names: "std_level_names HBM3 = enum_Level HBM3" "std_command_names HBM3 = enum_Command HBM3"
  "std_state_names HBM3 = enum_State HBM3" "std_timing_names HBM3 = enum_Timing HBM3" "std_prefetch_size HBM3 = 8"
  by (simp_all add: HBM3_def)

lemma hx_cfg_fields: "cfg_timing_constraints hx_cfg = hx_constraints" "cfg_count hx_cfg = [1, 1, 1, 1, 1, 4, 8]"
  "cfg_channel_width hx_cfg = 32" "cfg_data_payload_bytes hx_cfg = None" "cfg_dq hx_cfg = 8" "cfg_command_cycles hx_cfg = None"
  "cfg_read_latency hx_cfg = 15" "cfg_timing hx_cfg = timing_vals hx_spec"
  by (simp_all add: hx_cfg_def hx_spec_def)

definition hx_loaded :: DRAMSpec where
  "hx_loaded = hx_spec\<lparr>standard_name := [], command_meta := [], bank_targets := [], funcs := FuncArrays_resize 0\<rparr>"

lemma hx_load_config: "load_config (static_spec HBM3) hx_cfg = Inr hx_loaded"
proof -
  have c: "level_count (static_spec HBM3) = 7" "command_count (static_spec HBM3) = 11"
    by (simp_all add: static_spec_def hx_counts)
  show ?thesis
    unfolding load_config_def c hx_cfg_fields hx_load
    by (simp add: hx_flags hx_loaded_def load_command_cycles_def static_spec_def blank_spec_def hx_counts hx_names hx_indices
        set_names_def) (simp add: hx_spec_def eval_nat_numeral)
qed

lemma hx_construct: "construct_spec HBM3 hx_cfg = Inr (hx_spec\<lparr>standard_name := []\<rparr>)"
proof -
  have n: "command_count hx_loaded = Suc (Suc (Suc (Suc (Suc (Suc (Suc (Suc (Suc (Suc (Suc 0))))))))))"
    by (simp add: hx_loaded_def hx_spec_def eval_nat_numeral)
  show ?thesis
    unfolding construct_spec_def hx_load_config bindR_simps hx_impls populate_commands_def n classify_bus_def hx_indices
    by (simp add: hx_loaded_def register_command_def FuncArrays_resize_def cmd_defs Let_def hx_facts)
      (simp add: hx_spec_def hx_funcs_def hx_metas_def meta_none_def)
qed

lemma hx_registry: "registry ''HBM3'' = Some HBM3"
  by (simp add: registry_def all_standards_def standard_defs)

lemma hx_create: "create ''HBM3'' hx_cfg = Inr hx_spec"
  by (simp add: create_def hx_registry hx_construct) (simp add: hx_spec_def)

subsection \<open>A channel\<close>

definition hx_cc :: CtrlConfig where
  "hx_cc = ex_cc\<lparr>cc_dram_impl := ''HBM3'', cc_dram := hx_cfg\<rparr>"

definition hx_dev :: DRAMDevice where
  "hx_dev = \<lparr>m_spec = hx_spec, m_root = build_node hx_spec 5 0 0, m_bank_nodes = [[0, 0, 0, 0]],
     m_bank_level = 4\<rparr>"

definition hx_mapper :: AddrMapperBase where
  "hx_mapper = \<lparr>m_num_mapped_levels = 6, m_addr_bits = [0, 0, 0, 0, 2, 0], m_tx_offset = 5, m_row_idx = 4, m_col_idx = 5\<rparr>"

definition hx_ctrl :: Controller where
  "hx_ctrl = ex_ctrl\<lparr>m_device := hx_dev, m_addr_mapper := BaseMapper (RoBaRaCoCh hx_mapper), m_active_per_bank := [0],
     m_active_buffer := ReqBuffer_new 1\<rparr>"

definition hx_base :: GenericDDR where
  "hx_base = ex_channel\<lparr>g_ctrl := ctrl_set_channel_id 0 hx_ctrl\<rparr>"

lemma hx_levels: "get_level_id hx_spec ''Bank'' = Inr 4" "get_level_id hx_spec ''Row'' = Inr 5"
  "get_timing_value hx_spec ''tCK_ps'' = Inr 1250"
  by code_simp+

lemma hx_paths: "paths_at_level 4 (build_node hx_spec 5 0 0) = [[0, 0, 0, 0]]"
  by code_simp

lemma hx_device_init: "device_init hx_spec = Inr hx_dev"
  by (simp add: device_init_def hx_levels hx_paths hx_dev_def del: One_nat_def)

lemma hx_mapper_init: "AddrMapperBase_init hx_spec = Inr hx_mapper"
  by code_simp

lemma hx_init_base: "init_base ex_mk hx_cc 1 = Inr hx_ctrl"
  by (simp add: init_base_def hx_cc_def ex_cc_def hx_create hx_device_init hx_levels ex_mk_def hx_mapper_init hx_ctrl_def ex_ctrl_def)
    (simp add: hx_dev_def eval_nat_numeral)

lemma hx_config: "registry (cc_dram_impl hx_cc) = Some HBM3" "constraints_ok HBM3 (cc_dram hx_cc)"
  by (simp_all add: hx_cc_def hx_registry hx_facts)

lemma hx_started:
  assumes "split_created hx_base sc"
  shows "split_reachable ex_mk hx_cc 1 0 sc"
  by (rule split_reachable.start [OF hx_init_base _ _ _ _ assms])
    (simp_all add: hx_base_def ex_channel_def refresh_created_def policy_created_def)

definition hx_start :: HBM34Controller where
  "hx_start = \<lparr>h_base = hx_base, h_cmd_act = 0, h_cmd_prepb = 1, h_cmd_preab = 2, h_cmd_refab = 7, h_cmd_rfmab = 9,
     h_level_pc = 1, h_level_sid = 2, h_level_bg = 3, h_level_bank = 4, h_bank_groups = 1, h_banks_per_group = 1,
     h_rising_column_pc = -1,
     h_rising_edge_cmd_info = \<lparr>re_command = -1, re_pc = -1, re_bank_key = -1, re_next_pairing_falling_edge = -1\<rparr>\<rparr>"

lemma hx_ids: "get_command_id hx_spec ''ACT'' = Inr 0" "get_command_id hx_spec ''PREpb'' = Inr 1" "get_command_id hx_spec ''PREab'' = Inr 2"
  "get_command_id hx_spec ''REFab'' = Inr 7" "has_command hx_spec ''RFMab''" "get_command_id hx_spec ''RFMab'' = Inr 9"
  "get_level_id hx_spec ''PseudoChannel'' = Inr 1" "get_level_id hx_spec ''Sid'' = Inr 2" "get_level_id hx_spec ''BankGroup'' = Inr 3"
  "get_level_size hx_spec ''BankGroup'' = Inr 1" "get_level_size hx_spec ''Bank'' = Inr 1"
  by code_simp+

lemma hx_start_reachable: "split_reachable ex_mk hx_cc 1 0 (HBM34Ctrl hx_start)"
proof (rule hx_started)
  have "spec_of (g_ctrl hx_base) = hx_spec" by (simp add: hx_base_def hx_ctrl_def hx_dev_def ctrl_set_channel_id_def device_set_channel_id_def)
  then have "HBM34_init hx_base = Inr hx_start" by (simp add: HBM34_init_def hx_ids hx_levels hx_start_def)
  then show "split_created hx_base (HBM34Ctrl hx_start)" by (auto simp: split_created_def)
qed

section \<open>Two runs\<close>

text \<open>
  GDDR7, one read: the clock is started and the row activated in the first cycle, the read follows
  in the third. HBM3, two reads of different rows of
  one bank: activate and read on rising edges, then the row is closed on the falling edge of cycle six.
\<close>

definition gx_vec :: AddrVec_t where
  "gx_vec = [0, 0, 1, 0]"

definition hx_vec :: "int \<Rightarrow> AddrVec_t" where
  "hx_vec row = [0, 0, 0, 0, 0, row, 0]"

definition gx_sent :: "split_controller result" where
  "gx_sent = split_step (Op_Send (read_at 256)) (GDDR7Ctrl gx_start)"

definition gx_idle :: "split_controller \<Rightarrow> split_controller result" where
  "gx_idle = foldR split_step [Op_Tick, Op_Tick]"

definition hx_end :: "split_controller result" where
  "hx_end = foldR split_step [Op_Send (read_at 32), Op_Send (read_at 64), Op_Tick, Op_Tick, Op_Tick, Op_Tick, Op_Tick, Op_Tick]
     (HBM34Ctrl hx_start)"

lemma gx_evaluated:
  "case gx_sent of
     Inr sc \<Rightarrow> issued_of (m_events (g_ctrl (base_of sc))) = [] \<and>
       (case split_tick sc of
          Inr sc' \<Rightarrow> issued_of (m_events (g_ctrl (base_of sc'))) = [(11, [0, -1, -1, -1], 1), (0, gx_vec, 1)] \<and>
            (case gx_idle sc' of
               Inr (GDDR7Ctrl d) \<Rightarrow>
                 issued_of (m_events (g_ctrl (d_base d))) = [(11, [0, -1, -1, -1], 1), (0, gx_vec, 1), (3, gx_vec, 3)] \<and>
                 d_rck_mode d = StartWithRCKStrt \<and> d_cmd_rckstrt d = 11 \<and> d_cmd_rckstop d = 12 \<and> d_cmd_rd d = 3
             | _ \<Rightarrow> False)
        | _ \<Rightarrow> False)
   | _ \<Rightarrow> False"
  by code_simp

lemma hx_evaluated:
  "case hx_end of
     Inr (HBM34Ctrl h) \<Rightarrow> issued_of (m_events (g_ctrl (h_base h))) = [(0, hx_vec 1, 1), (3, hx_vec 1, 3), (1, hx_vec 2, 6)]
   | _ \<Rightarrow> False"
  by code_simp

lemma gx_first_tick:
  obtains sc sc' where "split_reachable ex_mk gx_cc 1 0 sc" "split_tick sc = Inr sc'" "issued_of (m_events (g_ctrl (base_of sc))) = []"
    "issued_of (m_events (g_ctrl (base_of sc'))) = [(11, [0, -1, -1, -1], 1), (0, gx_vec, 1)]"
proof -
  from gx_evaluated obtain sc sc' where sc: "gx_sent = Inr sc" "split_tick sc = Inr sc'"
    "issued_of (m_events (g_ctrl (base_of sc))) = []"
    "issued_of (m_events (g_ctrl (base_of sc'))) = [(11, [0, -1, -1, -1], 1), (0, gx_vec, 1)]" by (auto split: sum.splits)
  from split_step_reachable [OF gx_start_reachable sc(1) [unfolded gx_sent_def]] sc(2-4) show ?thesis by (rule that)
qed

lemma gx_run:
  obtains d where "split_reachable ex_mk gx_cc 1 0 (GDDR7Ctrl d)"
    "issued_of (m_events (g_ctrl (d_base d))) = [(11, [0, -1, -1, -1], 1), (0, gx_vec, 1), (3, gx_vec, 3)]"
    "d_rck_mode d = StartWithRCKStrt" "d_cmd_rckstrt d = 11" "d_cmd_rckstop d = 12" "d_cmd_rd d = 3"
proof -
  from gx_evaluated obtain sc sc' d where sc: "gx_sent = Inr sc" "split_tick sc = Inr sc'"
    and r: "gx_idle sc' = Inr (GDDR7Ctrl d)"
    by (auto split: sum.splits split_controller.splits)
  note ok = split_step_reachable [OF gx_start_reachable sc(1) [unfolded gx_sent_def]]
  note ev = gx_evaluated [unfolded sc(1) sum.case sc(2) r split_controller.case]
  from split_run_reachable [OF split_reachable.ticked [OF ok sc(2)] r [unfolded gx_idle_def]] show ?thesis
    by (rule that) (use ev in blast)+
qed

lemma hx_run:
  obtains h where "split_reachable ex_mk hx_cc 1 0 (HBM34Ctrl h)"
    "issued_of (m_events (g_ctrl (h_base h))) = [(0, hx_vec 1, 1), (3, hx_vec 1, 3), (1, hx_vec 2, 6)]"
proof -
  from hx_evaluated obtain h where h: "hx_end = Inr (HBM34Ctrl h)" by (auto split: sum.splits split_controller.splits)
  from split_run_reachable [OF hx_start_reachable h [unfolded hx_end_def]] show ?thesis
    by (rule that) (use hx_evaluated [unfolded h sum.case split_controller.case] in blast)
qed

lemma gx_path: "valid_path gx_spec 2 0 [0]" "on_path 0 gx_vec [0]"
  by (simp_all add: gx_spec_def gx_vec_def)

lemma gx_obligation: "3 \<in> obligations gx_spec 1 (view 0 [0] [(11, [0, -1, -1, -1], 1), (0, gx_vec, 1)]) 3"
proof -
  let ?vs = "view 0 [0] [(11, [0, -1, -1, -1], 1), (0, gx_vec, 1)]"
  have v: "?vs = view 0 [0] [(11, [0, -1, -1, -1], 1)] @ [(Target, 0, 1)]" by (simp add: view_def gx_vec_def)
  have tc: "timing_cons gx_spec ! 1 ! 0 = [ex_entry 3 2 1 False, ex_entry 4 2 1 False]" by (simp add: gx_spec_def)
  have "3 \<in> raised gx_spec 1 ?vs (Target, 0, 1) 3"
    unfolding raised.simps tc
    by (rule CollectI, rule exI [of _ "ex_entry 3 2 1 False"]) (simp add: v hist_for_def cmd_hist_def ex_entry_def view_def gx_vec_def)
  then show ?thesis unfolding v obligations_snoc by simp
qed

end
