(* ===== verification/Split_Properties.thy ===== *)
theory Split_Properties
  imports HBM34_Edges GDDR7_Clock Split_Example
begin

text \<open>
  The properties of the split-bus controllers (HBM12, HBM34, GDDR7) over every sequence of
  requests, ticks and resets of the statistics: a cycle of two slots on the abstract command bus, timing, the pairing
  rules of HBM3 and HBM4 and the read clock of GDDR7.
\<close>

section \<open>Invariant\<close>

fun split_inv :: "dram_standard \<Rightarrow> DRAMSpec \<Rightarrow> int \<Rightarrow> split_controller \<Rightarrow> bool" where
  "split_inv s sp ch (HBM12Ctrl g) = base_ok s sp ch g"
| "split_inv s sp ch (HBM34Ctrl h) = hbm34_inv s sp ch h"
| "split_inv s sp ch (GDDR7Ctrl d) = gddr7_inv s sp ch d"

lemma split_inv_base: "split_inv s sp ch sc \<Longrightarrow> base_ok s sp ch (base_of sc)"
  by (cases sc) (simp_all add: hbm34_inv_def gddr7_inv_def Let_def)

lemma split_inv_created:
  assumes ok: "standard_ok s" "of_standard s (spec_of (g_ctrl g))" and c: "split_created g sc"
    and b: "base_ok s sp ch g" and e: "issued_of (m_events (g_ctrl g)) = []"
  shows "split_inv s sp ch sc"
proof -
  have "hbm34_inv s sp ch h" if "HBM34_init g = Inr h" for h
    using HBM34_init_ids [OF ok that] b e by (simp add: hbm34_inv_def Let_def last_rising_def info_of_def)
  moreover have "gddr7_inv s sp ch d" if "GDDR7_init m i g = Inr d" for m i d
    using GDDR7_init_ids [OF ok that] b e by (simp add: gddr7_inv_def Let_def rck_after_def)
  ultimately show ?thesis using c b by (auto simp: split_created_def)
qed

lemma split_inv_with_base:
  assumes "split_inv s sp ch sc" "base_ok s sp ch g" "issued_of (m_events (g_ctrl g)) = issued_of (m_events (g_ctrl (base_of sc)))"
  shows "split_inv s sp ch (with_base g sc)"
  using assms by (cases sc)
    (simp_all add: hbm34_inv_def gddr7_inv_def Let_def same_config_frame [OF update_rck_config(2)])

lemma split_tick_ok:
  assumes "s \<in> set all_standards" "standard_ok s" "of_standard s sp" "spec_ok sp (Suc (enum_index (enum_Level s) ''Bank''))"
    "bus_classes s sp" "split_inv s sp ch sc" "split_tick sc = Inr sc'"
  shows "split_inv s sp ch sc' \<and> split_cycle s (bus_of (g_ctrl (base_of sc))) (bus_of (g_ctrl (base_of sc')))"
  using assms by (cases sc) (auto simp: bindR_eq_Inr_iff dest: HBM12_tick_ok HBM34_tick_ok GDDR7_tick_ok)

lemma base_ok_sent:
  assumes ok: "standard_ok s" "of_standard s sp" and b: "base_ok s sp ch g" and t: "send req (g_ctrl g) = Inr (r, req', c)"
  shows "base_ok s sp ch (g\<lparr>g_ctrl := c\<rparr>)" "issued_of (m_events c) = issued_of (m_events (g_ctrl g))"
proof -
  from b have i: "slot_inv s sp ch (bus_of (g_ctrl g))" "finals_ok s (g_ctrl g)" "ctrl_ok (g_ctrl g)"
    by (simp_all add: base_ok_def parts_ok_def)
  then have "of_standard s (spec_of (g_ctrl g))" using ok(2) by (simp add: slot_inv_def bus_of_def)
  note q = send_bus [OF ok(1) this i(2) t]
  from q ctrl_ok_send [OF i(3) t] i b show "base_ok s sp ch (g\<lparr>g_ctrl := c\<rparr>)" by (simp add: base_ok_def parts_ok_def)
  from q show "issued_of (m_events c) = issued_of (m_events (g_ctrl g))" by (simp add: bus_of_def)
qed

text \<open>A reset keeps all but the counters.\<close>

lemma base_ok_reset: "base_ok s sp ch g \<Longrightarrow> base_ok s sp ch (GenericDDR_reset_stats g)"
proof -
  assume "base_ok s sp ch g"
  then have b: "slot_inv s sp ch (bus_of (g_ctrl g))" "sys_ok s g" "ctrl_ok (g_ctrl g)"
    by (simp_all add: base_ok_def parts_ok_def sys_ok_def)
  then have "sys_ok s (GenericDDR_reset_stats g)" "slot_inv s sp ch (bus_of (g_ctrl (GenericDDR_reset_stats g)))"
    by (simp_all only: reset_stats_bus)
  with ctrl_ok_reset [OF b(3)] show ?thesis
    by (simp add: base_ok_def parts_ok_def sys_ok_def GenericDDR_reset_stats_def)
qed

lemma split_inv_reset:
  assumes "split_inv s sp ch sc"
  shows "split_inv s sp ch (split_reset_stats sc)"
proof -
  have e: "m_events (reset_stats c) = m_events c" for c by (simp add: reset_stats_def)
  have sc: "same_config d (d\<lparr>d_num_rckstrt_issued := 0, d_num_rckstop_issued := 0\<rparr>)" for d
    by (simp add: same_config_def)
  from assms base_ok_reset [OF split_inv_base [OF assms]] show ?thesis
    by (cases sc) (simp_all add: hbm34_inv_def gddr7_inv_def Let_def e GenericDDR_reset_stats_def GDDR7_reset_stats_def
        same_config_frame [OF update_rck_config(2)] same_config_frame [OF sc])
qed

section \<open>The facts behind the properties\<close>

lemma split_facts:
  assumes s: "registry (cc_dram_impl cfg) = Some s" and c: "constraints_ok s (cc_dram cfg)"
    and r: "split_reachable mk cfg cores ch sc"
  obtains sp where "create (cc_dram_impl cfg) (cc_dram cfg) = Inr sp" "s \<in> set all_standards" "standard_ok s" "of_standard s sp" "spec_ok sp (Suc (enum_index (enum_Level s) ''Bank''))"
    "bus_classes s sp" "split_inv s sp ch sc" "spec_of (g_ctrl (base_of sc)) = sp" "slot_inv s sp ch (bus_of (g_ctrl (base_of sc)))"
proof -
  from s have mem: "s \<in> set all_standards" by (auto simp: registry_def dest!: map_of_SomeD)
  note ok = all_standards_ok [OF mem]
  from r obtain c0 where "init_base mk cfg cores = Inr c0" by (induction rule: split_reachable.induct) auto
  then obtain sp where cr: "create (cc_dram_impl cfg) (cc_dram cfg) = Inr sp" by (rule init_base_parts)
  with s obtain sp1 where con: "construct_spec s (cc_dram cfg) = Inr sp1" and sp: "sp = sp1\<lparr>standard_name := cc_dram_impl cfg\<rparr>"
    by (auto simp: create_def bindR_eq_Inr_iff)
  have of: "of_standard s sp" using construct_spec_of_standard [OF ok con] sp by simp
  have sok: "spec_ok sp (Suc (enum_index (enum_Level s) ''Bank''))" using construct_spec_spec_ok [OF ok con c] sp by simp
  have bc: "bus_classes s sp" using construct_spec_bus_classes [OF ok con] sp by (simp add: bus_classes_def)
  from r have inv: "split_inv s sp ch sc"
  proof (induction rule: split_reachable.induct)
    case (start c0 g sc)
    note cg = channel_reachable.start [OF start(1-5)]
    from channel_refines_bus [OF ok cr of sok cg] bus_reachable_inv [OF ok of sok]
    have "bus_inv s sp ch (bus_of (g_ctrl g))" "sys_ok s g" by blast+
    moreover from this(1) have "spec_of (g_ctrl g) = sp" by (simp add: bus_inv_defs bus_of_def)
    moreover have "ctrl_ok (g_ctrl g)" by (rule ctrl_reachable_ok [OF channel_ctrl_reachable [OF cg]])
    moreover have "m_events (g_ctrl g) = []"
      using init_base_parts [OF start(1)] start(2) by (auto simp: ctrl_set_channel_id_def)
    ultimately show ?case using split_inv_created [OF ok _ start(6), of sp ch] of
      by (simp add: base_ok_def parts_ok_def sys_ok_def bus_inv_def)
  next
    case (sent sc req r' req' c)
    from split_inv_with_base [OF sent.IH] base_ok_sent [OF ok of split_inv_base [OF sent.IH] sent(2)] show ?case by simp
  next
    case (ticked sc sc')
    from split_tick_ok [OF mem ok of sok bc ticked.IH ticked(2)] show ?case by blast
  next
    case (reset sc)
    show ?case by (rule split_inv_reset [OF reset.IH])
  qed
  from split_inv_base [OF inv] have sl: "slot_inv s sp ch (bus_of (g_ctrl (base_of sc)))" by (simp add: base_ok_def parts_ok_def)
  then have "spec_of (g_ctrl (base_of sc)) = sp" by (simp add: slot_inv_def bus_of_def)
  with cr mem ok of sok bc inv show ?thesis using sl by (rule that)
qed

lemma split_spec:
  assumes "registry (cc_dram_impl cfg) = Some s" "constraints_ok s (cc_dram cfg)" "split_reachable mk cfg cores ch sc"
  shows "create (cc_dram_impl cfg) (cc_dram cfg) = Inr (spec_of (g_ctrl (base_of sc)))"
  by (rule split_facts [OF assms]) simp

text \<open>With the start command in use, a running clock was started and not stopped since.\<close>

lemma toggling_started:
  assumes "d_rck_mode d = StartWithRCKStrt"
  shows "rck_after d es = Toggling \<Longrightarrow>
    \<exists>before a k after. es = before @ (d_cmd_rckstrt d, a, k) # after \<and> (\<forall>e \<in> set after. fst e \<noteq> d_cmd_rckstop d)"
proof (induction es rule: rev_induct)
  case Nil
  with assms show ?case by (simp add: rck_after_def)
next
  case (snoc e es)
  obtain c a k where e: "e = (c, a, k)" by (cases e)
  show ?case
  proof (cases "c = d_cmd_rckstrt d")
    case True
    with e have "es @ [e] = es @ (d_cmd_rckstrt d, a, k) # []" by simp
    then show ?thesis by (metis empty_iff empty_set)
  next
    case False
    with snoc.prems e assms have "rck_after d es = Toggling" "c \<noteq> d_cmd_rckstop d"
      by (auto simp: rck_after_def rck_step_def split: if_splits)
    with snoc.IH obtain before a0 k0 after where "es = before @ (d_cmd_rckstrt d, a0, k0) # after"
      "\<forall>e \<in> set after. fst e \<noteq> d_cmd_rckstop d" by blast
    with e \<open>c \<noteq> d_cmd_rckstop d\<close> have "es @ [e] = before @ (d_cmd_rckstrt d, a0, k0) # (after @ [e]) \<and>
      (\<forall>e' \<in> set (after @ [e]). fst e' \<noteq> d_cmd_rckstop d)" by simp
    then show ?thesis by blast
  qed
qed

section \<open>Properties\<close>

text \<open>Property C13. Every command a split-bus controller (HBM1 to HBM4, GDDR7) ever issues, on either
  bus, respects the timing constraints of its configuration: each obligation raised by the
  commands issued before it, those of the same cycle included, has expired at its clock.\<close>

theorem split_commands_respect_timing:
  assumes "registry (cc_dram_impl cfg) = Some s" "constraints_ok s (cc_dram cfg)"
    and "split_reachable mk cfg cores ch sc"
    and "issued_of (m_events (g_ctrl (base_of sc))) = es @ (cmd, av, clk) # later"
    and "valid_path (spec_of (g_ctrl (base_of sc))) (Suc (enum_index (enum_Level s) ''Bank'')) 0 p" "on_path 0 av p"
    and "ob \<in> obligations (spec_of (g_ctrl (base_of sc))) (length p) (view ch p es) cmd"
  shows "ob \<le> clk"
proof -
  obtain sp where sl: "slot_inv s sp ch (bus_of (g_ctrl (base_of sc)))" and sp: "spec_of (g_ctrl (base_of sc)) = sp"
    by (rule split_facts [OF assms(1-3)]) blast
  then have t: "trace_ok sp (Suc (enum_index (enum_Level s) ''Bank'')) ch (es @ (cmd, av, clk) # later)"
    using assms(4) by (simp add: slot_inv_def bus_of_def)
  have i: "length es < length (es @ (cmd, av, clk) # later)" by simp
  from t [unfolded trace_ok_def, rule_format, OF i] assms(5-7) sp show ?thesis by simp
qed

theorem split_commands_respect_timing_witness:
  "\<exists>sc. split_reachable ex_mk gx_cc 1 0 sc \<and>
     issued_of (m_events (g_ctrl (base_of sc))) = [(11, [0, -1, -1, -1], 1), (0, gx_vec, 1), (3, gx_vec, 3)] \<and>
     3 \<in> obligations gx_spec 1 (view 0 [0] [(11, [0, -1, -1, -1], 1), (0, gx_vec, 1)]) 3 \<and> (3::int) \<le> 3"
proof -
  obtain d where d: "split_reachable ex_mk gx_cc 1 0 (GDDR7Ctrl d)"
    "issued_of (m_events (g_ctrl (d_base d))) = [(11, [0, -1, -1, -1], 1), (0, gx_vec, 1), (3, gx_vec, 3)]"
    by (rule gx_run)
  have sp: "spec_of (g_ctrl (d_base d)) = gx_spec" using split_spec [OF gx_config d(1)] by (simp add: gx_cc_def gx_create)
  from split_commands_respect_timing [OF gx_config d(1), of "[(11, [0, -1, -1, -1], 1), (0, gx_vec, 1)]" 3 gx_vec 3 "[]" "[0]" 3]
    d(2) sp gx_path gx_obligation have "(3::int) \<le> 3" by (simp add: gx_facts eval_nat_numeral)
  with d gx_obligation show ?thesis by (intro exI [of _ "GDDR7Ctrl d"]) simp
qed

text \<open>Property C16. A tick of a split-bus controller is a cycle of the abstract command bus with two
  slots: at most one command of the column bus and then at most one of the row bus, each
  resolved by the device for a final command and declared ready by it at that moment.\<close>

theorem split_tick_refines_cycle:
  assumes "registry (cc_dram_impl cfg) = Some s" "constraints_ok s (cc_dram cfg)"
    and "split_reachable mk cfg cores ch sc" "split_tick sc = Inr sc'"
  shows "split_cycle s (bus_of (g_ctrl (base_of sc))) (bus_of (g_ctrl (base_of sc')))"
  by (rule split_facts [OF assms(1-3)]) (blast dest: split_tick_ok [OF _ _ _ _ _ _ assms(4)])

theorem split_tick_refines_cycle_witness:
  "\<exists>sc sc'. split_tick sc = Inr sc' \<and> split_cycle GDDR7 (bus_of (g_ctrl (base_of sc))) (bus_of (g_ctrl (base_of sc'))) \<and>
     issued_of (m_events (g_ctrl (base_of sc))) = [] \<and>
     issued_of (m_events (g_ctrl (base_of sc'))) = [(11, [0, -1, -1, -1], 1), (0, gx_vec, 1)]"
proof -
  obtain sc sc' where sc: "split_reachable ex_mk gx_cc 1 0 sc" "split_tick sc = Inr sc'" "issued_of (m_events (g_ctrl (base_of sc))) = []"
    "issued_of (m_events (g_ctrl (base_of sc'))) = [(11, [0, -1, -1, -1], 1), (0, gx_vec, 1)]" by (rule gx_first_tick)
  with split_tick_refines_cycle [OF gx_config sc(1,2)] show ?thesis by blast
qed

text \<open>Property C14. The HBM3 and HBM4 controller keeps the rules of the two clock edges: only precharges
  on a falling edge, none that conflicts with the row command it is paired with, and no
  all-bank row command in the cycle of a column command of its pseudo channel.\<close>

theorem HBM34_keeps_edge_rules:
  assumes "registry (cc_dram_impl cfg) = Some s" "constraints_ok s (cc_dram cfg)"
    and "split_reachable mk cfg cores ch (HBM34Ctrl h)"
    and "issued_of (m_events (g_ctrl (h_base h))) = es @ e # later"
  shows "edge_rule s h es e"
proof -
  have "each (edge_rule s h) (es @ e # later)"
    by (rule split_facts [OF assms(1-3)]) (use assms(4) in \<open>simp add: hbm34_inv_def Let_def\<close>)
  then show ?thesis by (rule eachD)
qed

theorem HBM34_keeps_edge_rules_witness:
  "\<exists>h. split_reachable ex_mk hx_cc 1 0 (HBM34Ctrl h) \<and> \<not> is_rising_edge 6 \<and>
     edge_rule HBM3 h [(0, hx_vec 1, 1), (3, hx_vec 1, 3)] (1, hx_vec 2, 6)"
proof -
  obtain h where h: "split_reachable ex_mk hx_cc 1 0 (HBM34Ctrl h)"
    "issued_of (m_events (g_ctrl (h_base h))) = [(0, hx_vec 1, 1), (3, hx_vec 1, 3), (1, hx_vec 2, 6)]" by (rule hx_run)
  with HBM34_keeps_edge_rules [OF hx_config h(1), of "[(0, hx_vec 1, 1), (3, hx_vec 1, 3)]" "(1, hx_vec 2, 6)" "[]"]
  show ?thesis by (intro exI [of _ h]) (simp add: is_rising_edge_def)
qed

text \<open>Property C15. When the read clock of GDDR7 is started by command, every read the controller issues
  follows a start command with no stop command in between.\<close>

theorem GDDR7_reads_are_clocked:
  assumes "registry (cc_dram_impl cfg) = Some s" "constraints_ok s (cc_dram cfg)"
    and "split_reachable mk cfg cores ch (GDDR7Ctrl d)" "d_rck_mode d = StartWithRCKStrt"
    and "issued_of (m_events (g_ctrl (d_base d))) = es @ (cmd, av, clk) # later" "is_read_like d (int cmd)"
  shows "\<exists>before a k after. es = before @ (d_cmd_rckstrt d, a, k) # after \<and> (\<forall>e \<in> set after. fst e \<noteq> d_cmd_rckstop d)"
proof -
  have "each (read_clocked d) (es @ (cmd, av, clk) # later)"
    by (rule split_facts [OF assms(1-3)]) (use assms(5) in \<open>simp add: gddr7_inv_def Let_def\<close>)
  then have "read_clocked d es (cmd, av, clk)" by (rule eachD)
  with assms(4,6) show ?thesis by (intro toggling_started) (simp_all add: read_clocked_def)
qed

theorem GDDR7_reads_are_clocked_witness:
  "\<exists>d. split_reachable ex_mk gx_cc 1 0 (GDDR7Ctrl d) \<and> d_rck_mode d = StartWithRCKStrt \<and> is_read_like d 3 \<and>
     (\<exists>before a k after. [(11, [0, -1, -1, -1], 1::int), (0, gx_vec, 1)] = before @ (d_cmd_rckstrt d, a, k) # after \<and>
        (\<forall>e \<in> set after. fst e \<noteq> d_cmd_rckstop d))"
proof -
  obtain d where d: "split_reachable ex_mk gx_cc 1 0 (GDDR7Ctrl d)"
    "issued_of (m_events (g_ctrl (d_base d))) = [(11, [0, -1, -1, -1], 1), (0, gx_vec, 1), (3, gx_vec, 3)]"
    "d_rck_mode d = StartWithRCKStrt" "d_cmd_rd d = 3" by (rule gx_run)
  have r: "is_read_like d (int 3)" using d(4) by (simp add: is_read_like_def)
  from GDDR7_reads_are_clocked [OF gx_config d(1,3) _ r, of "[(11, [0, -1, -1, -1], 1), (0, gx_vec, 1)]" gx_vec 3 "[]"]
    d r show ?thesis by (intro exI [of _ d] conjI) simp_all
qed

end
