(* ===== verification/Simulation.thy ===== *)
theory Simulation
  imports Ram_Prelude
begin

text \<open>
  The driver loop, \<^verbatim>\<open>run_simulation\<close> of \<^verbatim>\<open>ramulator/base/simulation.cpp\<close>: it interleaves the ticks of
  the frontend and of the memory system by their clock ratios, and jumps over stretches that
  both declare idle. The two components are the operations of the record below, on one state
  that holds both. The loop need not end, so it is a partial function.

  The locale \<open>elidable\<close> is the contract of \<^verbatim>\<open>idle_ticks\<close> and \<^verbatim>\<open>fast_forward\<close>; under it the jumps change
  nothing.
\<close>

section \<open>The loop\<close>

record 's sim_ops =
  op_fe_clock_ratio :: int
  op_mem_clock_ratio :: int
  op_fe_tick :: "'s \<Rightarrow> 's result"
  op_is_finished :: "'s \<Rightarrow> bool result"
  op_mem_tick :: "'s \<Rightarrow> 's result"
  op_fe_idle_ticks :: "Clk_t \<Rightarrow> 's \<Rightarrow> Clk_t"
  op_mem_idle_ticks :: "'s \<Rightarrow> Clk_t"
  op_fe_fast_forward :: "Clk_t \<Rightarrow> 's \<Rightarrow> 's"
  op_mem_fast_forward :: "Clk_t \<Rightarrow> 's \<Rightarrow> 's"

record 's sim =
  sim_fe_count :: int
  sim_mem_count :: int
  sim_state :: 's

text \<open>\<^verbatim>\<open>if (++count >= period) { count = 0; tick(); }\<close>\<close>

definition half_tick :: "int \<Rightarrow> ('s \<Rightarrow> 's result) \<Rightarrow> int \<Rightarrow> 's \<Rightarrow> (int \<times> 's) result" where
  "half_tick period tick count s =
     (if count + 1 \<ge> period then bindR (tick s) (\<lambda>s'. Inr (0, s')) else Inr (count + 1, s))"

definition sim_cycle :: "'s sim_ops \<Rightarrow> 's sim \<Rightarrow> (bool \<times> 's sim) result" where
  "sim_cycle ops x =
     bindR (half_tick (op_mem_clock_ratio ops) (op_fe_tick ops) (sim_fe_count x) (sim_state x)) (\<lambda>(fe_count, s1).
     bindR (op_is_finished ops s1) (\<lambda>finished.
       if finished then Inr (True, x\<lparr>sim_fe_count := fe_count, sim_state := s1\<rparr>)
       else bindR (half_tick (op_fe_clock_ratio ops) (op_mem_tick ops) (sim_mem_count x) s1) (\<lambda>(mem_count, s2).
            Inr (False, \<lparr>sim_fe_count = fe_count, sim_mem_count = mem_count, sim_state = s2\<rparr>))))"

definition max_jump :: Clk_t where "max_jump = 1000000000"

text \<open>\<^verbatim>\<open>uint64_t\<close>.\<close>

definition u64 :: "int \<Rightarrow> int" where "u64 i = i mod 2 ^ 64"

definition jump :: "'s sim_ops \<Rightarrow> int \<Rightarrow> 's sim \<Rightarrow> 's sim" where
  "jump ops j x =
     (let fe_tick = op_fe_clock_ratio ops; mem_tick = op_mem_clock_ratio ops;
          fe_ff = u64 (sim_fe_count x + j) div mem_tick; mem_ff = u64 (sim_mem_count x + j) div fe_tick;
          s1 = (if fe_ff > 0 then op_fe_fast_forward ops fe_ff (sim_state x) else sim_state x)
      in \<lparr>sim_fe_count = u64 (sim_fe_count x + j) mod mem_tick, sim_mem_count = u64 (sim_mem_count x + j) mod fe_tick,
          sim_state = (if mem_ff > 0 then op_mem_fast_forward ops mem_ff s1 else s1)\<rparr>)"

definition sim_elide :: "'s sim_ops \<Rightarrow> 's sim \<Rightarrow> 's sim result" where
  "sim_elide ops x =
     (let fe_tick = op_fe_clock_ratio ops; mem_tick = op_mem_clock_ratio ops; s = sim_state x in
      if op_mem_idle_ticks ops s > 0
      then bindR (op_is_finished ops s) (\<lambda>finished.
        if finished then Inr x
        else let mem_idle = min (op_mem_idle_ticks ops s) max_jump;
                 j_mem = u64 (fe_tick - sim_mem_count x + mem_idle * fe_tick - 1);
                 max_fe = u64 (sim_fe_count x + j_mem) div mem_tick
             in if max_fe > 0
                then let fe_idle = op_fe_idle_ticks ops (min max_fe max_jump) s
                     in if fe_idle > 0
                        then let j_fe = u64 (mem_tick - sim_fe_count x + fe_idle * mem_tick - 1); j = min j_fe j_mem
                             in if j \<ge> 2 then Inr (jump ops j x) else Inr x
                        else Inr x
                else Inr x)
      else Inr x)"

definition sim_step :: "'s sim_ops \<Rightarrow> 's sim \<Rightarrow> (bool \<times> 's sim) result" where
  "sim_step ops x =
     bindR (sim_cycle ops x) (\<lambda>(finished, x1).
       if finished then Inr (True, x1) else bindR (sim_elide ops x1) (\<lambda>x2. Inr (False, x2)))"

partial_function (option) run_loop :: "('a \<Rightarrow> (bool \<times> 'a) result) \<Rightarrow> 'a \<Rightarrow> 'a result option" where
  "run_loop step x =
     (case step x of
        Inl e \<Rightarrow> Some (Inl e)
      | Inr (finished, x') \<Rightarrow> if finished then Some (Inr x') else run_loop step x')"

definition sim_start :: "'s sim_ops \<Rightarrow> 's \<Rightarrow> 's sim" where
  "sim_start ops s =
     \<lparr>sim_fe_count = op_mem_clock_ratio ops - 1, sim_mem_count = op_fe_clock_ratio ops - 1, sim_state = s\<rparr>"

definition run_simulation :: "'s sim_ops \<Rightarrow> 's \<Rightarrow> 's sim result option" where
  "run_simulation ops s =
     (if op_fe_clock_ratio ops \<le> 0 \<or> op_mem_clock_ratio ops \<le> 0
      then Some (throw ''clock_ratio must be > 0 for both frontend and memory system'')
      else run_loop (sim_step ops) (sim_start ops s))"

text \<open>The same loop without the jumps, the reference.\<close>

definition plain_simulation :: "'s sim_ops \<Rightarrow> 's \<Rightarrow> 's sim result option" where
  "plain_simulation ops s =
     (if op_fe_clock_ratio ops \<le> 0 \<or> op_mem_clock_ratio ops \<le> 0
      then Some (throw ''clock_ratio must be > 0 for both frontend and memory system'')
      else run_loop (sim_cycle ops) (sim_start ops s))"

section \<open>Finite runs\<close>

inductive finishes :: "('a \<Rightarrow> (bool \<times> 'a) result) \<Rightarrow> nat \<Rightarrow> 'a \<Rightarrow> 'a result \<Rightarrow> bool" for step where
  threw: "step x = Inl e \<Longrightarrow> finishes step 0 x (Inl e)"
| ended: "step x = Inr (True, x') \<Longrightarrow> finishes step 0 x (Inr x')"
| more: "step x = Inr (False, x') \<Longrightarrow> finishes step n x' r \<Longrightarrow> finishes step (Suc n) x r"

inductive_cases finishes_SucE: "finishes step (Suc n) x r"
inductive_cases finishes_0E: "finishes step 0 x r"

lemma run_loop_finishes: "run_loop step x = Some r \<longleftrightarrow> (\<exists>n. finishes step n x r)"
proof
  have "\<exists>n. finishes step n x r"
    if "\<And>st x r. loop st x = Some r \<Longrightarrow> \<exists>n. finishes st n x r"
      "(case step x of Inl e \<Rightarrow> Some (Inl e) | Inr (finished, x') \<Rightarrow> if finished then Some (Inr x') else loop step x') = Some r"
    for loop step x and r :: "'a result"
  proof (cases "step x")
    case (Inl e)
    then show ?thesis using that(2) by (intro exI [of _ 0]) (auto intro: finishes.threw)
  next
    case (Inr y)
    obtain b x' where y: "y = (b, x')" by (cases y)
    show ?thesis
    proof (cases b)
      case True
      then have "r = Inr x'" using that(2) Inr y by simp
      then show ?thesis using Inr y True by (intro exI [of _ 0]) (simp add: finishes.ended)
    next
      case False
      then have "loop step x' = Some r" using that(2) Inr y by simp
      from that(1) [OF this] obtain n where "finishes step n x' r" ..
      then show ?thesis using Inr y False by (intro exI [of _ "Suc n"] finishes.more) simp_all
    qed
  qed
  note step = this
  assume r: "run_loop step x = Some r"
  have "(case (step, x) of (st, y) \<Rightarrow> \<lambda>r. \<exists>n. finishes st n y r) r"
  proof (rule run_loop.raw_induct)
    show "(case (step, x) of (st, y) \<Rightarrow> run_loop st y) = Some r" using r by simp
  qed (rule step)
  then show "\<exists>n. finishes step n x r" by simp
next
  assume "\<exists>n. finishes step n x r"
  then obtain n where "finishes step n x r" ..
  then show "run_loop step x = Some r" by induction (simp_all add: run_loop.simps)
qed

text \<open>\<open>n\<close> iterations that do not finish.\<close>

fun goes :: "('a \<Rightarrow> (bool \<times> 'a) result) \<Rightarrow> nat \<Rightarrow> 'a \<Rightarrow> 'a \<Rightarrow> bool" where
  "goes step 0 x y \<longleftrightarrow> x = y"
| "goes step (Suc n) x y \<longleftrightarrow> (\<exists>x'. step x = Inr (False, x') \<and> goes step n x' y)"

lemma goes_finishes: "goes step k x y \<Longrightarrow> finishes step n x r \<longleftrightarrow> k \<le> n \<and> finishes step (n - k) y r"
proof (induction k arbitrary: x n)
  case (Suc k)
  then obtain x' where x': "step x = Inr (False, x')" "goes step k x' y" by auto
  show ?case
  proof (cases n)
    case 0
    then show ?thesis using x'(1) by (auto elim: finishes_0E)
  next
    case (Suc m)
    then show ?thesis using x' Suc.IH [OF x'(2), of m] by (auto elim!: finishes_SucE intro: finishes.intros)
  qed
qed simp

lemma goes_snoc: "goes step n x y \<Longrightarrow> step y = Inr (False, z) \<Longrightarrow> goes step (Suc n) x z"
  by (induction n arbitrary: x) auto

section \<open>The contract of the elision\<close>

text \<open>Both components moved ahead, and the state of the loop after \<open>t\<close> further cycles of a jump.\<close>

definition adv :: "'s sim_ops \<Rightarrow> int \<Rightarrow> int \<Rightarrow> 's \<Rightarrow> 's" where
  "adv ops a b s = op_mem_fast_forward ops b (op_fe_fast_forward ops a s)"

definition ahead :: "'s sim_ops \<Rightarrow> int \<Rightarrow> 's sim \<Rightarrow> 's sim" where
  "ahead ops t x =
     \<lparr>sim_fe_count = (sim_fe_count x + t) mod op_mem_clock_ratio ops, sim_mem_count = (sim_mem_count x + t) mod op_fe_clock_ratio ops,
      sim_state = adv ops ((sim_fe_count x + t) div op_mem_clock_ratio ops) ((sim_mem_count x + t) div op_fe_clock_ratio ops) (sim_state x)\<rparr>"

definition sim_inv :: "'s sim_ops \<Rightarrow> ('s \<Rightarrow> bool) \<Rightarrow> 's sim \<Rightarrow> bool" where
  "sim_inv ops I x \<longleftrightarrow> 0 \<le> sim_fe_count x \<and> sim_fe_count x < op_mem_clock_ratio ops \<and>
     0 \<le> sim_mem_count x \<and> sim_mem_count x < op_fe_clock_ratio ops \<and> I (sim_state x)"

text \<open>One more step of a counter, as remainder and quotient.\<close>

lemma div_within:
  fixes k P :: int
  assumes "0 < P" "k \<le> P + n * P - 1"
  shows "k div P \<le> n"
proof -
  have "(P + n * P - 1) div P = n" using assms(1) by (intro int_div_pos_eq [of _ _ _ "P - 1"]) simp_all
  with zdiv_mono1 [OF assms(2,1)] show ?thesis by simp
qed

lemma counter_step:
  fixes k P :: int
  assumes "0 < P"
  shows "k mod P + 1 \<ge> P \<Longrightarrow> (k + 1) mod P = 0 \<and> (k + 1) div P = k div P + 1"
    and "\<not> k mod P + 1 \<ge> P \<Longrightarrow> (k + 1) mod P = k mod P + 1 \<and> (k + 1) div P = k div P"
proof -
  have k: "k = P * (k div P) + k mod P" "k mod P < P" "0 \<le> k mod P" using assms by simp_all
  show "(k + 1) mod P = 0 \<and> (k + 1) div P = k div P + 1" if "k mod P + 1 \<ge> P"
  proof -
    have "k mod P + 1 = P" using k(2) that by simp
    then have "k + 1 = P * (k div P + 1)" using k(1) unfolding distrib_left by linarith
    then show ?thesis using assms by (metis mod_mult_self1_is_0 nonzero_mult_div_cancel_left less_irrefl)
  qed
  show "(k + 1) mod P = k mod P + 1 \<and> (k + 1) div P = k div P" if "\<not> k mod P + 1 \<ge> P"
  proof -
    have "k + 1 = P * (k div P) + (k mod P + 1)" using k(1) by simp
    then show ?thesis using int_div_pos_eq [of "k + 1" P "k div P" "k mod P + 1"] int_mod_pos_eq [of "k + 1" P "k div P" "k mod P + 1"] k that by simp
  qed
qed

locale simulation =
  fixes ops :: "'s sim_ops" and I :: "'s \<Rightarrow> bool"
  assumes ratios: "0 < op_fe_clock_ratio ops" "0 < op_mem_clock_ratio ops"
    and fe_tick_ok: "I s \<Longrightarrow> \<exists>s'. op_fe_tick ops s = Inr s' \<and> I s'"
    and mem_tick_ok: "I s \<Longrightarrow> \<exists>s'. op_mem_tick ops s = Inr s' \<and> I s'"
    and finished_ok: "I s \<Longrightarrow> \<exists>b. op_is_finished ops s = Inr b"
begin

lemma half_tick_ok:
  assumes "\<exists>s'. tick s = Inr s' \<and> I s'" "0 < P" "0 \<le> k" "k < P" "I s"
  shows "\<exists>k' s'. half_tick P tick k s = Inr (k', s') \<and> 0 \<le> k' \<and> k' < P \<and> I s'"
  using assms by (auto simp: half_tick_def)

lemma cycle_ok:
  assumes "sim_inv ops I x"
  shows "\<exists>b x'. sim_cycle ops x = Inr (b, x') \<and> sim_inv ops I x'"
proof -
  obtain k1 s1 where 1: "half_tick (op_mem_clock_ratio ops) (op_fe_tick ops) (sim_fe_count x) (sim_state x) = Inr (k1, s1)"
      "0 \<le> k1" "k1 < op_mem_clock_ratio ops" "I s1"
    using half_tick_ok [of "op_fe_tick ops", OF fe_tick_ok ratios(2)] assms unfolding sim_inv_def by blast
  obtain k2 s2 where 2: "half_tick (op_fe_clock_ratio ops) (op_mem_tick ops) (sim_mem_count x) s1 = Inr (k2, s2)"
      "0 \<le> k2" "k2 < op_fe_clock_ratio ops" "I s2"
    using half_tick_ok [of "op_mem_tick ops", OF mem_tick_ok ratios(1)] assms 1(4) unfolding sim_inv_def by blast
  from finished_ok [OF 1(4)] obtain b where "op_is_finished ops s1 = Inr b" ..
  with 1 2 assms show ?thesis by (intro exI [of _ b]) (simp add: sim_cycle_def sim_inv_def)
qed

lemma start_ok: "I s \<Longrightarrow> sim_inv ops I (sim_start ops s)"
  using ratios by (simp add: sim_inv_def sim_start_def)

end

locale elidable = simulation +
  assumes ratios_int: "op_fe_clock_ratio ops < 2 ^ 31" "op_mem_clock_ratio ops < 2 ^ 31"
    and adv_0: "op_fe_fast_forward ops 0 s = s" "op_mem_fast_forward ops 0 s = s"
    and adv_ok: "I s \<Longrightarrow> 0 \<le> a \<Longrightarrow> a \<le> op_fe_idle_ticks ops mx s \<Longrightarrow> 0 \<le> b \<Longrightarrow> b \<le> op_mem_idle_ticks ops s \<Longrightarrow> I (adv ops a b s)"
    and adv_finished: "I s \<Longrightarrow> op_is_finished ops s = Inr False \<Longrightarrow> op_is_finished ops (adv ops a b s) = Inr False"
    and adv_fe_tick: "I s \<Longrightarrow> 0 \<le> a \<Longrightarrow> a < op_fe_idle_ticks ops mx s \<Longrightarrow> 0 \<le> b \<Longrightarrow> b \<le> op_mem_idle_ticks ops s \<Longrightarrow>
      op_fe_tick ops (adv ops a b s) = Inr (adv ops (a + 1) b s)"
    and adv_mem_tick: "I s \<Longrightarrow> 0 \<le> a \<Longrightarrow> a \<le> op_fe_idle_ticks ops mx s \<Longrightarrow> 0 \<le> b \<Longrightarrow> b < op_mem_idle_ticks ops s \<Longrightarrow>
      op_mem_tick ops (adv ops a b s) = Inr (adv ops a (b + 1) s)"
begin

text \<open>One cycle inside a stretch that both promise.\<close>

lemma ahead_cycle:
  assumes inv: "sim_inv ops I x" and fin: "op_is_finished ops (sim_state x) = Inr False" and t: "0 \<le> t"
    and fe: "(sim_fe_count x + t + 1) div op_mem_clock_ratio ops \<le> op_fe_idle_ticks ops mx (sim_state x)"
    and mem: "(sim_mem_count x + t + 1) div op_fe_clock_ratio ops \<le> op_mem_idle_ticks ops (sim_state x)"
  shows "sim_cycle ops (ahead ops t x) = Inr (False, ahead ops (t + 1) x)"
proof -
  let ?P = "op_mem_clock_ratio ops" and ?Q = "op_fe_clock_ratio ops" and ?s = "sim_state x"
  let ?f = "sim_fe_count x + t" and ?m = "sim_mem_count x + t"
  have i: "0 \<le> ?f" "0 \<le> ?m" "I ?s" using inv t by (simp_all add: sim_inv_def)
  have d: "0 \<le> ?f div ?P" "?f div ?P \<le> (?f + 1) div ?P" "0 \<le> ?m div ?Q" "?m div ?Q \<le> (?m + 1) div ?Q"
    using i ratios by (simp_all add: pos_imp_zdiv_nonneg_iff zdiv_mono1)
  have 1: "half_tick ?P (op_fe_tick ops) (?f mod ?P) (adv ops (?f div ?P) (?m div ?Q) ?s) =
      Inr ((?f + 1) mod ?P, adv ops ((?f + 1) div ?P) (?m div ?Q) ?s)"
    using counter_step [OF ratios(2), of ?f] adv_fe_tick [OF i(3) d(1) _ d(3), of mx] d fe mem by (auto simp: half_tick_def)
  have 2: "half_tick ?Q (op_mem_tick ops) (?m mod ?Q) (adv ops ((?f + 1) div ?P) (?m div ?Q) ?s) =
      Inr ((?m + 1) mod ?Q, adv ops ((?f + 1) div ?P) ((?m + 1) div ?Q) ?s)"
    using counter_step [OF ratios(1), of ?m] adv_mem_tick [OF i(3) _ fe d(3)] d mem by (auto simp: half_tick_def)
  show ?thesis using 1 2 adv_finished [OF i(3) fin] by (simp add: sim_cycle_def ahead_def add.assoc)
qed

lemma ahead_goes:
  assumes inv: "sim_inv ops I x" and fin: "op_is_finished ops (sim_state x) = Inr False"
    and fe: "(sim_fe_count x + int n) div op_mem_clock_ratio ops \<le> op_fe_idle_ticks ops mx (sim_state x)"
    and mem: "(sim_mem_count x + int n) div op_fe_clock_ratio ops \<le> op_mem_idle_ticks ops (sim_state x)"
  shows "goes (sim_cycle ops) n x (ahead ops (int n) x)"
  using fe mem
proof (induction n)
  case 0
  have "ahead ops 0 x = x" using inv by (simp add: ahead_def sim_inv_def adv_def adv_0)
  then show ?case by simp
next
  case (Suc n)
  have "(sim_fe_count x + int n) div op_mem_clock_ratio ops \<le> (sim_fe_count x + int (Suc n)) div op_mem_clock_ratio ops"
    "(sim_mem_count x + int n) div op_fe_clock_ratio ops \<le> (sim_mem_count x + int (Suc n)) div op_fe_clock_ratio ops"
    using ratios by (simp_all add: zdiv_mono1)
  with Suc have "goes (sim_cycle ops) n x (ahead ops (int n) x)" by simp
  moreover have "sim_cycle ops (ahead ops (int n) x) = Inr (False, ahead ops (int n + 1) x)"
    using Suc.prems by (intro ahead_cycle [OF inv fin, where mx = mx]) (simp_all add: ac_simps)
  ultimately show ?case using goes_snoc by (metis of_nat_Suc add.commute)
qed

text \<open>A jump is a number of plain cycles.\<close>

lemma jump_ahead:
  assumes inv: "sim_inv ops I x" and j: "0 \<le> j" "sim_fe_count x + j < 2 ^ 64" "sim_mem_count x + j < 2 ^ 64"
  shows "jump ops j x = ahead ops j x"
proof -
  have "u64 (sim_fe_count x + j) = sim_fe_count x + j" "u64 (sim_mem_count x + j) = sim_mem_count x + j"
    "0 \<le> (sim_fe_count x + j) div op_mem_clock_ratio ops" "0 \<le> (sim_mem_count x + j) div op_fe_clock_ratio ops"
    using inv j ratios by (simp_all add: u64_def sim_inv_def pos_imp_zdiv_nonneg_iff)
  then show ?thesis by (auto simp: jump_def ahead_def adv_def Let_def adv_0 order_le_less)
qed

lemma elide_ok:
  assumes inv: "sim_inv ops I x"
  shows "\<exists>k y. sim_elide ops x = Inr y \<and> goes (sim_cycle ops) k x y"
proof -
  let ?P = "op_mem_clock_ratio ops" and ?Q = "op_fe_clock_ratio ops" and ?s = "sim_state x"
  define mi where "mi = min (op_mem_idle_ticks ops ?s) max_jump"
  define jm where "jm = u64 (?Q - sim_mem_count x + mi * ?Q - 1)"
  define mx where "mx = min (u64 (sim_fe_count x + jm) div ?P) max_jump"
  define fi where "fi = op_fe_idle_ticks ops mx ?s"
  define jf where "jf = u64 (?P - sim_fe_count x + fi * ?P - 1)"
  let ?j = "min jf jm"
  have e: "sim_elide ops x =
    (if op_mem_idle_ticks ops ?s > 0
     then bindR (op_is_finished ops ?s) (\<lambda>finished. if \<not> finished \<and> u64 (sim_fe_count x + jm) div ?P > 0 \<and> fi > 0 \<and> ?j \<ge> 2
       then Inr (jump ops ?j x) else Inr x) else Inr x)"
    unfolding sim_elide_def Let_def mi_def [symmetric] jm_def [symmetric] mx_def [symmetric] fi_def [symmetric] jf_def [symmetric]
    by (cases "op_is_finished ops ?s") auto
  obtain b where b: "op_is_finished ops ?s = Inr b" using finished_ok inv by (auto simp: sim_inv_def)
  show ?thesis
  proof (cases "op_mem_idle_ticks ops ?s > 0 \<and> \<not> b \<and> u64 (sim_fe_count x + jm) div ?P > 0 \<and> fi > 0 \<and> ?j \<ge> 2")
    case False
    then have "sim_elide ops x = Inr x" using b by (auto simp: e)
    then show ?thesis by (metis goes.simps(1))
  next
    case True
    have i: "0 \<le> sim_fe_count x" "sim_fe_count x < ?P" "0 \<le> sim_mem_count x" "sim_mem_count x < ?Q" using inv by (simp_all add: sim_inv_def)
    have mi: "0 < mi" "mi \<le> op_mem_idle_ticks ops ?s" "mi \<le> 1000000000" using True by (auto simp: mi_def max_jump_def)
    have "mi * ?Q \<le> 1000000000 * 2 ^ 31" by (rule mult_mono; use mi ratios ratios_int in simp)
    moreover have "0 < mi * ?Q" "0 < fi * ?P" using mi(1) True ratios by simp_all
    ultimately have "jm = ?Q - sim_mem_count x + mi * ?Q - 1" "jm < 2 ^ 63"
      using i ratios_int unfolding jm_def u64_def by (subst mod_pos_pos_trivial; simp)+
    moreover have "jf \<le> ?P - sim_fe_count x + fi * ?P - 1"
      using \<open>0 < fi * ?P\<close> i unfolding jf_def u64_def by (intro zmod_le_nonneg_dividend) simp
    ultimately have j: "?j \<le> ?Q - sim_mem_count x + mi * ?Q - 1" "?j \<le> ?P - sim_fe_count x + fi * ?P - 1" "?j < 2 ^ 63" by simp_all
    have n: "int (nat ?j) = ?j" using True by simp
    have "(sim_fe_count x + ?j) div ?P \<le> fi" "(sim_mem_count x + ?j) div ?Q \<le> mi"
      using j ratios by (simp_all add: div_within)
    then have "goes (sim_cycle ops) (nat ?j) x (ahead ops ?j x)"
      using ahead_goes [OF inv, of "nat ?j" mx] True b mi(2) by (simp only: n fi_def simp_thms)
    moreover have "jump ops ?j x = ahead ops ?j x"
      using True j(3) i ratios_int by (intro jump_ahead [OF inv]) simp_all
    moreover have "sim_elide ops x = Inr (jump ops ?j x)" using True b by (simp add: e)
    ultimately show ?thesis by metis
  qed
qed

lemma goes_ok: "goes (sim_cycle ops) k x y \<Longrightarrow> sim_inv ops I x \<Longrightarrow> sim_inv ops I y"
proof (induction k arbitrary: x)
  case (Suc k)
  then show ?case using cycle_ok [of x] by auto
qed simp

lemma step_cycles:
  assumes "sim_inv ops I x" "sim_cycle ops x = Inr (False, x')"
  obtains k y where "sim_step ops x = Inr (False, y)" "goes (sim_cycle ops) k x' y" "sim_inv ops I y"
proof -
  have "sim_inv ops I x'" using cycle_ok [OF assms(1)] assms(2) by simp
  with elide_ok obtain k y where "sim_elide ops x' = Inr y" "goes (sim_cycle ops) k x' y" by blast
  with assms(2) goes_ok [OF _ \<open>sim_inv ops I x'\<close>] show ?thesis by (intro that [of y k]) (simp_all add: sim_step_def)
qed

lemma cycle_step: "finishes (sim_cycle ops) n x r \<Longrightarrow> sim_inv ops I x \<Longrightarrow> \<exists>m. finishes (sim_step ops) m x r"
proof (induction n arbitrary: x rule: less_induct)
  case (less n)
  from less.prems(1) show ?case
  proof cases
    case (more x' k)
    from step_cycles [OF less.prems(2) more(2)] obtain j y where y: "sim_step ops x = Inr (False, y)" "goes (sim_cycle ops) j x' y" "sim_inv ops I y" .
    from goes_finishes [OF y(2)] more(3) have "finishes (sim_cycle ops) (k - j) y r" by blast
    with less.IH [of "k - j" y] more(1) y(3) obtain m where "finishes (sim_step ops) m y r" by (metis less_Suc_eq_le diff_le_self)
    then show ?thesis using finishes.more [of "sim_step ops", OF y(1)] by blast
  qed (force simp: sim_step_def intro: finishes.intros)+
qed

lemma step_cycle: "finishes (sim_step ops) m x r \<Longrightarrow> sim_inv ops I x \<Longrightarrow> \<exists>n. finishes (sim_cycle ops) n x r"
proof (induction rule: finishes.induct)
  case (more x y m r)
  obtain b x' where c: "sim_cycle ops x = Inr (b, x')" using cycle_ok [OF more.prems] by blast
  with more(1) have "\<not> b" by (auto simp: sim_step_def)
  with c have c: "sim_cycle ops x = Inr (False, x')" by simp
  from step_cycles [OF more.prems c] more(1) obtain k where k: "goes (sim_cycle ops) k x' y" "sim_inv ops I y" by auto
  from more.IH [OF k(2)] obtain n where "finishes (sim_cycle ops) n y r" ..
  with goes_finishes [OF k(1), of "n + k" r] have "finishes (sim_cycle ops) (n + k) x' r" by simp
  then show ?case using finishes.more [of "sim_cycle ops", OF c] by blast
next
  case (threw x e)
  obtain b x' where c: "sim_cycle ops x = Inr (b, x')" using cycle_ok [OF threw.prems] by blast
  then show ?case using threw step_cycles [OF threw.prems, of x'] by (cases b) (auto simp: sim_step_def)
next
  case (ended x y)
  obtain b x' where c: "sim_cycle ops x = Inr (b, x')" using cycle_ok [OF ended.prems] by blast
  then have "b \<and> y = x'" using ended step_cycles [OF ended.prems, of x'] by (cases b) (auto simp: sim_step_def)
  then show ?case using c finishes.ended [of "sim_cycle ops"] by auto
qed

lemma loops_agree:
  assumes "sim_inv ops I x"
  shows "run_loop (sim_step ops) x = run_loop (sim_cycle ops) x"
proof (rule option.expand)
  have r: "run_loop (sim_step ops) x = Some r \<longleftrightarrow> run_loop (sim_cycle ops) x = Some r" for r
    unfolding run_loop_finishes using cycle_step step_cycle assms by blast
  then show "(run_loop (sim_step ops) x = None) = (run_loop (sim_cycle ops) x = None)" by (metis option.exhaust)
  from r show "the (run_loop (sim_step ops) x) = the (run_loop (sim_cycle ops) x)" if "run_loop (sim_step ops) x \<noteq> None"
    using that by (metis option.collapse option.sel)
qed

lemma step_ok:
  assumes "sim_inv ops I x"
  shows "\<exists>b x'. sim_step ops x = Inr (b, x') \<and> sim_inv ops I x'"
proof -
  obtain b x' where c: "sim_cycle ops x = Inr (b, x')" "sim_inv ops I x'" using cycle_ok [OF assms] by blast
  show ?thesis
  proof (cases b)
    case True
    then show ?thesis using c by (intro exI [of _ True]) (simp add: sim_step_def)
  next
    case False
    then show ?thesis using step_cycles [OF assms, of x'] c by metis
  qed
qed

text \<open>No iteration throws: the loop ends, or it can always go on.\<close>

lemma ends_or_goes:
  assumes "sim_inv ops I x"
  shows "(\<exists>x'. run_loop (sim_step ops) x = Some (Inr x') \<and> sim_inv ops I x') \<or> (\<forall>n. \<exists>y. goes (sim_step ops) n x y \<and> sim_inv ops I y)"
proof (rule disjCI)
  assume "\<not> (\<forall>n. \<exists>y. goes (sim_step ops) n x y \<and> sim_inv ops I y)"
  then obtain n where "\<not> (\<exists>y. goes (sim_step ops) n x y \<and> sim_inv ops I y)" by blast
  then have "\<exists>m x'. finishes (sim_step ops) m x (Inr x') \<and> sim_inv ops I x'"
    using assms
  proof (induction n arbitrary: x)
    case (Suc n)
    obtain b y where y: "sim_step ops x = Inr (b, y)" "sim_inv ops I y" using step_ok [OF Suc.prems(2)] by blast
    show ?case
    proof (cases b)
      case True
      then have "finishes (sim_step ops) 0 x (Inr y)" using y(1) by (intro finishes.ended) simp
      then show ?thesis using y(2) by blast
    next
      case False
      with Suc.prems(1) y(1) have "\<not> (\<exists>z. goes (sim_step ops) n y z \<and> sim_inv ops I z)" by auto
      from Suc.IH [OF this y(2)] obtain m x' where "finishes (sim_step ops) m y (Inr x')" "sim_inv ops I x'" by blast
      moreover from this(1) have "finishes (sim_step ops) (Suc m) x (Inr x')" using y(1) False by (intro finishes.more) simp_all
      ultimately show ?thesis by blast
    qed
  qed auto
  then show "\<exists>x'. run_loop (sim_step ops) x = Some (Inr x') \<and> sim_inv ops I x'" unfolding run_loop_finishes by blast
qed

lemma elision_invisible: "I s \<Longrightarrow> run_simulation ops s = plain_simulation ops s"
  unfolding run_simulation_def plain_simulation_def using loops_agree [OF start_ok] by simp

end

text \<open>A bounded run, to evaluate examples.\<close>

fun run_for :: "nat \<Rightarrow> ('a \<Rightarrow> (bool \<times> 'a) result) \<Rightarrow> 'a \<Rightarrow> 'a result option" where
  "run_for 0 step x = None"
| "run_for (Suc n) step x =
     (case step x of
        Inl e \<Rightarrow> Some (Inl e)
      | Inr (finished, x') \<Rightarrow> if finished then Some (Inr x') else run_for n step x')"

lemma run_for_loop: "run_for n step x = Some r \<Longrightarrow> run_loop step x = Some r"
proof (induction n arbitrary: x)
  case (Suc n)
  then show ?case by (subst run_loop.simps) (auto split: sum.splits if_splits)
qed simp

lemma run_for_goes: "run_for n step x = None \<Longrightarrow> \<exists>y. goes step n x y"
proof (induction n arbitrary: x)
  case (Suc n)
  then show ?case by (auto split: sum.splits if_splits)
next
  case 0
  then show ?case by (intro exI [of _ x]) simp
qed

end
