(* ===== verification/Atomic_Controller.thy ===== *)
theory Atomic_Controller
  imports Controller_Inv Channel_Mappers
begin

text \<open>
  The atomic latency controller, \<^verbatim>\<open>ramulator/controller/impl/atomic_controller_base.h\<close>: a request is
  given its departure when it is admitted, by a model that is a virtual method, and waits in
  a priority queue until then. The model interface is \<^verbatim>\<open>ramulator/controller/atomic_model/api.h\<close>;
  the two subclasses are \<^verbatim>\<open>atomic_controller.cpp\<close>, whose model adds a constant, and
  \<^verbatim>\<open>atomic_model_controller.cpp\<close>, whose model is loaded from a library and is a parameter here.

  A \<^verbatim>\<open>double\<close> is a rational, \<open>None\<close> when it is not finite: the code only compares them. The
  output trace, the average in floating point and the parsing of parameter strings are left out.
\<close>

section \<open>The model interface\<close>

type_synonym double = "rat option"

datatype AccessType = Access_Read | Access_Write

record Access =
  acc_address :: Addr_t
  acc_type :: AccessType
  acc_levels :: AddrVec_t
  acc_size_bytes :: int

record Hardware =
  hw_standard :: string
  hw_level_names :: "string list"
  hw_level_sizes :: "int list"
  hw_timings :: "string \<rightharpoonup> int"
  hw_read_latency :: Clk_t
  hw_tck_ps :: int
  hw_transaction_bytes :: int
  hw_channel_width :: int
  hw_device_width :: int
  hw_internal_prefetch_size :: int
  hw_read_capacity :: int
  hw_write_capacity :: int
  hw_write_low_watermark :: double
  hw_write_high_watermark :: double

fun index_of :: "string \<Rightarrow> string list \<Rightarrow> nat option" where
  "index_of name [] = None"
| "index_of name (x # xs) = (if x = name then Some 0 else map_option Suc (index_of name xs))"

definition level_index :: "Hardware \<Rightarrow> string \<Rightarrow> nat result" where
  "level_index h name = (case index_of name (hw_level_names h) of None \<Rightarrow> throw ''Unknown DRAM level'' | Some i \<Rightarrow> Inr i)"

definition hw_timing :: "Hardware \<Rightarrow> string \<Rightarrow> int result" where
  "hw_timing h name = (case hw_timings h name of None \<Rightarrow> throw ''out_of_range'' | Some v \<Rightarrow> Inr v)"

definition hw_level_size :: "Hardware \<Rightarrow> string \<Rightarrow> int result" where
  "hw_level_size h name =
     bindR (level_index h name) (\<lambda>i. if i < length (hw_level_sizes h) then Inr (hw_level_sizes h ! i) else throw ''out_of_range'')"

record Parameters =
  pm_overrides :: "(string \<times> double) list"
  pm_used :: "string set"

definition name_chars :: string where
  "name_chars = ''abcdefghijklmnopqrstuvwxyzABCDEFGHIJKLMNOPQRSTUVWXYZ0123456789_''"

text \<open>The range check that both parameter interfaces make on a declaration.\<close>

definition range_ok :: "double \<Rightarrow> double \<Rightarrow> double \<Rightarrow> bool" where
  "range_ok fallback minimum maximum =
     (case (fallback, minimum, maximum) of
        (Some f, Some lo, Some hi) \<Rightarrow> lo \<le> hi \<and> lo \<le> f \<and> f \<le> hi
      | _ \<Rightarrow> False)"

definition in_range :: "double \<Rightarrow> double \<Rightarrow> double \<Rightarrow> bool" where
  "in_range v minimum maximum =
     (case (v, minimum, maximum) of (Some x, Some lo, Some hi) \<Rightarrow> lo \<le> x \<and> x \<le> hi | _ \<Rightarrow> False)"

definition number :: "string \<Rightarrow> double \<Rightarrow> double \<Rightarrow> double \<Rightarrow> Parameters \<Rightarrow> (double \<times> Parameters) result" where
  "number name fallback minimum maximum p =
     (if name = [] \<or> hd name \<in> set ''0123456789'' \<or> list_ex (\<lambda>c. c \<notin> set name_chars) name \<or> \<not> range_ok fallback minimum maximum
      then throw ''Invalid atomic model parameter declaration''
      else let v = (case map_of (pm_overrides p) name of None \<Rightarrow> fallback | Some v \<Rightarrow> v)
           in if \<not> in_range v minimum maximum then throw ''Atomic model parameter outside its declared range''
              else Inr (v, p\<lparr>pm_used := insert name (pm_used p)\<rparr>))"

definition require_all_used :: "Parameters \<Rightarrow> unit result" where
  "require_all_used p =
     (if list_ex (\<lambda>ov. fst ov \<notin> pm_used p) (pm_overrides p) then throw ''Unknown atomic model parameter'' else Inr ())"

section \<open>The controller\<close>

text \<open>
  \<^verbatim>\<open>PendingRequest\<close> and its order are those of \<open>PendingRead\<close>. The state of the model has the
  type \<open>'p\<close>.
\<close>

type_synonym PendingRequest = PendingRead

record AtomicConfig =
  ac_latency :: int
  ac_read_buffer_size :: int
  ac_write_buffer_size :: int
  ac_wr_low_watermark :: double
  ac_wr_high_watermark :: double
  ac_model_parameters :: "(string \<times> double) list"
  ac_refresh :: string
  ac_dram_impl :: string
  ac_dram :: DramConfig

record 'p AtomicController =
  at_channel_id :: int
  at_clk :: Clk_t
  at_device :: DRAMDevice
  at_addr_mapper :: AddrMapper
  at_tCK_ps :: int
  at_latency :: int
  at_read_buffer_size :: int
  at_write_buffer_size :: int
  at_model :: 'p
  at_pending :: "PendingRequest list"
  at_next_sequence :: nat
  at_inflight_reads :: nat
  at_inflight_writes :: nat
  at_measured_clk :: Clk_t
  at_num_read_reqs :: nat
  at_num_write_reqs :: nat
  at_num_read_reqs_served :: nat
  at_num_write_reqs_served :: nat
  at_read_latency :: int
  at_send_rejects :: nat
  at_peak_inflight_reads :: nat
  at_peak_inflight_writes :: nat

text \<open>
  \<^verbatim>\<open>init_model\<close> returns the model and the parameter names it declared; \<^verbatim>\<open>predict_departure\<close> gets the
  configured latency, the clock and the request.
\<close>

type_synonym 'p init_model = "DRAMSpec \<Rightarrow> int \<Rightarrow> int \<Rightarrow> AtomicConfig \<Rightarrow> ('p \<times> string set) result"
type_synonym 'p predictor = "int \<Rightarrow> Clk_t \<Rightarrow> Request \<Rightarrow> 'p \<Rightarrow> (Clk_t \<times> 'p) result"

definition Atomic_init :: "(DRAMSpec \<Rightarrow> AddrMapper result) \<Rightarrow> 'p init_model \<Rightarrow> AtomicConfig \<Rightarrow> 'p AtomicController result" where
  "Atomic_init create_mapper init_model cfg =
     bindR (create (ac_dram_impl cfg) (ac_dram cfg)) (\<lambda>sp.
     bindR (device_init sp) (\<lambda>dev.
     bindR (get_timing_value sp ''tCK_ps'') (\<lambda>tCK_ps.
       let latency = (if ac_latency cfg = -1 then read_latency sp else ac_latency cfg) in
       if latency \<le> 0 then throw ''Atomic latency must be positive''
       else if ac_read_buffer_size cfg \<le> 0 \<or> ac_write_buffer_size cfg \<le> 0 then throw ''Atomic buffer sizes must be positive''
       else if \<not> (case (ac_wr_low_watermark cfg, ac_wr_high_watermark cfg) of
                    (Some low, Some high) \<Rightarrow> 0 \<le> low \<and> high \<le> 1 \<and> low \<le> high | _ \<Rightarrow> False)
       then throw ''Atomic requires 0 <= low <= high <= 1 write watermarks''
       else if ac_refresh cfg \<noteq> ''none'' then throw ''Atomic skeleton supports refresh none only''
       else bindR (create_mapper sp) (\<lambda>mapper.
            bindR (init_model sp latency tCK_ps cfg) (\<lambda>(model, used).
              if list_ex (\<lambda>ov. fst ov \<notin> used) (ac_model_parameters cfg) then throw ''Unknown Atomic model parameter''
              else Inr \<lparr>at_channel_id = -1, at_clk = 0, at_device = dev, at_addr_mapper = mapper, at_tCK_ps = tCK_ps,
                     at_latency = latency, at_read_buffer_size = ac_read_buffer_size cfg,
                     at_write_buffer_size = ac_write_buffer_size cfg, at_model = model, at_pending = [],
                     at_next_sequence = 0, at_inflight_reads = 0, at_inflight_writes = 0, at_measured_clk = 0,
                     at_num_read_reqs = 0, at_num_write_reqs = 0, at_num_read_reqs_served = 0,
                     at_num_write_reqs_served = 0, at_read_latency = 0, at_send_rejects = 0,
                     at_peak_inflight_reads = 0, at_peak_inflight_writes = 0\<rparr>)))))"

definition Atomic_set_channel_id :: "int \<Rightarrow> 'p AtomicController \<Rightarrow> 'p AtomicController" where
  "Atomic_set_channel_id channel_id c =
     c\<lparr>at_channel_id := channel_id, at_device := device_set_channel_id channel_id (at_device c)\<rparr>"

definition Atomic_priority_send :: "Request \<Rightarrow> 'p AtomicController \<Rightarrow> (bool \<times> 'p AtomicController) result" where
  "Atomic_priority_send req c = throw ''Atomic skeleton does not model maintenance requests''"

definition count_admitted :: "bool \<Rightarrow> 'p AtomicController \<Rightarrow> 'p AtomicController" where
  "count_admitted is_read c =
     (if is_read
      then let n = at_inflight_reads c + 1
           in c\<lparr>at_inflight_reads := n, at_num_read_reqs := at_num_read_reqs c + 1, at_peak_inflight_reads := max (at_peak_inflight_reads c) n\<rparr>
      else let n = at_inflight_writes c + 1
           in c\<lparr>at_inflight_writes := n, at_num_write_reqs := at_num_write_reqs c + 1, at_peak_inflight_writes := max (at_peak_inflight_writes c) n\<rparr>)"

definition Atomic_send :: "'p predictor \<Rightarrow> Request \<Rightarrow> 'p AtomicController \<Rightarrow> (bool \<times> Request \<times> 'p AtomicController) result" where
  "Atomic_send predict req0 c =
     (let is_read = (req_type_id req0 = Type_Read) in
      if \<not> is_read \<and> req_type_id req0 \<noteq> Type_Write then throw ''Atomic skeleton supports only Read/Write requests''
      else if int (if is_read then at_inflight_reads c else at_inflight_writes c) \<ge>
              (if is_read then at_read_buffer_size c else at_write_buffer_size c)
      then Inr (False, req0, c\<lparr>at_send_rejects := at_send_rejects c + 1\<rparr>)
      else bindR (mapper_apply (at_device c) (at_addr_mapper c) req0) (\<lambda>req1.
           let req2 = req1\<lparr>req_addr_vec := (req_addr_vec req1)[0 := at_channel_id c], req_arrive := at_clk c\<rparr>
           in bindR (predict (at_latency c) (at_clk c) req2 (at_model c)) (\<lambda>(depart, model).
             if depart \<le> at_clk c then throw ''Atomic must commit a strictly future departure''
             else let req = req2\<lparr>req_depart := depart\<rparr>; c1 = count_admitted is_read (c\<lparr>at_model := model\<rparr>)
                  in Inr (True, req,
                       c1\<lparr>at_pending := pending_push \<lparr>pr_depart = depart, pr_sequence = at_next_sequence c1, pr_req = req\<rparr> (at_pending c1),
                          at_next_sequence := Suc (at_next_sequence c1)\<rparr>))))"

text \<open>The loop of \<^verbatim>\<open>serve_completed\<close>; the requests whose callbacks run are returned in order.\<close>

definition count_served :: "Request \<Rightarrow> 'p AtomicController \<Rightarrow> 'p AtomicController" where
  "count_served req c =
     (if req_type_id req = Type_Read
      then c\<lparr>at_inflight_reads := at_inflight_reads c - 1, at_num_read_reqs_served := at_num_read_reqs_served c + 1,
             at_read_latency := at_read_latency c + (req_depart req - req_arrive req)\<rparr>
      else c\<lparr>at_inflight_writes := at_inflight_writes c - 1, at_num_write_reqs_served := at_num_write_reqs_served c + 1\<rparr>)"

fun serve_completed :: "PendingRequest list \<Rightarrow> 'p AtomicController \<Rightarrow> Request list \<times> 'p AtomicController" where
  "serve_completed [] c = ([], c\<lparr>at_pending := []\<rparr>)"
| "serve_completed (p # ps) c =
     (if pr_depart p \<le> at_clk c
      then let (calls, c') = serve_completed ps (count_served (pr_req p) c)
           in (if req_callback (pr_req p) \<noteq> None then pr_req p # calls else calls, c')
      else ([], c\<lparr>at_pending := p # ps\<rparr>))"

definition Atomic_tick :: "'p AtomicController \<Rightarrow> Request list \<times> 'p AtomicController" where
  "Atomic_tick c =
     serve_completed (at_pending c) (c\<lparr>at_clk := at_clk c + 1, at_measured_clk := at_measured_clk c + 1\<rparr>)"

definition Atomic_idle_ticks :: "'p AtomicController \<Rightarrow> Clk_t" where
  "Atomic_idle_ticks c =
     (case at_pending c of
        [] \<Rightarrow> 2 ^ 63 - 1
      | p # _ \<Rightarrow> if pr_depart p > at_clk c + 1 then pr_depart p - at_clk c - 1 else 0)"

definition Atomic_fast_forward :: "Clk_t \<Rightarrow> 'p AtomicController \<Rightarrow> 'p AtomicController" where
  "Atomic_fast_forward ticks c = c\<lparr>at_clk := at_clk c + ticks, at_measured_clk := at_measured_clk c + ticks\<rparr>"

definition Atomic_reset_stats :: "'p AtomicController \<Rightarrow> 'p AtomicController" where
  "Atomic_reset_stats c =
     c\<lparr>at_measured_clk := 0, at_num_read_reqs := 0, at_num_write_reqs := 0, at_num_read_reqs_served := 0,
       at_num_write_reqs_served := 0, at_read_latency := 0, at_send_rejects := 0,
       at_peak_inflight_reads := at_inflight_reads c, at_peak_inflight_writes := at_inflight_writes c\<rparr>"

section \<open>The two models\<close>

definition AtomicController_init_model :: "unit init_model" where
  "AtomicController_init_model sp latency tCK_ps cfg = Inr ((), {})"

definition AtomicController_predict :: "unit predictor" where
  "AtomicController_predict latency clk req model = Inr (clk + latency, model)"

definition model_hardware :: "DRAMSpec \<Rightarrow> int \<Rightarrow> int \<Rightarrow> AtomicConfig \<Rightarrow> Hardware" where
  "model_hardware sp latency tCK_ps cfg =
     \<lparr>hw_standard = standard_name sp, hw_level_names = level_names sp, hw_level_sizes = level_sizes (organization sp),
      hw_timings = (\<lambda>name. map_option (\<lambda>i. timing_vals sp ! i) (timings sp name)), hw_read_latency = latency,
      hw_tck_ps = tCK_ps, hw_transaction_bytes = get_tx_bytes sp, hw_channel_width = channel_width sp,
      hw_device_width = dq (organization sp), hw_internal_prefetch_size = internal_prefetch_size sp,
      hw_read_capacity = ac_read_buffer_size cfg, hw_write_capacity = ac_write_buffer_size cfg,
      hw_write_low_watermark = ac_wr_low_watermark cfg, hw_write_high_watermark = ac_wr_high_watermark cfg\<rparr>"

definition AtomicModelController_init_model :: "(Hardware \<Rightarrow> Parameters \<Rightarrow> ('p \<times> Parameters) result) \<Rightarrow> 'p init_model" where
  "AtomicModelController_init_model initialize sp latency tCK_ps cfg =
     bindR (initialize (model_hardware sp latency tCK_ps cfg) \<lparr>pm_overrides = ac_model_parameters cfg, pm_used = {}\<rparr>) (\<lambda>(model, p).
     bindR (require_all_used p) (\<lambda>_. Inr (model, fst ` set (ac_model_parameters cfg))))"

definition access_of :: "Request \<Rightarrow> Access" where
  "access_of req =
     \<lparr>acc_address = req_addr req, acc_type = (if req_type_id req = Type_Read then Access_Read else Access_Write),
      acc_levels = req_addr_vec req, acc_size_bytes = req_size_bytes req\<rparr>"

definition AtomicModelController_predict :: "(Access \<Rightarrow> Clk_t \<Rightarrow> 'p \<Rightarrow> (Clk_t \<times> 'p) result) \<Rightarrow> 'p predictor" where
  "AtomicModelController_predict predict latency clk req model = predict (access_of req) clk model"

end
