(* ===== verification/LLC.thy ===== *)
theory LLC
  imports Ram_Utils Ram_Request "HOL-Library.Multiset" "HOL-Library.AList"
begin

text \<open>
  The last-level cache of the SimpleO3 frontend,
  \<^verbatim>\<open>ramulator/frontend/impl/processor/simpleO3/llc.h\<close> and \<^verbatim>\<open>llc.cpp\<close>: cache sets in LRU order,
  miss-status registers (MSHRs), the requests that wait for a line, the queues towards the
  memory and back, and the accounting of live requests.

  The clock is that of the frontend and a parameter here. The iterator an MSHR holds into a
  cache set is the pair of set index and tag: list iterators stay valid, and the tags of a
  set are distinct (\<open>set_ok\<close>). The request trace, debug output, and the text format of
  \<^verbatim>\<open>serialize\<close> are left out.
\<close>

section \<open>State\<close>

datatype LogicalPath = Path_Hit | Path_MSHRMerge | Path_MissOwner

record LogicalKey =
  key_source_id :: int
  key_frontend_id :: int
  key_frontend_sub_id :: int

record LogicalRequest =
  lr_req :: Request
  lr_arrive :: Clk_t
  lr_original_type :: int
  lr_admission_ordinal :: int
  lr_path :: LogicalPath

record Line =
  l_addr :: Addr_t
  l_tag :: Addr_t
  l_dirty :: bool
  l_ready :: bool

text \<open>The members that are constant after construction.\<close>

record LLCConfig =
  llc_latency :: int
  llc_linesize_bytes :: int
  llc_associativity :: int
  llc_set_size :: int
  llc_num_mshrs :: int
  llc_index_mask :: Addr_t
  llc_index_offset :: nat
  llc_tag_offset :: nat

record SimpleO3LLC =
  llc_cache_sets :: "int \<rightharpoonup> Line list"
  llc_mshrs :: "(Addr_t \<times> int \<times> Addr_t) list"
  llc_receive_requests :: "(Addr_t \<times> LogicalRequest list) list"
  llc_live_logical_ids :: "LogicalKey set"
  llc_miss_list :: "(Clk_t \<times> Request) list"
  llc_hit_list :: "(Clk_t \<times> LogicalRequest) list"
  llc_next_logical_admission_ordinal :: int
  llc_split_groups :: "(int \<times> Request) list"
  llc_cfg :: LLCConfig
  s_llc_read_access :: "32 word"
  s_llc_write_access :: "32 word"
  s_llc_read_misses :: "32 word"
  s_llc_write_misses :: "32 word"
  s_llc_eviction :: "32 word"
  s_llc_mshr_unavailable :: "32 word"
  s_logical_requests_completed :: int
  s_logical_requests_live :: int
  s_logical_requests_peak :: int
  s_logical_requests_hit :: int
  s_logical_requests_mshr_merge :: int
  s_logical_requests_miss_owner :: int
  s_internal_writebacks_generated :: int
  s_internal_writebacks_completed :: int
  s_internal_writebacks_live :: int

text \<open>
  The callbacks a request can carry: the one of the core that sent it, the counter of the
  internal writebacks, and the closures \<^verbatim>\<open>enqueue_miss\<close> makes for the parts of a line, of which
  \<open>llc_split_groups\<close> keeps the shared count and the captured request.
\<close>

definition cb_core :: nat where "cb_core = 0"
definition cb_writeback :: nat where "cb_writeback = 1"
definition cb_split :: "nat \<Rightarrow> nat" where "cb_split g = 2 + g"

section \<open>Construction\<close>

definition LLC_new :: "int \<Rightarrow> int \<Rightarrow> int \<Rightarrow> int \<Rightarrow> int \<Rightarrow> SimpleO3LLC result" where
  "LLC_new latency size_bytes linesize_bytes associativity num_mshrs =
     (if latency < 0 then throw ''SimpleO3 LLC latency must be non-negative''
      else if size_bytes \<le> 0 \<or> linesize_bytes \<le> 0 \<or> associativity \<le> 0
      then throw ''SimpleO3 LLC size, line size, and associativity must be positive''
      else if linesize_bytes AND (linesize_bytes - 1) \<noteq> 0 then throw ''SimpleO3 LLC line size must be a power of two''
      else let bytes_per_set = linesize_bytes * associativity in
        if size_bytes < bytes_per_set \<or> size_bytes mod bytes_per_set \<noteq> 0
        then throw ''SimpleO3 LLC capacity must contain an integral number of complete sets''
        else let num_sets = size_bytes div bytes_per_set in
          if num_sets AND (num_sets - 1) \<noteq> 0 then throw ''SimpleO3 LLC set count must be a power of two''
          else if num_mshrs \<le> 0 then throw ''SimpleO3 LLC MSHR count must be positive''
          else Inr \<lparr>llc_cache_sets = Map.empty, llc_mshrs = [], llc_receive_requests = [], llc_live_logical_ids = {},
                llc_miss_list = [], llc_hit_list = [], llc_next_logical_admission_ordinal = 0, llc_split_groups = [],
                llc_cfg = \<lparr>llc_latency = latency, llc_linesize_bytes = linesize_bytes, llc_associativity = associativity,
                  llc_set_size = num_sets, llc_num_mshrs = num_mshrs, llc_index_mask = num_sets - 1,
                  llc_index_offset = calc_log2 (nat linesize_bytes),
                  llc_tag_offset = calc_log2 (nat num_sets) + calc_log2 (nat linesize_bytes)\<rparr>,
                s_llc_read_access = 0, s_llc_write_access = 0, s_llc_read_misses = 0, s_llc_write_misses = 0,
                s_llc_eviction = 0, s_llc_mshr_unavailable = 0, s_logical_requests_completed = 0,
                s_logical_requests_live = 0, s_logical_requests_peak = 0, s_logical_requests_hit = 0,
                s_logical_requests_mshr_merge = 0, s_logical_requests_miss_owner = 0,
                s_internal_writebacks_generated = 0, s_internal_writebacks_completed = 0, s_internal_writebacks_live = 0\<rparr>)"

section \<open>Addresses and sets\<close>

definition get_index :: "LLCConfig \<Rightarrow> Addr_t \<Rightarrow> int" where
  "get_index g addr = drop_bit (llc_index_offset g) addr AND llc_index_mask g"

definition get_tag :: "LLCConfig \<Rightarrow> Addr_t \<Rightarrow> Addr_t" where
  "get_tag g addr = drop_bit (llc_tag_offset g) addr"

definition align :: "LLCConfig \<Rightarrow> Addr_t \<Rightarrow> Addr_t" where
  "align g addr = addr AND NOT (llc_linesize_bytes g - 1)"

text \<open>\<^verbatim>\<open>get_set\<close> inserts an empty set on the first access.\<close>

definition get_set :: "SimpleO3LLC \<Rightarrow> Addr_t \<Rightarrow> Line list" where
  "get_set c addr = (case llc_cache_sets c (get_index (llc_cfg c) addr) of None \<Rightarrow> [] | Some s \<Rightarrow> s)"

definition put_set :: "Addr_t \<Rightarrow> Line list \<Rightarrow> SimpleO3LLC \<Rightarrow> SimpleO3LLC" where
  "put_set addr s c = c\<lparr>llc_cache_sets := (llc_cache_sets c)(get_index (llc_cfg c) addr \<mapsto> s)\<rparr>"

text \<open>\<^verbatim>\<open>std::find_if\<close> and \<^verbatim>\<open>erase\<close> on a sequence.\<close>

fun find_pos :: "('a \<Rightarrow> bool) \<Rightarrow> 'a list \<Rightarrow> nat option" where
  "find_pos P [] = None"
| "find_pos P (x # xs) = (if P x then Some 0 else map_option Suc (find_pos P xs))"

definition erase_pos :: "nat \<Rightarrow> 'a list \<Rightarrow> 'a list" where
  "erase_pos i xs = take i xs @ drop (Suc i) xs"

definition check_set_hit :: "SimpleO3LLC \<Rightarrow> Line list \<Rightarrow> Addr_t \<Rightarrow> nat option" where
  "check_set_hit c s addr =
     (case find_pos (\<lambda>l. l_tag l = get_tag (llc_cfg c) addr) s of
        None \<Rightarrow> None
      | Some i \<Rightarrow> if \<not> l_ready (s ! i) then None else Some i)"

definition check_mshr_hit :: "SimpleO3LLC \<Rightarrow> Addr_t \<Rightarrow> nat option" where
  "check_mshr_hit c addr = find_pos (\<lambda>m. align (llc_cfg c) (fst m) = align (llc_cfg c) addr) (llc_mshrs c)"

text \<open>Writing through the iterator of an MSHR.\<close>

definition update_line :: "int \<times> Addr_t \<Rightarrow> (Line \<Rightarrow> Line) \<Rightarrow> SimpleO3LLC \<Rightarrow> SimpleO3LLC" where
  "update_line p f c =
     c\<lparr>llc_cache_sets := (\<lambda>i. if i = fst p
        then map_option (map (\<lambda>l. if l_tag l = snd p then f l else l)) (llc_cache_sets c i)
        else llc_cache_sets c i)\<rparr>"

section \<open>Logical requests\<close>

definition logical_key :: "Request \<Rightarrow> LogicalKey" where
  "logical_key req = \<lparr>key_source_id = req_source_id req, key_frontend_id = req_frontend_id req,
     key_frontend_sub_id = req_frontend_sub_id req\<rparr>"

definition validate_logical_identity :: "SimpleO3LLC \<Rightarrow> Request \<Rightarrow> unit result" where
  "validate_logical_identity c req =
     (if req_source_id req < 0 \<or> req_frontend_id req < 0 \<or> req_frontend_sub_id req < 0
      then throw ''SimpleO3 LLC request is missing a valid stable frontend identity''
      else if req_type_id req \<noteq> Type_Read \<and> req_type_id req \<noteq> Type_Write
      then throw ''SimpleO3 LLC received an unsupported logical request type''
      else if logical_key req \<in> llc_live_logical_ids c
      then throw ''SimpleO3 LLC received a duplicate live stable frontend identity''
      else Inr ())"

definition begin_logical_request ::
  "Clk_t \<Rightarrow> Request \<Rightarrow> int \<Rightarrow> LogicalPath \<Rightarrow> SimpleO3LLC \<Rightarrow> (LogicalRequest \<times> SimpleO3LLC) result" where
  "begin_logical_request clk req original_type path c =
     (if logical_key req \<in> llc_live_logical_ids c
      then throw ''SimpleO3 LLC failed to register a unique live frontend identity''
      else Inr (\<lparr>lr_req = req, lr_arrive = clk, lr_original_type = original_type,
                 lr_admission_ordinal = llc_next_logical_admission_ordinal c, lr_path = path\<rparr>,
        c\<lparr>llc_live_logical_ids := insert (logical_key req) (llc_live_logical_ids c),
          s_logical_requests_live := s_logical_requests_live c + 1,
          s_logical_requests_peak := max (s_logical_requests_peak c) (s_logical_requests_live c + 1),
          s_logical_requests_hit := s_logical_requests_hit c + (if path = Path_Hit then 1 else 0),
          s_logical_requests_mshr_merge := s_logical_requests_mshr_merge c + (if path = Path_MSHRMerge then 1 else 0),
          s_logical_requests_miss_owner := s_logical_requests_miss_owner c + (if path = Path_MissOwner then 1 else 0),
          llc_next_logical_admission_ordinal := llc_next_logical_admission_ordinal c + 1\<rparr>))"

definition complete_logical_request :: "Clk_t \<Rightarrow> LogicalRequest \<Rightarrow> SimpleO3LLC \<Rightarrow> SimpleO3LLC result" where
  "complete_logical_request depart logical c =
     (if depart < lr_arrive logical then throw ''SimpleO3 logical request completed before it arrived at the LLC''
      else if logical_key (lr_req logical) \<notin> llc_live_logical_ids c
      then throw ''SimpleO3 logical request completion has no unique live identity''
      else if s_logical_requests_live c \<le> 0 then throw ''SimpleO3 logical live-request count underflow''
      else Inr (c\<lparr>llc_live_logical_ids := llc_live_logical_ids c - {logical_key (lr_req logical)},
             s_logical_requests_live := s_logical_requests_live c - 1,
             s_logical_requests_completed := s_logical_requests_completed c + 1\<rparr>))"

definition take_receive_requests :: "Addr_t \<Rightarrow> SimpleO3LLC \<Rightarrow> (LogicalRequest list \<times> SimpleO3LLC) result" where
  "take_receive_requests addr c =
     (case map_of (llc_receive_requests c) addr of
        None \<Rightarrow> throw ''SimpleO3 LLC completion has no logical request bucket''
      | Some rs \<Rightarrow>
          if rs = [] then throw ''SimpleO3 LLC completion has no logical request bucket''
          else Inr (rs, c\<lparr>llc_receive_requests := AList.delete addr (llc_receive_requests c)\<rparr>))"

section \<open>Misses and evictions\<close>

definition miss_part :: "SimpleO3LLC \<Rightarrow> int \<Rightarrow> nat option \<Rightarrow> Request \<Rightarrow> int \<Rightarrow> Request" where
  "miss_part c tx_bytes cb req i =
     req\<lparr>req_addr := align (llc_cfg c) (req_addr req) + i * tx_bytes, req_size_bytes := tx_bytes,
         req_frontend_sub_id := i, req_callback := cb\<rparr>"

definition enqueue_miss :: "int \<Rightarrow> Clk_t \<Rightarrow> Request \<Rightarrow> SimpleO3LLC \<Rightarrow> SimpleO3LLC" where
  "enqueue_miss tx_bytes clk req c =
     (if tx_bytes \<ge> llc_linesize_bytes (llc_cfg c)
      then c\<lparr>llc_miss_list := llc_miss_list c @ [(clk + llc_latency (llc_cfg c), req)]\<rparr>
      else let n = llc_linesize_bytes (llc_cfg c) div tx_bytes;
               (cb, groups) = (if req_callback req = None then (None, llc_split_groups c)
                               else (Some (cb_split (length (llc_split_groups c))), llc_split_groups c @ [(n, req)]))
           in c\<lparr>llc_miss_list := llc_miss_list c @ map (\<lambda>i. (clk + llc_latency (llc_cfg c), miss_part c tx_bytes cb req i)) [0..n - 1],
                llc_split_groups := groups\<rparr>)"

definition writeback_of :: "SimpleO3LLC \<Rightarrow> Line \<Rightarrow> Request" where
  "writeback_of c l =
     (Request_addr (l_addr l) Type_Write)\<lparr>req_size_bytes := llc_linesize_bytes (llc_cfg c), req_callback := Some cb_writeback\<rparr>"

text \<open>The closure of a writeback.\<close>

definition writeback_completed :: "SimpleO3LLC \<Rightarrow> SimpleO3LLC result" where
  "writeback_completed c =
     (if s_internal_writebacks_live c \<le> 0 then throw ''SimpleO3 LLC internal-writeback completion underflow''
      else Inr (c\<lparr>s_internal_writebacks_live := s_internal_writebacks_live c - 1,
                 s_internal_writebacks_completed := s_internal_writebacks_completed c + 1\<rparr>))"

definition evict_line :: "int \<Rightarrow> Clk_t \<Rightarrow> Addr_t \<Rightarrow> nat \<Rightarrow> SimpleO3LLC \<Rightarrow> SimpleO3LLC" where
  "evict_line tx_bytes clk addr victim c =
     (let s = get_set c addr; l = s ! victim; c1 = c\<lparr>s_llc_eviction := s_llc_eviction c + 1\<rparr>;
          c2 = (if l_dirty l
                then enqueue_miss tx_bytes clk (writeback_of c l)
                  (c1\<lparr>s_internal_writebacks_generated := s_internal_writebacks_generated c + 1,
                      s_internal_writebacks_live := s_internal_writebacks_live c + 1\<rparr>)
                else c1)
      in put_set addr (erase_pos victim s) c2)"

text \<open>\<^verbatim>\<open>assert(false)\<close> is a throw.\<close>

definition need_eviction :: "SimpleO3LLC \<Rightarrow> Addr_t \<Rightarrow> bool result" where
  "need_eviction c addr =
     (if list_ex (\<lambda>l. l_tag l = get_tag (llc_cfg c) addr) (get_set c addr) then throw ''assert(false)''
      else Inr (int (length (get_set c addr)) \<ge> llc_associativity (llc_cfg c)))"

definition push_line :: "Addr_t \<Rightarrow> SimpleO3LLC \<Rightarrow> SimpleO3LLC" where
  "push_line addr c =
     put_set addr (get_set c addr @ [\<lparr>l_addr = addr, l_tag = get_tag (llc_cfg c) addr, l_dirty = False, l_ready = False\<rparr>]) c"

text \<open>The value \<open>None\<close> is the end iterator: every line of the set is in flight.\<close>

definition allocate_line :: "int \<Rightarrow> Clk_t \<Rightarrow> Addr_t \<Rightarrow> SimpleO3LLC \<Rightarrow> SimpleO3LLC option result" where
  "allocate_line tx_bytes clk addr c =
     bindR (need_eviction c addr) (\<lambda>need.
       if \<not> need then Inr (Some (push_line addr c))
       else case find_pos l_ready (get_set c addr) of
              None \<Rightarrow> Inr None
            | Some victim \<Rightarrow> Inr (Some (push_line addr (evict_line tx_bytes clk addr victim c))))"

section \<open>Requests from the cores\<close>

definition count_access :: "Request \<Rightarrow> SimpleO3LLC \<Rightarrow> SimpleO3LLC" where
  "count_access req c =
     (if req_type_id req = Type_Read then c\<lparr>s_llc_read_access := s_llc_read_access c + 1\<rparr>
      else if req_type_id req = Type_Write then c\<lparr>s_llc_write_access := s_llc_write_access c + 1\<rparr> else c)"

definition count_miss :: "Request \<Rightarrow> SimpleO3LLC \<Rightarrow> SimpleO3LLC" where
  "count_miss req c =
     (if req_type_id req = Type_Read then c\<lparr>s_llc_read_misses := s_llc_read_misses c + 1\<rparr>
      else if req_type_id req = Type_Write then c\<lparr>s_llc_write_misses := s_llc_write_misses c + 1\<rparr> else c)"

definition LLC_hit :: "Clk_t \<Rightarrow> Request \<Rightarrow> nat \<Rightarrow> SimpleO3LLC \<Rightarrow> SimpleO3LLC result" where
  "LLC_hit clk req i c =
     (let s = get_set c (req_addr req);
          l = \<lparr>l_addr = req_addr req, l_tag = get_tag (llc_cfg c) (req_addr req),
               l_dirty = l_dirty (s ! i) \<or> req_type_id req = Type_Write, l_ready = True\<rparr>
      in bindR (begin_logical_request clk req (req_type_id req) Path_Hit (put_set (req_addr req) (erase_pos i s @ [l]) c)) (\<lambda>(lr, c1).
           Inr (c1\<lparr>llc_hit_list := llc_hit_list c1 @ [(clk + llc_latency (llc_cfg c1), lr)]\<rparr>)))"

definition LLC_merge :: "Clk_t \<Rightarrow> Request \<Rightarrow> int \<Rightarrow> bool \<Rightarrow> nat \<Rightarrow> SimpleO3LLC \<Rightarrow> SimpleO3LLC result" where
  "LLC_merge clk req original_type dirty m c =
     (let (owner, line) = llc_mshrs c ! m in
      case map_of (llc_receive_requests c) owner of
        None \<Rightarrow> throw ''SimpleO3 MSHR has no logical owner bucket''
      | Some rs \<Rightarrow>
          bindR (begin_logical_request clk req original_type Path_MSHRMerge c) (\<lambda>(lr, c1).
            Inr (update_line line (\<lambda>l. l\<lparr>l_dirty := dirty \<or> l_dirty l\<rparr>)
                  (c1\<lparr>llc_receive_requests := AList.update owner (rs @ [lr]) (llc_receive_requests c1)\<rparr>))))"

definition LLC_miss :: "int \<Rightarrow> Clk_t \<Rightarrow> Request \<Rightarrow> int \<Rightarrow> bool \<Rightarrow> SimpleO3LLC \<Rightarrow> SimpleO3LLC result" where
  "LLC_miss tx_bytes clk req original_type dirty c =
     bindR (allocate_line tx_bytes clk (req_addr req) c) (\<lambda>newline.
       case newline of
         None \<Rightarrow> throw ''Failed to allocate new line when there is available entry.''
       | Some c1 \<Rightarrow>
           let line = (get_index (llc_cfg c1) (req_addr req), get_tag (llc_cfg c1) (req_addr req));
               c2 = update_line line (\<lambda>l. l\<lparr>l_dirty := dirty\<rparr>) c1;
               c3 = c2\<lparr>llc_mshrs := llc_mshrs c2 @ [(req_addr req, line)]\<rparr>
           in if map_of (llc_receive_requests c3) (req_addr req) \<noteq> None
              then throw ''SimpleO3 new miss collided with a live completion bucket''
              else bindR (begin_logical_request clk req original_type Path_MissOwner c3) (\<lambda>(lr, c4).
                Inr (enqueue_miss tx_bytes clk (req\<lparr>req_size_bytes := llc_linesize_bytes (llc_cfg c4)\<rparr>)
                  (c4\<lparr>llc_receive_requests := AList.update (req_addr req) [lr] (llc_receive_requests c4)\<rparr>))))"

definition line_available :: "SimpleO3LLC \<Rightarrow> Addr_t \<Rightarrow> bool" where
  "line_available c addr \<longleftrightarrow>
     int (length (get_set c addr)) < llc_associativity (llc_cfg c) \<or> list_ex l_ready (get_set c addr)"

definition LLC_send :: "int \<Rightarrow> Clk_t \<Rightarrow> Request \<Rightarrow> SimpleO3LLC \<Rightarrow> (bool \<times> SimpleO3LLC) result" where
  "LLC_send tx_bytes clk req c0 =
     bindR (validate_logical_identity c0 req) (\<lambda>_.
     let original_type = req_type_id req; addr = req_addr req;
         c = count_access req (put_set addr (get_set c0 addr) c0)
     in case check_set_hit c (get_set c addr) addr of
          Some i \<Rightarrow> bindR (LLC_hit clk req i c) (\<lambda>c'. Inr (True, c'))
        | None \<Rightarrow>
            let c1 = count_miss req c; dirty = (req_type_id req = Type_Write); rd = req\<lparr>req_type_id := Type_Read\<rparr>
            in case check_mshr_hit c1 addr of
                 Some m \<Rightarrow> bindR (LLC_merge clk rd original_type dirty m c1) (\<lambda>c'. Inr (True, c'))
               | None \<Rightarrow>
                   if int (length (llc_mshrs c1)) = llc_num_mshrs (llc_cfg c1)
                   then Inr (False, c1\<lparr>s_llc_mshr_unavailable := s_llc_mshr_unavailable c1 + 1\<rparr>)
                   else if \<not> line_available c1 addr then Inr (False, c1)
                   else bindR (LLC_miss tx_bytes clk rd original_type dirty c1) (\<lambda>c'. Inr (True, c')))"

section \<open>Completions, clock and termination\<close>

definition LLC_receive :: "Request \<Rightarrow> SimpleO3LLC \<Rightarrow> SimpleO3LLC result" where
  "LLC_receive req c =
     (case find_pos (\<lambda>m. align (llc_cfg c) (fst m) = align (llc_cfg c) (req_addr req)) (llc_mshrs c) of
        None \<Rightarrow> throw ''SimpleO3 memory completion has no matching live MSHR''
      | Some i \<Rightarrow>
          Inr ((update_line (snd (llc_mshrs c ! i)) (\<lambda>l. l\<lparr>l_ready := True\<rparr>) c)\<lparr>llc_mshrs := erase_pos i (llc_mshrs c)\<rparr>))"

text \<open>
  The two loops of \<^verbatim>\<open>tick\<close>. The state behind \<^verbatim>\<open>m_memory_system->send\<close> and behind the completion callback is
  threaded through them; neither changes the list that is walked.
\<close>

fun send_misses ::
  "(Request \<Rightarrow> 's \<Rightarrow> (bool \<times> Request \<times> 's) result) \<Rightarrow> Clk_t \<Rightarrow> (Clk_t \<times> Request) list \<Rightarrow> 's \<Rightarrow> ((Clk_t \<times> Request) list \<times> 's) result" where
  "send_misses mem_send clk [] st = Inr ([], st)"
| "send_misses mem_send clk ((due, req) # rest) st =
     (if clk \<ge> due
      then bindR (mem_send req st) (\<lambda>(ok, req', st1).
           bindR (send_misses mem_send clk rest st1) (\<lambda>(kept, st2).
             Inr (if ok then kept else (due, req') # kept, st2)))
      else bindR (send_misses mem_send clk rest st) (\<lambda>(kept, st2). Inr ((due, req) # kept, st2)))"

fun serve_hits ::
  "(LogicalRequest \<Rightarrow> 's \<Rightarrow> 's result) \<Rightarrow> Clk_t \<Rightarrow> (Clk_t \<times> LogicalRequest) list \<Rightarrow> 's \<Rightarrow> ((Clk_t \<times> LogicalRequest) list \<times> 's) result" where
  "serve_hits complete clk [] st = Inr ([], st)"
| "serve_hits complete clk ((due, lr) # rest) st =
     (if clk \<ge> due
      then bindR (complete lr st) (\<lambda>st1. serve_hits complete clk rest st1)
      else bindR (serve_hits complete clk rest st) (\<lambda>(kept, st2). Inr ((due, lr) # kept, st2)))"

definition next_event :: "Clk_t \<Rightarrow> SimpleO3LLC \<Rightarrow> Clk_t" where
  "next_event clk c =
     (let dues = map fst (llc_miss_list c) @ map fst (llc_hit_list c)
      in if list_ex (\<lambda>d. d \<le> clk) dues then 0 else fold min dues (2 ^ 63 - 1))"

definition is_quiescent :: "SimpleO3LLC \<Rightarrow> bool result" where
  "is_quiescent c =
     (if s_logical_requests_live c \<noteq> int (card (llc_live_logical_ids c))
      then throw ''SimpleO3 LLC live-request accounting is inconsistent''
      else if llc_receive_requests c = [] \<and> llc_hit_list c = [] \<and> llc_live_logical_ids c \<noteq> {}
      then throw ''SimpleO3 LLC lost a live logical request''
      else if s_internal_writebacks_live c < 0 \<or> s_internal_writebacks_completed c > s_internal_writebacks_generated c \<or>
              s_internal_writebacks_live c + s_internal_writebacks_completed c \<noteq> s_internal_writebacks_generated c
      then throw ''SimpleO3 LLC internal-writeback accounting is inconsistent''
      else Inr (llc_miss_list c = [] \<and> llc_hit_list c = [] \<and> llc_mshrs c = [] \<and> llc_receive_requests c = [] \<and>
                llc_live_logical_ids c = {} \<and> s_internal_writebacks_live c = 0))"

definition LLC_finalize :: "SimpleO3LLC \<Rightarrow> unit result" where
  "LLC_finalize c =
     bindR (is_quiescent c) (\<lambda>q. if \<not> q then throw ''SimpleO3 finalized with live logical LLC requests'' else Inr ())"

section \<open>Saving and restoring the lines\<close>

text \<open>
  The rows of the file that \<^verbatim>\<open>serialize\<close> writes and \<^verbatim>\<open>deserialize\<close> reads: index, address, tag and
  dirty bit of a line. The order in which the sets are visited is a parameter.
\<close>

type_synonym row = "int \<times> Addr_t \<times> Addr_t \<times> bool"

definition serialize :: "int list \<Rightarrow> SimpleO3LLC \<Rightarrow> row list" where
  "serialize order c =
     concat (map (\<lambda>i. case llc_cache_sets c i of
                         None \<Rightarrow> []
                       | Some s \<Rightarrow> map (\<lambda>l. (i, l_addr l, l_tag l, l_dirty l)) s) order)"

definition deserialize_row :: "row \<Rightarrow> SimpleO3LLC \<Rightarrow> SimpleO3LLC" where
  "deserialize_row r c =
     (case r of (i, addr, tag, dirty) \<Rightarrow>
        let s = (case llc_cache_sets c i of None \<Rightarrow> [] | Some s \<Rightarrow> s)
        in c\<lparr>llc_cache_sets := (llc_cache_sets c)(i \<mapsto> s @ [\<lparr>l_addr = addr, l_tag = tag, l_dirty = dirty, l_ready = True\<rparr>])\<rparr>)"

definition deserialize :: "row list \<Rightarrow> SimpleO3LLC \<Rightarrow> SimpleO3LLC" where
  "deserialize rows c = fold deserialize_row rows c"

end
