(* ===== verification/O3_Core.thy ===== *)
theory O3_Core
  imports LLC
begin

text \<open>
  The out-of-order core of the SimpleO3 frontend,
  \<^verbatim>\<open>ramulator/frontend/impl/processor/simpleO3/core.h\<close> and \<^verbatim>\<open>core.cpp\<close>: the instruction trace, the
  instruction window (a ring buffer) and the tick that retires, inserts and sends requests to
  the cache. The criticality trace is output and left out. Translation is a parameter: it
  answers whether it could translate and returns the request with its new address.
\<close>

section \<open>Traces\<close>

record Inst =
  bubble_count :: int
  load_addr :: Addr_t
  store_addr :: Addr_t

record Trace =
  t_trace :: "Inst list"
  t_curr_trace_idx :: nat
  t_instruction_count :: int
  t_allow_wrap :: bool

definition inst_count :: "Inst \<Rightarrow> int" where
  "inst_count i = bubble_count i + (if load_addr i \<noteq> -1 then 1 else 0)"

text \<open>The checks on one parsed line; reading and splitting the file comes before.\<close>

definition add_inst :: "Inst \<Rightarrow> Trace \<Rightarrow> Trace result" where
  "add_inst i t =
     (if bubble_count i < 0 then throw ''Trace has a negative instruction bubble count''
      else if load_addr i < -1 then throw ''Trace has an invalid load address''
      else if store_addr i < -1 then throw ''Trace has an invalid store address''
      else if bubble_count i = 0 \<and> load_addr i = -1 then throw ''Trace contributes no instruction to the fixed ROI''
      else if t_instruction_count t > (2 ^ 64 - 1) - inst_count i then throw ''Trace instruction count overflows''
      else Inr (t\<lparr>t_trace := t_trace t @ [i], t_instruction_count := t_instruction_count t + inst_count i\<rparr>))"

definition Trace_new :: "Inst list \<Rightarrow> bool \<Rightarrow> Trace result" where
  "Trace_new is allow_wrap =
     bindR (foldR add_inst is \<lparr>t_trace = [], t_curr_trace_idx = 0, t_instruction_count = 0, t_allow_wrap = allow_wrap\<rparr>) (\<lambda>t.
       if t_trace t = [] then throw ''Trace contains no instruction records'' else Inr t)"

definition get_next_inst :: "Trace \<Rightarrow> (Inst \<times> Trace) result" where
  "get_next_inst t =
     (if t_curr_trace_idx t = length (t_trace t)
      then if \<not> t_allow_wrap t then throw ''SimpleO3 attempted to wrap a no-wrap input trace''
           else Inr (t_trace t ! 0, t\<lparr>t_curr_trace_idx := 1\<rparr>)
      else Inr (t_trace t ! t_curr_trace_idx t, t\<lparr>t_curr_trace_idx := Suc (t_curr_trace_idx t)\<rparr>))"

section \<open>The instruction window\<close>

record InstWindow =
  w_ipc :: nat
  w_depth :: nat
  w_load :: nat
  w_head_idx :: nat
  w_tail_idx :: nat
  w_ready_list :: "bool list"
  w_addr_list :: "Addr_t list"
  w_frontend_id_list :: "int list"

definition InstWindow_new :: "nat \<Rightarrow> nat \<Rightarrow> InstWindow" where
  "InstWindow_new ipc depth =
     \<lparr>w_ipc = ipc, w_depth = depth, w_load = 0, w_head_idx = 0, w_tail_idx = 0, w_ready_list = replicate depth False,
      w_addr_list = replicate depth (-1), w_frontend_id_list = replicate depth (-1)\<rparr>"

definition is_full :: "InstWindow \<Rightarrow> bool" where
  "is_full w \<longleftrightarrow> w_load w = w_depth w"

definition tail_ready :: "InstWindow \<Rightarrow> bool" where
  "tail_ready w \<longleftrightarrow> w_load w > 0 \<and> w_ready_list w ! w_tail_idx w"

text \<open>\<^verbatim>\<open>at\<close> throws when the index is out of range.\<close>

definition win_insert :: "bool \<Rightarrow> Addr_t \<Rightarrow> int \<Rightarrow> InstWindow \<Rightarrow> InstWindow result" where
  "win_insert ready addr frontend_id w =
     (if w_head_idx w \<ge> length (w_ready_list w) then throw ''out_of_range''
      else Inr (w\<lparr>w_ready_list := (w_ready_list w)[w_head_idx w := ready],
                 w_addr_list := (w_addr_list w)[w_head_idx w := addr],
                 w_frontend_id_list := (w_frontend_id_list w)[w_head_idx w := frontend_id],
                 w_head_idx := (w_head_idx w + 1) mod w_depth w, w_load := w_load w + 1\<rparr>))"

function retire_loop :: "nat \<Rightarrow> InstWindow \<Rightarrow> (nat \<times> InstWindow) result" where
  "retire_loop num_retired w =
     (if w_load w > 0 \<and> num_retired < w_ipc w
      then if w_tail_idx w \<ge> length (w_ready_list w) then throw ''out_of_range''
           else if \<not> w_ready_list w ! w_tail_idx w then Inr (num_retired, w)
           else retire_loop (num_retired + 1) (w\<lparr>w_tail_idx := (w_tail_idx w + 1) mod w_depth w, w_load := w_load w - 1\<rparr>)
      else Inr (num_retired, w))"
  by pat_completeness auto
termination
  by (relation "measure (\<lambda>(n, w). w_load w)") auto

declare retire_loop.simps [simp del]

definition retire :: "InstWindow \<Rightarrow> (nat \<times> InstWindow) result" where
  "retire w = (if w_load w = 0 then Inr (0, w) else retire_loop 0 w)"

fun ready_loop :: "int \<Rightarrow> nat \<Rightarrow> nat \<Rightarrow> InstWindow \<Rightarrow> bool \<times> InstWindow" where
  "ready_loop frontend_id index 0 w = (False, w)"
| "ready_loop frontend_id index (Suc left) w =
     (if w_frontend_id_list w ! index = frontend_id then (True, w\<lparr>w_ready_list := (w_ready_list w)[index := True]\<rparr>)
      else ready_loop frontend_id (if index + 1 = w_depth w then 0 else index + 1) left w)"

definition set_ready :: "int \<Rightarrow> InstWindow \<Rightarrow> (bool \<times> InstWindow) result" where
  "set_ready frontend_id w =
     (if frontend_id < 0 then throw ''SimpleO3 completion is missing its stable frontend identity''
      else if w_load w = 0 then Inr (False, w)
      else Inr (ready_loop frontend_id (w_tail_idx w) (w_load w) w))"

section \<open>The core\<close>

record SimpleO3Core =
  c_id :: int
  c_trace :: Trace
  c_window :: InstWindow
  c_num_bubbles :: int
  c_load_addr :: Addr_t
  c_writeback_addr :: Addr_t
  c_load_frontend_id :: int
  c_writeback_frontend_id :: int
  c_next_frontend_id :: int
  c_roi_issue_complete :: bool
  c_issue_current_writeback_after_roi :: bool
  c_num_expected_insts :: int
  c_last_mem_cycle :: Clk_t
  c_reached_expected_num_insts :: bool
  s_insts_issued :: int
  s_insts_retired :: int
  s_cycles_recorded :: int
  s_mem_access_cycles :: Clk_t

definition fetch_next_trace_inst :: "SimpleO3Core \<Rightarrow> SimpleO3Core result" where
  "fetch_next_trace_inst c =
     (if c_roi_issue_complete c then throw ''SimpleO3 attempted to fetch beyond its fixed instruction ROI''
      else bindR (get_next_inst (c_trace c)) (\<lambda>(inst, t).
        let n = c_next_frontend_id c;
            (lid, n1) = (if load_addr inst \<noteq> -1 then (n, n + 1) else (-1, n));
            (wid, n2) = (if store_addr inst \<noteq> -1 then (n1, n1 + 1) else (-1, n1))
        in Inr (c\<lparr>c_trace := t, c_num_bubbles := bubble_count inst, c_load_addr := load_addr inst,
                  c_writeback_addr := store_addr inst, c_load_frontend_id := lid, c_writeback_frontend_id := wid,
                  c_next_frontend_id := n2\<rparr>)))"

definition Core_new :: "int \<Rightarrow> nat \<Rightarrow> nat \<Rightarrow> int \<Rightarrow> Inst list \<Rightarrow> bool \<Rightarrow> SimpleO3Core result" where
  "Core_new core_id ipc depth num_expected_insts insts allow_wrap =
     bindR (Trace_new insts allow_wrap) (\<lambda>t.
       if \<not> allow_wrap \<and> num_expected_insts > t_instruction_count t
       then throw ''Trace supplies too few instructions for the fixed ROI with trace wrapping disabled''
       else fetch_next_trace_inst
         \<lparr>c_id = core_id, c_trace = t, c_window = InstWindow_new ipc depth, c_num_bubbles = 0, c_load_addr = -1,
          c_writeback_addr = -1, c_load_frontend_id = -1, c_writeback_frontend_id = -1, c_next_frontend_id = 0,
          c_roi_issue_complete = False, c_issue_current_writeback_after_roi = False,
          c_num_expected_insts = num_expected_insts, c_last_mem_cycle = 0, c_reached_expected_num_insts = False,
          s_insts_issued = 0, s_insts_retired = 0, s_cycles_recorded = 0, s_mem_access_cycles = 0\<rparr>)"

definition finish_issue_roi :: "bool \<Rightarrow> SimpleO3Core \<Rightarrow> SimpleO3Core result" where
  "finish_issue_roi keep_current_writeback c =
     (if s_insts_issued c \<noteq> c_num_expected_insts c
      then throw ''SimpleO3 fixed issue ROI ended at an inconsistent instruction count''
      else let keep = keep_current_writeback \<and> c_writeback_addr c \<noteq> -1
           in Inr (c\<lparr>c_roi_issue_complete := True, c_issue_current_writeback_after_roi := keep, c_num_bubbles := 0,
                     c_load_addr := -1, c_writeback_addr := (if keep then c_writeback_addr c else -1)\<rparr>))"

definition is_stalled :: "SimpleO3Core \<Rightarrow> bool" where
  "is_stalled c =
     (if c_roi_issue_complete c then \<not> (c_issue_current_writeback_after_roi c \<or> tail_ready (c_window c))
      else if \<not> is_full (c_window c) \<or> tail_ready (c_window c) then False
      else if c_num_bubbles c = 0 \<and> c_load_addr c = -1 \<and> c_writeback_addr c \<noteq> -1 then False
      else True)"

definition issue_roi_quiescent :: "SimpleO3Core \<Rightarrow> bool" where
  "issue_roi_quiescent c \<longleftrightarrow> c_roi_issue_complete c \<and> \<not> c_issue_current_writeback_after_roi c"

section \<open>One cycle\<close>

definition retire_stage :: "Clk_t \<Rightarrow> SimpleO3Core \<Rightarrow> SimpleO3Core result" where
  "retire_stage clk c =
     bindR (retire (c_window c)) (\<lambda>(n, w).
       let c1 = c\<lparr>c_window := w, s_insts_retired := s_insts_retired c + int n\<rparr>
       in Inr (if \<not> c_reached_expected_num_insts c1 \<and> s_insts_retired c1 \<ge> c_num_expected_insts c1
               then c1\<lparr>c_reached_expected_num_insts := True, s_cycles_recorded := clk\<rparr> else c1))"

text \<open>
  The loop over the bubbles; the flag says that the tick returns. \<^verbatim>\<open>num_inserted_insts\<close> is the
  second component.
\<close>

function bubble_loop :: "nat \<Rightarrow> SimpleO3Core \<Rightarrow> (bool \<times> nat \<times> SimpleO3Core) result" where
  "bubble_loop num_inserted c =
     (if c_num_bubbles c > 0
      then if num_inserted = w_ipc (c_window c) then Inr (True, num_inserted, c)
           else if is_full (c_window c) then Inr (True, num_inserted, c)
           else bindR (win_insert True (-1) (-1) (c_window c)) (\<lambda>w.
             let c1 = c\<lparr>c_window := w, s_insts_issued := s_insts_issued c + 1, c_num_bubbles := c_num_bubbles c - 1\<rparr>
             in if s_insts_issued c1 = c_num_expected_insts c1
                then bindR (finish_issue_roi False c1) (\<lambda>c2. Inr (True, num_inserted + 1, c2))
                else bubble_loop (num_inserted + 1) c1)
      else Inr (False, num_inserted, c))"
  by pat_completeness auto
termination
  by (relation "measure (\<lambda>(n, c). nat (c_num_bubbles c))") auto

declare bubble_loop.simps [simp del]

type_synonym 't translator = "Request \<Rightarrow> 't \<Rightarrow> (bool \<times> Request \<times> 't) result"

definition load_request :: "SimpleO3Core \<Rightarrow> Request" where
  "load_request c =
     (Request_callback (c_load_addr c) Type_Read (c_id c) (Some cb_core))\<lparr>req_frontend_id := c_load_frontend_id c\<rparr>"

definition writeback_request :: "SimpleO3Core \<Rightarrow> Request" where
  "writeback_request c =
     (Request_callback (c_writeback_addr c) Type_Write (c_id c) (Some cb_core))\<lparr>req_frontend_id := c_writeback_frontend_id c\<rparr>"

text \<open>Translation and the cache, as the core uses them: \<open>None\<close> when either refuses.\<close>

definition try_send ::
  "int \<Rightarrow> Clk_t \<Rightarrow> 't translator \<Rightarrow> Request \<Rightarrow> 't \<times> SimpleO3LLC \<Rightarrow> (Request option \<times> 't \<times> SimpleO3LLC) result" where
  "try_send tx_bytes clk translate req s =
     (case s of (tr, llc) \<Rightarrow>
        bindR (translate req tr) (\<lambda>(ok, req1, tr1).
          if \<not> ok then Inr (None, tr1, llc)
          else bindR (LLC_send tx_bytes clk req1 llc) (\<lambda>(sent, llc1). Inr (if sent then Some req1 else None, tr1, llc1))))"

definition writeback_stage ::
  "int \<Rightarrow> Clk_t \<Rightarrow> 't translator \<Rightarrow> SimpleO3Core \<times> 't \<times> SimpleO3LLC \<Rightarrow> (SimpleO3Core \<times> 't \<times> SimpleO3LLC) result" where
  "writeback_stage tx_bytes clk translate s =
     (case s of (c, e) \<Rightarrow>
        if c_writeback_addr c \<noteq> -1
        then bindR (try_send tx_bytes clk translate (writeback_request c) e) (\<lambda>(sent, e1).
             if sent = None then Inr (c, e1)
             else bindR (fetch_next_trace_inst (c\<lparr>c_writeback_addr := -1\<rparr>)) (\<lambda>c1. Inr (c1, e1)))
        else bindR (fetch_next_trace_inst c) (\<lambda>c1. Inr (c1, e)))"

definition load_stage ::
  "int \<Rightarrow> Clk_t \<Rightarrow> 't translator \<Rightarrow> nat \<Rightarrow> SimpleO3Core \<times> 't \<times> SimpleO3LLC \<Rightarrow> (SimpleO3Core \<times> 't \<times> SimpleO3LLC) result" where
  "load_stage tx_bytes clk translate num_inserted s =
     (case s of (c, e) \<Rightarrow>
        if c_load_addr c \<noteq> -1
        then if num_inserted = w_ipc (c_window c) then Inr (c, e)
             else if is_full (c_window c) then Inr (c, e)
             else bindR (try_send tx_bytes clk translate (load_request c) e) (\<lambda>(sent, e1).
               case sent of
                 None \<Rightarrow> Inr (c, e1)
               | Some req \<Rightarrow>
                   bindR (win_insert False (req_addr req) (req_frontend_id req) (c_window c)) (\<lambda>w.
                     let c1 = c\<lparr>c_window := w, s_insts_issued := s_insts_issued c + 1, c_load_addr := -1\<rparr>
                     in if s_insts_issued c1 = c_num_expected_insts c1
                        then bindR (finish_issue_roi True c1) (\<lambda>c2. Inr (c2, e1))
                        else if c_writeback_addr c1 \<noteq> -1 then Inr (c1, e1)
                        else writeback_stage tx_bytes clk translate (c1, e1)))
        else writeback_stage tx_bytes clk translate s)"

definition Core_tick ::
  "int \<Rightarrow> Clk_t \<Rightarrow> 't translator \<Rightarrow> SimpleO3Core \<times> 't \<times> SimpleO3LLC \<Rightarrow> (SimpleO3Core \<times> 't \<times> SimpleO3LLC) result" where
  "Core_tick tx_bytes clk translate s =
     (case s of (c0, e) \<Rightarrow>
        bindR (retire_stage clk c0) (\<lambda>c.
          if c_roi_issue_complete c
          then if \<not> c_issue_current_writeback_after_roi c then Inr (c, e)
               else bindR (try_send tx_bytes clk translate (writeback_request c) e) (\<lambda>(sent, e1).
                 if sent = None then Inr (c, e1)
                 else Inr (c\<lparr>c_writeback_addr := -1, c_issue_current_writeback_after_roi := False\<rparr>, e1))
          else bindR (bubble_loop 0 c) (\<lambda>(returned, num_inserted, c1).
            if returned then Inr (c1, e) else load_stage tx_bytes clk translate num_inserted (c1, e))))"

definition Core_receive :: "Request \<Rightarrow> SimpleO3Core \<Rightarrow> SimpleO3Core result" where
  "Core_receive req c =
     (if req_type_id req \<noteq> Type_Read \<and> req_type_id req \<noteq> Type_Write
      then throw ''SimpleO3 core received an unsupported logical request type''
      else if req_type_id req \<noteq> Type_Read then Inr c
      else bindR (set_ready (req_frontend_id req) (c_window c)) (\<lambda>(found, w).
        if \<not> found then throw ''SimpleO3 read completion does not match an in-flight ROB identity''
        else let c1 = c\<lparr>c_window := w\<rparr>
             in Inr (if req_arrive req \<noteq> -1 \<and> req_depart req > c_last_mem_cycle c1 \<and> \<not> c_reached_expected_num_insts c1
                     then c1\<lparr>s_mem_access_cycles := s_mem_access_cycles c1 + (req_depart req - max (c_last_mem_cycle c1) (req_arrive req)),
                             c_last_mem_cycle := req_depart req\<rparr>
                     else c1)))"

end
