(* ===== verification/LLC_Inv.thy ===== *)
theory LLC_Inv
  imports LLC
begin

text \<open>
  The invariant of the last-level cache and that every operation keeps it: sets are bounded
  with distinct tags, MSHRs and lines in flight are the same thing, every MSHR has a bucket of
  waiting requests, and the live identities are those of the waiting requests and the hits.
\<close>

section \<open>Positions in a sequence\<close>

lemma find_pos_Some: "find_pos P xs = Some i \<longleftrightarrow> i < length xs \<and> P (xs ! i) \<and> (\<forall>j < i. \<not> P (xs ! j))"
proof (induction xs arbitrary: i)
  case (Cons x xs)
  then show ?case by (cases i) (auto simp: nth_Cons split: nat.splits)
qed simp

lemma find_pos_None: "find_pos P xs = None \<longleftrightarrow> (\<forall>x \<in> set xs. \<not> P x)"
  by (induction xs) auto

lemma mset_erase_pos: "i < length xs \<Longrightarrow> mset xs = add_mset (xs ! i) (mset (erase_pos i xs))"
  unfolding erase_pos_def by (metis append_take_drop_id Cons_nth_drop_Suc mset_append mset.simps(2) union_mset_add_mset_right)

lemma length_erase_pos: "i < length xs \<Longrightarrow> length (erase_pos i xs) = length xs - 1"
  by (simp add: erase_pos_def)

lemma erase_pos_distinct:
  assumes i: "i < length xs" and d: "distinct (map f xs)"
  shows "distinct (map f (erase_pos i xs))" "set (erase_pos i xs) = {x \<in> set xs. f x \<noteq> f (xs ! i)}"
proof -
  have m: "mset xs = add_mset (xs ! i) (mset (erase_pos i xs))" by (rule mset_erase_pos [OF i])
  have "mset (map f xs) = mset (f (xs ! i) # map f (erase_pos i xs))"
    using arg_cong [OF m, of "image_mset f"] by simp
  with d have d': "distinct (f (xs ! i) # map f (erase_pos i xs))" by (metis mset_eq_imp_distinct_iff)
  then show "distinct (map f (erase_pos i xs))" by simp
  have "set xs = insert (xs ! i) (set (erase_pos i xs))" using arg_cong [OF m, of set_mset] by simp
  with d' show "set (erase_pos i xs) = {x \<in> set xs. f x \<noteq> f (xs ! i)}" by (auto simp: image_iff)
qed

section \<open>Buckets\<close>

lemma bucket_append:
  assumes "distinct (map fst al)" "map_of al k = Some rs"
  shows "fst ` set (AList.update k (rs @ [x]) al) = fst ` set al"
    "mset (concat (map snd (AList.update k (rs @ [x]) al))) = add_mset x (mset (concat (map snd al)))"
    "set (AList.update k (rs @ [x]) al) \<subseteq> insert (k, rs @ [x]) (set al)"
proof -
  have k: "k \<in> fst ` set al" using assms(2) by (force dest: map_of_SomeD)
  then show "fst ` set (AList.update k (rs @ [x]) al) = fst ` set al" by (auto simp: dom_update)
  show "set (AList.update k (rs @ [x]) al) \<subseteq> insert (k, rs @ [x]) (set al)"
    by (induction al) auto
  from assms show "mset (concat (map snd (AList.update k (rs @ [x]) al))) = add_mset x (mset (concat (map snd al)))"
    by (induction al) (auto split: if_splits)
qed

lemma bucket_new:
  assumes "k \<notin> fst ` set al"
  shows "AList.update k rs al = al @ [(k, rs)]"
  using assms by (induction al) auto

lemma bucket_delete:
  assumes "distinct (map fst al)" "map_of al k = Some rs"
  shows "fst ` set (AList.delete k al) = fst ` set al - {k}"
    "mset (concat (map snd al)) = mset rs + mset (concat (map snd (AList.delete k al)))"
    "set (AList.delete k al) \<subseteq> set al" "distinct (map fst (AList.delete k al))"
proof -
  show "fst ` set (AList.delete k al) = fst ` set al - {k}" by (auto simp: AList.delete_eq)
  show "set (AList.delete k al) \<subseteq> set al" by (auto simp: AList.delete_eq)
  show "distinct (map fst (AList.delete k al))" using assms(1) by (rule distinct_delete)
  from assms show "mset (concat (map snd al)) = mset rs + mset (concat (map snd (AList.delete k al)))"
  proof (induction al)
    case (Cons a al)
    show ?case
    proof (cases "fst a = k")
      case True
      with Cons.prems have "k \<notin> fst ` set al" "snd a = rs" by auto
      moreover from this(1) have "AList.delete k al = al" by (force simp: AList.delete_eq filter_id_conv)
      ultimately show ?thesis using True by (cases a) (simp add: AList.delete_eq)
    next
      case False
      with Cons show ?thesis by (cases a) (simp add: AList.delete_eq)
    qed
  qed simp
qed

section \<open>Geometry\<close>

definition geometry_ok :: "LLCConfig \<Rightarrow> bool" where
  "geometry_ok g \<longleftrightarrow>
     llc_linesize_bytes g = 2 ^ llc_index_offset g \<and> llc_index_offset g \<le> llc_tag_offset g \<and>
     llc_index_mask g = 2 ^ (llc_tag_offset g - llc_index_offset g) - 1 \<and>
     0 < llc_associativity g \<and> 0 < llc_num_mshrs g \<and> 0 \<le> llc_latency g"

lemma and_not_mask: "(a::int) AND NOT (mask n) = push_bit n (drop_bit n a)"
  by (rule bit_eqI) (auto simp: bit_simps)

lemma align_eq: "geometry_ok g \<Longrightarrow> align g a = (a div 2 ^ llc_index_offset g) * 2 ^ llc_index_offset g"
  by (simp add: align_def geometry_ok_def and_not_mask push_bit_eq_mult drop_bit_eq_div flip: mask_eq_exp_minus_1)

lemma get_index_eq:
  "geometry_ok g \<Longrightarrow> get_index g a = (a div 2 ^ llc_index_offset g) mod 2 ^ (llc_tag_offset g - llc_index_offset g)"
  by (simp add: get_index_def geometry_ok_def drop_bit_eq_div take_bit_eq_mod flip: mask_eq_exp_minus_1 take_bit_eq_mask)

lemma get_tag_eq:
  assumes "geometry_ok g"
  shows "get_tag g a = (a div 2 ^ llc_index_offset g) div 2 ^ (llc_tag_offset g - llc_index_offset g)"
proof -
  have "(2::int) ^ llc_tag_offset g = 2 ^ llc_index_offset g * 2 ^ (llc_tag_offset g - llc_index_offset g)"
    using assms by (simp add: geometry_ok_def flip: power_add)
  then show ?thesis by (simp add: get_tag_def drop_bit_eq_div zdiv_zmult2_eq)
qed

text \<open>Two addresses lie in one line exactly when they agree on set and tag.\<close>

lemma same_line:
  assumes "geometry_ok g"
  shows "align g a = align g b \<longleftrightarrow> get_index g a = get_index g b \<and> get_tag g a = get_tag g b"
proof -
  let ?x = "a div 2 ^ llc_index_offset g" and ?y = "b div 2 ^ llc_index_offset g" and ?m = "2 ^ (llc_tag_offset g - llc_index_offset g)"
  have "?x = ?y \<longleftrightarrow> ?x mod ?m = ?y mod ?m \<and> ?x div ?m = ?y div ?m" by (metis div_mult_mod_eq)
  then show ?thesis using assms by (simp add: align_eq get_index_eq get_tag_eq)
qed

section \<open>Cache sets\<close>

definition set_ok :: "LLCConfig \<Rightarrow> int \<Rightarrow> Line list \<Rightarrow> bool" where
  "set_ok g i s \<longleftrightarrow>
     int (length s) \<le> llc_associativity g \<and> distinct (map l_tag s) \<and>
     (\<forall>l \<in> set s. get_index g (l_addr l) = i \<and> get_tag g (l_addr l) = l_tag l)"

text \<open>The tags in flight.\<close>

definition in_flight :: "Line list \<Rightarrow> Addr_t set" where
  "in_flight s = l_tag ` {l \<in> set s. \<not> l_ready l}"

lemma in_flight_Nil [simp]: "in_flight [] = {}"
  by (simp add: in_flight_def)

lemma in_flight_Cons [simp]: "in_flight (l # s) = (if l_ready l then in_flight s else insert (l_tag l) (in_flight s))"
  by (auto simp: in_flight_def)

lemma in_flight_snoc [simp]: "in_flight (s @ [l]) = (if l_ready l then in_flight s else insert (l_tag l) (in_flight s))"
  by (auto simp: in_flight_def)

lemma in_flight_erase:
  assumes "distinct (map l_tag s)" "v < length s" "l_ready (s ! v)"
  shows "in_flight (erase_pos v s) = in_flight s"
proof -
  have "l = s ! v" if "l \<in> set s" "l_tag l = l_tag (s ! v)" for l
    using assms(1,2) that by (metis distinct_map inj_on_contraD nth_mem)
  then show ?thesis using assms(3) unfolding in_flight_def erase_pos_distinct(2) [OF assms(2,1)] by force
qed

lemma set_ok_erase:
  assumes "set_ok g i s" "v < length s"
  shows "set_ok g i (erase_pos v s)" "int (length (erase_pos v s)) < llc_associativity g"
  using assms erase_pos_distinct [OF assms(2), of l_tag] by (auto simp: set_ok_def length_erase_pos)

lemma set_ok_snoc:
  assumes "set_ok g i s" "int (length s) < llc_associativity g" "l_tag l \<notin> l_tag ` set s" "get_index g (l_addr l) = i" "get_tag g (l_addr l) = l_tag l"
  shows "set_ok g i (s @ [l])"
  using assms by (auto simp: set_ok_def)

definition mapped :: "Addr_t \<Rightarrow> (Line \<Rightarrow> Line) \<Rightarrow> Line list \<Rightarrow> Line list" where
  "mapped t f s = map (\<lambda>l. if l_tag l = t then f l else l) s"

lemma set_ok_mapped:
  assumes "set_ok g i s" "\<And>l. l_tag (f l) = l_tag l" "\<And>l. l_addr (f l) = l_addr l"
  shows "set_ok g i (mapped t f s)"
proof -
  have "map l_tag (mapped t f s) = map l_tag s" using assms(2) by (simp add: mapped_def)
  moreover have "\<forall>l \<in> set (mapped t f s). get_index g (l_addr l) = i \<and> get_tag g (l_addr l) = l_tag l"
    using assms by (auto simp: set_ok_def mapped_def)
  ultimately show ?thesis using assms(1) by (simp add: set_ok_def) (simp add: mapped_def)
qed

lemma in_flight_mapped:
  "(\<And>l. l_tag (f l) = l_tag l) \<Longrightarrow> (\<And>l. l_ready (f l) = l_ready l) \<Longrightarrow> in_flight (mapped t f s) = in_flight s"
  "in_flight (mapped t (\<lambda>l. l\<lparr>l_ready := True\<rparr>) s) = in_flight s - {t}"
  by (induction s) (auto simp: mapped_def)

section \<open>The invariant\<close>

definition lines :: "(int \<rightharpoonup> Line list) \<Rightarrow> int \<Rightarrow> Line list" where
  "lines m i = (case m i of None \<Rightarrow> [] | Some s \<Rightarrow> s)"

lemma lines_upd [simp]: "lines (m(i \<mapsto> s)) = (lines m)(i := s)"
  by (auto simp: lines_def fun_eq_iff)

definition flights :: "(int \<Rightarrow> Line list) \<Rightarrow> (int \<times> Addr_t) set" where
  "flights L = (SIGMA i:UNIV. in_flight (L i))"

definition mshrs_ok :: "LLCConfig \<Rightarrow> (Addr_t \<times> int \<times> Addr_t) list \<Rightarrow> (int \<times> Addr_t) set \<Rightarrow> bool" where
  "mshrs_ok g ms F \<longleftrightarrow>
     distinct (map snd ms) \<and> int (length ms) \<le> llc_num_mshrs g \<and>
     (\<forall>m \<in> set ms. snd m = (get_index g (fst m), get_tag g (fst m))) \<and> snd ` set ms = F"

lemma mshrs_okD:
  assumes "mshrs_ok g ms F"
  shows "distinct (map snd ms)" "int (length ms) \<le> llc_num_mshrs g" "snd ` set ms = F"
    "\<And>m. m \<in> set ms \<Longrightarrow> snd m = (get_index g (fst m), get_tag g (fst m))"
  using assms unfolding mshrs_ok_def by blast+

definition buckets_ok :: "Addr_t set \<Rightarrow> (Addr_t \<times> LogicalRequest list) list \<Rightarrow> bool" where
  "buckets_ok A bs \<longleftrightarrow>
     distinct (map fst bs) \<and> fst ` set bs = A \<and> (\<forall>b \<in> set bs. snd b \<noteq> [] \<and> (\<forall>r \<in> set (snd b). lr_path r \<noteq> Path_Hit))"

abbreviation key_of :: "LogicalRequest \<Rightarrow> LogicalKey" where
  "key_of r \<equiv> logical_key (lr_req r)"

abbreviation hit_requests :: "(Clk_t \<times> LogicalRequest) list \<Rightarrow> LogicalRequest multiset" where
  "hit_requests hs \<equiv> mset (map snd hs)"

abbreviation bucket_requests :: "(Addr_t \<times> LogicalRequest list) list \<Rightarrow> LogicalRequest multiset" where
  "bucket_requests bs \<equiv> mset (concat (map snd bs))"

text \<open>The live identities and their count, against the requests that wait.\<close>

definition live_ok :: "Clk_t \<Rightarrow> LogicalRequest multiset \<Rightarrow> LogicalKey set \<Rightarrow> int \<Rightarrow> bool" where
  "live_ok clk R ids n \<longleftrightarrow>
     finite ids \<and> image_mset key_of R = mset_set ids \<and> n = int (card ids) \<and> (\<forall>r \<in># R. lr_arrive r \<le> clk)"

definition writebacks_ok :: "SimpleO3LLC \<Rightarrow> bool" where
  "writebacks_ok c \<longleftrightarrow>
     0 \<le> s_internal_writebacks_live c \<and>
     s_internal_writebacks_live c + s_internal_writebacks_completed c = s_internal_writebacks_generated c"

text \<open>The requests \<open>X\<close> have left the queues and are about to be completed.\<close>

definition llc_inv :: "Clk_t \<Rightarrow> LogicalRequest multiset \<Rightarrow> SimpleO3LLC \<Rightarrow> bool" where
  "llc_inv clk X c \<longleftrightarrow>
     geometry_ok (llc_cfg c) \<and> (\<forall>i. set_ok (llc_cfg c) i (lines (llc_cache_sets c) i)) \<and>
     mshrs_ok (llc_cfg c) (llc_mshrs c) (flights (lines (llc_cache_sets c))) \<and>
     buckets_ok (fst ` set (llc_mshrs c)) (llc_receive_requests c) \<and>
     live_ok clk (X + hit_requests (llc_hit_list c) + bucket_requests (llc_receive_requests c)) (llc_live_logical_ids c) (s_logical_requests_live c) \<and>
     (\<forall>h \<in> set (llc_hit_list c). lr_path (snd h) = Path_Hit) \<and> writebacks_ok c"

lemma live_ok_add:
  assumes "live_ok clk R ids n" "key_of r \<notin> ids" "lr_arrive r \<le> clk"
  shows "live_ok clk (add_mset r R) (insert (key_of r) ids) (n + 1)"
  using assms by (simp add: live_ok_def)

lemma live_ok_remove:
  assumes "live_ok clk (add_mset r R) ids n"
  shows "key_of r \<in> ids" "0 < n" "lr_arrive r \<le> clk" "live_ok clk R (ids - {key_of r}) (n - 1)"
proof -
  from assms have f: "finite ids" and e: "add_mset (key_of r) (image_mset key_of R) = mset_set ids" and n: "n = int (card ids)"
    by (simp_all add: live_ok_def)
  from e f show k: "key_of r \<in> ids" by (metis elem_mset_set union_single_eq_member)
  with f n show "0 < n" by (auto simp: card_gt_0_iff)
  from assms show "lr_arrive r \<le> clk" by (simp add: live_ok_def)
  have "image_mset key_of R = mset_set (ids - {key_of r})" using e f k by (metis mset_set.remove add_mset_remove_trivial)
  with assms f n k show "live_ok clk R (ids - {key_of r}) (n - 1)"
    by (simp add: live_ok_def card_Diff_singleton) (metis One_nat_def Suc_leI card_gt_0_iff empty_iff of_nat_1 of_nat_diff)
qed

lemma live_ok_later: "live_ok clk R ids n \<Longrightarrow> clk \<le> clk' \<Longrightarrow> live_ok clk' R ids n"
  by (force simp: live_ok_def)

section \<open>Small steps\<close>

lemma mem_flights [simp]: "(i, t) \<in> flights L \<longleftrightarrow> t \<in> in_flight (L i)"
  by (simp add: flights_def)

lemma flights_upd:
  "in_flight s = in_flight (L i) \<Longrightarrow> flights (L(i := s)) = flights L"
  "in_flight s = insert t (in_flight (L i)) \<Longrightarrow> flights (L(i := s)) = insert (i, t) (flights L)"
  "in_flight s = in_flight (L i) - {t} \<Longrightarrow> flights (L(i := s)) = flights L - {(i, t)}"
  by (rule set_eqI, simp add: split_paired_all)+

lemma get_set_lines: "get_set c addr = lines (llc_cache_sets c) (get_index (llc_cfg c) addr)"
  by (simp add: get_set_def lines_def)

lemma lines_update_line:
  "lines (\<lambda>i. if i = a then map_option (map (\<lambda>l. if l_tag l = t then f l else l)) (m i) else m i) =
     (lines m)(a := mapped t f (lines m a))"
  by (auto simp: lines_def mapped_def fun_eq_iff split: option.splits)

lemma enqueue_miss_frame:
  "enqueue_miss tx clk req c =
     c\<lparr>llc_miss_list := llc_miss_list (enqueue_miss tx clk req c), llc_split_groups := llc_split_groups (enqueue_miss tx clk req c)\<rparr>"
  by (simp add: enqueue_miss_def Let_def)

lemma llc_inv_frame [simp]:
  "llc_inv clk X (c\<lparr>llc_miss_list := ms\<rparr>) = llc_inv clk X c" "llc_inv clk X (c\<lparr>llc_split_groups := gs\<rparr>) = llc_inv clk X c"
  "llc_inv clk X (c\<lparr>s_llc_mshr_unavailable := n\<rparr>) = llc_inv clk X c"
  by (simp_all add: llc_inv_def writebacks_ok_def)

lemma enqueue_miss_inv [simp]: "llc_inv clk X (enqueue_miss tx clk' req c) = llc_inv clk X c"
  by (subst enqueue_miss_frame) simp

lemma counted_inv [simp]:
  "llc_inv clk X (count_access req c) = llc_inv clk X c" "llc_inv clk X (count_miss req c) = llc_inv clk X c"
  by (simp_all add: count_access_def count_miss_def llc_inv_def writebacks_ok_def)

lemma counted_frame [simp]:
  "llc_cfg (count_access req c) = llc_cfg c" "llc_cfg (count_miss req c) = llc_cfg c"
  "llc_cache_sets (count_access req c) = llc_cache_sets c" "llc_cache_sets (count_miss req c) = llc_cache_sets c"
  "llc_live_logical_ids (count_access req c) = llc_live_logical_ids c" "llc_live_logical_ids (count_miss req c) = llc_live_logical_ids c"
  by (simp_all add: count_access_def count_miss_def)

lemma get_set_inserted:
  "llc_inv clk X (put_set addr (get_set c addr) c) = llc_inv clk X c" "lines (llc_cache_sets (put_set addr (get_set c addr) c)) = lines (llc_cache_sets c)"
  by (simp_all add: put_set_def get_set_lines llc_inv_def writebacks_ok_def)

lemma put_set_frame [simp]:
  "llc_cfg (put_set addr s c) = llc_cfg c" "llc_mshrs (put_set addr s c) = llc_mshrs c"
  "llc_receive_requests (put_set addr s c) = llc_receive_requests c" "llc_hit_list (put_set addr s c) = llc_hit_list c"
  "llc_live_logical_ids (put_set addr s c) = llc_live_logical_ids c" "s_logical_requests_live (put_set addr s c) = s_logical_requests_live c"
  "writebacks_ok (put_set addr s c) = writebacks_ok c"
  "lines (llc_cache_sets (put_set addr s c)) = (lines (llc_cache_sets c))(get_index (llc_cfg c) addr := s)"
  by (simp_all add: put_set_def writebacks_ok_def)

lemma begin_logical_request_ok:
  assumes "logical_key req \<notin> llc_live_logical_ids c"
  obtains lr c' where "begin_logical_request clk req ty path c = Inr (lr, c')" "lr_req lr = req" "lr_arrive lr = clk" "lr_path lr = path"
    "llc_cfg c' = llc_cfg c" "llc_cache_sets c' = llc_cache_sets c" "llc_mshrs c' = llc_mshrs c"
    "llc_receive_requests c' = llc_receive_requests c" "llc_hit_list c' = llc_hit_list c"
    "llc_live_logical_ids c' = insert (logical_key req) (llc_live_logical_ids c)"
    "s_logical_requests_live c' = s_logical_requests_live c + 1" "writebacks_ok c' = writebacks_ok c"
  using assms that by (simp add: begin_logical_request_def writebacks_ok_def)

section \<open>Requests\<close>

lemma LLC_hit_inv:
  assumes inv: "llc_inv clk X c" and new: "logical_key req \<notin> llc_live_logical_ids c"
    and h: "check_set_hit c (get_set c (req_addr req)) (req_addr req) = Some i"
  shows "\<exists>c'. LLC_hit clk req i c = Inr c' \<and> llc_inv clk X c'"
proof -
  let ?g = "llc_cfg c" and ?s = "get_set c (req_addr req)" and ?i = "get_index (llc_cfg c) (req_addr req)"
  let ?l = "\<lparr>l_addr = req_addr req, l_tag = get_tag ?g (req_addr req), l_dirty = l_dirty (?s ! i) \<or> req_type_id req = Type_Write, l_ready = True\<rparr>"
  from h have i: "i < length ?s" "l_tag (?s ! i) = get_tag ?g (req_addr req)" "l_ready (?s ! i)"
    by (auto simp: check_set_hit_def find_pos_Some split: option.splits if_splits)
  from inv have ok: "set_ok ?g ?i ?s" by (simp add: llc_inv_def get_set_lines)
  note e = set_ok_erase [OF ok i(1)]
  from ok have d: "distinct (map l_tag ?s)" by (simp add: set_ok_def)
  have "l_tag ?l \<notin> l_tag ` set (erase_pos i ?s)" unfolding erase_pos_distinct(2) [OF i(1) d] i(2) by auto
  from set_ok_snoc [OF e this] have new_set: "set_ok ?g ?i (erase_pos i ?s @ [?l])" by simp
  have fl: "in_flight (erase_pos i ?s @ [?l]) = in_flight ?s" using in_flight_erase [OF d i(1,3)] by simp
  let ?c = "put_set (req_addr req) (erase_pos i ?s @ [?l]) c"
  have "logical_key req \<notin> llc_live_logical_ids ?c" using new by (simp add: put_set_def)
  then obtain lr c1 where
    b: "begin_logical_request clk req (req_type_id req) Path_Hit ?c = Inr (lr, c1)" and r: "lr_req lr = req" "lr_arrive lr = clk" "lr_path lr = Path_Hit"
    and f: "llc_cfg c1 = llc_cfg ?c" "llc_cache_sets c1 = llc_cache_sets ?c" "llc_mshrs c1 = llc_mshrs ?c"
      "llc_receive_requests c1 = llc_receive_requests ?c" "llc_hit_list c1 = llc_hit_list ?c"
      "llc_live_logical_ids c1 = insert (logical_key req) (llc_live_logical_ids ?c)"
      "s_logical_requests_live c1 = s_logical_requests_live ?c + 1" "writebacks_ok c1 = writebacks_ok ?c"
    by (rule begin_logical_request_ok)
  have live: "live_ok clk (add_mset lr (X + hit_requests (llc_hit_list c) + bucket_requests (llc_receive_requests c)))
      (insert (logical_key req) (llc_live_logical_ids c)) (s_logical_requests_live c + 1)"
    using live_ok_add [of clk _ "llc_live_logical_ids c" _ lr] inv new r by (simp add: llc_inv_def)
  have L: "lines (llc_cache_sets c1) = (lines (llc_cache_sets c))(?i := erase_pos i ?s @ [?l])" by (simp add: f(2))
  have S: "\<forall>j. set_ok ?g j (lines (llc_cache_sets c1) j)" using inv new_set by (simp add: L llc_inv_def)
  have F: "flights (lines (llc_cache_sets c1)) = flights (lines (llc_cache_sets c))"
    unfolding L by (rule flights_upd(1)) (use fl in \<open>simp add: get_set_lines\<close>)
  have "llc_inv clk X (c1\<lparr>llc_hit_list := llc_hit_list c1 @ [(clk + llc_latency (llc_cfg c1), lr)]\<rparr>)"
    using inv S live r(3) f(1,3-8) by (simp add: llc_inv_def F) (simp add: writebacks_ok_def)
  with b show ?thesis by (simp add: LLC_hit_def Let_def)
qed

lemma update_line_frame [simp]:
  "llc_cfg (update_line p f c) = llc_cfg c" "llc_mshrs (update_line p f c) = llc_mshrs c"
  "llc_receive_requests (update_line p f c) = llc_receive_requests c" "llc_hit_list (update_line p f c) = llc_hit_list c"
  "llc_live_logical_ids (update_line p f c) = llc_live_logical_ids c" "s_logical_requests_live (update_line p f c) = s_logical_requests_live c"
  "writebacks_ok (update_line p f c) = writebacks_ok c"
  "lines (llc_cache_sets (update_line p f c)) = (lines (llc_cache_sets c))(fst p := mapped (snd p) f (lines (llc_cache_sets c) (fst p)))"
  by (simp_all add: update_line_def writebacks_ok_def lines_update_line)

lemma dirty_line_inv:
  fixes d :: "Line \<Rightarrow> bool"
  shows "llc_inv clk X c \<Longrightarrow> llc_inv clk X (update_line p (\<lambda>l. l\<lparr>l_dirty := d l\<rparr>) c)"
  by (simp add: llc_inv_def set_ok_mapped flights_upd(1) in_flight_mapped(1))

lemma LLC_merge_inv:
  assumes inv: "llc_inv clk X c" and new: "logical_key req \<notin> llc_live_logical_ids c" and m: "m < length (llc_mshrs c)"
  shows "\<exists>c'. LLC_merge clk req ty dirty m c = Inr c' \<and> llc_inv clk X c'"
proof -
  obtain owner p where op: "llc_mshrs c ! m = (owner, p)" by (rule prod.exhaust)
  let ?b = "llc_receive_requests c"
  from inv have bd: "distinct (map fst ?b)" and bk: "fst ` set ?b = fst ` set (llc_mshrs c)"
    and bp: "\<forall>b \<in> set ?b. snd b \<noteq> [] \<and> (\<forall>r \<in> set (snd b). lr_path r \<noteq> Path_Hit)" by (simp_all add: llc_inv_def buckets_ok_def)
  from m op have "owner \<in> fst ` set (llc_mshrs c)" by (metis fst_conv imageI nth_mem)
  with bk obtain rs where rs: "map_of ?b owner = Some rs" by (metis map_of_eq_None_iff option.exhaust)
  obtain lr c1 where
    b: "begin_logical_request clk req ty Path_MSHRMerge c = Inr (lr, c1)" and r: "lr_req lr = req" "lr_arrive lr = clk" "lr_path lr = Path_MSHRMerge"
    and f: "llc_cfg c1 = llc_cfg c" "llc_cache_sets c1 = llc_cache_sets c" "llc_mshrs c1 = llc_mshrs c"
      "llc_receive_requests c1 = ?b" "llc_hit_list c1 = llc_hit_list c"
      "llc_live_logical_ids c1 = insert (logical_key req) (llc_live_logical_ids c)"
      "s_logical_requests_live c1 = s_logical_requests_live c + 1" "writebacks_ok c1 = writebacks_ok c"
    by (rule begin_logical_request_ok [OF new])
  let ?b' = "AList.update owner (rs @ [lr]) ?b"
  note ap = bucket_append [OF bd rs, of lr]
  have "\<forall>b \<in> set ?b'. snd b \<noteq> [] \<and> (\<forall>q \<in> set (snd b). lr_path q \<noteq> Path_Hit)"
    using ap(3) bp map_of_SomeD [OF rs] r(3) by fastforce
  then have "buckets_ok (fst ` set (llc_mshrs c)) ?b'" using bd bk ap(1) by (simp add: buckets_ok_def distinct_update)
  moreover have "live_ok clk (X + hit_requests (llc_hit_list c) + bucket_requests ?b') (insert (logical_key req) (llc_live_logical_ids c))
      (s_logical_requests_live c + 1)"
    using live_ok_add [of clk _ "llc_live_logical_ids c" _ lr] inv new r ap(2) by (simp add: llc_inv_def)
  ultimately have "llc_inv clk X (c1\<lparr>llc_receive_requests := ?b'\<rparr>)"
    using inv f by (simp add: llc_inv_def) (simp add: writebacks_ok_def)
  with b op rs f(4) dirty_line_inv [of clk X "c1\<lparr>llc_receive_requests := ?b'\<rparr>" p "\<lambda>l. dirty \<or> l_dirty l"] show ?thesis
    by (simp add: LLC_merge_def)
qed

lemma evict_line_inv:
  assumes inv: "llc_inv clk X c" and v: "v < length (get_set c addr)" "l_ready (get_set c addr ! v)"
  shows "llc_inv clk X (evict_line tx clk' addr v c)"
    "llc_cfg (evict_line tx clk' addr v c) = llc_cfg c" "llc_mshrs (evict_line tx clk' addr v c) = llc_mshrs c"
    "llc_receive_requests (evict_line tx clk' addr v c) = llc_receive_requests c"
    "llc_live_logical_ids (evict_line tx clk' addr v c) = llc_live_logical_ids c"
    "get_set (evict_line tx clk' addr v c) addr = erase_pos v (get_set c addr)"
proof -
  let ?s = "get_set c addr" and ?i = "get_index (llc_cfg c) addr"
  let ?c1 = "c\<lparr>s_llc_eviction := s_llc_eviction c + 1\<rparr>"
  let ?c2 = "if l_dirty (?s ! v) then enqueue_miss tx clk' (writeback_of c (?s ! v))
      (?c1\<lparr>s_internal_writebacks_generated := s_internal_writebacks_generated c + 1,
          s_internal_writebacks_live := s_internal_writebacks_live c + 1\<rparr>) else ?c1"
  have e: "evict_line tx clk' addr v c = put_set addr (erase_pos v ?s) ?c2" by (simp add: evict_line_def Let_def)
  have f: "llc_cfg ?c2 = llc_cfg c" "llc_cache_sets ?c2 = llc_cache_sets c" "llc_mshrs ?c2 = llc_mshrs c"
    "llc_receive_requests ?c2 = llc_receive_requests c" "llc_live_logical_ids ?c2 = llc_live_logical_ids c"
    "llc_hit_list ?c2 = llc_hit_list c" "s_logical_requests_live ?c2 = s_logical_requests_live c"
    by (subst enqueue_miss_frame, simp)+
  have w: "writebacks_ok ?c2" using inv by (subst enqueue_miss_frame) (simp add: llc_inv_def writebacks_ok_def)
  from inv have ok: "set_ok (llc_cfg c) ?i ?s" by (simp add: llc_inv_def get_set_lines)
  have "set_ok (llc_cfg c) j (((lines (llc_cache_sets c))(?i := erase_pos v ?s)) j)" for j
    using inv set_ok_erase(1) [OF ok v(1)] by (simp add: llc_inv_def)
  moreover have "flights ((lines (llc_cache_sets c))(?i := erase_pos v ?s)) = flights (lines (llc_cache_sets c))"
    by (rule flights_upd(1)) (use in_flight_erase [OF _ v] ok in \<open>simp add: set_ok_def get_set_lines\<close>)
  ultimately show "llc_inv clk X (evict_line tx clk' addr v c)" using inv w unfolding e by (simp add: llc_inv_def f)
  show "llc_cfg (evict_line tx clk' addr v c) = llc_cfg c" "llc_mshrs (evict_line tx clk' addr v c) = llc_mshrs c"
    "llc_receive_requests (evict_line tx clk' addr v c) = llc_receive_requests c"
    "llc_live_logical_ids (evict_line tx clk' addr v c) = llc_live_logical_ids c"
    by (simp_all add: e f)
  show "get_set (evict_line tx clk' addr v c) addr = erase_pos v ?s"
    by (simp only: e get_set_lines put_set_frame f) simp
qed

lemma mshrs_ok_add:
  assumes ok: "mshrs_ok g ms F" and p: "p = (get_index g a, get_tag g a)" "p \<notin> F" and n: "int (length ms) < llc_num_mshrs g"
  shows "mshrs_ok g (ms @ [(a, p)]) (insert p F)"
proof -
  note o = mshrs_okD [OF ok]
  from o(3) p(2) have "p \<notin> snd ` set ms" by simp
  with o(1) have "distinct (map snd (ms @ [(a, p)]))" by simp
  moreover have "snd ` set (ms @ [(a, p)]) = insert p F" using o(3) by simp
  moreover have "\<forall>m \<in> set (ms @ [(a, p)]). snd m = (get_index g (fst m), get_tag g (fst m))" using o(4) p(1) by simp
  ultimately show ?thesis using n unfolding mshrs_ok_def by simp
qed

text \<open>Placing a new line: the line, its MSHR and its bucket appear together.\<close>

lemma LLC_place_inv:
  assumes inv: "llc_inv clk X c" and new: "logical_key req \<notin> llc_live_logical_ids c"
    and tag: "get_tag (llc_cfg c) (req_addr req) \<notin> l_tag ` set (get_set c (req_addr req))"
    and room: "int (length (get_set c (req_addr req))) < llc_associativity (llc_cfg c)"
      "int (length (llc_mshrs c)) < llc_num_mshrs (llc_cfg c)" "req_addr req \<notin> fst ` set (llc_mshrs c)"
    and a: "allocate_line tx clk (req_addr req) c0 = Inr (Some (push_line (req_addr req) c))"
  shows "\<exists>c'. LLC_miss tx clk req ty dirty c0 = Inr c' \<and> llc_inv clk X c'"
proof -
  let ?g = "llc_cfg c" and ?a = "req_addr req" and ?s = "get_set c (req_addr req)" and ?L = "lines (llc_cache_sets c)"
  let ?i = "get_index ?g ?a" and ?t = "get_tag ?g ?a" and ?bs = "llc_receive_requests c"
  let ?c2 = "update_line (?i, ?t) (\<lambda>l. l\<lparr>l_dirty := dirty\<rparr>) (push_line ?a c)"
  let ?c3 = "?c2\<lparr>llc_mshrs := llc_mshrs ?c2 @ [(?a, ?i, ?t)]\<rparr>"
  from inv have ok: "set_ok ?g ?i ?s" and gok: "geometry_ok ?g" and wb: "writebacks_ok c"
    and mo: "mshrs_ok ?g (llc_mshrs c) (flights ?L)" and bo: "buckets_ok (fst ` set (llc_mshrs c)) ?bs"
    and hits: "\<forall>h \<in> set (llc_hit_list c). lr_path (snd h) = Path_Hit"
    by (simp_all add: llc_inv_def get_set_lines)
  have nb: "?a \<notin> fst ` set ?bs" using room(3) bo by (simp add: buckets_ok_def)
  let ?l = "\<lparr>l_addr = ?a, l_tag = ?t, l_dirty = False, l_ready = False\<rparr>" and ?f = "\<lambda>l. l\<lparr>l_dirty := dirty\<rparr>"
  define s' where "s' = mapped ?t ?f (?s @ [?l])"
  have push: "push_line ?a c = put_set ?a (?s @ [?l]) c" by (simp add: push_line_def)
  have "set_ok ?g ?i (?s @ [?l])" by (rule set_ok_snoc [OF ok room(1)]) (use tag in simp_all)
  then have so: "set_ok ?g ?i s'" unfolding s'_def by (rule set_ok_mapped) simp_all
  have fl: "in_flight s' = insert ?t (in_flight ?s)" unfolding s'_def by (subst in_flight_mapped(1)) simp_all
  have L: "lines (llc_cache_sets ?c2) = ?L(?i := s')" by (simp add: push s'_def)
  have S: "set_ok ?g j ((?L(?i := s')) j)" for j using inv so by (simp add: llc_inv_def)
  have F: "flights (?L(?i := s')) = insert (?i, ?t) (flights ?L)" by (rule flights_upd(2)) (use fl in \<open>simp add: get_set_lines\<close>)
  have "(?i, ?t) \<notin> flights ?L" using tag by (auto simp: get_set_lines in_flight_def)
  then have M: "mshrs_ok ?g (llc_mshrs c @ [(?a, ?i, ?t)]) (insert (?i, ?t) (flights ?L))"
    by (rule mshrs_ok_add [OF mo refl _ room(2)])
  have "logical_key req \<notin> llc_live_logical_ids ?c3" using new by (simp add: push)
  then obtain lr c4 where
    b: "begin_logical_request clk req ty Path_MissOwner ?c3 = Inr (lr, c4)" and r: "lr_req lr = req" "lr_arrive lr = clk" "lr_path lr = Path_MissOwner"
    and f: "llc_cfg c4 = llc_cfg ?c3" "llc_cache_sets c4 = llc_cache_sets ?c3" "llc_mshrs c4 = llc_mshrs ?c3"
      "llc_receive_requests c4 = llc_receive_requests ?c3" "llc_hit_list c4 = llc_hit_list ?c3"
      "llc_live_logical_ids c4 = insert (logical_key req) (llc_live_logical_ids ?c3)"
      "s_logical_requests_live c4 = s_logical_requests_live ?c3 + 1" "writebacks_ok c4 = writebacks_ok ?c3"
    by (rule begin_logical_request_ok)
  have f': "llc_cfg c4 = ?g" "lines (llc_cache_sets c4) = ?L(?i := s')" "llc_mshrs c4 = llc_mshrs c @ [(?a, ?i, ?t)]"
    "llc_receive_requests c4 = ?bs" "llc_hit_list c4 = llc_hit_list c" "s_logical_requests_live c4 = s_logical_requests_live c + 1"
    "llc_live_logical_ids c4 = insert (logical_key req) (llc_live_logical_ids c)"
    using f L by (simp_all add: push)
  have w: "writebacks_ok c4" using f(8) wb by (simp add: push writebacks_ok_def put_set_def update_line_def)
  let ?b' = "AList.update ?a [lr] ?bs"
  have B: "?b' = ?bs @ [(?a, [lr])]" by (rule bucket_new [OF nb])
  have "buckets_ok (fst ` set (llc_mshrs c4)) ?b'" using bo nb r(3) unfolding B f' by (auto simp: buckets_ok_def)
  moreover have "live_ok clk (X + hit_requests (llc_hit_list c) + bucket_requests ?b') (insert (logical_key req) (llc_live_logical_ids c))
      (s_logical_requests_live c + 1)"
    using live_ok_add [of clk _ "llc_live_logical_ids c" _ lr] inv new r by (simp add: B llc_inv_def)
  ultimately have "llc_inv clk X (c4\<lparr>llc_receive_requests := ?b'\<rparr>)"
    using gok S M hits w by (simp add: llc_inv_def f' F) (simp add: writebacks_ok_def)
  moreover have "map_of ?bs ?a = None" using nb by (simp add: map_of_eq_None_iff)
  ultimately show ?thesis using b a f'(4) by (simp add: LLC_miss_def Let_def push)
qed

text \<open>A line that neither hits nor is in flight is not in the cache.\<close>

lemma miss_absent:
  assumes inv: "llc_inv clk X c" and h: "check_set_hit c (get_set c addr) addr = None" and m: "check_mshr_hit c addr = None"
  shows "get_tag (llc_cfg c) addr \<notin> l_tag ` set (get_set c addr)" "addr \<notin> fst ` set (llc_mshrs c)"
proof -
  let ?g = "llc_cfg c" and ?s = "get_set c addr"
  from inv have gok: "geometry_ok ?g" and mo: "mshrs_ok ?g (llc_mshrs c) (flights (lines (llc_cache_sets c)))" by (simp_all add: llc_inv_def)
  from m have na: "\<forall>x \<in> set (llc_mshrs c). align ?g (fst x) \<noteq> align ?g addr" by (simp add: check_mshr_hit_def find_pos_None)
  then show "addr \<notin> fst ` set (llc_mshrs c)" by auto
  show "get_tag ?g addr \<notin> l_tag ` set ?s"
  proof
    assume "get_tag ?g addr \<in> l_tag ` set ?s"
    then have "find_pos (\<lambda>l. l_tag l = get_tag ?g addr) ?s \<noteq> None" by (auto simp: find_pos_None)
    then obtain i where i: "find_pos (\<lambda>l. l_tag l = get_tag ?g addr) ?s = Some i" by blast
    with h have "\<not> l_ready (?s ! i)" by (auto simp: check_set_hit_def split: if_splits)
    moreover from i have "i < length ?s" "l_tag (?s ! i) = get_tag ?g addr" by (simp_all add: find_pos_Some)
    ultimately have "get_tag ?g addr \<in> in_flight ?s" unfolding in_flight_def by (intro image_eqI [of _ _ "?s ! i"]) simp_all
    then have "(get_index ?g addr, get_tag ?g addr) \<in> snd ` set (llc_mshrs c)" unfolding mshrs_okD(3) [OF mo] by (simp add: get_set_lines)
    then obtain x where x: "x \<in> set (llc_mshrs c)" "snd x = (get_index ?g addr, get_tag ?g addr)" by auto
    with mshrs_okD(4) [OF mo x(1)] have "get_index ?g (fst x) = get_index ?g addr" "get_tag ?g (fst x) = get_tag ?g addr" by simp_all
    with same_line [OF gok] x(1) na show False by blast
  qed
qed

lemma LLC_miss_inv:
  assumes inv: "llc_inv clk X c" and new: "logical_key req \<notin> llc_live_logical_ids c"
    and h: "check_set_hit c (get_set c (req_addr req)) (req_addr req) = None" "check_mshr_hit c (req_addr req) = None"
    and n: "int (length (llc_mshrs c)) \<noteq> llc_num_mshrs (llc_cfg c)" and av: "line_available c (req_addr req)"
  shows "\<exists>c'. LLC_miss tx clk req ty dirty c = Inr c' \<and> llc_inv clk X c'"
proof -
  let ?a = "req_addr req" and ?s = "get_set c (req_addr req)"
  note ab = miss_absent [OF inv h]
  from inv have mo: "mshrs_ok (llc_cfg c) (llc_mshrs c) (flights (lines (llc_cache_sets c)))" by (simp add: llc_inv_def)
  from mshrs_okD(2) [OF this] n have lt: "int (length (llc_mshrs c)) < llc_num_mshrs (llc_cfg c)" by simp
  have no_tag: "\<not> list_ex (\<lambda>l. l_tag l = get_tag (llc_cfg c) ?a) ?s" using ab(1) by (auto simp: list_ex_iff image_iff)
  show ?thesis
  proof (cases "int (length ?s) \<ge> llc_associativity (llc_cfg c)")
    case False
    then have "allocate_line tx clk ?a c = Inr (Some (push_line ?a c))" using no_tag by (simp add: allocate_line_def need_eviction_def)
    with False show ?thesis by (intro LLC_place_inv [OF inv new ab(1) _ lt ab(2)]) simp_all
  next
    case True
    with av have "find_pos l_ready ?s \<noteq> None" by (auto simp: line_available_def list_ex_iff find_pos_None)
    then obtain v where v: "find_pos l_ready ?s = Some v" by blast
    then have r: "v < length ?s" "l_ready (?s ! v)" by (simp_all add: find_pos_Some)
    note e = evict_line_inv [OF inv r, of tx clk]
    from inv have ok: "set_ok (llc_cfg c) (get_index (llc_cfg c) ?a) ?s" by (simp add: llc_inv_def get_set_lines)
    have al: "allocate_line tx clk ?a c = Inr (Some (push_line ?a (evict_line tx clk ?a v c)))"
      using True no_tag v by (simp add: allocate_line_def need_eviction_def)
    have "set (erase_pos v ?s) \<subseteq> set ?s" unfolding erase_pos_def using set_take_subset set_drop_subset by fastforce
    with ab(1) have "get_tag (llc_cfg c) ?a \<notin> l_tag ` set (erase_pos v ?s)" by blast
    with al lt ab(2) new set_ok_erase(2) [OF ok r(1)] e show ?thesis by (intro LLC_place_inv [OF e(1)]) simp_all
  qed
qed

text \<open>The state a send works on, before and after the miss is counted, and its branches.\<close>

abbreviation looked_up :: "Request \<Rightarrow> SimpleO3LLC \<Rightarrow> SimpleO3LLC" where
  "looked_up req c \<equiv> count_access req (put_set (req_addr req) (get_set c (req_addr req)) c)"

abbreviation missed :: "Request \<Rightarrow> SimpleO3LLC \<Rightarrow> SimpleO3LLC" where
  "missed req c \<equiv> count_miss req (looked_up req c)"

lemma LLC_send_eq:
  assumes "validate_logical_identity c req = Inr ()"
  shows "LLC_send tx clk req c =
    (case check_set_hit (looked_up req c) (get_set (looked_up req c) (req_addr req)) (req_addr req) of
       Some j \<Rightarrow> bindR (LLC_hit clk req j (looked_up req c)) (\<lambda>c'. Inr (True, c'))
     | None \<Rightarrow>
         (case check_mshr_hit (missed req c) (req_addr req) of
            Some m \<Rightarrow> bindR (LLC_merge clk (req\<lparr>req_type_id := Type_Read\<rparr>) (req_type_id req) (req_type_id req = Type_Write) m (missed req c)) (\<lambda>c'. Inr (True, c'))
          | None \<Rightarrow>
              if int (length (llc_mshrs (missed req c))) = llc_num_mshrs (llc_cfg (missed req c))
              then Inr (False, (missed req c)\<lparr>s_llc_mshr_unavailable := s_llc_mshr_unavailable (missed req c) + 1\<rparr>)
              else if \<not> line_available (missed req c) (req_addr req) then Inr (False, missed req c)
              else bindR (LLC_miss tx clk (req\<lparr>req_type_id := Type_Read\<rparr>) (req_type_id req) (req_type_id req = Type_Write) (missed req c)) (\<lambda>c'. Inr (True, c'))))"
  unfolding LLC_send_def assms bindR_simps Let_def by (rule refl)

lemma LLC_send_cases [consumes 1, case_names hit merge full busy miss]:
  assumes s: "LLC_send tx clk req c = Inr (ok, c')"
  obtains i where "ok" "LLC_hit clk req i (looked_up req c) = Inr c'"
    | i where "ok" "LLC_merge clk (req\<lparr>req_type_id := Type_Read\<rparr>) (req_type_id req) (req_type_id req = Type_Write) i (missed req c) = Inr c'"
    | "\<not> ok" "c' = (missed req c)\<lparr>s_llc_mshr_unavailable := s_llc_mshr_unavailable (missed req c) + 1\<rparr>"
    | "\<not> ok" "c' = missed req c"
    | "ok" "LLC_miss tx clk (req\<lparr>req_type_id := Type_Read\<rparr>) (req_type_id req) (req_type_id req = Type_Write) (missed req c) = Inr c'"
proof -
  have "validate_logical_identity c req = Inr ()" using s by (cases "validate_logical_identity c req") (simp_all add: LLC_send_def)
  note e = s [unfolded LLC_send_eq [OF this]]
  show ?thesis
  proof (cases "check_set_hit (looked_up req c) (get_set (looked_up req c) (req_addr req)) (req_addr req)")
    case (Some i)
    with e that(1) show ?thesis by (auto simp only: option.case bindR_eq_Inr_iff sum.inject prod.inject)
  next
    case hit: None
    note e = e [unfolded hit option.case]
    show ?thesis
    proof (cases "check_mshr_hit (missed req c) (req_addr req)")
      case (Some i)
      with e that(2) show ?thesis by (auto simp only: option.case bindR_eq_Inr_iff sum.inject prod.inject)
    next
      case None
      note e = e [unfolded None option.case]
      show ?thesis
      proof (cases "int (length (llc_mshrs (missed req c))) = llc_num_mshrs (llc_cfg (missed req c))")
        case True
        from e [unfolded if_P [OF True]] that(3) show ?thesis by (simp only: sum.inject prod.inject) blast
      next
        case False
        note e = e [unfolded if_not_P [OF False]]
        show ?thesis
        proof (cases "line_available (missed req c) (req_addr req)")
          case True
          with e that(5) show ?thesis by (auto simp only: not_True_eq_False if_False bindR_eq_Inr_iff sum.inject prod.inject)
        next
          case False
          with e that(4) show ?thesis by (simp only: not_False_eq_True if_True sum.inject prod.inject)
        qed
      qed
    qed
  qed
qed

text \<open>In a state of the invariant a request with a valid identity never makes the cache throw.\<close>

lemma LLC_send_inv:
  assumes inv: "llc_inv clk X c" and v: "validate_logical_identity c req = Inr ()"
  shows "\<exists>ok c'. LLC_send tx clk req c = Inr (ok, c') \<and> llc_inv clk X c'"
proof -
  let ?a = "req_addr req" and ?rd = "req\<lparr>req_type_id := Type_Read\<rparr>"
  define c0 where "c0 = count_access req (put_set ?a (get_set c ?a) c)"
  define c1 where "c1 = count_miss req c0"
  have i: "llc_inv clk X c0" "llc_inv clk X c1" using inv by (simp_all add: c0_def c1_def get_set_inserted)
  have f: "get_set c1 ?a = get_set c0 ?a" "llc_cfg c1 = llc_cfg c0" by (simp_all add: c1_def get_set_lines)
  have k: "logical_key req \<notin> llc_live_logical_ids c0" "logical_key ?rd \<notin> llc_live_logical_ids c1"
    using v by (auto simp: validate_logical_identity_def c0_def c1_def logical_key_def split: if_splits)
  note s = LLC_send_eq [OF v, of tx clk, folded c0_def, folded c1_def]
  show ?thesis
  proof (cases "check_set_hit c0 (get_set c0 ?a) ?a")
    case (Some j)
    with LLC_hit_inv [OF i(1) k(1) Some] show ?thesis by (auto simp: s)
  next
    case None
    then have h: "check_set_hit c1 (get_set c1 ?a) ?a = None" by (simp add: check_set_hit_def f)
    show ?thesis
    proof (cases "check_mshr_hit c1 ?a")
      case (Some m)
      then have "m < length (llc_mshrs c1)" by (simp add: check_mshr_hit_def find_pos_Some)
      from LLC_merge_inv [OF i(2) k(2) this, of "req_type_id req" "req_type_id req = Type_Write"] Some None show ?thesis
        by (auto simp: s)
    next
      case mshr: None
      consider "int (length (llc_mshrs c1)) = llc_num_mshrs (llc_cfg c1)" | "\<not> line_available c1 ?a"
        | "int (length (llc_mshrs c1)) \<noteq> llc_num_mshrs (llc_cfg c1)" "line_available c1 ?a" by blast
      then show ?thesis
      proof cases
        case 3
        have "\<exists>c'. LLC_miss tx clk ?rd (req_type_id req) (req_type_id req = Type_Write) c1 = Inr c' \<and> llc_inv clk X c'"
          by (rule LLC_miss_inv [OF i(2) k(2)]) (use h mshr 3 in simp_all)
        with 3 mshr None show ?thesis by (auto simp: s)
      qed (use i(2) mshr None in \<open>auto simp: s\<close>)
    qed
  qed
qed

section \<open>Completions\<close>

text \<open>A request that is about to be completed can be.\<close>

lemma complete_logical_request_inv:
  assumes inv: "llc_inv clk (add_mset r X) c"
  shows "\<exists>c'. complete_logical_request clk r c = Inr c' \<and> llc_inv clk X c' \<and> llc_hit_list c' = llc_hit_list c"
proof -
  from inv have "live_ok clk (add_mset r (X + hit_requests (llc_hit_list c) + bucket_requests (llc_receive_requests c)))
      (llc_live_logical_ids c) (s_logical_requests_live c)" by (simp add: llc_inv_def)
  note l = live_ok_remove [OF this]
  then show ?thesis using inv by (simp add: complete_logical_request_def llc_inv_def) (simp add: writebacks_ok_def)
qed

lemma take_receive_requests_inv:
  assumes inv: "llc_inv clk X c" and m: "addr \<in> fst ` set (llc_mshrs c)"
  obtains rs where "take_receive_requests addr c = Inr (rs, c\<lparr>llc_receive_requests := AList.delete addr (llc_receive_requests c)\<rparr>)"
    "\<forall>r \<in> set rs. lr_path r \<noteq> Path_Hit" "rs \<noteq> []" "map_of (llc_receive_requests c) addr = Some rs"
proof -
  from inv have bk: "fst ` set (llc_receive_requests c) = fst ` set (llc_mshrs c)"
    and bp: "\<forall>b \<in> set (llc_receive_requests c). snd b \<noteq> [] \<and> (\<forall>r \<in> set (snd b). lr_path r \<noteq> Path_Hit)"
    by (simp_all add: llc_inv_def buckets_ok_def)
  from m bk obtain rs where rs: "map_of (llc_receive_requests c) addr = Some rs" by (metis map_of_eq_None_iff option.exhaust)
  from bp map_of_SomeD [OF rs] have "rs \<noteq> []" "\<forall>r \<in> set rs. lr_path r \<noteq> Path_Hit" by force+
  with rs that show ?thesis by (simp add: take_receive_requests_def)
qed

lemma mshrs_ok_erase:
  assumes ok: "mshrs_ok g ms F" and i: "i < length ms" and gok: "geometry_ok g"
  shows "mshrs_ok g (erase_pos i ms) (F - {snd (ms ! i)})" "fst ` set (erase_pos i ms) = fst ` set ms - {fst (ms ! i)}"
proof -
  note o = mshrs_okD [OF ok]
  note e = erase_pos_distinct [OF i o(1)]
  have "snd ` set (erase_pos i ms) = F - {snd (ms ! i)}" unfolding e(2) using o(3) by auto
  moreover have "int (length (erase_pos i ms)) \<le> llc_num_mshrs g" using o(2) i by (simp add: length_erase_pos)
  ultimately show "mshrs_ok g (erase_pos i ms) (F - {snd (ms ! i)})" using e o(4) unfolding mshrs_ok_def by blast
  have "fst x = fst (ms ! i) \<longleftrightarrow> snd x = snd (ms ! i)" if "x \<in> set ms" for x
  proof
    assume "fst x = fst (ms ! i)"
    with o(4) [OF that] o(4) [OF nth_mem [OF i]] show "snd x = snd (ms ! i)" by simp
  next
    assume "snd x = snd (ms ! i)"
    with o(1) that i show "fst x = fst (ms ! i)" by (metis distinct_map inj_onD nth_mem)
  qed
  then show "fst ` set (erase_pos i ms) = fst ` set ms - {fst (ms ! i)}" unfolding e(2) by auto
qed

text \<open>A line arrives from memory: its bucket is taken and its MSHR is freed.\<close>

lemma LLC_receive_inv:
  assumes inv: "llc_inv clk X c" and m: "req_addr req \<in> fst ` set (llc_mshrs c)"
  obtains rs c1 c2 where "take_receive_requests (req_addr req) c = Inr (rs, c1)" "LLC_receive req c1 = Inr c2"
    "llc_inv clk (mset rs + X) c2" "\<forall>r \<in> set rs. lr_path r \<noteq> Path_Hit" "llc_hit_list c2 = llc_hit_list c"
    "map_of (llc_receive_requests c) (req_addr req) = Some rs"
proof -
  let ?g = "llc_cfg c" and ?a = "req_addr req" and ?L = "lines (llc_cache_sets c)" and ?ms = "llc_mshrs c"
  let ?bs = "AList.delete ?a (llc_receive_requests c)"
  obtain rs where t: "take_receive_requests ?a c = Inr (rs, c\<lparr>llc_receive_requests := ?bs\<rparr>)"
    and ne: "\<forall>r \<in> set rs. lr_path r \<noteq> Path_Hit" and rs: "map_of (llc_receive_requests c) ?a = Some rs"
    by (rule take_receive_requests_inv [OF inv m])
  let ?P = "\<lambda>x. align ?g (fst x) = align ?g ?a"
  from inv have gok: "geometry_ok ?g" and mo: "mshrs_ok ?g ?ms (flights ?L)" and bo: "buckets_ok (fst ` set ?ms) (llc_receive_requests c)"
    by (simp_all add: llc_inv_def)
  from m have "find_pos ?P ?ms \<noteq> None" unfolding find_pos_None by force
  then obtain i where fp: "find_pos ?P ?ms = Some i" by blast
  then have i: "i < length ?ms" "align ?g (fst (?ms ! i)) = align ?g ?a" by (simp_all add: find_pos_Some)
  obtain x where x: "x \<in> set ?ms" "fst x = ?a" using m by auto
  have p: "snd (?ms ! i) = (get_index ?g ?a, get_tag ?g ?a)"
    using mshrs_okD(4) [OF mo nth_mem [OF i(1)]] i(2) same_line [OF gok] by simp
  moreover have "snd x = (get_index ?g ?a, get_tag ?g ?a)" using mshrs_okD(4) [OF mo x(1)] x(2) by simp
  ultimately have "?ms ! i = x" using mshrs_okD(1) [OF mo] x(1) nth_mem [OF i(1)] by (metis distinct_map inj_onD)
  with x have fi: "fst (?ms ! i) = ?a" by simp
  let ?c1 = "c\<lparr>llc_receive_requests := ?bs\<rparr>"
  define c2 where "c2 = (update_line (snd (?ms ! i)) (\<lambda>l. l\<lparr>l_ready := True\<rparr>) ?c1)\<lparr>llc_mshrs := erase_pos i ?ms\<rparr>"
  have rcv: "LLC_receive req ?c1 = Inr c2" using fp by (simp add: LLC_receive_def c2_def)
  let ?L' = "?L(get_index ?g ?a := mapped (get_tag ?g ?a) (\<lambda>l. l\<lparr>l_ready := True\<rparr>) (?L (get_index ?g ?a)))"
  have L: "lines (llc_cache_sets c2) = ?L'" by (simp add: c2_def p)
  have S: "set_ok ?g j (?L' j)" for j using inv by (simp add: llc_inv_def set_ok_mapped)
  have F: "flights ?L' = flights ?L - {snd (?ms ! i)}" unfolding p by (rule flights_upd(3)) (rule in_flight_mapped(2))
  note em = mshrs_ok_erase [OF mo i(1) gok]
  from bo have bd: "distinct (map fst (llc_receive_requests c))" by (simp add: buckets_ok_def)
  note de = bucket_delete [OF bd rs]
  have "buckets_ok (fst ` set (erase_pos i ?ms)) ?bs" using bo de(1,3,4) em(2) fi by (auto simp: buckets_ok_def)
  moreover have "live_ok clk (mset rs + X + hit_requests (llc_hit_list c) + bucket_requests ?bs) (llc_live_logical_ids c) (s_logical_requests_live c)"
    using inv de(2) by (simp add: llc_inv_def ac_simps)
  ultimately have "llc_inv clk (mset rs + X) c2"
    using inv S em(1) unfolding llc_inv_def L F by (simp add: c2_def) (simp add: writebacks_ok_def update_line_def)
  with t rcv ne rs that [of rs ?c1 c2] show ?thesis by (simp add: c2_def)
qed

lemma LLC_new_inv:
  assumes "LLC_new lat sz line assoc mshrs = Inr c"
  shows "llc_inv clk {#} c" "llc_miss_list c = []" "llc_hit_list c = []" "llc_mshrs c = []" "llc_receive_requests c = []"
    "llc_live_logical_ids c = {}" "llc_split_groups c = []"
proof -
  let ?n = "sz div (line * assoc)"
  from assms have g: "0 \<le> lat" "0 < line" "0 < assoc" "0 < mshrs" "line AND (line - 1) = 0" "?n AND (?n - 1) = 0" "line * assoc \<le> sz"
    and c: "llc_cache_sets c = Map.empty" "llc_mshrs c = []" "llc_receive_requests c = []" "llc_hit_list c = []" "llc_live_logical_ids c = {}"
      "s_logical_requests_live c = 0" "writebacks_ok c" "llc_miss_list c = []" "llc_split_groups c = []"
      "llc_cfg c = \<lparr>llc_latency = lat, llc_linesize_bytes = line, llc_associativity = assoc, llc_set_size = ?n, llc_num_mshrs = mshrs,
        llc_index_mask = ?n - 1, llc_index_offset = calc_log2 (nat line), llc_tag_offset = calc_log2 (nat ?n) + calc_log2 (nat line)\<rparr>"
    by (auto simp: LLC_new_def Let_def writebacks_ok_def split: if_splits)
  have "0 < ?n" using g(2,3,7) by (simp add: pos_imp_zdiv_pos_iff)
  with g(6) have "is_pow2 ?n" by (simp add: is_pow2_def)
  then obtain j where j: "?n = 2 ^ j" by (auto dest: is_pow2_cases)
  from g(2,5) have "is_pow2 line" by (simp add: is_pow2_def)
  then obtain k where k: "line = 2 ^ k" by (auto dest: is_pow2_cases)
  have "nat line = 2 ^ k" "nat ?n = 2 ^ j" using j k by (simp_all add: nat_power_eq)
  then have lg: "calc_log2 (nat line) = k" "calc_log2 (nat ?n) = j" by (simp_all only: calc_log2_pow2)
  have "geometry_ok (llc_cfg c)" using g(1-4) unfolding c(10) lg geometry_ok_def j by (simp add: k nat_power_eq)
  with c g(3,4) show "llc_inv clk {#} c"
    by (simp add: llc_inv_def set_ok_def lines_def mshrs_ok_def flights_def buckets_ok_def live_ok_def c(10))
  show "llc_miss_list c = []" "llc_hit_list c = []" "llc_mshrs c = []" "llc_receive_requests c = []" "llc_live_logical_ids c = {}"
    "llc_split_groups c = []" by (simp_all add: c)
qed

lemma llc_inv_later: "llc_inv clk X c \<Longrightarrow> clk \<le> clk' \<Longrightarrow> llc_inv clk' X c"
  by (auto simp: llc_inv_def intro: live_ok_later)

text \<open>The checks of \<^verbatim>\<open>is_quiescent\<close> hold in every state of the invariant.\<close>

lemma is_quiescent_inv:
  assumes inv: "llc_inv clk {#} c"
  shows "\<exists>q. is_quiescent c = Inr q"
proof -
  from inv have l: "live_ok clk (hit_requests (llc_hit_list c) + bucket_requests (llc_receive_requests c)) (llc_live_logical_ids c)
      (s_logical_requests_live c)" and w: "writebacks_ok c" by (simp_all add: llc_inv_def)
  from l have "llc_live_logical_ids c = {}" if "llc_receive_requests c = []" "llc_hit_list c = []"
    using that by (auto simp: live_ok_def mset_set_empty_iff)
  with l w show ?thesis by (auto simp: is_quiescent_def live_ok_def writebacks_ok_def)
qed

end
