(* ===== verification/SimpleO3.thy ===== *)
theory SimpleO3
  imports O3_Core LLC_Inv
begin

text \<open>
  The SimpleO3 frontend, \<^verbatim>\<open>ramulator/frontend/impl/processor/simpleO3/simpleO3.cpp\<close>: the cores, the
  cache they share, and the callbacks through which the memory system returns lines.

  The memory system is a parameter. Its \<^verbatim>\<open>send\<close> answers whether it took the request, and may
  run callbacks before it returns; these are the requests in the second component, in order.
\<close>

section \<open>State\<close>

record 't SimpleO3 =
  fe_clk :: Clk_t
  fe_translation :: 't
  fe_cores :: "SimpleO3Core list"
  fe_llc :: SimpleO3LLC

type_synonym 'm memory_send = "Request \<Rightarrow> 'm \<Rightarrow> (bool \<times> Request list \<times> Request \<times> 'm) result"

record SimpleO3Config =
  o3_num_expected_insts :: int
  o3_allow_trace_wrap :: bool
  o3_traces :: "Inst list list"
  o3_ipc :: int
  o3_depth :: int
  o3_llc_latency :: int
  o3_llc_linesize_bytes :: int
  o3_llc_associativity :: int
  o3_llc_capacity_per_core :: int
  o3_llc_num_mshr_per_core :: int

definition new_core :: "SimpleO3Config \<Rightarrow> nat \<Rightarrow> SimpleO3Core result" where
  "new_core cfg i =
     Core_new (int i) (nat (o3_ipc cfg)) (nat (o3_depth cfg)) (o3_num_expected_insts cfg) (o3_traces cfg ! i) (o3_allow_trace_wrap cfg)"

definition SimpleO3_init :: "SimpleO3Config \<Rightarrow> 't \<Rightarrow> 't SimpleO3 result" where
  "SimpleO3_init cfg tr =
     (let n = int (length (o3_traces cfg)); int_max = 2 ^ 31 - 1 in
      if o3_num_expected_insts cfg \<le> 0 then throw ''SimpleO3 num_expected_insts must be positive''
      else if o3_traces cfg = [] then throw ''SimpleO3 requires at least one core trace''
      else if n > int_max then throw ''SimpleO3 core count exceeds the supported range''
      else if o3_ipc cfg \<le> 0 \<or> o3_depth cfg \<le> 0 then throw ''SimpleO3 IPC and instruction-window depth must be positive''
      else if o3_llc_num_mshr_per_core cfg \<le> 0 then throw ''SimpleO3 LLC MSHRs per core must be positive''
      else if o3_llc_capacity_per_core cfg = 0 \<or> o3_llc_capacity_per_core cfg > int_max div n
      then throw ''SimpleO3 aggregate LLC capacity exceeds the supported range''
      else if o3_llc_num_mshr_per_core cfg > int_max div n
      then throw ''SimpleO3 aggregate LLC MSHR count exceeds the supported range''
      else bindR (LLC_new (o3_llc_latency cfg) (o3_llc_capacity_per_core cfg * n) (o3_llc_linesize_bytes cfg)
                    (o3_llc_associativity cfg) (o3_llc_num_mshr_per_core cfg * n)) (\<lambda>llc.
           bindR (foldR (\<lambda>i cs. bindR (new_core cfg i) (\<lambda>c. Inr (cs @ [c]))) [0..<length (o3_traces cfg)] []) (\<lambda>cores.
             Inr \<lparr>fe_clk = 0, fe_translation = tr, fe_cores = cores, fe_llc = llc\<rparr>)))"

section \<open>Completions\<close>

text \<open>A logical request goes back to the core it came from.\<close>

definition return_to_core :: "string \<Rightarrow> Request \<Rightarrow> 't SimpleO3 \<Rightarrow> 't SimpleO3 result" where
  "return_to_core msg r fe =
     (if req_source_id r < 0 \<or> req_source_id r \<ge> int (length (fe_cores fe)) then throw msg
      else bindR (Core_receive r (fe_cores fe ! nat (req_source_id r))) (\<lambda>c.
        Inr (fe\<lparr>fe_cores := (fe_cores fe)[nat (req_source_id r) := c]\<rparr>)))"

definition complete_one :: "Request \<Rightarrow> LogicalRequest \<Rightarrow> 't SimpleO3 \<Rightarrow> 't SimpleO3 result" where
  "complete_one req logical fe =
     bindR (complete_logical_request (fe_clk fe) logical (fe_llc fe)) (\<lambda>llc.
       return_to_core ''SimpleO3 logical completion has an invalid source id''
         ((lr_req logical)\<lparr>req_type_id := lr_original_type logical, req_arrive := req_arrive req, req_depart := req_depart req\<rparr>)
         (fe\<lparr>fe_llc := llc\<rparr>))"

definition SimpleO3_receive :: "Request \<Rightarrow> 't SimpleO3 \<Rightarrow> 't SimpleO3 result" where
  "SimpleO3_receive req fe =
     bindR (take_receive_requests (req_addr req) (fe_llc fe)) (\<lambda>(logicals, llc1).
       if list_ex (\<lambda>l. lr_path l = Path_Hit) logicals then throw ''SimpleO3 memory completion contains an LLC-hit request''
       else bindR (LLC_receive req llc1) (\<lambda>llc2. foldR (complete_one req) logicals (fe\<lparr>fe_llc := llc2\<rparr>)))"

definition receive_hit :: "LogicalRequest \<Rightarrow> 't SimpleO3 \<Rightarrow> 't SimpleO3 result" where
  "receive_hit logical fe =
     (if lr_path logical \<noteq> Path_Hit then throw ''SimpleO3 hit completion has a non-hit logical path''
      else bindR (complete_logical_request (fe_clk fe) logical (fe_llc fe)) (\<lambda>llc.
        return_to_core ''SimpleO3 logical hit completion has an invalid source id''
          ((lr_req logical)\<lparr>req_type_id := lr_original_type logical\<rparr>) (fe\<lparr>fe_llc := llc\<rparr>)))"

text \<open>
  What the callback of a request does: nothing when there is none; the frontend's \<^verbatim>\<open>receive\<close>; the
  counter of internal writebacks; or one part less of a split line, the last of which runs
  the callback of the whole.
\<close>

definition whole_callback :: "Request \<Rightarrow> 't SimpleO3 \<Rightarrow> 't SimpleO3 result" where
  "whole_callback req fe =
     (if req_callback req = Some cb_core then SimpleO3_receive req fe
      else if req_callback req = Some cb_writeback
      then bindR (writeback_completed (fe_llc fe)) (\<lambda>llc. Inr (fe\<lparr>fe_llc := llc\<rparr>))
      else Inr fe)"

definition run_callback :: "Request \<Rightarrow> 't SimpleO3 \<Rightarrow> 't SimpleO3 result" where
  "run_callback req fe =
     (case req_callback req of
        None \<Rightarrow> Inr fe
      | Some cb \<Rightarrow>
          if cb < cb_split 0 then whole_callback req fe
          else let g = cb - cb_split 0; (remaining, original) = llc_split_groups (fe_llc fe) ! g;
                   fe1 = fe\<lparr>fe_llc := (fe_llc fe)\<lparr>llc_split_groups := (llc_split_groups (fe_llc fe))[g := (remaining - 1, original)]\<rparr>\<rparr>
               in if remaining - 1 = 0 then whole_callback original fe1 else Inr fe1)"

section \<open>The clock\<close>

definition send_and_call :: "'m memory_send \<Rightarrow> Request \<Rightarrow> 't SimpleO3 \<times> 'm \<Rightarrow> (bool \<times> Request \<times> 't SimpleO3 \<times> 'm) result" where
  "send_and_call mem_send req s =
     (case s of (fe, m) \<Rightarrow>
        bindR (mem_send req m) (\<lambda>(ok, calls, req', m').
        bindR (foldR run_callback calls fe) (\<lambda>fe'. Inr (ok, req', fe', m'))))"

definition LLC_tick :: "'m memory_send \<Rightarrow> 't SimpleO3 \<times> 'm \<Rightarrow> ('t SimpleO3 \<times> 'm) result" where
  "LLC_tick mem_send s =
     (case s of (fe, m) \<Rightarrow>
        bindR (send_misses (send_and_call mem_send) (fe_clk fe) (llc_miss_list (fe_llc fe)) (fe, m)) (\<lambda>(kept, fe1, m1).
        let fe2 = fe1\<lparr>fe_llc := (fe_llc fe1)\<lparr>llc_miss_list := kept\<rparr>\<rparr> in
        bindR (serve_hits receive_hit (fe_clk fe) (llc_hit_list (fe_llc fe2)) fe2) (\<lambda>(kept_hits, fe3).
          Inr (fe3\<lparr>fe_llc := (fe_llc fe3)\<lparr>llc_hit_list := kept_hits\<rparr>\<rparr>, m1))))"

definition tick_core :: "int \<Rightarrow> 't translator \<Rightarrow> nat \<Rightarrow> 't SimpleO3 \<Rightarrow> 't SimpleO3 result" where
  "tick_core tx_bytes translate i fe =
     bindR (Core_tick tx_bytes (fe_clk fe) translate (fe_cores fe ! i, fe_translation fe, fe_llc fe)) (\<lambda>(c, tr, llc).
       Inr (fe\<lparr>fe_cores := (fe_cores fe)[i := c], fe_translation := tr, fe_llc := llc\<rparr>))"

definition SimpleO3_tick :: "int \<Rightarrow> 't translator \<Rightarrow> 'm memory_send \<Rightarrow> 't SimpleO3 \<times> 'm \<Rightarrow> ('t SimpleO3 \<times> 'm) result" where
  "SimpleO3_tick tx_bytes translate mem_send s =
     (case s of (fe, m) \<Rightarrow>
        bindR (LLC_tick mem_send (fe\<lparr>fe_clk := fe_clk fe + 1\<rparr>, m)) (\<lambda>(fe1, m1).
        bindR (foldR (tick_core tx_bytes translate) [0..<length (fe_cores fe1)] fe1) (\<lambda>fe2. Inr (fe2, m1))))"

definition SimpleO3_idle_ticks :: "Clk_t \<Rightarrow> 't SimpleO3 \<Rightarrow> Clk_t" where
  "SimpleO3_idle_ticks max_useful fe =
     (if list_ex (\<lambda>c. \<not> is_stalled c) (fe_cores fe) then 0
      else let next = next_event (fe_clk fe) (fe_llc fe)
           in if next \<le> fe_clk fe + 1 then 0 else min max_useful (next - fe_clk fe - 1))"

definition SimpleO3_fast_forward :: "Clk_t \<Rightarrow> 't SimpleO3 \<Rightarrow> 't SimpleO3" where
  "SimpleO3_fast_forward ticks fe = fe\<lparr>fe_clk := fe_clk fe + ticks\<rparr>"

definition SimpleO3_is_finished :: "'t SimpleO3 \<Rightarrow> bool result" where
  "SimpleO3_is_finished fe =
     (if list_ex (\<lambda>c. \<not> c_reached_expected_num_insts c \<or> \<not> issue_roi_quiescent c) (fe_cores fe) then Inr False
      else is_quiescent (fe_llc fe))"

definition SimpleO3_finalize :: "'t SimpleO3 \<Rightarrow> unit result" where
  "SimpleO3_finalize fe = LLC_finalize (fe_llc fe)"

end
