(* ===== verification/O3_Window.thy ===== *)
theory O3_Window
  imports O3_Core LLC_Inv
begin

text \<open>
  The instruction window against its abstract view: the ring buffer of \<^verbatim>\<open>InstWindow\<close> is a bounded
  queue of entries, inserted at the back, retired from the front while ready, and marked
  ready by identity.
\<close>

section \<open>Ring arithmetic\<close>

lemma ring_add: "t < d \<Longrightarrow> k \<le> d \<Longrightarrow> (t + k) mod d = (if t + k < d then t + k else t + k - d)" for t :: nat
  by (auto simp: mod_if)

definition slot :: "InstWindow \<Rightarrow> nat \<Rightarrow> nat" where
  "slot w k = (w_tail_idx w + k) mod w_depth w"

definition win_ok :: "InstWindow \<Rightarrow> bool" where
  "win_ok w \<longleftrightarrow>
     0 < w_depth w \<and> length (w_ready_list w) = w_depth w \<and> length (w_addr_list w) = w_depth w \<and>
     length (w_frontend_id_list w) = w_depth w \<and> w_tail_idx w < w_depth w \<and> w_load w \<le> w_depth w \<and> w_head_idx w = slot w (w_load w)"

lemma slot_less: "win_ok w \<Longrightarrow> slot w k < w_depth w"
  by (simp add: slot_def win_ok_def)

lemma slot_inj: "win_ok w \<Longrightarrow> k < w_depth w \<Longrightarrow> l < w_depth w \<Longrightarrow> slot w k = slot w l \<longleftrightarrow> k = l"
  by (auto simp: slot_def win_ok_def ring_add split: if_splits)

lemma slot_0: "win_ok w \<Longrightarrow> slot w 0 = w_tail_idx w"
  by (simp add: slot_def win_ok_def)

lemma slot_Suc: "win_ok w \<Longrightarrow> slot w (Suc k) = (if slot w k + 1 = w_depth w then 0 else slot w k + 1)"
  by (simp add: slot_def win_ok_def mod_Suc)

section \<open>The queue\<close>

record entry =
  e_ready :: bool
  e_addr :: Addr_t
  e_id :: int

definition entry_at :: "InstWindow \<Rightarrow> nat \<Rightarrow> entry" where
  "entry_at w k = \<lparr>e_ready = w_ready_list w ! slot w k, e_addr = w_addr_list w ! slot w k, e_id = w_frontend_id_list w ! slot w k\<rparr>"

definition entries :: "InstWindow \<Rightarrow> entry list" where
  "entries w = map (entry_at w) [0..<w_load w]"

lemma length_entries [simp]: "length (entries w) = w_load w"
  by (simp add: entries_def)

lemma nth_entries [simp]: "k < w_load w \<Longrightarrow> entries w ! k = entry_at w k"
  by (simp add: entries_def)

lemma win_new: "0 < depth \<Longrightarrow> win_ok (InstWindow_new ipc depth) \<and> entries (InstWindow_new ipc depth) = []"
  by (simp add: win_ok_def InstWindow_new_def entries_def slot_def)

text \<open>Inserting appends.\<close>

lemma win_insert_entries:
  assumes ok: "win_ok w" and room: "\<not> is_full w"
  shows "\<exists>w'. win_insert r a f w = Inr w' \<and> win_ok w' \<and> entries w' = entries w @ [\<lparr>e_ready = r, e_addr = a, e_id = f\<rparr>] \<and>
    w_ipc w' = w_ipc w \<and> w_depth w' = w_depth w"
proof -
  let ?h = "slot w (w_load w)"
  define w' where "w' = w\<lparr>w_ready_list := (w_ready_list w)[?h := r], w_addr_list := (w_addr_list w)[?h := a],
    w_frontend_id_list := (w_frontend_id_list w)[?h := f], w_head_idx := (?h + 1) mod w_depth w, w_load := w_load w + 1\<rparr>"
  have h: "w_head_idx w = ?h" "?h < w_depth w" using ok slot_less by (simp_all add: win_ok_def)
  have l: "w_load w < w_depth w" using ok room by (simp add: win_ok_def is_full_def)
  have s: "slot w' k = slot w k" for k by (simp add: slot_def w'_def)
  have "w_head_idx w' = slot w (Suc (w_load w))" by (simp add: w'_def slot_def mod_Suc_eq)
  then have new: "win_ok w'" using ok l by (simp add: win_ok_def s) (simp add: w'_def)
  have f: "w_ready_list w' = (w_ready_list w)[?h := r]" "w_addr_list w' = (w_addr_list w)[?h := a]"
    "w_frontend_id_list w' = (w_frontend_id_list w)[?h := f]" "w_load w' = Suc (w_load w)" by (simp_all add: w'_def)
  have "entry_at w' k = entry_at w k" if "k < w_load w" for k
    using slot_inj [OF ok, of k "w_load w"] that l by (simp add: entry_at_def s f)
  moreover have "entry_at w' (w_load w) = \<lparr>e_ready = r, e_addr = a, e_id = f\<rparr>" using h(2) ok by (simp add: entry_at_def s f win_ok_def)
  ultimately have "entries w' = entries w @ [\<lparr>e_ready = r, e_addr = a, e_id = f\<rparr>]" by (simp add: entries_def f)
  moreover have "win_insert r a f w = Inr w'" using ok h by (simp add: win_insert_def win_ok_def w'_def)
  ultimately show ?thesis using new by (intro exI [of _ w']) (simp add: w'_def)
qed

text \<open>Retiring drops the ready entries at the front, at most \<open>w_ipc\<close> of them.\<close>

definition popped :: "InstWindow \<Rightarrow> InstWindow" where
  "popped w = w\<lparr>w_tail_idx := (w_tail_idx w + 1) mod w_depth w, w_load := w_load w - 1\<rparr>"

lemma popped_frame [simp]:
  "w_depth (popped w) = w_depth w" "w_ready_list (popped w) = w_ready_list w" "w_addr_list (popped w) = w_addr_list w"
  "w_frontend_id_list (popped w) = w_frontend_id_list w" "w_head_idx (popped w) = w_head_idx w" "w_ipc (popped w) = w_ipc w"
  "w_load (popped w) = w_load w - 1" "w_tail_idx (popped w) = slot w 1"
  by (simp_all add: popped_def slot_def)

lemma slot_popped: "slot (popped w) k = slot w (Suc k)"
  by (simp add: slot_def [of "popped w"]) (simp add: slot_def mod_add_left_eq)

lemma popped_entries:
  assumes ok: "win_ok w" and l: "0 < w_load w"
  shows "win_ok (popped w)" "entries w = entry_at w 0 # entries (popped w)"
proof -
  have ld: "w_load w = Suc (w_load (popped w))" using l by simp
  have h: "w_head_idx w = slot w (w_load w)" using ok by (simp add: win_ok_def)
  have "w_head_idx (popped w) = slot (popped w) (w_load (popped w))" using l h by (simp add: slot_popped)
  moreover have "0 < w_depth w \<and> length (w_ready_list w) = w_depth w \<and> length (w_addr_list w) = w_depth w \<and>
      length (w_frontend_id_list w) = w_depth w" "w_load w - 1 \<le> w_depth w" using ok by (auto simp: win_ok_def)
  ultimately show "win_ok (popped w)" using slot_less [OF ok, of 1] by (simp add: win_ok_def)
  have "entry_at (popped w) k = entry_at w (Suc k)" for k by (simp add: entry_at_def slot_popped)
  then have "entries (popped w) = map (entry_at w \<circ> Suc) [0..<w_load (popped w)]" by (simp add: entries_def)
  then show "entries w = entry_at w 0 # entries (popped w)"
    unfolding entries_def [of w] ld upt_conv_Cons [OF zero_less_Suc] by (simp add: map_Suc_upt [symmetric] del: upt_Suc)
qed

lemma retire_loop_entries:
  assumes "win_ok w"
  shows "\<exists>n w'. retire_loop m w = Inr (m + n, w') \<and> win_ok w' \<and> w_ipc w' = w_ipc w \<and> w_depth w' = w_depth w \<and>
    n = length (takeWhile e_ready (take (w_ipc w - m) (entries w))) \<and> entries w' = drop n (entries w)"
  using assms
proof (induction m w rule: retire_loop.induct)
  case (1 m w)
  have t: "w_tail_idx w < length (w_ready_list w)" using 1(2) by (simp add: win_ok_def)
  show ?case
  proof (cases "w_load w > 0 \<and> m < w_ipc w")
    case False
    then show ?thesis using 1(2) by (intro exI [of _ 0] exI [of _ w]) (auto simp: retire_loop.simps [of m w] entries_def)
  next
    case go: True
    note p = popped_entries [OF 1(2)]
    have e0: "e_ready (entry_at w 0) = w_ready_list w ! w_tail_idx w" using slot_0 [OF 1(2)] by (simp add: entry_at_def)
    obtain j where j: "w_ipc w - m = Suc j" "w_ipc w - (m + 1) = j" using go by (cases "w_ipc w - m") auto
    show ?thesis
    proof (cases "w_ready_list w ! w_tail_idx w")
      case False
      have "takeWhile e_ready (take (w_ipc w - m) (entries w)) = []" using p(2) go e0 False by (simp add: j)
      then show ?thesis using go t False 1(2) by (intro exI [of _ 0] exI [of _ w]) (simp add: retire_loop.simps [of m w])
    next
      case True
      have "\<exists>n w'. retire_loop (m + 1) (popped w) = Inr (m + 1 + n, w') \<and> win_ok w' \<and> w_ipc w' = w_ipc (popped w) \<and>
          w_depth w' = w_depth (popped w) \<and> n = length (takeWhile e_ready (take (w_ipc (popped w) - (m + 1)) (entries (popped w)))) \<and>
          entries w' = drop n (entries (popped w))"
        unfolding popped_def by (rule 1(1)) (use go t True p(1) in \<open>simp_all add: popped_def\<close>)
      then obtain n w' where n: "retire_loop (m + 1) (popped w) = Inr (m + 1 + n, w')" "win_ok w'" "w_ipc w' = w_ipc w"
        "w_depth w' = w_depth w" "n = length (takeWhile e_ready (take j (entries (popped w))))" "entries w' = drop n (entries (popped w))"
        by (auto simp: popped_def j(2) [simplified])
      have "retire_loop m w = Inr (m + Suc n, w')" using go t True n(1) by (simp add: retire_loop.simps [of m w] popped_def)
      moreover have "Suc n = length (takeWhile e_ready (take (w_ipc w - m) (entries w)))" using p(2) go e0 True n(5) by (simp add: j)
      moreover have "entries w' = drop (Suc n) (entries w)" using p(2) go n(6) by simp
      ultimately show ?thesis using n(2-4) by blast
    qed
  qed
qed

lemma retire_entries:
  assumes "win_ok w"
  obtains n w' where "retire w = Inr (n, w')" "win_ok w'" "w_ipc w' = w_ipc w" "w_depth w' = w_depth w"
    "n = length (takeWhile e_ready (take (w_ipc w) (entries w)))" "entries w' = drop n (entries w)"
proof (cases "w_load w = 0")
  case True
  then show ?thesis using that [of 0 w] assms by (simp add: retire_def entries_def)
next
  case False
  with retire_loop_entries [OF assms, of 0] that show ?thesis by (auto simp: retire_def)
qed

text \<open>A completion marks the first entry with its identity.\<close>

definition marked :: "nat \<Rightarrow> InstWindow \<Rightarrow> InstWindow" where
  "marked k w = w\<lparr>w_ready_list := (w_ready_list w)[slot w k := True]\<rparr>"

lemma marked_entries:
  assumes ok: "win_ok w" and k: "k < w_load w"
  shows "win_ok (marked k w)" "entries (marked k w) = (entries w)[k := (entries w ! k)\<lparr>e_ready := True\<rparr>]"
    "w_ipc (marked k w) = w_ipc w" "w_depth (marked k w) = w_depth w"
proof -
  have f: "w_depth (marked k w) = w_depth w" "w_load (marked k w) = w_load w" "w_head_idx (marked k w) = w_head_idx w"
    "w_tail_idx (marked k w) = w_tail_idx w" "w_addr_list (marked k w) = w_addr_list w" "w_ipc (marked k w) = w_ipc w"
    "w_frontend_id_list (marked k w) = w_frontend_id_list w" "w_ready_list (marked k w) = (w_ready_list w)[slot w k := True]"
    by (simp_all add: marked_def)
  have s: "slot (marked k w) j = slot w j" for j by (simp add: slot_def f)
  show "win_ok (marked k w)" using ok by (simp add: win_ok_def f s)
  have b: "k < w_depth w" "slot w k < length (w_ready_list w)" using ok k slot_less [OF ok, of k] by (simp_all add: win_ok_def)
  have "entry_at (marked k w) j = (if j = k then (entry_at w k)\<lparr>e_ready := True\<rparr> else entry_at w j)" if "j < w_load w" for j
  proof -
    have "j < w_depth w" using that ok by (simp add: win_ok_def)
    then have "slot w j = slot w k \<longleftrightarrow> j = k" using slot_inj [OF ok] b(1) by blast
    then show ?thesis using b(2) by (cases "j = k") (simp_all add: entry_at_def f s)
  qed
  then show "entries (marked k w) = (entries w)[k := (entries w ! k)\<lparr>e_ready := True\<rparr>]"
    using k by (intro nth_equalityI) (auto simp: f nth_list_update)
  show "w_ipc (marked k w) = w_ipc w" "w_depth (marked k w) = w_depth w" by (fact f)+
qed

lemma ready_loop_entries:
  assumes "win_ok w" "k + n = w_load w"
  shows "ready_loop f (slot w k) n w =
    (case find_pos (\<lambda>e. e_id e = f) (drop k (entries w)) of None \<Rightarrow> (False, w) | Some j \<Rightarrow> (True, marked (k + j) w))"
  using assms(2)
proof (induction n arbitrary: k)
  case 0
  then show ?case by simp
next
  case (Suc n)
  have d: "drop k (entries w) = entry_at w k # drop (Suc k) (entries w)"
    using Suc.prems Cons_nth_drop_Suc [of k "entries w"] by simp
  have i: "e_id (entry_at w k) = w_frontend_id_list w ! slot w k" by (simp add: entry_at_def)
  have "Suc k + n = w_load w" using Suc.prems by simp
  note IH = Suc.IH [OF this]
  show ?case
  proof (cases "w_frontend_id_list w ! slot w k = f")
    case True
    then show ?thesis by (simp add: d i marked_def)
  next
    case False
    then show ?thesis using IH by (simp add: d i slot_Suc [OF assms(1)] split: option.split)
  qed
qed

lemma set_ready_entries:
  assumes "win_ok w" "0 \<le> f"
  shows "set_ready f w =
    Inr (case find_pos (\<lambda>e. e_id e = f) (entries w) of None \<Rightarrow> (False, w) | Some j \<Rightarrow> (True, marked j w))"
  using ready_loop_entries [OF assms(1), of 0 "w_load w" f] assms slot_0 [OF assms(1)]
  by (cases "w_load w = 0") (simp_all add: set_ready_def entries_def split: option.split)

end
