(* ===== verification/LLC_Flow.thy ===== *)
theory LLC_Flow
  imports LLC_Inv
begin

text \<open>
  What the last-level cache has given away: every fill and every writeback is known to it by
  the callback it will receive. A fill belongs to an MSHR, a writeback to the count of live
  writebacks, and the parts of a split line to a group that counts them.
\<close>

section \<open>Requests in flight\<close>

type_synonym token = "nat option \<times> Addr_t"

definition tok :: "Request \<Rightarrow> token" where
  "tok r = (req_callback r, req_addr r)"

definition open_groups :: "(int \<times> Request) list \<Rightarrow> token multiset" where
  "open_groups G = mset (map (tok \<circ> snd) (filter (\<lambda>g. 0 < fst g) G))"

definition part_count :: "token multiset \<Rightarrow> nat \<Rightarrow> int" where
  "part_count F g = int (size (filter_mset (\<lambda>t. fst t = Some (cb_split g)) F))"

definition fills :: "token multiset \<Rightarrow> Addr_t multiset" where
  "fills F = image_mset snd (filter_mset (\<lambda>t. fst t = Some cb_core) F)"

definition writes :: "token multiset \<Rightarrow> int" where
  "writes F = int (size (filter_mset (\<lambda>t. fst t = Some cb_writeback) F))"

definition whole_cb :: "nat option \<Rightarrow> bool" where
  "whole_cb cb \<longleftrightarrow> cb = Some cb_core \<or> cb = Some cb_writeback"

lemmas cb_defs = cb_core_def cb_writeback_def cb_split_def

text \<open>
  The tokens in flight against the owners of the MSHRs, the groups and the number of live
  writebacks.
\<close>

definition flight_ok :: "token multiset \<Rightarrow> Addr_t multiset \<Rightarrow> (int \<times> Request) list \<Rightarrow> int \<Rightarrow> bool" where
  "flight_ok F A G n \<longleftrightarrow>
     (\<forall>t \<in># F. \<exists>cb. fst t = Some cb \<and> cb < cb_split (length G)) \<and> (\<forall>g < length G. part_count F g = fst (G ! g)) \<and>
     (\<forall>g \<in> set G. whole_cb (req_callback (snd g))) \<and> fills (F + open_groups G) = A \<and> writes (F + open_groups G) = n"

lemma tally_add [simp]:
  "fills (add_mset t F) = (if fst t = Some cb_core then add_mset (snd t) (fills F) else fills F)"
  "writes (add_mset t F) = (if fst t = Some cb_writeback then 1 + writes F else writes F)"
  "part_count (add_mset t F) g = (if fst t = Some (cb_split g) then 1 + part_count F g else part_count F g)"
  by (simp_all add: fills_def writes_def part_count_def)

lemma tally_union [simp]:
  "fills (F + H) = fills F + fills H" "writes (F + H) = writes F + writes H" "part_count (F + H) g = part_count F g + part_count H g"
  by (simp_all add: fills_def writes_def part_count_def)

lemma tally_empty [simp]: "fills {#} = {#}" "writes {#} = 0" "part_count {#} g = 0"
  by (simp_all add: fills_def writes_def part_count_def)

lemma tally_nonneg: "0 \<le> writes F" "0 \<le> part_count F g"
  by (simp_all add: writes_def part_count_def)

lemma part_count_0: "(\<forall>t \<in># F. \<exists>cb. fst t = Some cb \<and> cb < cb_split g) \<Longrightarrow> part_count F g = 0"
  by (induction F) auto

lemma cb_distinct [simp]:
  "cb_core \<noteq> cb_writeback" "cb_writeback \<noteq> cb_core" "cb_split g \<noteq> cb_core" "cb_split g \<noteq> cb_writeback" "cb_core \<noteq> cb_split g"
  "cb_writeback \<noteq> cb_split g" "cb_split g = cb_split h \<longleftrightarrow> g = h" "cb_core < cb_split g" "cb_writeback < cb_split g"
  "cb_split g < cb_split h \<longleftrightarrow> g < h" "cb_split g \<le> cb_split h \<longleftrightarrow> g \<le> h"
  by (auto simp: cb_defs)

text \<open>A new request of the cache, whole or split.\<close>

lemma flight_ok_whole:
  assumes "flight_ok F A G n" "t = (Some cb, a)" "whole_cb (Some cb)"
  shows "flight_ok (add_mset t F) (if cb = cb_core then add_mset a A else A) G (if cb = cb_writeback then n + 1 else n)"
  using assms by (auto simp: flight_ok_def whole_cb_def)

lemma open_groups_snoc [simp]:
  "open_groups (G @ [(k, r)]) = (if 0 < k then add_mset (tok r) (open_groups G) else open_groups G)"
  by (simp add: open_groups_def)

text \<open>The parts of a line: as many tokens as the new group counts.\<close>

lemma flight_ok_split:
  assumes ok: "flight_ok F A G n" and r: "req_callback r = Some cb" "whole_cb (Some cb)" and k: "0 < k" "size P = nat k"
    and P: "\<forall>t \<in># P. fst t = Some (cb_split (length G))"
  shows "flight_ok (F + P) (if cb = cb_core then add_mset (req_addr r) A else A) (G @ [(k, r)]) (if cb = cb_writeback then n + 1 else n)"
proof -
  from P have p: "fills P = {#}" "writes P = 0" "\<And>g. g \<noteq> length G \<Longrightarrow> part_count P g = 0"
    by (auto simp: fills_def writes_def part_count_def filter_mset_eq_conv)
  have "filter_mset (\<lambda>t. fst t = Some (cb_split (length G))) P = P" using P by (simp add: filter_mset_eq_conv)
  then have q: "part_count P (length G) = k" using k by (simp add: part_count_def)
  from ok have z: "part_count F (length G) = 0" by (intro part_count_0) (simp add: flight_ok_def)
  have "part_count (F + P) g = fst ((G @ [(k, r)]) ! g)" if "g < length (G @ [(k, r)])" for g
    using ok that q z p(3) [of g] by (cases "g = length G") (auto simp: flight_ok_def nth_append)
  moreover have "\<exists>cb'. fst t = Some cb' \<and> cb' < cb_split (length (G @ [(k, r)]))" if "t \<in># F + P" for t
  proof -
    from that(1) consider "t \<in># F" | "t \<in># P" by auto
    then show ?thesis
    proof cases
      case 1
      with ok obtain cb' where "fst t = Some cb'" "cb' < cb_split (length G)" by (auto simp: flight_ok_def)
      then show ?thesis by (simp add: cb_split_def)
    next
      case 2
      with P show ?thesis by auto
    qed
  qed
  ultimately show ?thesis using ok r k p(1,2) by (auto simp: flight_ok_def whole_cb_def tok_def)
qed

section \<open>Completions\<close>

lemma flight_ok_fill:
  assumes "flight_ok (add_mset (Some cb_core, a) F) A G n"
  shows "a \<in># A" "flight_ok F (A - {#a#}) G n"
proof -
  from assms show "a \<in># A" by (auto simp: flight_ok_def)
  then obtain B where "A = add_mset a B" by (auto dest: multi_member_split)
  with assms show "flight_ok F (A - {#a#}) G n" by (simp add: flight_ok_def)
qed

lemma flight_ok_written:
  assumes "flight_ok (add_mset (Some cb_writeback, a) F) A G n"
  shows "0 < n" "flight_ok F A G (n - 1)"
  using assms tally_nonneg(1) [of F] tally_nonneg(1) [of "open_groups G"] by (auto simp: flight_ok_def)

lemma open_groups_update:
  assumes "g < length G" "G ! g = (k, r)" "0 < k"
  shows "open_groups G = (if k = 1 then add_mset (tok r) (open_groups (G[g := (k - 1, r)])) else open_groups (G[g := (k - 1, r)]))"
proof -
  have "open_groups (take g G @ (j, r) # drop (Suc g) G) =
      (if 0 < j then {#tok r#} else {#}) + (open_groups (take g G) + open_groups (drop (Suc g) G))" for j
    by (simp add: open_groups_def)
  note split = this
  have "open_groups G = open_groups (take g G @ (k, r) # drop (Suc g) G)" using id_take_nth_drop [OF assms(1)] assms(2) by simp
  then show ?thesis using assms(3) by (simp add: upd_conv_take_nth_drop [OF assms(1)] split)
qed

text \<open>A part came back: the group counts it, and the last one stands for the whole request.\<close>

lemma flight_ok_part:
  assumes ok: "flight_ok (add_mset (Some (cb_split g), a) F) A G n"
  shows "g < length G" "0 < fst (G ! g)" "whole_cb (req_callback (snd (G ! g)))"
    "flight_ok (if fst (G ! g) = 1 then add_mset (tok (snd (G ! g))) F else F) A (G[g := (fst (G ! g) - 1, snd (G ! g))]) n"
proof -
  let ?k = "fst (G ! g)" and ?r = "snd (G ! g)" and ?G = "G[g := (fst (G ! g) - 1, snd (G ! g))]"
  from ok show g: "g < length G" by (simp add: flight_ok_def)
  with ok have "1 + part_count F g = ?k" by (force simp: flight_ok_def)
  then have k: "0 < ?k" and pc: "part_count F g = ?k - 1" using tally_nonneg(2) [of F g] by simp_all
  show "0 < ?k" by (fact k)
  show w: "whole_cb (req_callback ?r)" using ok g by (simp add: flight_ok_def)
  have og: "open_groups G = (if ?k = 1 then add_mset (tok ?r) (open_groups ?G) else open_groups ?G)"
    using open_groups_update [OF g _ k, of ?r] by simp
  let ?F = "if ?k = 1 then add_mset (tok ?r) F else F"
  have "part_count ?F h = part_count F h" for h using w by (auto simp: whole_cb_def tok_def)
  moreover have "part_count F h = fst (G ! h)" if "h < length G" "h \<noteq> g" for h
    using ok that by (auto simp: flight_ok_def split: if_splits)
  ultimately have "part_count ?F h = fst (?G ! h)" if "h < length G" for h using that pc by (cases "h = g") simp_all
  moreover have "fills (?F + open_groups ?G) = fills (F + open_groups G)" "writes (?F + open_groups ?G) = writes (F + open_groups G)"
    unfolding og by simp_all
  moreover have "\<exists>cb. fst t = Some cb \<and> cb < cb_split (length G)" if "t \<in># ?F" for t
  proof -
    from that(1) have "t \<in># F \<or> t = tok ?r" by (auto split: if_splits)
    then show ?thesis
    proof
      assume "t \<in># F"
      with ok show ?thesis by (simp add: flight_ok_def)
    next
      assume "t = tok ?r"
      with w show ?thesis by (auto simp: whole_cb_def tok_def)
    qed
  qed
  moreover have "whole_cb (req_callback (snd h))" if "h \<in> set ?G" for h
    using that ok w set_update_subset_insert by (fastforce simp: flight_ok_def)
  ultimately show "flight_ok ?F A ?G n" using ok by (simp add: flight_ok_def split: if_splits)
qed

section \<open>The cache and its requests\<close>

definition request_ok :: "int \<Rightarrow> Request \<Rightarrow> bool" where
  "request_ok tx r \<longleftrightarrow> (req_type_id r = Type_Read \<or> req_type_id r = Type_Write) \<and> 0 < req_size_bytes r \<and> req_size_bytes r \<le> tx \<and>
     req_callback r \<noteq> None"

abbreviation toks :: "(Clk_t \<times> Request) list \<Rightarrow> token multiset" where
  "toks ms \<equiv> mset (map (tok \<circ> snd) ms)"

definition flow_inv :: "token multiset \<Rightarrow> SimpleO3LLC \<Rightarrow> bool" where
  "flow_inv F c \<longleftrightarrow> flight_ok F (mset (map fst (llc_mshrs c))) (llc_split_groups c) (s_internal_writebacks_live c)"

definition misses_ok :: "int \<Rightarrow> (Clk_t \<times> Request) list \<Rightarrow> bool" where
  "misses_ok tx ms \<longleftrightarrow> (\<forall>m \<in> set ms. request_ok tx (snd m))"

text \<open>With the requests \<open>F\<close> outside and the miss list inside.\<close>

definition mem_inv :: "int \<Rightarrow> token multiset \<Rightarrow> SimpleO3LLC \<Rightarrow> bool" where
  "mem_inv tx F c \<longleftrightarrow> flow_inv (F + toks (llc_miss_list c)) c \<and> misses_ok tx (llc_miss_list c)"

lemma enqueue_miss_frames [simp]:
  "llc_cfg (enqueue_miss tx clk req c) = llc_cfg c" "llc_mshrs (enqueue_miss tx clk req c) = llc_mshrs c"
  "s_internal_writebacks_live (enqueue_miss tx clk req c) = s_internal_writebacks_live c"
  "llc_hit_list (enqueue_miss tx clk req c) = llc_hit_list c" "llc_receive_requests (enqueue_miss tx clk req c) = llc_receive_requests c"
  by (simp_all add: enqueue_miss_def Let_def)

lemma enqueue_miss_flight:
  assumes ok: "flight_ok (F + toks (llc_miss_list c)) A (llc_split_groups c) n" and r: "req_callback req = Some cb" "whole_cb (Some cb)"
    and tx: "0 < tx" "0 < llc_linesize_bytes (llc_cfg c)"
  shows "flight_ok (F + toks (llc_miss_list (enqueue_miss tx clk req c))) (if cb = cb_core then add_mset (req_addr req) A else A)
    (llc_split_groups (enqueue_miss tx clk req c)) (if cb = cb_writeback then n + 1 else n)"
proof (cases "tx \<ge> llc_linesize_bytes (llc_cfg c)")
  case True
  then show ?thesis using flight_ok_whole [OF ok _ r(2), of "tok req" "req_addr req"] r(1) by (simp add: enqueue_miss_def tok_def)
next
  case False
  let ?k = "llc_linesize_bytes (llc_cfg c) div tx" and ?cb = "Some (cb_split (length (llc_split_groups c)))"
  define P where "P = mset (map (\<lambda>i. tok (miss_part c tx ?cb req i)) [0..?k - 1])"
  have k: "0 < ?k" using False tx by (simp add: pos_imp_zdiv_pos_iff)
  have "size P = nat ?k" "\<forall>t \<in># P. fst t = ?cb" by (auto simp: P_def tok_def miss_part_def)
  from flight_ok_split [OF ok r k this] False r(1) show ?thesis
    by (simp add: enqueue_miss_def Let_def P_def o_def add.assoc)
qed

lemma enqueue_miss_requests:
  assumes "misses_ok tx (llc_miss_list c)" "0 < tx" "0 < llc_linesize_bytes (llc_cfg c)" "req_type_id req = Type_Read \<or> req_type_id req = Type_Write"
    "req_size_bytes req = llc_linesize_bytes (llc_cfg c)" "req_callback req \<noteq> None"
  shows "misses_ok tx (llc_miss_list (enqueue_miss tx clk req c))"
  using assms by (auto simp: misses_ok_def request_ok_def enqueue_miss_def Let_def miss_part_def)

lemma evict_line_mem:
  assumes m: "mem_inv tx F c" and tx: "0 < tx" "0 < llc_linesize_bytes (llc_cfg c)"
  shows "mem_inv tx F (evict_line tx clk addr v c)"
proof (cases "l_dirty (get_set c addr ! v)")
  case False
  then show ?thesis using m by (simp add: evict_line_def Let_def mem_inv_def flow_inv_def put_set_def)
next
  case True
  let ?w = "writeback_of c (get_set c addr ! v)"
  define c1 where "c1 = c\<lparr>s_llc_eviction := s_llc_eviction c + 1, s_internal_writebacks_generated := s_internal_writebacks_generated c + 1,
      s_internal_writebacks_live := s_internal_writebacks_live c + 1\<rparr>"
  define c2 where "c2 = enqueue_miss tx clk ?w c1"
  have f: "llc_cfg c1 = llc_cfg c" "llc_mshrs c1 = llc_mshrs c" "llc_miss_list c1 = llc_miss_list c" "llc_split_groups c1 = llc_split_groups c"
    "s_internal_writebacks_live c1 = s_internal_writebacks_live c + 1" by (simp_all add: c1_def)
  have w: "req_callback ?w = Some cb_writeback" "req_type_id ?w = Type_Write" "req_size_bytes ?w = llc_linesize_bytes (llc_cfg c)"
    by (simp_all add: writeback_of_def request_ctor_defs)
  from m have "flight_ok (F + toks (llc_miss_list c1)) (mset (map fst (llc_mshrs c))) (llc_split_groups c1) (s_internal_writebacks_live c)"
    "misses_ok tx (llc_miss_list c1)" by (simp_all add: mem_inv_def flow_inv_def f)
  note m1 = this
  from enqueue_miss_flight [OF m1(1) w(1), of tx clk] enqueue_miss_requests [OF m1(2) tx(1), of ?w clk] w tx have "mem_inv tx F c2"
    by (simp add: mem_inv_def flow_inv_def c2_def f whole_cb_def)
  moreover have "evict_line tx clk addr v c = put_set addr (erase_pos v (get_set c addr)) c2"
    using True by (simp add: evict_line_def Let_def c1_def c2_def)
  ultimately show ?thesis by (simp add: mem_inv_def flow_inv_def put_set_def)
qed

section \<open>What a send changes\<close>

definition live_requests :: "SimpleO3LLC \<Rightarrow> LogicalRequest multiset" where
  "live_requests c = hit_requests (llc_hit_list c) + bucket_requests (llc_receive_requests c)"

text \<open>One more live request, of the given request and type.\<close>

definition admits :: "Request \<Rightarrow> int \<Rightarrow> SimpleO3LLC \<Rightarrow> SimpleO3LLC \<Rightarrow> bool" where
  "admits req ty c c' \<longleftrightarrow> (\<exists>r. live_requests c' = add_mset r (live_requests c) \<and> key_of r = logical_key req \<and> lr_original_type r = ty)"

lemma begin_effect:
  assumes "begin_logical_request clk req ty path c = Inr (lr, c')"
  shows "lr_req lr = req" "lr_original_type lr = ty" "llc_cfg c' = llc_cfg c" "llc_mshrs c' = llc_mshrs c" "llc_hit_list c' = llc_hit_list c"
    "llc_miss_list c' = llc_miss_list c" "llc_split_groups c' = llc_split_groups c" "llc_receive_requests c' = llc_receive_requests c"
    "s_internal_writebacks_live c' = s_internal_writebacks_live c"
  using assms by (auto simp: begin_logical_request_def split: if_splits)

lemma LLC_hit_effect:
  assumes "LLC_hit clk req i c = Inr c'"
  shows "admits req (req_type_id req) c c'" "mem_inv tx F c' = mem_inv tx F c" "llc_cfg c' = llc_cfg c"
proof -
  let ?s = "get_set c (req_addr req)"
  let ?l = "\<lparr>l_addr = req_addr req, l_tag = get_tag (llc_cfg c) (req_addr req), l_dirty = l_dirty (?s ! i) \<or> req_type_id req = Type_Write, l_ready = True\<rparr>"
  define c0 where "c0 = put_set (req_addr req) (erase_pos i ?s @ [?l]) c"
  have f: "llc_miss_list c0 = llc_miss_list c" "llc_split_groups c0 = llc_split_groups c"
    "s_internal_writebacks_live c0 = s_internal_writebacks_live c" by (simp_all add: c0_def put_set_def)
  have g: "llc_cfg c0 = llc_cfg c" "llc_mshrs c0 = llc_mshrs c" "llc_hit_list c0 = llc_hit_list c" "llc_receive_requests c0 = llc_receive_requests c"
    by (simp_all add: c0_def)
  from assms obtain lr c1 where b: "begin_logical_request clk req (req_type_id req) Path_Hit c0 = Inr (lr, c1)"
    and c': "c' = c1\<lparr>llc_hit_list := llc_hit_list c1 @ [(clk + llc_latency (llc_cfg c1), lr)]\<rparr>"
    by (auto simp: LLC_hit_def Let_def c0_def bindR_eq_Inr_iff)
  note e = begin_effect [OF b]
  show "admits req (req_type_id req) c c'" unfolding admits_def
    by (rule exI [of _ lr]) (simp add: live_requests_def c' e g)
  show "mem_inv tx F c' = mem_inv tx F c" by (simp add: mem_inv_def flow_inv_def c' e f g)
  show "llc_cfg c' = llc_cfg c" by (simp add: c' e g)
qed

lemma update_line_flow [simp]:
  "llc_miss_list (update_line p f c) = llc_miss_list c" "llc_split_groups (update_line p f c) = llc_split_groups c"
  "s_internal_writebacks_live (update_line p f c) = s_internal_writebacks_live c"
  by (simp_all add: update_line_def)

lemma LLC_merge_effect:
  assumes m: "LLC_merge clk req ty dirty m c = Inr c'" and d: "distinct (map fst (llc_receive_requests c))"
  shows "admits req ty c c'" "mem_inv tx F c' = mem_inv tx F c" "llc_cfg c' = llc_cfg c"
proof -
  let ?o = "fst (llc_mshrs c ! m)"
  from m obtain rs lr c1 where rs: "map_of (llc_receive_requests c) ?o = Some rs"
    and b: "begin_logical_request clk req ty Path_MSHRMerge c = Inr (lr, c1)"
    and c': "c' = update_line (snd (llc_mshrs c ! m)) (\<lambda>l. l\<lparr>l_dirty := dirty \<or> l_dirty l\<rparr>)
      (c1\<lparr>llc_receive_requests := AList.update ?o (rs @ [lr]) (llc_receive_requests c1)\<rparr>)"
    by (auto simp: LLC_merge_def Let_def bindR_eq_Inr_iff split: prod.splits option.splits)
  note e = begin_effect [OF b]
  show "admits req ty c c'" unfolding admits_def
    by (rule exI [of _ lr]) (simp add: live_requests_def c' e bucket_append(2) [OF d rs])
  show "mem_inv tx F c' = mem_inv tx F c" by (simp add: mem_inv_def flow_inv_def c' e)
  show "llc_cfg c' = llc_cfg c" by (simp add: c' e)
qed

lemma evict_line_live: "live_requests (evict_line tx clk addr v c) = live_requests c" "llc_cfg (evict_line tx clk addr v c) = llc_cfg c"
  by (simp_all add: live_requests_def evict_line_def Let_def)

lemma push_line_frames [simp]:
  "llc_cfg (push_line a c) = llc_cfg c" "llc_mshrs (push_line a c) = llc_mshrs c" "llc_hit_list (push_line a c) = llc_hit_list c"
  "llc_receive_requests (push_line a c) = llc_receive_requests c" "llc_miss_list (push_line a c) = llc_miss_list c"
  "llc_split_groups (push_line a c) = llc_split_groups c" "s_internal_writebacks_live (push_line a c) = s_internal_writebacks_live c"
  by (simp_all add: push_line_def) (simp_all add: put_set_def)

lemma LLC_miss_effect:
  assumes m: "LLC_miss tx clk req ty dirty c = Inr c'" and tx: "0 < tx" "0 < llc_linesize_bytes (llc_cfg c)"
    and r: "req_type_id req = Type_Read" "req_callback req = Some cb_core"
  shows "admits req ty c c'" "mem_inv tx F c \<Longrightarrow> mem_inv tx F c'" "llc_cfg c' = llc_cfg c"
proof -
  let ?a = "req_addr req"
  from m obtain cl lr c4 where al: "allocate_line tx clk ?a c = Inr (Some cl)"
    and no: "map_of (llc_receive_requests cl) ?a = None"
    and b: "begin_logical_request clk req ty Path_MissOwner
      ((update_line (get_index (llc_cfg cl) ?a, get_tag (llc_cfg cl) ?a) (\<lambda>l. l\<lparr>l_dirty := dirty\<rparr>) cl)
        \<lparr>llc_mshrs := llc_mshrs cl @ [(?a, get_index (llc_cfg cl) ?a, get_tag (llc_cfg cl) ?a)]\<rparr>) = Inr (lr, c4)"
    and c': "c' = enqueue_miss tx clk (req\<lparr>req_size_bytes := llc_linesize_bytes (llc_cfg c4)\<rparr>)
      (c4\<lparr>llc_receive_requests := AList.update ?a [lr] (llc_receive_requests c4)\<rparr>)"
    by (auto simp: LLC_miss_def Let_def bindR_eq_Inr_iff split: option.splits if_splits)
  note e = begin_effect [OF b]
  from al obtain c0 where cl: "cl = push_line ?a c0" and c0: "c0 = c \<or> (\<exists>v. c0 = evict_line tx clk ?a v c)"
    by (auto simp: allocate_line_def bindR_eq_Inr_iff split: if_splits option.splits)
  have f: "llc_cfg c0 = llc_cfg c" "live_requests c0 = live_requests c" using c0 evict_line_live by auto
  have k: "?a \<notin> fst ` set (llc_receive_requests c0)" using no by (simp add: cl map_of_eq_None_iff)
  show "llc_cfg c' = llc_cfg c" by (simp add: c' e cl f)
  show "admits req ty c c'" unfolding admits_def
    by (rule exI [of _ lr]) (use f(2) in \<open>simp add: live_requests_def c' e cl bucket_new [OF k]\<close>)
  assume "mem_inv tx F c"
  with c0 evict_line_mem tx have m0: "mem_inv tx F c0" by auto
  let ?c5 = "c4\<lparr>llc_receive_requests := AList.update ?a [lr] (llc_receive_requests c4)\<rparr>"
  let ?r = "req\<lparr>req_size_bytes := llc_linesize_bytes (llc_cfg c4)\<rparr>"
  from m0 have "flight_ok (F + toks (llc_miss_list ?c5)) (mset (map fst (llc_mshrs c0))) (llc_split_groups ?c5) (s_internal_writebacks_live ?c5)"
    "misses_ok tx (llc_miss_list ?c5)" by (simp_all add: mem_inv_def flow_inv_def e cl)
  note m5 = this
  have g: "llc_cfg ?c5 = llc_cfg c" "llc_mshrs ?c5 = llc_mshrs c0 @ [(?a, get_index (llc_cfg cl) ?a, get_tag (llc_cfg cl) ?a)]" by (simp_all add: e cl f)
  from enqueue_miss_flight [OF m5(1), of ?r cb_core tx clk] enqueue_miss_requests [OF m5(2) tx(1), of ?r clk] r tx(1,2) g
  show "mem_inv tx F c'" unfolding mem_inv_def flow_inv_def c' by (simp add: whole_cb_def)
qed

lemma counted_flow [simp]:
  "mem_inv tx F (count_access req c) = mem_inv tx F c" "mem_inv tx F (count_miss req c) = mem_inv tx F c"
  "live_requests (count_access req c) = live_requests c" "live_requests (count_miss req c) = live_requests c"
  by (simp_all add: mem_inv_def flow_inv_def live_requests_def count_access_def count_miss_def)

lemma put_set_flow [simp]: "mem_inv tx F (put_set a s c) = mem_inv tx F c" "live_requests (put_set a s c) = live_requests c"
  by (simp_all add: mem_inv_def flow_inv_def live_requests_def put_set_def)

text \<open>
  A request of a core: it is admitted under its identity, or refused and nothing is live
  that was not.
\<close>

lemma LLC_send_effect:
  assumes s: "LLC_send tx clk req c = Inr (ok, c')" and inv: "llc_inv clk X c" and m: "mem_inv tx F c"
    and tx: "0 < tx" and cb: "req_callback req = Some cb_core"
  shows "mem_inv tx F c'" "ok \<Longrightarrow> admits req (req_type_id req) c c'" "\<not> ok \<Longrightarrow> live_requests c' = live_requests c" "llc_cfg c' = llc_cfg c"
proof -
  let ?a = "req_addr req" and ?rd = "req\<lparr>req_type_id := Type_Read\<rparr>" and ?d = "req_type_id req = Type_Write"
  define c0 where "c0 = count_access req (put_set ?a (get_set c ?a) c)"
  define c1 where "c1 = count_miss req c0"
  have l: "0 < llc_linesize_bytes (llc_cfg c1)" using inv by (simp add: c0_def c1_def llc_inv_def geometry_ok_def)
  have d: "distinct (map fst (llc_receive_requests c1))"
    using inv by (simp add: c0_def c1_def count_access_def count_miss_def llc_inv_def buckets_ok_def)
  have m1: "mem_inv tx F c0" "mem_inv tx F c1" using m by (simp_all add: c0_def c1_def)
  have v: "live_requests c0 = live_requests c" "live_requests c1 = live_requests c" "llc_cfg c0 = llc_cfg c" "llc_cfg c1 = llc_cfg c"
    by (simp_all add: c0_def c1_def)
  have a: "admits req (req_type_id req) c c'" if "admits ?rd (req_type_id req) c1 c' \<or> admits req (req_type_id req) c0 c'"
    using that by (simp add: admits_def v logical_key_def)
  from s have "mem_inv tx F c' \<and> (ok \<longrightarrow> admits req (req_type_id req) c c') \<and> (\<not> ok \<longrightarrow> live_requests c' = live_requests c) \<and> llc_cfg c' = llc_cfg c"
  proof (cases rule: LLC_send_cases)
    case (hit i)
    then show ?thesis using LLC_hit_effect [OF hit(2) [folded c0_def]] m1(1) a by (simp add: v)
  next
    case (merge i)
    then show ?thesis using LLC_merge_effect [OF merge(2) [folded c0_def, folded c1_def] d] m1(2) a by (simp add: v)
  next
    case full
    note full = full [folded c0_def, folded c1_def]
    have "mem_inv tx F c' = mem_inv tx F c1" "live_requests c' = live_requests c1" "llc_cfg c' = llc_cfg c1"
      unfolding full(2) by (simp_all add: mem_inv_def flow_inv_def live_requests_def)
    with full(1) m1(2) v show ?thesis by simp
  next
    case busy
    then show ?thesis using m1(2) v by (simp add: c0_def c1_def)
  next
    case miss
    then show ?thesis using LLC_miss_effect [OF miss(2) [folded c0_def, folded c1_def] tx l] m1(2) a cb by (simp add: v)
  qed
  then show "mem_inv tx F c'" "ok \<Longrightarrow> admits req (req_type_id req) c c'" "\<not> ok \<Longrightarrow> live_requests c' = live_requests c" "llc_cfg c' = llc_cfg c"
    by blast+
qed

section \<open>What a completion changes\<close>

lemma complete_effect:
  assumes "complete_logical_request clk r c = Inr c'"
  shows "live_requests c' = live_requests c" "mem_inv tx F c' = mem_inv tx F c" "llc_hit_list c' = llc_hit_list c"
    "llc_cfg c' = llc_cfg c" "flow_inv H c' = flow_inv H c" "llc_miss_list c' = llc_miss_list c"
  using assms by (auto simp: complete_logical_request_def live_requests_def mem_inv_def flow_inv_def split: if_splits)

lemma receive_effect:
  assumes inv: "llc_inv clk X c" and m: "req_addr req \<in> fst ` set (llc_mshrs c)"
  obtains rs c1 c2 where "take_receive_requests (req_addr req) c = Inr (rs, c1)" "LLC_receive req c1 = Inr c2"
    "llc_inv clk (mset rs + X) c2" "\<forall>r \<in> set rs. lr_path r \<noteq> Path_Hit" "llc_hit_list c2 = llc_hit_list c"
    "live_requests c = mset rs + live_requests c2" "llc_cfg c2 = llc_cfg c" "llc_miss_list c2 = llc_miss_list c"
    "\<And>F. flow_inv (add_mset (Some cb_core, req_addr req) F) c \<Longrightarrow> flow_inv F c2"
proof -
  let ?a = "req_addr req" and ?g = "llc_cfg c"
  obtain rs c1 c2 where o: "take_receive_requests ?a c = Inr (rs, c1)" "LLC_receive req c1 = Inr c2"
    "llc_inv clk (mset rs + X) c2" "\<forall>r \<in> set rs. lr_path r \<noteq> Path_Hit" "llc_hit_list c2 = llc_hit_list c"
    "map_of (llc_receive_requests c) ?a = Some rs" by (rule LLC_receive_inv [OF inv m])
  from inv have bd: "distinct (map fst (llc_receive_requests c))" and gok: "geometry_ok ?g"
    and mo: "mshrs_ok ?g (llc_mshrs c) (flights (lines (llc_cache_sets c)))" by (simp_all add: llc_inv_def buckets_ok_def)
  from o(1,6) have c1: "c1 = c\<lparr>llc_receive_requests := AList.delete ?a (llc_receive_requests c)\<rparr>"
    by (auto simp: take_receive_requests_def split: if_splits)
  from o(2) obtain i where i: "find_pos (\<lambda>x. align ?g (fst x) = align ?g ?a) (llc_mshrs c) = Some i"
    and c2: "c2 = (update_line (snd (llc_mshrs c ! i)) (\<lambda>l. l\<lparr>l_ready := True\<rparr>) c1)\<lparr>llc_mshrs := erase_pos i (llc_mshrs c)\<rparr>"
    by (auto simp: LLC_receive_def c1 split: option.splits)
  from i have l: "i < length (llc_mshrs c)" by (simp add: find_pos_Some)
  have f: "llc_cfg c2 = ?g" "llc_miss_list c2 = llc_miss_list c" "llc_split_groups c2 = llc_split_groups c"
    "s_internal_writebacks_live c2 = s_internal_writebacks_live c" "llc_mshrs c2 = erase_pos i (llc_mshrs c)"
    "llc_receive_requests c2 = AList.delete ?a (llc_receive_requests c)" by (simp_all add: c2 c1)
  have "live_requests c = mset rs + live_requests c2"
    using bucket_delete(2) [OF bd o(6)] by (simp add: live_requests_def o(5) f(6))
  moreover have "fst (llc_mshrs c ! i) = ?a"
  proof -
    obtain x where x: "x \<in> set (llc_mshrs c)" "fst x = ?a" using m by auto
    have "snd x = snd (llc_mshrs c ! i)" using mshrs_okD(4) [OF mo x(1)] mshrs_okD(4) [OF mo nth_mem [OF l]] i x(2) same_line [OF gok]
      by (simp add: find_pos_Some)
    then have "x = llc_mshrs c ! i" using mshrs_okD(1) [OF mo] x(1) nth_mem [OF l] by (metis distinct_map inj_onD)
    with x(2) show ?thesis by simp
  qed
  then have ms: "mset (map fst (llc_mshrs c)) = add_mset ?a (mset (map fst (llc_mshrs c2)))"
    unfolding f using mset_erase_pos [OF l] by simp
  have "flow_inv F c2" if "flow_inv (add_mset (Some cb_core, ?a) F) c" for F
    using flight_ok_fill(2) [OF that [unfolded flow_inv_def]] unfolding ms by (simp add: flow_inv_def f)
  ultimately show ?thesis using that [OF o(1-5)] f(1,2) by blast
qed

end
