(* ===== verification/O3_Inv.thy ===== *)
theory O3_Inv
  imports O3_Window LLC_Flow
begin

text \<open>
  The invariant of a core and that its tick keeps it and never throws: the counts of issued
  and retired instructions, the position in the trace, and the identities of the loads that
  wait in the window against the requests that are live in the cache.
\<close>

section \<open>The invariant\<close>

definition inst_ok :: "Inst \<Rightarrow> bool" where
  "inst_ok i \<longleftrightarrow> 0 \<le> bubble_count i \<and> (0 < bubble_count i \<or> load_addr i \<noteq> -1)"

definition trace_ok :: "Trace \<Rightarrow> bool" where
  "trace_ok t \<longleftrightarrow> t_trace t \<noteq> [] \<and> t_curr_trace_idx t \<le> length (t_trace t) \<and> (\<forall>i \<in> set (t_trace t). inst_ok i) \<and>
     t_instruction_count t = sum_list (map inst_count (t_trace t))"

definition consumed :: "Trace \<Rightarrow> int" where
  "consumed t = sum_list (map inst_count (take (t_curr_trace_idx t) (t_trace t)))"

definition unissued :: "SimpleO3Core \<Rightarrow> int" where
  "unissued c = c_num_bubbles c + (if c_load_addr c \<noteq> -1 then 1 else 0)"

definition o3_trace :: "SimpleO3Core \<Rightarrow> bool" where
  "o3_trace c \<longleftrightarrow> trace_ok (c_trace c) \<and> 0 \<le> c_num_bubbles c \<and>
     (\<not> t_allow_wrap (c_trace c) \<longrightarrow> c_num_expected_insts c \<le> t_instruction_count (c_trace c) \<and>
        (\<not> c_roi_issue_complete c \<longrightarrow> s_insts_issued c + unissued c = consumed (c_trace c)))"

definition o3_counts :: "SimpleO3Core \<Rightarrow> bool" where
  "o3_counts c \<longleftrightarrow>
     s_insts_issued c = s_insts_retired c + int (w_load (c_window c)) \<and>
     (if c_roi_issue_complete c then s_insts_issued c = c_num_expected_insts c else s_insts_issued c < c_num_expected_insts c) \<and>
     (c_reached_expected_num_insts c \<longleftrightarrow> c_num_expected_insts c \<le> s_insts_retired c)"

definition o3_flags :: "SimpleO3Core \<Rightarrow> bool" where
  "o3_flags c \<longleftrightarrow>
     (c_roi_issue_complete c \<longrightarrow> c_num_bubbles c = 0 \<and> c_load_addr c = -1) \<and>
     (c_issue_current_writeback_after_roi c \<longrightarrow> c_roi_issue_complete c \<and> c_writeback_addr c \<noteq> -1)"

text \<open>The identities and types of the live requests of a core.\<close>

definition live_of :: "int \<Rightarrow> LogicalRequest multiset \<Rightarrow> (int \<times> int) multiset" where
  "live_of i R = image_mset (\<lambda>r. (req_frontend_id (lr_req r), lr_original_type r)) (filter_mset (\<lambda>r. req_source_id (lr_req r) = i) R)"

definition waiting :: "entry list \<Rightarrow> int set" where
  "waiting es = e_id ` {e \<in> set es. \<not> e_ready e}"

definition window_ids :: "entry list \<Rightarrow> int list" where
  "window_ids es = filter (\<lambda>i. 0 \<le> i) (map e_id es)"

definition unique_ids :: "(int \<times> int) multiset \<Rightarrow> bool" where
  "unique_ids L \<longleftrightarrow> (\<forall>i. count (image_mset fst L) i \<le> 1)"

definition reads :: "(int \<times> int) multiset \<Rightarrow> int set" where
  "reads L = fst ` {p \<in> set_mset L. snd p = Type_Read}"

definition link_ok :: "(int \<times> int) multiset \<Rightarrow> int \<Rightarrow> entry list \<Rightarrow> bool" where
  "link_ok L next es \<longleftrightarrow>
     (\<forall>p \<in># L. 0 \<le> fst p \<and> fst p < next \<and> (snd p = Type_Read \<or> snd p = Type_Write)) \<and> unique_ids L \<and>
     distinct (window_ids es) \<and> (\<forall>i \<in> set (window_ids es). i < next) \<and> waiting es = reads L"

text \<open>The identities handed out and not yet used.\<close>

definition ids_ok :: "(int \<times> int) multiset \<Rightarrow> SimpleO3Core \<Rightarrow> bool" where
  "ids_ok L c \<longleftrightarrow> 0 \<le> c_next_frontend_id c \<and>
     (c_load_addr c \<noteq> -1 \<longrightarrow> 0 \<le> c_load_frontend_id c \<and> c_load_frontend_id c < c_next_frontend_id c \<and>
        c_load_frontend_id c \<notin> fst ` set_mset L \<and> c_load_frontend_id c \<notin> set (window_ids (entries (c_window c)))) \<and>
     (c_writeback_addr c \<noteq> -1 \<longrightarrow> 0 \<le> c_writeback_frontend_id c \<and> c_writeback_frontend_id c < c_next_frontend_id c \<and>
        c_writeback_frontend_id c \<notin> fst ` set_mset L) \<and>
     (c_load_addr c \<noteq> -1 \<and> c_writeback_addr c \<noteq> -1 \<longrightarrow> c_load_frontend_id c \<noteq> c_writeback_frontend_id c)"

definition core_ok :: "(int \<times> int) multiset \<Rightarrow> SimpleO3Core \<Rightarrow> bool" where
  "core_ok L c \<longleftrightarrow> win_ok (c_window c) \<and> 0 < w_ipc (c_window c) \<and> o3_trace c \<and> o3_counts c \<and> o3_flags c \<and>
     link_ok L (c_next_frontend_id c) (entries (c_window c)) \<and> ids_ok L c"

text \<open>Between ticks a core that still issues has something to issue.\<close>

definition has_work :: "SimpleO3Core \<Rightarrow> bool" where
  "has_work c \<longleftrightarrow> c_roi_issue_complete c \<or> 0 < c_num_bubbles c \<or> c_load_addr c \<noteq> -1 \<or> c_writeback_addr c \<noteq> -1"

section \<open>Windows and live requests\<close>

lemma waiting_simps [simp]:
  "waiting [] = {}" "waiting (e # es) = (if e_ready e then waiting es else insert (e_id e) (waiting es))"
  "waiting (es @ fs) = waiting es \<union> waiting fs"
  by (auto simp: waiting_def)

lemma window_ids_simps [simp]:
  "window_ids [] = []" "window_ids (e # es) = (if 0 \<le> e_id e then e_id e # window_ids es else window_ids es)"
  "window_ids (es @ fs) = window_ids es @ window_ids fs"
  by (simp_all add: window_ids_def)

lemma unique_ids_simps [simp]: "unique_ids {#}" "unique_ids (add_mset p L) \<longleftrightarrow> fst p \<notin> fst ` set_mset L \<and> unique_ids L"
proof -
  show "unique_ids {#}" by (simp add: unique_ids_def)
  have "count (image_mset fst L) (fst p) = 0 \<longleftrightarrow> fst p \<notin> fst ` set_mset L" by (simp add: count_eq_zero_iff)
  then show "unique_ids (add_mset p L) \<longleftrightarrow> fst p \<notin> fst ` set_mset L \<and> unique_ids L"
    unfolding unique_ids_def by (auto simp: le_Suc_eq)
qed

lemma reads_simps [simp]: "reads {#} = {}" "reads (add_mset p L) = (if snd p = Type_Read then insert (fst p) (reads L) else reads L)"
  by (auto simp: reads_def)

lemma link_ok_bubble: "link_ok L n es \<Longrightarrow> e_ready e \<Longrightarrow> e_id e < 0 \<Longrightarrow> link_ok L n (es @ [e])"
  by (simp add: link_ok_def)

lemma waiting_drop_ready: "n \<le> length (takeWhile e_ready es) \<Longrightarrow> waiting (drop n es) = waiting es"
proof (induction es arbitrary: n)
  case (Cons e es)
  then show ?case by (cases n) (auto split: if_splits)
qed simp

lemma window_ids_drop: "\<exists>xs. window_ids es = xs @ window_ids (drop n es)"
  by (metis append_take_drop_id window_ids_simps(3))

lemma link_ok_retire:
  assumes "link_ok L k es" "n \<le> length (takeWhile e_ready es)"
  shows "link_ok L k (drop n es)" "set (window_ids (drop n es)) \<subseteq> set (window_ids es)"
proof -
  obtain xs where "window_ids es = xs @ window_ids (drop n es)" using window_ids_drop by blast
  with assms waiting_drop_ready [OF assms(2)] show "link_ok L k (drop n es)" "set (window_ids (drop n es)) \<subseteq> set (window_ids es)"
    by (auto simp: link_ok_def)
qed

text \<open>A load enters the window and the cache together; a store only the cache.\<close>

lemma link_ok_load:
  assumes "link_ok L n es" "0 \<le> i" "i < n" "i \<notin> fst ` set_mset L" "i \<notin> set (window_ids es)" "e_id e = i" "\<not> e_ready e"
  shows "link_ok (add_mset (i, Type_Read) L) n (es @ [e])"
  using assms by (auto simp: link_ok_def)

lemma link_ok_store:
  assumes "link_ok L n es" "0 \<le> i" "i < n" "i \<notin> fst ` set_mset L"
  shows "link_ok (add_mset (i, Type_Write) L) n es"
  using assms by (auto simp: link_ok_def Type_Read_def Type_Write_def)

lemma link_ok_next: "link_ok L n es \<Longrightarrow> n \<le> m \<Longrightarrow> link_ok L m es"
  by (fastforce simp: link_ok_def)

text \<open>A completion leaves the cache; a completed load is marked in the window.\<close>

lemma marked_ids: "k < length es \<Longrightarrow> window_ids (es[k := (es ! k)\<lparr>e_ready := True\<rparr>]) = window_ids es"
  using list_update_id [of "map e_id es" k] by (simp add: window_ids_def map_update)

lemma distinct_filter_nth:
  "distinct (filter P xs) \<Longrightarrow> i < length xs \<Longrightarrow> j < length xs \<Longrightarrow> xs ! i = xs ! j \<Longrightarrow> P (xs ! i) \<Longrightarrow> i = j"
proof (induction xs arbitrary: i j)
  case (Cons x xs)
  then show ?case by (cases i; cases j) (auto split: if_splits)
qed simp

lemma link_ok_stored:
  assumes "link_ok (add_mset (i, Type_Write) L) n es"
  shows "link_ok L n es"
  using assms by (auto simp: link_ok_def Type_Read_def Type_Write_def)

lemma link_ok_loaded:
  assumes ok: "link_ok (add_mset (i, Type_Read) L) n es"
  obtains k where "find_pos (\<lambda>e. e_id e = i) es = Some k" "k < length es" "link_ok L n (es[k := (es ! k)\<lparr>e_ready := True\<rparr>])" "0 \<le> i"
proof -
  have i: "0 \<le> i" "i \<notin> fst ` set_mset L" and d: "distinct (window_ids es)"
    and w: "waiting es = insert i (reads L)" using ok by (auto simp: link_ok_def)
  from w have "i \<in> waiting es" by simp
  then have "find_pos (\<lambda>e. e_id e = i) es \<noteq> None" by (auto simp: find_pos_None waiting_def)
  then obtain k where f: "find_pos (\<lambda>e. e_id e = i) es = Some k" by blast
  then have k: "k < length es" "e_id (es ! k) = i" by (simp_all add: find_pos_Some)
  have only: "\<forall>j < length es. e_id (es ! j) = i \<longrightarrow> j = k"
    using distinct_filter_nth [OF d [unfolded window_ids_def], of _ k] k i(1) by auto
  let ?es = "es[k := (es ! k)\<lparr>e_ready := True\<rparr>]"
  have "waiting ?es = waiting es - {i}"
  proof -
    have "waiting es = waiting (take k es @ es ! k # drop (Suc k) es)" using id_take_nth_drop [OF k(1)] by simp
    moreover have "i \<notin> waiting (take k es)" using only by (fastforce simp: waiting_def in_set_conv_nth)
    moreover have "i \<notin> waiting (drop (Suc k) es)"
    proof
      assume "i \<in> waiting (drop (Suc k) es)"
      then obtain j where "j < length es - Suc k" "e_id (es ! (Suc k + j)) = i" by (auto simp: waiting_def in_set_conv_nth)
      with only have "Suc k + j = k" by auto
      then show False by simp
    qed
    moreover have "waiting ?es = waiting (take k es) \<union> waiting (drop (Suc k) es)" by (simp add: upd_conv_take_nth_drop [OF k(1)])
    ultimately show ?thesis using k(2) by auto
  qed
  also have "\<dots> = reads L" using w i(2) by (auto simp: reads_def)
  finally have "link_ok L n ?es" using ok by (simp add: link_ok_def marked_ids [OF k(1)])
  with f k(1) i(1) that show ?thesis by blast
qed

section \<open>Completions at the core\<close>

lemma core_okD:
  assumes "core_ok L c"
  shows "win_ok (c_window c)" "0 < w_ipc (c_window c)" "o3_trace c" "o3_counts c" "o3_flags c"
    "link_ok L (c_next_frontend_id c) (entries (c_window c))" "ids_ok L c"
  using assms by (simp_all add: core_ok_def)

text \<open>What a change of window and statistics keeps.\<close>

lemma core_frame [simp]:
  "o3_trace (c\<lparr>c_window := w\<rparr>) = o3_trace c" "o3_flags (c\<lparr>c_window := w\<rparr>) = o3_flags c"
  "w_load w = w_load (c_window c) \<Longrightarrow> o3_counts (c\<lparr>c_window := w\<rparr>) = o3_counts c"
  "core_ok L (c\<lparr>s_mem_access_cycles := x\<rparr>) = core_ok L c" "core_ok L (c\<lparr>c_last_mem_cycle := x\<rparr>) = core_ok L c"
  by (simp_all add: core_ok_def o3_trace_def unissued_def o3_counts_def o3_flags_def ids_ok_def)

lemma core_ok_window:
  assumes ok: "core_ok L c" and w: "win_ok w" "w_ipc w = w_ipc (c_window c)" "w_load w = w_load (c_window c)"
    "window_ids (entries w) = window_ids (entries (c_window c))" "link_ok L' (c_next_frontend_id c) (entries w)" "set_mset L' \<subseteq> set_mset L"
  shows "core_ok L' (c\<lparr>c_window := w\<rparr>)"
proof -
  note d = core_okD [OF ok]
  have "ids_ok L' (c\<lparr>c_window := w\<rparr>)" using d(7) w(4,6) by (auto simp: ids_ok_def)
  with d w show ?thesis by (simp add: core_ok_def)
qed

lemma Core_receive_ok:
  assumes ok: "core_ok (add_mset (req_frontend_id req, req_type_id req) L) c"
  shows "\<exists>c'. Core_receive req c = Inr c' \<and> core_ok L c' \<and> c_id c' = c_id c \<and> (has_work c \<longrightarrow> has_work c')"
proof -
  let ?w = "c_window c" and ?f = "req_frontend_id req"
  note d = core_okD [OF ok]
  have ty: "req_type_id req = Type_Read \<or> req_type_id req = Type_Write" using d(6) by (simp add: link_ok_def)
  show ?thesis
  proof (cases "req_type_id req = Type_Read")
    case False
    with ty have t: "req_type_id req = Type_Write" by simp
    have "link_ok L (c_next_frontend_id c) (entries ?w)" using link_ok_stored d(6) unfolding t by blast
    with core_ok_window [OF ok d(1), of L] have "core_ok L (c\<lparr>c_window := ?w\<rparr>)" by auto
    then show ?thesis using False t by (simp add: Core_receive_def)
  next
    case True
    obtain k where k: "find_pos (\<lambda>e. e_id e = ?f) (entries ?w) = Some k" "k < length (entries ?w)"
      "link_ok L (c_next_frontend_id c) ((entries ?w)[k := (entries ?w ! k)\<lparr>e_ready := True\<rparr>])" "0 \<le> ?f"
      by (rule link_ok_loaded [OF d(6) [unfolded True]])
    define w where "w = marked k ?w"
    have l: "k < w_load ?w" using k(2) by simp
    note m = marked_entries [OF d(1) l, folded w_def]
    have "w_load w = w_load ?w" by (simp add: w_def marked_def)
    then have c1: "core_ok L (c\<lparr>c_window := w\<rparr>)"
      using k(3) marked_ids [OF k(2)] by (intro core_ok_window [OF ok m(1,3)]) (simp_all add: m(2) True subset_insertI)
    have s: "set_ready ?f ?w = Inr (True, w)" using set_ready_entries [OF d(1) k(4)] k(1) by (simp add: w_def)
    with c1 s True show ?thesis by (simp add: Core_receive_def Let_def has_work_def)
  qed
qed

section \<open>Retiring\<close>

lemma takeWhile_take_length: "length (takeWhile P (take m xs)) \<le> length (takeWhile P xs)"
proof (induction xs arbitrary: m)
  case (Cons x xs)
  then show ?case by (cases m) simp_all
qed simp

lemma retire_stage_ok:
  assumes ok: "core_ok L c"
  shows "\<exists>c'. retire_stage clk c = Inr c' \<and> core_ok L c' \<and> c_id c' = c_id c \<and> has_work c' = has_work c"
proof -
  note d = core_okD [OF ok]
  let ?es = "entries (c_window c)"
  obtain n w where r: "retire (c_window c) = Inr (n, w)" "win_ok w" "w_ipc w = w_ipc (c_window c)"
    and n: "n = length (takeWhile e_ready (take (w_ipc (c_window c)) ?es))" and e: "entries w = drop n ?es"
    by (rule retire_entries [OF d(1)])
  have le: "n \<le> length (takeWhile e_ready ?es)"
    unfolding n by (rule takeWhile_take_length)
  note lk = link_ok_retire [OF d(6) le, folded e]
  have ld: "w_load w = w_load (c_window c) - n" "n \<le> w_load (c_window c)"
    using arg_cong [OF e, of length] le length_takeWhile_le [of e_ready ?es] by simp_all
  define c1 where "c1 = c\<lparr>c_window := w, s_insts_retired := s_insts_retired c + int n\<rparr>"
  define c2 where "c2 = (if \<not> c_reached_expected_num_insts c1 \<and> s_insts_retired c1 \<ge> c_num_expected_insts c1
    then c1\<lparr>c_reached_expected_num_insts := True, s_cycles_recorded := clk\<rparr> else c1)"
  have fields: "c_window c2 = w" "s_insts_retired c2 = s_insts_retired c + int n" "c_id c2 = c_id c" "c_trace c2 = c_trace c"
    "c_num_bubbles c2 = c_num_bubbles c" "c_load_addr c2 = c_load_addr c" "c_writeback_addr c2 = c_writeback_addr c"
    "c_load_frontend_id c2 = c_load_frontend_id c" "c_writeback_frontend_id c2 = c_writeback_frontend_id c"
    "c_next_frontend_id c2 = c_next_frontend_id c" "c_roi_issue_complete c2 = c_roi_issue_complete c"
    "c_issue_current_writeback_after_roi c2 = c_issue_current_writeback_after_roi c" "c_num_expected_insts c2 = c_num_expected_insts c"
    "s_insts_issued c2 = s_insts_issued c" by (simp_all add: c2_def c1_def)
  have "c_reached_expected_num_insts c2 = (c_reached_expected_num_insts c \<or> s_insts_retired c2 \<ge> c_num_expected_insts c)"
    by (simp add: c2_def c1_def)
  then have "o3_counts c2" using d(4) ld unfolding o3_counts_def fields by (auto simp: of_nat_diff split: if_splits)
  moreover have "o3_trace c2 = o3_trace c" "o3_flags c2 = o3_flags c" "has_work c2 = has_work c"
    by (simp_all add: o3_trace_def o3_flags_def unissued_def has_work_def fields)
  moreover have "ids_ok L c2" using d(7) lk(2) unfolding ids_ok_def fields by blast
  moreover have "retire_stage clk c = Inr c2" using r(1) by (simp add: retire_stage_def c2_def c1_def Let_def)
  ultimately show ?thesis using d lk(1) r(2,3) by (simp add: core_ok_def fields)
qed

section \<open>Issuing\<close>

text \<open>Right after an instruction was issued: the end of the region of interest is still to be noticed.\<close>

definition core_mid :: "(int \<times> int) multiset \<Rightarrow> SimpleO3Core \<Rightarrow> bool" where
  "core_mid L c \<longleftrightarrow> win_ok (c_window c) \<and> 0 < w_ipc (c_window c) \<and> o3_trace c \<and>
     (s_insts_issued c = s_insts_retired c + int (w_load (c_window c)) \<and> s_insts_issued c \<le> c_num_expected_insts c \<and>
      (c_reached_expected_num_insts c \<longleftrightarrow> c_num_expected_insts c \<le> s_insts_retired c)) \<and>
     (\<not> c_roi_issue_complete c \<and> \<not> c_issue_current_writeback_after_roi c) \<and>
     link_ok L (c_next_frontend_id c) (entries (c_window c)) \<and> ids_ok L c"

lemma core_mid_ok: "core_mid L c \<Longrightarrow> s_insts_issued c \<noteq> c_num_expected_insts c \<Longrightarrow> core_ok L c"
  by (simp add: core_mid_def core_ok_def o3_counts_def o3_flags_def)

lemma finish_issue_roi_ok:
  assumes m: "core_mid L c" and e: "s_insts_issued c = c_num_expected_insts c"
  shows "\<exists>c'. finish_issue_roi keep c = Inr c' \<and> core_ok L c' \<and> c_id c' = c_id c \<and> has_work c'"
proof -
  let ?keep = "keep \<and> c_writeback_addr c \<noteq> -1"
  define c' where "c' = c\<lparr>c_roi_issue_complete := True, c_issue_current_writeback_after_roi := ?keep, c_num_bubbles := 0,
    c_load_addr := -1, c_writeback_addr := (if ?keep then c_writeback_addr c else -1)\<rparr>"
  have f: "c_window c' = c_window c" "c_next_frontend_id c' = c_next_frontend_id c" "c_id c' = c_id c" "c_roi_issue_complete c'"
    by (simp_all add: c'_def)
  have "o3_trace c'" using m by (simp add: core_mid_def o3_trace_def c'_def)
  moreover have "o3_counts c'" using m e by (auto simp: core_mid_def o3_counts_def c'_def)
  moreover have "o3_flags c'" by (simp add: o3_flags_def c'_def)
  moreover have "ids_ok L c'" using m by (simp add: core_mid_def ids_ok_def c'_def)
  ultimately have "core_ok L c'" using m by (simp add: core_ok_def core_mid_def f)
  then show ?thesis using e f by (simp add: finish_issue_roi_def c'_def Let_def has_work_def)
qed

text \<open>Issuing one instruction: a bubble or the load.\<close>

lemma issue_mid:
  assumes ok: "core_ok L c" and r: "\<not> c_roi_issue_complete c" and w: "win_ok w" "w_ipc w = w_ipc (c_window c)" "entries w = entries (c_window c) @ [e]"
    and c': "c' = c\<lparr>c_window := w, s_insts_issued := s_insts_issued c + 1, c_num_bubbles := b, c_load_addr := a\<rparr>"
    and b: "0 \<le> b" "unissued c' = unissued c - 1"
    and l: "link_ok L' (c_next_frontend_id c) (entries w)" "ids_ok L' c'"
  shows "core_mid L' c'"
proof -
  note d = core_okD [OF ok]
  have f: "c_window c' = w" "c_trace c' = c_trace c" "c_num_expected_insts c' = c_num_expected_insts c" "s_insts_issued c' = s_insts_issued c + 1"
    "s_insts_retired c' = s_insts_retired c" "c_roi_issue_complete c' = c_roi_issue_complete c" "c_next_frontend_id c' = c_next_frontend_id c"
    "c_issue_current_writeback_after_roi c' = c_issue_current_writeback_after_roi c" "c_num_bubbles c' = b"
    "c_reached_expected_num_insts c' = c_reached_expected_num_insts c" by (simp_all add: c')
  have ld: "w_load w = w_load (c_window c) + 1" using arg_cong [OF w(3), of length] by simp
  have "o3_trace c'" using d(3) b unfolding o3_trace_def f by simp
  moreover have "\<not> c_issue_current_writeback_after_roi c" using d(5) r by (simp add: o3_flags_def)
  ultimately show ?thesis using d(2,4) r w l ld unfolding core_mid_def o3_counts_def f by auto
qed

lemma bubble_loop_ok:
  assumes "core_ok L c" "\<not> c_roi_issue_complete c"
  shows "\<exists>ret n c'. bubble_loop k c = Inr (ret, n, c') \<and> core_ok L c' \<and> c_id c' = c_id c \<and>
    (if ret then has_work c' else \<not> c_roi_issue_complete c' \<and> c_num_bubbles c' = 0)"
  using assms
proof (induction k c rule: bubble_loop.induct)
  case (1 k c)
  note d = core_okD [OF 1(2)]
  consider (none) "\<not> c_num_bubbles c > 0" | (stop) "c_num_bubbles c > 0" "k = w_ipc (c_window c) \<or> is_full (c_window c)"
    | (go) "c_num_bubbles c > 0" "k \<noteq> w_ipc (c_window c)" "\<not> is_full (c_window c)" by blast
  then show ?case
  proof cases
    case none
    moreover have "0 \<le> c_num_bubbles c" using d(3) by (simp add: o3_trace_def)
    ultimately show ?thesis using 1(2,3) by (auto simp: bubble_loop.simps [of k c])
  next
    case stop
    then show ?thesis using 1(2,3) by (auto simp: bubble_loop.simps [of k c] has_work_def)
  next
    case go
    obtain w where w: "win_insert True (-1) (-1) (c_window c) = Inr w" "win_ok w" "w_ipc w = w_ipc (c_window c)"
      and e: "entries w = entries (c_window c) @ [\<lparr>e_ready = True, e_addr = -1, e_id = -1\<rparr>]"
      using win_insert_entries [OF d(1) go(3)] by blast
    define c1 where "c1 = c\<lparr>c_window := w, s_insts_issued := s_insts_issued c + 1, c_num_bubbles := c_num_bubbles c - 1\<rparr>"
    have ids: "ids_ok L c1" using d(7) by (simp add: c1_def ids_ok_def e)
    have mid: "core_mid L c1"
      by (rule issue_mid [OF 1(2,3) w(2,3) e, where b = "c_num_bubbles c - 1" and a = "c_load_addr c"])
         (use go(1) ids link_ok_bubble [OF d(6)] in \<open>simp_all add: c1_def unissued_def e\<close>)
    have s: "bubble_loop k c = (if s_insts_issued c1 = c_num_expected_insts c1
        then bindR (finish_issue_roi False c1) (\<lambda>c2. Inr (True, k + 1, c2)) else bubble_loop (k + 1) c1)"
      using go w(1) by (simp add: bubble_loop.simps [of k c] c1_def Let_def)
    show ?thesis
    proof (cases "s_insts_issued c1 = c_num_expected_insts c1")
      case True
      from finish_issue_roi_ok [OF mid True, of False] show ?thesis using True by (auto simp: s c1_def)
    next
      case False
      have "\<not> c_roi_issue_complete c1" using 1(3) by (simp add: c1_def)
      from 1(1) [OF go(1-3) w(1) c1_def False core_mid_ok [OF mid False] this] show ?thesis using False by (simp add: s c1_def)
    qed
  qed
qed

section \<open>Fetching\<close>

lemma get_next_inst_ok:
  assumes ok: "trace_ok t" and more: "\<not> t_allow_wrap t \<Longrightarrow> consumed t < t_instruction_count t"
  shows "\<exists>i t'. get_next_inst t = Inr (i, t') \<and> inst_ok i \<and> trace_ok t' \<and> t_instruction_count t' = t_instruction_count t \<and>
    t_allow_wrap t' = t_allow_wrap t \<and> (\<not> t_allow_wrap t \<longrightarrow> consumed t' = consumed t + inst_count i)"
proof (cases "t_curr_trace_idx t = length (t_trace t)")
  case True
  then have "consumed t = t_instruction_count t" using ok by (simp add: consumed_def trace_ok_def)
  with more have "t_allow_wrap t" by auto
  moreover have "t_trace t ! 0 \<in> set (t_trace t)" "1 \<le> length (t_trace t)" using ok by (auto simp: trace_ok_def Suc_le_eq)
  ultimately show ?thesis using True ok by (simp add: get_next_inst_def trace_ok_def)
next
  case False
  then have l: "t_curr_trace_idx t < length (t_trace t)" using ok by (simp add: trace_ok_def)
  then have "t_trace t ! t_curr_trace_idx t \<in> set (t_trace t)" by simp
  with False l ok show ?thesis by (simp add: get_next_inst_def trace_ok_def consumed_def take_Suc_conv_app_nth Suc_le_eq)
qed

lemma fetch_ok:
  assumes ok: "core_ok L c" and r: "\<not> c_roi_issue_complete c" "c_num_bubbles c = 0" "c_load_addr c = -1" "c_writeback_addr c = -1"
  shows "\<exists>c'. fetch_next_trace_inst c = Inr c' \<and> core_ok L c' \<and> c_id c' = c_id c \<and> has_work c'"
proof -
  note d = core_okD [OF ok]
  let ?n = "c_next_frontend_id c"
  have "consumed (c_trace c) < t_instruction_count (c_trace c)" if "\<not> t_allow_wrap (c_trace c)"
    using that d(3,4) r by (simp add: o3_trace_def o3_counts_def unissued_def)
  then obtain i t where g: "get_next_inst (c_trace c) = Inr (i, t)" "inst_ok i" "trace_ok t" "t_instruction_count t = t_instruction_count (c_trace c)"
    "t_allow_wrap t = t_allow_wrap (c_trace c)" and cs: "\<not> t_allow_wrap (c_trace c) \<longrightarrow> consumed t = consumed (c_trace c) + inst_count i"
    using get_next_inst_ok [of "c_trace c"] d(3) unfolding o3_trace_def by blast
  define n1 where "n1 = (if load_addr i \<noteq> -1 then ?n + 1 else ?n)"
  define n2 where "n2 = (if store_addr i \<noteq> -1 then n1 + 1 else n1)"
  define c' where "c' = c\<lparr>c_trace := t, c_num_bubbles := bubble_count i, c_load_addr := load_addr i, c_writeback_addr := store_addr i,
    c_load_frontend_id := (if load_addr i \<noteq> -1 then ?n else -1), c_writeback_frontend_id := (if store_addr i \<noteq> -1 then n1 else -1),
    c_next_frontend_id := n2\<rparr>"
  have f: "c_window c' = c_window c" "c_next_frontend_id c' = n2" "c_id c' = c_id c" by (simp_all add: c'_def)
  have n: "?n \<le> n1" "n1 \<le> n2" by (simp_all add: n1_def n2_def)
  have new: "k \<notin> fst ` set_mset L" "k \<notin> set (window_ids (entries (c_window c)))" if "?n \<le> k" for k
    using d(6) that by (auto simp: link_ok_def)
  have "o3_trace c'" using d(3) g(2-5) cs r by (simp add: o3_trace_def c'_def unissued_def inst_count_def inst_ok_def)
  moreover have "o3_counts c'" "o3_flags c'" using d(4,5) r(1) by (simp_all add: o3_counts_def o3_flags_def c'_def)
  moreover have "ids_ok L c'" using d(7) new [of ?n] new [of n1] n
    by (simp add: ids_ok_def c'_def) (simp add: n1_def n2_def)
  moreover have "link_ok L n2 (entries (c_window c))" by (rule link_ok_next [OF d(6)]) (use n in simp)
  ultimately have "core_ok L c'" using d(1,2) by (simp add: core_ok_def f)
  moreover have "has_work c'" using g(2) by (auto simp: has_work_def c'_def inst_ok_def)
  moreover have "fetch_next_trace_inst c = Inr c'" using r(1) g(1) by (simp add: fetch_next_trace_inst_def c'_def n1_def n2_def Let_def)
  ultimately show ?thesis using f(3) by blast
qed

section \<open>Sending\<close>

definition llc_ok :: "int \<Rightarrow> Clk_t \<Rightarrow> token multiset \<Rightarrow> SimpleO3LLC \<Rightarrow> bool" where
  "llc_ok tx clk F llc \<longleftrightarrow> llc_inv clk {#} llc \<and> mem_inv tx F llc"

abbreviation live_at :: "int \<Rightarrow> SimpleO3LLC \<Rightarrow> (int \<times> int) multiset" where
  "live_at i llc \<equiv> live_of i (live_requests llc)"

lemma live_of_add [simp]:
  "live_of i (add_mset r R) = (if req_source_id (lr_req r) = i then add_mset (req_frontend_id (lr_req r), lr_original_type r) (live_of i R) else live_of i R)"
  by (simp add: live_of_def)

lemma live_of_union [simp]: "live_of i (R + S) = live_of i R + live_of i S" "live_of i {#} = {#}"
  by (simp_all add: live_of_def)

lemma live_of_mem: "p \<in># live_of i R \<longleftrightarrow> (\<exists>r \<in># R. req_source_id (lr_req r) = i \<and> p = (req_frontend_id (lr_req r), lr_original_type r))"
  by (auto simp: live_of_def)

text \<open>An identity the core has not in use is not live.\<close>

lemma fresh_key:
  assumes "llc_inv clk {#} llc" "req_frontend_id req \<notin> fst ` set_mset (live_at (req_source_id req) llc)"
  shows "logical_key req \<notin> llc_live_logical_ids llc"
proof
  assume k: "logical_key req \<in> llc_live_logical_ids llc"
  from assms(1) have "finite (llc_live_logical_ids llc)" "image_mset key_of (live_requests llc) = mset_set (llc_live_logical_ids llc)"
    by (simp_all add: llc_inv_def live_ok_def live_requests_def)
  with k have "logical_key req \<in># image_mset key_of (live_requests llc)" by simp
  then obtain r where "r \<in># live_requests llc" "key_of r = logical_key req" by auto
  then have "(req_frontend_id req, lr_original_type r) \<in># live_at (req_source_id req) llc"
    unfolding live_of_mem by (intro bexI [of _ r]) (simp_all add: logical_key_def)
  with assms(2) show False by force
qed

text \<open>A store leaves the core.\<close>

lemma store_ok:
  assumes ok: "core_ok L c" and w: "c_writeback_addr c \<noteq> -1" and k: "\<not> k"
  shows "core_ok (add_mset (c_writeback_frontend_id c, Type_Write) L)
    (c\<lparr>c_writeback_addr := -1, c_issue_current_writeback_after_roi := k\<rparr>)" (is "core_ok ?L ?c")
proof -
  note d = core_okD [OF ok]
  have "link_ok ?L (c_next_frontend_id c) (entries (c_window c))" by (rule link_ok_store [OF d(6)]) (use d(7) w in \<open>simp_all add: ids_ok_def\<close>)
  moreover have "ids_ok ?L ?c" using d(7) w by (auto simp: ids_ok_def)
  moreover have "o3_trace ?c = o3_trace c" "o3_counts ?c = o3_counts c" by (simp_all add: o3_trace_def unissued_def o3_counts_def)
  moreover have "o3_flags ?c" using d(5) k by (simp add: o3_flags_def)
  ultimately show ?thesis using d by (simp add: core_ok_def)
qed

text \<open>The core with index \<open>i\<close> and the cache; the live requests of the other cores are \<open>Oth\<close>.\<close>

definition core_env :: "int \<Rightarrow> Clk_t \<Rightarrow> token multiset \<Rightarrow> (int \<Rightarrow> (int \<times> int) multiset) \<Rightarrow> int \<Rightarrow> SimpleO3Core \<Rightarrow> SimpleO3LLC \<Rightarrow> bool" where
  "core_env tx clk F Oth i c llc \<longleftrightarrow>
     c_id c = i \<and> 0 \<le> i \<and> core_ok (live_at i llc) c \<and> llc_ok tx clk F llc \<and> (\<forall>j. j \<noteq> i \<longrightarrow> live_at j llc = Oth j)"

definition core_done :: "int \<Rightarrow> Clk_t \<Rightarrow> token multiset \<Rightarrow> (int \<Rightarrow> (int \<times> int) multiset) \<Rightarrow> int \<Rightarrow> (SimpleO3Core \<times> 't \<times> SimpleO3LLC) result \<Rightarrow> bool" where
  "core_done tx clk F Oth i r \<longleftrightarrow> (\<exists>c tr llc. r = Inr (c, tr, llc) \<and> core_env tx clk F Oth i c llc \<and> has_work c)"

lemma core_envD:
  assumes "core_env tx clk F Oth i c llc"
  shows "c_id c = i" "0 \<le> i" "core_ok (live_at i llc) c" "llc_ok tx clk F llc" "\<And>j. j \<noteq> i \<Longrightarrow> live_at j llc = Oth j"
  using assms by (simp_all add: core_env_def)

lemma request_fields [simp]:
  "req_source_id (writeback_request c) = c_id c" "req_frontend_id (writeback_request c) = c_writeback_frontend_id c"
  "req_type_id (writeback_request c) = Type_Write" "req_frontend_sub_id (writeback_request c) = 0" "req_callback (writeback_request c) = Some cb_core"
  "req_source_id (load_request c) = c_id c" "req_frontend_id (load_request c) = c_load_frontend_id c"
  "req_type_id (load_request c) = Type_Read" "req_frontend_sub_id (load_request c) = 0" "req_callback (load_request c) = Some cb_core"
  by (simp_all add: writeback_request_def load_request_def request_ctor_defs)

locale translation =
  fixes translate :: "'t translator"
  assumes translate_addr: "\<exists>ok a tr'. translate req tr = Inr (ok, req\<lparr>req_addr := a\<rparr>, tr')"
begin

lemma try_send_ok:
  assumes ok: "llc_ok tx clk F llc" and tx: "0 < tx" and i: "req_source_id req = i" "0 \<le> i"
    and f: "req_frontend_id req = f" "0 \<le> f" "f \<notin> fst ` set_mset (live_at i llc)"
    and r: "req_type_id req = ty" "ty = Type_Read \<or> ty = Type_Write" "req_frontend_sub_id req = 0" "req_callback req = Some cb_core"
  obtains sent tr' llc' where "try_send tx clk translate req (tr, llc) = Inr (sent, tr', llc')" "llc_ok tx clk F llc'"
    "sent = None \<Longrightarrow> live_requests llc' = live_requests llc"
    "\<And>q. sent = Some q \<Longrightarrow> req_frontend_id q = f \<and> live_at i llc' = add_mset (f, ty) (live_at i llc) \<and> (\<forall>j. j \<noteq> i \<longrightarrow> live_at j llc' = live_at j llc)"
proof -
  obtain b a tr' where t: "translate req tr = Inr (b, req\<lparr>req_addr := a\<rparr>, tr')" using translate_addr by blast
  show ?thesis
  proof (cases b)
    case False
    then have "try_send tx clk translate req (tr, llc) = Inr (None, tr', llc)" using t by (simp add: try_send_def)
    from this ok show ?thesis by (rule that) simp_all
  next
    case True
    let ?q = "req\<lparr>req_addr := a\<rparr>"
    from ok have inv: "llc_inv clk {#} llc" and m: "mem_inv tx F llc" by (simp_all add: llc_ok_def)
    have "logical_key ?q \<notin> llc_live_logical_ids llc" by (rule fresh_key [OF inv]) (use i f in simp)
    then have v: "validate_logical_identity llc ?q = Inr ()" using i f r by (simp add: validate_logical_identity_def)
    obtain sent llc' where s: "LLC_send tx clk ?q llc = Inr (sent, llc')" "llc_inv clk {#} llc'" using LLC_send_inv [OF inv v] by blast
    have cb: "req_callback ?q = Some cb_core" using r by simp
    note e = LLC_send_effect [OF s(1) inv m tx cb]
    have "try_send tx clk translate req (tr, llc) = Inr (if sent then Some ?q else None, tr', llc')"
      using t True s(1) by (simp add: try_send_def)
    moreover have "llc_ok tx clk F llc'" using s(2) e(1) by (simp add: llc_ok_def)
    moreover have "live_at i llc' = add_mset (f, ty) (live_at i llc) \<and> (\<forall>j. j \<noteq> i \<longrightarrow> live_at j llc' = live_at j llc)" if "sent"
    proof -
      from e(2) [OF that] obtain x where x: "live_requests llc' = add_mset x (live_requests llc)" "key_of x = logical_key ?q"
        "lr_original_type x = ty" using r by (auto simp: admits_def)
      from x(2) i f have "req_source_id (lr_req x) = i" "req_frontend_id (lr_req x) = f" by (simp_all add: logical_key_def)
      with x show ?thesis by simp
    qed
    ultimately show ?thesis using that e(3) f(1) by (cases sent) auto
  qed
qed

lemma writeback_sent:
  assumes env: "core_env tx clk F Oth i c llc" and tx: "0 < tx" and w: "c_writeback_addr c \<noteq> -1" and k: "\<not> k"
  obtains (no) tr' llc' where "try_send tx clk translate (writeback_request c) (tr, llc) = Inr (None, tr', llc')" "core_env tx clk F Oth i c llc'"
    | (yes) q tr' llc' where "try_send tx clk translate (writeback_request c) (tr, llc) = Inr (Some q, tr', llc')"
      "core_env tx clk F Oth i (c\<lparr>c_writeback_addr := -1, c_issue_current_writeback_after_roi := k\<rparr>) llc'"
proof -
  note e = core_envD [OF env]
  let ?f = "c_writeback_frontend_id c"
  have f: "0 \<le> ?f" "?f \<notin> fst ` set_mset (live_at i llc)" using core_okD(7) [OF e(3)] w by (simp_all add: ids_ok_def)
  obtain sent tr' llc' where s: "try_send tx clk translate (writeback_request c) (tr, llc) = Inr (sent, tr', llc')" "llc_ok tx clk F llc'"
    "sent = None \<Longrightarrow> live_requests llc' = live_requests llc"
    "\<And>q. sent = Some q \<Longrightarrow> req_frontend_id q = ?f \<and> live_at i llc' = add_mset (?f, Type_Write) (live_at i llc) \<and>
        (\<forall>j. j \<noteq> i \<longrightarrow> live_at j llc' = live_at j llc)"
    by (rule try_send_ok [OF e(4) tx _ e(2) _ f, where req = "writeback_request c" and ty = Type_Write and tr = tr]) (simp_all add: e(1))
  show ?thesis
  proof (cases sent)
    case None
    with s have "core_env tx clk F Oth i c llc'" using env by (simp add: core_env_def)
    with s(1) None show ?thesis by (intro no) simp_all
  next
    case (Some q)
    from s(4) [OF Some] have "core_env tx clk F Oth i (c\<lparr>c_writeback_addr := -1, c_issue_current_writeback_after_roi := k\<rparr>) llc'"
      using store_ok [OF e(3) w k] e s(2) by (simp add: core_env_def)
    with s(1) Some show ?thesis by (intro yes) simp_all
  qed
qed

lemma fetch_done:
  assumes env: "core_env tx clk F Oth i c llc" and r: "\<not> c_roi_issue_complete c" "c_num_bubbles c = 0" "c_load_addr c = -1" "c_writeback_addr c = -1"
  shows "core_done tx clk F Oth i (bindR (fetch_next_trace_inst c) (\<lambda>c1. Inr (c1, tr, llc)))"
proof -
  note e = core_envD [OF env]
  obtain c' where "fetch_next_trace_inst c = Inr c'" "core_ok (live_at i llc) c'" "c_id c' = c_id c" "has_work c'"
    using fetch_ok [OF e(3) r] by blast
  with e show ?thesis by (simp add: core_done_def core_env_def)
qed

lemma writeback_stage_done:
  assumes env: "core_env tx clk F Oth i c llc" and tx: "0 < tx" and r: "\<not> c_roi_issue_complete c" "c_num_bubbles c = 0" "c_load_addr c = -1"
  shows "core_done tx clk F Oth i (writeback_stage tx clk translate (c, tr, llc))"
proof (cases "c_writeback_addr c = -1")
  case True
  then show ?thesis using fetch_done [OF env r True] by (simp add: writeback_stage_def)
next
  case w: False
  have k: "\<not> c_issue_current_writeback_after_roi c"
    using core_okD(5) [OF core_envD(3) [OF env]] r(1) by (simp add: o3_flags_def)
  show ?thesis
  proof (rule writeback_sent [OF env tx w k, where tr = tr])
    fix tr' llc' assume "try_send tx clk translate (writeback_request c) (tr, llc) = Inr (None, tr', llc')" "core_env tx clk F Oth i c llc'"
    then show ?thesis using w by (simp add: writeback_stage_def core_done_def has_work_def)
  next
    fix q tr' llc' assume s: "try_send tx clk translate (writeback_request c) (tr, llc) = Inr (Some q, tr', llc')"
      and "core_env tx clk F Oth i (c\<lparr>c_writeback_addr := -1, c_issue_current_writeback_after_roi := c_issue_current_writeback_after_roi c\<rparr>) llc'"
    then have "core_env tx clk F Oth i (c\<lparr>c_writeback_addr := -1\<rparr>) llc'" by simp
    from fetch_done [OF this, of tr'] s w r show ?thesis by (simp add: writeback_stage_def)
  qed
qed

lemma load_sent:
  assumes env: "core_env tx clk F Oth i c llc" and tx: "0 < tx" and r: "\<not> c_roi_issue_complete c" and l: "c_load_addr c \<noteq> -1"
    and room: "\<not> is_full (c_window c)"
  obtains (no) tr' llc' where "try_send tx clk translate (load_request c) (tr, llc) = Inr (None, tr', llc')" "core_env tx clk F Oth i c llc'"
    | (yes) q tr' llc' w c1 where "try_send tx clk translate (load_request c) (tr, llc) = Inr (Some q, tr', llc')"
      "win_insert False (req_addr q) (req_frontend_id q) (c_window c) = Inr w"
      "c1 = c\<lparr>c_window := w, s_insts_issued := s_insts_issued c + 1, c_load_addr := -1\<rparr>"
      "core_mid (live_at i llc') c1" "llc_ok tx clk F llc'" "\<forall>j. j \<noteq> i \<longrightarrow> live_at j llc' = Oth j"
proof -
  note e = core_envD [OF env]
  note d = core_okD [OF e(3)]
  let ?f = "c_load_frontend_id c" and ?L = "live_at i llc"
  have f: "0 \<le> ?f" "?f \<notin> fst ` set_mset ?L" "?f < c_next_frontend_id c" "?f \<notin> set (window_ids (entries (c_window c)))"
    using d(7) l by (simp_all add: ids_ok_def)
  obtain sent tr' llc' where s: "try_send tx clk translate (load_request c) (tr, llc) = Inr (sent, tr', llc')" "llc_ok tx clk F llc'"
    "sent = None \<Longrightarrow> live_requests llc' = live_requests llc"
    "\<And>q. sent = Some q \<Longrightarrow> req_frontend_id q = ?f \<and> live_at i llc' = add_mset (?f, Type_Read) ?L \<and> (\<forall>j. j \<noteq> i \<longrightarrow> live_at j llc' = live_at j llc)"
    by (rule try_send_ok [OF e(4) tx _ e(2) _ f(1,2), where req = "load_request c" and ty = Type_Read and tr = tr]) (simp_all add: e(1))
  show ?thesis
  proof (cases sent)
    case None
    with s have "core_env tx clk F Oth i c llc'" using env by (simp add: core_env_def)
    with s(1) None show ?thesis by (intro no) simp_all
  next
    case (Some q)
    note q = s(4) [OF Some]
    obtain w where w: "win_insert False (req_addr q) (req_frontend_id q) (c_window c) = Inr w" "win_ok w" "w_ipc w = w_ipc (c_window c)"
      and en: "entries w = entries (c_window c) @ [\<lparr>e_ready = False, e_addr = req_addr q, e_id = req_frontend_id q\<rparr>]"
      using win_insert_entries [OF d(1) room] by blast
    define c1 where "c1 = c\<lparr>c_window := w, s_insts_issued := s_insts_issued c + 1, c_load_addr := -1\<rparr>"
    have lk: "link_ok (add_mset (?f, Type_Read) ?L) (c_next_frontend_id c) (entries w)"
      unfolding en by (rule link_ok_load [OF d(6) f(1) f(3) f(2) f(4)]) (use q in simp_all)
    have ids: "ids_ok (add_mset (?f, Type_Read) ?L) c1" using d(7) l by (auto simp: ids_ok_def c1_def)
    have "0 \<le> c_num_bubbles c" using d(3) by (simp add: o3_trace_def)
    then have "core_mid (live_at i llc') c1" using q lk ids l
      by (intro issue_mid [OF e(3) r w(2,3) en, where b = "c_num_bubbles c" and a = "-1"]) (simp_all add: c1_def unissued_def)
    with s(1,2) Some w(1) q e(5) c1_def show ?thesis by (intro yes [of q tr' llc' w c1]) simp_all
  qed
qed

lemma load_stage_done:
  assumes env: "core_env tx clk F Oth i c llc" and tx: "0 < tx" and r: "\<not> c_roi_issue_complete c" "c_num_bubbles c = 0"
  shows "core_done tx clk F Oth i (load_stage tx clk translate n (c, tr, llc))"
proof -
  consider (none) "c_load_addr c = -1" | (stop) "c_load_addr c \<noteq> -1" "n = w_ipc (c_window c) \<or> is_full (c_window c)"
    | (go) "c_load_addr c \<noteq> -1" "n \<noteq> w_ipc (c_window c)" "\<not> is_full (c_window c)" by blast
  then show ?thesis
  proof cases
    case none
    then show ?thesis using writeback_stage_done [OF env tx r none] by (simp add: load_stage_def)
  next
    case stop
    then show ?thesis using env by (auto simp: load_stage_def core_done_def has_work_def)
  next
    case go
    show ?thesis
    proof (rule load_sent [OF env tx r(1) go(1,3), where tr = tr])
      fix tr' llc' assume "try_send tx clk translate (load_request c) (tr, llc) = Inr (None, tr', llc')" "core_env tx clk F Oth i c llc'"
      then show ?thesis using go by (simp add: load_stage_def core_done_def has_work_def)
    next
      fix q tr' llc' w c1
      assume s: "try_send tx clk translate (load_request c) (tr, llc) = Inr (Some q, tr', llc')"
        and w: "win_insert False (req_addr q) (req_frontend_id q) (c_window c) = Inr w"
        and c1: "c1 = c\<lparr>c_window := w, s_insts_issued := s_insts_issued c + 1, c_load_addr := -1\<rparr>"
        and mid: "core_mid (live_at i llc') c1" and o: "llc_ok tx clk F llc'" "\<forall>j. j \<noteq> i \<longrightarrow> live_at j llc' = Oth j"
      have st: "load_stage tx clk translate n (c, tr, llc) =
          (if s_insts_issued c1 = c_num_expected_insts c1 then bindR (finish_issue_roi True c1) (\<lambda>c2. Inr (c2, tr', llc'))
           else if c_writeback_addr c1 \<noteq> -1 then Inr (c1, tr', llc') else writeback_stage tx clk translate (c1, tr', llc'))"
        using go s w by (simp add: load_stage_def c1 Let_def)
      have id: "c_id c1 = i" "0 \<le> i" using core_envD(1,2) [OF env] by (simp_all add: c1)
      show ?thesis
      proof (cases "s_insts_issued c1 = c_num_expected_insts c1")
        case True
        from finish_issue_roi_ok [OF mid True, of True] o id show ?thesis using True by (auto simp: st core_done_def core_env_def)
      next
        case False
        from core_mid_ok [OF mid False] o id have "core_env tx clk F Oth i c1 llc'" by (simp add: core_env_def)
        moreover have "\<not> c_roi_issue_complete c1" "c_num_bubbles c1 = 0" "c_load_addr c1 = -1" using r by (simp_all add: c1)
        ultimately show ?thesis using False writeback_stage_done [of tx clk F Oth i c1 llc' tr'] tx
          by (cases "c_writeback_addr c1 = -1") (simp_all add: st core_done_def has_work_def)
      qed
    qed
  qed
qed

text \<open>A tick of a core never throws and keeps the invariant.\<close>

lemma Core_tick_done:
  assumes env: "core_env tx clk F Oth i c llc" and tx: "0 < tx" and w: "has_work c"
  shows "core_done tx clk F Oth i (Core_tick tx clk translate (c, tr, llc))"
proof -
  note e = core_envD [OF env]
  obtain c1 where c1: "retire_stage clk c = Inr c1" "core_ok (live_at i llc) c1" "c_id c1 = c_id c" "has_work c1 = has_work c"
    using retire_stage_ok [OF e(3)] by blast
  then have env1: "core_env tx clk F Oth i c1 llc" using e by (simp add: core_env_def)
  show ?thesis
  proof (cases "c_roi_issue_complete c1")
    case roi: True
    show ?thesis
    proof (cases "c_issue_current_writeback_after_roi c1")
      case False
      then show ?thesis using env1 c1 roi w by (simp add: Core_tick_def core_done_def)
    next
      case True
      then have wb: "c_writeback_addr c1 \<noteq> -1" using core_okD(5) [OF c1(2)] by (simp add: o3_flags_def)
      show ?thesis
      proof (rule writeback_sent [OF env1 tx wb, where tr = tr and k = False])
        fix tr' llc' assume "try_send tx clk translate (writeback_request c1) (tr, llc) = Inr (None, tr', llc')" "core_env tx clk F Oth i c1 llc'"
        then show ?thesis using c1(1,4) roi True w by (simp add: Core_tick_def core_done_def)
      next
        fix q tr' llc' assume "try_send tx clk translate (writeback_request c1) (tr, llc) = Inr (Some q, tr', llc')"
          "core_env tx clk F Oth i (c1\<lparr>c_writeback_addr := -1, c_issue_current_writeback_after_roi := False\<rparr>) llc'"
        then show ?thesis using c1(1) roi True by (simp add: Core_tick_def core_done_def has_work_def)
      qed simp
    qed
  next
    case roi: False
    obtain ret n c2 where b: "bubble_loop 0 c1 = Inr (ret, n, c2)" "core_ok (live_at i llc) c2" "c_id c2 = c_id c1"
      "if ret then has_work c2 else \<not> c_roi_issue_complete c2 \<and> c_num_bubbles c2 = 0"
      using bubble_loop_ok [OF c1(2) roi, of 0] by blast
    then have env2: "core_env tx clk F Oth i c2 llc" using env1 by (simp add: core_env_def)
    show ?thesis
    proof (cases ret)
      case True
      then show ?thesis using b env2 c1(1) roi by (simp add: Core_tick_def core_done_def)
    next
      case False
      then show ?thesis using load_stage_done [OF env2 tx, of n tr] b c1(1) roi by (simp add: Core_tick_def)
    qed
  qed
qed

end

section \<open>A new core\<close>

lemma add_inst_ok:
  assumes "add_inst i t = Inr t'" "\<forall>j \<in> set (t_trace t). inst_ok j" "t_instruction_count t = sum_list (map inst_count (t_trace t))"
  shows "t_trace t' = t_trace t @ [i]" "\<forall>j \<in> set (t_trace t'). inst_ok j" "t_instruction_count t' = sum_list (map inst_count (t_trace t'))"
    "t_curr_trace_idx t' = t_curr_trace_idx t" "t_allow_wrap t' = t_allow_wrap t"
  using assms by (auto simp: add_inst_def inst_ok_def split: if_splits)

lemma add_insts_ok:
  assumes "foldR add_inst is t = Inr t'" "\<forall>j \<in> set (t_trace t). inst_ok j" "t_instruction_count t = sum_list (map inst_count (t_trace t))"
  shows "(\<forall>j \<in> set (t_trace t'). inst_ok j) \<and> t_instruction_count t' = sum_list (map inst_count (t_trace t')) \<and>
    t_curr_trace_idx t' = t_curr_trace_idx t \<and> t_allow_wrap t' = t_allow_wrap t"
  using assms
proof (induction "is" arbitrary: t)
  case (Cons i "is")
  from Cons.prems(1) obtain u where u: "add_inst i t = Inr u" "foldR add_inst is u = Inr t'" by (auto simp: bindR_eq_Inr_iff)
  note a = add_inst_ok [OF u(1) Cons.prems(2,3)]
  from Cons.IH [OF u(2) a(2,3)] a(4,5) show ?case by simp
qed simp

lemma Trace_new_ok:
  assumes "Trace_new is wrap = Inr t"
  shows "trace_ok t" "t_curr_trace_idx t = 0" "t_allow_wrap t = wrap"
proof -
  let ?t = "\<lparr>t_trace = [], t_curr_trace_idx = 0, t_instruction_count = 0, t_allow_wrap = wrap\<rparr>"
  from assms have f: "foldR add_inst is ?t = Inr t" and ne: "t_trace t \<noteq> []"
    by (auto simp: Trace_new_def bindR_eq_Inr_iff split: if_splits)
  from add_insts_ok [OF f] ne show "trace_ok t" "t_curr_trace_idx t = 0" "t_allow_wrap t = wrap" by (simp_all add: trace_ok_def)
qed

lemma Core_new_ok:
  assumes n: "Core_new i ipc depth k is wrap = Inr c" and p: "0 < ipc" "0 < depth" "0 < k"
  shows "core_ok {#} c" "c_id c = i" "has_work c"
proof -
  from n obtain t where t: "Trace_new is wrap = Inr t" "\<not> wrap \<longrightarrow> k \<le> t_instruction_count t"
    and f: "fetch_next_trace_inst \<lparr>c_id = i, c_trace = t, c_window = InstWindow_new ipc depth, c_num_bubbles = 0, c_load_addr = -1,
          c_writeback_addr = -1, c_load_frontend_id = -1, c_writeback_frontend_id = -1, c_next_frontend_id = 0,
          c_roi_issue_complete = False, c_issue_current_writeback_after_roi = False,
          c_num_expected_insts = k, c_last_mem_cycle = 0, c_reached_expected_num_insts = False,
          s_insts_issued = 0, s_insts_retired = 0, s_cycles_recorded = 0, s_mem_access_cycles = 0\<rparr> = Inr c" (is "fetch_next_trace_inst ?c = _")
    by (auto simp: Core_new_def bindR_eq_Inr_iff split: if_splits)
  note w = win_new [OF p(2), of ipc]
  have "w_load (InstWindow_new ipc depth) = 0" "w_ipc (InstWindow_new ipc depth) = ipc" by (simp_all add: InstWindow_new_def)
  then have "core_ok {#} ?c" using w Trace_new_ok [OF t(1)] t(2) p
    by (simp add: core_ok_def o3_trace_def o3_counts_def o3_flags_def link_ok_def ids_ok_def unissued_def consumed_def)
  from fetch_ok [OF this] f show "core_ok {#} c" "c_id c = i" "has_work c" by auto
qed

end
