(* ===== verification/O3_System.thy ===== *)
theory O3_System
  imports SimpleO3 O3_Inv
begin

text \<open>
  The SimpleO3 frontend in front of a memory: the invariant that ties cores, cache and
  outstanding requests together, and that no operation of the frontend ever throws.
\<close>

section \<open>The invariant\<close>

definition cores_ok :: "LogicalRequest multiset \<Rightarrow> SimpleO3Core list \<Rightarrow> bool" where
  "cores_ok R cs \<longleftrightarrow>
     (\<forall>i < length cs. c_id (cs ! i) = int i \<and> core_ok (live_of (int i) R) (cs ! i) \<and> has_work (cs ! i)) \<and>
     (\<forall>j. j < 0 \<or> int (length cs) \<le> j \<longrightarrow> live_of j R = {#})"

text \<open>The requests \<open>F\<close> are in flight, the requests \<open>X\<close> have left the cache and go back to their cores.\<close>

definition fe_mid :: "token multiset \<Rightarrow> LogicalRequest multiset \<Rightarrow> 't SimpleO3 \<Rightarrow> bool" where
  "fe_mid F X fe \<longleftrightarrow>
     llc_inv (fe_clk fe) X (fe_llc fe) \<and> flow_inv F (fe_llc fe) \<and> cores_ok (X + live_requests (fe_llc fe)) (fe_cores fe)"

definition fe_ok :: "int \<Rightarrow> token multiset \<Rightarrow> 't SimpleO3 \<Rightarrow> bool" where
  "fe_ok tx F fe \<longleftrightarrow> fe_mid (F + toks (llc_miss_list (fe_llc fe))) {#} fe \<and> misses_ok tx (llc_miss_list (fe_llc fe))"

text \<open>What a completion leaves alone.\<close>

definition same_queues :: "'t SimpleO3 \<Rightarrow> 't SimpleO3 \<Rightarrow> bool" where
  "same_queues fe fe' \<longleftrightarrow>
     fe_clk fe' = fe_clk fe \<and> llc_miss_list (fe_llc fe') = llc_miss_list (fe_llc fe) \<and> llc_hit_list (fe_llc fe') = llc_hit_list (fe_llc fe) \<and>
     fe_translation fe' = fe_translation fe \<and> length (fe_cores fe') = length (fe_cores fe) \<and> llc_cfg (fe_llc fe') = llc_cfg (fe_llc fe)"

lemma same_queues_refl [simp]: "same_queues fe fe"
  by (simp add: same_queues_def)

lemma same_queues_trans: "same_queues a b \<Longrightarrow> same_queues b c \<Longrightarrow> same_queues a c"
  by (simp add: same_queues_def)

section \<open>Completions\<close>

lemma cores_ok_return:
  assumes ok: "cores_ok (add_mset l R) cs" and r: "req_source_id r = req_source_id (lr_req l)" "req_frontend_id r = req_frontend_id (lr_req l)"
    "req_type_id r = lr_original_type l"
  obtains i c where "req_source_id r = int i" "i < length cs" "Core_receive r (cs ! i) = Inr c" "cores_ok R (cs[i := c])"
proof -
  let ?s = "req_source_id (lr_req l)"
  have "live_of ?s (add_mset l R) \<noteq> {#}" by simp
  then have s: "0 \<le> ?s" "?s < int (length cs)" using ok unfolding cores_ok_def by (metis not_le)+
  then obtain i where i: "?s = int i" "i < length cs" by (metis nonneg_int_cases of_nat_less_iff)
  have c: "c_id (cs ! i) = int i" "core_ok (add_mset (req_frontend_id r, req_type_id r) (live_of (int i) R)) (cs ! i)" "has_work (cs ! i)"
    using ok i r by (auto simp: cores_ok_def)
  obtain c' where c': "Core_receive r (cs ! i) = Inr c'" "core_ok (live_of (int i) R) c'" "c_id c' = int i" "has_work c'"
    using Core_receive_ok [OF c(2)] c(1,3) by auto
  have "cores_ok R (cs[i := c'])" unfolding cores_ok_def
  proof (intro conjI allI impI)
    fix j assume "j < length (cs[i := c'])"
    then have j: "j < length cs" by simp
    show "c_id (cs[i := c'] ! j) = int j" "core_ok (live_of (int j) R) (cs[i := c'] ! j)" "has_work (cs[i := c'] ! j)"
      using ok j c'(2-4) i by (auto simp: cores_ok_def nth_list_update)
  next
    fix j assume "j < 0 \<or> int (length (cs[i := c'])) \<le> j"
    then show "live_of j R = {#}" using ok i by (auto simp: cores_ok_def split: if_splits)
  qed
  with that i r(1) c'(1) show ?thesis by simp
qed

text \<open>One completion, by the memory or as a hit.\<close>

lemma complete_request_ok:
  assumes mid: "fe_mid F (add_mset l X) fe" and r: "req_source_id r = req_source_id (lr_req l)" "req_frontend_id r = req_frontend_id (lr_req l)"
    "req_type_id r = lr_original_type l"
  obtains llc fe' where "complete_logical_request (fe_clk fe) l (fe_llc fe) = Inr llc" "return_to_core msg r (fe\<lparr>fe_llc := llc\<rparr>) = Inr fe'"
    "fe_mid F X fe'" "same_queues fe fe'"
proof -
  from mid have inv: "llc_inv (fe_clk fe) (add_mset l X) (fe_llc fe)" and fl: "flow_inv F (fe_llc fe)"
    and cs: "cores_ok (add_mset l (X + live_requests (fe_llc fe))) (fe_cores fe)" by (simp_all add: fe_mid_def)
  obtain llc where c: "complete_logical_request (fe_clk fe) l (fe_llc fe) = Inr llc" "llc_inv (fe_clk fe) X llc"
    using complete_logical_request_inv [OF inv] by blast
  note e = complete_effect [OF c(1)]
  obtain i c' where i: "req_source_id r = int i" "i < length (fe_cores fe)" "Core_receive r (fe_cores fe ! i) = Inr c'"
    "cores_ok (X + live_requests (fe_llc fe)) ((fe_cores fe)[i := c'])" by (rule cores_ok_return [OF cs r])
  define fe' where "fe' = fe\<lparr>fe_llc := llc, fe_cores := (fe_cores fe)[i := c']\<rparr>"
  have "return_to_core msg r (fe\<lparr>fe_llc := llc\<rparr>) = Inr fe'" using i by (simp add: return_to_core_def fe'_def)
  moreover have "fe_mid F X fe'" using c(2) fl i(4) e by (simp add: fe_mid_def fe'_def)
  moreover have "same_queues fe fe'" using e by (simp add: same_queues_def fe'_def)
  ultimately show ?thesis using that c(1) by blast
qed

lemma complete_one_ok:
  assumes "fe_mid F (add_mset l X) fe"
  shows "\<exists>fe'. complete_one req l fe = Inr fe' \<and> fe_mid F X fe' \<and> same_queues fe fe'"
  by (rule complete_request_ok [OF assms, where msg = "''SimpleO3 logical completion has an invalid source id''" and
        r = "(lr_req l)\<lparr>req_type_id := lr_original_type l, req_arrive := req_arrive req, req_depart := req_depart req\<rparr>"])
     (simp_all add: complete_one_def)

lemma receive_hit_ok:
  assumes "fe_mid F (add_mset l X) fe" "lr_path l = Path_Hit"
  shows "\<exists>fe'. receive_hit l fe = Inr fe' \<and> fe_mid F X fe' \<and> same_queues fe fe'"
  by (rule complete_request_ok [OF assms(1), where msg = "''SimpleO3 logical hit completion has an invalid source id''" and
        r = "(lr_req l)\<lparr>req_type_id := lr_original_type l\<rparr>"]) (simp_all add: receive_hit_def assms(2))

lemma complete_all_ok:
  "fe_mid F (mset ls + X) fe \<Longrightarrow> \<exists>fe'. foldR (complete_one req) ls fe = Inr fe' \<and> fe_mid F X fe' \<and> same_queues fe fe'"
proof (induction ls arbitrary: fe)
  case (Cons l ls)
  then obtain fe1 where "complete_one req l fe = Inr fe1" "fe_mid F (mset ls + X) fe1" "same_queues fe fe1"
    using complete_one_ok [of F l "mset ls + X" fe req] by auto
  with Cons.IH [of fe1] same_queues_trans show ?case by fastforce
qed simp

text \<open>A line arrives: all requests that waited for it go back.\<close>

lemma SimpleO3_receive_ok:
  assumes mid: "fe_mid (add_mset (Some cb_core, req_addr req) F) X fe"
  shows "\<exists>fe'. SimpleO3_receive req fe = Inr fe' \<and> fe_mid F X fe' \<and> same_queues fe fe'"
proof -
  let ?c = "fe_llc fe"
  from mid have inv: "llc_inv (fe_clk fe) X ?c" and fl: "flow_inv (add_mset (Some cb_core, req_addr req) F) ?c"
    and cs: "cores_ok (X + live_requests ?c) (fe_cores fe)" by (simp_all add: fe_mid_def)
  have a: "req_addr req \<in> fst ` set (llc_mshrs ?c)" using flight_ok_fill(1) [OF fl [unfolded flow_inv_def]] by simp
  obtain rs c1 c2 where o: "take_receive_requests (req_addr req) ?c = Inr (rs, c1)" "LLC_receive req c1 = Inr c2"
    "llc_inv (fe_clk fe) (mset rs + X) c2" "\<forall>r \<in> set rs. lr_path r \<noteq> Path_Hit" "llc_hit_list c2 = llc_hit_list ?c"
    "live_requests ?c = mset rs + live_requests c2" "llc_cfg c2 = llc_cfg ?c" "llc_miss_list c2 = llc_miss_list ?c"
    "\<And>F. flow_inv (add_mset (Some cb_core, req_addr req) F) ?c \<Longrightarrow> flow_inv F c2" by (rule receive_effect [OF inv a]) blast
  define fe1 where "fe1 = fe\<lparr>fe_llc := c2\<rparr>"
  have "fe_mid F (mset rs + X) fe1" using o(3) o(9) [OF fl] cs by (simp add: fe_mid_def fe1_def o(6) ac_simps)
  then obtain fe' where "foldR (complete_one req) rs fe1 = Inr fe'" "fe_mid F X fe'" "same_queues fe1 fe'" using complete_all_ok by blast
  moreover have "same_queues fe fe1" using o(5,7,8) by (simp add: same_queues_def fe1_def)
  moreover have "SimpleO3_receive req fe = foldR (complete_one req) rs fe1" using o(1,2,4)
    by (auto simp: SimpleO3_receive_def fe1_def list_ex_iff)
  ultimately show ?thesis using same_queues_trans by auto
qed

section \<open>Callbacks\<close>

lemma whole_callback_ok:
  assumes mid: "fe_mid (add_mset (tok req) F) X fe" and w: "whole_cb (req_callback req)"
  shows "\<exists>fe'. whole_callback req fe = Inr fe' \<and> fe_mid F X fe' \<and> same_queues fe fe'"
proof (cases "req_callback req = Some cb_core")
  case True
  then show ?thesis using SimpleO3_receive_ok [of req F X fe] mid by (simp add: whole_callback_def tok_def)
next
  case False
  with w have cb: "req_callback req = Some cb_writeback" by (simp add: whole_cb_def)
  let ?c = "fe_llc fe"
  from mid have inv: "llc_inv (fe_clk fe) X ?c" and cs: "cores_ok (X + live_requests ?c) (fe_cores fe)"
    and fl: "flight_ok (add_mset (Some cb_writeback, req_addr req) F) (mset (map fst (llc_mshrs ?c))) (llc_split_groups ?c) (s_internal_writebacks_live ?c)"
    by (simp_all add: fe_mid_def flow_inv_def tok_def cb)
  note n = flight_ok_written [OF fl]
  define c' where "c' = ?c\<lparr>s_internal_writebacks_live := s_internal_writebacks_live ?c - 1,
    s_internal_writebacks_completed := s_internal_writebacks_completed ?c + 1\<rparr>"
  have wb: "writebacks_ok c'" using inv n(1) by (simp add: llc_inv_def writebacks_ok_def c'_def)
  have "llc_inv (fe_clk fe) X c'" using inv wb by (simp add: llc_inv_def c'_def)
  moreover have "flow_inv F c'" using n(2) by (simp add: flow_inv_def c'_def)
  moreover have f: "live_requests c' = live_requests ?c" by (simp add: live_requests_def c'_def)
  ultimately have "fe_mid F X (fe\<lparr>fe_llc := c'\<rparr>)" using cs by (simp add: fe_mid_def)
  moreover have "whole_callback req fe = Inr (fe\<lparr>fe_llc := c'\<rparr>)" using n(1) cb by (simp add: whole_callback_def writeback_completed_def c'_def)
  ultimately show ?thesis by (simp add: same_queues_def c'_def)
qed

lemma run_callback_ok:
  assumes mid: "fe_mid (add_mset (tok req) F) X fe"
  shows "\<exists>fe'. run_callback req fe = Inr fe' \<and> fe_mid F X fe' \<and> same_queues fe fe'"
proof (cases "req_callback req")
  case None
  then show ?thesis using mid by (simp add: fe_mid_def flow_inv_def flight_ok_def tok_def)
next
  case (Some cb)
  show ?thesis
  proof (cases "cb < cb_split 0")
    case True
    then have "whole_cb (req_callback req)" using Some by (auto simp: whole_cb_def cb_defs less_2_cases_iff)
    from whole_callback_ok [OF mid this] show ?thesis using Some True by (simp add: run_callback_def)
  next
    case False
    define g where "g = cb - cb_split 0"
    have cb: "cb = cb_split g" using False by (simp add: g_def cb_defs)
    let ?c = "fe_llc fe" and ?G = "llc_split_groups (fe_llc fe)"
    from mid have fl: "flight_ok (add_mset (Some (cb_split g), req_addr req) F) (mset (map fst (llc_mshrs ?c))) ?G (s_internal_writebacks_live ?c)"
      by (simp add: fe_mid_def flow_inv_def tok_def Some cb)
    note p = flight_ok_part [OF fl]
    define fe1 where "fe1 = fe\<lparr>fe_llc := ?c\<lparr>llc_split_groups := ?G[g := (fst (?G ! g) - 1, snd (?G ! g))]\<rparr>\<rparr>"
    have q: "same_queues fe fe1" by (simp add: same_queues_def fe1_def)
    have mid1: "fe_mid (if fst (?G ! g) = 1 then add_mset (tok (snd (?G ! g))) F else F) X fe1"
      using mid p(4) by (simp add: fe_mid_def fe1_def flow_inv_def live_requests_def)
    have r: "run_callback req fe = (if fst (?G ! g) = 1 then whole_callback (snd (?G ! g)) fe1 else Inr fe1)"
      using False unfolding run_callback_def Some by (simp add: g_def [symmetric] fe1_def Let_def split: prod.splits)
    show ?thesis
    proof (cases "fst (?G ! g) = 1")
      case True
      with mid1 have "fe_mid (add_mset (tok (snd (?G ! g))) F) X fe1" by simp
      from whole_callback_ok [OF this p(3)] obtain fe' where "whole_callback (snd (?G ! g)) fe1 = Inr fe'" "fe_mid F X fe'" "same_queues fe1 fe'"
        by blast
      with r True same_queues_trans [OF q] show ?thesis by auto
    next
      case False
      with r mid1 q show ?thesis by simp
    qed
  qed
qed

lemma run_callbacks_ok:
  "fe_mid (mset (map tok calls) + F) X fe \<Longrightarrow> \<exists>fe'. foldR run_callback calls fe = Inr fe' \<and> fe_mid F X fe' \<and> same_queues fe fe'"
proof (induction calls arbitrary: fe)
  case (Cons r calls)
  then obtain fe1 where "run_callback r fe = Inr fe1" "fe_mid (mset (map tok calls) + F) X fe1" "same_queues fe fe1"
    using run_callback_ok [of r "mset (map tok calls) + F" X fe] by auto
  with Cons.IH [of fe1] same_queues_trans show ?case by fastforce
qed simp

section \<open>Hits\<close>

definition with_hits :: "(Clk_t \<times> LogicalRequest) list \<Rightarrow> 't SimpleO3 \<Rightarrow> 't SimpleO3" where
  "with_hits hs fe = fe\<lparr>fe_llc := (fe_llc fe)\<lparr>llc_hit_list := hs\<rparr>\<rparr>"

lemma receive_hit_with_hits: "receive_hit l (with_hits hs fe) = bindR (receive_hit l fe) (\<lambda>fe'. Inr (with_hits hs fe'))"
  by (simp add: receive_hit_def with_hits_def complete_logical_request_def return_to_core_def bindR_def split: sum.splits)

lemma with_hits_Cons: "fe_mid F X (with_hits ((d, l) # hs) fe) \<longleftrightarrow> fe_mid F (add_mset l X) (with_hits hs fe) \<and> lr_path l = Path_Hit"
  by (auto simp: fe_mid_def with_hits_def llc_inv_def flow_inv_def live_requests_def writebacks_ok_def)

lemma serve_hits_ok:
  "fe_mid F X (with_hits hs fe) \<Longrightarrow>
    \<exists>kept fe'. serve_hits receive_hit clk hs fe = Inr (kept, fe') \<and> fe_mid F X (with_hits kept fe') \<and> same_queues fe fe'"
proof (induction hs arbitrary: X fe)
  case (Cons h hs)
  obtain d l where h: "h = (d, l)" by (cases h)
  from Cons.prems have m: "fe_mid F (add_mset l X) (with_hits hs fe)" and p: "lr_path l = Path_Hit" by (simp_all add: h with_hits_Cons)
  show ?case
  proof (cases "clk \<ge> d")
    case True
    from receive_hit_ok [OF m p] obtain fe1 where r: "receive_hit l (with_hits hs fe) = Inr fe1" "fe_mid F X fe1" "same_queues (with_hits hs fe) fe1"
      by blast
    then obtain fe2 where r2: "receive_hit l fe = Inr fe2" "fe1 = with_hits hs fe2" by (auto simp: receive_hit_with_hits bindR_eq_Inr_iff)
    have "same_queues fe fe2" using r2(1) by (auto simp: receive_hit_def return_to_core_def same_queues_def bindR_eq_Inr_iff
          dest: complete_effect split: if_splits)
    with Cons.IH [of X fe2] r(2) r2 True show ?thesis by (fastforce simp: h intro: same_queues_trans)
  next
    case False
    from Cons.IH [OF m] obtain kept fe' where k: "serve_hits receive_hit clk hs fe = Inr (kept, fe')" "fe_mid F (add_mset l X) (with_hits kept fe')"
      "same_queues fe fe'" by blast
    then have "fe_mid F X (with_hits ((d, l) # kept) fe')" using p by (simp add: with_hits_Cons)
    with k False show ?thesis by (auto simp: h)
  qed
qed (simp add: with_hits_def)

section \<open>The memory\<close>

text \<open>
  What the frontend relies on. The memory never throws on a well-formed request; every
  accepted request is called back once and with its own address and callback,
  possibly before \<^verbatim>\<open>send\<close> returns; a refused request stays as it was.
\<close>

locale memory_port =
  fixes mem_send :: "'m memory_send" and mem_tick :: "'m \<Rightarrow> (Request list \<times> 'm) result"
    and outs :: "'m \<Rightarrow> token multiset" and mem_ok :: "'m \<Rightarrow> bool" and tx :: int
  assumes tx_pos: "mem_ok m \<Longrightarrow> 0 < tx"
    and send_ok: "mem_ok m \<Longrightarrow> request_ok tx req \<Longrightarrow>
      \<exists>ok calls req' m'. mem_send req m = Inr (ok, calls, req', m') \<and> mem_ok m' \<and>
        mset (map tok calls) + outs m' = (if ok then add_mset (tok req) (outs m) else outs m) \<and>
        (\<not> ok \<longrightarrow> tok req' = tok req \<and> request_ok tx req')"
    and tick_ok: "mem_ok m \<Longrightarrow> \<exists>calls m'. mem_tick m = Inr (calls, m') \<and> mem_ok m' \<and> mset (map tok calls) + outs m' = outs m"
begin

lemma send_and_call_ok:
  assumes mid: "fe_mid (outs m + add_mset (tok req) K) X fe" and ok: "mem_ok m" "request_ok tx req"
  shows "\<exists>sent req' fe' m'. send_and_call mem_send req (fe, m) = Inr (sent, req', fe', m') \<and> mem_ok m' \<and> same_queues fe fe' \<and>
    fe_mid (outs m' + (if sent then K else add_mset (tok req') K)) X fe' \<and> (\<not> sent \<longrightarrow> request_ok tx req')"
proof -
  obtain sent calls req' m' where s: "mem_send req m = Inr (sent, calls, req', m')" "mem_ok m'"
    "mset (map tok calls) + outs m' = (if sent then add_mset (tok req) (outs m) else outs m)" "\<not> sent \<longrightarrow> tok req' = tok req \<and> request_ok tx req'"
    using send_ok [OF ok] by blast
  let ?K = "if sent then K else add_mset (tok req') K"
  have "mset (map tok calls) + (outs m' + ?K) = outs m + add_mset (tok req) K"
    unfolding add.assoc [symmetric] s(3) using s(4) by (cases sent) simp_all
  from run_callbacks_ok [OF mid [folded this]] obtain fe' where
    "foldR run_callback calls fe = Inr fe'" "fe_mid (outs m' + ?K) X fe'" "same_queues fe fe'" by blast
  with s show ?thesis by (auto simp: send_and_call_def)
qed

lemma send_misses_ok:
  "fe_mid (outs m + toks ms + K) X fe \<Longrightarrow> misses_ok tx ms \<Longrightarrow> mem_ok m \<Longrightarrow>
    \<exists>kept fe' m'. send_misses (send_and_call mem_send) clk ms (fe, m) = Inr (kept, fe', m') \<and> mem_ok m' \<and> same_queues fe fe' \<and>
      fe_mid (outs m' + toks kept + K) X fe' \<and> misses_ok tx kept"
proof (induction ms arbitrary: fe m K)
  case (Cons x ms)
  obtain due req where x: "x = (due, req)" by (cases x)
  from Cons.prems have r: "request_ok tx req" "misses_ok tx ms" by (simp_all add: misses_ok_def x)
  show ?case
  proof (cases "clk \<ge> due")
    case False
    have "fe_mid (outs m + toks ms + add_mset (tok req) K) X fe" using Cons.prems(1) by (simp add: x o_def)
    from Cons.IH [OF this r(2) Cons.prems(3)] obtain kept fe' m' where
      "send_misses (send_and_call mem_send) clk ms (fe, m) = Inr (kept, fe', m')" "mem_ok m'" "same_queues fe fe'"
      "fe_mid (outs m' + toks kept + add_mset (tok req) K) X fe'" "misses_ok tx kept" by blast
    with False r(1) show ?thesis by (simp add: x misses_ok_def o_def)
  next
    case True
    have "fe_mid (outs m + add_mset (tok req) (toks ms + K)) X fe" using Cons.prems(1) by (simp add: x add.assoc o_def)
    from send_and_call_ok [OF this Cons.prems(3) r(1)] obtain sent req' fe1 m1 where
      s: "send_and_call mem_send req (fe, m) = Inr (sent, req', fe1, m1)" "mem_ok m1" "same_queues fe fe1"
      "fe_mid (outs m1 + (if sent then toks ms + K else add_mset (tok req') (toks ms + K))) X fe1" "\<not> sent \<longrightarrow> request_ok tx req'" by blast
    let ?K = "if sent then K else add_mset (tok req') K"
    have "fe_mid (outs m1 + toks ms + ?K) X fe1" using s(4) by (cases sent) (simp_all add: add.assoc)
    from Cons.IH [OF this r(2) s(2)] obtain kept fe' m' where
      k: "send_misses (send_and_call mem_send) clk ms (fe1, m1) = Inr (kept, fe', m')" "mem_ok m'" "same_queues fe1 fe'"
      "fe_mid (outs m' + toks kept + ?K) X fe'" "misses_ok tx kept" by blast
    from k s(1,5) True same_queues_trans [OF s(3) k(3)] show ?thesis by (cases sent) (simp_all add: x misses_ok_def o_def)
  qed
qed (simp add: misses_ok_def)

text \<open>The clock of the cache.\<close>

lemma LLC_tick_ok:
  assumes ok: "fe_ok tx (outs m) fe" and m: "mem_ok m"
  shows "\<exists>fe' m'. LLC_tick mem_send (fe, m) = Inr (fe', m') \<and> fe_ok tx (outs m') fe' \<and> mem_ok m' \<and>
    fe_clk fe' = fe_clk fe \<and> length (fe_cores fe') = length (fe_cores fe) \<and> fe_translation fe' = fe_translation fe"
proof -
  let ?ms = "llc_miss_list (fe_llc fe)"
  from ok have mid: "fe_mid (outs m + toks ?ms + {#}) {#} fe" and ms: "misses_ok tx ?ms" by (simp_all add: fe_ok_def)
  obtain kept fe1 m1 where s: "send_misses (send_and_call mem_send) (fe_clk fe) ?ms (fe, m) = Inr (kept, fe1, m1)" "mem_ok m1" "same_queues fe fe1"
    "fe_mid (outs m1 + toks kept + {#}) {#} fe1" "misses_ok tx kept" using send_misses_ok [OF mid ms m, of "fe_clk fe"] by blast
  define fe2 where "fe2 = fe1\<lparr>fe_llc := (fe_llc fe1)\<lparr>llc_miss_list := kept\<rparr>\<rparr>"
  have f2: "fe_clk fe2 = fe_clk fe1" "llc_miss_list (fe_llc fe2) = kept" "length (fe_cores fe2) = length (fe_cores fe1)" "fe_translation fe2 = fe_translation fe1"
    by (simp_all add: fe2_def)
  have "fe_mid (outs m1 + toks kept) {#} fe2" using s(4) by (simp add: fe_mid_def fe2_def flow_inv_def live_requests_def)
  then have mid2: "fe_mid (outs m1 + toks kept) {#} (with_hits (llc_hit_list (fe_llc fe2)) fe2)" by (simp add: with_hits_def)
  obtain hs fe3 where h: "serve_hits receive_hit (fe_clk fe) (llc_hit_list (fe_llc fe2)) fe2 = Inr (hs, fe3)"
    "fe_mid (outs m1 + toks kept) {#} (with_hits hs fe3)" "same_queues fe2 fe3" using serve_hits_ok [OF mid2] by blast
  have "LLC_tick mem_send (fe, m) = Inr (with_hits hs fe3, m1)"
    using s(1) h(1) by (simp add: LLC_tick_def fe2_def Let_def with_hits_def)
  moreover have "llc_miss_list (fe_llc (with_hits hs fe3)) = kept" using h(3) f2(2) by (simp add: same_queues_def with_hits_def)
  moreover have "fe_clk (with_hits hs fe3) = fe_clk fe" "length (fe_cores (with_hits hs fe3)) = length (fe_cores fe)"
    "fe_translation (with_hits hs fe3) = fe_translation fe" using h(3) s(3) f2 by (simp_all add: same_queues_def with_hits_def)
  ultimately show ?thesis using h(2) s(2,5) by (simp add: fe_ok_def)
qed

end

section \<open>The frontend and its memory\<close>

lemma cores_ok_env:
  assumes ok: "fe_ok tx F fe" and i: "i < length (fe_cores fe)"
  shows "core_env tx (fe_clk fe) F (\<lambda>j. live_at j (fe_llc fe)) (int i) (fe_cores fe ! i) (fe_llc fe)" "has_work (fe_cores fe ! i)"
  using assms by (simp_all add: fe_ok_def fe_mid_def cores_ok_def core_env_def llc_ok_def mem_inv_def)

lemma fe_ok_core:
  assumes ok: "fe_ok tx F fe" and i: "i < length (fe_cores fe)"
    and env: "core_env tx (fe_clk fe) F (\<lambda>j. live_at j (fe_llc fe)) (int i) c llc" and w: "has_work c"
  shows "fe_ok tx F (fe\<lparr>fe_cores := (fe_cores fe)[i := c], fe_translation := tr, fe_llc := llc\<rparr>)"
proof -
  note e = core_envD [OF env]
  have cs: "cores_ok (live_requests (fe_llc fe)) (fe_cores fe)" using ok by (simp add: fe_ok_def fe_mid_def)
  have "cores_ok (live_requests llc) ((fe_cores fe)[i := c])" unfolding cores_ok_def
  proof (intro conjI allI impI)
    fix j assume "j < length ((fe_cores fe)[i := c])"
    then have j: "j < length (fe_cores fe)" by simp
    show "c_id ((fe_cores fe)[i := c] ! j) = int j" "core_ok (live_of (int j) (live_requests llc)) ((fe_cores fe)[i := c] ! j)"
      "has_work ((fe_cores fe)[i := c] ! j)" using cs j i e w by (auto simp: cores_ok_def nth_list_update)
  next
    fix j assume "j < 0 \<or> int (length ((fe_cores fe)[i := c])) \<le> j"
    then show "live_of j (live_requests llc) = {#}" using cs i e(5) [of j] by (auto simp: cores_ok_def)
  qed
  with e(4) show ?thesis by (simp add: fe_ok_def fe_mid_def llc_ok_def mem_inv_def)
qed

locale o3_system = translation translate + memory_port mem_send mem_tick outs mem_ok tx
  for translate :: "'t translator" and mem_send :: "'m memory_send" and mem_tick :: "'m \<Rightarrow> (Request list \<times> 'm) result"
    and outs :: "'m \<Rightarrow> token multiset" and mem_ok :: "'m \<Rightarrow> bool" and tx :: int
begin

lemma tick_core_ok:
  assumes ok: "fe_ok tx F fe" and i: "i < length (fe_cores fe)" and tx: "0 < tx"
  shows "\<exists>fe'. tick_core tx translate i fe = Inr fe' \<and> fe_ok tx F fe' \<and> length (fe_cores fe') = length (fe_cores fe) \<and> fe_clk fe' = fe_clk fe"
proof -
  note env = cores_ok_env [OF ok i]
  obtain c tr llc where t: "Core_tick tx (fe_clk fe) translate (fe_cores fe ! i, fe_translation fe, fe_llc fe) = Inr (c, tr, llc)"
    "core_env tx (fe_clk fe) F (\<lambda>j. live_at j (fe_llc fe)) (int i) c llc" "has_work c"
    using Core_tick_done [OF env(1) tx env(2), of "fe_translation fe"] by (auto simp: core_done_def)
  show ?thesis using fe_ok_core [OF ok i t(2,3), of tr] t(1) by (simp add: tick_core_def)
qed

lemma tick_cores_ok:
  "fe_ok tx F fe \<Longrightarrow> 0 < tx \<Longrightarrow> \<forall>i \<in> set is. i < length (fe_cores fe) \<Longrightarrow>
    \<exists>fe'. foldR (tick_core tx translate) is fe = Inr fe' \<and> fe_ok tx F fe' \<and> length (fe_cores fe') = length (fe_cores fe) \<and> fe_clk fe' = fe_clk fe"
proof (induction "is" arbitrary: fe)
  case (Cons i "is")
  from tick_core_ok [OF Cons.prems(1), of i] Cons.prems(2,3) obtain fe1 where
    "tick_core tx translate i fe = Inr fe1" "fe_ok tx F fe1" "length (fe_cores fe1) = length (fe_cores fe)" "fe_clk fe1 = fe_clk fe" by auto
  with Cons.IH [of fe1] Cons.prems(2,3) show ?case by auto
qed simp

lemma fe_ok_later: "fe_ok tx F fe \<Longrightarrow> 0 \<le> k \<Longrightarrow> fe_ok tx F (fe\<lparr>fe_clk := fe_clk fe + k\<rparr>)"
  using llc_inv_later [of "fe_clk fe" "{#}" "fe_llc fe" "fe_clk fe + k"] by (simp add: fe_ok_def fe_mid_def)

text \<open>A tick of the frontend, the callbacks of a memory tick, and the end of the simulation.\<close>

lemma SimpleO3_tick_ok:
  assumes ok: "fe_ok tx (outs m) fe" and m: "mem_ok m"
  shows "\<exists>fe' m'. SimpleO3_tick tx translate mem_send (fe, m) = Inr (fe', m') \<and> fe_ok tx (outs m') fe' \<and> mem_ok m' \<and>
    fe_clk fe' = fe_clk fe + 1 \<and> length (fe_cores fe') = length (fe_cores fe)"
proof -
  let ?fe = "fe\<lparr>fe_clk := fe_clk fe + 1\<rparr>"
  have "fe_ok tx (outs m) ?fe" using fe_ok_later [OF ok, of 1] by simp
  from LLC_tick_ok [OF this m] obtain fe1 m1 where l: "LLC_tick mem_send (?fe, m) = Inr (fe1, m1)" "fe_ok tx (outs m1) fe1" "mem_ok m1"
    "fe_clk fe1 = fe_clk fe + 1" "length (fe_cores fe1) = length (fe_cores fe)" by auto
  from tick_cores_ok [OF l(2) tx_pos [OF m], of "[0..<length (fe_cores fe1)]"] obtain fe' where
    "foldR (tick_core tx translate) [0..<length (fe_cores fe1)] fe1 = Inr fe'" "fe_ok tx (outs m1) fe'"
    "length (fe_cores fe') = length (fe_cores fe1)" "fe_clk fe' = fe_clk fe1" by auto
  with l show ?thesis by (simp add: SimpleO3_tick_def)
qed

lemma mem_tick_ok:
  assumes ok: "fe_ok tx (outs m) fe" and m: "mem_ok m"
  shows "\<exists>calls fe' m'. mem_tick m = Inr (calls, m') \<and> foldR run_callback calls fe = Inr fe' \<and> fe_ok tx (outs m') fe' \<and> mem_ok m' \<and>
    fe_clk fe' = fe_clk fe"
proof -
  obtain calls m' where t: "mem_tick m = Inr (calls, m')" "mem_ok m'" "mset (map tok calls) + outs m' = outs m" using tick_ok [OF m] by blast
  let ?ms = "toks (llc_miss_list (fe_llc fe))"
  from ok have mid: "fe_mid (outs m + ?ms) {#} fe" by (simp add: fe_ok_def)
  have "mset (map tok calls) + (outs m' + ?ms) = outs m + ?ms" unfolding add.assoc [symmetric] t(3) ..
  from run_callbacks_ok [OF mid [folded this]] obtain fe' where
    "foldR run_callback calls fe = Inr fe'" "fe_mid (outs m' + ?ms) {#} fe'" "same_queues fe fe'" by blast
  with t ok show ?thesis by (simp add: fe_ok_def same_queues_def)
qed

lemma is_finished_ok:
  assumes "fe_ok tx F fe"
  shows "\<exists>b. SimpleO3_is_finished fe = Inr b"
  using is_quiescent_inv [of "fe_clk fe" "fe_llc fe"] assms by (auto simp: SimpleO3_is_finished_def fe_ok_def fe_mid_def)

end

section \<open>A new frontend\<close>

lemma new_cores_ok:
  assumes "foldR (\<lambda>i cs. bindR (new_core cfg i) (\<lambda>c. Inr (cs @ [c]))) [k..<n] cs = Inr cs'" "length cs = k" "k \<le> n"
    and p: "0 < o3_ipc cfg" "0 < o3_depth cfg" "0 < o3_num_expected_insts cfg"
    and "\<forall>i < k. c_id (cs ! i) = int i \<and> core_ok {#} (cs ! i) \<and> has_work (cs ! i)"
  shows "length cs' = n \<and> (\<forall>i < n. c_id (cs' ! i) = int i \<and> core_ok {#} (cs' ! i) \<and> has_work (cs' ! i))"
  using assms(1-3,7)
proof (induction "n - k" arbitrary: k cs)
  case (Suc m)
  then have u: "[k..<n] = k # [Suc k..<n]" by (simp add: upt_conv_Cons)
  from Suc.prems(1) obtain c where c: "new_core cfg k = Inr c"
    "foldR (\<lambda>i cs. bindR (new_core cfg i) (\<lambda>c. Inr (cs @ [c]))) [Suc k..<n] (cs @ [c]) = Inr cs'"
    unfolding u by (auto simp: bindR_eq_Inr_iff)
  from Core_new_ok [OF c(1) [unfolded new_core_def]] p have "c_id c = int k" "core_ok {#} c" "has_work c" by simp_all
  then have "\<forall>i < Suc k. c_id ((cs @ [c]) ! i) = int i \<and> core_ok {#} ((cs @ [c]) ! i) \<and> has_work ((cs @ [c]) ! i)"
    using Suc.prems(2,4) by (auto simp: nth_append less_Suc_eq)
  from Suc.hyps(1) [OF _ c(2) _ _ this] Suc.hyps(2) Suc.prems(2) show ?case by simp
qed simp

lemma SimpleO3_init_ok:
  assumes "SimpleO3_init cfg tr = Inr fe"
  shows "fe_ok tx {#} fe" "fe_clk fe = 0" "fe_translation fe = tr"
proof -
  let ?n = "length (o3_traces cfg)"
  from assms obtain llc cs where p: "0 < o3_ipc cfg" "0 < o3_depth cfg" "0 < o3_num_expected_insts cfg"
    and l: "LLC_new (o3_llc_latency cfg) (o3_llc_capacity_per_core cfg * int ?n) (o3_llc_linesize_bytes cfg)
      (o3_llc_associativity cfg) (o3_llc_num_mshr_per_core cfg * int ?n) = Inr llc"
    and cs: "foldR (\<lambda>i cs. bindR (new_core cfg i) (\<lambda>c. Inr (cs @ [c]))) [0..<?n] [] = Inr cs"
    and fe: "fe = \<lparr>fe_clk = 0, fe_translation = tr, fe_cores = cs, fe_llc = llc\<rparr>"
    by (auto simp: SimpleO3_init_def Let_def bindR_eq_Inr_iff split: if_splits)
  note n = LLC_new_inv [OF l]
  have "cores_ok {#} cs" using new_cores_ok [OF cs _ _ p] by (simp add: cores_ok_def)
  moreover have "s_internal_writebacks_live llc = 0" using l by (auto simp: LLC_new_def Let_def split: if_splits)
  then have "flow_inv {#} llc" using n(4,7) by (simp add: flow_inv_def flight_ok_def open_groups_def)
  moreover have "live_requests llc = {#}" using n(3,5) by (simp add: live_requests_def)
  ultimately show "fe_ok tx {#} fe" using n(1,2) by (simp add: fe fe_ok_def fe_mid_def misses_ok_def)
  show "fe_clk fe = 0" "fe_translation fe = tr" by (simp_all add: fe)
qed

end
