(* ===== verification/O3_Idle.thy ===== *)
theory O3_Idle
  imports O3_System
begin

text \<open>
  Tick elision of the SimpleO3 frontend: as long as \<^verbatim>\<open>idle_ticks\<close> says so, a tick only moves the
  clock.
\<close>

lemma retire_stuck:
  assumes "win_ok w" "\<not> tail_ready w" "0 < w_ipc w"
  shows "retire w = Inr (0, w)"
  using assms by (auto simp: retire_def tail_ready_def retire_loop.simps [of 0 w] win_ok_def)

text \<open>A stalled core only counts.\<close>

lemma stalled_tick:
  assumes ok: "core_ok L c" and w: "has_work c" and st: "is_stalled c"
  shows "Core_tick tx clk translate (c, e) = Inr (c, e)"
proof -
  note d = core_okD [OF ok]
  have "\<not> tail_ready (c_window c)" using st by (auto simp: is_stalled_def split: if_splits)
  with d(1,2) have "retire (c_window c) = Inr (0, c_window c)" by (intro retire_stuck)
  moreover have "\<not> c_reached_expected_num_insts c \<Longrightarrow> \<not> s_insts_retired c \<ge> c_num_expected_insts c" using d(4) by (simp add: o3_counts_def)
  ultimately have r: "retire_stage clk c = Inr c" by (simp add: retire_stage_def Let_def) blast
  show ?thesis
  proof (cases "c_roi_issue_complete c")
    case True
    then show ?thesis using st r by (simp add: Core_tick_def is_stalled_def)
  next
    case False
    then have full: "is_full (c_window c)" and pend: "c_num_bubbles c \<noteq> 0 \<or> c_load_addr c \<noteq> -1"
      using st w by (auto simp: is_stalled_def has_work_def split: if_splits)
    show ?thesis
    proof (cases "c_num_bubbles c > 0")
      case True
      then show ?thesis using False full r by (simp add: Core_tick_def bubble_loop.simps [of 0 c])
    next
      case nb: False
      then have l: "c_load_addr c \<noteq> -1" using pend d(3) by (simp add: o3_trace_def)
      have "bubble_loop 0 c = Inr (False, 0, c)" using nb by (simp add: bubble_loop.simps [of 0 c])
      then show ?thesis using False full r l d(2) by (simp add: Core_tick_def load_stage_def)
    qed
  qed
qed

lemma stalled_cores:
  assumes "cores_ok R (fe_cores fe)" "\<forall>c \<in> set (fe_cores fe). is_stalled c" "\<forall>i \<in> set is. i < length (fe_cores fe)"
  shows "foldR (tick_core tx translate) is fe = Inr fe"
  using assms(3)
proof (induction "is")
  case (Cons i "is")
  then have i: "i < length (fe_cores fe)" by simp
  with assms(1,2) have "core_ok (live_of (int i) R) (fe_cores fe ! i)" "has_work (fe_cores fe ! i)" "is_stalled (fe_cores fe ! i)"
    by (simp_all add: cores_ok_def)
  from stalled_tick [OF this, of tx "fe_clk fe" translate "(fe_translation fe, fe_llc fe)"] have "tick_core tx translate i fe = Inr fe" by (simp add: tick_core_def)
  with Cons show ?case by simp
qed simp

text \<open>Nothing is due in the cache.\<close>

lemma send_misses_none: "\<forall>x \<in> set ms. clk < fst x \<Longrightarrow> send_misses f clk ms st = Inr (ms, st)"
  by (induction ms) auto

lemma serve_hits_none: "\<forall>x \<in> set hs. clk < fst x \<Longrightarrow> serve_hits f clk hs st = Inr (hs, st)"
  by (induction hs) auto

definition nothing_due :: "Clk_t \<Rightarrow> SimpleO3LLC \<Rightarrow> bool" where
  "nothing_due clk c \<longleftrightarrow> (\<forall>d \<in> set (map fst (llc_miss_list c) @ map fst (llc_hit_list c)). clk < d)"

lemma idle_LLC_tick:
  assumes "nothing_due (fe_clk fe) (fe_llc fe)"
  shows "LLC_tick mem_send (fe, m) = Inr (fe, m)"
  using assms by (auto simp: LLC_tick_def nothing_due_def send_misses_none serve_hits_none Let_def)

lemma idle_tick:
  assumes ok: "fe_ok tx F fe" and st: "\<forall>c \<in> set (fe_cores fe). is_stalled c" and d: "nothing_due (fe_clk fe + 1) (fe_llc fe)"
  shows "SimpleO3_tick tx translate mem_send (fe, m) = Inr (SimpleO3_fast_forward 1 fe, m)"
proof -
  let ?fe = "fe\<lparr>fe_clk := fe_clk fe + 1\<rparr>"
  have "LLC_tick mem_send (?fe, m) = Inr (?fe, m)" by (rule idle_LLC_tick) (use d in simp)
  moreover have "cores_ok (live_requests (fe_llc fe)) (fe_cores ?fe)" using ok by (simp add: fe_ok_def fe_mid_def)
  then have "foldR (tick_core tx translate) [0..<length (fe_cores ?fe)] ?fe = Inr ?fe" by (rule stalled_cores) (use st in simp_all)
  ultimately show ?thesis by (simp add: SimpleO3_tick_def SimpleO3_fast_forward_def)
qed

section \<open>What \<open>idle_ticks\<close> promises\<close>

lemma fold_min_le: "fold min xs (a::int) \<le> a \<and> (\<forall>x \<in> set xs. fold min xs a \<le> x)"
proof (induction xs arbitrary: a)
  case (Cons x xs)
  from Cons.IH [of "min x a"] show ?case by auto
qed simp

lemma next_event_due:
  assumes "clk < next_event clk c" "0 \<le> clk"
  shows "nothing_due (next_event clk c - 1) c"
proof -
  let ?ds = "map fst (llc_miss_list c) @ map fst (llc_hit_list c)"
  have "next_event clk c = fold min ?ds (2 ^ 63 - 1)" using assms unfolding next_event_def Let_def by (cases "list_ex (\<lambda>d. d \<le> clk) ?ds") simp_all
  with fold_min_le [of ?ds "2 ^ 63 - 1"] have "\<forall>d \<in> set ?ds. next_event clk c \<le> d" by metis
  then show ?thesis unfolding nothing_due_def by force
qed

lemma nothing_due_earlier: "nothing_due d c \<Longrightarrow> clk \<le> d \<Longrightarrow> nothing_due clk c"
  unfolding nothing_due_def using order_le_less_trans by blast

lemma idle_ticks_cases:
  assumes "a < SimpleO3_idle_ticks mx fe" "0 \<le> a" "0 \<le> fe_clk fe"
  shows "\<forall>c \<in> set (fe_cores fe). is_stalled c" "nothing_due (fe_clk fe + a + 1) (fe_llc fe)"
proof -
  let ?n = "next_event (fe_clk fe) (fe_llc fe)"
  from assms(1,2) show "\<forall>c \<in> set (fe_cores fe). is_stalled c" by (auto simp: SimpleO3_idle_ticks_def list_ex_iff split: if_splits)
  have n: "fe_clk fe + a + 1 \<le> ?n - 1" "fe_clk fe < ?n" using assms(1,2) by (auto simp: SimpleO3_idle_ticks_def Let_def split: if_splits)
  from nothing_due_earlier [OF next_event_due [OF n(2) assms(3)] n(1)] show "nothing_due (fe_clk fe + a + 1) (fe_llc fe)" .
qed

text \<open>Inside the promise, every tick is one step of the clock.\<close>

lemma promised_tick:
  assumes ok: "fe_ok tx F fe" and a: "0 \<le> a" "a < SimpleO3_idle_ticks mx fe" and clk: "0 \<le> fe_clk fe"
  shows "SimpleO3_tick tx translate mem_send (SimpleO3_fast_forward a fe, m) = Inr (SimpleO3_fast_forward (a + 1) fe, m)"
proof -
  note i = idle_ticks_cases [OF a(2,1) clk]
  let ?fe = "SimpleO3_fast_forward a fe"
  have "llc_inv (fe_clk fe + a) {#} (fe_llc fe)" using ok a(1) llc_inv_later [of "fe_clk fe" "{#}" "fe_llc fe" "fe_clk fe + a"]
    by (simp add: fe_ok_def fe_mid_def)
  then have "fe_ok tx F ?fe" using ok by (simp add: SimpleO3_fast_forward_def fe_ok_def fe_mid_def)
  from idle_tick [OF this] i show ?thesis by (simp add: SimpleO3_fast_forward_def add.assoc)
qed

end
