(* ===== verification/Atomic_System.thy ===== *)
theory Atomic_System
  imports Atomic_Controller O3_Idle
begin

text \<open>
  The memory system of \<^verbatim>\<open>generic_dram_system.cpp\<close> over atomic controllers, its invariant, and that
  it is a memory as the frontend needs it.
\<close>

section \<open>Definitions\<close>

record 'p AtomicDRAM =
  ad_channel_mapper :: channel_mapper
  ad_controllers :: "'p AtomicController list"
  ad_next_admission_ordinal :: "int list"
  ad_clock_ratio :: int
  ad_tx_bytes :: int
  ad_num_read_requests :: "32 word"
  ad_num_write_requests :: "32 word"

definition AtomicDRAM_init :: "int \<Rightarrow> mapper_config \<Rightarrow> 'p AtomicController list \<Rightarrow> 'p AtomicDRAM result" where
  "AtomicDRAM_init clock_ratio mc controllers =
     (if controllers = [] then throw ''GenericDRAM requires at least one controller''
      else let cs = map (\<lambda>(i, c). Atomic_set_channel_id (int i) c) (enumerate 0 controllers);
               tx_bytes = get_tx_bytes (m_spec (at_device (cs ! 0)))
           in bindR (channel_setup mc (int (length cs)) (int (calc_log2 (nat tx_bytes)))) (\<lambda>cm.
                Inr \<lparr>ad_channel_mapper = cm, ad_controllers = cs, ad_next_admission_ordinal = replicate (length cs) 0,
                     ad_clock_ratio = clock_ratio, ad_tx_bytes = tx_bytes, ad_num_read_requests = 0, ad_num_write_requests = 0\<rparr>))"

definition AtomicDRAM_count :: "Request \<Rightarrow> 'p AtomicDRAM \<Rightarrow> 'p AtomicDRAM" where
  "AtomicDRAM_count req ms =
     (if req_type_id req = Type_Read then ms\<lparr>ad_num_read_requests := ad_num_read_requests ms + 1\<rparr>
      else if req_type_id req = Type_Write then ms\<lparr>ad_num_write_requests := ad_num_write_requests ms + 1\<rparr>
      else ms)"

text \<open>No callback of an atomic controller runs before \<^verbatim>\<open>send\<close> returns.\<close>

definition AtomicDRAM_send :: "'p predictor \<Rightarrow> 'p AtomicDRAM memory_send" where
  "AtomicDRAM_send predict req0 ms =
     (if req_size_bytes req0 \<le> 0 \<or> req_size_bytes req0 > ad_tx_bytes ms
      then throw ''Request size_bytes must be set by the frontend''
      else let req1 = channel_apply (ad_channel_mapper ms) req0;
               channel_id = nat (req_addr_vec req1 ! 0);
               req2 = req1\<lparr>req_admission_ordinal := ad_next_admission_ordinal ms ! channel_id\<rparr>
           in bindR (Atomic_send predict req2 (ad_controllers ms ! channel_id)) (\<lambda>(is_success, req, c).
                let ms' = ms\<lparr>ad_controllers := (ad_controllers ms)[channel_id := c],
                             ad_next_admission_ordinal :=
                               (ad_next_admission_ordinal ms)[channel_id := ad_next_admission_ordinal ms ! channel_id + 1]\<rparr>
                in if is_success then Inr (True, [], req, AtomicDRAM_count req ms')
                   else Inr (False, [], req\<lparr>req_admission_ordinal := -1\<rparr>, ms')))"

definition AtomicDRAM_tick :: "'p AtomicDRAM \<Rightarrow> (Request list \<times> 'p AtomicDRAM) result" where
  "AtomicDRAM_tick ms =
     (let rs = map Atomic_tick (ad_controllers ms)
      in Inr (concat (map fst rs), ms\<lparr>ad_controllers := map snd rs\<rparr>))"

definition AtomicDRAM_idle_ticks :: "'p AtomicDRAM \<Rightarrow> Clk_t" where
  "AtomicDRAM_idle_ticks ms = fold (\<lambda>c idle. min idle (Atomic_idle_ticks c)) (ad_controllers ms) (2 ^ 63 - 1)"

definition AtomicDRAM_fast_forward :: "Clk_t \<Rightarrow> 'p AtomicDRAM \<Rightarrow> 'p AtomicDRAM" where
  "AtomicDRAM_fast_forward ticks ms = ms\<lparr>ad_controllers := map (Atomic_fast_forward ticks) (ad_controllers ms)\<rparr>"

definition AtomicDRAM_reset_stats :: "'p AtomicDRAM \<Rightarrow> 'p AtomicDRAM" where
  "AtomicDRAM_reset_stats ms = ms\<lparr>ad_num_read_requests := 0, ad_num_write_requests := 0\<rparr>"

section \<open>One controller\<close>

definition reads_in :: "PendingRequest list \<Rightarrow> nat" where
  "reads_in ps = length (filter (\<lambda>p. req_type_id (pr_req p) = Type_Read) ps)"

definition atomic_ok :: "'p AtomicController \<Rightarrow> bool" where
  "atomic_ok c \<longleftrightarrow>
     (\<exists>b. at_addr_mapper c = BaseMapper b) \<and> 0 < at_latency c \<and>
     sorted_wrt (\<lambda>p q. pending_gt q p) (at_pending c) \<and>
     (\<forall>p \<in> set (at_pending c). pr_sequence p < at_next_sequence c \<and> pr_depart p = req_depart (pr_req p) \<and> at_clk c < pr_depart p) \<and>
     at_inflight_reads c = reads_in (at_pending c) \<and> at_inflight_reads c + at_inflight_writes c = length (at_pending c) \<and>
     int (at_inflight_reads c) \<le> at_read_buffer_size c \<and> int (at_inflight_writes c) \<le> at_write_buffer_size c \<and>
     0 < at_read_buffer_size c \<and> 0 < at_write_buffer_size c \<and> (\<forall>p \<in> set (at_pending c). req_callback (pr_req p) \<noteq> None)"

lemma atomic_ok_rejects [simp]: "atomic_ok (c\<lparr>at_send_rejects := n\<rparr>) = atomic_ok c"
  by (simp add: atomic_ok_def)

abbreviation pending_toks :: "PendingRequest list \<Rightarrow> token multiset" where
  "pending_toks ps \<equiv> mset (map (tok \<circ> pr_req) ps)"

lemma mset_pending_push [simp]: "mset (pending_push p qs) = add_mset p (mset qs)"
  by (induction qs) auto

lemma reads_in_push: "reads_in (pending_push p qs) = (if req_type_id (pr_req p) = Type_Read then Suc (reads_in qs) else reads_in qs)"
  by (induction qs) (auto simp: reads_in_def)

lemma base_apply_keeps:
  "req_callback (base_apply b r) = req_callback r" "req_addr (base_apply b r) = req_addr r" "req_type_id (base_apply b r) = req_type_id r"
  by (cases b; simp add: ChRaBaRoCo_apply_def RoBaRaCoCh_apply_def MOP4CLXOR_apply_def PassThroughAddrMapper_apply_def Let_def split: prod.splits)+

lemma count_admitted_frame [simp]:
  "at_pending (count_admitted r c) = at_pending c" "at_next_sequence (count_admitted r c) = at_next_sequence c"
  by (simp_all add: count_admitted_def Let_def)

locale atomic_model =
  fixes predict :: "'p predictor"
  assumes future: "0 < latency \<Longrightarrow> \<exists>d p'. predict latency clk req p = Inr (d, p') \<and> clk < d"
begin

text \<open>Admission: the request is queued under its own address and callback, or nothing but a counter changes.\<close>

lemma Atomic_send_ok:
  assumes ok: "atomic_ok c" and ty: "req_type_id req = Type_Read \<or> req_type_id req = Type_Write" and cb: "req_callback req \<noteq> None"
  obtains (full) "Atomic_send predict req c = Inr (False, req, c\<lparr>at_send_rejects := at_send_rejects c + 1\<rparr>)"
    | (admitted) q c' where "Atomic_send predict req c = Inr (True, q, c')" "atomic_ok c'"
      "pending_toks (at_pending c') = add_mset (tok req) (pending_toks (at_pending c))"
proof -
  let ?rd = "req_type_id req = Type_Read"
  obtain b where b: "at_addr_mapper c = BaseMapper b" using ok by (auto simp: atomic_ok_def)
  show ?thesis
  proof (cases "int (if ?rd then at_inflight_reads c else at_inflight_writes c) \<ge> (if ?rd then at_read_buffer_size c else at_write_buffer_size c)")
    case True
    then show ?thesis using ty by (intro full) (simp add: Atomic_send_def Let_def)
  next
    case False
    define q where "q = (base_apply b req)\<lparr>req_addr_vec := (req_addr_vec (base_apply b req))[0 := at_channel_id c], req_arrive := at_clk c\<rparr>"
    have "0 < at_latency c" using ok by (simp add: atomic_ok_def)
    then obtain d p where d: "predict (at_latency c) (at_clk c) q (at_model c) = Inr (d, p)" "at_clk c < d" using future by blast
    define c1 where "c1 = count_admitted ?rd (c\<lparr>at_model := p\<rparr>)"
    define x where "x = \<lparr>pr_depart = d, pr_sequence = at_next_sequence c, pr_req = q\<lparr>req_depart := d\<rparr>\<rparr>"
    define c' where "c' = c1\<lparr>at_pending := pending_push x (at_pending c), at_next_sequence := Suc (at_next_sequence c)\<rparr>"
    have s: "Atomic_send predict req c = Inr (True, q\<lparr>req_depart := d\<rparr>, c')"
      using False ty d by (simp add: Atomic_send_def Let_def b q_def [symmetric] c1_def c'_def x_def)
    have t: "tok (pr_req x) = tok req" by (simp add: x_def q_def tok_def base_apply_keeps)
    have seq: "\<forall>p \<in> set (at_pending c). pr_sequence p \<noteq> pr_sequence x" using ok by (auto simp: atomic_ok_def x_def)
    have "sorted_wrt (\<lambda>p q. pending_gt q p) (pending_push x (at_pending c))" using sorted_pending_push [OF _ seq] ok by (simp add: atomic_ok_def)
    moreover have "\<forall>p \<in> set (pending_push x (at_pending c)). pr_sequence p < Suc (at_next_sequence c) \<and> pr_depart p = req_depart (pr_req p) \<and> at_clk c < pr_depart p"
      using ok d(2) by (auto simp: atomic_ok_def x_def)
    moreover have "at_clk c' = at_clk c" "at_addr_mapper c' = at_addr_mapper c" "at_latency c' = at_latency c"
      "at_pending c' = pending_push x (at_pending c)" "at_next_sequence c' = Suc (at_next_sequence c)"
      "at_read_buffer_size c' = at_read_buffer_size c" "at_write_buffer_size c' = at_write_buffer_size c"
      "at_inflight_reads c' = (if ?rd then Suc (at_inflight_reads c) else at_inflight_reads c)"
      "at_inflight_writes c' = (if ?rd then at_inflight_writes c else Suc (at_inflight_writes c))"
      by (simp_all add: c'_def c1_def count_admitted_def Let_def)
    moreover have "req_type_id (pr_req x) = req_type_id req" by (simp add: x_def q_def base_apply_keeps)
    moreover have "req_callback (pr_req x) \<noteq> None" using cb by (simp add: x_def q_def base_apply_keeps)
    ultimately have "atomic_ok c'" using ok False by (auto simp: atomic_ok_def reads_in_push)
    moreover have "pending_toks (at_pending c') = add_mset (tok req) (pending_toks (at_pending c))" using t by (simp add: c'_def)
    ultimately show ?thesis using s by (intro admitted)
  qed
qed

end

text \<open>Completion: exactly the requests that are due leave, in order.\<close>

lemma serve_completed_ok:
  assumes "sorted_wrt (\<lambda>p q. pending_gt q p) ps" "at_inflight_reads c = reads_in ps" "at_inflight_reads c + at_inflight_writes c = length ps"
  shows "\<exists>c' us. serve_completed ps c = (filter (\<lambda>r. req_callback r \<noteq> None) (map pr_req us), c') \<and>
    us = takeWhile (\<lambda>p. pr_depart p \<le> at_clk c) ps \<and> at_pending c' = dropWhile (\<lambda>p. pr_depart p \<le> at_clk c) ps \<and>
    at_clk c' = at_clk c \<and> at_addr_mapper c' = at_addr_mapper c \<and> at_latency c' = at_latency c \<and> at_next_sequence c' = at_next_sequence c \<and>
    at_read_buffer_size c' = at_read_buffer_size c \<and> at_write_buffer_size c' = at_write_buffer_size c \<and>
    at_inflight_reads c' = reads_in (at_pending c') \<and> at_inflight_reads c' + at_inflight_writes c' = length (at_pending c') \<and>
    at_inflight_reads c' \<le> at_inflight_reads c \<and> at_inflight_writes c' \<le> at_inflight_writes c"
  using assms
proof (induction ps arbitrary: c)
  case (Cons p ps)
  show ?case
  proof (cases "pr_depart p \<le> at_clk c")
    case False
    then show ?thesis using Cons.prems by simp
  next
    case True
    define c1 where "c1 = count_served (pr_req p) c"
    have "reads_in ps \<le> length ps" "reads_in (p # ps) = (if req_type_id (pr_req p) = Type_Read then Suc (reads_in ps) else reads_in ps)"
      by (simp_all add: reads_in_def)
    then have "0 < at_inflight_writes c" if "req_type_id (pr_req p) \<noteq> Type_Read" using Cons.prems(2,3) that by (auto split: if_splits)
    then have i: "at_inflight_reads c1 = reads_in ps" "at_inflight_reads c1 + at_inflight_writes c1 = length ps"
      "at_inflight_reads c1 \<le> at_inflight_reads c" "at_inflight_writes c1 \<le> at_inflight_writes c"
      using Cons.prems(2,3) by (auto simp: c1_def count_served_def reads_in_def)
    have f: "at_clk c1 = at_clk c" "at_addr_mapper c1 = at_addr_mapper c" "at_latency c1 = at_latency c" "at_next_sequence c1 = at_next_sequence c"
      "at_read_buffer_size c1 = at_read_buffer_size c" "at_write_buffer_size c1 = at_write_buffer_size c" by (simp_all add: c1_def count_served_def)
    have "sorted_wrt (\<lambda>p q. pending_gt q p) ps" using Cons.prems(1) by simp
    from Cons.IH [OF this i(1,2)] show ?thesis using True i(3,4) by (auto simp: f c1_def [symmetric] intro: order_trans)
  qed
qed (simp add: reads_in_def)

lemma sorted_dropWhile_due:
  "sorted_wrt (\<lambda>p q. pending_gt q p) ps \<Longrightarrow> \<forall>p \<in> set (dropWhile (\<lambda>p. pr_depart p \<le> k) ps). k < pr_depart p"
proof (induction ps)
  case (Cons p ps)
  then show ?case by (auto simp: pending_gt_def split: if_splits)
qed simp

lemma Atomic_tick_ok:
  assumes ok: "atomic_ok c"
  obtains calls c' where "Atomic_tick c = (calls, c')" "atomic_ok c'" "mset (map tok calls) + pending_toks (at_pending c') = pending_toks (at_pending c)"
    "calls = filter (\<lambda>r. req_callback r \<noteq> None) (map pr_req (takeWhile (\<lambda>p. pr_depart p \<le> at_clk c + 1) (at_pending c)))"
proof -
  let ?c = "c\<lparr>at_clk := at_clk c + 1, at_measured_clk := at_measured_clk c + 1\<rparr>" and ?P = "\<lambda>p. pr_depart p \<le> at_clk c + 1"
  from ok have s: "sorted_wrt (\<lambda>p q. pending_gt q p) (at_pending c)" by (simp add: atomic_ok_def)
  obtain c' us where t: "Atomic_tick c = (filter (\<lambda>r. req_callback r \<noteq> None) (map pr_req us), c')" "us = takeWhile ?P (at_pending c)"
    and f: "at_pending c' = dropWhile ?P (at_pending c)" "at_clk c' = at_clk c + 1" "at_addr_mapper c' = at_addr_mapper c" "at_latency c' = at_latency c"
      "at_next_sequence c' = at_next_sequence c" "at_read_buffer_size c' = at_read_buffer_size c" "at_write_buffer_size c' = at_write_buffer_size c"
      "at_inflight_reads c' = reads_in (at_pending c')" "at_inflight_reads c' + at_inflight_writes c' = length (at_pending c')"
      "at_inflight_reads c' \<le> at_inflight_reads c" "at_inflight_writes c' \<le> at_inflight_writes c"
    using serve_completed_ok [OF s, of ?c] ok by (auto simp: Atomic_tick_def atomic_ok_def)
  have "\<forall>p \<in> set (at_pending c'). p \<in> set (at_pending c) \<and> at_clk c' < pr_depart p"
    using sorted_dropWhile_due [OF s, of "at_clk c + 1"] f(1,2) by (auto dest: set_dropWhileD)
  moreover have "sorted_wrt (\<lambda>p q. pending_gt q p) (at_pending c')" using s by (simp add: f(1) sorted_dropWhile)
  ultimately have "atomic_ok c'" using ok f(3-11) by (auto simp: atomic_ok_def)
  moreover have "set us \<subseteq> set (at_pending c)" using set_takeWhileD by (fastforce simp: t(2))
  then have "filter (\<lambda>r. req_callback r \<noteq> None) (map pr_req us) = map pr_req us" using ok by (auto simp: atomic_ok_def filter_id_conv)
  then have "mset (map tok (filter (\<lambda>r. req_callback r \<noteq> None) (map pr_req us))) = pending_toks us" by simp
  moreover have "pending_toks us + pending_toks (at_pending c') = pending_toks (at_pending c)"
    unfolding t(2) f(1) mset_append [symmetric] map_append [symmetric] takeWhile_dropWhile_id ..
  ultimately show ?thesis using that t by metis
qed

section \<open>The system\<close>

definition adram_outs :: "'p AtomicDRAM \<Rightarrow> token multiset" where
  "adram_outs ms = (\<Sum>c \<leftarrow> ad_controllers ms. pending_toks (at_pending c))"

definition adram_ok :: "int \<Rightarrow> 'p AtomicDRAM \<Rightarrow> bool" where
  "adram_ok tx ms \<longleftrightarrow> 0 < tx \<and> ad_tx_bytes ms = tx \<and> (\<forall>c \<in> set (ad_controllers ms). atomic_ok c) \<and>
     (\<exists>cm. ad_channel_mapper ms = CacheLineInterleave cm \<and> interleave_ok cm \<and> m_num_channels cm = int (length (ad_controllers ms)))"

lemma channel_apply_keeps: "req_callback (channel_apply m req) = req_callback req" "req_size_bytes (channel_apply m req) = req_size_bytes req"
  by (cases m; simp add: CacheLineInterleave_apply_def Gem5PortInterleave_apply_def PassThroughChannelMapper_apply_def set_channel_def Let_def)+

text \<open>The channel of a request exists.\<close>

lemma adram_channel:
  assumes "adram_ok tx ms"
  shows "nat (req_addr_vec (channel_apply (ad_channel_mapper ms) req) ! 0) < length (ad_controllers ms)"
proof -
  from assms obtain cm where cm: "ad_channel_mapper ms = CacheLineInterleave cm" "interleave_ok cm" "m_num_channels cm = int (length (ad_controllers ms))"
    by (auto simp: adram_ok_def)
  from cut.channel_exists [OF cm(2), of "req_addr req"] show ?thesis
    by (simp add: cm(1,3) CacheLineInterleave_cut [OF cm(2)] nat_less_iff)
qed

lemma sum_list_upd:
  fixes f :: "'a \<Rightarrow> 'b :: comm_monoid_add"
  assumes "i < length xs" "f y = f (xs ! i) + d"
  shows "(\<Sum>x \<leftarrow> xs[i := y]. f x) = (\<Sum>x \<leftarrow> xs. f x) + d"
proof -
  have "(\<Sum>x \<leftarrow> xs. f x) = (\<Sum>x \<leftarrow> take i xs @ xs ! i # drop (Suc i) xs. f x)" using id_take_nth_drop [OF assms(1)] by simp
  then show ?thesis by (simp add: upd_conv_take_nth_drop [OF assms(1)] assms(2) ac_simps)
qed

lemma sum_list_split:
  fixes f :: "'a \<Rightarrow> 'b :: comm_monoid_add"
  shows "(\<And>x. x \<in> set xs \<Longrightarrow> f x + g x = h x) \<Longrightarrow> (\<Sum>x \<leftarrow> xs. f x) + (\<Sum>x \<leftarrow> xs. g x) = (\<Sum>x \<leftarrow> xs. h x)"
  by (simp add: sum_list_addf [symmetric] cong: map_cong)

lemma mset_concat_map: "mset (map t (concat xss)) = (\<Sum>xs \<leftarrow> xss. mset (map t xs))"
  by (induction xss) simp_all

context atomic_model
begin

lemma AtomicDRAM_send_ok:
  assumes ok: "adram_ok tx ms" and r: "request_ok tx req"
  shows "\<exists>sent calls req' ms'. AtomicDRAM_send predict req ms = Inr (sent, calls, req', ms') \<and> adram_ok tx ms' \<and>
    mset (map tok calls) + adram_outs ms' = (if sent then add_mset (tok req) (adram_outs ms) else adram_outs ms) \<and>
    (\<not> sent \<longrightarrow> tok req' = tok req \<and> request_ok tx req')"
proof -
  let ?req1 = "channel_apply (ad_channel_mapper ms) req"
  define i where "i = nat (req_addr_vec ?req1 ! 0)"
  define q where "q = ?req1\<lparr>req_admission_ordinal := ad_next_admission_ordinal ms ! i\<rparr>"
  define ms1 where "ms1 c = ms\<lparr>ad_controllers := (ad_controllers ms)[i := c],
    ad_next_admission_ordinal := (ad_next_admission_ordinal ms)[i := ad_next_admission_ordinal ms ! i + 1]\<rparr>" for c
  have i: "i < length (ad_controllers ms)" unfolding i_def by (rule adram_channel [OF ok])
  have c: "atomic_ok (ad_controllers ms ! i)" using ok i by (simp add: adram_ok_def)
  have t: "tok q = tok req" "req_type_id q = req_type_id req" "req_size_bytes q = req_size_bytes req"
    by (simp_all add: q_def tok_def channel_apply_keeps)
  have ty: "req_type_id q = Type_Read \<or> req_type_id q = Type_Write" using r t(2) by (simp add: request_ok_def)
  have ok1: "adram_ok tx (ms1 c')" if "atomic_ok c'" for c'
    using ok that set_update_subset_insert [of "ad_controllers ms" i c'] by (auto simp: adram_ok_def ms1_def)
  have s: "AtomicDRAM_send predict req ms = bindR (Atomic_send predict q (ad_controllers ms ! i)) (\<lambda>(is_success, req, c).
      if is_success then Inr (True, [], req, AtomicDRAM_count req (ms1 c)) else Inr (False, [], req\<lparr>req_admission_ordinal := -1\<rparr>, ms1 c))"
    unfolding AtomicDRAM_send_def Let_def i_def [symmetric] q_def [symmetric] ms1_def
    using r ok by (simp add: request_ok_def adram_ok_def)
  have "req_callback q \<noteq> None" using r by (simp add: q_def request_ok_def channel_apply_keeps)
  with c ty show ?thesis
  proof (cases rule: Atomic_send_ok)
    case full
    let ?c = "(ad_controllers ms ! i)\<lparr>at_send_rejects := at_send_rejects (ad_controllers ms ! i) + 1\<rparr>"
    have "atomic_ok ?c" using c by simp
    moreover have "adram_outs (ms1 ?c) = adram_outs ms"
      using sum_list_upd [OF i, of "\<lambda>c. pending_toks (at_pending c)" ?c "{#}"] by (simp add: adram_outs_def ms1_def)
    ultimately show ?thesis using full r t ok1 by (intro exI [of _ False]) (simp add: s request_ok_def tok_def)
  next
    case (admitted q' c')
    have o: "adram_outs (ms1 c') = add_mset (tok req) (adram_outs ms)"
      using sum_list_upd [OF i, of "\<lambda>c. pending_toks (at_pending c)" c' "{#tok req#}"] admitted(3) t by (simp add: adram_outs_def ms1_def)
    have "adram_ok tx (AtomicDRAM_count q' (ms1 c'))" "adram_outs (AtomicDRAM_count q' (ms1 c')) = adram_outs (ms1 c')"
      using ok1 [OF admitted(2)] by (simp_all add: adram_ok_def adram_outs_def AtomicDRAM_count_def)
    with admitted(1) o show ?thesis by (intro exI [of _ True]) (simp add: s)
  qed
qed

end

lemma AtomicDRAM_tick_ok:
  assumes ok: "adram_ok tx ms"
  shows "\<exists>calls ms'. AtomicDRAM_tick ms = Inr (calls, ms') \<and> adram_ok tx ms' \<and> mset (map tok calls) + adram_outs ms' = adram_outs ms"
proof -
  let ?cs = "ad_controllers ms"
  have c: "atomic_ok (snd (Atomic_tick c))" "mset (map tok (fst (Atomic_tick c))) + pending_toks (at_pending (snd (Atomic_tick c))) = pending_toks (at_pending c)"
    if "c \<in> set ?cs" for c
  proof -
    have "atomic_ok c" using ok that by (simp add: adram_ok_def)
    then show "atomic_ok (snd (Atomic_tick c))" "mset (map tok (fst (Atomic_tick c))) + pending_toks (at_pending (snd (Atomic_tick c))) = pending_toks (at_pending c)"
      by (rule Atomic_tick_ok; simp)+
  qed
  define ms' where "ms' = ms\<lparr>ad_controllers := map snd (map Atomic_tick ?cs)\<rparr>"
  have "AtomicDRAM_tick ms = Inr (concat (map fst (map Atomic_tick ?cs)), ms')" by (simp add: AtomicDRAM_tick_def Let_def ms'_def)
  moreover have "adram_ok tx ms'" using ok c(1) by (auto simp: adram_ok_def ms'_def)
  moreover have "mset (map tok (concat (map fst (map Atomic_tick ?cs)))) + adram_outs ms' = adram_outs ms"
    unfolding mset_concat_map using sum_list_split [OF c(2)] by (simp add: adram_outs_def ms'_def o_def)
  ultimately show ?thesis by blast
qed

sublocale atomic_model \<subseteq> memory_port "AtomicDRAM_send predict" AtomicDRAM_tick adram_outs "adram_ok tx" tx for tx
  by unfold_locales (simp add: adram_ok_def, rule AtomicDRAM_send_ok, assumption+, rule AtomicDRAM_tick_ok)

text \<open>The constant model answers with a future departure.\<close>

interpretation seed: atomic_model AtomicController_predict
  by unfold_locales (simp add: AtomicController_predict_def)

end
