(* ===== verification/O3_Simulation.thy ===== *)
theory O3_Simulation
  imports Simulation Atomic_System
begin

text \<open>
  A whole simulation: the SimpleO3 frontend over a memory system of atomic controllers, driven
  by \<^verbatim>\<open>run_simulation\<close>. The state of the driver is the pair of the two.
\<close>

section \<open>The components of the driver\<close>

text \<open>A tick of the memory runs the callbacks of the requests it completes.\<close>

definition o3_mem_tick :: "'t SimpleO3 \<times> 'p AtomicDRAM \<Rightarrow> ('t SimpleO3 \<times> 'p AtomicDRAM) result" where
  "o3_mem_tick s =
     (case s of (fe, m) \<Rightarrow>
        bindR (AtomicDRAM_tick m) (\<lambda>(calls, m'). bindR (foldR run_callback calls fe) (\<lambda>fe'. Inr (fe', m'))))"

definition o3_ops :: "int \<Rightarrow> int \<Rightarrow> int \<Rightarrow> 't translator \<Rightarrow> 'p predictor \<Rightarrow> ('t SimpleO3 \<times> 'p AtomicDRAM) sim_ops" where
  "o3_ops fe_ratio mem_ratio tx translate predict =
     \<lparr>op_fe_clock_ratio = fe_ratio, op_mem_clock_ratio = mem_ratio,
      op_fe_tick = SimpleO3_tick tx translate (AtomicDRAM_send predict),
      op_is_finished = (\<lambda>s. SimpleO3_is_finished (fst s)),
      op_mem_tick = o3_mem_tick,
      op_fe_idle_ticks = (\<lambda>mx s. SimpleO3_idle_ticks mx (fst s)),
      op_mem_idle_ticks = (\<lambda>s. AtomicDRAM_idle_ticks (snd s)),
      op_fe_fast_forward = (\<lambda>n s. (SimpleO3_fast_forward n (fst s), snd s)),
      op_mem_fast_forward = (\<lambda>n s. (fst s, AtomicDRAM_fast_forward n (snd s)))\<rparr>"

text \<open>The translations as the frontend calls them.\<close>

definition no_translator :: "Addr_t \<Rightarrow> unit translator" where
  "no_translator max_paddr req tr = Inr (True, NoTranslation_translate max_paddr req, tr)"

definition random_translator :: "RandomTranslation translator" where
  "random_translator req tr = (case RandomTranslation_translate tr req of (tr', req') \<Rightarrow> Inr (True, req', tr'))"

interpretation no_tr: translation "no_translator max_paddr"
  by unfold_locales (auto simp: no_translator_def NoTranslation_translate_def)

interpretation random_tr: translation random_translator
  by unfold_locales (auto simp: random_translator_def RandomTranslation_translate_def Let_def split: option.splits)

section \<open>Idle memory\<close>

lemma AtomicDRAM_forward_0: "AtomicDRAM_fast_forward 0 m = m"
proof -
  have "map (Atomic_fast_forward 0) cs = cs" for cs :: "'a AtomicController list" by (rule map_idI) (simp add: Atomic_fast_forward_def)
  then show ?thesis by (simp add: AtomicDRAM_fast_forward_def)
qed

lemma idle_serves_none:
  assumes "atomic_ok c" "0 \<le> b" "b < Atomic_idle_ticks c"
  shows "Atomic_tick (Atomic_fast_forward b c) = ([], Atomic_fast_forward (b + 1) c)"
  using assms by (cases "at_pending c") (auto simp: Atomic_tick_def Atomic_fast_forward_def Atomic_idle_ticks_def add.assoc split: if_splits)

lemma idle_keeps_ok:
  assumes ok: "atomic_ok c" and b: "0 \<le> b" "b \<le> Atomic_idle_ticks c"
  shows "atomic_ok (Atomic_fast_forward b c)"
proof -
  have "at_clk c + b < pr_depart p" if "p \<in> set (at_pending c)" for p
  proof (cases "at_pending c")
    case (Cons q qs)
    have "at_clk c < pr_depart q" using ok Cons by (simp add: atomic_ok_def)
    then have "at_clk c + b < pr_depart q" using b Cons by (auto simp: Atomic_idle_ticks_def split: if_splits)
    moreover have "pr_depart q \<le> pr_depart p" using ok that Cons by (auto simp: atomic_ok_def pending_gt_def split: if_splits)
    ultimately show ?thesis by simp
  qed (use that in simp)
  with ok show ?thesis by (simp add: atomic_ok_def Atomic_fast_forward_def)
qed

lemma fold_min_map: "fold (\<lambda>c idle. min idle (f c)) cs (k :: int) = fold min (map f cs) k"
  by (induction cs arbitrary: k) (simp_all add: min.commute)

lemma AtomicDRAM_idle: "c \<in> set (ad_controllers m) \<Longrightarrow> AtomicDRAM_idle_ticks m \<le> Atomic_idle_ticks c"
  using fold_min_le [of "map Atomic_idle_ticks (ad_controllers m)" "2 ^ 63 - 1"] by (simp add: AtomicDRAM_idle_ticks_def fold_min_map)

lemma AtomicDRAM_idle_tick:
  assumes "adram_ok tx m" "0 \<le> b" "b < AtomicDRAM_idle_ticks m"
  shows "AtomicDRAM_tick (AtomicDRAM_fast_forward b m) = Inr ([], AtomicDRAM_fast_forward (b + 1) m)"
proof -
  have "Atomic_tick (Atomic_fast_forward b c) = ([], Atomic_fast_forward (b + 1) c)" if "c \<in> set (ad_controllers m)" for c
    using that assms AtomicDRAM_idle [OF that] by (intro idle_serves_none) (auto simp: adram_ok_def)
  then have "map (Atomic_tick \<circ> Atomic_fast_forward b) (ad_controllers m) = map (\<lambda>c. ([], Atomic_fast_forward (b + 1) c)) (ad_controllers m)"
    by simp
  then show ?thesis by (simp add: AtomicDRAM_tick_def AtomicDRAM_fast_forward_def o_def)
qed

lemma AtomicDRAM_idle_ok:
  assumes "adram_ok tx m" "0 \<le> b" "b \<le> AtomicDRAM_idle_ticks m"
  shows "adram_ok tx (AtomicDRAM_fast_forward b m)" "adram_outs (AtomicDRAM_fast_forward b m) = adram_outs m"
proof -
  have "atomic_ok (Atomic_fast_forward b c)" if "c \<in> set (ad_controllers m)" for c
    using that assms AtomicDRAM_idle [OF that] by (intro idle_keeps_ok) (auto simp: adram_ok_def)
  with assms(1) show "adram_ok tx (AtomicDRAM_fast_forward b m)" by (auto simp: adram_ok_def AtomicDRAM_fast_forward_def)
  show "adram_outs (AtomicDRAM_fast_forward b m) = adram_outs m"
    by (simp add: adram_outs_def AtomicDRAM_fast_forward_def Atomic_fast_forward_def o_def)
qed

section \<open>The contract holds\<close>

definition o3_inv :: "int \<Rightarrow> 't SimpleO3 \<times> 'p AtomicDRAM \<Rightarrow> bool" where
  "o3_inv tx s \<longleftrightarrow> fe_ok tx (adram_outs (snd s)) (fst s) \<and> adram_ok tx (snd s) \<and> 0 \<le> fe_clk (fst s)"

lemma fe_ok_forward: "fe_ok tx F fe \<Longrightarrow> 0 \<le> k \<Longrightarrow> fe_ok tx F (SimpleO3_fast_forward k fe)"
  using llc_inv_later [of "fe_clk fe" "{#}" "fe_llc fe" "fe_clk fe + k"] by (simp add: SimpleO3_fast_forward_def fe_ok_def fe_mid_def)

lemma adv_o3:
  "adv (o3_ops f q tx translate predict) a b s = (SimpleO3_fast_forward a (fst s), AtomicDRAM_fast_forward b (snd s))"
  by (simp add: adv_def o3_ops_def)

locale o3_simulation = translation translate + atomic_model predict
  for translate :: "'t translator" and predict :: "'p predictor" +
  fixes fe_ratio mem_ratio tx :: int
  assumes ratios: "0 < fe_ratio" "0 < mem_ratio" "fe_ratio < 2 ^ 31" "mem_ratio < 2 ^ 31"
begin

lemma system: "o3_system translate (AtomicDRAM_send predict) AtomicDRAM_tick adram_outs (adram_ok tx) tx"
  by unfold_locales

lemma fe_tick_ok: "o3_inv tx s \<Longrightarrow> \<exists>s'. SimpleO3_tick tx translate (AtomicDRAM_send predict) s = Inr s' \<and> o3_inv tx s'"
  using o3_system.SimpleO3_tick_ok [OF system, of "snd s" "fst s"] by (auto simp: o3_inv_def)

lemma mem_tick_ok:
  fixes s :: "'t SimpleO3 \<times> 'p AtomicDRAM"
  shows "o3_inv tx s \<Longrightarrow> \<exists>s'. o3_mem_tick s = Inr s' \<and> o3_inv tx s'"
  using o3_system.mem_tick_ok [OF system, of "snd s" "fst s"] by (auto simp: o3_inv_def o3_mem_tick_def split: prod.splits)

lemma finished_ok: "o3_inv tx s \<Longrightarrow> \<exists>b. SimpleO3_is_finished (fst s) = Inr b"
  using is_quiescent_inv [of "fe_clk (fst s)" "fe_llc (fst s)"] by (auto simp: SimpleO3_is_finished_def o3_inv_def fe_ok_def fe_mid_def)

lemma adv_o3_tick:
  assumes "o3_inv tx s" "0 \<le> a" "a < SimpleO3_idle_ticks mx (fst s)"
  shows "SimpleO3_tick tx translate (AtomicDRAM_send predict) (SimpleO3_fast_forward a (fst s), m) = Inr (SimpleO3_fast_forward (a + 1) (fst s), m)"
  using assms by (intro promised_tick) (auto simp: o3_inv_def)

lemma adv_o3_mem:
  assumes "o3_inv tx s" "0 \<le> b" "b < AtomicDRAM_idle_ticks (snd s)"
  shows "o3_mem_tick (fe, AtomicDRAM_fast_forward b (snd s)) = Inr (fe, AtomicDRAM_fast_forward (b + 1) (snd s))"
  using assms AtomicDRAM_idle_tick [of tx "snd s" b] by (simp add: o3_mem_tick_def o3_inv_def)

lemma adv_o3_inv:
  assumes "o3_inv tx s" "0 \<le> a" "0 \<le> b" "b \<le> AtomicDRAM_idle_ticks (snd s)"
  shows "o3_inv tx (SimpleO3_fast_forward a (fst s), AtomicDRAM_fast_forward b (snd s))"
  using assms AtomicDRAM_idle_ok [of tx "snd s" b] fe_ok_forward [of tx "adram_outs (snd s)" "fst s" a]
  by (simp add: o3_inv_def) (simp add: SimpleO3_fast_forward_def)

lemma adv_o3_finished: "SimpleO3_is_finished (SimpleO3_fast_forward a fe) = SimpleO3_is_finished fe"
  by (simp add: SimpleO3_is_finished_def SimpleO3_fast_forward_def)

end

sublocale o3_simulation \<subseteq> driver: elidable "o3_ops fe_ratio mem_ratio tx translate predict" "o3_inv tx"
proof (unfold_locales, goal_cases)
  case (8 s)
  then show ?case by (simp add: o3_ops_def SimpleO3_fast_forward_def)
next
  case (9 s)
  then show ?case by (simp add: o3_ops_def AtomicDRAM_forward_0)
qed (unfold adv_o3, simp_all add: o3_ops_def ratios [simplified] fe_tick_ok [simplified] mem_tick_ok [simplified] finished_ok adv_o3_inv adv_o3_tick
  adv_o3_mem adv_o3_finished)

context o3_simulation
begin

lemma o3_elision:
  "o3_inv tx s \<Longrightarrow> run_simulation (o3_ops fe_ratio mem_ratio tx translate predict) s = plain_simulation (o3_ops fe_ratio mem_ratio tx translate predict) s"
  by (rule driver.elision_invisible)

lemma o3_ends_or_goes:
  fixes s
  defines "ops \<equiv> o3_ops fe_ratio mem_ratio tx translate predict"
  assumes "o3_inv tx s"
  shows "(\<exists>x. run_simulation ops s = Some (Inr x) \<and> o3_inv tx (sim_state x)) \<or>
    (\<forall>n. \<exists>x. goes (sim_step ops) n (sim_start ops s) x \<and> o3_inv tx (sim_state x))"
  using driver.ends_or_goes [OF driver.start_ok [OF assms(2)]] ratios by (simp add: run_simulation_def ops_def o3_ops_def sim_inv_def) blast

lemma o3_reached:
  "goes (sim_step (o3_ops fe_ratio mem_ratio tx translate predict)) n x y \<Longrightarrow> sim_inv (o3_ops fe_ratio mem_ratio tx translate predict) (o3_inv tx) x \<Longrightarrow>
    sim_inv (o3_ops fe_ratio mem_ratio tx translate predict) (o3_inv tx) y"
proof (induction n arbitrary: x)
  case (Suc n)
  then show ?case using driver.step_ok [OF Suc.prems(2)] by auto
qed simp

end

lemma o3_simulationI:
  assumes "translation translate" "atomic_model predict" "0 < fe_ratio" "fe_ratio < 2 ^ 31" "0 < mem_ratio" "mem_ratio < 2 ^ 31"
  shows "o3_simulation translate predict fe_ratio mem_ratio"
  using assms by (simp add: o3_simulation_def o3_simulation_axioms_def)

section \<open>A new system\<close>

text \<open>A controller as the factory builds it, with a mapper that no plugin wraps.\<close>

definition atomic_created :: "'p init_model \<Rightarrow> 'p AtomicController \<Rightarrow> bool" where
  "atomic_created init_model c \<longleftrightarrow>
     (\<exists>b. at_addr_mapper c = BaseMapper b) \<and> (\<exists>create_mapper cfg. Atomic_init create_mapper init_model cfg = Inr c)"

lemma Atomic_init_ok:
  assumes "atomic_created init_model c"
  shows "atomic_ok c \<and> at_pending c = []"
  using assms by (auto simp: atomic_created_def Atomic_init_def atomic_ok_def Let_def reads_in_def bindR_eq_Inr_iff split: if_splits)

lemma AtomicDRAM_init_ok:
  assumes i: "AtomicDRAM_init ratio (CacheLineInterleave_config bits) cs = Inr m" and c: "\<forall>c \<in> set cs. atomic_created init_model c"
    and tx: "0 < ad_tx_bytes m"
  shows "adram_ok (ad_tx_bytes m) m" "adram_outs m = {#}"
proof -
  let ?cs = "map (\<lambda>(i, c). Atomic_set_channel_id (int i) c) (enumerate 0 cs)"
  obtain cm where cm: "CacheLineInterleave_setup bits (int (length cs)) (int (calc_log2 (nat (ad_tx_bytes m)))) = Inr cm" "cs \<noteq> []"
    "ad_channel_mapper m = CacheLineInterleave cm" "ad_controllers m = ?cs"
    using i by (auto simp: AtomicDRAM_init_def Let_def bindR_eq_Inr_iff split: if_splits)
  have "\<forall>c \<in> set ?cs. atomic_ok c \<and> at_pending c = []"
    using c Atomic_init_ok by (fastforce simp: Atomic_set_channel_id_def atomic_ok_def in_set_enumerate_eq)
  with Interleave_setup_ok(1) [OF cm(1)] cm(2-4) tx show "adram_ok (ad_tx_bytes m) m" by (simp add: adram_ok_def)
  have "\<forall>c \<in> set ?cs. pending_toks (at_pending c) = {#}" using \<open>\<forall>c \<in> set ?cs. atomic_ok c \<and> at_pending c = []\<close> by simp
  then show "adram_outs m = {#}" unfolding adram_outs_def cm(4) using sum_list_0 [of ?cs] by (simp cong: map_cong)
qed

lemma o3_start:
  assumes "SimpleO3_init cfg tr = Inr fe" "AtomicDRAM_init ratio (CacheLineInterleave_config bits) cs = Inr m"
    "\<forall>c \<in> set cs. atomic_created init_model c" "0 < ad_tx_bytes m"
  shows "o3_inv (ad_tx_bytes m) (fe, m)"
  using SimpleO3_init_ok [OF assms(1)] AtomicDRAM_init_ok [OF assms(2-4)] by (simp add: o3_inv_def)

end
