(* ===== verification/O3_Progress.thy ===== *)
theory O3_Progress
  imports O3_Idle
begin

text \<open>
  Progress of a core: a measure of what it still has to do, which every tick that changes the
  queues of the cache lowers, and which every tick lowers when the cache is empty.
\<close>

section \<open>What a send adds to the queues\<close>

definition items :: "SimpleO3LLC \<Rightarrow> int" where
  "items c = int (length (llc_hit_list c)) + 2 * int (length (llc_miss_list c))"

text \<open>The requests of one line, and what a send can add: a line and the writeback it evicts.\<close>

definition line_parts :: "int \<Rightarrow> LLCConfig \<Rightarrow> int" where
  "line_parts tx g = max 1 (llc_linesize_bytes g div tx)"

definition send_cost :: "int \<Rightarrow> LLCConfig \<Rightarrow> int" where
  "send_cost tx g = 4 * line_parts tx g + 1"

definition queues :: "SimpleO3LLC \<Rightarrow> (Clk_t \<times> LogicalRequest) list \<times> (Clk_t \<times> Request) list \<times> LLCConfig" where
  "queues c = (llc_hit_list c, llc_miss_list c, llc_cfg c)"

lemma queues_items: "queues c' = queues c \<Longrightarrow> items c' = items c"
  by (simp add: queues_def items_def)

lemma send_cost_pos: "4 < send_cost tx g"
  by (simp add: send_cost_def line_parts_def)

lemma enqueue_miss_items: "items (enqueue_miss tx clk req c) \<le> items c + 2 * line_parts tx (llc_cfg c)"
  by (auto simp: items_def enqueue_miss_def Let_def line_parts_def)

lemma evict_line_items:
  "items (evict_line tx clk addr v c) \<le> items c + 2 * line_parts tx (llc_cfg c)" "llc_cfg (evict_line tx clk addr v c) = llc_cfg c"
proof -
  have p: "items (put_set a s c') = items c'" for a s c' by (simp add: items_def put_set_def)
  show "items (evict_line tx clk addr v c) \<le> items c + 2 * line_parts tx (llc_cfg c)"
    unfolding evict_line_def Let_def p
    using enqueue_miss_items [of tx clk "writeback_of c (get_set c addr ! v)" "c\<lparr>s_llc_eviction := s_llc_eviction c + 1,
        s_internal_writebacks_generated := s_internal_writebacks_generated c + 1, s_internal_writebacks_live := s_internal_writebacks_live c + 1\<rparr>"]
    by (simp add: items_def line_parts_def)
qed (simp add: evict_line_live)

lemma begin_queues:
  "begin_logical_request clk req ty path c = Inr (lr, c') \<Longrightarrow>
    llc_hit_list c' = llc_hit_list c \<and> llc_miss_list c' = llc_miss_list c \<and> llc_cfg c' = llc_cfg c"
  by (simp add: begin_effect)

lemma LLC_hit_items: "LLC_hit clk req i c = Inr c' \<Longrightarrow> items c' = items c + 1 \<and> llc_cfg c' = llc_cfg c"
  by (auto simp: LLC_hit_def Let_def bindR_eq_Inr_iff items_def put_set_def dest!: begin_queues)

lemma LLC_merge_items: "LLC_merge clk req ty dirty m c = Inr c' \<Longrightarrow> items c' = items c \<and> llc_cfg c' = llc_cfg c"
  by (auto simp: LLC_merge_def Let_def bindR_eq_Inr_iff items_def dest!: begin_queues split: prod.splits option.splits)

lemma LLC_miss_items:
  assumes "LLC_miss tx clk req ty dirty c = Inr c'"
  shows "items c' \<le> items c + 4 * line_parts tx (llc_cfg c) \<and> llc_cfg c' = llc_cfg c"
proof -
  let ?a = "req_addr req"
  from assms obtain cl lr c4 where al: "allocate_line tx clk ?a c = Inr (Some cl)"
    and b: "begin_logical_request clk req ty Path_MissOwner
      ((update_line (get_index (llc_cfg cl) ?a, get_tag (llc_cfg cl) ?a) (\<lambda>l. l\<lparr>l_dirty := dirty\<rparr>) cl)
        \<lparr>llc_mshrs := llc_mshrs cl @ [(?a, get_index (llc_cfg cl) ?a, get_tag (llc_cfg cl) ?a)]\<rparr>) = Inr (lr, c4)"
    and c': "c' = enqueue_miss tx clk (req\<lparr>req_size_bytes := llc_linesize_bytes (llc_cfg c4)\<rparr>)
      (c4\<lparr>llc_receive_requests := AList.update ?a [lr] (llc_receive_requests c4)\<rparr>)"
    by (auto simp: LLC_miss_def Let_def bindR_eq_Inr_iff split: option.splits if_splits)
  note e = begin_effect [OF b]
  from al obtain c0 where cl: "cl = push_line ?a c0" and c0: "c0 = c \<or> (\<exists>v. c0 = evict_line tx clk ?a v c)"
    by (auto simp: allocate_line_def bindR_eq_Inr_iff split: if_splits option.splits)
  have p: "0 < line_parts tx (llc_cfg c)" by (simp add: line_parts_def)
  have f: "llc_cfg c0 = llc_cfg c" "items c0 \<le> items c + 2 * line_parts tx (llc_cfg c)" using c0 p evict_line_items by auto
  have "items (c4\<lparr>llc_receive_requests := AList.update ?a [lr] (llc_receive_requests c4)\<rparr>) = items c0"
    by (simp add: items_def e cl)
  with enqueue_miss_items [of tx clk "req\<lparr>req_size_bytes := llc_linesize_bytes (llc_cfg c4)\<rparr>"
      "c4\<lparr>llc_receive_requests := AList.update ?a [lr] (llc_receive_requests c4)\<rparr>"] f show ?thesis unfolding c' by (simp add: e cl)
qed

lemma count_queues [simp]:
  "items (count_access req c) = items c" "items (count_miss req c) = items c" "queues (count_access req c) = queues c" "queues (count_miss req c) = queues c"
  by (simp_all add: items_def queues_def count_access_def count_miss_def)

lemma put_set_queues [simp]: "items (put_set a s c) = items c" "queues (put_set a s c) = queues c"
  by (simp_all add: items_def queues_def put_set_def)

lemma LLC_send_items:
  assumes s: "LLC_send tx clk req c = Inr (ok, c')"
  shows "if ok then items c' \<le> items c + send_cost tx (llc_cfg c) \<and> llc_cfg c' = llc_cfg c else queues c' = queues c"
proof -
  have p: "0 < line_parts tx (llc_cfg c)" by (simp add: line_parts_def)
  from s show ?thesis
  proof (cases rule: LLC_send_cases)
    case (hit i)
    then show ?thesis using LLC_hit_items [OF hit(2)] p by (simp add: send_cost_def)
  next
    case (merge i)
    then show ?thesis using LLC_merge_items [OF merge(2)] p by (simp add: send_cost_def)
  next
    case miss
    then show ?thesis using LLC_miss_items [OF miss(2)] p by (simp add: send_cost_def)
  next
    case full
    have "queues (missed req c) = queues c" by simp
    with full show ?thesis by (simp add: queues_def)
  next
    case busy
    have "queues (missed req c) = queues c" by simp
    with busy show ?thesis by simp
  qed
qed

lemma try_send_items:
  assumes "try_send tx clk translate req (tr, llc) = Inr (sent, tr', llc')"
  shows "if sent = None then queues llc' = queues llc else items llc' \<le> items llc + send_cost tx (llc_cfg llc) \<and> llc_cfg llc' = llc_cfg llc"
  using assms by (auto simp: try_send_def bindR_eq_Inr_iff dest!: LLC_send_items split: if_splits)

section \<open>What a core has to do\<close>

text \<open>The current instruction is issued; only its writeback and the next fetch are left.\<close>

definition exhausted :: "SimpleO3Core \<Rightarrow> bool" where
  "exhausted c \<longleftrightarrow> \<not> c_roi_issue_complete c \<and> c_num_bubbles c = 0 \<and> c_load_addr c = -1"

definition todo :: "SimpleO3Core \<Rightarrow> int" where
  "todo c = 4 * (c_num_expected_insts c - s_insts_issued c) + int (w_load (c_window c)) + of_bool (exhausted c) +
     of_bool (c_issue_current_writeback_after_roi c)"

lemma todo_nonneg: "core_ok L c \<Longrightarrow> 0 \<le> todo c"
  by (auto simp: todo_def core_ok_def o3_counts_def split: if_splits)

text \<open>One step of a core next to the cache: less is left and the queues grow by at most one send, or nothing changes.\<close>

definition advances :: "int \<Rightarrow> SimpleO3Core \<times> SimpleO3LLC \<Rightarrow> SimpleO3Core \<times> SimpleO3LLC \<Rightarrow> bool" where
  "advances tx s s' \<longleftrightarrow>
     (if todo (fst s') = todo (fst s) then queues (snd s') = queues (snd s)
      else todo (fst s') < todo (fst s) \<and> items (snd s') \<le> items (snd s) + send_cost tx (llc_cfg (snd s)) \<and>
        llc_cfg (snd s') = llc_cfg (snd s))"

lemma advances_later: "todo c1 \<le> todo c \<Longrightarrow> advances tx (c1, llc) s' \<Longrightarrow> advances tx (c, llc) s'"
  using send_cost_pos [of tx "llc_cfg llc"] queues_items [of "snd s'" llc] by (auto simp: advances_def queues_def split: if_splits)

lemma advances_core: "todo c' \<le> todo c \<Longrightarrow> advances tx (c, llc) (c', llc)"
  using send_cost_pos [of tx "llc_cfg llc"] by (auto simp: advances_def)

lemma advances_sent:
  "todo c' < todo c \<Longrightarrow> items llc' \<le> items llc + send_cost tx (llc_cfg llc) \<Longrightarrow> llc_cfg llc' = llc_cfg llc \<Longrightarrow> advances tx (c, llc) (c', llc')"
  by (simp add: advances_def)

lemma win_insert_load: "win_insert r a f w = Inr w' \<Longrightarrow> w_load w' = w_load w + 1"
  by (auto simp: win_insert_def split: if_splits)

lemma retire_stage_todo:
  assumes r: "retire_stage clk c = Inr c'" and w: "win_ok (c_window c)" "0 < w_ipc (c_window c)"
  shows "todo c' \<le> todo c" "c_trace c' = c_trace c" "c_roi_issue_complete c' = c_roi_issue_complete c"
    "c_issue_current_writeback_after_roi c' = c_issue_current_writeback_after_roi c" "tail_ready (c_window c) \<Longrightarrow> todo c' < todo c"
proof -
  obtain n u where u: "retire (c_window c) = Inr (n, u)" "entries u = drop n (entries (c_window c))"
    and n: "n = length (takeWhile e_ready (take (w_ipc (c_window c)) (entries (c_window c))))" by (rule retire_entries [OF w(1)])
  have l: "w_load u = w_load (c_window c) - n" using arg_cong [OF u(2), of length] by simp
  define c1 where "c1 = c\<lparr>c_window := u, s_insts_retired := s_insts_retired c + int n\<rparr>"
  define c2 where "c2 = (if \<not> c_reached_expected_num_insts c1 \<and> s_insts_retired c1 \<ge> c_num_expected_insts c1
      then c1\<lparr>c_reached_expected_num_insts := True, s_cycles_recorded := clk\<rparr> else c1)"
  have "retire_stage clk c = Inr c2" by (simp add: retire_stage_def u(1) c1_def c2_def Let_def)
  with r have "c' = c2" by simp
  then have "c_window c' = u" "c_num_expected_insts c' = c_num_expected_insts c" "s_insts_issued c' = s_insts_issued c"
    "exhausted c' = exhausted c" "c_trace c' = c_trace c" "c_roi_issue_complete c' = c_roi_issue_complete c"
    "c_issue_current_writeback_after_roi c' = c_issue_current_writeback_after_roi c"
    by (simp_all add: c2_def c1_def exhausted_def)
  then have f: "todo c' = todo c - int (w_load (c_window c)) + int (w_load u)" "c_trace c' = c_trace c"
    "c_roi_issue_complete c' = c_roi_issue_complete c" "c_issue_current_writeback_after_roi c' = c_issue_current_writeback_after_roi c"
    by (simp_all add: todo_def)
  from f l show "todo c' \<le> todo c" "c_trace c' = c_trace c" "c_roi_issue_complete c' = c_roi_issue_complete c"
    "c_issue_current_writeback_after_roi c' = c_issue_current_writeback_after_roi c" by simp_all
  assume t: "tail_ready (c_window c)"
  then have "e_ready (entries (c_window c) ! 0)" "entries (c_window c) \<noteq> []"
    using slot_0 [OF w(1)] by (auto simp: tail_ready_def entry_at_def simp flip: length_0_conv)
  then have "0 < n" using w(2) unfolding n by (cases "entries (c_window c)"; cases "w_ipc (c_window c)") simp_all
  with t f l show "todo c' < todo c" by (simp add: tail_ready_def)
qed

lemma finish_todo:
  assumes "finish_issue_roi keep c = Inr c'" "\<not> c_issue_current_writeback_after_roi c"
  shows "todo c' \<le> todo c + 1"
  using assms by (auto simp: finish_issue_roi_def todo_def exhausted_def Let_def split: if_splits)

lemma issue_todo:
  assumes "win_insert r a f (c_window c) = Inr w"
  shows "todo (c\<lparr>c_window := w, s_insts_issued := s_insts_issued c + 1, c_num_bubbles := b\<rparr>) \<le> todo c - 2"
    "todo (c\<lparr>c_window := w, s_insts_issued := s_insts_issued c + 1, c_load_addr := l\<rparr>) \<le> todo c - 2"
  using win_insert_load [OF assms] by (auto simp: todo_def)

lemma bubble_loop_todo:
  assumes "bubble_loop k c = Inr (ret, n, c')" "\<not> c_roi_issue_complete c" "\<not> c_issue_current_writeback_after_roi c"
  shows "todo c' \<le> todo c \<and> (0 < c_num_bubbles c \<and> k \<noteq> w_ipc (c_window c) \<and> \<not> is_full (c_window c) \<longrightarrow> todo c' < todo c) \<and>
    (\<not> ret \<longrightarrow> c_trace c' = c_trace c \<and> \<not> c_roi_issue_complete c' \<and> \<not> c_issue_current_writeback_after_roi c' \<and> c_num_bubbles c' \<le> 0)"
  using assms
proof (induction k c rule: bubble_loop.induct)
  case (1 k c)
  show ?case
  proof (cases "c_num_bubbles c > 0 \<and> k \<noteq> w_ipc (c_window c) \<and> \<not> is_full (c_window c)")
    case False
    then show ?thesis using 1(2-4) unfolding bubble_loop.simps [of k c] by (auto split: if_splits)
  next
    case go: True
    from go 1(2) obtain w where w: "win_insert True (-1) (-1) (c_window c) = Inr w"
      unfolding bubble_loop.simps [of k c] by (auto simp: bindR_eq_Inr_iff split: if_splits)
    define c1 where "c1 = c\<lparr>c_window := w, s_insts_issued := s_insts_issued c + 1, c_num_bubbles := c_num_bubbles c - 1\<rparr>"
    have t: "todo c1 \<le> todo c - 2" using issue_todo(1) [OF w] by (simp add: c1_def)
    have f: "\<not> c_roi_issue_complete c1" "\<not> c_issue_current_writeback_after_roi c1" "c_trace c1 = c_trace c" using 1(3,4) by (simp_all add: c1_def)
    have s: "bubble_loop k c = (if s_insts_issued c1 = c_num_expected_insts c1
        then bindR (finish_issue_roi False c1) (\<lambda>c2. Inr (True, k + 1, c2)) else bubble_loop (k + 1) c1)"
      using go w(1) by (simp add: bubble_loop.simps [of k c] c1_def Let_def)
    show ?thesis
    proof (cases "s_insts_issued c1 = c_num_expected_insts c1")
      case True
      then show ?thesis using 1(2) t f finish_todo [of False c1] unfolding s by (force simp: bindR_eq_Inr_iff)
    next
      case False
      with 1(2) s have "bubble_loop (k + 1) c1 = Inr (ret, n, c')" by simp
      with 1(1) [OF _ _ _ w c1_def False this f(1,2)] go t f(3) show ?thesis by auto
    qed
  qed
qed

section \<open>Fetching and sending\<close>

lemma get_next_inst_in: "get_next_inst t = Inr (i, t') \<Longrightarrow> trace_ok t \<Longrightarrow> inst_ok i"
  by (auto simp: get_next_inst_def trace_ok_def split: if_splits)

lemma fetch_todo:
  assumes "fetch_next_trace_inst c = Inr c'" "trace_ok (c_trace c)" "exhausted c"
  shows "todo c' < todo c"
proof -
  have r: "\<not> c_roi_issue_complete c" using assms(3) by (simp add: exhausted_def)
  with assms(1) obtain i t where g: "get_next_inst (c_trace c) = Inr (i, t)" by (auto simp: fetch_next_trace_inst_def bindR_eq_Inr_iff)
  have c': "c_window c' = c_window c" "c_num_expected_insts c' = c_num_expected_insts c" "s_insts_issued c' = s_insts_issued c"
    "c_num_bubbles c' = bubble_count i" "c_load_addr c' = load_addr i"
    "c_issue_current_writeback_after_roi c' = c_issue_current_writeback_after_roi c"
    using assms(1) r g by (auto simp: fetch_next_trace_inst_def Let_def split: prod.splits)
  have "inst_ok i" by (rule get_next_inst_in [OF g assms(2)])
  then have "\<not> exhausted c'" by (auto simp: exhausted_def c' inst_ok_def)
  with assms(3) show ?thesis by (simp add: todo_def c')
qed

lemma writeback_stage_sent:
  assumes s: "writeback_stage tx clk translate (c, tr, llc) = Inr (c', tr', llc')" and t: "trace_ok (c_trace c)" and e: "exhausted c"
    and w: "c_writeback_addr c \<noteq> -1" and a: "try_send tx clk translate (writeback_request c) (tr, llc) = Inr (Some q, tr1, llc1)"
  shows "todo c' < todo c \<and> llc' = llc1"
proof -
  have "fetch_next_trace_inst (c\<lparr>c_writeback_addr := -1\<rparr>) = Inr c'" "llc' = llc1"
    using s w a by (auto simp: writeback_stage_def bindR_eq_Inr_iff)
  moreover from this(1) have "todo c' < todo (c\<lparr>c_writeback_addr := -1\<rparr>)" using t e by (intro fetch_todo) (simp_all add: exhausted_def)
  ultimately show ?thesis by (simp add: todo_def exhausted_def)
qed

lemma writeback_stage_advances:
  assumes s: "writeback_stage tx clk translate (c, tr, llc) = Inr (c', tr', llc')" and t: "trace_ok (c_trace c)" and e: "exhausted c"
  shows "advances tx (c, llc) (c', llc')"
proof (cases "c_writeback_addr c = -1")
  case True
  with s obtain "fetch_next_trace_inst c = Inr c'" "llc' = llc" by (auto simp: writeback_stage_def bindR_eq_Inr_iff)
  with fetch_todo [OF _ t e] show ?thesis by (auto intro: advances_core)
next
  case False
  with s obtain sent tr1 llc1 where a: "try_send tx clk translate (writeback_request c) (tr, llc) = Inr (sent, tr1, llc1)"
    by (auto simp: writeback_stage_def bindR_eq_Inr_iff)
  note i = try_send_items [OF a]
  show ?thesis
  proof (cases sent)
    case None
    then show ?thesis using s a False i by (auto simp: writeback_stage_def advances_def)
  next
    case (Some q)
    with writeback_stage_sent [OF s t e False, of q tr1 llc1] a i show ?thesis by (auto intro: advances_sent)
  qed
qed

lemma load_stage_sent:
  assumes s: "load_stage tx clk translate n (c, tr, llc) = Inr (c', tr', llc')" and t: "trace_ok (c_trace c)"
    and r: "\<not> c_roi_issue_complete c" "\<not> c_issue_current_writeback_after_roi c" "c_num_bubbles c = 0"
    and go: "c_load_addr c \<noteq> -1" "n \<noteq> w_ipc (c_window c)" "\<not> is_full (c_window c)"
    and a: "try_send tx clk translate (load_request c) (tr, llc) = Inr (Some q, tr1, llc1)"
  shows "todo c' < todo c \<and> llc' = llc1"
proof -
  from s a go obtain w where w: "win_insert False (req_addr q) (req_frontend_id q) (c_window c) = Inr w"
    by (auto simp: load_stage_def bindR_eq_Inr_iff)
  define c1 where "c1 = c\<lparr>c_window := w, s_insts_issued := s_insts_issued c + 1, c_load_addr := -1\<rparr>"
  have st: "load_stage tx clk translate n (c, tr, llc) =
      (if s_insts_issued c1 = c_num_expected_insts c1 then bindR (finish_issue_roi True c1) (\<lambda>c2. Inr (c2, tr1, llc1))
       else if c_writeback_addr c1 \<noteq> -1 then Inr (c1, tr1, llc1) else writeback_stage tx clk translate (c1, tr1, llc1))"
    using go a w by (simp add: load_stage_def c1_def Let_def)
  have t1: "todo c1 \<le> todo c - 2" using issue_todo(2) [OF w] by (simp add: c1_def)
  have f: "\<not> c_issue_current_writeback_after_roi c1" "c_trace c1 = c_trace c" "exhausted c1" using r by (simp_all add: c1_def exhausted_def)
  consider (fin) "finish_issue_roi True c1 = Inr c'" "llc' = llc1" | (wb) "c' = c1" "llc' = llc1"
    | (fetch) "c_writeback_addr c1 = -1" "fetch_next_trace_inst c1 = Inr c'" "llc' = llc1"
    using s unfolding st by (auto simp: bindR_eq_Inr_iff writeback_stage_def split: if_splits)
  then show ?thesis using finish_todo [OF _ f(1)] fetch_todo [of c1 c'] t f t1 by cases force+
qed

lemma load_stage_advances:
  assumes s: "load_stage tx clk translate n (c, tr, llc) = Inr (c', tr', llc')" and t: "trace_ok (c_trace c)"
    and r: "\<not> c_roi_issue_complete c" "\<not> c_issue_current_writeback_after_roi c" "c_num_bubbles c = 0"
  shows "advances tx (c, llc) (c', llc')"
proof -
  consider (none) "c_load_addr c = -1" | (stop) "c_load_addr c \<noteq> -1" "n = w_ipc (c_window c) \<or> is_full (c_window c)"
    | (go) "c_load_addr c \<noteq> -1" "n \<noteq> w_ipc (c_window c)" "\<not> is_full (c_window c)" by blast
  then show ?thesis
  proof cases
    case none
    then show ?thesis using s r by (intro writeback_stage_advances [OF _ t]) (simp_all add: load_stage_def exhausted_def)
  next
    case stop
    then have "load_stage tx clk translate n (c, tr, llc) = Inr (c, tr, llc)" by (auto simp: load_stage_def)
    with s show ?thesis by (auto intro: advances_core)
  next
    case go
    with s obtain sent tr1 llc1 where a: "try_send tx clk translate (load_request c) (tr, llc) = Inr (sent, tr1, llc1)"
      by (auto simp: load_stage_def bindR_eq_Inr_iff)
    note i = try_send_items [OF a]
    show ?thesis
    proof (cases sent)
      case None
      then show ?thesis using s a go i by (auto simp: load_stage_def advances_def)
    next
      case (Some q)
      with load_stage_sent [OF s t r go, of q tr1 llc1] a i show ?thesis by (auto intro: advances_sent)
    qed
  qed
qed

text \<open>The part of a tick after retiring.\<close>

definition issue_stage ::
  "int \<Rightarrow> Clk_t \<Rightarrow> 't translator \<Rightarrow> SimpleO3Core \<times> 't \<times> SimpleO3LLC \<Rightarrow> (SimpleO3Core \<times> 't \<times> SimpleO3LLC) result" where
  "issue_stage tx clk translate s =
     (case s of (c, e) \<Rightarrow>
        if c_roi_issue_complete c
        then if \<not> c_issue_current_writeback_after_roi c then Inr (c, e)
             else bindR (try_send tx clk translate (writeback_request c) e) (\<lambda>(sent, e1).
               if sent = None then Inr (c, e1)
               else Inr (c\<lparr>c_writeback_addr := -1, c_issue_current_writeback_after_roi := False\<rparr>, e1))
        else bindR (bubble_loop 0 c) (\<lambda>(returned, num_inserted, c1).
          if returned then Inr (c1, e) else load_stage tx clk translate num_inserted (c1, e)))"

lemma Core_tick_stages: "Core_tick tx clk translate (c, e) = bindR (retire_stage clk c) (\<lambda>c1. issue_stage tx clk translate (c1, e))"
  by (simp add: Core_tick_def issue_stage_def)

lemma after_roi_todo:
  "c_issue_current_writeback_after_roi c \<Longrightarrow> todo (c\<lparr>c_writeback_addr := -1, c_issue_current_writeback_after_roi := False\<rparr>) < todo c"
  by (simp add: todo_def exhausted_def)

lemma issue_stage_advances:
  assumes s: "issue_stage tx clk translate (c, tr, llc) = Inr (c', tr', llc')" and ok: "core_ok L c"
  shows "advances tx (c, llc) (c', llc')"
proof -
  note d = core_okD [OF ok]
  have t: "trace_ok (c_trace c)" using d(3) by (simp add: o3_trace_def)
  show ?thesis
  proof (cases "c_roi_issue_complete c")
    case roi: True
    show ?thesis
    proof (cases "c_issue_current_writeback_after_roi c")
      case False
      then show ?thesis using s roi by (auto simp: issue_stage_def intro: advances_core)
    next
      case True
      with s roi obtain sent tr1 llc1 where a: "try_send tx clk translate (writeback_request c) (tr, llc) = Inr (sent, tr1, llc1)"
        and e: "(if sent = None then (c, tr1, llc1) else (c\<lparr>c_writeback_addr := -1, c_issue_current_writeback_after_roi := False\<rparr>, tr1, llc1)) = (c', tr', llc')"
        by (auto simp: issue_stage_def bindR_eq_Inr_iff split: if_splits)
      then show ?thesis using try_send_items [OF a] after_roi_todo [OF True] by (auto simp: advances_def split: if_splits)
    qed
  next
    case roi: False
    have k: "\<not> c_issue_current_writeback_after_roi c" using d(5) roi by (auto simp: o3_flags_def)
    from bubble_loop_ok [OF ok roi, of 0] obtain ret n c2 where b: "bubble_loop 0 c = Inr (ret, n, c2)" "\<not> ret \<Longrightarrow> c_num_bubbles c2 = 0"
      by (auto split: if_splits)
    have e: "(if ret then Inr (c2, tr, llc) else load_stage tx clk translate n (c2, tr, llc)) = Inr (c', tr', llc')"
      using s roi b(1) by (simp add: issue_stage_def)
    note bt = bubble_loop_todo [OF b(1) roi k]
    show ?thesis
    proof (cases ret)
      case True
      then show ?thesis using e bt by (auto intro: advances_core)
    next
      case False
      from bt False t have f: "trace_ok (c_trace c2)" "\<not> c_roi_issue_complete c2" "\<not> c_issue_current_writeback_after_roi c2" "todo c2 \<le> todo c" by simp_all
      have l: "load_stage tx clk translate n (c2, tr, llc) = Inr (c', tr', llc')" using False e by simp
      show ?thesis by (rule advances_later [OF f(4) load_stage_advances [OF l f(1-3) b(2) [OF False]]])
    qed
  qed
qed

lemma Core_tick_advances:
  assumes s: "Core_tick tx clk translate (c, tr, llc) = Inr (c', tr', llc')" and ok: "core_ok L c"
  shows "advances tx (c, llc) (c', llc')"
proof -
  note d = core_okD [OF ok]
  obtain c1 where c1: "retire_stage clk c = Inr c1" "core_ok L c1" using retire_stage_ok [OF ok] by blast
  have "issue_stage tx clk translate (c1, tr, llc) = Inr (c', tr', llc')" using s c1(1) by (simp add: Core_tick_stages)
  from advances_later [OF retire_stage_todo(1) [OF c1(1) d(1,2)] issue_stage_advances [OF this c1(2)]] show ?thesis .
qed

section \<open>An empty cache\<close>

text \<open>Without lines in flight the cache takes every request.\<close>

lemma LLC_send_accepts:
  assumes inv: "llc_inv clk X c" and m: "llc_mshrs c = []" and v: "validate_logical_identity c req = Inr ()"
  shows "\<exists>c'. LLC_send tx clk req c = Inr (True, c')"
proof -
  let ?a = "req_addr req"
  obtain ok c' where s: "LLC_send tx clk req c = Inr (ok, c')" using LLC_send_inv [OF inv v] by blast
  from inv have g: "geometry_ok (llc_cfg c)" and mo: "mshrs_ok (llc_cfg c) (llc_mshrs c) (flights (lines (llc_cache_sets c)))" by (simp_all add: llc_inv_def)
  have "flights (lines (llc_cache_sets c)) = {}" using mshrs_okD(3) [OF mo] by (simp add: m)
  then have "in_flight (get_set c ?a) = {}" unfolding get_set_lines flights_def by auto
  then have r: "\<forall>l \<in> set (get_set c ?a). l_ready l" by (auto simp: in_flight_def)
  have "get_set (missed req c) ?a = get_set c ?a" "llc_cfg (missed req c) = llc_cfg c" "llc_mshrs (missed req c) = []"
    by (simp_all add: get_set_lines m) (simp add: count_miss_def count_access_def m)
  note f = this
  have av: "line_available (missed req c) ?a"
    unfolding line_available_def f using r g by (cases "get_set c ?a") (simp_all add: geometry_ok_def)
  have "check_mshr_hit (missed req c) ?a = None" "int (length (llc_mshrs (missed req c))) \<noteq> llc_num_mshrs (llc_cfg (missed req c))"
    using g by (simp_all add: check_mshr_hit_def f geometry_ok_def)
  with s [unfolded LLC_send_eq [OF v]] av have "ok"
    by (cases "check_set_hit (looked_up req c) (get_set (looked_up req c) ?a) ?a") (auto simp: bindR_eq_Inr_iff)
  with s show ?thesis by simp
qed

text \<open>A core that has issued everything and whose window is empty.\<close>

definition core_settled :: "SimpleO3Core \<Rightarrow> bool" where
  "core_settled c \<longleftrightarrow> issue_roi_quiescent c \<and> w_load (c_window c) = 0"

lemma core_settled_reached: "core_settled c \<Longrightarrow> core_ok L c \<Longrightarrow> c_reached_expected_num_insts c \<and> is_stalled c"
  by (auto simp: core_settled_def issue_roi_quiescent_def is_stalled_def tail_ready_def dest!: core_okD(4) simp: o3_counts_def)

text \<open>A translation that never refuses.\<close>

locale total_translation = translation +
  assumes translates: "\<exists>req' tr'. translate req tr = Inr (True, req', tr')"
begin

lemma try_send_accepts:
  assumes ok: "llc_ok tx clk F llc" and m: "llc_mshrs llc = []" and i: "0 \<le> req_source_id req"
    and f: "0 \<le> req_frontend_id req" "req_frontend_id req \<notin> fst ` set_mset (live_at (req_source_id req) llc)"
    and r: "req_type_id req = Type_Read \<or> req_type_id req = Type_Write" "req_frontend_sub_id req = 0"
  shows "\<exists>q tr' llc'. try_send tx clk translate req (tr, llc) = Inr (Some q, tr', llc')"
proof -
  obtain b a tr' where t: "translate req tr = Inr (b, req\<lparr>req_addr := a\<rparr>, tr')" using translate_addr by blast
  with translates [of req tr] have b by auto
  let ?q = "req\<lparr>req_addr := a\<rparr>"
  from ok have inv: "llc_inv clk {#} llc" by (simp add: llc_ok_def)
  have "logical_key ?q \<notin> llc_live_logical_ids llc" by (rule fresh_key [OF inv]) (use f in simp)
  then have "validate_logical_identity llc ?q = Inr ()" using i f r by (simp add: validate_logical_identity_def)
  from LLC_send_accepts [OF inv m this, of tx] obtain llc' where "LLC_send tx clk ?q llc = Inr (True, llc')" by blast
  with t \<open>b\<close> show ?thesis by (simp add: try_send_def)
qed

text \<open>Issuing makes progress when the window is empty.\<close>

lemma issue_stage_moves:
  assumes s: "issue_stage tx clk translate (c, tr, llc) = Inr (c', tr', llc')" and env: "core_env tx clk F Oth i c llc" and w: "has_work c"
    and m: "llc_mshrs llc = []" and l: "w_load (c_window c) = 0" and nf: "c_roi_issue_complete c \<Longrightarrow> c_issue_current_writeback_after_roi c"
  shows "todo c' < todo c"
proof -
  note e = core_envD [OF env]
  note d = core_okD [OF e(3)]
  have t: "trace_ok (c_trace c)" using d(3) by (simp add: o3_trace_def)
  have full: "\<not> is_full (c_window c)" using d(1) l by (simp add: is_full_def win_ok_def)
  have wb: "\<exists>q tr1 llc1. try_send tx clk translate (writeback_request c) (tr, llc) = Inr (Some q, tr1, llc1)" if "c_writeback_addr c \<noteq> -1"
    using d(7) e(1,2) that by (intro try_send_accepts [OF e(4) m]) (simp_all add: ids_ok_def)
  show ?thesis
  proof (cases "c_roi_issue_complete c")
    case True
    then have a: "c_issue_current_writeback_after_roi c" "c_writeback_addr c \<noteq> -1" using nf d(5) by (simp_all add: o3_flags_def)
    from wb [OF a(2)] s True a(1) after_roi_todo [OF a(1)] show ?thesis by (auto simp: issue_stage_def)
  next
    case roi: False
    have k: "\<not> c_issue_current_writeback_after_roi c" using d(5) roi by (auto simp: o3_flags_def)
    show ?thesis
    proof (cases "0 < c_num_bubbles c")
      case True
      from bubble_loop_ok [OF e(3) roi, of 0] obtain ret n c2 where b: "bubble_loop 0 c = Inr (ret, n, c2)" "\<not> ret \<Longrightarrow> c_num_bubbles c2 = 0"
        by (auto split: if_splits)
      note bt = bubble_loop_todo [OF b(1) roi k]
      have r: "(if ret then Inr (c2, tr, llc) else load_stage tx clk translate n (c2, tr, llc)) = Inr (c', tr', llc')"
        using s roi b(1) by (simp add: issue_stage_def)
      have "todo c' \<le> todo c2"
      proof (cases ret)
        case False
        with load_stage_advances [of tx clk translate n c2 tr llc c' tr' llc'] r bt t b(2) show ?thesis by (auto simp: advances_def split: if_splits)
      qed (use r in simp)
      moreover have "todo c2 < todo c" using bt True full d(2) by simp
      ultimately show ?thesis by simp
    next
      case False
      then have nb: "c_num_bubbles c = 0" using d(3) by (simp add: o3_trace_def)
      then have st: "load_stage tx clk translate 0 (c, tr, llc) = Inr (c', tr', llc')"
        using s roi by (simp add: issue_stage_def bubble_loop.simps [of 0 c])
      show ?thesis
      proof (cases "c_load_addr c = -1")
        case True
        then have "c_writeback_addr c \<noteq> -1" using w roi nb by (simp add: has_work_def)
        moreover have "writeback_stage tx clk translate (c, tr, llc) = Inr (c', tr', llc')" using st True by (simp add: load_stage_def)
        ultimately show ?thesis using writeback_stage_sent [OF _ t] wb roi nb True by (metis exhausted_def)
      next
        case False
        have "\<exists>q tr1 llc1. try_send tx clk translate (load_request c) (tr, llc) = Inr (Some q, tr1, llc1)"
          using d(7) e(1,2) False by (intro try_send_accepts [OF e(4) m]) (simp_all add: ids_ok_def)
        then show ?thesis using load_stage_sent [OF st t roi k nb False less_imp_neq [OF d(2)] full] by blast
      qed
    qed
  qed
qed

text \<open>With nothing in the cache, a core that is not finished makes progress.\<close>

lemma Core_tick_moves:
  assumes s: "Core_tick tx clk translate (c, tr, llc) = Inr (c', tr', llc')" and env: "core_env tx clk F Oth i c llc" and w: "has_work c"
    and m: "llc_mshrs llc = []" "live_requests llc = {#}" and nf: "\<not> core_settled c"
  shows "todo c' < todo c"
proof -
  note e = core_envD [OF env]
  note d = core_okD [OF e(3)]
  obtain c1 where c1: "retire_stage clk c = Inr c1" "core_ok (live_at i llc) c1" "c_id c1 = c_id c" "has_work c1 = has_work c"
    using retire_stage_ok [OF e(3)] by blast
  note r = retire_stage_todo [OF c1(1) d(1,2)]
  have i: "issue_stage tx clk translate (c1, tr, llc) = Inr (c', tr', llc')" using s c1(1) by (simp add: Core_tick_stages)
  have le: "todo c' \<le> todo c1" using issue_stage_advances [OF i c1(2)] by (auto simp: advances_def split: if_splits)
  show ?thesis
  proof (cases "w_load (c_window c) = 0")
    case False
    have "waiting (entries (c_window c)) = {}" using d(6) m(2) by (simp add: link_ok_def)
    moreover have "entries (c_window c) ! 0 \<in> set (entries (c_window c))" using False by (intro nth_mem) simp
    ultimately have "e_ready (entries (c_window c) ! 0)" by (auto simp: waiting_def)
    then have "tail_ready (c_window c)" using False slot_0 [OF d(1)] by (simp add: tail_ready_def entry_at_def)
    with r(5) le show ?thesis by simp
  next
    case True
    have "retire_stage clk c = Inr (if \<not> c_reached_expected_num_insts c \<and> s_insts_retired c \<ge> c_num_expected_insts c
        then c\<lparr>c_reached_expected_num_insts := True, s_cycles_recorded := clk\<rparr> else c)"
      using True by (simp add: retire_stage_def retire_def Let_def)
    then have l: "w_load (c_window c1) = 0" using True c1(1) by (auto split: if_splits)
    have "c_issue_current_writeback_after_roi c" if "c_roi_issue_complete c"
      using nf that d(4) True by (auto simp: core_settled_def issue_roi_quiescent_def o3_counts_def)
    then have "c_roi_issue_complete c1 \<Longrightarrow> c_issue_current_writeback_after_roi c1" using r(3,4) by simp
    moreover have "core_env tx clk F Oth i c1 llc" "has_work c1" using e c1(2-4) w by (simp_all add: core_env_def)
    ultimately have "todo c' < todo c1" using issue_stage_moves [OF i _ _ m(1) l] by blast
    with r(1) show ?thesis by simp
  qed
qed

end

end
