(* ===== verification/O3_Termination.thy ===== *)
theory O3_Termination
  imports O3_Simulation O3_Progress
begin

text \<open>
  A simulation of SimpleO3 over atomic controllers ends. The measure counts what the cores still
  have to do, the requests in the queues of the cache and those in the memory. No tick raises
  it; as long as it stays, the queues stay, their entries fall due, and each of these events
  lowers it. With all queues empty a core that is not finished lowers it.
\<close>

section \<open>Completions\<close>

abbreviation todos :: "'t SimpleO3 \<Rightarrow> int list" where
  "todos fe \<equiv> map todo (fe_cores fe)"

lemma ready_loop_load: "w_load (snd (ready_loop f i n w)) = w_load w"
  by (induction f i n w rule: ready_loop.induct) auto

lemma Core_receive_todo:
  assumes "Core_receive req c = Inr c'"
  shows "todo c' = todo c"
proof (cases "req_type_id req = Type_Read")
  case True
  with assms obtain f w where s: "set_ready (req_frontend_id req) (c_window c) = Inr (f, w)" by (auto simp: Core_receive_def bindR_eq_Inr_iff)
  then have l: "w_load w = w_load (c_window c)"
    using ready_loop_load [of "req_frontend_id req" "w_tail_idx (c_window c)" "w_load (c_window c)" "c_window c"]
    by (auto simp: set_ready_def split: if_splits)
  define c1 where "c1 = c\<lparr>c_window := w\<rparr>"
  have "c' = c1 \<or> (\<exists>x y. c' = c1\<lparr>s_mem_access_cycles := x, c_last_mem_cycle := y\<rparr>)"
    using assms s True by (auto simp: Core_receive_def c1_def Let_def split: if_splits)
  then show ?thesis using l by (auto simp: todo_def exhausted_def c1_def)
next
  case False
  with assms show ?thesis by (auto simp: Core_receive_def split: if_splits)
qed

lemma return_to_core_todos: "return_to_core msg r fe = Inr fe' \<Longrightarrow> todos fe' = todos fe"
  by (auto simp: return_to_core_def bindR_eq_Inr_iff map_update Core_receive_todo list_update_same_conv split: if_splits)

lemma complete_one_todos: "complete_one req l fe = Inr fe' \<Longrightarrow> todos fe' = todos fe"
  by (auto simp: complete_one_def bindR_eq_Inr_iff dest!: return_to_core_todos)

lemma receive_hit_todos: "receive_hit l fe = Inr fe' \<Longrightarrow> todos fe' = todos fe"
  by (auto simp: receive_hit_def bindR_eq_Inr_iff dest!: return_to_core_todos split: if_splits)

lemma complete_all_todos: "foldR (complete_one req) ls fe = Inr fe' \<Longrightarrow> todos fe' = todos fe"
  by (induction ls arbitrary: fe) (auto simp: bindR_eq_Inr_iff dest: complete_one_todos)

lemma whole_callback_todos: "whole_callback req fe = Inr fe' \<Longrightarrow> todos fe' = todos fe"
  by (auto simp: whole_callback_def SimpleO3_receive_def bindR_eq_Inr_iff dest!: complete_all_todos split: if_splits)

lemma run_callback_todos: "run_callback req fe = Inr fe' \<Longrightarrow> todos fe' = todos fe"
  by (auto simp: run_callback_def Let_def dest!: whole_callback_todos split: option.splits if_splits prod.splits)

lemma run_callbacks_todos: "foldR run_callback calls fe = Inr fe' \<Longrightarrow> todos fe' = todos fe"
  by (induction calls arbitrary: fe) (auto simp: bindR_eq_Inr_iff dest: run_callback_todos)

section \<open>The clock of the cache\<close>

lemma serve_hits_kept: "serve_hits f clk hs st = Inr (kept, st') \<Longrightarrow> kept = filter (\<lambda>h. clk < fst h) hs"
  by (induction f clk hs st arbitrary: kept st' rule: serve_hits.induct) (auto simp: bindR_eq_Inr_iff split: if_splits)

lemma serve_hits_todos: "serve_hits receive_hit clk hs fe = Inr (kept, fe') \<Longrightarrow> todos fe' = todos fe"
  by (induction hs arbitrary: fe kept) (auto simp: bindR_eq_Inr_iff receive_hit_todos split: if_splits)

lemma receive_hit_frame:
  assumes "receive_hit l fe = Inr fe'"
  shows "llc_miss_list (fe_llc fe') = llc_miss_list (fe_llc fe) \<and> llc_cfg (fe_llc fe') = llc_cfg (fe_llc fe) \<and> fe_clk fe' = fe_clk fe"
  using assms by (auto simp: receive_hit_def return_to_core_def complete_logical_request_def bindR_eq_Inr_iff split: if_splits)

lemma serve_hits_frame:
  "serve_hits receive_hit clk hs fe = Inr (kept, fe') \<Longrightarrow>
    llc_miss_list (fe_llc fe') = llc_miss_list (fe_llc fe) \<and> llc_cfg (fe_llc fe') = llc_cfg (fe_llc fe) \<and> fe_clk fe' = fe_clk fe"
  by (induction hs arbitrary: fe kept) (auto simp: bindR_eq_Inr_iff receive_hit_frame split: if_splits)

text \<open>The latest departure in the memory.\<close>

definition departs_by :: "Clk_t \<Rightarrow> 'p AtomicDRAM \<Rightarrow> bool" where
  "departs_by B m \<longleftrightarrow> (\<forall>c \<in> set (ad_controllers m). \<forall>p \<in> set (at_pending c). pr_depart p \<le> B)"

abbreviation clocks :: "'p AtomicDRAM \<Rightarrow> Clk_t list" where
  "clocks m \<equiv> map at_clk (ad_controllers m)"

lemma Atomic_send_frame:
  assumes "Atomic_send predict req c = Inr (ok, req', c')"
  shows "at_clk c' = at_clk c" "\<not> ok \<Longrightarrow> at_pending c' = at_pending c"
  using assms by (auto simp: Atomic_send_def Let_def bindR_eq_Inr_iff count_admitted_def split: if_splits)

lemma AtomicDRAM_send_frame:
  assumes "AtomicDRAM_send predict req m = Inr (ok, calls, req', m')"
  shows "calls = []" "clocks m' = clocks m" "\<not> ok \<Longrightarrow> departs_by B m' = departs_by B m"
proof -
  let ?req1 = "channel_apply (ad_channel_mapper m) req"
  let ?i = "nat (req_addr_vec ?req1 ! 0)"
  from assms obtain q c where c: "Atomic_send predict (?req1\<lparr>req_admission_ordinal := ad_next_admission_ordinal m ! ?i\<rparr>) (ad_controllers m ! ?i) = Inr (ok, q, c)"
    and m': "ad_controllers m' = (ad_controllers m)[?i := c]" and "calls = []"
    by (auto simp: AtomicDRAM_send_def Let_def bindR_eq_Inr_iff AtomicDRAM_count_def split: if_splits)
  then show "calls = []" by simp
  note f = Atomic_send_frame [OF c]
  show "clocks m' = clocks m" using f(1) by (simp add: m' map_update) (metis list_update_beyond list_update_id map_update not_le)
  show "departs_by B m' = departs_by B m" if "\<not> ok"
  proof -
    have "map at_pending (ad_controllers m') = map at_pending (ad_controllers m)"
      using f(2) [OF that] by (simp add: m' map_update) (metis list_update_beyond list_update_id map_update not_le)
    then have "at_pending ` set (ad_controllers m') = at_pending ` set (ad_controllers m)" by (metis list.set_map)
    then have "(\<forall>ps \<in> at_pending ` set (ad_controllers m'). \<forall>p \<in> set ps. pr_depart p \<le> B) =
        (\<forall>ps \<in> at_pending ` set (ad_controllers m). \<forall>p \<in> set ps. pr_depart p \<le> B)" by simp
    then show ?thesis by (simp add: departs_by_def)
  qed
qed

lemma adram_outs_empty:
  assumes "adram_outs m = {#}" "c \<in> set (ad_controllers m)"
  shows "at_pending c = []"
proof -
  have "(\<Sum>c \<leftarrow> cs. pending_toks (at_pending c)) = {#} \<Longrightarrow> c \<in> set cs \<Longrightarrow> at_pending c = []" for cs :: "'a AtomicController list"
    by (induction cs) auto
  with assms show ?thesis by (simp add: adram_outs_def)
qed

lemma Atomic_send_refused:
  assumes "Atomic_send predict req c = Inr (False, req', c')" "atomic_ok c"
  shows "at_pending c \<noteq> []"
proof
  assume "at_pending c = []"
  then have "at_inflight_reads c = 0" "at_inflight_writes c = 0" "0 < at_read_buffer_size c" "0 < at_write_buffer_size c"
    using assms(2) by (simp_all add: atomic_ok_def)
  with assms(1) show False by (auto simp: Atomic_send_def Let_def bindR_eq_Inr_iff split: if_splits)
qed

lemma AtomicDRAM_refused:
  assumes s: "AtomicDRAM_send predict req m = Inr (False, calls, req', m')" and ok: "adram_ok tx m"
  shows "adram_outs m \<noteq> {#}"
proof -
  let ?req1 = "channel_apply (ad_channel_mapper m) req"
  let ?i = "nat (req_addr_vec ?req1 ! 0)"
  from s obtain q c where c: "Atomic_send predict (?req1\<lparr>req_admission_ordinal := ad_next_admission_ordinal m ! ?i\<rparr>) (ad_controllers m ! ?i) = Inr (False, q, c)"
    by (auto simp: AtomicDRAM_send_def Let_def bindR_eq_Inr_iff split: if_splits)
  have i: "?i < length (ad_controllers m)" by (rule adram_channel [OF ok])
  with ok have "atomic_ok (ad_controllers m ! ?i)" by (simp add: adram_ok_def)
  from Atomic_send_refused [OF c this] i show ?thesis using adram_outs_empty nth_mem by blast
qed

context atomic_model
begin

lemma send_misses_steps:
  assumes "send_misses (send_and_call (AtomicDRAM_send predict)) clk ms (fe, m) = Inr (kept, fe', m')" "adram_ok tx m" "misses_ok tx ms"
  shows "fe' = fe \<and> clocks m' = clocks m \<and> (\<exists>k. length ms = length kept + k \<and> size (adram_outs m') = size (adram_outs m) + k \<and>
      (k = 0 \<longrightarrow> map fst kept = map fst ms \<and> (\<forall>B. departs_by B m' = departs_by B m)) \<and>
      (adram_outs m = {#} \<and> (\<exists>x \<in> set ms. fst x \<le> clk) \<longrightarrow> 0 < k))"
  using assms
proof (induction ms arbitrary: m kept)
  case (Cons x ms)
  obtain due req where x: "x = (due, req)" by (cases x)
  from Cons.prems(3) have r: "request_ok tx req" "misses_ok tx ms" by (simp_all add: misses_ok_def x)
  show ?case
  proof (cases "clk \<ge> due")
    case False
    with Cons.prems(1) obtain kept1 where k: "send_misses (send_and_call (AtomicDRAM_send predict)) clk ms (fe, m) = Inr (kept1, fe', m')"
      "kept = (due, req) # kept1" by (auto simp: x bindR_eq_Inr_iff)
    from Cons.IH [OF k(1) Cons.prems(2) r(2)] False show ?thesis by (auto simp: x k(2))
  next
    case True
    obtain sent calls req' m1 where s: "AtomicDRAM_send predict req m = Inr (sent, calls, req', m1)" "adram_ok tx m1"
      "mset (map tok calls) + adram_outs m1 = (if sent then add_mset (tok req) (adram_outs m) else adram_outs m)"
      using AtomicDRAM_send_ok [OF Cons.prems(2) r(1)] by blast
    note f = AtomicDRAM_send_frame [OF s(1)]
    have "send_and_call (AtomicDRAM_send predict) req (fe, m) = Inr (sent, req', fe, m1)" using s(1) f(1) by (simp add: send_and_call_def)
    with Cons.prems(1) True obtain kept1 where k: "send_misses (send_and_call (AtomicDRAM_send predict)) clk ms (fe, m1) = Inr (kept1, fe', m')"
      "kept = (if sent then kept1 else (due, req') # kept1)" by (auto simp: x bindR_eq_Inr_iff)
    from Cons.IH [OF k(1) s(2) r(2)] obtain n where n: "fe' = fe" "clocks m' = clocks m1" "length ms = length kept1 + n"
      "size (adram_outs m') = size (adram_outs m1) + n"
      "n = 0 \<longrightarrow> map fst kept1 = map fst ms \<and> (\<forall>B. departs_by B m' = departs_by B m1)" by blast
    show ?thesis
    proof (cases sent)
      case True
      with s(3) f(1) have "size (adram_outs m1) = size (adram_outs m) + 1" by simp
      with n k(2) True f(2) show ?thesis by (auto intro!: exI [of _ "Suc n"])
    next
      case False
      have "adram_outs m \<noteq> {#}" using AtomicDRAM_refused [OF _ Cons.prems(2)] s(1) False by auto
      moreover have "adram_outs m1 = adram_outs m" using s(3) f(1) False by simp
      ultimately show ?thesis using n k(2) False f(2,3) by (auto simp: x intro!: exI [of _ n])
    qed
  qed
qed simp

lemma LLC_tick_steps:
  assumes t: "LLC_tick (AtomicDRAM_send predict) (fe, m) = Inr (fe', m')" and ok: "adram_ok tx m" "misses_ok tx (llc_miss_list (fe_llc fe))"
  shows "todos fe' = todos fe" "llc_cfg (fe_llc fe') = llc_cfg (fe_llc fe)" "clocks m' = clocks m"
    "llc_hit_list (fe_llc fe') = filter (\<lambda>h. fe_clk fe < fst h) (llc_hit_list (fe_llc fe))"
    "\<exists>k. length (llc_miss_list (fe_llc fe)) = length (llc_miss_list (fe_llc fe')) + k \<and> size (adram_outs m') = size (adram_outs m) + k \<and>
      (k = 0 \<longrightarrow> map fst (llc_miss_list (fe_llc fe')) = map fst (llc_miss_list (fe_llc fe)) \<and> (\<forall>B. departs_by B m' = departs_by B m)) \<and>
      (adram_outs m = {#} \<and> (\<exists>x \<in> set (llc_miss_list (fe_llc fe)). fst x \<le> fe_clk fe) \<longrightarrow> 0 < k)"
proof -
  from t obtain kept fe1 where s: "send_misses (send_and_call (AtomicDRAM_send predict)) (fe_clk fe) (llc_miss_list (fe_llc fe)) (fe, m) = Inr (kept, fe1, m')"
    by (auto simp: LLC_tick_def Let_def bindR_eq_Inr_iff)
  note st = send_misses_steps [OF s ok]
  define fe2 where "fe2 = fe\<lparr>fe_llc := (fe_llc fe)\<lparr>llc_miss_list := kept\<rparr>\<rparr>"
  have f2: "llc_hit_list (fe_llc fe2) = llc_hit_list (fe_llc fe)" "llc_cfg (fe_llc fe2) = llc_cfg (fe_llc fe)" "llc_miss_list (fe_llc fe2) = kept"
    "todos fe2 = todos fe" by (simp_all add: fe2_def)
  from t s st obtain hk fe3 where h: "serve_hits receive_hit (fe_clk fe) (llc_hit_list (fe_llc fe2)) fe2 = Inr (hk, fe3)"
    and e: "fe' = fe3\<lparr>fe_llc := (fe_llc fe3)\<lparr>llc_hit_list := hk\<rparr>\<rparr>"
    by (auto simp: LLC_tick_def Let_def bindR_eq_Inr_iff fe2_def)
  note hf = serve_hits_frame [OF h] serve_hits_kept [OF h] serve_hits_todos [OF h]
  have f: "llc_hit_list (fe_llc fe') = hk" "llc_cfg (fe_llc fe') = llc_cfg (fe_llc fe3)" "llc_miss_list (fe_llc fe') = llc_miss_list (fe_llc fe3)"
    "todos fe' = todos fe3" by (simp_all add: e)
  show "todos fe' = todos fe" using f(4) hf(3) f2(4) by simp
  show "llc_cfg (fe_llc fe') = llc_cfg (fe_llc fe)" using f(2) hf(1) f2(2) by simp
  show "clocks m' = clocks m" using st by simp
  show "llc_hit_list (fe_llc fe') = filter (\<lambda>h. fe_clk fe < fst h) (llc_hit_list (fe_llc fe))" using f(1) hf(2) f2(1) by simp
  have "llc_miss_list (fe_llc fe') = kept" using f(3) hf(1) f2(3) by simp
  with st show "\<exists>k. length (llc_miss_list (fe_llc fe)) = length (llc_miss_list (fe_llc fe')) + k \<and> size (adram_outs m') = size (adram_outs m) + k \<and>
      (k = 0 \<longrightarrow> map fst (llc_miss_list (fe_llc fe')) = map fst (llc_miss_list (fe_llc fe)) \<and> (\<forall>B. departs_by B m' = departs_by B m)) \<and>
      (adram_outs m = {#} \<and> (\<exists>x \<in> set (llc_miss_list (fe_llc fe)). fst x \<le> fe_clk fe) \<longrightarrow> 0 < k)" by simp
qed

end

lemma serve_completed_frame:
  "at_clk (snd (serve_completed ps c)) = at_clk c \<and> set (at_pending (snd (serve_completed ps c))) \<subseteq> set ps"
  by (induction ps c rule: serve_completed.induct) (auto simp: count_served_def split: prod.splits)

lemma AtomicDRAM_tick_frame:
  assumes "AtomicDRAM_tick m = Inr (calls, m')"
  shows "clocks m' = map (\<lambda>t. t + 1) (clocks m)" "departs_by B m \<Longrightarrow> departs_by B m'"
proof -
  have m': "ad_controllers m' = map (snd \<circ> Atomic_tick) (ad_controllers m)" using assms by (auto simp: AtomicDRAM_tick_def Let_def o_def)
  have f: "at_clk (snd (Atomic_tick c)) = at_clk c + 1" "set (at_pending (snd (Atomic_tick c))) \<subseteq> set (at_pending c)" for c :: "'a AtomicController"
    by (simp_all add: Atomic_tick_def serve_completed_frame)
  show "clocks m' = map (\<lambda>t. t + 1) (clocks m)" by (simp add: m' f)
  show "departs_by B m'" if "departs_by B m" using that f(2) by (fastforce simp: departs_by_def m')
qed

section \<open>The measure\<close>

definition price :: "int \<Rightarrow> SimpleO3LLC \<Rightarrow> int" where
  "price tx llc = send_cost tx (llc_cfg llc) + 1"

definition fe_phi :: "int \<Rightarrow> 't SimpleO3 \<Rightarrow> int" where
  "fe_phi tx fe = price tx (fe_llc fe) * sum_list (todos fe) + items (fe_llc fe)"

definition phi :: "int \<Rightarrow> 't SimpleO3 \<times> 'p AtomicDRAM \<Rightarrow> int" where
  "phi tx s = fe_phi tx (fst s) + int (size (adram_outs (snd s)))"

lemma phi_nonneg:
  assumes "fe_ok tx F (fst s)"
  shows "0 \<le> phi tx s"
proof -
  have "0 \<le> todo c" if "c \<in> set (fe_cores (fst s))" for c
    using assms that todo_nonneg by (force simp: fe_ok_def fe_mid_def cores_ok_def in_set_conv_nth)
  then have "0 \<le> sum_list (todos (fst s))" by (intro sum_list_nonneg) auto
  moreover have "0 < price tx (fe_llc (fst s))" using send_cost_pos [of tx "llc_cfg (fe_llc (fst s))"] by (simp add: price_def)
  ultimately show ?thesis by (simp add: phi_def fe_phi_def items_def)
qed

text \<open>The cores: each tick lowers the measure or leaves the queues of the cache alone.\<close>

lemma sum_todos_upd:
  assumes "i < length cs"
  shows "sum_list (map todo (cs[i := c])) = sum_list (map todo cs) + (todo c - todo (cs ! i))"
  by (rule sum_list_upd [OF assms]) simp

lemma tick_core_steps:
  assumes t: "tick_core tx translate i fe = Inr fe'" and ok: "fe_ok tx F fe" and i: "i < length (fe_cores fe)"
  shows "llc_cfg (fe_llc fe') = llc_cfg (fe_llc fe)" "todo (fe_cores fe' ! i) \<le> todo (fe_cores fe ! i)"
    "if todo (fe_cores fe' ! i) = todo (fe_cores fe ! i) then fe_phi tx fe' = fe_phi tx fe \<and> queues (fe_llc fe') = queues (fe_llc fe) else fe_phi tx fe' < fe_phi tx fe"
proof -
  from t obtain c tr llc where c: "Core_tick tx (fe_clk fe) translate (fe_cores fe ! i, fe_translation fe, fe_llc fe) = Inr (c, tr, llc)"
    and fe': "fe_cores fe' = (fe_cores fe)[i := c]" "fe_llc fe' = llc" by (auto simp: tick_core_def bindR_eq_Inr_iff)
  have "core_ok (live_of (int i) (live_requests (fe_llc fe))) (fe_cores fe ! i)" using ok i by (simp add: fe_ok_def fe_mid_def cores_ok_def)
  note a = Core_tick_advances [OF c this, unfolded advances_def fst_conv snd_conv]
  from a show cfg: "llc_cfg (fe_llc fe') = llc_cfg (fe_llc fe)" "todo (fe_cores fe' ! i) \<le> todo (fe_cores fe ! i)"
    using i by (auto simp: fe' queues_def split: if_splits)
  let ?p = "price tx (fe_llc fe)"
  have p: "price tx llc = ?p" using cfg(1) by (simp add: price_def fe')
  have e: "fe_phi tx fe' - fe_phi tx fe = ?p * (todo c - todo (fe_cores fe ! i)) + (items llc - items (fe_llc fe))"
    using i by (simp add: fe_phi_def fe' p sum_todos_upd algebra_simps)
  show "if todo (fe_cores fe' ! i) = todo (fe_cores fe ! i) then fe_phi tx fe' = fe_phi tx fe \<and> queues (fe_llc fe') = queues (fe_llc fe) else fe_phi tx fe' < fe_phi tx fe"
  proof (cases "todo c = todo (fe_cores fe ! i)")
    case True
    with a have q: "queues llc = queues (fe_llc fe)" by simp
    with e True queues_items [OF q] i show ?thesis by (simp add: fe')
  next
    case False
    with a have b: "todo c - todo (fe_cores fe ! i) \<le> -1" "items llc - items (fe_llc fe) < ?p" by (simp_all add: price_def)
    have "?p * (todo c - todo (fe_cores fe ! i)) \<le> ?p * -1"
      by (rule mult_left_mono [OF b(1)]) (use send_cost_pos [of tx "llc_cfg (fe_llc fe)"] in \<open>simp add: price_def\<close>)
    with e b(2) False i show ?thesis by (simp add: fe')
  qed
qed

context o3_system
begin

lemma tick_cores_steps:
  "foldR (tick_core tx translate) is fe = Inr fe' \<Longrightarrow> fe_ok tx F fe \<Longrightarrow> 0 < tx \<Longrightarrow> \<forall>i \<in> set is. i < length (fe_cores fe) \<Longrightarrow>
    llc_cfg (fe_llc fe') = llc_cfg (fe_llc fe) \<and>
    (if fe_phi tx fe' = fe_phi tx fe then queues (fe_llc fe') = queues (fe_llc fe) else fe_phi tx fe' < fe_phi tx fe)"
proof (induction "is" arbitrary: fe)
  case (Cons i "is")
  from Cons.prems(1) obtain fe1 where 1: "tick_core tx translate i fe = Inr fe1" "foldR (tick_core tx translate) is fe1 = Inr fe'"
    by (auto simp: bindR_eq_Inr_iff)
  have i: "i < length (fe_cores fe)" using Cons.prems(4) by simp
  have ok: "fe_ok tx F fe1" "length (fe_cores fe1) = length (fe_cores fe)" using tick_core_ok [OF Cons.prems(2) i Cons.prems(3)] 1(1) by simp_all
  note s = tick_core_steps [OF 1(1) Cons.prems(2) i]
  from Cons.IH [OF 1(2) ok(1) Cons.prems(3)] Cons.prems(4) ok(2) s(1,3) show ?case by (auto split: if_splits)
qed simp

end

section \<open>Ticks\<close>

text \<open>What stays when the measure does.\<close>

definition still :: "'t SimpleO3 \<times> 'p AtomicDRAM \<Rightarrow> 't SimpleO3 \<times> 'p AtomicDRAM \<Rightarrow> bool" where
  "still s s' \<longleftrightarrow>
     llc_hit_list (fe_llc (fst s')) = llc_hit_list (fe_llc (fst s)) \<and>
     map fst (llc_miss_list (fe_llc (fst s'))) = map fst (llc_miss_list (fe_llc (fst s))) \<and> (\<forall>B. departs_by B (snd s) \<longrightarrow> departs_by B (snd s'))"

lemma still_refl: "still s s"
  by (simp add: still_def)

lemma still_trans: "still a b \<Longrightarrow> still b c \<Longrightarrow> still a c"
  by (simp add: still_def)

text \<open>Something falls due at the given clock: a hit, or a miss while the memory is empty.\<close>

definition due_at :: "Clk_t \<Rightarrow> 't SimpleO3 \<times> 'p AtomicDRAM \<Rightarrow> bool" where
  "due_at t s \<longleftrightarrow>
     (\<exists>h \<in> set (llc_hit_list (fe_llc (fst s))). fst h \<le> t) \<or>
     (adram_outs (snd s) = {#} \<and> (\<exists>x \<in> set (llc_miss_list (fe_llc (fst s))). fst x \<le> t))"

lemma filter_all_kept: "length (filter P xs) = length xs \<Longrightarrow> filter P xs = xs \<and> (\<forall>x \<in> set xs. P x)"
  by (metis filter_True length_filter_less less_irrefl)

context o3_simulation
begin

lemma fe_tick_steps:
  assumes inv: "o3_inv tx (fe, m)" and t: "SimpleO3_tick tx translate (AtomicDRAM_send predict) (fe, m) = Inr (fe', m')"
  shows "clocks m' = clocks m" "fe_clk fe' = fe_clk fe + 1"
    "if phi tx (fe', m') = phi tx (fe, m) then still (fe, m) (fe', m') \<and> \<not> due_at (fe_clk fe + 1) (fe, m) else phi tx (fe', m') < phi tx (fe, m)"
proof -
  let ?fe = "fe\<lparr>fe_clk := fe_clk fe + 1\<rparr>" and ?l = "fe_llc fe"
  from inv have ok: "fe_ok tx (adram_outs m) fe" and m: "adram_ok tx m" by (simp_all add: o3_inv_def)
  have ok1: "fe_ok tx (adram_outs m) ?fe" using fe_ok_forward [OF ok, of 1] by (simp add: SimpleO3_fast_forward_def)
  from LLC_tick_ok [OF ok1 m] obtain fe1 m1 where l: "LLC_tick (AtomicDRAM_send predict) (?fe, m) = Inr (fe1, m1)" "fe_ok tx (adram_outs m1) fe1"
    "adram_ok tx m1" "fe_clk fe1 = fe_clk fe + 1" by auto
  have ms: "misses_ok tx (llc_miss_list (fe_llc ?fe))" using ok by (simp add: fe_ok_def)
  note st = LLC_tick_steps [OF l(1) m ms, simplified]
  from t l(1) have c: "foldR (tick_core tx translate) [0..<length (fe_cores fe1)] fe1 = Inr fe'" "m1 = m'"
    by (auto simp: SimpleO3_tick_def bindR_eq_Inr_iff)
  have tx: "0 < tx" using m by (simp add: adram_ok_def)
  from o3_system.tick_cores_steps [OF system c(1) l(2) tx] have cs: "llc_cfg (fe_llc fe') = llc_cfg (fe_llc fe1)"
    "if fe_phi tx fe' = fe_phi tx fe1 then queues (fe_llc fe') = queues (fe_llc fe1) else fe_phi tx fe' < fe_phi tx fe1" by simp_all
  show "clocks m' = clocks m" using st(3) c(2) by simp
  from o3_system.SimpleO3_tick_ok [OF system ok m] t show "fe_clk fe' = fe_clk fe + 1" by auto
  obtain k where k: "length (llc_miss_list ?l) = length (llc_miss_list (fe_llc fe1)) + k" "size (adram_outs m') = size (adram_outs m) + k"
    "k = 0 \<longrightarrow> map fst (llc_miss_list (fe_llc fe1)) = map fst (llc_miss_list ?l) \<and> (\<forall>B. departs_by B m' = departs_by B m)"
    "adram_outs m = {#} \<and> (\<exists>x \<in> set (llc_miss_list ?l). fst x \<le> fe_clk fe + 1) \<longrightarrow> 0 < k" using st(5) c(2) by blast
  let ?hs = "llc_hit_list ?l" and ?late = "filter (\<lambda>h. fe_clk fe + 1 < fst h) (llc_hit_list ?l)"
  have h: "llc_hit_list (fe_llc fe1) = ?late" by (fact st(4))
  define gone where "gone = int (length ?hs) - int (length ?late)"
  have p1: "fe_phi tx fe1 + int (size (adram_outs m')) = phi tx (fe, m) - int k - gone"
    using k(1,2) by (simp add: phi_def fe_phi_def items_def price_def st(1,2) h gone_def)
  have gone: "0 \<le> gone" using length_filter_le [of _ ?hs] by (simp add: gone_def)
  have hk: "?late = ?hs \<and> \<not> (\<exists>h \<in> set ?hs. fst h \<le> fe_clk fe + 1)" if "gone = 0"
  proof -
    from that have "length ?late = length ?hs" by (simp add: gone_def)
    from filter_all_kept [OF this] show ?thesis by (meson leD)
  qed
  have phi': "phi tx (fe', m') = fe_phi tx fe' + int (size (adram_outs m'))" by (simp add: phi_def)
  have le: "fe_phi tx fe' \<le> fe_phi tx fe1" using cs(2) by (auto split: if_splits)
  show "if phi tx (fe', m') = phi tx (fe, m) then still (fe, m) (fe', m') \<and> \<not> due_at (fe_clk fe + 1) (fe, m) else phi tx (fe', m') < phi tx (fe, m)"
  proof (cases "phi tx (fe', m') = phi tx (fe, m)")
    case False
    moreover have "phi tx (fe', m') \<le> phi tx (fe, m)" using p1 phi' le gone by linarith
    ultimately show ?thesis by simp
  next
    case True
    then have z: "k = 0" "gone = 0" "fe_phi tx fe' = fe_phi tx fe1" using p1 phi' le gone by linarith+
    with cs(2) have q: "llc_hit_list (fe_llc fe') = llc_hit_list (fe_llc fe1)" "llc_miss_list (fe_llc fe') = llc_miss_list (fe_llc fe1)"
      by (simp_all add: queues_def)
    have "still (fe, m) (fe', m')" using z k(3) hk h by (simp add: still_def q)
    moreover have "\<not> due_at (fe_clk fe + 1) (fe, m)" using z k(4) hk unfolding due_at_def fst_conv snd_conv by blast
    ultimately show ?thesis using True by simp
  qed
qed

text \<open>A tick of the memory.\<close>

lemma mem_tick_steps:
  assumes inv: "o3_inv tx (fe, m)" and t: "o3_mem_tick (fe, m) = Inr (fe', m')"
  shows "clocks m' = map (\<lambda>t. t + 1) (clocks m)" "fe_clk fe' = fe_clk fe"
    "if phi tx (fe', m') = phi tx (fe, m) then still (fe, m) (fe', m') else phi tx (fe', m') < phi tx (fe, m)"
proof -
  from inv have ok: "fe_ok tx (adram_outs m) fe" and m: "adram_ok tx m" by (simp_all add: o3_inv_def)
  obtain calls m1 where a: "AtomicDRAM_tick m = Inr (calls, m1)" "mset (map tok calls) + adram_outs m1 = adram_outs m"
    using AtomicDRAM_tick_ok [OF m] by blast
  note f = AtomicDRAM_tick_frame [OF a(1)]
  from t a(1) have c: "foldR run_callback calls fe = Inr fe'" "m1 = m'" by (auto simp: o3_mem_tick_def bindR_eq_Inr_iff)
  from ok have "fe_mid (mset (map tok calls) + (adram_outs m1 + toks (llc_miss_list (fe_llc fe)))) {#} fe"
    by (simp add: fe_ok_def a(2) [symmetric] ac_simps)
  from run_callbacks_ok [OF this] c(1) have q: "same_queues fe fe'" by auto
  note td = run_callbacks_todos [OF c(1)]
  show "clocks m' = map (\<lambda>t. t + 1) (clocks m)" "fe_clk fe' = fe_clk fe" using f(1) c(2) q by (simp_all add: same_queues_def)
  have "fe_phi tx fe' = fe_phi tx fe" using q td by (simp add: fe_phi_def price_def items_def same_queues_def)
  moreover have "size (adram_outs m') \<le> size (adram_outs m)" using arg_cong [OF a(2), of size] c(2) by simp
  moreover have "still (fe, m) (fe', m')" using q f(2) c(2) by (simp add: still_def same_queues_def)
  ultimately show "if phi tx (fe', m') = phi tx (fe, m) then still (fe, m) (fe', m') else phi tx (fe', m') < phi tx (fe, m)"
    by (simp add: phi_def)
qed

end

section \<open>Nothing left but the cores\<close>

lemma flight_ok_none:
  assumes "flight_ok {#} A G n"
  shows "A = {#}" "n = 0"
proof -
  have "fst g = 0" if "g \<in> set G" for g using assms that by (auto simp: flight_ok_def in_set_conv_nth)
  then have "open_groups G = {#}" by (auto simp: open_groups_def filter_empty_conv)
  with assms show "A = {#}" "n = 0" by (simp_all add: flight_ok_def)
qed

text \<open>Without MSHRs and live writebacks nothing is in flight.\<close>

lemma flight_ok_idle:
  assumes ok: "flight_ok F {#} G 0"
  shows "F = {#}"
proof (rule ccontr)
  from ok have none: "fills F = {#}" "writes F = 0" "fills (open_groups G) = {#}" "writes (open_groups G) = 0"
    using tally_nonneg(1) [of F] tally_nonneg(1) [of "open_groups G"] by (auto simp: flight_ok_def)
  assume "F \<noteq> {#}"
  then obtain t F' where t: "F = add_mset t F'" by (meson multiset_cases)
  with ok obtain cb where cb: "fst t = Some cb" "cb < cb_split (length G)" by (auto simp: flight_ok_def)
  show False
  proof (cases "cb < cb_split 0")
    case True
    then have "cb = cb_core \<or> cb = cb_writeback" by (auto simp: cb_defs)
    then show False using none(1,2) tally_nonneg(1) [of F'] by (auto simp: t cb(1))
  next
    case False
    define g where "g = cb - cb_split 0"
    have g: "cb = cb_split g" "g < length G" using False cb(2) by (auto simp: g_def cb_defs)
    have "0 < fst (G ! g)" using ok g(2) tally_nonneg(2) [of F' g] by (auto simp: flight_ok_def t cb(1) g(1))
    then have "tok (snd (G ! g)) \<in># open_groups G" using g(2) by (auto simp: open_groups_def)
    then obtain H where "open_groups G = add_mset (tok (snd (G ! g))) H" by (meson multi_member_split)
    moreover have "whole_cb (req_callback (snd (G ! g)))" using ok g(2) by (simp add: flight_ok_def)
    ultimately show False using none(3,4) tally_nonneg(1) [of H] by (auto simp: whole_cb_def tok_def)
  qed
qed

text \<open>When the frontend is finished every instruction has retired and every request has been answered.\<close>

lemma finished_done:
  assumes inv: "o3_inv tx (fe, m)" and f: "SimpleO3_is_finished fe = Inr True"
  shows "\<forall>c \<in> set (fe_cores fe). s_insts_retired c = c_num_expected_insts c \<and> w_load (c_window c) = 0" "LLC_finalize (fe_llc fe) = Inr ()"
    "adram_outs m = {#}"
proof -
  let ?c = "fe_llc fe"
  from f have q: "is_quiescent ?c = Inr True" and r: "\<forall>c \<in> set (fe_cores fe). c_reached_expected_num_insts c \<and> issue_roi_quiescent c"
    by (auto simp: SimpleO3_is_finished_def list_ex_iff split: if_splits)
  from q show "LLC_finalize ?c = Inr ()" by (simp add: LLC_finalize_def)
  from q have e: "llc_mshrs ?c = []" "llc_miss_list ?c = []" "s_internal_writebacks_live ?c = 0" by (auto simp: is_quiescent_def split: if_splits)
  from inv have ok: "fe_ok tx (adram_outs m) fe" by (simp add: o3_inv_def)
  then have "flight_ok (adram_outs m) {#} (llc_split_groups ?c) 0" using e by (simp add: fe_ok_def fe_mid_def flow_inv_def)
  then show "adram_outs m = {#}" by (rule flight_ok_idle)
  show "\<forall>c \<in> set (fe_cores fe). s_insts_retired c = c_num_expected_insts c \<and> w_load (c_window c) = 0"
  proof
    fix c assume c: "c \<in> set (fe_cores fe)"
    then obtain i where "i < length (fe_cores fe)" "c = fe_cores fe ! i" by (auto simp: in_set_conv_nth)
    with cores_ok_env(1) [OF ok] core_envD(3) core_okD(4) have "o3_counts c" by blast
    with r c show "s_insts_retired c = c_num_expected_insts c \<and> w_load (c_window c) = 0" by (auto simp: o3_counts_def issue_roi_quiescent_def)
  qed
qed

definition drained :: "'t SimpleO3 \<times> 'p AtomicDRAM \<Rightarrow> bool" where
  "drained s \<longleftrightarrow> llc_hit_list (fe_llc (fst s)) = [] \<and> llc_miss_list (fe_llc (fst s)) = [] \<and> adram_outs (snd s) = {#}"

lemma drained_llc:
  assumes ok: "fe_ok tx {#} fe" and q: "llc_hit_list (fe_llc fe) = []" "llc_miss_list (fe_llc fe) = []"
  shows "llc_mshrs (fe_llc fe) = []" "live_requests (fe_llc fe) = {#}" "is_quiescent (fe_llc fe) = Inr True"
proof -
  let ?c = "fe_llc fe"
  from ok q(2) have inv: "llc_inv (fe_clk fe) {#} ?c" and fl: "flight_ok {#} (mset (map fst (llc_mshrs ?c))) (llc_split_groups ?c) (s_internal_writebacks_live ?c)"
    by (simp_all add: fe_ok_def fe_mid_def flow_inv_def)
  from flight_ok_none [OF fl] show m: "llc_mshrs ?c = []" by simp
  have r: "llc_receive_requests ?c = []" using inv m by (simp add: llc_inv_def buckets_ok_def)
  then show "live_requests ?c = {#}" by (simp add: live_requests_def q(1))
  from inv have "live_ok (fe_clk fe) {#} (llc_live_logical_ids ?c) (s_logical_requests_live ?c)" "writebacks_ok ?c"
    by (simp_all add: llc_inv_def q(1) r)
  then show "is_quiescent ?c = Inr True" using flight_ok_none(2) [OF fl]
    by (auto simp: is_quiescent_def live_ok_def writebacks_ok_def m r q mset_set_empty_iff)
qed

text \<open>Bounds on the events that are scheduled.\<close>

lemma list_bound: "\<exists>B :: int. \<forall>t \<in> set ts. t \<le> B"
proof (induction ts)
  case (Cons t ts)
  then obtain B where "\<forall>t \<in> set ts. t \<le> B" ..
  then show ?case by (intro exI [of _ "max t B"]) auto
qed simp

lemma departs_bound: "\<exists>B. departs_by B m"
proof -
  obtain B where "\<forall>t \<in> set (map pr_depart (concat (map at_pending (ad_controllers m)))). t \<le> B" using list_bound by blast
  then show ?thesis by (intro exI [of _ B]) (auto simp: departs_by_def)
qed

text \<open>A memory whose clocks have passed every departure is empty.\<close>

lemma departed:
  assumes "adram_ok tx m" "departs_by B m" "\<forall>t \<in> set (clocks m). B \<le> t"
  shows "adram_outs m = {#}"
proof -
  have "at_pending c = []" if "c \<in> set (ad_controllers m)" for c
  proof (rule ccontr)
    assume "at_pending c \<noteq> []"
    then have p: "hd (at_pending c) \<in> set (at_pending c)" (is "?p \<in> _") by simp
    moreover have "atomic_ok c" using assms(1) that by (simp add: adram_ok_def)
    ultimately have "at_clk c < pr_depart ?p" unfolding atomic_ok_def by blast
    moreover have "pr_depart ?p \<le> B" "B \<le> at_clk c" using assms(2,3) that p by (auto simp: departs_by_def)
    ultimately show False by simp
  qed
  then show ?thesis by (simp add: adram_outs_def sum_list_0 cong: map_cong)
qed

text \<open>A run in which no cycle is the last.\<close>

definition endless :: "'s sim_ops \<Rightarrow> ('s \<Rightarrow> bool) \<Rightarrow> (nat \<Rightarrow> 's sim) \<Rightarrow> bool" where
  "endless ops I f \<longleftrightarrow> (\<forall>n. sim_inv ops I (f n) \<and> sim_cycle ops (f n) = Inr (False, f (Suc n)))"

lemma endlessD: "endless ops I f \<Longrightarrow> sim_inv ops I (f n)" "endless ops I f \<Longrightarrow> sim_cycle ops (f n) = Inr (False, f (Suc n))"
  by (simp_all add: endless_def)

lemma finishes_last: "finishes step n x (Inr y) \<Longrightarrow> \<exists>z. step z = Inr (True, y)"
  by (induction n x "Inr y :: 'a result" rule: finishes.induct) auto

lemma step_finished: "sim_step ops y = Inr (True, x) \<Longrightarrow> op_is_finished ops (sim_state x) = Inr True"
  by (auto simp: sim_step_def sim_cycle_def bindR_eq_Inr_iff split: if_splits)

text \<open>A whole simulation with a translation that never refuses.\<close>

locale o3_run = o3_simulation translate predict fe_ratio mem_ratio tx + total_translation translate
  for translate :: "'t translator" and predict :: "'p predictor" and fe_ratio mem_ratio tx :: int
begin

lemma drained_cores:
  "foldR (tick_core tx translate) is fe = Inr fe' \<Longrightarrow> fe_ok tx {#} fe \<Longrightarrow> 0 < tx \<Longrightarrow> \<forall>i \<in> set is. i < length (fe_cores fe) \<Longrightarrow>
    llc_hit_list (fe_llc fe) = [] \<Longrightarrow> llc_miss_list (fe_llc fe) = [] \<Longrightarrow>
    (if \<forall>i \<in> set is. core_settled (fe_cores fe ! i) then fe' = fe else fe_phi tx fe' < fe_phi tx fe)"
proof (induction "is" arbitrary: fe)
  case (Cons i "is")
  from Cons.prems(1) obtain fe1 where 1: "tick_core tx translate i fe = Inr fe1" "foldR (tick_core tx translate) is fe1 = Inr fe'"
    by (auto simp: bindR_eq_Inr_iff)
  have i: "i < length (fe_cores fe)" using Cons.prems(4) by simp
  note env = cores_ok_env [OF Cons.prems(2) i] and dr = drained_llc [OF Cons.prems(2,5,6)]
  note core = core_envD(3) [OF env(1)]
  show ?case
  proof (cases "core_settled (fe_cores fe ! i)")
    case True
    from stalled_tick [OF core env(2), of tx "fe_clk fe" translate "(fe_translation fe, fe_llc fe)"] core_settled_reached [OF True core]
    have "fe1 = fe" using 1(1) by (simp add: tick_core_def)
    then show ?thesis using Cons.IH [OF 1(2)] Cons.prems True by (auto split: if_splits)
  next
    case False
    from 1(1) obtain c tr llc where c: "Core_tick tx (fe_clk fe) translate (fe_cores fe ! i, fe_translation fe, fe_llc fe) = Inr (c, tr, llc)"
      "fe_cores fe1 = (fe_cores fe)[i := c]" by (auto simp: tick_core_def bindR_eq_Inr_iff)
    from Core_tick_moves [OF c(1) env dr(1,2) False] have "todo (fe_cores fe1 ! i) < todo (fe_cores fe ! i)" using i by (simp add: c(2))
    with tick_core_steps(3) [OF 1(1) Cons.prems(2) i] have lt: "fe_phi tx fe1 < fe_phi tx fe" by simp
    from o3_system.tick_core_ok [OF system Cons.prems(2) i Cons.prems(3)] 1(1) have ok: "fe_ok tx {#} fe1" "length (fe_cores fe1) = length (fe_cores fe)" by auto
    have "fe_phi tx fe' \<le> fe_phi tx fe1"
      using o3_system.tick_cores_steps [OF system 1(2) ok(1) Cons.prems(3)] Cons.prems(4) ok(2) by (auto split: if_splits)
    with lt False show ?thesis by simp
  qed
qed simp

text \<open>The frontend moves or is finished.\<close>

lemma drained_tick:
  assumes inv: "o3_inv tx (fe, m)" and d: "drained (fe, m)" and t: "SimpleO3_tick tx translate (AtomicDRAM_send predict) (fe, m) = Inr (fe', m')"
    and nf: "SimpleO3_is_finished fe' = Inr False"
  shows "phi tx (fe', m') < phi tx (fe, m)"
proof -
  let ?fe = "fe\<lparr>fe_clk := fe_clk fe + 1\<rparr>"
  from d have q: "llc_hit_list (fe_llc ?fe) = []" "llc_miss_list (fe_llc ?fe) = []" and o: "adram_outs m = {#}" by (simp_all add: drained_def)
  from inv have ok: "fe_ok tx {#} ?fe" and m: "adram_ok tx m"
    using fe_ok_forward [of tx "{#}" fe 1] by (simp_all add: o3_inv_def o SimpleO3_fast_forward_def)
  have tx: "0 < tx" using m by (simp add: adram_ok_def)
  have "LLC_tick (AtomicDRAM_send predict) (?fe, m) = Inr (?fe, m)" by (rule idle_LLC_tick) (use q in \<open>simp add: nothing_due_def\<close>)
  with t have c: "foldR (tick_core tx translate) [0..<length (fe_cores ?fe)] ?fe = Inr fe'" "m' = m" by (auto simp: SimpleO3_tick_def bindR_eq_Inr_iff)
  note s = drained_cores [OF c(1) ok tx _ q, simplified]
  have "\<not> (\<forall>i < length (fe_cores fe). core_settled (fe_cores fe ! i))"
  proof
    assume a: "\<forall>i < length (fe_cores fe). core_settled (fe_cores fe ! i)"
    with s have e: "fe' = ?fe" by simp
    have "c_reached_expected_num_insts c \<and> issue_roi_quiescent c" if "c \<in> set (fe_cores fe)" for c
    proof -
      from that obtain i where i: "i < length (fe_cores ?fe)" "c = fe_cores ?fe ! i" by (auto simp: in_set_conv_nth)
      from core_settled_reached [OF _ core_envD(3) [OF cores_ok_env(1) [OF ok i(1)]]] a i show ?thesis by (simp add: core_settled_def)
    qed
    then have "SimpleO3_is_finished fe' = Inr True" using drained_llc(3) [OF ok q] by (auto simp: SimpleO3_is_finished_def e list_ex_iff)
    with nf show False by simp
  qed
  with s have "fe_phi tx fe' < fe_phi tx ?fe" by (auto split: if_splits)
  then show ?thesis by (simp add: phi_def c(2) fe_phi_def)
qed

section \<open>Cycles\<close>

text \<open>The two halves of a cycle. The clock and the counter of a component together count the cycles.\<close>

lemma fe_half:
  assumes inv: "o3_inv tx s" and k: "k < mem_ratio"
    and t: "half_tick mem_ratio (SimpleO3_tick tx translate (AtomicDRAM_send predict)) k s = Inr (k', s')" and nf: "SimpleO3_is_finished (fst s') = Inr False"
  shows "o3_inv tx s'" "clocks (snd s') = clocks (snd s)" "mem_ratio * fe_clk (fst s') + k' = mem_ratio * fe_clk (fst s) + k + 1" "phi tx s' \<le> phi tx s"
    "phi tx s' = phi tx s \<Longrightarrow> still s s' \<and> (mem_ratio \<le> k + 1 \<longrightarrow> \<not> due_at (fe_clk (fst s) + 1) s \<and> \<not> drained s)"
proof -
  obtain fe m fe' m' where s: "s = (fe, m)" "s' = (fe', m')" by fastforce
  have "o3_inv tx s' \<and> clocks (snd s') = clocks (snd s) \<and> mem_ratio * fe_clk (fst s') + k' = mem_ratio * fe_clk (fst s) + k + 1 \<and> phi tx s' \<le> phi tx s \<and>
    (phi tx s' = phi tx s \<longrightarrow> still s s' \<and> (mem_ratio \<le> k + 1 \<longrightarrow> \<not> due_at (fe_clk (fst s) + 1) s \<and> \<not> drained s))"
  proof (cases "mem_ratio \<le> k + 1")
    case True
    with t have ti: "SimpleO3_tick tx translate (AtomicDRAM_send predict) (fe, m) = Inr (fe', m')" and k': "k' = 0"
      by (auto simp: half_tick_def bindR_eq_Inr_iff s)
    have c: "k + 1 = mem_ratio" using True k by simp
    note f = fe_tick_steps [OF inv [unfolded s] ti]
    have "o3_inv tx s'" using fe_tick_ok [OF inv] ti by (simp add: s)
    moreover have "\<not> drained (fe, m)" if "phi tx (fe', m') = phi tx (fe, m)"
      using drained_tick [OF inv [unfolded s] _ ti] nf that by (auto simp: s)
    ultimately show ?thesis using f c by (auto simp: s k' distrib_left split: if_splits)
  next
    case False
    with t have "s' = s" "k' = k + 1" by (simp_all add: half_tick_def)
    with False inv show ?thesis by (simp add: still_refl)
  qed
  then show "o3_inv tx s'" "clocks (snd s') = clocks (snd s)" "mem_ratio * fe_clk (fst s') + k' = mem_ratio * fe_clk (fst s) + k + 1" "phi tx s' \<le> phi tx s"
    "phi tx s' = phi tx s \<Longrightarrow> still s s' \<and> (mem_ratio \<le> k + 1 \<longrightarrow> \<not> due_at (fe_clk (fst s) + 1) s \<and> \<not> drained s)" by blast+
qed

lemma mem_half:
  assumes inv: "o3_inv tx s" and k: "k < fe_ratio" and t: "half_tick fe_ratio o3_mem_tick k s = Inr (k', s')"
  shows "fe_clk (fst s') = fe_clk (fst s)" "map (\<lambda>t. fe_ratio * t + k') (clocks (snd s')) = map (\<lambda>t. fe_ratio * t + k + 1) (clocks (snd s))"
    "phi tx s' \<le> phi tx s" "phi tx s' = phi tx s \<Longrightarrow> still s s'"
proof -
  obtain fe m fe' m' where s: "s = (fe, m)" "s' = (fe', m')" by fastforce
  have "fe_clk (fst s') = fe_clk (fst s) \<and> map (\<lambda>t. fe_ratio * t + k') (clocks (snd s')) = map (\<lambda>t. fe_ratio * t + k + 1) (clocks (snd s)) \<and>
    phi tx s' \<le> phi tx s \<and> (phi tx s' = phi tx s \<longrightarrow> still s s')"
  proof (cases "fe_ratio \<le> k + 1")
    case True
    with t have ti: "o3_mem_tick (fe, m) = Inr (fe', m')" and k': "k' = 0" by (auto simp: half_tick_def bindR_eq_Inr_iff s)
    have c: "fe_ratio = k + 1" using True k by simp
    note f = mem_tick_steps [OF inv [unfolded s] ti]
    have "map (\<lambda>t. fe_ratio * t + k') (clocks m') = map (\<lambda>t. fe_ratio * t + k + 1) (clocks m)"
      unfolding f(1) map_map by (simp add: k' c distrib_left)
    with f(2,3) show ?thesis by (auto simp: s split: if_splits)
  next
    case False
    with t have "s' = s" "k' = k + 1" by (simp_all add: half_tick_def)
    then show ?thesis by (simp add: still_refl add.assoc)
  qed
  then show "fe_clk (fst s') = fe_clk (fst s)" "map (\<lambda>t. fe_ratio * t + k') (clocks (snd s')) = map (\<lambda>t. fe_ratio * t + k + 1) (clocks (snd s))"
    "phi tx s' \<le> phi tx s" "phi tx s' = phi tx s \<Longrightarrow> still s s'" by blast+
qed

abbreviation (input) ops :: "('t SimpleO3 \<times> 'p AtomicDRAM) sim_ops" where
  "ops \<equiv> o3_ops fe_ratio mem_ratio tx translate predict"

abbreviation (input) fe_time :: "('t SimpleO3 \<times> 'p AtomicDRAM) sim \<Rightarrow> int" where
  "fe_time x \<equiv> mem_ratio * fe_clk (fst (sim_state x)) + sim_fe_count x"

abbreviation (input) mem_times :: "('t SimpleO3 \<times> 'p AtomicDRAM) sim \<Rightarrow> int list" where
  "mem_times x \<equiv> map (\<lambda>t. fe_ratio * t + sim_mem_count x) (clocks (snd (sim_state x)))"

lemma cycle_steps:
  assumes inv: "sim_inv ops (o3_inv tx) x" and c: "sim_cycle ops x = Inr (False, x')"
  shows "fe_time x' = fe_time x + 1" "mem_times x' = map (\<lambda>t. t + 1) (mem_times x)" "phi tx (sim_state x') \<le> phi tx (sim_state x)"
    "phi tx (sim_state x') = phi tx (sim_state x) \<Longrightarrow> still (sim_state x) (sim_state x') \<and>
      (mem_ratio \<le> sim_fe_count x + 1 \<longrightarrow> \<not> due_at (fe_clk (fst (sim_state x)) + 1) (sim_state x) \<and> \<not> drained (sim_state x))"
proof -
  let ?s = "sim_state x" and ?s' = "sim_state x'"
  from c obtain s1 where
    1: "half_tick mem_ratio (SimpleO3_tick tx translate (AtomicDRAM_send predict)) (sim_fe_count x) ?s = Inr (sim_fe_count x', s1)"
      "SimpleO3_is_finished (fst s1) = Inr False" and
    2: "half_tick fe_ratio o3_mem_tick (sim_mem_count x) s1 = Inr (sim_mem_count x', ?s')"
    by (auto simp: sim_cycle_def bindR_eq_Inr_iff o3_ops_def split: if_splits)
  from inv have i: "o3_inv tx ?s" "sim_fe_count x < mem_ratio" "sim_mem_count x < fe_ratio" by (simp_all add: sim_inv_def o3_ops_def)
  note a = fe_half [OF i(1,2) 1]
  note b = mem_half [OF a(1) i(3) 2]
  show "fe_time x' = fe_time x + 1" using a(3) b(1) by simp
  show "mem_times x' = map (\<lambda>t. t + 1) (mem_times x)" using b(2) a(2) by (simp add: o_def)
  show "phi tx ?s' \<le> phi tx ?s" using a(4) b(3) by simp
  assume e: "phi tx ?s' = phi tx ?s"
  then have "phi tx s1 = phi tx ?s" "phi tx ?s' = phi tx s1" using a(4) b(3) by simp_all
  from a(5) [OF this(1)] b(4) [OF this(2)] show "still ?s ?s' \<and>
      (mem_ratio \<le> sim_fe_count x + 1 \<longrightarrow> \<not> due_at (fe_clk (fst ?s) + 1) ?s \<and> \<not> drained ?s)" using still_trans by blast
qed

section \<open>No run is endless\<close>

text \<open>The clocks of an endless run.\<close>

lemma endless_times:
  assumes run: "endless ops (o3_inv tx) f"
  shows "fe_time (f n) = fe_time (f 0) + int n" "mem_times (f n) = map (\<lambda>t. t + int n) (mem_times (f 0))"
proof (induction n)
  case (Suc n)
  note c = cycle_steps [OF endlessD [OF run], of n]
  {
    case 1
    then show ?case using c(1) Suc(1) by simp
  next
    case 2
    then show ?case unfolding c(2) Suc(2) by simp
  }
qed simp_all

text \<open>From some point on the measure stays.\<close>

lemma endless_settles:
  assumes run: "endless ops (o3_inv tx) f"
  obtains N where "\<And>n. N \<le> n \<Longrightarrow> phi tx (sim_state (f n)) = phi tx (sim_state (f N))" "\<And>n. N \<le> n \<Longrightarrow> still (sim_state (f N)) (sim_state (f n))"
proof -
  let ?p = "\<lambda>n. phi tx (sim_state (f n))"
  have le: "?p (N + k) \<le> ?p N" for N k
  proof (induction k)
    case (Suc k)
    then show ?case using cycle_steps(3) [OF endlessD [OF run], of "N + k"] by simp
  qed simp
  have nn: "0 \<le> ?p n" for n using endlessD(1) [OF run, of n] by (intro phi_nonneg [where F = "adram_outs (snd (sim_state (f n)))"]) (simp add: sim_inv_def o3_inv_def)
  obtain N where N: "\<And>n. nat (?p N) \<le> nat (?p n)" using ex_has_least_nat [of "\<lambda>_. True" 0 "\<lambda>n. nat (?p n)"] by auto
  have e: "?p n = ?p N" if "N \<le> n" for n
    using le [of N "n - N"] N [of n] nn [of n] nn [of N] that by simp
  moreover have "still (sim_state (f N)) (sim_state (f (N + k)))" for k
  proof (induction k)
    case (Suc k)
    have "?p (Suc (N + k)) = ?p (N + k)" using e [of "N + k"] e [of "Suc (N + k)"] by simp
    then have "still (sim_state (f (N + k))) (sim_state (f (Suc (N + k))))" using cycle_steps(4) [OF endlessD [OF run], of "N + k"] by blast
    from still_trans [OF Suc this] show ?case by simp
  qed (simp add: still_refl)
  ultimately show ?thesis using that [of N] by (metis le_Suc_ex)
qed

lemma endless_drains:
  assumes run: "endless ops (o3_inv tx) f"
    and st: "\<And>n. N \<le> n \<Longrightarrow> still (sim_state (f N)) (sim_state (f n))"
  obtains M where "\<And>n. M \<le> n \<Longrightarrow> adram_outs (snd (sim_state (f n))) = {#}"
proof -
  obtain B where B: "departs_by B (snd (sim_state (f N)))" using departs_bound by blast
  obtain D where D: "\<forall>t \<in> set (map uminus (mem_times (f 0))). t \<le> D" using list_bound by blast
  define M where "M = max N (nat (fe_ratio * (B + 1) + D))"
  have "adram_outs (snd (sim_state (f n))) = {#}" if n: "M \<le> n" for n
  proof -
    let ?m = "snd (sim_state (f n))" and ?k = "sim_mem_count (f n)"
    have i: "?k < fe_ratio" "adram_ok tx ?m" using endlessD(1) [OF run, of n] by (simp_all add: sim_inv_def o3_ops_def o3_inv_def)
    have "departs_by B ?m" using st [of n] n B by (auto simp: M_def still_def)
    moreover have "B \<le> t" if "t \<in> set (clocks ?m)" for t
    proof -
      have "fe_ratio * t + ?k \<in> set (mem_times (f n))" using that by auto
      then obtain u where u: "u \<in> set (mem_times (f 0))" "fe_ratio * t + ?k = u + int n" unfolding endless_times(2) [OF run, of n] by auto
      have "- u \<le> D" using D u(1) by auto
      moreover have "fe_ratio * (B + 1) + D \<le> int n" using n unfolding M_def by linarith
      ultimately have "fe_ratio * (B + 1) < fe_ratio * (t + 1)" using u(2) i(1) unfolding distrib_left by linarith
      then show ?thesis using ratios(1) by (simp add: mult_less_cancel_left)
    qed
    ultimately show ?thesis using departed [OF i(2)] by blast
  qed
  then show ?thesis using that by blast
qed

lemma no_endless_run:
  assumes run: "endless ops (o3_inv tx) f"
  shows False
proof -
  obtain N where N: "\<And>n. N \<le> n \<Longrightarrow> phi tx (sim_state (f n)) = phi tx (sim_state (f N))" "\<And>n. N \<le> n \<Longrightarrow> still (sim_state (f N)) (sim_state (f n))"
    by (rule endless_settles [OF run]) blast
  obtain M where M: "\<And>n. M \<le> n \<Longrightarrow> adram_outs (snd (sim_state (f n))) = {#}" by (rule endless_drains [OF run N(2)]) blast+
  let ?l = "fe_llc (fst (sim_state (f N)))"
  obtain D where D: "\<forall>t \<in> set (map fst (llc_hit_list ?l) @ map fst (llc_miss_list ?l)). t \<le> D" using list_bound by blast
  text \<open>A late enough cycle in which the frontend ticks.\<close>
  define t0 where "t0 = fe_time (f 0)"
  define K where "K = max 0 D + int N + int M + \<bar>t0\<bar>"
  define n where "n = nat (mem_ratio * K + (mem_ratio - 1) - t0)"
  have K: "0 \<le> K" "D \<le> K" "int N + t0 \<le> K" "int M + t0 \<le> K" "t0 \<le> K" unfolding K_def by linarith+
  have "1 * K \<le> mem_ratio * K" using ratios(2) K(1) by (intro mult_right_mono) simp_all
  then have n: "int n = mem_ratio * K + (mem_ratio - 1) - t0" "int N \<le> int n" "int M \<le> int n"
    using ratios(2) K unfolding n_def by linarith+
  let ?s = "sim_state (f n)" and ?k = "sim_fe_count (f n)"
  have k: "0 \<le> ?k" "?k < mem_ratio" using endlessD(1) [OF run, of n] by (simp_all add: sim_inv_def o3_ops_def)
  have t: "mem_ratio * fe_clk (fst ?s) + ?k = mem_ratio * K + (mem_ratio - 1)" using endless_times(1) [OF run, of n] n(1) by (simp add: t0_def)
  have "(mem_ratio * fe_clk (fst ?s) + ?k) div mem_ratio = fe_clk (fst ?s)" "(mem_ratio * K + (mem_ratio - 1)) div mem_ratio = K"
    using k ratios(2) by (simp_all add: div_pos_pos_trivial)
  then have c: "fe_clk (fst ?s) = K" using t by simp
  then have ti: "mem_ratio \<le> ?k + 1" using t by simp
  have "still (sim_state (f N)) ?s" "adram_outs (snd ?s) = {#}" using N(2) [of n] M [of n] n by simp_all
  note q = this
  have "phi tx (sim_state (f (Suc n))) = phi tx ?s" using N(1) [of n] N(1) [of "Suc n"] n(2) by simp
  from cycle_steps(4) [OF endlessD [OF run] this] ti have d: "\<not> due_at (K + 1) ?s" "\<not> drained ?s" by (simp_all add: c)
  have e: "llc_hit_list (fe_llc (fst ?s)) = llc_hit_list ?l" "map fst (llc_miss_list (fe_llc (fst ?s))) = map fst (llc_miss_list ?l)"
    using q(1) by (simp_all add: still_def)
  have "\<forall>t \<in> set (map fst (llc_hit_list (fe_llc (fst ?s))) @ map fst (llc_miss_list (fe_llc (fst ?s)))). t \<le> K + 1"
    unfolding e using D K(2) by force
  then have le: "\<And>h. h \<in> set (llc_hit_list (fe_llc (fst ?s))) \<Longrightarrow> fst h \<le> K + 1" "\<And>x. x \<in> set (llc_miss_list (fe_llc (fst ?s))) \<Longrightarrow> fst x \<le> K + 1"
    by simp_all
  have nd: "\<And>h. h \<in> set (llc_hit_list (fe_llc (fst ?s))) \<Longrightarrow> \<not> fst h \<le> K + 1" "\<And>x. x \<in> set (llc_miss_list (fe_llc (fst ?s))) \<Longrightarrow> \<not> fst x \<le> K + 1"
    using d(1) q(2) unfolding due_at_def by blast+
  have "llc_hit_list (fe_llc (fst ?s)) = []" "llc_miss_list (fe_llc (fst ?s)) = []" using le nd by (meson list.set_sel(1))+
  with d(2) q(2) show False by (simp add: drained_def)
qed

lemma endless_step:
  assumes inv: "sim_inv ops (o3_inv tx) x" and g: "goes (sim_cycle ops) n x y" and no: "\<nexists>n r. finishes (sim_cycle ops) n x r"
  shows "sim_inv ops (o3_inv tx) y \<and> sim_cycle ops y = Inr (False, snd (projr (sim_cycle ops y)))"
proof -
  have y: "sim_inv ops (o3_inv tx) y" by (rule driver.goes_ok [OF g inv])
  obtain b z where c: "sim_cycle ops y = Inr (b, z)" using driver.cycle_ok [OF y] by blast
  have "\<not> b"
  proof
    assume b
    then have "finishes (sim_cycle ops) 0 y (Inr z)" using c by (intro finishes.ended) simp
    then show False using no goes_finishes [OF g, of n "Inr z"] by auto
  qed
  with c y show ?thesis by simp
qed

text \<open>The loop ends: not by an exception, and with the frontend finished.\<close>

lemma o3_terminates:
  assumes inv: "o3_inv tx s"
  shows "\<exists>x. run_simulation ops s = Some (Inr x) \<and> o3_inv tx (sim_state x) \<and> SimpleO3_is_finished (fst (sim_state x)) = Inr True"
proof -
  let ?x = "sim_start ops s"
  define f where "f n = ((\<lambda>x. snd (projr (sim_cycle ops x))) ^^ n) ?x" for n
  have f: "f 0 = ?x" "\<And>n. f (Suc n) = snd (projr (sim_cycle ops (f n)))" by (simp_all add: f_def)
  have "\<exists>n r. finishes (sim_cycle ops) n ?x r"
  proof (rule ccontr)
    assume no: "\<nexists>n r. finishes (sim_cycle ops) n ?x r"
    have "goes (sim_cycle ops) n ?x (f n) \<and> sim_inv ops (o3_inv tx) (f n) \<and> sim_cycle ops (f n) = Inr (False, f (Suc n))" for n
    proof (induction n)
      case 0
      have g: "goes (sim_cycle ops) 0 ?x (f 0)" by (simp add: f(1))
      from endless_step [OF driver.start_ok [OF inv] g no, folded f(2)] g show ?case by blast
    next
      case (Suc n)
      then have g: "goes (sim_cycle ops) (Suc n) ?x (f (Suc n))" by (elim conjE) (rule goes_snoc)
      from endless_step [OF driver.start_ok [OF inv] g no, folded f(2)] g show ?case by blast
    qed
    then have "endless ops (o3_inv tx) f" by (simp add: endless_def)
    then show False by (rule no_endless_run)
  qed
  then obtain r where r: "plain_simulation ops s = Some r" using ratios by (auto simp: plain_simulation_def run_loop_finishes o3_ops_def)
  with o3_elision [OF inv] have rs: "run_simulation ops s = Some r" by simp
  then obtain n where n: "finishes (sim_step ops) n ?x r" using ratios by (auto simp: run_simulation_def run_loop_finishes o3_ops_def)
  have not_goes: "\<not> goes (sim_step ops) (Suc n) ?x y" for y using goes_finishes [of "sim_step ops" "Suc n" ?x y n r] n by auto
  from o3_ends_or_goes [OF inv] obtain x where x: "run_simulation ops s = Some (Inr x)" "o3_inv tx (sim_state x)"
    using not_goes by blast
  with rs n have "finishes (sim_step ops) n ?x (Inr x)" by simp
  from finishes_last [OF this] obtain y where "sim_step ops y = Inr (True, x)" ..
  then have "SimpleO3_is_finished (fst (sim_state x)) = Inr True" using step_finished [of ops y x] by (simp add: o3_ops_def)
  with x show ?thesis by blast
qed

end

lemma o3_runI:
  assumes "total_translation translate" "atomic_model predict" "0 < fe_ratio" "fe_ratio < 2 ^ 31" "0 < mem_ratio" "mem_ratio < 2 ^ 31"
  shows "o3_run translate predict fe_ratio mem_ratio"
  using assms o3_simulationI [of translate predict] total_translation.axioms(1) unfolding o3_run_def by blast

text \<open>The translations of the repository never refuse; with them and the constant model the simulation terminates.\<close>

interpretation no_total: total_translation "no_translator max_paddr"
  by unfold_locales (simp add: no_translator_def)

interpretation random_total: total_translation random_translator
  by unfold_locales (simp add: random_translator_def split: prod.splits)

interpretation no_run: o3_run "no_translator max_paddr" AtomicController_predict 1 1 tx for max_paddr tx
  by unfold_locales simp_all

interpretation random_run: o3_run random_translator AtomicController_predict 1 1 tx for tx
  by unfold_locales simp_all

end
