(* ===== verification/Simulation_Properties.thy ===== *)
theory Simulation_Properties
  imports O3_Termination Example_Config
begin

text \<open>
  Properties of a whole simulation and of the core's window.
\<close>

section \<open>An example\<close>

text \<open>
  One core with a trace of a bubble and a load, a cache of one line, and one atomic controller of
  the example configuration.
\<close>

definition ex_o3 :: SimpleO3Config where
  "ex_o3 = \<lparr>o3_num_expected_insts = 2, o3_allow_trace_wrap = False,
     o3_traces = [[\<lparr>bubble_count = 1, load_addr = 128, store_addr = -1\<rparr>]], o3_ipc = 1, o3_depth = 2,
     o3_llc_latency = 1, o3_llc_linesize_bytes = 64, o3_llc_associativity = 1, o3_llc_capacity_per_core = 64,
     o3_llc_num_mshr_per_core = 1\<rparr>"

definition ex_acfg :: AtomicConfig where
  "ex_acfg = \<lparr>ac_latency = 9, ac_read_buffer_size = 1, ac_write_buffer_size = 1, ac_wr_low_watermark = Some 0,
     ac_wr_high_watermark = Some 1, ac_model_parameters = [], ac_refresh = ''none'', ac_dram_impl = ''DDR3'', ac_dram = ex_cfg\<rparr>"

definition ex_atomic :: "unit AtomicController" where
  "ex_atomic = \<lparr>at_channel_id = -1, at_clk = 0, at_device = ex_dev, at_addr_mapper = BaseMapper (RoBaRaCoCh ex_mapper), at_tCK_ps = 1250,
     at_latency = 9, at_read_buffer_size = 1, at_write_buffer_size = 1, at_model = (), at_pending = [],
     at_next_sequence = 0, at_inflight_reads = 0, at_inflight_writes = 0, at_measured_clk = 0,
     at_num_read_reqs = 0, at_num_write_reqs = 0, at_num_read_reqs_served = 0,
     at_num_write_reqs_served = 0, at_read_latency = 0, at_send_rejects = 0,
     at_peak_inflight_reads = 0, at_peak_inflight_writes = 0\<rparr>"

definition ex_adram :: "unit AtomicDRAM" where
  "ex_adram = \<lparr>ad_channel_mapper = CacheLineInterleave \<lparr>ch_param = 0, m_num_channels = 1, m_ch_shift = 6, m_ch_width = 0\<rparr>,
     ad_controllers = [Atomic_set_channel_id 0 ex_atomic], ad_next_admission_ordinal = [0], ad_clock_ratio = 1, ad_tx_bytes = 64,
     ad_num_read_requests = 0, ad_num_write_requests = 0\<rparr>"

definition ex_fe :: "unit SimpleO3" where
  "ex_fe = projr (SimpleO3_init ex_o3 ())"

lemma ex_fe_init: "SimpleO3_init ex_o3 () = Inr ex_fe"
proof -
  have "\<not> isl (SimpleO3_init ex_o3 ())" by code_simp
  then show ?thesis by (cases "SimpleO3_init ex_o3 ()") (simp_all add: ex_fe_def)
qed

lemma ex_tCK: "get_timing_value ex_spec ''tCK_ps'' = Inr 1250"
  by code_simp

lemma ex_atomic_init: "Atomic_init ex_mk AtomicController_init_model ex_acfg = Inr ex_atomic"
  by (simp add: Atomic_init_def ex_acfg_def ex_create ex_device_init ex_tCK ex_mk_def ex_mapper_init AtomicController_init_model_def ex_atomic_def)

lemma ex_atomic_created: "atomic_created AtomicController_init_model ex_atomic"
  using ex_atomic_init by (auto simp: atomic_created_def ex_atomic_def)

lemma ex_adram_init: "AtomicDRAM_init 1 (CacheLineInterleave_config 0) [ex_atomic] = Inr ex_adram"
proof -
  have "get_tx_bytes (m_spec (at_device (Atomic_set_channel_id 0 ex_atomic))) = 64" "calc_log2 64 = 6" "calc_log2 1 = 0" by code_simp+
  then show ?thesis by (simp add: AtomicDRAM_init_def Let_def CacheLineInterleave_setup_def ex_adram_def)
qed

lemma ex_tx: "ad_tx_bytes ex_adram = 64"
  by (simp add: ex_adram_def)

definition ex_sim_ops :: "(unit SimpleO3 \<times> unit AtomicDRAM) sim_ops" where
  "ex_sim_ops = o3_ops 1 1 64 (no_translator 4096) AtomicController_predict"

text \<open>The run of the example takes five iterations, and twelve ticks of the frontend.\<close>

lemma ex_run: "map_option (map_sum id (\<lambda>x. fe_clk (fst (sim_state x)))) (run_for 5 (sim_step ex_sim_ops) (sim_start ex_sim_ops (ex_fe, ex_adram))) = Some (Inr 12)"
  by code_simp

lemma ex_simulation: "\<exists>x. run_simulation ex_sim_ops (ex_fe, ex_adram) = Some (Inr x) \<and> fe_clk (fst (sim_state x)) = 12"
proof -
  obtain x where r: "run_for 5 (sim_step ex_sim_ops) (sim_start ex_sim_ops (ex_fe, ex_adram)) = Some (Inr x)" "fe_clk (fst (sim_state x)) = 12"
    using ex_run by (cases "run_for 5 (sim_step ex_sim_ops) (sim_start ex_sim_ops (ex_fe, ex_adram))") (auto simp: map_sum_def split: sum.splits)
  from run_for_loop [OF r(1)] r(2) show ?thesis by (simp add: run_simulation_def ex_sim_ops_def o3_ops_def)
qed

section \<open>Simulations\<close>

text \<open>Property C9. Jumping over idle stretches does not change a simulation: \<^verbatim>\<open>run_simulation\<close> of the SimpleO3
  frontend over atomic controllers has exactly the result of the loop that executes every tick, final
  state and statistics included, and it ends exactly when that loop does. This holds for every
  translation that only replaces addresses and every latency model that answers with a future
  departure.\<close>

theorem tick_elision_sound:
  assumes fe: "SimpleO3_init cfg tr = Inr fe" and m: "AtomicDRAM_init mem_ratio (CacheLineInterleave_config bits) cs = Inr m"
    "\<forall>c \<in> set cs. atomic_created init_model c" "0 < ad_tx_bytes m"
    and ratios: "0 < fe_ratio" "fe_ratio < 2 ^ 31" "0 < mem_ratio" "mem_ratio < 2 ^ 31"
    and params: "translation translate" "atomic_model predict"
  shows "run_simulation (o3_ops fe_ratio mem_ratio (ad_tx_bytes m) translate predict) (fe, m) =
    plain_simulation (o3_ops fe_ratio mem_ratio (ad_tx_bytes m) translate predict) (fe, m)"
  by (rule o3_simulation.o3_elision [OF o3_simulationI [OF params ratios] o3_start [OF fe m]])

theorem tick_elision_sound_witness:
  "\<exists>x. run_simulation ex_sim_ops (ex_fe, ex_adram) = Some (Inr x) \<and> plain_simulation ex_sim_ops (ex_fe, ex_adram) = Some (Inr x) \<and>
     fe_clk (fst (sim_state x)) = 12"
proof -
  have "run_simulation ex_sim_ops (ex_fe, ex_adram) = plain_simulation ex_sim_ops (ex_fe, ex_adram)"
    using tick_elision_sound [OF ex_fe_init ex_adram_init _ _ _ _ _ _ no_tr.translation_axioms seed.atomic_model_axioms, of AtomicController_init_model 1 4096]
      ex_atomic_created by (simp add: ex_tx ex_sim_ops_def)
  with ex_simulation show ?thesis by auto
qed

text \<open>Property C10. Every simulation ends. From a system as the factory builds it, \<^verbatim>\<open>run_simulation\<close> returns, and
  not by an exception: none of the checks in the cores, the last-level cache, the memory system or its
  atomic controllers fails. At the end every core has retired exactly the instructions it was to
  execute and its window is empty, the cache passes the checks of \<^verbatim>\<open>finalize\<close>, and no request is left in
  the memory. This holds for every trace, every translation that only replaces addresses and never
  refuses, and every latency model that answers with a future departure.\<close>

theorem simulation_terminates:
  assumes fe: "SimpleO3_init cfg tr = Inr fe" and m: "AtomicDRAM_init mem_ratio (CacheLineInterleave_config bits) cs = Inr m"
    "\<forall>c \<in> set cs. atomic_created init_model c" "0 < ad_tx_bytes m"
    and ratios: "0 < fe_ratio" "fe_ratio < 2 ^ 31" "0 < mem_ratio" "mem_ratio < 2 ^ 31"
    and params: "total_translation translate" "atomic_model predict"
  shows "\<exists>x fe' m'. run_simulation (o3_ops fe_ratio mem_ratio (ad_tx_bytes m) translate predict) (fe, m) = Some (Inr x) \<and> sim_state x = (fe', m') \<and>
    (\<forall>c \<in> set (fe_cores fe'). s_insts_retired c = c_num_expected_insts c \<and> w_load (c_window c) = 0) \<and>
    LLC_finalize (fe_llc fe') = Inr () \<and> (\<forall>c \<in> set (ad_controllers m'). at_pending c = [])"
proof -
  from o3_run.o3_terminates [OF o3_runI [OF params ratios] o3_start [OF fe m]] obtain x where
    x: "run_simulation (o3_ops fe_ratio mem_ratio (ad_tx_bytes m) translate predict) (fe, m) = Some (Inr x)"
      "o3_inv (ad_tx_bytes m) (fst (sim_state x), snd (sim_state x))" "SimpleO3_is_finished (fst (sim_state x)) = Inr True" by auto
  note d = finished_done [OF x(2,3)]
  have "\<forall>c \<in> set (ad_controllers (snd (sim_state x))). at_pending c = []" using adram_outs_empty [OF d(3)] by blast
  with x(1) d(1,2) prod.collapse [of "sim_state x"] show ?thesis by metis
qed

theorem simulation_terminates_witness:
  "\<exists>x fe' m'. run_simulation ex_sim_ops (ex_fe, ex_adram) = Some (Inr x) \<and> sim_state x = (fe', m') \<and>
     (\<forall>c \<in> set (fe_cores fe'). s_insts_retired c = c_num_expected_insts c \<and> w_load (c_window c) = 0) \<and>
     LLC_finalize (fe_llc fe') = Inr () \<and> (\<forall>c \<in> set (ad_controllers m'). at_pending c = [])"
  using simulation_terminates [OF ex_fe_init ex_adram_init _ _ _ _ _ _ no_total.total_translation_axioms seed.atomic_model_axioms,
      of AtomicController_init_model 1 4096] ex_atomic_created by (simp add: ex_tx ex_sim_ops_def)

text \<open>Property C12. After any number of iterations the simulated machine is consistent. In the cache the
  sets are bounded with distinct tags, the MSHRs are exactly the lines in flight, every MSHR has waiting
  requests and the live identities are those of the waiting requests and the hits. In every atomic
  controller the pending requests are ordered by departure, all in the future, and the reads and writes
  in flight are counted and within the buffer sizes.\<close>

theorem simulation_consistent:
  assumes fe: "SimpleO3_init cfg tr = Inr fe" and m: "AtomicDRAM_init mem_ratio (CacheLineInterleave_config bits) cs = Inr m"
    "\<forall>c \<in> set cs. atomic_created init_model c" "0 < ad_tx_bytes m"
    and ratios: "0 < fe_ratio" "fe_ratio < 2 ^ 31" "0 < mem_ratio" "mem_ratio < 2 ^ 31"
    and params: "translation translate" "atomic_model predict"
    and ops: "ops = o3_ops fe_ratio mem_ratio (ad_tx_bytes m) translate predict"
    and run: "goes (sim_step ops) n (sim_start ops (fe, m)) x" "sim_state x = (fe', m')"
  shows "llc_inv (fe_clk fe') {#} (fe_llc fe') \<and> (\<forall>c \<in> set (ad_controllers m'). atomic_ok c)"
proof -
  note sys = o3_simulationI [OF params ratios]
  have "sim_inv ops (o3_inv (ad_tx_bytes m)) (sim_start ops (fe, m))"
    using o3_start [OF fe m] ratios by (simp add: sim_inv_def sim_start_def ops o3_ops_def)
  from o3_simulation.o3_reached [OF sys run(1) [unfolded ops] this [unfolded ops]] run(2) show ?thesis
    by (simp add: sim_inv_def o3_inv_def fe_ok_def fe_mid_def adram_ok_def)
qed

theorem simulation_consistent_witness:
  "\<exists>x. goes (sim_step ex_sim_ops) 4 (sim_start ex_sim_ops (ex_fe, ex_adram)) x \<and>
     llc_inv (fe_clk (fst (sim_state x))) {#} (fe_llc (fst (sim_state x))) \<and> (\<forall>c \<in> set (ad_controllers (snd (sim_state x))). atomic_ok c)"
proof -
  have "run_for 4 (sim_step ex_sim_ops) (sim_start ex_sim_ops (ex_fe, ex_adram)) = None" by code_simp
  from run_for_goes [OF this] obtain x where x: "goes (sim_step ex_sim_ops) 4 (sim_start ex_sim_ops (ex_fe, ex_adram)) x" ..
  with simulation_consistent [OF ex_fe_init ex_adram_init _ _ _ _ _ _ no_tr.translation_axioms seed.atomic_model_axioms _ x,
      of AtomicController_init_model 1 4096 "fst (sim_state x)" "snd (sim_state x)"] ex_atomic_created show ?thesis
    by (auto simp: ex_tx ex_sim_ops_def)
qed

section \<open>The instruction window\<close>

text \<open>The specification of the window: a queue of entries.\<close>

definition queue_insert :: "nat \<Rightarrow> entry \<Rightarrow> entry list \<Rightarrow> entry list option" where
  "queue_insert depth e q = (if length q < depth then Some (q @ [e]) else None)"

definition queue_retire :: "nat \<Rightarrow> entry list \<Rightarrow> nat \<times> entry list" where
  "queue_retire ipc q = (let n = length (takeWhile e_ready (take ipc q)) in (n, drop n q))"

fun queue_mark :: "int \<Rightarrow> entry list \<Rightarrow> entry list option" where
  "queue_mark i [] = None"
| "queue_mark i (e # q) = (if e_id e = i then Some (e\<lparr>e_ready := True\<rparr> # q) else map_option (Cons e) (queue_mark i q))"

lemma queue_mark_pos:
  "queue_mark i q = map_option (\<lambda>k. q[k := (q ! k)\<lparr>e_ready := True\<rparr>]) (find_pos (\<lambda>e. e_id e = i) q)"
  by (induction q) (auto simp: option.map_comp o_def intro!: option.map_cong)

text \<open>Property C11. The ring buffer of the instruction window implements a bounded queue: inserting appends
  unless the window is full, retiring removes the ready entries at the front, at most \<open>ipc\<close> of
  them, and a completion marks the oldest entry with its identity, or reports that there is none.\<close>

theorem window_refines_queue:
  assumes ok: "win_ok w"
  shows "(is_full w \<longleftrightarrow> queue_insert (w_depth w) e (entries w) = None) \<and>
    (\<not> is_full w \<longrightarrow> (\<exists>w'. win_insert (e_ready e) (e_addr e) (e_id e) w = Inr w' \<and> win_ok w' \<and>
        queue_insert (w_depth w) e (entries w) = Some (entries w'))) \<and>
    (\<exists>n w'. retire w = Inr (n, w') \<and> win_ok w' \<and> queue_retire (w_ipc w) (entries w) = (n, entries w')) \<and>
    (0 \<le> i \<longrightarrow> (\<exists>w'. win_ok w' \<and> (case queue_mark i (entries w) of
        None \<Rightarrow> set_ready i w = Inr (False, w) | Some q \<Rightarrow> set_ready i w = Inr (True, w') \<and> entries w' = q)))"
proof (intro conjI impI)
  have ld: "w_load w \<le> w_depth w" using ok by (simp add: win_ok_def)
  then show "is_full w \<longleftrightarrow> queue_insert (w_depth w) e (entries w) = None" by (auto simp: is_full_def queue_insert_def)
  show "\<exists>w'. win_insert (e_ready e) (e_addr e) (e_id e) w = Inr w' \<and> win_ok w' \<and> queue_insert (w_depth w) e (entries w) = Some (entries w')"
    if "\<not> is_full w" using win_insert_entries [OF ok that, of "e_ready e" "e_addr e" "e_id e"] that ld by (auto simp: queue_insert_def is_full_def)
  show "\<exists>n w'. retire w = Inr (n, w') \<and> win_ok w' \<and> queue_retire (w_ipc w) (entries w) = (n, entries w')"
    by (rule retire_entries [OF ok]) (auto simp: queue_retire_def Let_def)
  show "\<exists>w'. win_ok w' \<and> (case queue_mark i (entries w) of
      None \<Rightarrow> set_ready i w = Inr (False, w) | Some q \<Rightarrow> set_ready i w = Inr (True, w') \<and> entries w' = q)" if i: "0 \<le> i"
  proof (cases "find_pos (\<lambda>e. e_id e = i) (entries w)")
    case None
    then show ?thesis using set_ready_entries [OF ok i] ok by (auto simp: queue_mark_pos)
  next
    case (Some k)
    then have "k < w_load w" by (simp add: find_pos_Some)
    from marked_entries [OF ok this] Some show ?thesis using set_ready_entries [OF ok i] by (auto simp: queue_mark_pos)
  qed
qed

theorem window_refines_queue_witness:
  "\<exists>w'. win_insert False 64 7 (InstWindow_new 1 2) = Inr w' \<and> entries w' = [\<lparr>e_ready = False, e_addr = 64, e_id = 7\<rparr>]"
proof -
  have "win_ok (InstWindow_new 1 2)" "\<not> is_full (InstWindow_new 1 2)" "entries (InstWindow_new 1 2) = []" by code_simp+
  moreover from this window_refines_queue [of "InstWindow_new 1 2" "\<lparr>e_ready = False, e_addr = 64, e_id = 7\<rparr>" 0] obtain w' where
    "win_insert False 64 7 (InstWindow_new 1 2) = Inr w'" "queue_insert (w_depth (InstWindow_new 1 2)) \<lparr>e_ready = False, e_addr = 64, e_id = 7\<rparr> [] = Some (entries w')"
    by auto
  ultimately show ?thesis by (auto simp: queue_insert_def split: if_splits)
qed

end
