(* ===== verification/Deviations.thy ===== *)
theory Deviations
  imports Refresh_Properties Plugin_Properties
begin

text \<open>
  Places where the code does something other than what it, or a comment beside it, means to
  do, each pinned down on the definitions of the component. Two more are stated with their
  components: \<open>permute_collides\<close> (frames of the random translation) and
  \<open>RRS_reswap_collides\<close> (rows swapped twice in an epoch).
\<close>

text \<open>
  \<^verbatim>\<open>tokenize\<close> steps one character past a match, so the tail of a longer delimiter stays in
  the next token.
\<close>

lemma tokenize_keeps_delimiter_tail: "tokenize [] ''a::b'' ''::'' = [''a'', '':b'']"
  by code_simp

text \<open>
  All-bank refresh has no scope for the two standards with victim-row refresh, which the
  row-hammer plugins require.
\<close>

lemma AllBank_refuses_VRR_standards:
  "standard_name (m_spec dev) \<in> {''DDR4_VRR'', ''DDR5_VRR''} \<Longrightarrow>
   AllBank_init k dev = throw ''AllBank refresh: no default scope for DRAM standard''"
  by (auto simp: AllBank_init_def Let_def all_bank_refresh_scope_for_def all_bank_refresh_scopes_def)

text \<open>
  A victim-row refresh is lost when the priority buffer is full: the request is not queued,
  nothing is reported, and Graphene starts counting the row from the spillover value again.
\<close>

lemma Graphene_loses_refresh:
  assumes full: "length (buffer (m_priority_buffer c)) = max_size (m_priority_buffer c)"
    and cmd: "0 \<le> gr_vrr_cmd_id p" "gr_vrr_cmd_id p < int (command_count (spec_of c))"
    and o: "Graphene_observe iter (m_device c) req p = ([Request_Cmd av (gr_vrr_cmd_id p)], p')"
  shows "plugin_on_issue req (Plugins.Graphene iter p, c) = Inr (Plugins.Graphene iter p', c)"
  using full cmd by (simp add: o observed_def Request_Cmd_def send_all_def priority_send_def enqueue_def Let_def)

end
