(* ===== verification/Spec2Isabelle.thy ===== *)
theory Spec2Isabelle
  imports Channel_Safety Device_Properties Controller_Properties Refresh_Properties Plugin_Properties System_Properties
    Migration_Properties Split_Properties Simulation_Properties Deviations
begin

text \<open>
  \<^bold>\<open>A verification library for Ramulator, a cycle-level DRAM simulator.\<close>

  All paths below are relative to \<^verbatim>\<open>src/ramulator/src/ramulator\<close>.

  \<^bold>\<open>The program.\<close> A memory system owns one controller per channel and a channel mapper that
  sends every request to one of them. A controller maps the address of a request to a vector
  of coordinates (rank, bank, row, column), keeps it in a read or a write buffer and, once per
  tick, asks its scheduler for a request whose next command may be issued. The DRAM device
  answers two questions about a command: which command has to come first (the prerequisite,
  from the state of the banks), and whether all timing constraints allow it now (from a tree
  of nodes that remembers when commands were issued). Refresh managers, row policies and
  plugins inject maintenance requests through a priority buffer. The DRAM standards (DDR3 to
  HBM4) are tables over one set of command structs. In front of the memory system stands a
  frontend; the one modelled here, SimpleO3, replays instruction traces on out-of-order cores
  with a shared last-level cache. The driver ticks frontend and memory by their clock ratios
  and jumps over stretches in which both are idle. Atomic controllers replace the command-level
  machinery by a model that fixes the departure of a request on admission.

  \<^bold>\<open>Conventions.\<close> A class or struct is a record with the members of the source; methods are
  functions that return the new state. \<^verbatim>\<open>throw\<close> is a value of \<open>'a result\<close>
  (\<open>Ram_Prelude\<close>). Addresses are 64-bit integers whose bit operations are those of HOL on
  \<open>int\<close>; where the code multiplies with wrap-around (\<open>permute\<close>) the model uses 64-bit words.
  Counters that the code keeps in a 32-bit \<^verbatim>\<open>int\<close> and raises for as long as the simulation runs
  (the totals of the memory system, the counters of the cache, the cycle counters of Graphene,
  RRS and AQUA) are 32-bit words, read with \<open>sint\<close>; the code's signed overflow is taken to wrap.
  Counters of type \<^verbatim>\<open>size_t\<close> and clocks of 64 bits are unbounded.
  Pointers into the node tree are paths; iterators into a request buffer are indices. The
  order in which \<^verbatim>\<open>std::unordered_map\<close> is iterated, in the plugins' tables and in the row
  indirection table, and the sequences of random numbers are
  parameters of the definitions that use them, and a theorem quantifies over them. Debug
  output, logging and the registration of statistics are left out.

  \<^bold>\<open>The theories.\<close>
  \<^item> \<open>Ram_Prelude\<close>, \<open>Ram_Utils\<close>, \<open>Ram_Request\<close>: result type and loops that may throw;
    \<^verbatim>\<open>base/utils\<close>; \<^verbatim>\<open>base/request\<close> and \<^verbatim>\<open>ReqBuffer\<close> of \<^verbatim>\<open>controller/i_controller.h\<close>.
  \<^item> \<open>Dram_Spec\<close>, \<open>Dram_Commands\<close>, \<open>Dram_Standards\<close>: \<^verbatim>\<open>dram/dram_spec\<close>, \<^verbatim>\<open>dram/commands\<close>,
    \<^verbatim>\<open>dram/impl\<close>. \<open>Bank_Protocol\<close> studies one bank under the prerequisite handlers.
  \<^item> \<open>Dram_Node\<close>, \<open>Node_Timing\<close>: \<^verbatim>\<open>dram/node\<close>, and what the timing tree computes, as obligations
    raised by the history of commands.
  \<^item> \<open>Dram_Device\<close>, \<open>Device_Banks\<close>: \<^verbatim>\<open>dram/device\<close>, and that every bank of a reachable device is
    closed, activating or has exactly one open row.
  \<^item> \<open>Addr_Mappers\<close>, \<open>Row_Indirection\<close>: \<^verbatim>\<open>controller/addr_mapper\<close>. The locale \<open>addr_codec\<close> is the
    contract of an invertible decomposition; it is interpreted for the three bit-slicing mappers.
  \<^item> \<open>Controller_Base\<close>, \<open>Schedulers\<close>, \<open>Row_Policies\<close>, \<open>Refresh_Managers\<close>: \<^verbatim>\<open>controller/controller_base\<close>,
    \<^verbatim>\<open>controller/scheduler\<close>, \<^verbatim>\<open>controller/rowpolicy\<close>, \<^verbatim>\<open>controller/refresh\<close>. The locale \<open>scheduler\<close> is
    what a controller relies on: the pick is eligible and only commands are rewritten.
  \<^item> \<open>Activation_Trackers\<close>, \<open>Trr_Plugins\<close>, \<open>Plugins\<close>, \<open>Row_Migration\<close>: \<^verbatim>\<open>controller/plugin\<close>.
    \<open>Row_Hammer\<close> holds the locale \<open>tracker\<close>, the argument by which a plugin that counts
    activations answers in time, interpreted for OracleRH and TWiCe and shown for Graphene;
    \<open>Rfm_Targets\<close> shows it for the refresh manager, whose requests reach the bank that asked for them.
  \<^item> \<open>Generic_DDR\<close>: the tick of \<^verbatim>\<open>controller/impl/generic_ddr_controller.cpp\<close>, with row policy and plugins.
  \<^item> \<open>Controller_Inv\<close>, \<open>Controller_Device\<close>: the reachable states of a controller, the invariants of its
    buffers and the invariant that ties buffers, active counts and bank states together. The steps
    between reachable states, here and for the split-bus controllers and the memory system, are
    requests, ticks and resets of the statistics (\<^verbatim>\<open>reset_stats_recursive\<close>, which a frontend may call in
    the middle of a run); \<open>ctrl_since\<close> adds to such a run what was outstanding at the last reset.
  \<^item> \<open>Split_Bus\<close>, \<open>Split_Slots\<close>, \<open>Split_Cycle\<close>: \<^verbatim>\<open>controller/impl/hbm_controller_base\<close> and its
    subclasses, whose tick serves a column and a row slot, as cycles of a bus with two slots.
    \<open>HBM34_Edges\<close> and \<open>GDDR7_Clock\<close> hold the invariants of the subclasses with state of their own.
  \<^item> \<open>Channel_Mappers\<close>, \<open>Memory_System\<close>: \<^verbatim>\<open>memory_system\<close> and \<^verbatim>\<open>translation\<close>. The locale
    \<open>interleaving\<close> is the contract of a mapper that cuts the channel bits out of an address.
  \<^item> \<open>LLC\<close>, \<open>O3_Core\<close>, \<open>SimpleO3\<close>: \<^verbatim>\<open>frontend/impl/processor/simpleO3\<close>, the cache, a core with its
    trace and instruction window, and the frontend with its completion callbacks. A callback is
    a number; the model of the memory returns the requests whose callbacks run, in order.
    \<open>LLC_Inv\<close> and \<open>LLC_Flow\<close> hold the invariants of the cache and of what it has sent out,
    \<open>O3_Window\<close> the window as a queue, \<open>O3_Inv\<close> the invariant of a core and \<open>O3_System\<close> that of
    cores and cache together, \<open>O3_Idle\<close> what \<^verbatim>\<open>idle_ticks\<close> promises, \<open>O3_Progress\<close> the measure of what a
    core has left to do. The locale \<open>translation\<close> is what a core relies on in the address
    translation (\<open>total_translation\<close>: it never refuses), \<open>memory_port\<close> what the cache relies on in the
    memory (every accepted request is called back exactly once), and \<open>o3_system\<close> joins them.
  \<^item> \<open>Atomic_Controller\<close>, \<open>Atomic_System\<close>: \<^verbatim>\<open>controller/impl/atomic_controller_base.h\<close> with its two
    subclasses and \<^verbatim>\<open>controller/atomic_model/api.h\<close>, and the memory system over such controllers.
    The locale \<open>atomic_model\<close> says that a model answers with a future departure, which gives the
    contract \<open>memory_port\<close>.
  \<^item> \<open>Simulation\<close>, \<open>O3_Simulation\<close>: \<^verbatim>\<open>base/simulation.cpp\<close> over the operations of a frontend and a
    memory system. The locale \<open>elidable\<close> is the contract of \<^verbatim>\<open>idle_ticks\<close> and \<^verbatim>\<open>fast_forward\<close>; the second
    theory shows it for SimpleO3 over atomic controllers (\<open>o3_simulation\<close>). \<open>O3_Termination\<close>: such a
    simulation ends (\<open>o3_run\<close>), by a measure of the work of the cores, the queues of the cache and
    the requests in the memory.
  \<^item> \<open>Example_Config\<close>: a small DDR3 system; the witnesses run on it. \<open>Split_Example\<close>: the same for
    GDDR7 and HBM3.

  \<^bold>\<open>What is shown.\<close>
  \<^item> \<open>Channel_Safety\<close>: a channel under its controller issues at most one command per cycle, only
    commands whose timing obligations have expired, accesses only rows that are open and
    refreshes only closed banks; a tick refines one cycle of an abstract command bus.
  \<^item> \<open>Device_Properties\<close>: the timing tree is equivalent to the declarative obligations, the tree
    traversal that skips subtrees is the full one, mappers round-trip, prerequisites resolve in
    at most three commands and never throw, configuration loading succeeds exactly when it should
    and fills the constraint table with exactly the lines of the configuration.
  \<^item> \<open>Controller_Properties\<close>: requests are conserved, buffers are bounded and indexed, the
    schedulers pick what they promise, reads complete in order, write mode never starves; resets of
    the statistics are part of the runs.
  \<^item> \<open>Refresh_Properties\<close>: no due refresh is skipped or late; over a whole run from its creation,
    per-bank refresh goes round robin at its due clocks and pauses between sets where it has to.
  \<^item> \<open>Plugin_Properties\<close>, \<open>Migration_Properties\<close>: rows that are activated often enough get their
    refresh; in every run of RRS from its setup swapped rows never share a physical row, as long
    as no reswap draws a row twice or draws the partner of the row it moves.
  \<^item> \<open>System_Properties\<close>: routing to one channel with the channel bits cut out, lossless
    interleaving, totals at their width, and the refinement of every channel's command bus by the
    steps of the whole system.
  \<^item> \<open>Split_Properties\<close>: the controllers of HBM and GDDR7 respect timing on both buses and refine a
    cycle of two slots; the edge rules of HBM3 and HBM4; reads of GDDR7 find their clock running.
  \<^item> \<open>Simulation_Properties\<close>: every simulation of SimpleO3 over atomic controllers ends, without an
    exception and with all work done; it keeps cache and controllers consistent and does not
    depend on the elision of idle ticks; the instruction window refines a queue.
  \<^item> \<open>Deviations\<close>: where the code and its intention part.

  \<^bold>\<open>Fuel and loops.\<close> Only \<open>service\<close> (\<open>Bank_Protocol\<close>) runs on fuel; 4 is enough, as
  \<open>access_served_in_three\<close> proves. Two loops of the modelled code may run forever and are
  partial functions: \<open>random_cold_row\<close>, which \<open>random_cold_row_returns\<close> shows to return as soon as a
  later draw suits, and \<open>run_loop\<close>, the driver, which \<open>simulation_terminates\<close> shows to return for
  SimpleO3 over atomic controllers; \<open>run_for\<close> is a bounded run of it for the examples. Every other loop is total.

  \<^bold>\<open>Not modelled.\<close> The Hydra plugin and the trace recorders; the controllers for LPDDR,
  PRAC and BlockHammer; the latency models in floating point; the other frontends (trace
  replay, the external port, the BlockHammer cores); the parsing of trace files and parameter
  strings; the factory, YAML configuration, logging, Python
  bindings and process control; vendored libraries and simulators. RRS and AQUA are modelled as
  operations on a controller but are not among the plugins the tick dispatches to, since their
  copies are requests with a type of their own and their drawing loop need not end.
\<close>

end
